(* ===== verification/Prelude.thy ===== *)
theory Prelude
  imports Main "HOL-Library.Word" "HOL-Library.Monad_Syntax"
begin

text \<open>
  Shared vocabulary of the development.

  C's \<open>uint32_t\<close> is \<open>u32\<close>, a 32-bit word whose arithmetic wraps as C's does; a C \<open>int\<close> of the
  configuration is an \<open>int\<close> and is converted with \<open>u32i\<close> where the code mixes it into unsigned
  arithmetic. Bit fields (\<open>lpn:16\<close>, \<open>size:15\<close>) are naturals that are truncated where the code
  stores into them (\<open>fld16\<close>, \<open>fld15\<close>). The value \<open>-1\<close> of an unsigned variable is \<open>M1\<close>.

  An operation that can dereference a null or dangling pointer, or that may not return, has a
  result of type \<open>'a option\<close>: \<open>None\<close> is undefined behaviour or non-termination, so a theorem
  that such an operation succeeds is a theorem that it returns \<open>Some\<close>.

  Arrays are functions from indices; \<open>foldM\<close> is the C \<open>for\<close> loop over a list of indices whose
  body may fail.
\<close>

type_synonym u32 = "32 word"

abbreviation u32i :: "int \<Rightarrow> u32" where
  "u32i \<equiv> word_of_int"

abbreviation M1 :: u32 where
  "M1 \<equiv> - 1"

text \<open>The facts that evaluate the guards of an operation in a well-formed state, and the
  elementary facts about the bit fields.\<close>

named_theorems wf_simps
named_theorems fld_simps

definition fld16 :: "int \<Rightarrow> nat" where
  "fld16 x = nat (x mod 65536)"

definition fld15 :: "int \<Rightarrow> nat" where
  "fld15 x = nat (x mod 32768)"

lemma fld16_id [fld_simps]: "0 \<le> x \<Longrightarrow> x < 65536 \<Longrightarrow> fld16 x = nat x"
  by (simp add: fld16_def)

lemma fld15_id [fld_simps]: "0 \<le> x \<Longrightarrow> x < 32768 \<Longrightarrow> fld15 x = nat x"
  by (simp add: fld15_def)

lemma fld16_bound: "fld16 x < 65536"
  by (simp add: fld16_def nat_less_iff)

lemma fld15_bound: "fld15 x < 32768"
  by (simp add: fld15_def nat_less_iff)

subsection \<open>Loops whose body may fail\<close>

fun foldM :: "('a \<Rightarrow> 's \<Rightarrow> 's option) \<Rightarrow> 'a list \<Rightarrow> 's \<Rightarrow> 's option" where
  "foldM f [] s = Some s"
| "foldM f (x # xs) s = do { s1 \<leftarrow> f x s; foldM f xs s1 }"

lemma foldM_append: "foldM f (xs @ ys) s = do { s1 \<leftarrow> foldM f xs s; foldM f ys s1 }"
  by (induction xs arbitrary: s) (auto split: Option.bind_split)

lemma foldM_invariant:
  assumes "foldM f xs s = Some t" and "P s"
    and "\<And>x s t. x \<in> set xs \<Longrightarrow> P s \<Longrightarrow> f x s = Some t \<Longrightarrow> P t"
  shows "P t"
  using assms
proof (induction xs arbitrary: s)
  case Nil
  then show ?case by simp
next
  case (Cons x xs)
  then obtain s1 where "f x s = Some s1" and "foldM f xs s1 = Some t"
    by (auto simp: bind_eq_Some_conv)
  with Cons show ?case by (metis list.set_intros)
qed

lemma foldM_total:
  assumes "\<And>x s. x \<in> set xs \<Longrightarrow> P s \<Longrightarrow> \<exists>t. f x s = Some t \<and> P t" and "P s"
  shows "\<exists>t. foldM f xs s = Some t \<and> P t"
  using assms
proof (induction xs arbitrary: s)
  case Nil
  then show ?case by simp
next
  case (Cons x xs)
  then obtain s1 where "f x s = Some s1" and "P s1"
    by (meson list.set_intros(1))
  with Cons show ?case by auto
qed

lemma foldM_Some_fold: "foldM (\<lambda>x s. Some (f x s)) xs s = Some (fold f xs s)"
  by (induction xs arbitrary: s) auto

subsection \<open>Words\<close>

lemma unat_u32i: "0 \<le> x \<Longrightarrow> x < 2 ^ 32 \<Longrightarrow> unat (u32i x) = nat x"
  by (simp add: unat_eq_nat_uint uint_word_of_int_eq take_bit_eq_mod)

lemma unat_M1 [simp]: "unat M1 = 4294967295"
  by (simp add: unsigned_minus_1_eq_mask mask_eq_exp_minus_1)

lemma word_le_not_M1: "unat (x::u32) < 4294967295 \<Longrightarrow> x \<noteq> M1"
  by auto

lemma unat_inc: "unat (x::u32) < 4294967295 \<Longrightarrow> unat (x + 1) = unat x + 1"
  by (simp add: unat_word_ariths)

lemma unat_add_id: "unat (x::u32) + unat y < 4294967296 \<Longrightarrow> unat (x + y) = unat x + unat y"
  by (simp add: unat_word_ariths)

lemma unat_mult_id: "unat (x::u32) * unat y < 4294967296 \<Longrightarrow> unat (x * y) = unat x * unat y"
  by (simp add: unat_word_ariths)

lemma u32_eqI: "unat (x::u32) = unat y \<Longrightarrow> x = y"
  by (simp add: word_unat_eq_iff)

lemma sint_small: "unat (x::u32) < 2 ^ 31 \<Longrightarrow> sint x = int (unat x)"
proof -
  assume "unat x < 2 ^ 31"
  then have "int (unat x) < int (2 ^ 31)" by (simp only: of_nat_less_iff)
  then have "uint x < 2 ^ 31" by (simp only: uint_nat) simp
  then have "sint x = uint x" unfolding sint_uint
    by (intro signed_take_bit_int_eq_self) (auto intro: order_trans[OF _ uint_nonnegative])
  then show ?thesis by (simp only: uint_nat)
qed

end
