(* ===== verification/SsdConfig.thy ===== *)
theory SsdConfig
  imports Prelude
begin

text \<open>
  The configuration of the simulated drive: \<open>ftl_config_manager.c\<close> of
  \<open>VSSIM_etc/FTL/Polymorphic\<close>. \<open>INIT_SSD_CONFIG\<close> reads \<open>./data/ssd.conf\<close>, a file of words
  separated by white space, and derives the sizes the FTL works with. The file is the list of
  its words, or \<open>None\<close> when it cannot be opened. The two thresholds of lines 151 to 154, whose
  values are floating point and which the FTL never reads, are not part of the model.
\<close>

record config =
  FILE_NAME :: string
  PAGE_SIZE :: int
  PAGE_NB :: int
  SECTOR_SIZE :: int
  FLASH_NB :: int
  BLOCK_NB :: int
  PLANES_PER_FLASH :: int
  LOG_RAND_BLOCK_NB :: int
  LOG_SEQ_BLOCK_NB :: int
  LOG_BLOCK_NB :: int
  REG_WRITE_DELAY :: int
  CELL_PROGRAM_DELAY :: int
  REG_READ_DELAY :: int
  CELL_READ_DELAY :: int
  BLOCK_ERASE_DELAY :: int
  CHANNEL_SWITCH_DELAY_R :: int
  CHANNEL_SWITCH_DELAY_W :: int
  CACHE_IDX_SIZE :: int
  DSM_TRIM_ENABLE :: int
  IO_PARALLELISM :: int
  WRITE_BUFFER_SIZE :: int
  CHANNEL_NB :: int
  MAPPING_CACHE_SIZE :: int
  DATA_BLOCK_NB :: int
  SECTORS_PER_PAGE :: int
  PAGES_PER_FLASH :: int
  SECTOR_NB :: int
  PAGE_MAPPING_ENTRY_NB :: int
  BLOCK_MAPPING_ENTRY_NB :: int
  EACH_EMPTY_TABLE_ENTRY_NB :: int
  EMPTY_TABLE_ENTRY_NB :: int
  VICTIM_TABLE_ENTRY_NB :: int
  SECTORS_PER_WRITE_BUFFER :: int
  GC_VICTIM_NB :: int
  WAY_NB :: int
  PHY_SPARE_SIZE :: int
  NR_PHY_BLOCKS :: int
  NR_PHY_PAGES :: int
  NR_PHY_SECTORS :: int
  NR_RESERVED_PHY_SUPER_BLOCKS :: int
  NR_RESERVED_PHY_BLOCKS :: int
  NR_RESERVED_PHY_PAGES :: int

subsection \<open>Reading the file\<close>

text \<open>\<open>fscanf("%d")\<close> on the words left in the file: an optional sign and the longest run of
  digits; what follows the run stays in the input. Without a digit the conversion fails and
  the variable keeps its value.\<close>

definition is_digit :: "char \<Rightarrow> bool" where
  "is_digit ch \<longleftrightarrow> (48::nat) \<le> of_char ch \<and> of_char ch \<le> (57::nat)"

fun digits_value :: "int \<Rightarrow> string \<Rightarrow> int" where
  "digits_value acc [] = acc"
| "digits_value acc (ch # cs) = digits_value (10 * acc + (of_char ch - 48)) cs"

definition put_back :: "string \<Rightarrow> string list \<Rightarrow> string list" where
  "put_back w ws = (if w = [] then ws else w # ws)"

definition scan_digits :: "bool \<Rightarrow> string \<Rightarrow> string list \<Rightarrow> int option \<times> string list" where
  "scan_digits neg w ws =
     (let ds = takeWhile is_digit w; rest = put_back (dropWhile is_digit w) ws in
      if ds = [] then (None, rest)
      else (Some (if neg then - digits_value 0 ds else digits_value 0 ds), rest))"

fun scan_d :: "string list \<Rightarrow> int option \<times> string list" where
  "scan_d [] = (None, [])"
| "scan_d ([] # ws) = scan_d ws"
| "scan_d ((ch # cs) # ws) =
     (if ch = CHR ''-'' then scan_digits True cs ws
      else if ch = CHR ''+'' then scan_digits False cs ws
      else scan_digits False (ch # cs) ws)"

definition read_int :: "((int \<Rightarrow> int) \<Rightarrow> config \<Rightarrow> config) \<Rightarrow> string list \<Rightarrow> config \<Rightarrow>
    config \<times> string list" where
  "read_int upd ws c = (case scan_d ws of
       (None, rest) \<Rightarrow> (c, rest)
     | (Some v, rest) \<Rightarrow> (upd (\<lambda>_. v) c, rest))"

fun read_string :: "string list \<Rightarrow> config \<Rightarrow> config \<times> string list" where
  "read_string [] c = (c, [])"
| "read_string (w # ws) c = (c\<lparr>FILE_NAME := w\<rparr>, ws)"

text \<open>The chain of \<open>strcmp\<close> tests: the variable each key word sets.\<close>

definition config_command :: "string \<Rightarrow> string list \<Rightarrow> config \<Rightarrow> config \<times> string list" where
  "config_command w ws c =
    (if w = ''FILE_NAME'' then read_string ws c
     else if w = ''PAGE_SIZE'' then read_int PAGE_SIZE_update ws c
     else if w = ''PAGE_NB'' then read_int PAGE_NB_update ws c
     else if w = ''SECTOR_SIZE'' then read_int SECTOR_SIZE_update ws c
     else if w = ''FLASH_NB'' then read_int FLASH_NB_update ws c
     else if w = ''BLOCK_NB'' then read_int BLOCK_NB_update ws c
     else if w = ''PLANES_PER_FLASH'' then read_int PLANES_PER_FLASH_update ws c
     else if w = ''LOG_RAND_BLOCK_NB'' then read_int LOG_RAND_BLOCK_NB_update ws c
     else if w = ''LOG_SEQ_BLOCK_NB'' then read_int LOG_SEQ_BLOCK_NB_update ws c
     else if w = ''LOG_BLOCK_NB'' then read_int LOG_BLOCK_NB_update ws c
     else if w = ''REG_WRITE_DELAY'' then read_int REG_WRITE_DELAY_update ws c
     else if w = ''CELL_PROGRAM_DELAY'' then read_int CELL_PROGRAM_DELAY_update ws c
     else if w = ''REG_READ_DELAY'' then read_int REG_READ_DELAY_update ws c
     else if w = ''CELL_READ_DELAY'' then read_int CELL_READ_DELAY_update ws c
     else if w = ''BLOCK_ERASE_DELAY'' then read_int BLOCK_ERASE_DELAY_update ws c
     else if w = ''CHANNEL_SWITCH_DELAY_R'' then read_int CHANNEL_SWITCH_DELAY_R_update ws c
     else if w = ''CHANNEL_SWITCH_DELAY_W'' then read_int CHANNEL_SWITCH_DELAY_W_update ws c
     else if w = ''CACHE_IDX_SIZE'' then read_int CACHE_IDX_SIZE_update ws c
     else if w = ''DSM_TRIM_ENABLE'' then read_int DSM_TRIM_ENABLE_update ws c
     else if w = ''IO_PARALLELISM'' then read_int IO_PARALLELISM_update ws c
     else if w = ''WRITE_BUFFER_SIZE'' then read_int WRITE_BUFFER_SIZE_update ws c
     else if w = ''CHANNEL_NB'' then read_int CHANNEL_NB_update ws c
     else if w = ''MAPPING_CACHE_SIZE'' then read_int MAPPING_CACHE_SIZE_update ws c
     else (c, ws))"

lemma scan_digits_length: "length (snd (scan_digits neg w ws)) \<le> length ws + 1"
  by (simp add: scan_digits_def put_back_def Let_def)

lemma scan_d_length: "length (snd (scan_d ws)) \<le> length ws"
  by (induction ws rule: scan_d.induct)
     (use scan_digits_length in \<open>auto simp: le_Suc_eq intro: order_trans\<close>)

lemma read_int_length: "length (snd (read_int upd ws c)) \<le> length ws"
  using scan_d_length [of ws] by (auto simp: read_int_def split: prod.splits option.splits)

lemma read_string_length: "length (snd (read_string ws c)) \<le> length ws"
  by (cases ws) auto

lemma config_command_length: "length (snd (config_command w ws c)) \<le> length ws"
  unfolding config_command_def by (simp add: read_int_length read_string_length)

function read_config :: "string list \<Rightarrow> config \<Rightarrow> config" where
  "read_config [] c = c"
| "read_config (w # ws) c =
     read_config (snd (config_command w ws c)) (fst (config_command w ws c))"
  by pat_completeness auto
termination
  by (relation "measure (\<lambda>(ws, c). length ws)") (auto simp: config_command_length le_imp_less_Suc)

subsection \<open>Command codes\<close>

definition CMD_NOOP :: int where "CMD_NOOP = 10000"
definition CMD_READ :: int where "CMD_READ = 10001"
definition CMD_WRITE :: int where "CMD_WRITE = 10002"

lemmas cmd_codes = CMD_NOOP_def CMD_READ_def CMD_WRITE_def

subsection \<open>The derived sizes\<close>

text \<open>C's integer division truncates towards zero and traps on zero.\<close>

definition c_div :: "int \<Rightarrow> int \<Rightarrow> int option" where
  "c_div a b = (if b = 0 then None else Some (sgn a * sgn b * (\<bar>a\<bar> div \<bar>b\<bar>)))"

definition derive_config :: "config \<Rightarrow> config option" where
  "derive_config c = do {
     spp \<leftarrow> c_div (PAGE_SIZE c) (SECTOR_SIZE c);
     each \<leftarrow> c_div (BLOCK_NB c) (PLANES_PER_FLASH c);
     wb \<leftarrow> c_div (WRITE_BUFFER_SIZE c * 1024) (SECTOR_SIZE c);
     Some (c\<lparr>
       DATA_BLOCK_NB := BLOCK_NB c - LOG_RAND_BLOCK_NB c - LOG_SEQ_BLOCK_NB c,
       SECTORS_PER_PAGE := spp,
       PAGES_PER_FLASH := PAGE_NB c * BLOCK_NB c,
       SECTOR_NB := spp * PAGE_NB c * BLOCK_NB c * FLASH_NB c,
       PAGE_MAPPING_ENTRY_NB := PAGE_NB c * BLOCK_NB c * FLASH_NB c,
       BLOCK_MAPPING_ENTRY_NB := BLOCK_NB c * FLASH_NB c,
       EACH_EMPTY_TABLE_ENTRY_NB := each,
       EMPTY_TABLE_ENTRY_NB := FLASH_NB c * PLANES_PER_FLASH c,
       VICTIM_TABLE_ENTRY_NB := FLASH_NB c * PLANES_PER_FLASH c,
       SECTORS_PER_WRITE_BUFFER := wb,
       GC_VICTIM_NB := 10\<rparr>) }"

definition derive_phy_config :: "config \<Rightarrow> config" where
  "derive_phy_config c =
    (let way = 1;
         blocks = FLASH_NB c * way * BLOCK_NB c;
         pages = blocks * PAGE_NB c;
         reserved = FLASH_NB c * way * 4 in
     c\<lparr>WAY_NB := way,
       PHY_SPARE_SIZE := 436,
       NR_PHY_BLOCKS := blocks,
       NR_PHY_PAGES := pages,
       NR_PHY_SECTORS := pages * SECTORS_PER_PAGE c,
       NR_RESERVED_PHY_SUPER_BLOCKS := 4,
       NR_RESERVED_PHY_BLOCKS := reserved,
       NR_RESERVED_PHY_PAGES := reserved * PAGE_NB c\<rparr>)"

definition INIT_SSD_CONFIG :: "string list option \<Rightarrow> config \<Rightarrow> config option" where
  "INIT_SSD_CONFIG file c =
     map_option derive_phy_config
       (derive_config (case file of None \<Rightarrow> c | Some ws \<Rightarrow> read_config ws c))"

definition GET_FILE_NAME :: "config \<Rightarrow> string" where
  "GET_FILE_NAME c = FILE_NAME c"

subsection \<open>Well-formed configurations\<close>

text \<open>What the FTL relies on: the derived sizes are the products of the geometry, no product
  leaves the range of a C \<open>int\<close>, a super block has at least two pages, and beyond the four reserved super blocks there are at least
  three to rotate through.\<close>

definition cfg_wf :: "config \<Rightarrow> bool" where
  "cfg_wf c \<longleftrightarrow>
     0 < PAGE_NB c \<and> 0 < FLASH_NB c \<and> WAY_NB c = 1 \<and> 7 \<le> BLOCK_NB c \<and>
     0 < SECTOR_SIZE c \<and> 0 < SECTORS_PER_PAGE c \<and> SECTORS_PER_PAGE c < 2 ^ 15 \<and>
     FLASH_NB c * WAY_NB c * BLOCK_NB c * PAGE_NB c < 2 ^ 31 \<and>
     2 \<le> FLASH_NB c * PAGE_NB c \<and>
     NR_PHY_BLOCKS c = FLASH_NB c * WAY_NB c * BLOCK_NB c \<and>
     NR_PHY_PAGES c = NR_PHY_BLOCKS c * PAGE_NB c \<and>
     NR_RESERVED_PHY_SUPER_BLOCKS c = 4 \<and>
     NR_RESERVED_PHY_BLOCKS c = FLASH_NB c * WAY_NB c * 4 \<and>
     NR_RESERVED_PHY_PAGES c = NR_RESERVED_PHY_BLOCKS c * PAGE_NB c \<and>
     0 < CACHE_IDX_SIZE c \<and> CACHE_IDX_SIZE c < 2 ^ 15"

lemma derive_phy_config_sizes:
  "NR_PHY_BLOCKS (derive_phy_config c) = FLASH_NB c * BLOCK_NB c"
  "NR_PHY_PAGES (derive_phy_config c) = FLASH_NB c * BLOCK_NB c * PAGE_NB c"
  "NR_RESERVED_PHY_PAGES (derive_phy_config c) = FLASH_NB c * 4 * PAGE_NB c"
  by (simp_all add: derive_phy_config_def Let_def)

lemma c_div_pos: "0 \<le> a \<Longrightarrow> 0 < b \<Longrightarrow> c_div a b = Some (a div b)"
  by (cases "a = 0") (auto simp: c_div_def)

text \<open>The global variables before the file is read are zero.\<close>

definition zero_config :: config where
  "zero_config = \<lparr>FILE_NAME = [], PAGE_SIZE = 0, PAGE_NB = 0, SECTOR_SIZE = 0, FLASH_NB = 0, BLOCK_NB = 0,
     PLANES_PER_FLASH = 0, LOG_RAND_BLOCK_NB = 0, LOG_SEQ_BLOCK_NB = 0, LOG_BLOCK_NB = 0,
     REG_WRITE_DELAY = 0, CELL_PROGRAM_DELAY = 0, REG_READ_DELAY = 0, CELL_READ_DELAY = 0,
     BLOCK_ERASE_DELAY = 0, CHANNEL_SWITCH_DELAY_R = 0, CHANNEL_SWITCH_DELAY_W = 0,
     CACHE_IDX_SIZE = 0, DSM_TRIM_ENABLE = 0, IO_PARALLELISM = 0, WRITE_BUFFER_SIZE = 0,
     CHANNEL_NB = 0, MAPPING_CACHE_SIZE = 0, DATA_BLOCK_NB = 0, SECTORS_PER_PAGE = 0,
     PAGES_PER_FLASH = 0, SECTOR_NB = 0, PAGE_MAPPING_ENTRY_NB = 0, BLOCK_MAPPING_ENTRY_NB = 0,
     EACH_EMPTY_TABLE_ENTRY_NB = 0, EMPTY_TABLE_ENTRY_NB = 0, VICTIM_TABLE_ENTRY_NB = 0,
     SECTORS_PER_WRITE_BUFFER = 0, GC_VICTIM_NB = 0, WAY_NB = 0, PHY_SPARE_SIZE = 0,
     NR_PHY_BLOCKS = 0, NR_PHY_PAGES = 0, NR_PHY_SECTORS = 0, NR_RESERVED_PHY_SUPER_BLOCKS = 0,
     NR_RESERVED_PHY_BLOCKS = 0, NR_RESERVED_PHY_PAGES = 0\<rparr>"


definition small_file :: "string list" where
  "small_file = [''PAGE_SIZE'', ''8192'', ''PAGE_NB'', ''4'', ''SECTOR_SIZE'', ''512'',
     ''FLASH_NB'', ''2'', ''BLOCK_NB'', ''8'', ''PLANES_PER_FLASH'', ''1'',
     ''CACHE_IDX_SIZE'', ''3'']"

definition small_raw :: config where
  "small_raw = zero_config\<lparr>PAGE_SIZE := 8192, PAGE_NB := 4, SECTOR_SIZE := 512, FLASH_NB := 2,
     BLOCK_NB := 8, PLANES_PER_FLASH := 1, CACHE_IDX_SIZE := 3\<rparr>"

lemma read_small_file: "read_config small_file zero_config = small_raw"
  by code_simp

text \<open>A small device: two banks, eight super blocks with four pages in each bank, pages of
  sixteen sectors and a cache of three lines.\<close>

definition small_config :: config where
  "small_config = the (INIT_SSD_CONFIG (Some small_file) zero_config)"

lemma small_config_eq: "INIT_SSD_CONFIG (Some small_file) zero_config = Some small_config"
  by (simp add: small_config_def INIT_SSD_CONFIG_def read_small_file derive_config_def c_div_def
        small_raw_def)

lemma small_config_red: "small_config = the (map_option derive_phy_config (derive_config small_raw))"
  by (simp add: small_config_def INIT_SSD_CONFIG_def read_small_file)

lemma small_config_fields [simp]:
  "SECTOR_SIZE small_config = 512" "PAGE_SIZE small_config = 8192"
  "SECTORS_PER_PAGE small_config = 16" "FLASH_NB small_config = 2" "WAY_NB small_config = 1"
  "BLOCK_NB small_config = 8" "PAGE_NB small_config = 4" "CACHE_IDX_SIZE small_config = 3"
  "NR_PHY_PAGES small_config = 64" "NR_RESERVED_PHY_PAGES small_config = 32"
  "NR_RESERVED_PHY_SUPER_BLOCKS small_config = 4" "NR_PHY_BLOCKS small_config = 16"
  by (simp_all add: small_config_red derive_config_def c_div_def small_raw_def zero_config_def
        derive_phy_config_def Let_def)

lemma small_raw_fields:
  "PAGE_NB small_raw = 4" "FLASH_NB small_raw = 2" "BLOCK_NB small_raw = 8"
  "SECTOR_SIZE small_raw = 512" "PAGE_SIZE small_raw = 8192" "PLANES_PER_FLASH small_raw = 1"
  "CACHE_IDX_SIZE small_raw = 3"
  by (simp_all add: small_raw_def)


lemma small_config_wf [simp]: "cfg_wf small_config"
  by (simp add: cfg_wf_def small_config_red derive_config_def c_div_def small_raw_def
        zero_config_def derive_phy_config_def Let_def)

end
