(* ===== verification/FtlState.thy ===== *)
theory FtlState
  imports SsdConfig
begin

text \<open>
  The data of the polymorphic FTL: the structures of \<open>pm.h\<close>, \<open>ftl.h\<close>, \<open>cache.h\<close>, \<open>gc.h\<close>
  and \<open>ftl_vssim_cache.h\<close>, and the global variables of \<open>ftl.c\<close>, \<open>pm.c\<close>, \<open>cache.c\<close>,
  \<open>gc.c\<close> and \<open>ftl_vssim_cache.c\<close> as one record.

  \<open>leaf_node_\<close> is used in two roles, told apart by its union. A leaf holds a physical page
  number (\<open>leaf\<close>); an index node holds a pointer to a block of leaves (\<open>idx\<close>). Pointers stay
  inside one extents table, so a pointer to \<open>l_node[k]\<close> is \<open>Some k\<close>; \<open>None\<close> is a null pointer
  or one whose low half was overwritten through the \<open>ppn\<close> member of the union.

  A cache line is one page of memory that the code reads either as an extents table or as a
  page map; \<open>cline\<close> records which of the two was last laid out in it. Pointers into the cache
  always point to the start of a line and are line numbers.

  The calls to the simulated flash and to the I/O statistics, which are outside the
  repository, change nothing the FTL reads; they are recorded in \<open>io_trace\<close>, oldest first.
\<close>

subsection \<open>Constants\<close>

definition MAP_ENTRIES_PER_PAGE :: nat where "MAP_ENTRIES_PER_PAGE = 2048"
definition NUM_PAGE_PER_ROOT :: nat where "NUM_PAGE_PER_ROOT = MAP_ENTRIES_PER_PAGE"
definition ROOT_NODE_SIZE :: nat where "ROOT_NODE_SIZE = 16"
definition INDEX_NODE_SIZE :: nat where "INDEX_NODE_SIZE = 6"
definition LEAF_NODE_SIZE :: nat where "LEAF_NODE_SIZE = 6"
definition LEAF_MID_POS :: nat where "LEAF_MID_POS = LEAF_NODE_SIZE div 2"
definition NUM_PAGE_PER_REGION :: nat where
  "NUM_PAGE_PER_REGION = ROOT_NODE_SIZE * NUM_PAGE_PER_ROOT"
definition HARD :: int where "HARD = 100"

lemmas pm_sizes = MAP_ENTRIES_PER_PAGE_def NUM_PAGE_PER_ROOT_def ROOT_NODE_SIZE_def
  INDEX_NODE_SIZE_def LEAF_NODE_SIZE_def LEAF_MID_POS_def NUM_PAGE_PER_REGION_def

text \<open>\<open>sizeof(struct region_node_)\<close> is 208 bytes on the 64-bit target.\<close>

definition REGION_ENTRIES_PER_PAGE :: "config \<Rightarrow> nat" where
  "REGION_ENTRIES_PER_PAGE c = nat (PAGE_SIZE c) div 208"

definition REGION_NODE_SIZE :: "config \<Rightarrow> nat" where
  "REGION_NODE_SIZE c = nat (NR_PHY_PAGES c div (1024 * 32))"

definition GET_REGION_IDX :: "config \<Rightarrow> nat \<Rightarrow> nat" where
  "GET_REGION_IDX c i = i div REGION_ENTRIES_PER_PAGE c"

definition GET_ROOT_NUM_PER_REGION :: "nat \<Rightarrow> nat" where
  "GET_ROOT_NUM_PER_REGION r_num = r_num mod ROOT_NODE_SIZE"

subsection \<open>The extents table\<close>

record leaf =
  lf_ppn :: u32
  lf_lpn :: nat
  lf_size :: nat
  lf_used :: bool

record idx =
  ix_l_node :: "nat option"
  ix_lpn :: nat
  ix_size :: nat
  ix_used :: bool

record extents_node =
  r_node :: "nat \<Rightarrow> nat option"
  i_node :: "nat \<Rightarrow> idx"
  l_node :: "nat \<Rightarrow> leaf"

text \<open>What \<open>memset(0)\<close> leaves in a node, in a whole table, and what an unused leaf is set to.\<close>

definition zero_leaf :: leaf where
  "zero_leaf = \<lparr>lf_ppn = 0, lf_lpn = 0, lf_size = 0, lf_used = False\<rparr>"

definition free_leaf :: leaf where
  "free_leaf = zero_leaf\<lparr>lf_ppn := M1\<rparr>"

definition zero_idx :: idx where
  "zero_idx = \<lparr>ix_l_node = None, ix_lpn = 0, ix_size = 0, ix_used = False\<rparr>"

definition zero_extents :: extents_node where
  "zero_extents = \<lparr>r_node = (\<lambda>_. None), i_node = (\<lambda>_. zero_idx), l_node = (\<lambda>_. zero_leaf)\<rparr>"

subsection \<open>Regions, cache lines, map store\<close>

datatype cline = ZeroLine | ExtLine extents_node | MapLine "nat \<Rightarrow> u32"

record region_node =
  map_type :: u32
  extents_ppn :: u32
  ptr_cache_e :: "nat option"
  page_ppn :: "nat \<Rightarrow> u32"
  ptr_cache_p :: "nat \<Rightarrow> nat option"

definition zero_region :: region_node where
  "zero_region = \<lparr>map_type = 0, extents_ppn = 0, ptr_cache_e = None,
     page_ppn = (\<lambda>_. 0), ptr_cache_p = (\<lambda>_. None)\<rparr>"

datatype map_kind = EXTENTS_MAP | PAGE_MAP

record cache_idx_entry =
  map_num :: nat
  clock_bit :: bool
  ref_type :: map_kind
  update_bit :: bool

definition zero_cache_idx :: cache_idx_entry where
  "zero_cache_idx = \<lparr>map_num = 0, clock_bit = False, ref_type = EXTENTS_MAP, update_bit = False\<rparr>"

text \<open>A page of the map store holds a copy of a cache line, or of a page of the region table.\<close>

datatype map_page = CachePage cline | RegionPage "nat \<Rightarrow> region_node"

record pm_map =
  pm_ppn :: u32
  map_data :: map_page

record ftl_metadata =
  reserved_block_ptr :: u32
  block_ptr :: u32
  write_block_ptr :: u32
  write_map_block_ptr :: u32
  reserved_write_ptr :: u32
  write_ptr :: u32
  write_map_ptr :: u32

definition zero_metadata :: ftl_metadata where
  "zero_metadata = \<lparr>reserved_block_ptr = 0, block_ptr = 0, write_block_ptr = 0,
     write_map_block_ptr = 0, reserved_write_ptr = 0, write_ptr = 0, write_map_ptr = 0\<rparr>"

subsection \<open>Calls to the simulated flash\<close>

datatype io_type = READ | WRITE | MAP_READ | MAP_WRITE

datatype io_event =
    ALLOC_IO_REQUEST u32 u32 io_type
  | SSD_PAGE_READ u32 u32 u32 nat io_type
  | SSD_PAGE_WRITE u32 u32 u32 nat io_type
  | SSD_BLOCK_ERASE nat u32
  | FREE_DUMMY_IO_REQUEST
  | INCREASE_IO_REQUEST_SEQ_NB

subsection \<open>The global variables\<close>

record ftl_state =
  region_table :: "nat \<Rightarrow> region_node"
  region_idx_table :: "nat \<Rightarrow> u32"
  cache_map :: "nat \<Rightarrow> cline"
  cache_idx_table :: "nat \<Rightarrow> cache_idx_entry"
  cache_wp :: nat
  clock_hand :: nat
  ftl_meta :: ftl_metadata
  free_blk_bitmap :: "nat \<Rightarrow> u32"
  free_page_cnt :: int
  write_add_count :: u32
  change_pagemap_count :: int
  step_flag :: int
  vt_blk_num :: u32
  super_block_meta :: "nat \<Rightarrow> int"
  map_store :: "pm_map list"
  io_trace :: "io_event list"

definition log_io :: "io_event \<Rightarrow> ftl_state \<Rightarrow> ftl_state" where
  "log_io e s = s\<lparr>io_trace := io_trace s @ [e]\<rparr>"

text \<open>Reading a cache line as an extents table or as a page map. A line that was cleared reads
  as zeroes; a line that holds the other kind of map is not a value the code can use.\<close>

definition line_extents :: "cline \<Rightarrow> extents_node option" where
  "line_extents l = (case l of ZeroLine \<Rightarrow> Some zero_extents | ExtLine e \<Rightarrow> Some e | MapLine _ \<Rightarrow> None)"

definition line_pagemap :: "cline \<Rightarrow> (nat \<Rightarrow> u32) option" where
  "line_pagemap l = (case l of ZeroLine \<Rightarrow> Some (\<lambda>_. 0) | MapLine m \<Rightarrow> Some m | ExtLine _ \<Rightarrow> None)"

definition get_extents :: "ftl_state \<Rightarrow> nat \<Rightarrow> extents_node option" where
  "get_extents s n = line_extents (cache_map s n)"

definition set_extents :: "nat \<Rightarrow> extents_node \<Rightarrow> ftl_state \<Rightarrow> ftl_state" where
  "set_extents n e s = s\<lparr>cache_map := (cache_map s)(n := ExtLine e)\<rparr>"

definition get_pagemap :: "ftl_state \<Rightarrow> nat \<Rightarrow> (nat \<Rightarrow> u32) option" where
  "get_pagemap s n = line_pagemap (cache_map s n)"

definition set_pagemap :: "nat \<Rightarrow> (nat \<Rightarrow> u32) \<Rightarrow> ftl_state \<Rightarrow> ftl_state" where
  "set_pagemap n m s = s\<lparr>cache_map := (cache_map s)(n := MapLine m)\<rparr>"

definition upd_region :: "nat \<Rightarrow> (region_node \<Rightarrow> region_node) \<Rightarrow> ftl_state \<Rightarrow> ftl_state" where
  "upd_region rg f s = s\<lparr>region_table := (region_table s)(rg := f (region_table s rg))\<rparr>"

definition upd_cache_idx :: "nat \<Rightarrow> (cache_idx_entry \<Rightarrow> cache_idx_entry) \<Rightarrow> ftl_state \<Rightarrow> ftl_state" where
  "upd_cache_idx n f s = s\<lparr>cache_idx_table := (cache_idx_table s)(n := f (cache_idx_table s n))\<rparr>"

definition upd_meta :: "(ftl_metadata \<Rightarrow> ftl_metadata) \<Rightarrow> ftl_state \<Rightarrow> ftl_state" where
  "upd_meta f s = s\<lparr>ftl_meta := f (ftl_meta s)\<rparr>"

text \<open>The per-bit macros of \<open>common.h\<close>.\<close>

definition BIT_SET :: "u32 \<Rightarrow> nat \<Rightarrow> u32" where
  "BIT_SET d b = or d (push_bit b 1)"

definition BIT_GET :: "u32 \<Rightarrow> nat \<Rightarrow> u32" where
  "BIT_GET d b = and d (push_bit b 1)"

definition BIT_CLEAR :: "u32 \<Rightarrow> nat \<Rightarrow> u32" where
  "BIT_CLEAR d b = and d (not (push_bit b 1))"

lemma BIT_GET_bit: "b < 32 \<Longrightarrow> (BIT_GET d b \<noteq> 0) = bit d b"
  by (simp add: BIT_GET_def push_bit_eq_mult and_exp_eq_0_iff_not_bit)

lemma bit_BIT_SET: "b < 32 \<Longrightarrow> i < 32 \<Longrightarrow> bit (BIT_SET d b) i = (bit d i \<or> i = b)"
  by (auto simp: BIT_SET_def bit_simps)

lemma bit_BIT_CLEAR: "b < 32 \<Longrightarrow> i < 32 \<Longrightarrow> bit (BIT_CLEAR d b) i = (bit d i \<and> i \<noteq> b)"
  by (auto simp: BIT_CLEAR_def bit_simps)

subsection \<open>Frames of the elementary updates\<close>

named_theorems upd_defs

lemmas [upd_defs] = log_io_def set_extents_def set_pagemap_def upd_region_def upd_cache_idx_def
  upd_meta_def

lemma get_extents_set [simp]: "get_extents (set_extents n e s) n = Some e"
  by (simp add: get_extents_def set_extents_def line_extents_def)

lemma get_pagemap_set [simp]: "get_pagemap (set_pagemap n m s) n = Some m"
  by (simp add: get_pagemap_def set_pagemap_def line_pagemap_def)

lemma get_extents_set_other [simp]: "n \<noteq> k \<Longrightarrow> get_extents (set_extents n e s) k = get_extents s k"
  by (simp add: get_extents_def set_extents_def)

lemma get_extents_set_pagemap [simp]:
  "n \<noteq> k \<Longrightarrow> get_extents (set_pagemap n m s) k = get_extents s k"
  by (simp add: get_extents_def set_pagemap_def)

lemma get_pagemap_set_extents [simp]:
  "n \<noteq> k \<Longrightarrow> get_pagemap (set_extents n m s) k = get_pagemap s k"
  by (simp add: get_pagemap_def set_extents_def)

end
