(* ===== verification/MapStore.thy ===== *)
theory MapStore
  imports FtlState
begin

text \<open>
  The store of map pages, \<open>ftl_vssim_cache.c\<close>: a doubly linked list of copies of map pages,
  keyed by the physical page they were written to. The list from \<open>vssim_pm_mapping_start\<close> to
  \<open>vssim_pm_mapping_end\<close> is a HOL list; the counter \<open>vssim_pm_mapping_entry_nb\<close> is its length,
  so the counted loop of the lookup runs over exactly its elements.
\<close>

definition INIT_VSSIM_PM_MAPPING :: "bool \<Rightarrow> pm_map list \<Rightarrow> pm_map list" where
  "INIT_VSSIM_PM_MAPPING file_exists st = (if file_exists then st else [])"

fun LOOKUP_PM_MAP_ENTRY :: "pm_map list \<Rightarrow> u32 \<Rightarrow> pm_map option" where
  "LOOKUP_PM_MAP_ENTRY [] page_nb = None"
| "LOOKUP_PM_MAP_ENTRY (e # es) page_nb =
     (if pm_ppn e = page_nb then Some e else LOOKUP_PM_MAP_ENTRY es page_nb)"

definition REARRANGE_PM_MAP_ENTRY :: "pm_map \<Rightarrow> pm_map list \<Rightarrow> pm_map list" where
  "REARRANGE_PM_MAP_ENTRY new_entry st = (if st = [] then [new_entry] else st @ [new_entry])"

definition WRITE_MAP :: "u32 \<Rightarrow> map_page \<Rightarrow> pm_map list \<Rightarrow> pm_map list" where
  "WRITE_MAP page_nb buf st =
     (case LOOKUP_PM_MAP_ENTRY st page_nb of
        Some _ \<Rightarrow> st
      | None \<Rightarrow> REARRANGE_PM_MAP_ENTRY \<lparr>pm_ppn = page_nb, map_data = buf\<rparr> st)"

definition READ_MAP :: "u32 \<Rightarrow> pm_map list \<Rightarrow> map_page option" where
  "READ_MAP page_nb st = map_option map_data (LOOKUP_PM_MAP_ENTRY st page_nb)"

subsection \<open>The interface\<close>

text \<open>What a client of the store uses: pages that were written once can be read back, and a
  write leaves every other page alone. \<open>fresh\<close> is the client's obligation: the store keeps the
  first copy of a page, so a page must not be written again.\<close>

locale write_once_store =
  fixes wr :: "'k \<Rightarrow> 'v \<Rightarrow> 's \<Rightarrow> 's"
    and rd :: "'k \<Rightarrow> 's \<Rightarrow> 'v option"
    and inv :: "'s \<Rightarrow> bool"
  assumes rd_wr_fresh: "rd k s = None \<Longrightarrow> rd k (wr k v s) = Some v"
    and rd_wr_other: "k \<noteq> k' \<Longrightarrow> rd k' (wr k v s) = rd k' s"
    and wr_used: "rd k s \<noteq> None \<Longrightarrow> wr k v s = s"
    and inv_wr: "inv s \<Longrightarrow> inv (wr k v s)"
begin

lemma rd_wr: "rd k' (wr k v s) = (if k = k' \<and> rd k s = None then Some v else rd k' s)"
  by (cases "rd k s = None") (auto simp: rd_wr_fresh rd_wr_other wr_used)

lemma rd_mono: "rd k' s = Some w \<Longrightarrow> rd k' (wr k v s) = Some w"
  by (auto simp: rd_wr)

lemma rd_mono_fold: "rd k' s = Some w \<Longrightarrow> rd k' (fold (\<lambda>(k, v). wr k v) kvs s) = Some w"
  by (induction kvs arbitrary: s) (auto simp: rd_mono)

lemma inv_fold: "inv s \<Longrightarrow> inv (fold (\<lambda>(k, v). wr k v) kvs s)"
  by (induction kvs arbitrary: s) (auto simp: inv_wr)

end

definition store_ok :: "pm_map list \<Rightarrow> bool" where
  "store_ok st \<longleftrightarrow> distinct (map pm_ppn st)"

lemma LOOKUP_append:
  "LOOKUP_PM_MAP_ENTRY (st @ st') p =
     (case LOOKUP_PM_MAP_ENTRY st p of None \<Rightarrow> LOOKUP_PM_MAP_ENTRY st' p | Some e \<Rightarrow> Some e)"
  by (induction st) auto

lemma LOOKUP_None_iff: "LOOKUP_PM_MAP_ENTRY st p = None \<longleftrightarrow> p \<notin> pm_ppn ` set st"
  by (induction st) auto

lemma REARRANGE_append: "REARRANGE_PM_MAP_ENTRY e st = st @ [e]"
  by (simp add: REARRANGE_PM_MAP_ENTRY_def)

lemma store_ok_WRITE_MAP: "store_ok st \<Longrightarrow> store_ok (WRITE_MAP p d st)"
  by (auto simp: WRITE_MAP_def REARRANGE_append store_ok_def LOOKUP_None_iff split: option.splits)

interpretation ms: write_once_store WRITE_MAP READ_MAP store_ok
  by (unfold_locales; (erule store_ok_WRITE_MAP)?)
     (auto simp: WRITE_MAP_def READ_MAP_def REARRANGE_append LOOKUP_append split: option.splits)

end
