(* ===== verification/FtlAlloc.thy ===== *)
theory FtlAlloc
  imports MapStore
begin

text \<open>
  The allocator of \<open>ftl.c\<close>: the geometry (\<open>ftl_calc_bank\<close>, \<open>ftl_calc_block\<close>,
  \<open>ftl_calc_page\<close>), the bitmap of allocated super blocks, and the three write pointers (data
  pages, map pages, pages of the reserved region) that hand out physical pages super block by
  super block.
\<close>

subsection \<open>Geometry\<close>

definition ftl_calc_bank :: "config \<Rightarrow> u32 \<Rightarrow> u32" where
  "ftl_calc_bank c ppn = ppn mod u32i (WAY_NB c * FLASH_NB c)"

definition ftl_calc_block :: "config \<Rightarrow> u32 \<Rightarrow> u32" where
  "ftl_calc_block c ppn = ppn div u32i (WAY_NB c * FLASH_NB c) div u32i (PAGE_NB c)"

definition ftl_calc_page :: "config \<Rightarrow> u32 \<Rightarrow> u32" where
  "ftl_calc_page c ppn = ppn div u32i (WAY_NB c * FLASH_NB c) mod u32i (PAGE_NB c)"

text \<open>The first page of a super block, \<open>blk * PAGE_NB * WAY_NB * FLASH_NB\<close>.\<close>

definition block_first_page :: "config \<Rightarrow> u32 \<Rightarrow> u32" where
  "block_first_page c blk = blk * u32i (PAGE_NB c) * u32i (WAY_NB c) * u32i (FLASH_NB c)"

subsection \<open>The bitmap of allocated super blocks\<close>

definition GET_BLK_PAGENUM :: "u32 \<Rightarrow> nat" where
  "GET_BLK_PAGENUM blk = unat (blk div 32)"

definition GET_BLK_OFFSET :: "u32 \<Rightarrow> nat" where
  "GET_BLK_OFFSET blk = unat (blk mod 32)"

definition ftl_set_free_blk_bitmap :: "u32 \<Rightarrow> ftl_state \<Rightarrow> ftl_state" where
  "ftl_set_free_blk_bitmap blk_num s =
     (let bitmap_num = GET_BLK_PAGENUM blk_num; blk_offset = GET_BLK_OFFSET blk_num in
      s\<lparr>free_blk_bitmap := (free_blk_bitmap s)
          (bitmap_num := BIT_SET (free_blk_bitmap s bitmap_num) blk_offset)\<rparr>)"

definition ftl_get_free_blk_bitmap :: "u32 \<Rightarrow> ftl_state \<Rightarrow> u32" where
  "ftl_get_free_blk_bitmap blk_num s =
     (let bitmap_num = GET_BLK_PAGENUM blk_num; blk_offset = GET_BLK_OFFSET blk_num in
      BIT_GET (free_blk_bitmap s bitmap_num) blk_offset)"

definition ftl_clear_free_blk_bitmap :: "u32 \<Rightarrow> ftl_state \<Rightarrow> ftl_state" where
  "ftl_clear_free_blk_bitmap blk_num s =
     (let bitmap_num = GET_BLK_PAGENUM blk_num; blk_offset = GET_BLK_OFFSET blk_num in
      s\<lparr>free_blk_bitmap := (free_blk_bitmap s)
          (bitmap_num := BIT_CLEAR (free_blk_bitmap s bitmap_num) blk_offset)\<rparr>)"

subsection \<open>Initial state\<close>

definition ftl_init :: "config \<Rightarrow> ftl_state \<Rightarrow> ftl_state" where
  "ftl_init c s =
    (let res = u32i (NR_RESERVED_PHY_SUPER_BLOCKS c);
         m = (ftl_meta s)\<lparr>reserved_block_ptr := 0, write_block_ptr := res,
               write_map_block_ptr := res + 1, block_ptr := res + 2\<rparr>;
         s1 = ftl_set_free_blk_bitmap (write_map_block_ptr m)
               (ftl_set_free_blk_bitmap (write_block_ptr m)
                 (ftl_set_free_blk_bitmap (reserved_block_ptr m) (s\<lparr>ftl_meta := m\<rparr>))) in
     s1\<lparr>ftl_meta := m\<lparr>reserved_write_ptr := 1,
          write_ptr := block_first_page c (write_block_ptr m),
          write_map_ptr := block_first_page c (write_map_block_ptr m)\<rparr>\<rparr>)"

subsection \<open>Free super blocks\<close>

text \<open>The loop counter is \<open>BLOCK_NB - NR_RESERVED_PHY_SUPER_BLOCKS\<close>; \<open>None\<close> is the exhausted
  loop, for which the function returns \<open>-1\<close>.\<close>

fun free_block_loop :: "config \<Rightarrow> ftl_metadata \<Rightarrow> nat \<Rightarrow> u32 \<Rightarrow> u32 option" where
  "free_block_loop c m 0 res = None"
| "free_block_loop c m (Suc i) res =
     (let r = (if u32i (BLOCK_NB c) \<le> res + 1 then u32i (NR_RESERVED_PHY_SUPER_BLOCKS c)
               else res + 1) in
      if write_map_block_ptr m \<noteq> r \<and> write_block_ptr m \<noteq> r then Some r
      else free_block_loop c m i r)"

definition ftl_get_free_block :: "config \<Rightarrow> ftl_state \<Rightarrow> u32 \<times> ftl_state" where
  "ftl_get_free_block c s =
     (case free_block_loop c (ftl_meta s) (nat (BLOCK_NB c - NR_RESERVED_PHY_SUPER_BLOCKS c))
             (block_ptr (ftl_meta s)) of
        None \<Rightarrow> (M1, s)
      | Some res \<Rightarrow> (res, ftl_set_free_blk_bitmap res (upd_meta (block_ptr_update (\<lambda>_. res)) s)))"

text \<open>In the reserved region every block is taken as it comes, so the loop stops at its first
  round unless the region is empty.\<close>

definition ftl_get_free_block_reserved :: "config \<Rightarrow> ftl_state \<Rightarrow> u32 \<times> ftl_state" where
  "ftl_get_free_block_reserved c s =
     (if NR_RESERVED_PHY_SUPER_BLOCKS c = 0 then (M1, s)
      else let r1 = reserved_block_ptr (ftl_meta s) + 1;
               res = (if u32i (NR_RESERVED_PHY_SUPER_BLOCKS c) \<le> r1 then 0 else r1) in
           (res, ftl_set_free_blk_bitmap res
                   (upd_meta (reserved_block_ptr_update (\<lambda>_. res)) s)))"

subsection \<open>Free pages\<close>

definition ftl_get_free_page_reserved :: "config \<Rightarrow> ftl_state \<Rightarrow> u32 \<times> ftl_state" where
  "ftl_get_free_page_reserved c s =
    (let res = reserved_write_ptr (ftl_meta s);
         blk = ftl_calc_block c (reserved_write_ptr (ftl_meta s)) in
     if blk \<noteq> reserved_block_ptr (ftl_meta s) \<or> int (unat res) > NR_RESERVED_PHY_PAGES c then
       (let (blk, s1) = ftl_get_free_block_reserved c s in
        if blk \<noteq> M1 then
          (let res = (if blk = 0 then 1 else block_first_page c blk) in
           (res, upd_meta (\<lambda>m. m\<lparr>reserved_block_ptr := blk, reserved_write_ptr := res + 1\<rparr>) s1))
        else (0, s1))
     else (res, upd_meta (reserved_write_ptr_update (\<lambda>w. w + 1)) s))"

definition ftl_get_free_map_page :: "config \<Rightarrow> ftl_state \<Rightarrow> u32 \<times> ftl_state" where
  "ftl_get_free_map_page c s =
    (let res = write_map_ptr (ftl_meta s);
         blk = ftl_calc_block c (write_map_ptr (ftl_meta s)) in
     if blk \<noteq> write_map_block_ptr (ftl_meta s) \<or> int (unat res) > NR_PHY_PAGES c then
       (let (blk, s1) = ftl_get_free_block c s in
        if blk \<noteq> M1 then
          (let res = block_first_page c blk in
           (res, upd_meta (\<lambda>m. m\<lparr>write_map_block_ptr := blk, write_map_ptr := res + 1\<rparr>) s1))
        else (0, s1))
     else (res, upd_meta (write_map_ptr_update (\<lambda>w. w + 1)) s))"

definition ftl_get_free_page :: "config \<Rightarrow> ftl_state \<Rightarrow> u32 \<times> ftl_state" where
  "ftl_get_free_page c s =
    (let res = write_ptr (ftl_meta s);
         blk = ftl_calc_block c (write_ptr (ftl_meta s)) in
     if blk \<noteq> write_block_ptr (ftl_meta s) \<or> int (unat res) > NR_PHY_PAGES c then
       (let (blk, s1) = ftl_get_free_block c s in
        if blk \<noteq> M1 then
          (let res = block_first_page c blk in
           (res, (upd_meta (\<lambda>m. m\<lparr>write_block_ptr := blk, write_ptr := res + 1\<rparr>) s1)
                  \<lparr>free_page_cnt := free_page_cnt s1 - 1\<rparr>))
        else (0, s1))
     else (res, (upd_meta (write_ptr_update (\<lambda>w. w + 1)) s)
                 \<lparr>free_page_cnt := free_page_cnt s - 1\<rparr>))"

subsection \<open>Map pages on flash\<close>

definition ftl_write_map :: "config \<Rightarrow> u32 \<Rightarrow> map_page \<Rightarrow> ftl_state \<Rightarrow> ftl_state" where
  "ftl_write_map c new_ppn cache s =
     (let s1 = s\<lparr>map_store := WRITE_MAP new_ppn cache (map_store s)\<rparr>;
          s2 = log_io (SSD_PAGE_WRITE (ftl_calc_bank c new_ppn) (ftl_calc_block c new_ppn)
                         (ftl_calc_page c new_ppn) 0 MAP_WRITE) s1 in
      s2\<lparr>write_add_count := write_add_count s2 + 1\<rparr>)"

text \<open>A page that is missing from the store leaves the cache line as it is; a page of the region
  table is never the argument, since the FTL reads back only the pages it wrote from the cache.\<close>

definition ftl_read_map :: "config \<Rightarrow> u32 \<Rightarrow> nat \<Rightarrow> ftl_state \<Rightarrow> ftl_state option" where
  "ftl_read_map c ppn line s =
     (case READ_MAP ppn (map_store s) of
        None \<Rightarrow> Some s
      | Some (CachePage l) \<Rightarrow>
          Some (log_io (SSD_PAGE_READ (ftl_calc_bank c ppn) (ftl_calc_block c ppn)
                          (ftl_calc_page c ppn) 0 MAP_READ)
                  (s\<lparr>cache_map := (cache_map s)(line := l)\<rparr>))
      | Some (RegionPage _) \<Rightarrow> None)"

end
