(* ===== verification/MapCache.thy ===== *)
theory MapCache
  imports FtlAlloc
begin

text \<open>
  The cache of mapping pages, \<open>cache.c\<close>, with the clock algorithm that picks the line to
  reuse, and \<open>pm_update_region\<close> of \<open>pm.c\<close>, which writes the page of the region table that
  holds a region to the reserved area. Line numbers are naturals; the argument \<open>avoid_num\<close> is
  \<open>None\<close> where the code passes \<open>-1\<close>.
\<close>

subsection \<open>The clock\<close>

definition clock_next :: "nat \<Rightarrow> nat \<Rightarrow> nat" where
  "clock_next n idx = (if idx + 1 = n then 0 else idx + 1)"

definition clock_advance :: "nat \<Rightarrow> nat option \<Rightarrow> nat \<Rightarrow> nat" where
  "clock_advance n avoid_num idx =
     (let i = clock_next n idx in if avoid_num = Some i then clock_next n i else i)"

text \<open>\<open>None\<close> is a search that does not end.\<close>

partial_function (option) victim_loop ::
  "nat \<Rightarrow> nat option \<Rightarrow> nat \<Rightarrow> (nat \<Rightarrow> cache_idx_entry) \<Rightarrow> (nat \<times> (nat \<Rightarrow> cache_idx_entry)) option"
  where
  "victim_loop n avoid_num idx tbl =
     (let i = clock_advance n avoid_num idx in
      if clock_bit (tbl i)
      then victim_loop n avoid_num i (tbl(i := (tbl i)\<lparr>clock_bit := False\<rparr>))
      else Some (i, tbl(i := (tbl i)\<lparr>clock_bit := True\<rparr>)))"

definition cache_select_victim ::
  "config \<Rightarrow> nat option \<Rightarrow> ftl_state \<Rightarrow> (nat \<times> ftl_state) option" where
  "cache_select_victim c avoid_num s = do {
     (i, tbl) \<leftarrow> victim_loop (nat (CACHE_IDX_SIZE c)) avoid_num (clock_hand s) (cache_idx_table s);
     Some (i, s\<lparr>cache_idx_table := tbl, clock_hand := i\<rparr>) }"

definition cache_init :: "ftl_state \<Rightarrow> ftl_state" where
  "cache_init s = s\<lparr>cache_wp := 0, clock_hand := 0\<rparr>"

subsection \<open>Bookkeeping of a line\<close>

definition cache_update_info :: "nat \<Rightarrow> bool \<Rightarrow> ftl_state \<Rightarrow> ftl_state" where
  "cache_update_info cache_num is_update =
     upd_cache_idx cache_num
       (\<lambda>t. t\<lparr>clock_bit := True, update_bit := (is_update \<or> update_bit t)\<rparr>)"

definition cache_update_extentsmap_info :: "nat \<Rightarrow> nat \<Rightarrow> bool \<Rightarrow> ftl_state \<Rightarrow> ftl_state" where
  "cache_update_extentsmap_info t_cache_wp rg_num is_update =
     upd_cache_idx t_cache_wp
       (\<lambda>t. t\<lparr>map_num := take_bit 29 rg_num, ref_type := EXTENTS_MAP, clock_bit := True,
              update_bit := (is_update \<or> update_bit t)\<rparr>)"

definition cache_update_pagemap_info :: "nat \<Rightarrow> nat \<Rightarrow> bool \<Rightarrow> ftl_state \<Rightarrow> ftl_state" where
  "cache_update_pagemap_info t_cache_wp r_num is_update =
     upd_cache_idx t_cache_wp
       (\<lambda>t. t\<lparr>map_num := take_bit 29 r_num, ref_type := PAGE_MAP, clock_bit := True,
              update_bit := (is_update \<or> update_bit t)\<rparr>)"

subsection \<open>Writing the region table\<close>

definition pm_update_region_idx_ppn :: "config \<Rightarrow> nat \<Rightarrow> u32 \<Rightarrow> ftl_state \<Rightarrow> ftl_state" where
  "pm_update_region_idx_ppn c num free_page s =
     s\<lparr>region_idx_table := (region_idx_table s)(GET_REGION_IDX c num := free_page)\<rparr>"

definition pm_get_region_idx_ppn :: "nat \<Rightarrow> ftl_state \<Rightarrow> u32" where
  "pm_get_region_idx_ppn num s = region_idx_table s num"

definition pm_update_region :: "config \<Rightarrow> nat \<Rightarrow> ftl_state \<Rightarrow> ftl_state" where
  "pm_update_region c rg_num s =
     (let page_num = rg_num div REGION_ENTRIES_PER_PAGE c;
          rg_idx = page_num * REGION_ENTRIES_PER_PAGE c;
          (free_page, s1) = ftl_get_free_page_reserved c s in
      if free_page \<noteq> 0 then
        pm_update_region_idx_ppn c page_num free_page
          (ftl_write_map c free_page (RegionPage (\<lambda>i. region_table s1 (rg_idx + i))) s1)
      else s1)"

subsection \<open>Eviction\<close>

text \<open>Flushing the line a map owns when it was changed, dropping the pointer to it, and clearing
  it; \<open>None\<close> is the null pointer that the clearing dereferences.\<close>

definition evict_pagemap :: "config \<Rightarrow> nat \<Rightarrow> u32 \<Rightarrow> ftl_state \<Rightarrow> (nat \<times> ftl_state) option" where
  "evict_pagemap c t new_free_page s =
     (let evict_num = map_num (cache_idx_table s t);
          rg = evict_num div ROOT_NODE_SIZE;
          r = GET_ROOT_NUM_PER_REGION evict_num in do {
      cache \<leftarrow> ptr_cache_p (region_table s rg) r;
      let s1 = (if update_bit (cache_idx_table s t) then
                  upd_cache_idx t (update_bit_update (\<lambda>_. False))
                    (ftl_write_map c new_free_page (CachePage (cache_map s cache))
                      (upd_region rg (\<lambda>n. n\<lparr>page_ppn := (page_ppn n)(r := new_free_page)\<rparr>) s))
                else s);
      let s2 = upd_region rg (\<lambda>n. n\<lparr>ptr_cache_p := (ptr_cache_p n)(r := None)\<rparr>) s1;
      Some (rg, s2\<lparr>cache_map := (cache_map s2)(cache := ZeroLine)\<rparr>) })"

definition evict_extents :: "config \<Rightarrow> nat \<Rightarrow> u32 \<Rightarrow> ftl_state \<Rightarrow> (nat \<times> ftl_state) option" where
  "evict_extents c t new_free_page s =
     (let rg = map_num (cache_idx_table s t) in do {
      cache \<leftarrow> ptr_cache_e (region_table s rg);
      let s1 = (if update_bit (cache_idx_table s t) then
                  upd_cache_idx t (update_bit_update (\<lambda>_. False))
                    (ftl_write_map c new_free_page (CachePage (cache_map s cache))
                      (upd_region rg (extents_ppn_update (\<lambda>_. new_free_page)) s))
                else s);
      let s2 = upd_region rg (ptr_cache_e_update (\<lambda>_. None)) s1;
      Some (rg, s2\<lparr>cache_map := (cache_map s2)(cache := ZeroLine)\<rparr>) })"

text \<open>The result is \<open>None\<close> inside where the function returns \<open>-1\<close> for want of a free page.\<close>

definition cache_evict_page ::
  "config \<Rightarrow> nat option \<Rightarrow> ftl_state \<Rightarrow> (nat option \<times> ftl_state) option" where
  "cache_evict_page c avoid_num s = do {
     (t, s1) \<leftarrow> cache_select_victim c avoid_num s;
     let (new_free_page, s2) = ftl_get_free_map_page c s1;
     if new_free_page = 0 then Some (None, s2)
     else do {
       (rg, s3) \<leftarrow> (if ref_type (cache_idx_table s2 t) = PAGE_MAP
                    then evict_pagemap c t new_free_page s2
                    else evict_extents c t new_free_page s2);
       Some (Some t, pm_update_region c rg s3) } }"

text \<open>The choice made at every cache miss: a line that was never used while \<open>cache_wp\<close> has not
  reached the size of the cache, an evicted one after that. A line number \<open>-1\<close> is used
  unchecked, which is undefined.\<close>

definition cache_take :: "config \<Rightarrow> nat option \<Rightarrow> ftl_state \<Rightarrow> (nat \<times> ftl_state) option" where
  "cache_take c avoid_num s =
     (if int (cache_wp s) < CACHE_IDX_SIZE c then do {
        (t, s1) \<leftarrow> cache_select_victim c None s;
        Some (t, s1\<lparr>cache_wp := cache_wp s1 + 1\<rparr>) }
      else do {
        (r, s1) \<leftarrow> cache_evict_page c avoid_num s;
        t \<leftarrow> r;
        Some (t, s1) })"

text \<open>The loops as code equations, so that concrete inputs evaluate.\<close>

declare victim_loop.simps [code]

end
