(* ===== verification/Extents.thy ===== *)
theory Extents
  imports FtlState
begin

text \<open>
  The extents table of \<open>pm.c\<close>, one cache page: sixteen roots, six index nodes per root, six
  leaves per index node. A leaf maps \<open>lf_size\<close> consecutive pages from \<open>lf_lpn\<close> on to
  consecutive physical pages from \<open>lf_ppn\<close> on. This theory holds the functions that work on
  one table; \<open>i_node\<close> and \<open>l_node\<close> arguments of the C functions, pointers into the table,
  are indices \<open>ib\<close> and \<open>lb\<close> of its arrays. A C function that dereferences a pointer the
  table may not hold returns an option.

  The C code writes past the six leaves of a block only in \<open>pm_move_back_lnode\<close> when the last
  leaf is in use; the arrays are flat, so the model overwrites the next block as the code does.
\<close>

subsection \<open>Initialisation\<close>

text \<open>The loops over the sixteen roots and the ninety-six index nodes set every node once; they
  are written as one function of the index.\<close>

definition pm_init_extmap_link :: "extents_node \<Rightarrow> extents_node" where
  "pm_init_extmap_link e =
     e\<lparr>r_node := (\<lambda>j. if j < ROOT_NODE_SIZE then Some (j * INDEX_NODE_SIZE) else r_node e j),
       i_node := (\<lambda>j. if j < ROOT_NODE_SIZE * INDEX_NODE_SIZE
                      then (i_node e j)\<lparr>ix_l_node := Some (j * LEAF_NODE_SIZE)\<rparr>
                      else i_node e j)\<rparr>"

definition pm_init_extmap :: "extents_node \<Rightarrow> extents_node" where
  "pm_init_extmap e =
     pm_init_extmap_link
      (e\<lparr>i_node := (\<lambda>j. if j < ROOT_NODE_SIZE * INDEX_NODE_SIZE \<and> j mod INDEX_NODE_SIZE = 0
                        then (i_node e j)\<lparr>ix_size := NUM_PAGE_PER_ROOT, ix_used := True,
                                          ix_l_node := None\<rparr>
                        else i_node e j),
         l_node := (\<lambda>k. if k < ROOT_NODE_SIZE * INDEX_NODE_SIZE * LEAF_NODE_SIZE
                           \<and> k mod LEAF_NODE_SIZE = 0
                        then (l_node e k)\<lparr>lf_size := 0, lf_used := False, lf_ppn := M1\<rparr>
                        else l_node e k)\<rparr>)"

definition pm_init_idxnode :: "nat \<Rightarrow> (nat \<Rightarrow> leaf) \<Rightarrow> (nat \<Rightarrow> leaf)" where
  "pm_init_idxnode lb ls = (\<lambda>k. if lb \<le> k \<and> k < lb + LEAF_NODE_SIZE then free_leaf else ls k)"

definition copy_leaves :: "nat \<Rightarrow> nat \<Rightarrow> (nat \<Rightarrow> leaf) \<Rightarrow> (nat \<Rightarrow> leaf)" where
  "copy_leaves src dst ls =
     (\<lambda>k. if dst \<le> k \<and> k < dst + LEAF_NODE_SIZE then ls (src + (k - dst)) else ls k)"

definition zero_leaves :: "nat \<Rightarrow> (nat \<Rightarrow> leaf) \<Rightarrow> (nat \<Rightarrow> leaf)" where
  "zero_leaves lb ls = (\<lambda>k. if lb \<le> k \<and> k < lb + LEAF_NODE_SIZE then zero_leaf else ls k)"

subsection \<open>Shifting leaves\<close>

text \<open>\<open>move_back_loop lb l n\<close> runs the loop of \<open>pm_move_back_lnode\<close> for \<open>i = l + n - 1\<close> down
  to \<open>l\<close>.\<close>

fun move_back_loop :: "nat \<Rightarrow> nat \<Rightarrow> nat \<Rightarrow> (nat \<Rightarrow> leaf) \<Rightarrow> (nat \<Rightarrow> leaf)" where
  "move_back_loop lb l 0 ls = ls"
| "move_back_loop lb l (Suc n) ls =
     move_back_loop lb l n
       (if lf_used (ls (lb + (l + n))) then ls(lb + (l + n) + 1 := ls (lb + (l + n))) else ls)"

definition pm_move_back_lnode :: "nat \<Rightarrow> nat \<Rightarrow> (nat \<Rightarrow> leaf) \<Rightarrow> (nat \<Rightarrow> leaf)" where
  "pm_move_back_lnode lb l_num ls =
     (if l_num = LEAF_NODE_SIZE - 1 then ls
      else let ls1 = move_back_loop lb l_num (LEAF_NODE_SIZE - l_num) ls in
           if l_num < LEAF_NODE_SIZE \<and> lf_used (ls1 (lb + l_num))
           then ls1(lb + l_num := free_leaf) else ls1)"

text \<open>\<open>move_forward_loop lb i n\<close> runs \<open>n\<close> rounds from \<open>i\<close> on and returns the position of the
  last source.\<close>

fun move_forward_loop :: "nat \<Rightarrow> nat \<Rightarrow> nat \<Rightarrow> (nat \<Rightarrow> leaf) \<Rightarrow> (nat \<Rightarrow> leaf) \<times> nat" where
  "move_forward_loop lb i 0 ls = (ls, lb + i)"
| "move_forward_loop lb i (Suc n) ls =
     (let ls1 = ls(lb + i := ls (lb + i + 1)) in
      if \<not> lf_used (ls (lb + i + 1)) then (ls1, lb + i + 1)
      else move_forward_loop lb (i + 1) n ls1)"

definition pm_move_forward_lnode :: "nat \<Rightarrow> nat \<Rightarrow> (nat \<Rightarrow> leaf) \<Rightarrow> (nat \<Rightarrow> leaf) option" where
  "pm_move_forward_lnode lb l_num ls =
     (if LEAF_NODE_SIZE \<le> l_num then None
      else let (ls1, src) = move_forward_loop lb l_num (LEAF_NODE_SIZE - 1 - l_num) ls in
           Some (if lf_used (ls1 src) then ls1(src := free_leaf) else ls1))"

subsection \<open>Shifting index nodes\<close>

text \<open>The assignments to the pointers read \<open>i_node->l_node\<close>, the link of the root's first index
  node, after the copies made before them; the \<open>let\<close> chains follow that order.\<close>

definition set_link :: "nat \<Rightarrow> nat \<Rightarrow> (nat \<Rightarrow> idx) \<Rightarrow> (nat \<Rightarrow> idx)" where
  "set_link k v is = is(k := (is k)\<lparr>ix_l_node := Some v\<rparr>)"

definition move_back_inode_step :: "nat \<Rightarrow> nat \<Rightarrow> extents_node \<Rightarrow> extents_node option" where
  "move_back_inode_step ib i e =
     (if \<not> ix_used (i_node e (ib + i)) then Some e
      else do {
        src \<leftarrow> ix_l_node (i_node e (ib + i));
        dst \<leftarrow> ix_l_node (i_node e (ib + i + 1));
        let is1 = (i_node e)(ib + i + 1 := i_node e (ib + i));
        base \<leftarrow> ix_l_node (is1 ib);
        let is2 = set_link (ib + i + 1) (base + (i + 1) * LEAF_NODE_SIZE) is1;
        base \<leftarrow> ix_l_node (is2 ib);
        let is3 = set_link (ib + i) (base + i * LEAF_NODE_SIZE) is2;
        Some (e\<lparr>l_node := copy_leaves src dst (l_node e), i_node := is3\<rparr>) })"

text \<open>At the end the code relinks the emptied node and then stores \<open>-1\<close> through \<open>ppn\<close>, the
  same member of the union, so the link is lost; \<open>pm_divide_idxnode\<close> sets it again.\<close>

definition pm_move_back_inode :: "nat \<Rightarrow> nat \<Rightarrow> extents_node \<Rightarrow> extents_node option" where
  "pm_move_back_inode ib i_num e =
     (if INDEX_NODE_SIZE - 2 < i_num then None
      else do {
        e1 \<leftarrow> foldM (move_back_inode_step ib) (rev [i_num ..< INDEX_NODE_SIZE - 1]) e;
        if ix_used (i_node e1 (ib + i_num)) then do {
          lb \<leftarrow> ix_l_node (i_node e1 (ib + i_num));
          Some (e1\<lparr>l_node := pm_init_idxnode lb (l_node e1),
                   i_node := (i_node e1)(ib + i_num := zero_idx)\<rparr>)
        } else Some e1 })"

text \<open>The loop of \<open>pm_move_forward_inode\<close>; the second result is the final \<open>i\<close>, the position of
  the last source.\<close>

fun move_forward_inode_loop :: "nat \<Rightarrow> nat \<Rightarrow> nat \<Rightarrow> extents_node \<Rightarrow> (extents_node \<times> nat) option"
  where
  "move_forward_inode_loop ib i 0 e = Some (e, i)"
| "move_forward_inode_loop ib i (Suc n) e = do {
     src \<leftarrow> ix_l_node (i_node e (ib + i + 1));
     dst \<leftarrow> ix_l_node (i_node e (ib + i));
     let is1 = (i_node e)(ib + i := i_node e (ib + i + 1));
     base \<leftarrow> ix_l_node (is1 ib);
     let is2 = set_link (ib + i) (base + i * LEAF_NODE_SIZE) is1;
     base \<leftarrow> ix_l_node (is2 ib);
     let is3 = set_link (ib + i + 1) (base + (i + 1) * LEAF_NODE_SIZE) is2;
     let e1 = e\<lparr>l_node := copy_leaves src dst (l_node e), i_node := is3\<rparr>;
     if \<not> ix_used (i_node e (ib + i + 1)) then Some (e1, i + 1)
     else move_forward_inode_loop ib (i + 1) n e1 }"

definition pm_move_forward_inode :: "nat \<Rightarrow> nat \<Rightarrow> extents_node \<Rightarrow> extents_node option" where
  "pm_move_forward_inode ib i_num e =
     (if INDEX_NODE_SIZE \<le> i_num then None
      else do {
        (e1, i) \<leftarrow> move_forward_inode_loop ib i_num (INDEX_NODE_SIZE - 1 - i_num) e;
        if ix_used (i_node e1 (ib + i)) then do {
          let is1 = (i_node e1)(ib + i := zero_idx);
          base \<leftarrow> ix_l_node (is1 ib);
          Some (e1\<lparr>i_node := set_link (ib + i) (base + i * LEAF_NODE_SIZE) is1,
                   l_node := pm_init_idxnode (base + i * LEAF_NODE_SIZE) (l_node e1)\<rparr>)
        } else Some e1 })"

subsection \<open>Splitting a full index node\<close>

text \<open>\<open>copy_loop\<close> is the copying loop of \<open>pm_copy_node\<close>, \<open>sl\<close> and \<open>dl\<close> the two leaf blocks; the
  place of the new leaf is left out on the way.\<close>

fun copy_loop :: "nat \<Rightarrow> nat \<Rightarrow> nat \<Rightarrow> nat \<Rightarrow> nat \<Rightarrow> nat \<Rightarrow> (nat \<Rightarrow> leaf) \<Rightarrow> (nat \<Rightarrow> leaf)" where
  "copy_loop sl dl l_num i j 0 ls = ls"
| "copy_loop sl dl l_num i j (Suc n) ls =
     (let j1 = (if l_num = i \<and> i > LEAF_MID_POS then j + 1 else j) in
      if lf_used (ls (sl + i))
      then copy_loop sl dl l_num (i + 1) (j1 + 1) n
             (ls(dl + j1 := ls (sl + i), sl + i := zero_leaf))
      else ls)"

definition pm_copy_node :: "nat \<Rightarrow> nat \<Rightarrow> nat \<Rightarrow> extents_node \<Rightarrow> extents_node option" where
  "pm_copy_node src dest l_num e = do {
     sl \<leftarrow> ix_l_node (i_node e src);
     dl \<leftarrow> ix_l_node (i_node e dest);
     let cp = (if l_num < LEAF_MID_POS + 1 then LEAF_MID_POS else LEAF_MID_POS + 1);
     let ls = copy_loop sl dl l_num cp 0 (LEAF_NODE_SIZE - cp) (l_node e);
     let is1 = (i_node e)(dest := (i_node e dest)\<lparr>ix_used := True\<rparr>);
     let s_end = int (ix_lpn (is1 src)) + int (ix_size (is1 src));
     if l_num < LEAF_MID_POS + 1 then do {
       let d_lpn = lf_lpn (ls dl);
       let is2 = is1(dest := (is1 dest)\<lparr>ix_size := fld15 (s_end - int d_lpn), ix_lpn := d_lpn\<rparr>);
       let is3 = is2(src := (is2 src)\<lparr>ix_size := fld15 (int d_lpn - int (ix_lpn (is2 src)))\<rparr>);
       Some (e\<lparr>i_node := is3,
               l_node := (if l_num < LEAF_MID_POS then pm_move_back_lnode sl l_num ls else ls)\<rparr>)
     } else do {
       let t_src = ls (sl + LEAF_MID_POS);
       let t_end = int (lf_lpn t_src) + int (lf_size t_src);
       let is2 = is1(dest := (is1 dest)\<lparr>ix_size := fld15 (s_end - t_end), ix_lpn := fld16 t_end\<rparr>);
       let is3 = is2(src := (is2 src)\<lparr>ix_size := fld15 (t_end - int (ix_lpn (is2 src)))\<rparr>);
       Some (e\<lparr>i_node := is3, l_node := ls\<rparr>)
     } }"

text \<open>\<open>pm_divide_idxnode\<close> after its test for a free index node: the next index node takes half
  of the leaves, after the nodes behind it were moved out of the way. The result is the table
  and the block of leaves that takes the new leaf.\<close>

definition divide_split :: "nat \<Rightarrow> nat \<Rightarrow> nat \<Rightarrow> extents_node \<Rightarrow> (extents_node \<times> nat) option" where
  "divide_split ib i_num l_num e = do {
     let next_i_num = i_num + 1;
     e1 \<leftarrow> (if ix_used (i_node e (ib + next_i_num)) then do {
              e0 \<leftarrow> pm_move_back_inode ib next_i_num e;
              base \<leftarrow> ix_l_node (i_node e0 ib);
              Some (e0\<lparr>i_node := set_link (ib + next_i_num) (base + next_i_num * LEAF_NODE_SIZE)
                                  (i_node e0)\<rparr>)
            } else Some e);
     e2 \<leftarrow> pm_copy_node (ib + i_num) (ib + next_i_num) l_num e1;
     lb \<leftarrow> ix_l_node (i_node e2 (if l_num < LEAF_MID_POS + 1 then ib + i_num else ib + next_i_num));
     Some (e2, lb) }"

text \<open>The macro \<open>RE_INSERT_POS(idx, i_num)\<close>.\<close>

definition RE_INSERT_POS :: "nat \<Rightarrow> nat \<Rightarrow> nat \<times> nat" where
  "RE_INSERT_POS l_num i_num =
     (if l_num > LEAF_MID_POS then (l_num - (LEAF_MID_POS + 1), i_num + 1) else (l_num, i_num))"

subsection \<open>The two searches of an insertion\<close>

text \<open>The first index node whose range ends after \<open>lpn\<close>; with none the code goes on with a
  null pointer.\<close>

fun find_inode :: "(nat \<Rightarrow> idx) \<Rightarrow> nat \<Rightarrow> nat \<Rightarrow> nat \<Rightarrow> nat \<Rightarrow> nat option" where
  "find_inode is ib lpn i 0 = None"
| "find_inode is ib lpn i (Suc n) =
     (if ix_lpn (is (ib + i)) + ix_size (is (ib + i)) > lpn then Some i
      else find_inode is ib lpn (i + 1) n)"

text \<open>The position among the leaves, and whether an old leaf that reaches beyond the new one
  has to make room.\<close>

fun scan_leaves :: "(nat \<Rightarrow> leaf) \<Rightarrow> nat \<Rightarrow> nat \<Rightarrow> nat \<Rightarrow> nat \<Rightarrow> nat \<Rightarrow> nat \<times> bool" where
  "scan_leaves ls lb lpn sz l 0 = (l, False)"
| "scan_leaves ls lb lpn sz l (Suc n) =
     (let t = ls (lb + l) in
      if \<not> lf_used t then (l, False)
      else if lf_lpn t \<ge> lpn then (l, \<not> lf_lpn t + lf_size t \<le> lpn + sz)
      else scan_leaves ls lb lpn sz (l + 1) n)"

definition put_leaf :: "nat \<Rightarrow> nat \<Rightarrow> nat \<Rightarrow> u32 \<Rightarrow> (nat \<Rightarrow> leaf) \<Rightarrow> (nat \<Rightarrow> leaf)" where
  "put_leaf k lpn sz ppn ls =
     ls(k := \<lparr>lf_ppn = ppn, lf_lpn = fld16 (int lpn), lf_size = fld15 (int sz), lf_used = True\<rparr>)"

subsection \<open>Aligning the leaves behind a new one\<close>

text \<open>The second loop of \<open>pm_align_idxnode\<close>, from leaf \<open>i\<close> of block \<open>lb\<close> of index node \<open>i_num\<close>
  on. Where the code decrements \<open>i\<close> before \<open>continue\<close> or at the end of the body the loop goes on
  with the same \<open>i\<close>. \<open>None\<close> is a broken link, or a loop that does not end.\<close>

definition align_next_inode_covered :: "nat \<Rightarrow> nat \<Rightarrow> nat \<Rightarrow> extents_node \<Rightarrow> extents_node option" where
  "align_next_inode_covered ib i_num nb e = do {
     let next_i_num = i_num + 1;
     let nn = l_node e nb;
     let is0 = i_node e;
     let is1 = is0(ib + i_num := (is0 (ib + i_num))
                 \<lparr>ix_size := fld15 (int (lf_lpn nn) + int (lf_size nn) - int (ix_lpn (is0 (ib + i_num))))\<rparr>);
     let is2 = is1(ib + next_i_num := (is1 (ib + next_i_num))
                 \<lparr>ix_lpn := fld16 (int (ix_lpn (is1 (ib + i_num))) + int (ix_size (is1 (ib + i_num)))),
                  ix_size := fld15 (int (ix_size (is1 (ib + next_i_num))) - int (lf_size nn))\<rparr>);
     let is3 = (if ix_lpn (is2 (ib + next_i_num)) + ix_size (is2 (ib + next_i_num)) > NUM_PAGE_PER_ROOT
                then is2(ib + next_i_num := (is2 (ib + next_i_num))
                       \<lparr>ix_size := fld15 (int NUM_PAGE_PER_ROOT - int (ix_lpn (is2 (ib + next_i_num))))\<rparr>)
                else is2);
     ls1 \<leftarrow> pm_move_forward_lnode nb 0 (l_node e);
     let e1 = e\<lparr>i_node := is3, l_node := ls1\<rparr>;
     if \<not> lf_used (ls1 nb) then do {
       let t_next_lpn = ix_lpn (is3 (ib + next_i_num));
       let t_next_size = ix_size (is3 (ib + next_i_num));
       e2 \<leftarrow> pm_move_forward_inode ib next_i_num e1;
       Some (e2\<lparr>i_node := (i_node e2)(ib + i_num := (i_node e2 (ib + i_num))
                 \<lparr>ix_size := fld15 (int t_next_lpn + int t_next_size
                                    - int (ix_lpn (i_node e2 (ib + i_num))))\<rparr>)\<rparr>)
     } else Some e1 }"

definition trim_leaf_front :: "nat \<Rightarrow> leaf \<Rightarrow> leaf" where
  "trim_leaf_front cur_end nn =
     nn\<lparr>lf_ppn := lf_ppn nn + word_of_int (int cur_end - int (lf_lpn nn)),
        lf_size := fld15 (int (lf_lpn nn) + int (lf_size nn) - int cur_end),
        lf_lpn := fld16 (int cur_end)\<rparr>"

definition align_next_inode_overlap :: "nat \<Rightarrow> nat \<Rightarrow> nat \<Rightarrow> nat \<Rightarrow> extents_node \<Rightarrow> extents_node" where
  "align_next_inode_overlap ib i_num k nb e =
    (let next_i_num = i_num + 1;
         cur_end = int (lf_lpn (l_node e k)) + int (lf_size (l_node e k));
         is0 = i_node e;
         is1 = is0(ib + i_num := (is0 (ib + i_num))
                \<lparr>ix_size := fld15 (cur_end - int (ix_lpn (is0 (ib + i_num))))\<rparr>);
         i_end = int (ix_lpn (is1 (ib + i_num))) + int (ix_size (is1 (ib + i_num)));
         is2 = is1(ib + next_i_num := (is1 (ib + next_i_num))
                \<lparr>ix_size := fld15 (int (ix_lpn (is1 (ib + next_i_num)))
                                   + int (ix_size (is1 (ib + next_i_num))) - i_end),
                 ix_lpn := fld16 i_end\<rparr>);
         is3 = (if ix_lpn (is2 (ib + next_i_num)) + ix_size (is2 (ib + next_i_num)) > MAP_ENTRIES_PER_PAGE
                then is2(ib + next_i_num := (is2 (ib + next_i_num))
                       \<lparr>ix_size := fld15 (int MAP_ENTRIES_PER_PAGE - int (ix_lpn (is2 (ib + next_i_num))))\<rparr>)
                else is2) in
     e\<lparr>i_node := is3,
       l_node := (l_node e)(nb := trim_leaf_front (lf_lpn (l_node e k) + lf_size (l_node e k))
                                                 (l_node e nb))\<rparr>)"

partial_function (option) align_loop :: "nat \<Rightarrow> nat \<Rightarrow> nat \<Rightarrow> nat \<Rightarrow> extents_node \<Rightarrow> extents_node option"
  where
  "align_loop ib i_num lb i e =
    (if LEAF_NODE_SIZE \<le> i then Some e
     else if (i_num + 1 = INDEX_NODE_SIZE \<and> i + 1 = LEAF_NODE_SIZE) \<or> \<not> lf_used (l_node e (lb + i))
     then Some e
     else let cur = l_node e (lb + i); cur_end = lf_lpn cur + lf_size cur;
              next = l_node e (lb + i + 1) in
       if i_num + 1 \<noteq> INDEX_NODE_SIZE \<and> (i + 1 = LEAF_NODE_SIZE \<or> \<not> lf_used next)
       then (if \<not> ix_used (i_node e (ib + i_num)) \<or> \<not> ix_used (i_node e (ib + i_num + 1)) then Some e
             else do {
               nb \<leftarrow> ix_l_node (i_node e (ib + i_num + 1));
               let nn = l_node e nb;
               if cur_end \<le> lf_lpn nn then Some e
               else if cur_end \<ge> lf_lpn nn + lf_size nn then do {
                 e1 \<leftarrow> align_next_inode_covered ib i_num nb e;
                 align_loop ib i_num lb i e1 }
               else Some (align_next_inode_overlap ib i_num (lb + i) nb e) })
       else if i + 1 = LEAF_NODE_SIZE then Some e
       else if cur_end \<le> lf_lpn next \<or> \<not> lf_used next then Some e
       else if lf_lpn cur \<le> lf_lpn next then
         (if cur_end \<ge> lf_lpn next + lf_size next then do {
            ls1 \<leftarrow> pm_move_forward_lnode lb (i + 1) (l_node e);
            align_loop ib i_num lb i (e\<lparr>l_node := ls1\<rparr>) }
          else Some (e\<lparr>l_node := (l_node e)(lb + i + 1 := trim_leaf_front cur_end next)\<rparr>))
       else align_loop ib i_num lb (i + 1) e)"

subsection \<open>Lookup\<close>

text \<open>\<open>pm_read_extmap\<close> returns the leaf, and the positions of its index node and of itself; the
  outer option is a broken link, the inner one the null result.\<close>

fun read_inode_loop :: "(nat \<Rightarrow> idx) \<Rightarrow> nat \<Rightarrow> nat \<Rightarrow> nat \<Rightarrow> nat \<Rightarrow> nat option" where
  "read_inode_loop is ib lpn i 0 = None"
| "read_inode_loop is ib lpn i (Suc n) =
     (let t = is (ib + i) in
      if \<not> ix_used t then None
      else if ix_lpn t \<le> lpn \<and> lpn < ix_lpn t + ix_size t then Some i
      else read_inode_loop is ib lpn (i + 1) n)"

fun read_leaf_loop :: "(nat \<Rightarrow> leaf) \<Rightarrow> nat \<Rightarrow> nat \<Rightarrow> nat \<Rightarrow> nat \<Rightarrow> nat option" where
  "read_leaf_loop ls lb lpn l 0 = None"
| "read_leaf_loop ls lb lpn l (Suc n) =
     (let t = ls (lb + l) in
      if lf_lpn t \<le> lpn \<and> lpn < lf_lpn t + lf_size t then Some l
      else read_leaf_loop ls lb lpn (l + 1) n)"

definition pm_read_extmap :: "nat \<Rightarrow> nat \<Rightarrow> extents_node \<Rightarrow> (nat \<times> nat \<times> nat) option option" where
  "pm_read_extmap ib lpn e =
     (case read_inode_loop (i_node e) ib lpn 0 INDEX_NODE_SIZE of
        None \<Rightarrow> Some None
      | Some i_num \<Rightarrow> do {
          lb \<leftarrow> ix_l_node (i_node e (ib + i_num));
          Some (if \<not> lf_used (l_node e lb) then None
                else map_option (\<lambda>l. (i_num, l, lb + l))
                       (read_leaf_loop (l_node e) lb lpn 0 LEAF_NODE_SIZE)) })"

text \<open>The loops as code equations, so that concrete inputs evaluate.\<close>

declare align_loop.simps [code]

end
