(* ===== verification/PolyMap.thy ===== *)
theory PolyMap
  imports MapCache Extents
begin

text \<open>
  The polymorphic mapping of \<open>pm.c\<close> over the whole state. Every root of sixteen megabytes is
  mapped either by the extents table of its region or, once that table has no room for it, by a
  page map of its own; the bit of the root in \<open>map_type\<close> tells which. Both kinds of map live in
  cache lines and are read from and written to the map store by the cache. The extents table an
  operation works on is named by its cache line \<open>n\<close>.
\<close>

definition pm_init :: "config \<Rightarrow> ftl_state \<Rightarrow> ftl_state" where
  "pm_init c s =
     s\<lparr>region_table := (\<lambda>i. if i < REGION_NODE_SIZE c
          then (region_table s i)\<lparr>map_type := 0, extents_ppn := M1, ptr_cache_e := None,
                 page_ppn := (\<lambda>k. if k < ROOT_NODE_SIZE then M1 else page_ppn (region_table s i) k)\<rparr>
          else region_table s i),
       change_pagemap_count := 0\<rparr>"

subsection \<open>Page maps\<close>

fun pm_write_pagemap :: "nat \<Rightarrow> nat \<Rightarrow> u32 \<Rightarrow> (nat \<Rightarrow> u32) \<Rightarrow> (nat \<Rightarrow> u32)" where
  "pm_write_pagemap lpn 0 new_ppn m = m"
| "pm_write_pagemap lpn (Suc n) new_ppn m =
     pm_write_pagemap (lpn + 1) n (new_ppn + 1) (m(lpn := new_ppn))"

definition pm_read_pagemap :: "(nat \<Rightarrow> u32) \<Rightarrow> nat \<Rightarrow> u32" where
  "pm_read_pagemap m lpn = m lpn"

definition pm_init_pagemap :: "config \<Rightarrow> nat \<Rightarrow> nat \<Rightarrow> ftl_state \<Rightarrow> (nat \<times> ftl_state) option" where
  "pm_init_pagemap c r_num n s =
     (let rg_num = r_num div ROOT_NODE_SIZE; r_offset = GET_ROOT_NUM_PER_REGION r_num in do {
      (t, s1) \<leftarrow> cache_take c (Some n) s;
      let s2 = set_pagemap t (\<lambda>_. M1) s1;
      let s3 = cache_update_pagemap_info t r_num True s2;
      let s4 = upd_region rg_num
                 (\<lambda>g. g\<lparr>ptr_cache_p := (ptr_cache_p g)(r_offset := Some t),
                        page_ppn := (page_ppn g)(r_offset := M1)\<rparr>) s3;
      Some (t, pm_update_region c rg_num s4) })"

text \<open>One round of the outer loop of \<open>pm_change_pagemap\<close>, on the table and the page map.\<close>

definition change_leaf :: "nat \<Rightarrow> (nat \<Rightarrow> leaf) \<Rightarrow> nat \<Rightarrow> (nat \<Rightarrow> u32) \<Rightarrow> (nat \<Rightarrow> u32)" where
  "change_leaf lb ls l_num m =
     (let t = ls (lb + l_num) in
      if lf_used t then pm_write_pagemap (lf_lpn t) (lf_size t) (lf_ppn t) m else m)"

definition change_inode :: "nat \<Rightarrow> nat \<Rightarrow> extents_node \<times> (nat \<Rightarrow> u32) \<Rightarrow>
    (extents_node \<times> (nat \<Rightarrow> u32)) option" where
  "change_inode ib i_num st =
     (let (e, m) = st in
      if ix_used (i_node e (ib + i_num)) then do {
        lb \<leftarrow> ix_l_node (i_node e (ib + i_num));
        Some (e\<lparr>l_node := zero_leaves lb (l_node e),
                i_node := (i_node e)(ib + i_num := zero_idx)\<rparr>,
              fold (change_leaf lb (l_node e)) [0 ..< LEAF_NODE_SIZE] m)
      } else Some (e, m))"

definition pm_change_pagemap :: "config \<Rightarrow> nat \<Rightarrow> nat \<Rightarrow> nat \<Rightarrow> ftl_state \<Rightarrow> ftl_state option" where
  "pm_change_pagemap c r_num n ib s =
     (let rg_num = r_num div ROOT_NODE_SIZE; r_offset = GET_ROOT_NUM_PER_REGION r_num in do {
      (t, s1) \<leftarrow> pm_init_pagemap c r_num n s;
      e \<leftarrow> get_extents s1 n;
      m \<leftarrow> get_pagemap s1 t;
      (e1, m1) \<leftarrow> foldM (change_inode ib) [0 ..< INDEX_NODE_SIZE] (e, m);
      let s2 = set_pagemap t m1 (set_extents n e1 s1);
      let s3 = upd_region rg_num (\<lambda>g. g\<lparr>map_type := BIT_SET (map_type g) r_offset\<rparr>) s2;
      Some (s3\<lparr>change_pagemap_count := change_pagemap_count s3 + 1\<rparr>) })"

subsection \<open>Inserting into an extents table\<close>

text \<open>The result is \<open>None\<close> inside where \<open>pm_divide_idxnode\<close> returns the null pointer because
  the root was turned into a page map.\<close>

definition pm_divide_idxnode :: "config \<Rightarrow> nat \<Rightarrow> nat \<Rightarrow> nat \<Rightarrow> nat \<Rightarrow> ftl_state \<Rightarrow>
    (nat option \<times> ftl_state) option" where
  "pm_divide_idxnode c r_num i_num l_num n s = do {
     e \<leftarrow> get_extents s n;
     ib \<leftarrow> r_node e (GET_ROOT_NUM_PER_REGION r_num);
     if ix_used (i_node e (ib + (INDEX_NODE_SIZE - 1))) then do {
       s1 \<leftarrow> pm_change_pagemap c r_num n ib s;
       Some (None, s1)
     } else do {
       (e1, lb) \<leftarrow> divide_split ib i_num l_num e;
       Some (Some lb, set_extents n e1 s)
     } }"

text \<open>The part of \<open>pm_align_idxnode\<close> before the new leaf: the old leaf in front of it loses its
  end, and when it reaches beyond the new leaf the rest of it becomes a leaf of its own. The
  result is the block of leaves and the index node to go on with, or \<open>None\<close> where the function
  returns because the root was turned into a page map.\<close>

definition align_front :: "config \<Rightarrow> nat \<Rightarrow> nat \<Rightarrow> nat \<Rightarrow> nat \<Rightarrow> nat \<Rightarrow> ftl_state \<Rightarrow>
    ((nat \<times> nat) option \<times> ftl_state) option" where
  "align_front c r_num i_num l_num n lb s = do {
     e \<leftarrow> get_extents s n;
     let cur = l_node e (lb + l_num - 1);
     let new = l_node e (lb + l_num);
     let cur_end = lf_lpn cur + lf_size cur;
     let new_end = lf_lpn new + lf_size new;
     if cur_end \<le> lf_lpn new then Some (Some (lb, i_num), s)
     else do {
       let s1 = set_extents n (e\<lparr>l_node := (l_node e)(lb + l_num - 1 :=
                  cur\<lparr>lf_size := fld15 (int (lf_lpn new) - int (lf_lpn cur))\<rparr>)\<rparr>) s;
       if cur_end \<le> new_end then Some (Some (lb, i_num), s1)
       else do {
         e1 \<leftarrow> get_extents s1 n;
         (r, s2) \<leftarrow> (if lf_used (l_node e1 (lb + (LEAF_NODE_SIZE - 1)))
                     then pm_divide_idxnode c r_num i_num (l_num + 1) n s1
                     else Some (Some lb, set_extents n
                            (e1\<lparr>l_node := pm_move_back_lnode lb (l_num + 1) (l_node e1)\<rparr>) s1));
         let (i, i_num') = (if lf_used (l_node e1 (lb + (LEAF_NODE_SIZE - 1)))
                            then RE_INSERT_POS (l_num + 1) i_num else (l_num + 1, i_num));
         (case r of
            None \<Rightarrow> Some (None, s2)
          | Some lb1 \<Rightarrow> do {
              e2 \<leftarrow> get_extents s2 n;
              let rest = fld15 (int cur_end - int new_end);
              let t = \<lparr>lf_ppn = lf_ppn cur + word_of_int (int (lf_size cur) - int rest),
                       lf_lpn = fld16 (int new_end), lf_size = rest, lf_used = True\<rparr>;
              Some (Some (lb1, i_num'),
                    set_extents n (e2\<lparr>l_node := (l_node e2)(lb1 + i := t)\<rparr>) s2) }) } } }"

definition pm_align_idxnode :: "config \<Rightarrow> nat \<Rightarrow> nat \<Rightarrow> nat \<Rightarrow> nat \<Rightarrow> nat \<Rightarrow> ftl_state \<Rightarrow>
    ftl_state option" where
  "pm_align_idxnode c r_num i_num l_num n lb s = do {
     (r, s1) \<leftarrow> (if l_num \<noteq> 0 then align_front c r_num i_num l_num n lb s
                 else Some (Some (lb, i_num), s));
     (case r of
        None \<Rightarrow> Some s1
      | Some (lb1, i_num1) \<Rightarrow> do {
          e \<leftarrow> get_extents s1 n;
          ib \<leftarrow> r_node e (GET_ROOT_NUM_PER_REGION r_num);
          e1 \<leftarrow> align_loop ib i_num1 lb1 l_num e;
          Some (set_extents n e1 s1) }) }"

text \<open>The place of a new leaf: after the two searches, the block that takes it, its position
  there and the number of the index node. \<open>None\<close> inside: the root is a page map now.\<close>

definition make_room :: "config \<Rightarrow> nat \<Rightarrow> nat \<Rightarrow> nat \<Rightarrow> nat \<Rightarrow> bool \<Rightarrow> nat \<Rightarrow> ftl_state \<Rightarrow>
    (nat option \<times> nat \<times> nat \<times> ftl_state) option" where
  "make_room c r_num i_num lb l_num room n s = do {
     e \<leftarrow> get_extents s n;
     if (room \<and> lf_used (l_node e (lb + (LEAF_NODE_SIZE - 1)))) \<or> l_num = LEAF_NODE_SIZE then do {
       (r, s1) \<leftarrow> pm_divide_idxnode c r_num i_num l_num n s;
       let (l, i) = RE_INSERT_POS l_num i_num;
       Some (r, l, i, s1)
     } else if room then
       Some (Some lb, l_num, i_num,
             set_extents n (e\<lparr>l_node := pm_move_back_lnode lb l_num (l_node e)\<rparr>) s)
     else Some (Some lb, l_num, i_num, s) }"

definition pm_insert_leafnode :: "config \<Rightarrow> u32 \<Rightarrow> nat \<Rightarrow> u32 \<Rightarrow> nat \<Rightarrow> ftl_state \<Rightarrow>
    ftl_state option" where
  "pm_insert_leafnode c lpn_ori sz new_ppn n s =
     (let rg_num = unat lpn_ori div NUM_PAGE_PER_REGION;
          r_num = unat lpn_ori div NUM_PAGE_PER_ROOT;
          r_offset = GET_ROOT_NUM_PER_REGION r_num;
          lpn = unat lpn_ori mod NUM_PAGE_PER_ROOT in do {
      e \<leftarrow> get_extents s n;
      ib \<leftarrow> r_node e r_offset;
      i_num \<leftarrow> find_inode (i_node e) ib lpn 0 INDEX_NODE_SIZE;
      lb \<leftarrow> ix_l_node (i_node e (ib + i_num));
      let (l_num, room) = scan_leaves (l_node e) lb lpn sz 0 LEAF_NODE_SIZE;
      (r, l, i, s1) \<leftarrow> make_room c r_num i_num lb l_num room n s;
      (case r of
         None \<Rightarrow> do {
           t \<leftarrow> ptr_cache_p (region_table s1 rg_num) r_offset;
           m \<leftarrow> get_pagemap s1 t;
           Some (set_pagemap t (pm_write_pagemap lpn sz new_ppn m) s1) }
       | Some lb1 \<Rightarrow> do {
           e1 \<leftarrow> get_extents s1 n;
           let s2 = set_extents n (e1\<lparr>l_node := put_leaf (lb1 + l) lpn sz new_ppn (l_node e1)\<rparr>) s1;
           pm_align_idxnode c r_num i l n lb1 s2 }) })"

subsection \<open>Updating and reading the mapping\<close>

text \<open>The pages a request covers, as \<open>pm_write_extmap\<close> and \<open>pm_update_physical_address\<close>
  compute them.\<close>

definition lpn_of :: "config \<Rightarrow> u32 \<Rightarrow> u32" where
  "lpn_of c lba = lba div u32i (SECTORS_PER_PAGE c)"

definition pages_of :: "config \<Rightarrow> u32 \<Rightarrow> u32 \<Rightarrow> u32" where
  "pages_of c lba sectors =
     (lba + sectors - 1) div u32i (SECTORS_PER_PAGE c) - lpn_of c lba + 1"

definition pm_write_extmap :: "config \<Rightarrow> u32 \<Rightarrow> u32 \<Rightarrow> u32 \<Rightarrow> nat \<Rightarrow> ftl_state \<Rightarrow> ftl_state option"
  where
  "pm_write_extmap c lba sectors new_ppn n s =
     pm_insert_leafnode c (lpn_of c lba) (unat (pages_of c lba sectors)) new_ppn n s"

definition pm_update_pagemap :: "config \<Rightarrow> nat \<Rightarrow> nat \<Rightarrow> nat \<Rightarrow> u32 \<Rightarrow> ftl_state \<Rightarrow> ftl_state option"
  where
  "pm_update_pagemap c r_num page_offset sz new_ppn s =
     (let rg_num = r_num div ROOT_NODE_SIZE; r_offset = GET_ROOT_NUM_PER_REGION r_num in
      case ptr_cache_p (region_table s rg_num) r_offset of
        Some n \<Rightarrow> do {
          m \<leftarrow> get_pagemap s n;
          Some (cache_update_info n True
                  (set_pagemap n (pm_write_pagemap page_offset sz new_ppn m) s)) }
      | None \<Rightarrow> do {
          let ppn = page_ppn (region_table s rg_num) r_offset;
          (t, s1) \<leftarrow> cache_take c None s;
          s2 \<leftarrow> ftl_read_map c ppn t s1;
          m \<leftarrow> get_pagemap s2 t;
          let s3 = set_pagemap t (pm_write_pagemap page_offset sz new_ppn m) s2;
          let s4 = cache_update_pagemap_info t r_num True s3;
          let s5 = upd_region rg_num
                     (\<lambda>g. g\<lparr>ptr_cache_p := (ptr_cache_p g)(r_offset := Some t)\<rparr>) s4;
          Some (pm_update_region c rg_num s5) })"

definition pm_update_extents :: "config \<Rightarrow> nat \<Rightarrow> u32 \<Rightarrow> u32 \<Rightarrow> u32 \<Rightarrow> ftl_state \<Rightarrow> ftl_state option"
  where
  "pm_update_extents c rg_num lba sectors new_ppn s =
     (case ptr_cache_e (region_table s rg_num) of
        Some n \<Rightarrow> do {
          s1 \<leftarrow> pm_write_extmap c lba sectors new_ppn n s;
          Some (cache_update_info n True s1) }
      | None \<Rightarrow> do {
          let init_flag = (extents_ppn (region_table s rg_num) = M1);
          (t, s1) \<leftarrow> cache_take c None s;
          s2 \<leftarrow> (if init_flag then do {
                    e \<leftarrow> get_extents s1 t;
                    Some (set_extents t (pm_init_extmap e) s1)
                  } else do {
                    s1' \<leftarrow> ftl_read_map c (extents_ppn (region_table s1 rg_num)) t s1;
                    e \<leftarrow> get_extents s1' t;
                    Some (set_extents t (pm_init_extmap_link e) s1') });
          s3 \<leftarrow> pm_write_extmap c lba sectors new_ppn t s2;
          let s4 = cache_update_extentsmap_info t rg_num True s3;
          let s5 = upd_region rg_num (ptr_cache_e_update (\<lambda>_. Some t)) s4;
          Some (pm_update_region c rg_num s5) })"

definition pm_update_physical_address :: "config \<Rightarrow> u32 \<Rightarrow> u32 \<Rightarrow> u32 \<Rightarrow> ftl_state \<Rightarrow>
    ftl_state option" where
  "pm_update_physical_address c lba sectors new_ppn s =
     (let lpn = lpn_of c lba; sz = pages_of c lba sectors;
          rg_num = unat lpn div NUM_PAGE_PER_REGION;
          r_num = unat lpn div NUM_PAGE_PER_ROOT;
          page_offset_per_root = unat lpn mod NUM_PAGE_PER_ROOT in
      if BIT_GET (map_type (region_table s rg_num)) (GET_ROOT_NUM_PER_REGION r_num) \<noteq> 0
      then pm_update_pagemap c r_num page_offset_per_root (unat sz) new_ppn s
      else pm_update_extents c rg_num lba sectors new_ppn s)"

text \<open>The result of \<open>pm_get_physical_address\<close> is a pointer into a cache line.\<close>

datatype phys = NoPage | PageEntry nat nat | LeafEntry nat nat

text \<open>Bringing the map of a root into the cache; the line is \<open>None\<close> where there is no map yet.\<close>

definition fetch_pagemap :: "config \<Rightarrow> nat \<Rightarrow> ftl_state \<Rightarrow> (nat option \<times> ftl_state) option" where
  "fetch_pagemap c r_num s =
     (let rg_num = r_num div ROOT_NODE_SIZE; r_offset = GET_ROOT_NUM_PER_REGION r_num;
          g = region_table s rg_num in
      case ptr_cache_p g r_offset of
        Some n \<Rightarrow> Some (Some n, cache_update_info n False s)
      | None \<Rightarrow>
          if page_ppn g r_offset \<noteq> M1 then do {
            let ppn = page_ppn g r_offset;
            (t, s1) \<leftarrow> cache_take c None s;
            s2 \<leftarrow> ftl_read_map c ppn t s1;
            let s3 = cache_update_pagemap_info t r_num False s2;
            let s4 = upd_region rg_num
                       (\<lambda>g. g\<lparr>ptr_cache_p := (ptr_cache_p g)(r_offset := Some t)\<rparr>) s3;
            Some (Some t, pm_update_region c rg_num s4)
          } else Some (None, s))"

definition fetch_extents :: "config \<Rightarrow> nat \<Rightarrow> ftl_state \<Rightarrow> (nat option \<times> ftl_state) option" where
  "fetch_extents c rg_num s =
     (let g = region_table s rg_num in
      case ptr_cache_e g of
        Some n \<Rightarrow> Some (Some n, cache_update_info n True s)
      | None \<Rightarrow>
          if extents_ppn g \<noteq> M1 then do {
            let ppn = extents_ppn g;
            (t, s1) \<leftarrow> cache_take c None s;
            s2 \<leftarrow> ftl_read_map c ppn t s1;
            e \<leftarrow> get_extents s2 t;
            let s3 = set_extents t (pm_init_extmap_link e) s2;
            let s4 = cache_update_extentsmap_info t rg_num False s3;
            let s5 = upd_region rg_num (ptr_cache_e_update (\<lambda>_. Some t)) s4;
            Some (Some t, pm_update_region c rg_num s5)
          } else Some (None, s))"

text \<open>The three offsets are variables of the caller: the root offset is always set, the two
  others only when a leaf is found.\<close>

record offsets =
  root_offset :: nat
  index_offset :: nat
  leaf_offset :: nat

definition pm_get_physical_address :: "config \<Rightarrow> u32 \<Rightarrow> offsets \<Rightarrow> ftl_state \<Rightarrow>
    (phys \<times> offsets \<times> ftl_state) option" where
  "pm_get_physical_address c lpn off s =
     (let rg_num = unat lpn div NUM_PAGE_PER_REGION;
          r_num = unat lpn div NUM_PAGE_PER_ROOT;
          r_offset_per_region = GET_ROOT_NUM_PER_REGION r_num;
          page_offset_per_root = unat lpn mod NUM_PAGE_PER_ROOT;
          off1 = off\<lparr>root_offset := r_num\<rparr> in
      if BIT_GET (map_type (region_table s rg_num)) r_offset_per_region \<noteq> 0 then do {
        (r, s1) \<leftarrow> fetch_pagemap c r_num s;
        (case r of
           None \<Rightarrow> Some (NoPage, off1, s1)
         | Some n \<Rightarrow> Some (PageEntry n page_offset_per_root, off1, s1))
      } else do {
        (r, s1) \<leftarrow> fetch_extents c rg_num s;
        (case r of
           None \<Rightarrow> Some (NoPage, off1, s1)
         | Some n \<Rightarrow> do {
             e \<leftarrow> get_extents s1 n;
             ib \<leftarrow> r_node e r_offset_per_region;
             f \<leftarrow> pm_read_extmap ib page_offset_per_root e;
             (case f of
                None \<Rightarrow> Some (NoPage, off1, s1)
              | Some (i, l, k) \<Rightarrow>
                  Some (LeafEntry n k, off1\<lparr>index_offset := i, leaf_offset := l\<rparr>, s1)) }) })"

text \<open>\<open>pm_get_lnode\<close>: the leaf behind the one the offsets name.\<close>

definition pm_get_lnode :: "nat \<Rightarrow> offsets \<Rightarrow> ftl_state \<Rightarrow> ((nat \<times> nat) \<times> offsets) option" where
  "pm_get_lnode rg_num off s = do {
     n \<leftarrow> ptr_cache_e (region_table s rg_num);
     e \<leftarrow> get_extents s n;
     ib \<leftarrow> r_node e (GET_ROOT_NUM_PER_REGION (root_offset off));
     let i_num = index_offset off; l_num = leaf_offset off in
     if l_num = INDEX_NODE_SIZE then do {
       lb \<leftarrow> ix_l_node (i_node e (ib + (i_num + 1)));
       Some ((n, lb), off\<lparr>index_offset := i_num + 1, leaf_offset := 0\<rparr>)
     } else do {
       lb \<leftarrow> ix_l_node (i_node e (ib + i_num));
       Some ((n, lb + (l_num + 1)), off\<lparr>leaf_offset := l_num + 1\<rparr>) } }"

end
