(* ===== verification/Gc.thy ===== *)
theory Gc
  imports PolyMap
begin

text \<open>
  Garbage collection, \<open>gc.c\<close>: counting the mapped pages of every super block, choosing the
  super block with the fewest, moving its pages, and erasing it. Only maps that are in the
  cache are visited, as in the code. The two calls of \<open>IS_EVENT\<close> ask the host queue, which
  another thread fills; their answers are the arguments \<open>ev1\<close> and \<open>ev2\<close>.

  \<open>gc_print_valid\<close> and \<open>print_mapping_table\<close> only print.
\<close>

subsection \<open>Counting valid pages\<close>

definition gc_init :: "config \<Rightarrow> ftl_state \<Rightarrow> ftl_state" where
  "gc_init c s =
     s\<lparr>super_block_meta := (\<lambda>i. if int i < BLOCK_NB c then 0 else super_block_meta s i)\<rparr>"

definition count_page :: "config \<Rightarrow> u32 \<Rightarrow> (nat \<Rightarrow> int) \<Rightarrow> (nat \<Rightarrow> int)" where
  "count_page c ppn m =
     (let b = unat (ftl_calc_block c ppn) in m(b := m b + 1))"

definition count_entry :: "config \<Rightarrow> (nat \<Rightarrow> u32) \<Rightarrow> nat \<Rightarrow> (nat \<Rightarrow> int) \<Rightarrow> (nat \<Rightarrow> int)" where
  "count_entry c pm j m = (if pm j \<noteq> M1 then count_page c (pm j) m else m)"

definition count_leaf :: "config \<Rightarrow> leaf \<Rightarrow> (nat \<Rightarrow> int) \<Rightarrow> (nat \<Rightarrow> int)" where
  "count_leaf c t m =
     (if lf_used t \<and> lf_ppn t \<noteq> M1
      then fold (\<lambda>y. count_page c (lf_ppn t + of_nat y)) [1 ..< lf_size t]
             (count_page c (lf_ppn t) m)
      else m)"

definition count_inode :: "config \<Rightarrow> extents_node \<Rightarrow> nat \<Rightarrow> nat \<Rightarrow> (nat \<Rightarrow> int) \<Rightarrow>
    (nat \<Rightarrow> int) option" where
  "count_inode c e i j m =
     (let t = i_node e (i * INDEX_NODE_SIZE + j) in
      if ix_used t then do {
        lb \<leftarrow> ix_l_node t;
        Some (fold (\<lambda>k. count_leaf c (l_node e (lb + k))) [0 ..< LEAF_NODE_SIZE] m)
      } else Some m)"

definition count_root :: "config \<Rightarrow> ftl_state \<Rightarrow> region_node \<Rightarrow> nat \<Rightarrow> nat \<Rightarrow> (nat \<Rightarrow> int) \<Rightarrow>
    (nat \<Rightarrow> int) option" where
  "count_root c s g n i m =
     (if BIT_GET (map_type g) (GET_ROOT_NUM_PER_REGION i) \<noteq> 0 then
        (case ptr_cache_p g i of
           None \<Rightarrow> Some m
         | Some k \<Rightarrow> do {
             pm \<leftarrow> get_pagemap s k;
             Some (fold (count_entry c pm) [0 ..< MAP_ENTRIES_PER_PAGE] m) })
      else do {
        e \<leftarrow> get_extents s n;
        foldM (count_inode c e i) [0 ..< INDEX_NODE_SIZE] m })"

definition count_region :: "config \<Rightarrow> ftl_state \<Rightarrow> nat \<Rightarrow> (nat \<Rightarrow> int) \<Rightarrow> (nat \<Rightarrow> int) option" where
  "count_region c s x m =
     (case ptr_cache_e (region_table s x) of
        None \<Rightarrow> Some m
      | Some n \<Rightarrow> foldM (count_root c s (region_table s x) n) [0 ..< ROOT_NODE_SIZE] m)"

definition gc_valid_count :: "config \<Rightarrow> ftl_state \<Rightarrow> ftl_state option" where
  "gc_valid_count c s =
     (let s1 = gc_init c s in
      map_option (\<lambda>m. s1\<lparr>super_block_meta := m\<rparr>)
        (foldM (count_region c s1) [0 ..< REGION_NODE_SIZE c] (super_block_meta s1)))"

subsection \<open>Choosing a victim\<close>

definition victim_ok :: "config \<Rightarrow> ftl_state \<Rightarrow> nat \<Rightarrow> bool" where
  "victim_ok c s i \<longleftrightarrow>
     ftl_get_free_blk_bitmap (of_nat i) s \<noteq> 0 \<and>
     write_map_block_ptr (ftl_meta s) \<noteq> of_nat i \<and>
     write_block_ptr (ftl_meta s) \<noteq> of_nat i \<and>
     block_ptr (ftl_meta s) \<noteq> of_nat i"

definition victim_step :: "config \<Rightarrow> ftl_state \<Rightarrow> nat \<Rightarrow> nat \<Rightarrow> nat" where
  "victim_step c s i mn =
     (if super_block_meta s mn > super_block_meta s i \<and> victim_ok c s i then i else mn)"

definition select_min :: "config \<Rightarrow> ftl_state \<Rightarrow> u32" where
  "select_min c s =
     (case find (victim_ok c s) [nat (NR_RESERVED_PHY_SUPER_BLOCKS c) ..< nat (BLOCK_NB c)] of
        None \<Rightarrow> M1
      | Some first \<Rightarrow>
          (let mn = fold (victim_step c s) [first + 1 ..< nat (BLOCK_NB c)] first in
           if super_block_meta s mn \<ge> PAGE_NB c * FLASH_NB c * WAY_NB c then M1
           else of_nat mn))"

definition gc_victim_block_select :: "config \<Rightarrow> ftl_state \<Rightarrow> (u32 \<times> ftl_state) option" where
  "gc_victim_block_select c s = do {
     s1 \<leftarrow> gc_valid_count c s;
     Some (select_min c s1, s1) }"

subsection \<open>Moving the pages of the victim\<close>

fun alloc_pages :: "config \<Rightarrow> nat \<Rightarrow> ftl_state \<Rightarrow> ftl_state" where
  "alloc_pages c 0 s = s"
| "alloc_pages c (Suc n) s = alloc_pages c n (snd (ftl_get_free_page c s))"

definition move_entry :: "config \<Rightarrow> nat \<Rightarrow> nat \<Rightarrow> ftl_state \<Rightarrow> ftl_state option" where
  "move_entry c n k s = do {
     m \<leftarrow> get_pagemap s n;
     if ftl_calc_block c (m k) = vt_blk_num s then
       (let (res, s1) = ftl_get_free_page c s in Some (set_pagemap n (m(k := res)) s1))
     else Some s }"

definition remaining_pages :: "config \<Rightarrow> ftl_state \<Rightarrow> u32" where
  "remaining_pages c s =
     (ftl_calc_block c (write_ptr (ftl_meta s)) + 1) * u32i (FLASH_NB c) * u32i (WAY_NB c)
       * u32i (PAGE_NB c) - write_ptr (ftl_meta s)"

definition move_leaf :: "config \<Rightarrow> nat \<Rightarrow> nat \<Rightarrow> ftl_state \<Rightarrow> ftl_state option" where
  "move_leaf c n k s = do {
     e \<leftarrow> get_extents s n;
     let t = l_node e k;
     if lf_used t \<and> ftl_calc_block c (lf_ppn t) = vt_blk_num s then
       (let remain = remaining_pages c s;
            s1 = (if of_nat (lf_size t) > remain then alloc_pages c (unat remain) s else s);
            (res, s2) = ftl_get_free_page c s1;
            s3 = set_extents n (e\<lparr>l_node := (l_node e)(k := t\<lparr>lf_ppn := res\<rparr>)\<rparr>) s2 in
        Some (alloc_pages c (lf_size t - 1) s3))
     else Some s }"

definition move_inode :: "config \<Rightarrow> nat \<Rightarrow> nat \<Rightarrow> nat \<Rightarrow> ftl_state \<Rightarrow> ftl_state option" where
  "move_inode c n j k s = do {
     e \<leftarrow> get_extents s n;
     let t = i_node e (j * INDEX_NODE_SIZE + k);
     if ix_used t then do {
       lb \<leftarrow> ix_l_node t;
       foldM (\<lambda>l. move_leaf c n (lb + l)) [0 ..< LEAF_NODE_SIZE] s
     } else Some s }"

definition move_root :: "config \<Rightarrow> nat \<Rightarrow> nat \<Rightarrow> nat \<Rightarrow> ftl_state \<Rightarrow> ftl_state option" where
  "move_root c i n j s =
     (let g = region_table s i in
      if BIT_GET (map_type g) j \<noteq> 0 then
        (case ptr_cache_p g j of
           None \<Rightarrow> Some s
         | Some p \<Rightarrow> foldM (move_entry c p) [0 ..< NUM_PAGE_PER_ROOT] s)
      else foldM (move_inode c n j) [0 ..< INDEX_NODE_SIZE] s)"

text \<open>The assignment of \<open>step_flag\<close> stands at the end of the body of the loop over the
  regions.\<close>

definition move_region :: "config \<Rightarrow> nat \<Rightarrow> ftl_state \<Rightarrow> ftl_state option" where
  "move_region c i s =
     (case ptr_cache_e (region_table s i) of
        None \<Rightarrow> Some s
      | Some n \<Rightarrow> do {
          s1 \<leftarrow> foldM (move_root c i n) [0 ..< ROOT_NODE_SIZE] s;
          Some (if step_flag s1 \<noteq> HARD then s1\<lparr>step_flag := 2\<rparr> else s1) })"

subsection \<open>The collector\<close>

definition gc_select_step :: "config \<Rightarrow> ftl_state \<Rightarrow> ftl_state option" where
  "gc_select_step c s =
     (if step_flag s = 0 \<or> step_flag s = HARD then do {
        (v, s1) \<leftarrow> gc_victim_block_select c s;
        let s2 = s1\<lparr>vt_blk_num := v\<rparr>;
        Some (if step_flag s2 \<noteq> HARD then s2\<lparr>step_flag := 1\<rparr> else s2) }
      else Some s)"

definition gc_erase_step :: "config \<Rightarrow> ftl_state \<Rightarrow> ftl_state" where
  "gc_erase_step c s =
     (if step_flag s = 2 \<or> step_flag s = HARD then
        (let s1 = fold (\<lambda>i. log_io (SSD_BLOCK_ERASE i (vt_blk_num s))) [0 ..< nat (FLASH_NB c)] s;
             s2 = ftl_clear_free_blk_bitmap (vt_blk_num s) s1;
             s3 = s2\<lparr>free_page_cnt := free_page_cnt s2 + FLASH_NB c * PAGE_NB c\<rparr> in
         if step_flag s3 \<noteq> HARD then s3\<lparr>step_flag := 0\<rparr> else s3)
      else s)"

definition garbage_collection :: "config \<Rightarrow> bool \<Rightarrow> bool \<Rightarrow> ftl_state \<Rightarrow> ftl_state option" where
  "garbage_collection c ev1 ev2 s = do {
     s1 \<leftarrow> gc_select_step c s;
     if ev1 \<and> step_flag s1 \<noteq> HARD then Some s1
     else do {
       s2 \<leftarrow> foldM (move_region c) [0 ..< REGION_NODE_SIZE c] s1;
       if ev2 \<and> step_flag s2 \<noteq> HARD then Some s2
       else Some (gc_erase_step c s2) } }"

end
