(* ===== verification/FtlRw.thy ===== *)
theory FtlRw
  imports Gc
begin

text \<open>
  Requests: \<open>ftl_open\<close>, \<open>FTL_READ\<close> and \<open>FTL_WRITE\<close> of \<open>ftl.c\<close>. The local
  variables that live across the loops of the C functions are records; a loop that may not end
  is a \<open>partial_function\<close>. The counter \<open>count\<close>, whose value only the other build returns, is
  left out.
\<close>

subsection \<open>Opening\<close>

text \<open>The memory comes from one \<open>malloc\<close> and is cleared before it is laid out; \<open>mem_ok\<close> and
  \<open>tmp_ok\<close> are the two results of \<open>malloc\<close>, and \<open>file_exists\<close> is whether the file of
  \<open>INIT_VSSIM_PM_MAPPING\<close> is there. The global \<open>g_init\<close> is the argument \<open>opened\<close>.\<close>

definition cleared :: "ftl_state \<Rightarrow> ftl_state" where
  "cleared s = s\<lparr>region_table := (\<lambda>_. zero_region), region_idx_table := (\<lambda>_. 0),
     cache_map := (\<lambda>_. ZeroLine), cache_idx_table := (\<lambda>_. zero_cache_idx),
     ftl_meta := zero_metadata, free_blk_bitmap := (\<lambda>_. 0)\<rparr>"

definition ftl_open :: "config \<Rightarrow> bool \<Rightarrow> bool \<Rightarrow> bool \<Rightarrow> bool \<Rightarrow> ftl_state \<Rightarrow> int \<times> ftl_state"
  where
  "ftl_open c opened mem_ok tmp_ok file_exists s =
     (if opened then (0, s)
      else let s0 = s\<lparr>free_page_cnt := NR_PHY_PAGES c - NR_RESERVED_PHY_PAGES c\<rparr> in
        if \<not> tmp_ok \<or> \<not> mem_ok then (-1, s0)
        else let s1 = ftl_init c (cache_init (pm_init c (cleared s0))) in
          (0, s1\<lparr>write_add_count := 0,
                 map_store := INIT_VSSIM_PM_MAPPING file_exists (map_store s1)\<rparr>))"

subsection \<open>Sectors and pages\<close>

definition SPP :: "config \<Rightarrow> u32" where
  "SPP c = u32i (SECTORS_PER_PAGE c)"

definition IS_SAME_REGION :: "config \<Rightarrow> u32 \<Rightarrow> u32 \<Rightarrow> bool" where
  "IS_SAME_REGION c x y \<longleftrightarrow>
     x div SPP c div of_nat NUM_PAGE_PER_ROOT = (x + y - 1) div SPP c div of_nat NUM_PAGE_PER_ROOT"

definition GET_DIVIDED_REGION :: "config \<Rightarrow> u32 \<Rightarrow> u32" where
  "GET_DIVIDED_REGION c lba =
     (lba div SPP c div of_nat NUM_PAGE_PER_ROOT + 1) * of_nat NUM_PAGE_PER_ROOT * SPP c"

text \<open>The sectors of a request that fall into its next page, and the sectors of that page after
  them.\<close>

definition right_skip_of :: "config \<Rightarrow> u32 \<Rightarrow> u32 \<Rightarrow> u32" where
  "right_skip_of c remain left_skip =
     (if remain > SPP c - left_skip then 0 else SPP c - left_skip - remain)"

definition sects_of :: "config \<Rightarrow> u32 \<Rightarrow> u32 \<Rightarrow> u32" where
  "sects_of c remain left_skip = SPP c - left_skip - right_skip_of c remain left_skip"

subsection \<open>Reading\<close>

record read_vars =
  rd_lba :: u32
  rd_lpn :: u32
  rd_left_skip :: u32
  rd_t_sectors :: u32
  rd_ppn :: u32
  read_page_nb :: nat
  rd_dummy_alloc :: bool
  rd_off :: offsets

definition issue_read :: "config \<Rightarrow> read_vars \<Rightarrow> ftl_state \<Rightarrow> ftl_state" where
  "issue_read c v =
     log_io (SSD_PAGE_READ (ftl_calc_bank c (rd_ppn v)) (ftl_calc_block c (rd_ppn v))
               (ftl_calc_page c (rd_ppn v)) (read_page_nb v) READ)"

definition count_read :: "u32 \<Rightarrow> read_vars \<Rightarrow> read_vars" where
  "count_read sects v = v\<lparr>read_page_nb := read_page_nb v + 1, rd_dummy_alloc := False,
     rd_lba := rd_lba v + sects, rd_left_skip := 0\<rparr>"

text \<open>The loop over the pages of a root with a page map. The flash is read with the page number
  of the round before; the number looked up in this round comes after it.\<close>

partial_function (option) read_pagemap_loop ::
  "config \<Rightarrow> u32 \<Rightarrow> read_vars \<Rightarrow> ftl_state \<Rightarrow> (read_vars \<times> ftl_state) option" where
  "read_pagemap_loop c remain v s =
     (if remain = 0 then Some (v, s)
      else do {
        let lpn = lpn_of c (rd_lba v);
        r \<leftarrow> pm_get_physical_address c lpn (rd_off v) s;
        let res = fst r;
        let off = fst (snd r);
        let s1 = snd (snd r);
        let sects = sects_of c remain (rd_left_skip v);
        let s2 = issue_read c v s1;
        ppn \<leftarrow> (case res of
                  NoPage \<Rightarrow> Some (rd_ppn v)
                | PageEntry n k \<Rightarrow> map_option (\<lambda>m. pm_read_pagemap m k) (get_pagemap s2 n)
                | LeafEntry n k \<Rightarrow> None);
        read_pagemap_loop c (remain - sects)
          (count_read sects (v\<lparr>rd_lpn := lpn, rd_off := off, rd_ppn := ppn\<rparr>)) s2 })"

text \<open>A leaf is a cache line and an index into it; \<open>None\<close> is the null pointer.\<close>

definition leaf_at :: "ftl_state \<Rightarrow> nat \<times> nat \<Rightarrow> leaf option" where
  "leaf_at s p = map_option (\<lambda>e. l_node e (snd p)) (get_extents s (fst p))"

definition unwritten :: "leaf \<Rightarrow> bool" where
  "unwritten t \<longleftrightarrow> \<not> lf_used t \<or> lf_ppn t = M1"

partial_function (option) read_leaf_pages ::
  "config \<Rightarrow> leaf \<Rightarrow> u32 \<Rightarrow> u32 \<Rightarrow> read_vars \<Rightarrow> ftl_state \<Rightarrow>
   (u32 \<times> u32 \<times> read_vars \<times> ftl_state) option" where
  "read_leaf_pages c t remain leaf_size v s =
     (if remain = 0 \<or> leaf_size = 0 then Some (remain, leaf_size, v, s)
      else let sects = sects_of c remain (rd_left_skip v);
               s1 = issue_read c v s;
               v1 = (if unwritten t then v else v\<lparr>rd_ppn := rd_ppn v + 1\<rparr>) in
        read_leaf_pages c t (remain - sects) (leaf_size - 1) (count_read sects v1) s1)"

text \<open>The endless loop around it: when the leaf is used up the next one is taken, until the
  request is served.\<close>

partial_function (option) read_extents_loop ::
  "config \<Rightarrow> nat \<Rightarrow> nat \<times> nat \<Rightarrow> u32 \<Rightarrow> read_vars \<Rightarrow> ftl_state \<Rightarrow> (read_vars \<times> ftl_state) option"
  where
  "read_extents_loop c rg_num p leaf_size v s = do {
     t \<leftarrow> leaf_at s p;
     r \<leftarrow> read_leaf_pages c t (rd_t_sectors v) leaf_size v s;
     let remain = fst r;
     let v1 = fst (snd (snd r));
     let s1 = snd (snd (snd r));
     if remain = 0 then Some (v1, s1)
     else do {
       q \<leftarrow> pm_get_lnode rg_num (rd_off v1) s1;
       let p1 = fst q;
       let v2 = v1\<lparr>rd_off := snd q\<rparr>;
       t1 \<leftarrow> leaf_at s1 p1;
       let sects = sects_of c remain (rd_left_skip v2);
       if unwritten t1 then
         read_extents_loop c rg_num p1 0
           (v2\<lparr>rd_t_sectors := remain - sects, rd_lba := rd_lba v2 + sects\<rparr>) s1
       else
         read_extents_loop c rg_num p1 (of_nat (lf_size t1))
           (v2\<lparr>rd_t_sectors := remain, rd_ppn := lf_ppn t1\<rparr>) s1 } }"

text \<open>One round of \<open>while (loop--)\<close>: the part of the request that lies in one root.\<close>

definition read_root :: "config \<Rightarrow> read_vars \<Rightarrow> ftl_state \<Rightarrow> (read_vars \<times> ftl_state) option" where
  "read_root c v s =
     (let lpn = rd_lpn v;
          rg_num = unat lpn div NUM_PAGE_PER_REGION;
          r_offset_per_region = GET_ROOT_NUM_PER_REGION (unat lpn div NUM_PAGE_PER_ROOT) in
      if BIT_GET (map_type (region_table s rg_num)) r_offset_per_region \<noteq> 0
      then read_pagemap_loop c (rd_t_sectors v) v s
      else do {
        (res, off, s1) \<leftarrow> pm_get_physical_address c lpn (rd_off v) s;
        (case res of
           NoPage \<Rightarrow> Some (v\<lparr>rd_off := off\<rparr>, s1)
         | PageEntry n k \<Rightarrow> None
         | LeafEntry n k \<Rightarrow> do {
             t \<leftarrow> leaf_at s1 (n, k);
             let add_size = word_of_int (int (unat lpn mod NUM_PAGE_PER_ROOT) - int (lf_lpn t));
             read_extents_loop c rg_num (n, k) (of_nat (lf_size t) - add_size)
               (v\<lparr>rd_off := off, rd_ppn := lf_ppn t + add_size\<rparr>) s1 }) })"

definition FTL_READ :: "config \<Rightarrow> u32 \<Rightarrow> u32 \<Rightarrow> ftl_state \<Rightarrow> ftl_state option" where
  "FTL_READ c lba sectors s =
     (if lba = 0 \<and> sectors = 1 then Some s
      else let s0 = (log_io (ALLOC_IO_REQUEST lba sectors READ) s)\<lparr>write_add_count := 0\<rparr>;
               same = IS_SAME_REGION c lba sectors;
               divided_lba = GET_DIVIDED_REGION c lba;
               v = \<lparr>rd_lba = lba, rd_lpn = lpn_of c lba, rd_left_skip = lba mod SPP c,
                    rd_t_sectors = (if same then sectors else divided_lba - lba),
                    rd_ppn = 0, read_page_nb = 0, rd_dummy_alloc = True,
                    rd_off = \<lparr>root_offset = 0, index_offset = 0, leaf_offset = 0\<rparr>\<rparr> in do {
        (v1, s1) \<leftarrow> read_root c v s0;
        (v2, s2) \<leftarrow> (if same then Some (v1, s1)
                    else read_root c (v1\<lparr>rd_lpn := lpn_of c divided_lba,
                                         rd_t_sectors := sectors - rd_t_sectors v1\<rparr>) s1);
        Some (log_io (if rd_dummy_alloc v2 then FREE_DUMMY_IO_REQUEST
                      else INCREASE_IO_REQUEST_SEQ_NB) s2) })"

subsection \<open>Writing\<close>

text \<open>The page a partial write would read its old sectors from; the build for the simulator
  computes it and does not use it, but the lookup may bring a map into the cache.\<close>

definition old_page :: "config \<Rightarrow> u32 \<Rightarrow> phys \<Rightarrow> ftl_state \<Rightarrow> u32 option" where
  "old_page c lpn ptr s =
     (case ptr of
        NoPage \<Rightarrow> Some 0
      | PageEntry n k \<Rightarrow> do {
          m \<leftarrow> get_pagemap s n;
          Some (if m k \<noteq> M1 then m k else 0) }
      | LeafEntry n k \<Rightarrow> do {
          t \<leftarrow> leaf_at s (n, k);
          let ppn = lf_ppn t + word_of_int (int (unat lpn mod NUM_PAGE_PER_ROOT) - int (lf_lpn t));
          Some (if lf_used t \<and> lf_ppn t \<noteq> M1 \<and> ppn \<noteq> M1 then ppn else 0) })"

record write_vars =
  wr_lba :: u32
  wr_left_skip :: u32
  wr_ori_ppn :: u32
  wr_new_ppn :: u32
  write_page_nb :: nat

partial_function (option) write_loop ::
  "config \<Rightarrow> u32 \<Rightarrow> write_vars \<Rightarrow> ftl_state \<Rightarrow> (write_vars \<times> ftl_state) option" where
  "write_loop c remain v s =
     (if remain = 0 then Some (v, s)
      else let lpn = lpn_of c (wr_lba v);
               f = ftl_get_free_page c s;
               new_ppn = fst f;
               s1 = snd f;
               left_skip = wr_left_skip v;
               right_skip = right_skip_of c remain left_skip;
               sects = sects_of c remain left_skip in do {
        s2 \<leftarrow> (if left_skip \<noteq> 0 \<or> right_skip \<noteq> 0 then do {
                  r \<leftarrow> pm_get_physical_address c lpn
                         \<lparr>root_offset = 0, index_offset = 0, leaf_offset = 0\<rparr> s1;
                  old_ppn \<leftarrow> old_page c lpn (fst r) (snd (snd r));
                  Some (snd (snd r))
                } else Some s1);
        write_loop c (remain - sects)
          (v\<lparr>wr_lba := wr_lba v + sects, wr_left_skip := 0,
             wr_ori_ppn := (if wr_ori_ppn v = M1 then new_ppn else wr_ori_ppn v),
             wr_new_ppn := new_ppn, write_page_nb := write_page_nb v + 1\<rparr>)
          (log_io (SSD_PAGE_WRITE (ftl_calc_bank c new_ppn) (ftl_calc_block c new_ppn)
                     (ftl_calc_page c new_ppn) (write_page_nb v) WRITE) s2) })"

text \<open>Entering the new pages into the mapping, root by root: \<open>ppn1\<close> is the page given for the
  part before a root boundary, \<open>ppn\<close> the one the part behind it is counted from.\<close>

definition update_in_roots :: "config \<Rightarrow> u32 \<Rightarrow> u32 \<Rightarrow> u32 \<Rightarrow> u32 \<Rightarrow> ftl_state \<Rightarrow> ftl_state option"
  where
  "update_in_roots c lba sectors ppn1 ppn s =
     (if IS_SAME_REGION c lba sectors then pm_update_physical_address c lba sectors ppn s
      else let divided_lba = GET_DIVIDED_REGION c lba;
               divided_size = divided_lba - lba;
               add_ppn = divided_lba div SPP c - lba div SPP c in do {
        s1 \<leftarrow> pm_update_physical_address c lba divided_size ppn1 s;
        pm_update_physical_address c divided_lba (sectors - divided_size) (ppn + add_ppn) s1 })"

text \<open>The loop for a request whose pages lie in two super blocks: the first round takes the rest
  of the first super block, the later ones what remains, from the start of the second.\<close>

partial_function (option) update_blocks_loop ::
  "config \<Rightarrow> u32 \<Rightarrow> u32 \<Rightarrow> u32 \<Rightarrow> u32 \<Rightarrow> u32 \<Rightarrow> u32 \<Rightarrow> u32 \<Rightarrow> ftl_state \<Rightarrow> ftl_state option"
  where
  "update_blocks_loop c ori_ppn divided_ppn second_block sectors lba remain left_skip s =
     (if remain = 0 then Some s
      else let first = (remain = sectors);
               sects = (if first then (divided_ppn - ori_ppn) * SPP c - left_skip else remain);
               ppn = (if first then ori_ppn else block_first_page c second_block) in do {
        s1 \<leftarrow> update_in_roots c lba sects ori_ppn ppn s;
        update_blocks_loop c ori_ppn divided_ppn second_block sectors (lba + sects)
          (remain - sects) 0 s1 })"

definition write_update :: "config \<Rightarrow> u32 \<Rightarrow> u32 \<Rightarrow> u32 \<Rightarrow> u32 \<Rightarrow> ftl_state \<Rightarrow> ftl_state option"
  where
  "write_update c lba sectors ori_ppn last_ppn s =
     (let first_block = ftl_calc_block c ori_ppn; second_block = ftl_calc_block c last_ppn in
      if first_block \<noteq> second_block
      then update_blocks_loop c ori_ppn (block_first_page c (first_block + 1)) second_block sectors
             lba sectors (lba mod SPP c) s
      else update_in_roots c lba sectors ori_ppn ori_ppn s)"

text \<open>The collector runs first when free pages are short; \<open>ev1\<close> and \<open>ev2\<close> are what it sees of
  the host queue.\<close>

definition write_gc :: "config \<Rightarrow> bool \<Rightarrow> bool \<Rightarrow> ftl_state \<Rightarrow> ftl_state option" where
  "write_gc c ev1 ev2 s =
     (if free_page_cnt s \<le> NR_RESERVED_PHY_PAGES c + PAGE_NB c * FLASH_NB c * 500
      then garbage_collection c ev1 ev2 (s\<lparr>step_flag := HARD\<rparr>)
      else Some s)"

definition FTL_WRITE :: "config \<Rightarrow> bool \<Rightarrow> bool \<Rightarrow> u32 \<Rightarrow> u32 \<Rightarrow> ftl_state \<Rightarrow> ftl_state option" where
  "FTL_WRITE c ev1 ev2 lba sectors s = do {
     s0 \<leftarrow> write_gc c ev1 ev2 (s\<lparr>write_add_count := 0\<rparr>);
     let s1 = log_io (ALLOC_IO_REQUEST lba sectors WRITE) s0;
     (v, s2) \<leftarrow> write_loop c sectors
        \<lparr>wr_lba = lba, wr_left_skip = lba mod SPP c, wr_ori_ppn = M1, wr_new_ppn = 0,
         write_page_nb = 0\<rparr> s1;
     s3 \<leftarrow> write_update c lba sectors (wr_ori_ppn v) (wr_new_ppn v) s2;
     Some (log_io INCREASE_IO_REQUEST_SEQ_NB s3) }"

text \<open>The loops as code equations, so that concrete inputs evaluate.\<close>

declare read_pagemap_loop.simps [code] read_leaf_pages.simps [code] read_extents_loop.simps [code] write_loop.simps [code] update_blocks_loop.simps [code]

end
