(* ===== verification/HostQueue.thy ===== *)
theory HostQueue
  imports FtlRw
begin

text \<open>
  The host command queue, \<open>FTL/HOST/host.c\<close>. The thread of the virtual machine puts commands
  into a ring with \<open>WRITE_TO_EVENT_QUEUE\<close>, the thread of the FTL takes them out in \<open>HOST_LOOP\<close>
  and runs them. \<open>HOST_QUEUE_ENTRY_NB\<close> is not defined in the repository and is the argument
  \<open>entry_nb\<close>; the ring has one slot more than that. The memory of \<open>malloc\<close> is the argument
  \<open>mem\<close>.

  \<open>size\<close>, \<open>front\<close> and \<open>rear\<close> are C integers that start at zero and only count up or are reset
  to zero, so they are naturals. The three debug counters are integers.

  The mutex \<open>q_lock\<close> makes each operation one step; between the steps the two threads
  interleave freely, which is what \<open>host_step\<close> describes.
\<close>

subsection \<open>The ring\<close>

record host_command =
  hc_type :: int
  hc_sector_nb :: u32
  hc_length :: u32

record event_queue =
  eq_size :: nat
  eq_front :: nat
  eq_rear :: nat
  host_commands :: "nat \<Rightarrow> host_command"
  enqueue_count :: int
  dequeue_count :: int
  queue_entry_nb :: int

definition INIT_EVENT_QUEUE :: "nat \<Rightarrow> (nat \<Rightarrow> host_command) \<Rightarrow> event_queue" where
  "INIT_EVENT_QUEUE entry_nb mem =
     \<lparr>eq_size = entry_nb, eq_front = 0, eq_rear = 0, host_commands = mem,
      enqueue_count = 0, dequeue_count = 0, queue_entry_nb = 0\<rparr>"

definition IS_EMPTY :: "event_queue \<Rightarrow> bool" where
  "IS_EMPTY q \<longleftrightarrow> eq_front q = eq_rear q"

definition IS_EVENT :: "event_queue \<Rightarrow> bool" where
  "IS_EVENT q \<longleftrightarrow> \<not> IS_EMPTY q"

definition IS_FULL :: "event_queue \<Rightarrow> bool" where
  "IS_FULL q \<longleftrightarrow>
     (if eq_front q < eq_rear q then eq_rear q - eq_front q = eq_size q
      else eq_rear q + 1 = eq_front q)"

definition ENQUEUE_HOST_COMMAND :: "host_command \<Rightarrow> event_queue \<Rightarrow> event_queue" where
  "ENQUEUE_HOST_COMMAND host_cmd q =
     (let position = eq_rear q;
          rear = eq_rear q + 1 in
      q\<lparr>host_commands := (host_commands q)(position := host_cmd),
        eq_rear := (if rear = eq_size q + 1 then 0 else rear),
        enqueue_count := enqueue_count q + 1,
        queue_entry_nb := queue_entry_nb q + 1\<rparr>)"

text \<open>The result is the slot, not a copy of the command: the C function returns a pointer.\<close>

definition DEQUEUE_HOST_COMMAND :: "event_queue \<Rightarrow> nat \<times> event_queue" where
  "DEQUEUE_HOST_COMMAND q =
     (let position = eq_front q;
          front = eq_front q + 1 in
      (position,
       q\<lparr>eq_front := (if front = eq_size q + 1 then 0 else front),
         queue_entry_nb := queue_entry_nb q - 1,
         dequeue_count := dequeue_count q + 1\<rparr>))"

text \<open>While the ring is full the function keeps signalling the other thread; \<open>None\<close> is a round
  of that loop, after which it has not returned.\<close>

definition WRITE_TO_EVENT_QUEUE :: "int \<Rightarrow> u32 \<Rightarrow> u32 \<Rightarrow> event_queue \<Rightarrow> event_queue option" where
  "WRITE_TO_EVENT_QUEUE t sector_nb len q =
     (if IS_FULL q then None
      else Some (ENQUEUE_HOST_COMMAND \<lparr>hc_type = t, hc_sector_nb = sector_nb, hc_length = len\<rparr> q))"

definition set_noop :: "nat \<Rightarrow> event_queue \<Rightarrow> event_queue" where
  "set_noop p q =
     q\<lparr>host_commands := (host_commands q)(p := (host_commands q p)\<lparr>hc_type := CMD_NOOP\<rparr>)\<rparr>"

subsection \<open>The loop of the FTL thread\<close>

definition host_dispatch ::
  "config \<Rightarrow> bool \<Rightarrow> bool \<Rightarrow> host_command \<Rightarrow> ftl_state \<Rightarrow> ftl_state option" where
  "host_dispatch c ev1 ev2 h_cmd s =
     (if hc_type h_cmd = CMD_READ then FTL_READ c (hc_sector_nb h_cmd) (hc_length h_cmd) s
      else if hc_type h_cmd = CMD_WRITE
      then FTL_WRITE c ev1 ev2 (hc_sector_nb h_cmd) (hc_length h_cmd) s
      else Some s)"

text \<open>One round of \<open>HOST_LOOP\<close> up to the wait at its end; with an empty ring the round does
  nothing and the thread sleeps.\<close>

definition HOST_LOOP_round ::
  "config \<Rightarrow> bool \<Rightarrow> bool \<Rightarrow> event_queue \<Rightarrow> ftl_state \<Rightarrow> (event_queue \<times> ftl_state) option" where
  "HOST_LOOP_round c ev1 ev2 q s =
     (if IS_EMPTY q then Some (q, s)
      else let (p, q1) = DEQUEUE_HOST_COMMAND q in do {
        s1 \<leftarrow> host_dispatch c ev1 ev2 (host_commands q1 p) s;
        Some (set_noop p q1, s1) })"

subsection \<open>The commands in the ring\<close>

definition live_slots :: "event_queue \<Rightarrow> nat list" where
  "live_slots q =
     (if eq_front q \<le> eq_rear q then [eq_front q ..< eq_rear q]
      else [eq_front q ..< eq_size q + 1] @ [0 ..< eq_rear q])"

definition pending :: "event_queue \<Rightarrow> host_command list" where
  "pending q = map (host_commands q) (live_slots q)"

definition ring_ok :: "event_queue \<Rightarrow> bool" where
  "ring_ok q \<longleftrightarrow> 0 < eq_size q \<and> eq_front q \<le> eq_size q \<and> eq_rear q \<le> eq_size q \<and>
     queue_entry_nb q = int (length (live_slots q)) \<and>
     queue_entry_nb q = enqueue_count q - dequeue_count q"

definition front_cmd :: "event_queue \<Rightarrow> host_command" where
  "front_cmd q = host_commands q (fst (DEQUEUE_HOST_COMMAND q))"

definition drop_cmd :: "event_queue \<Rightarrow> event_queue" where
  "drop_cmd q = snd (DEQUEUE_HOST_COMMAND q)"

lemmas ring_defs = IS_EMPTY_def IS_FULL_def ENQUEUE_HOST_COMMAND_def DEQUEUE_HOST_COMMAND_def
  front_cmd_def drop_cmd_def live_slots_def pending_def ring_ok_def Let_def

lemma ring_empty_iff: "ring_ok q \<Longrightarrow> IS_EMPTY q \<longleftrightarrow> pending q = []"
  by (auto simp: ring_defs)

lemma ring_full_iff: "ring_ok q \<Longrightarrow> IS_FULL q \<longleftrightarrow> length (pending q) = eq_size q"
  by (auto simp: ring_defs)

lemma ring_le_size: "ring_ok q \<Longrightarrow> length (pending q) \<le> eq_size q"
  by (auto simp: ring_defs)

lemma rear_not_live: "ring_ok q \<Longrightarrow> eq_rear q \<notin> set (live_slots q)"
  by (auto simp: ring_defs)

lemma live_slots_enq:
  assumes "ring_ok q" "\<not> IS_FULL q"
  shows "live_slots (ENQUEUE_HOST_COMMAND x q) = live_slots q @ [eq_rear q]"
  using assms by (auto simp: ring_defs upt_Suc_append split: if_splits)

lemma pending_enq:
  assumes "ring_ok q" "\<not> IS_FULL q"
  shows "pending (ENQUEUE_HOST_COMMAND x q) = pending q @ [x]"
proof -
  have "host_commands (ENQUEUE_HOST_COMMAND x q) = (host_commands q)(eq_rear q := x)"
    by (simp add: ENQUEUE_HOST_COMMAND_def Let_def)
  then show ?thesis
    using live_slots_enq[OF assms] rear_not_live[OF assms(1)] by (simp add: pending_def)
qed

lemma ring_ok_enq:
  assumes "ring_ok q" "\<not> IS_FULL q"
  shows "ring_ok (ENQUEUE_HOST_COMMAND x q)"
  using assms live_slots_enq[OF assms, of x]
  by (auto simp: ring_ok_def ENQUEUE_HOST_COMMAND_def Let_def)

lemma live_slots_deq:
  assumes "ring_ok q" "\<not> IS_EMPTY q"
  shows "live_slots q = eq_front q # live_slots (drop_cmd q)"
proof (cases "eq_front q < eq_rear q")
  case True
  with assms show ?thesis by (auto simp: ring_defs upt_conv_Cons)
next
  case False
  with assms have "eq_rear q < eq_front q" by (auto simp: ring_defs)
  with assms show ?thesis
    by (cases "eq_front q = eq_size q") (auto simp: ring_defs upt_conv_Cons simp del: upt_Suc)
qed

lemma pending_deq: "ring_ok q \<Longrightarrow> \<not> IS_EMPTY q \<Longrightarrow> pending q = front_cmd q # pending (drop_cmd q)"
  using live_slots_deq[of q]
  by (simp add: pending_def front_cmd_def drop_cmd_def DEQUEUE_HOST_COMMAND_def Let_def)

lemma ring_ok_deq:
  assumes "ring_ok q" "\<not> IS_EMPTY q"
  shows "ring_ok (drop_cmd q)"
proof -
  have "length (live_slots q) = Suc (length (live_slots (drop_cmd q)))"
    using live_slots_deq[OF assms] by simp
  then show ?thesis
    using assms(1) by (auto simp: ring_ok_def drop_cmd_def DEQUEUE_HOST_COMMAND_def Let_def)
qed

subsection \<open>The interface\<close>

text \<open>A bounded queue: what a producer that checks for a full queue and a consumer that checks
  for an empty one rely on.\<close>

locale bounded_queue =
  fixes enq :: "'a \<Rightarrow> 'q \<Rightarrow> 'q"
    and first :: "'q \<Rightarrow> 'a"
    and deq :: "'q \<Rightarrow> 'q"
    and is_empty :: "'q \<Rightarrow> bool"
    and is_full :: "'q \<Rightarrow> bool"
    and items :: "'q \<Rightarrow> 'a list"
    and capacity :: "'q \<Rightarrow> nat"
    and inv :: "'q \<Rightarrow> bool"
  assumes items_enq: "inv q \<Longrightarrow> \<not> is_full q \<Longrightarrow> items (enq x q) = items q @ [x]"
    and items_deq: "inv q \<Longrightarrow> \<not> is_empty q \<Longrightarrow> items q = first q # items (deq q)"
    and empty_iff: "inv q \<Longrightarrow> is_empty q \<longleftrightarrow> items q = []"
    and full_iff: "inv q \<Longrightarrow> is_full q \<longleftrightarrow> length (items q) = capacity q"
    and capacity_pos: "inv q \<Longrightarrow> 0 < capacity q"
    and within: "inv q \<Longrightarrow> length (items q) \<le> capacity q"
    and inv_enq: "inv q \<Longrightarrow> \<not> is_full q \<Longrightarrow> inv (enq x q)"
    and inv_deq: "inv q \<Longrightarrow> \<not> is_empty q \<Longrightarrow> inv (deq q)"
    and capacity_enq: "capacity (enq x q) = capacity q"
    and capacity_deq: "capacity (deq q) = capacity q"
begin

lemma deq_not_full: "inv q \<Longrightarrow> \<not> is_empty q \<Longrightarrow> \<not> is_full (deq q)"
  using items_deq[of q] within[of q] full_iff[of "deq q"] inv_deq[of q] capacity_deq[of q] by auto

lemma enq_not_empty: "inv q \<Longrightarrow> \<not> is_full q \<Longrightarrow> \<not> is_empty (enq x q)"
  using items_enq[of q x] empty_iff[of "enq x q"] inv_enq[of q x] by auto

lemma empty_not_full: "inv q \<Longrightarrow> is_empty q \<Longrightarrow> \<not> is_full q"
  using empty_iff[of q] full_iff[of q] capacity_pos[of q] by auto

lemma enq_empty_first: "inv q \<Longrightarrow> is_empty q \<Longrightarrow> first (enq x q) = x"
  using empty_iff[of q] items_enq[of q x] empty_not_full[of q] enq_not_empty[of q x]
    items_deq[of "enq x q"] inv_enq[of q x] by auto

lemma enq_first: "inv q \<Longrightarrow> \<not> is_empty q \<Longrightarrow> \<not> is_full q \<Longrightarrow> first (enq x q) = first q"
  using items_deq[of q] items_enq[of q x] enq_not_empty[of q x] items_deq[of "enq x q"]
    inv_enq[of q x] by auto

end

lemma eq_size_enq: "eq_size (ENQUEUE_HOST_COMMAND x q) = eq_size q"
  by (simp add: ENQUEUE_HOST_COMMAND_def Let_def)

lemma eq_size_deq: "eq_size (drop_cmd q) = eq_size q"
  by (simp add: drop_cmd_def DEQUEUE_HOST_COMMAND_def Let_def)

lemma eq_size_pos: "ring_ok q \<Longrightarrow> 0 < eq_size q"
  by (simp add: ring_ok_def)

lemmas ring_laws = pending_enq pending_deq ring_empty_iff ring_full_iff eq_size_pos ring_le_size
  ring_ok_enq ring_ok_deq eq_size_enq eq_size_deq

interpretation ring: bounded_queue ENQUEUE_HOST_COMMAND front_cmd drop_cmd IS_EMPTY IS_FULL
  pending eq_size ring_ok
  by unfold_locales (rule ring_laws; assumption)+

subsection \<open>Properties of the sequential queue\<close>

lemma pending_set_noop_dropped:
  assumes "ring_ok q" "\<not> IS_EMPTY q"
  shows "pending (set_noop (eq_front q) (drop_cmd q)) = pending (drop_cmd q)"
proof -
  have "distinct (live_slots q)" by (auto simp: live_slots_def)
  then have "eq_front q \<notin> set (live_slots (drop_cmd q))" using live_slots_deq[OF assms] by simp
  moreover have "live_slots (set_noop p r) = live_slots r" for p r
    by (simp add: live_slots_def set_noop_def)
  ultimately show ?thesis by (simp add: pending_def set_noop_def)
qed

lemma ring_ok_set_noop: "ring_ok (set_noop p q) = ring_ok q"
  by (simp add: ring_ok_def live_slots_def set_noop_def)

lemma HOST_LOOP_round_Cons:
  assumes "ring_ok q" "pending q = x # xs"
  shows "\<exists>q'. ring_ok q' \<and> pending q' = xs \<and>
     (\<forall>s. HOST_LOOP_round c ev1 ev2 q s = map_option (Pair q') (host_dispatch c ev1 ev2 x s))"
proof -
  have ne: "\<not> IS_EMPTY q" using assms ring_empty_iff[OF assms(1)] by simp
  have x: "host_commands (drop_cmd q) (eq_front q) = x" "pending (drop_cmd q) = xs"
    using assms pending_deq[OF assms(1) ne]
    by (auto simp: front_cmd_def drop_cmd_def DEQUEUE_HOST_COMMAND_def Let_def)
  have d: "DEQUEUE_HOST_COMMAND q = (eq_front q, drop_cmd q)"
    by (simp add: drop_cmd_def DEQUEUE_HOST_COMMAND_def Let_def)
  let ?q = "set_noop (eq_front q) (drop_cmd q)"
  have "ring_ok ?q" using ring_ok_deq[OF assms(1) ne] by (simp add: ring_ok_set_noop)
  moreover have "pending ?q = xs" using pending_set_noop_dropped[OF assms(1) ne] x by simp
  moreover have "HOST_LOOP_round c ev1 ev2 q s = map_option (Pair ?q) (host_dispatch c ev1 ev2 x s)"
    for s
    using ne x d by (cases "host_dispatch c ev1 ev2 x s") (simp_all add: HOST_LOOP_round_def)
  ultimately show ?thesis by blast
qed

lemma HOST_LOOP_round_Nil:
  "ring_ok q \<Longrightarrow> pending q = [] \<Longrightarrow> HOST_LOOP_round c ev1 ev2 q s = Some (q, s)"
  using ring_empty_iff[of q] by (simp add: HOST_LOOP_round_def)

text \<open>C12: A call of \<open>WRITE_TO_EVENT_QUEUE\<close> waits exactly while the ring holds \<open>size\<close> commands;
  otherwise it appends the command behind those already waiting, changes none of them, and
  keeps the ring and its counters consistent.\<close>

theorem write_to_event_queue_fifo:
  assumes "ring_ok q"
  shows "case WRITE_TO_EVENT_QUEUE t sector_nb len q of
      None \<Rightarrow> length (pending q) = eq_size q
    | Some q' \<Rightarrow> length (pending q) < eq_size q \<and> ring_ok q' \<and> pending q' =
        pending q @ [\<lparr>hc_type = t, hc_sector_nb = sector_nb, hc_length = len\<rparr>]"
  using assms ring.full_iff[of q] ring.within[of q]
  by (auto simp: WRITE_TO_EVENT_QUEUE_def ring.items_enq ring.inv_enq)

definition two_slot_ring :: event_queue where
  "two_slot_ring = INIT_EVENT_QUEUE 1 (\<lambda>_. \<lparr>hc_type = CMD_NOOP, hc_sector_nb = 0, hc_length = 0\<rparr>)"

lemma two_slot_ring: "ring_ok two_slot_ring" "pending two_slot_ring = []" "\<not> IS_FULL two_slot_ring"
  by (simp_all add: two_slot_ring_def INIT_EVENT_QUEUE_def ring_defs)

lemma write_to_event_queue_fifo_witness:
  "\<exists>q'. WRITE_TO_EVENT_QUEUE CMD_WRITE 8 16 two_slot_ring = Some q' \<and> length (pending q') = 1"
  using write_to_event_queue_fifo[OF two_slot_ring(1), of CMD_WRITE 8 16] two_slot_ring
  by (cases "WRITE_TO_EVENT_QUEUE CMD_WRITE 8 16 two_slot_ring")
     (auto simp: WRITE_TO_EVENT_QUEUE_def)

text \<open>As many rounds of \<open>HOST_LOOP\<close> as there are commands waiting.\<close>

definition host_rounds ::
  "config \<Rightarrow> bool \<Rightarrow> bool \<Rightarrow> nat \<Rightarrow> event_queue \<times> ftl_state \<Rightarrow> (event_queue \<times> ftl_state) option" where
  "host_rounds c ev1 ev2 n = foldM (\<lambda>_ (q, s). HOST_LOOP_round c ev1 ev2 q s) [0 ..< n]"

lemma host_rounds_list:
  assumes "ring_ok q" "length is = length (pending q)"
  shows "\<exists>q'. pending q' = [] \<and> ring_ok q' \<and>
    (\<forall>s. foldM (\<lambda>_ (q, s). HOST_LOOP_round c ev1 ev2 q s) is (q, s)
          = map_option (Pair q') (foldM (host_dispatch c ev1 ev2) (pending q) s))"
  using assms
proof (induction "pending q" arbitrary: q "is")
  case Nil
  then show ?case by (intro exI[of _ q]) simp
next
  case (Cons x xs)
  obtain i js where i: "is = i # js" "length js = length xs"
    using Cons.prems(2) Cons.hyps(2)[symmetric] by (cases "is") auto
  obtain q1 where q1: "ring_ok q1" "pending q1 = xs"
    "\<And>s. HOST_LOOP_round c ev1 ev2 q s = map_option (Pair q1) (host_dispatch c ev1 ev2 x s)"
    using HOST_LOOP_round_Cons[OF Cons.prems(1) Cons.hyps(2)[symmetric], of c ev1 ev2] by auto
  obtain q' where q': "pending q' = []" "ring_ok q'"
    "\<And>s. foldM (\<lambda>_ (q, s). HOST_LOOP_round c ev1 ev2 q s) js (q1, s)
          = map_option (Pair q') (foldM (host_dispatch c ev1 ev2) (pending q1) s)"
    using Cons.hyps(1)[of q1 js] q1 i by auto
  have "foldM (\<lambda>_ (q, s). HOST_LOOP_round c ev1 ev2 q s) is (q, s)
      = map_option (Pair q') (foldM (host_dispatch c ev1 ev2) (pending q) s)" for s
    by (cases "host_dispatch c ev1 ev2 x s")
       (simp_all add: i q1 q' Cons.hyps(2)[symmetric])
  with q' show ?case by blast
qed

text \<open>C11: Running the loop of the FTL thread until the ring is drained performs exactly the
  requests that were waiting, each once and in the order in which they were queued, on the FTL
  state: reads by \<open>FTL_READ\<close>, writes by \<open>FTL_WRITE\<close>, everything else skipped.\<close>

theorem host_loop_drains_in_order:
  assumes "ring_ok q"
  shows "\<exists>q'. IS_EMPTY q' \<and> host_rounds c ev1 ev2 (length (pending q)) (q, s)
    = map_option (Pair q') (foldM (host_dispatch c ev1 ev2) (pending q) s)"
  using host_rounds_list[OF assms, of "[0 ..< length (pending q)]" c ev1 ev2] ring.empty_iff
  by (fastforce simp: host_rounds_def)

definition boot_read_ring :: event_queue where
  "boot_read_ring = ENQUEUE_HOST_COMMAND
     \<lparr>hc_type = CMD_READ, hc_sector_nb = 0, hc_length = 1\<rparr> two_slot_ring"

lemma host_loop_drains_in_order_witness:
  "\<forall>c s. \<exists>q'. IS_EMPTY q' \<and> host_rounds c False False 1 (boot_read_ring, s) = Some (q', s)"
proof (intro allI)
  fix c s
  have "ring_ok boot_read_ring"
    "pending boot_read_ring = [\<lparr>hc_type = CMD_READ, hc_sector_nb = 0, hc_length = 1\<rparr>]"
    using two_slot_ring by (simp_all add: boot_read_ring_def ring.items_enq ring.inv_enq)
  with host_loop_drains_in_order[of boot_read_ring c False False s]
  show "\<exists>q'. IS_EMPTY q' \<and> host_rounds c False False 1 (boot_read_ring, s) = Some (q', s)"
    by (simp add: host_dispatch_def FTL_READ_def)
qed

end
