(* ===== verification/HostThreads.thy ===== *)
theory HostThreads
  imports HostQueue
begin

text \<open>
  The two threads of \<open>host.c\<close> and their interleaving. The producer is a caller of
  \<open>WRITE_TO_EVENT_QUEUE\<close>, the consumer is \<open>HOST_LOOP\<close>. Every operation on the ring holds
  \<open>q_lock\<close> and is one step, but the tests \<open>IS_FULL\<close> and \<open>IS_EMPTY\<close> are steps of their own, and
  the consumer keeps reading and finally writing the slot that \<open>DEQUEUE_HOST_COMMAND\<close> returned a
  pointer to after it let the lock go.

  \<open>submitted\<close> and \<open>handled\<close> are ghost lists: the commands for which \<open>WRITE_TO_EVENT_QUEUE\<close> was
  called, and the contents of the slot at the moment \<open>HOST_LOOP\<close> reads it to run the command.
\<close>

datatype producer = P_Idle | P_Check host_command | P_Ready host_command
datatype consumer = C_Idle | C_Ready | C_Held nat | C_Done nat

record host_sys =
  hs_queue :: event_queue
  hs_prod :: producer
  hs_cons :: consumer
  submitted :: "host_command list"
  handled :: "host_command list"

definition host_init :: "nat \<Rightarrow> (nat \<Rightarrow> host_command) \<Rightarrow> host_sys" where
  "host_init entry_nb mem =
     \<lparr>hs_queue = INIT_EVENT_QUEUE entry_nb mem, hs_prod = P_Idle, hs_cons = C_Idle,
      submitted = [], handled = []\<rparr>"

inductive host_step :: "host_sys \<Rightarrow> host_sys \<Rightarrow> bool" where
  call: "hs_prod s = P_Idle \<Longrightarrow>
    host_step s (s\<lparr>hs_prod := P_Check x, submitted := submitted s @ [x]\<rparr>)"
| check: "hs_prod s = P_Check x \<Longrightarrow>
    host_step s (if IS_FULL (hs_queue s) then s else s\<lparr>hs_prod := P_Ready x\<rparr>)"
| enqueue: "hs_prod s = P_Ready x \<Longrightarrow>
    host_step s (s\<lparr>hs_prod := P_Idle, hs_queue := ENQUEUE_HOST_COMMAND x (hs_queue s)\<rparr>)"
| poll: "hs_cons s = C_Idle \<Longrightarrow>
    host_step s (if IS_EMPTY (hs_queue s) then s else s\<lparr>hs_cons := C_Ready\<rparr>)"
| dequeue: "hs_cons s = C_Ready \<Longrightarrow> DEQUEUE_HOST_COMMAND (hs_queue s) = (p, q) \<Longrightarrow>
    host_step s (s\<lparr>hs_cons := C_Held p, hs_queue := q\<rparr>)"
| run: "hs_cons s = C_Held p \<Longrightarrow>
    host_step s (s\<lparr>hs_cons := C_Done p,
                   handled := handled s @ [host_commands (hs_queue s) p]\<rparr>)"
| finish: "hs_cons s = C_Done p \<Longrightarrow>
    host_step s (s\<lparr>hs_cons := C_Idle, hs_queue := set_noop p (hs_queue s)\<rparr>)"

inductive_cases host_stepE: "host_step s t"

inductive host_reach :: "host_sys \<Rightarrow> host_sys \<Rightarrow> bool" for s0 :: host_sys where
  init: "host_reach s0 s0"
| step: "host_reach s0 s \<Longrightarrow> host_step s t \<Longrightarrow> host_reach s0 t"

subsection \<open>The invariant\<close>

definition held_slot :: "consumer \<Rightarrow> nat option" where
  "held_slot k = (case k of C_Held p \<Rightarrow> Some p | C_Done p \<Rightarrow> Some p | _ \<Rightarrow> None)"

text \<open>The slot behind the front of the ring, the one the consumer just took.\<close>

definition behind_front :: "event_queue \<Rightarrow> nat \<Rightarrow> bool" where
  "behind_front q p \<longleftrightarrow> p \<le> eq_size q \<and> (if p = eq_size q then eq_front q = 0 else eq_front q = p + 1)"

definition not_yet_run :: "host_sys \<Rightarrow> host_command list" where
  "not_yet_run s =
     (case hs_cons s of C_Held p \<Rightarrow> [host_commands (hs_queue s) p] | _ \<Rightarrow> [])
     @ pending (hs_queue s)
     @ (case hs_prod s of P_Check x \<Rightarrow> [x] | P_Ready x \<Rightarrow> [x] | P_Idle \<Rightarrow> [])"

definition host_inv :: "host_sys \<Rightarrow> bool" where
  "host_inv s \<longleftrightarrow> ring_ok (hs_queue s)
     \<and> (\<forall>x. hs_prod s = P_Ready x \<longrightarrow> \<not> IS_FULL (hs_queue s))
     \<and> (hs_cons s = C_Ready \<longrightarrow> \<not> IS_EMPTY (hs_queue s))
     \<and> (\<forall>p. held_slot (hs_cons s) = Some p \<longrightarrow> behind_front (hs_queue s) p)
     \<and> submitted s = handled s @ not_yet_run s"

lemma behind_front_dead: "ring_ok q \<Longrightarrow> behind_front q p \<Longrightarrow> p \<notin> set (live_slots q)"
  by (auto simp: ring_ok_def behind_front_def live_slots_def split: if_splits)

lemma behind_front_not_rear:
  "ring_ok q \<Longrightarrow> behind_front q p \<Longrightarrow> \<not> IS_FULL q \<Longrightarrow> p \<noteq> eq_rear q"
  by (auto simp: ring_ok_def behind_front_def IS_FULL_def split: if_splits)

lemma behind_front_enq: "behind_front (ENQUEUE_HOST_COMMAND x q) p = behind_front q p"
  by (simp add: behind_front_def ENQUEUE_HOST_COMMAND_def Let_def)

lemma behind_front_noop: "behind_front (set_noop r q) p = behind_front q p"
  by (simp add: behind_front_def set_noop_def)

lemma behind_front_deq:
  "ring_ok q \<Longrightarrow> DEQUEUE_HOST_COMMAND q = (p, q') \<Longrightarrow> behind_front q' p"
  by (auto simp: ring_ok_def behind_front_def DEQUEUE_HOST_COMMAND_def Let_def)

lemma noop_ring:
  "ring_ok (set_noop p q) = ring_ok q" "IS_FULL (set_noop p q) = IS_FULL q"
  "IS_EMPTY (set_noop p q) = IS_EMPTY q"
  by (simp_all add: ring_defs set_noop_def)

lemma pending_noop:
  assumes "ring_ok q" "behind_front q p"
  shows "pending (set_noop p q) = pending q"
proof -
  have "live_slots (set_noop p q) = live_slots q" by (simp add: live_slots_def set_noop_def)
  then show ?thesis
    using behind_front_dead[OF assms] by (simp add: pending_def set_noop_def)
qed

lemma enq_other_slot: "p \<noteq> eq_rear q \<Longrightarrow>
    host_commands (ENQUEUE_HOST_COMMAND x q) p = host_commands q p"
  by (simp add: ENQUEUE_HOST_COMMAND_def Let_def)

lemma deq_conv:
  assumes "DEQUEUE_HOST_COMMAND q = (p, q')"
  shows "q' = drop_cmd q" "host_commands q' p = front_cmd q"
  using assms by (auto simp: drop_cmd_def front_cmd_def DEQUEUE_HOST_COMMAND_def Let_def)

lemma host_inv_init: "0 < entry_nb \<Longrightarrow> host_inv (host_init entry_nb mem)"
  by (simp add: host_inv_def host_init_def INIT_EVENT_QUEUE_def ring_defs not_yet_run_def
        held_slot_def)

lemma host_inv_enqueue:
  assumes "host_inv s" "hs_prod s = P_Ready x"
  shows "host_inv (s\<lparr>hs_prod := P_Idle, hs_queue := ENQUEUE_HOST_COMMAND x (hs_queue s)\<rparr>)"
proof -
  let ?q = "hs_queue s"
  have ok: "ring_ok ?q" "\<not> IS_FULL ?q" using assms by (auto simp: host_inv_def)
  have held: "host_commands (ENQUEUE_HOST_COMMAND x ?q) p = host_commands ?q p"
    if "hs_cons s = C_Held p" for p
    using assms(1) that ok behind_front_not_rear
    by (intro enq_other_slot) (auto simp: host_inv_def held_slot_def)
  show ?thesis
    using assms ok ring.enq_not_empty[OF ok]
    by (auto simp: host_inv_def ring_ok_enq behind_front_enq pending_enq not_yet_run_def held
        split: consumer.splits)
qed

lemma host_inv_dequeue:
  assumes "host_inv s" "hs_cons s = C_Ready" "DEQUEUE_HOST_COMMAND (hs_queue s) = (p, q)"
  shows "host_inv (s\<lparr>hs_cons := C_Held p, hs_queue := q\<rparr>)"
proof -
  have ok: "ring_ok (hs_queue s)" "\<not> IS_EMPTY (hs_queue s)" using assms by (auto simp: host_inv_def)
  note d = deq_conv[OF assms(3)]
  show ?thesis
    using assms ok d ring.deq_not_full[OF ok] behind_front_deq[OF ok(1) assms(3)]
      pending_deq[OF ok] ring_ok_deq[OF ok]
    by (auto simp: host_inv_def not_yet_run_def held_slot_def)
qed

lemma host_inv_finish:
  assumes "host_inv s" "hs_cons s = C_Done p"
  shows "host_inv (s\<lparr>hs_cons := C_Idle, hs_queue := set_noop p (hs_queue s)\<rparr>)"
  using assms by (auto simp: host_inv_def held_slot_def noop_ring not_yet_run_def pending_noop)

lemma host_inv_step: "host_step s t \<Longrightarrow> host_inv s \<Longrightarrow> host_inv t"
proof (induction rule: host_step.induct)
  case (enqueue s x)
  then show ?case by (simp add: host_inv_enqueue)
next
  case (dequeue s p q)
  then show ?case by (simp add: host_inv_dequeue)
next
  case (finish s p)
  then show ?case by (simp add: host_inv_finish)
qed (auto simp: host_inv_def not_yet_run_def held_slot_def split: producer.splits consumer.splits)

lemma host_inv_reach:
  assumes "host_reach (host_init entry_nb mem) s" "0 < entry_nb"
  shows "host_inv s"
  using assms by (induction rule: host_reach.induct) (auto simp: host_inv_init host_inv_step)

subsection \<open>Properties of the two threads\<close>

text \<open>C8: Whatever the interleaving, every command that was submitted is run exactly once, with
  the contents it was submitted with, and in the order of submission: the commands run so far,
  the one whose slot the consumer holds, those in the ring and the one the producer is about to
  enqueue are together the submitted ones.\<close>

theorem host_threads_fifo:
  assumes "host_reach (host_init entry_nb mem) s" "0 < entry_nb"
  shows "submitted s = handled s @ not_yet_run s"
  using host_inv_reach[OF assms] by (simp add: host_inv_def)

definition demo_cmd :: host_command where
  "demo_cmd = \<lparr>hc_type = CMD_WRITE, hc_sector_nb = 8, hc_length = 16\<rparr>"

definition demo_mem :: "nat \<Rightarrow> host_command" where
  "demo_mem = (\<lambda>_. \<lparr>hc_type = CMD_NOOP, hc_sector_nb = 0, hc_length = 0\<rparr>)"

definition demo_called :: host_sys where
  "demo_called = (host_init 1 demo_mem)\<lparr>hs_prod := P_Check demo_cmd, submitted := [demo_cmd]\<rparr>"

lemma demo_called_reach: "host_reach (host_init 1 demo_mem) demo_called"
proof (rule host_reach.step[OF host_reach.init])
  show "host_step (host_init 1 demo_mem) demo_called"
    using host_step.call[of "host_init 1 demo_mem" demo_cmd]
    by (simp add: demo_called_def host_init_def)
qed

definition demo_queued :: host_sys where
  "demo_queued = demo_called\<lparr>hs_prod := P_Idle,
     hs_queue := ENQUEUE_HOST_COMMAND demo_cmd (hs_queue demo_called)\<rparr>"

lemma demo_queued_reach: "host_reach (host_init 1 demo_mem) demo_queued"
proof -
  let ?s = "demo_called\<lparr>hs_prod := P_Ready demo_cmd\<rparr>"
  have "host_step demo_called ?s"
    using host_step.check[of demo_called demo_cmd]
    by (simp add: demo_called_def host_init_def INIT_EVENT_QUEUE_def IS_FULL_def)
  moreover have "host_step ?s demo_queued"
    using host_step.enqueue[of ?s demo_cmd] by (simp add: demo_queued_def)
  ultimately show ?thesis by (blast intro: host_reach.step demo_called_reach)
qed

definition demo_held :: host_sys where
  "demo_held = demo_queued\<lparr>hs_cons := C_Held 0, hs_queue := drop_cmd (hs_queue demo_queued)\<rparr>"

lemmas demo_defs = demo_held_def demo_queued_def demo_called_def host_init_def
  INIT_EVENT_QUEUE_def ENQUEUE_HOST_COMMAND_def DEQUEUE_HOST_COMMAND_def drop_cmd_def

lemma demo_held_reach: "host_reach (host_init 1 demo_mem) demo_held"
proof -
  let ?s = "demo_queued\<lparr>hs_cons := C_Ready\<rparr>"
  have "host_step demo_queued ?s"
    using host_step.poll[of demo_queued] by (simp add: demo_defs IS_EMPTY_def)
  moreover have "host_step ?s demo_held"
    using host_step.dequeue[of ?s 0 "drop_cmd (hs_queue demo_queued)"]
    by (simp add: demo_defs)
  ultimately show ?thesis by (blast intro: host_reach.step demo_queued_reach)
qed

lemma host_threads_fifo_witness:
  "submitted demo_held = handled demo_held @ not_yet_run demo_held \<and> not_yet_run demo_held = [demo_cmd]"
  using host_threads_fifo[OF demo_held_reach]
  by (simp add: not_yet_run_def demo_defs pending_def live_slots_def)

text \<open>C9: The pointer \<open>DEQUEUE_HOST_COMMAND\<close> returns stays good although the ring has moved on:
  while the consumer holds the slot no step of the producer touches it, the slot is not in the
  live part of the ring, and so marking it \<open>NOOP\<close> at the end destroys no command.\<close>

theorem host_held_slot_safe:
  assumes "host_reach (host_init entry_nb mem) s" "0 < entry_nb"
    and "held_slot (hs_cons s) = Some p" "host_step s t"
  shows "p \<notin> set (live_slots (hs_queue s)) \<and>
    (hs_cons t \<noteq> C_Idle \<longrightarrow> host_commands (hs_queue t) p = host_commands (hs_queue s) p) \<and>
    (hs_cons t = C_Idle \<longrightarrow> pending (hs_queue t) = pending (hs_queue s))"
proof -
  have inv: "host_inv s" using host_inv_reach[OF assms(1,2)] .
  then have ok: "ring_ok (hs_queue s)" "behind_front (hs_queue s) p"
    using assms(3) by (auto simp: host_inv_def)
  from assms(4) show ?thesis
  proof (cases rule: host_step.cases)
    case (enqueue x)
    then have "p \<noteq> eq_rear (hs_queue s)"
      using inv ok behind_front_not_rear by (auto simp: host_inv_def)
    then show ?thesis using enqueue ok assms(3)
      by (auto simp: enq_other_slot behind_front_dead held_slot_def)
  next
    case (finish q)
    then show ?thesis using ok assms(3)
      by (auto simp: behind_front_dead held_slot_def pending_noop)
  qed (use ok assms(3) in \<open>auto simp: behind_front_dead held_slot_def\<close>)
qed

lemma host_held_slot_safe_witness:
  "0 \<notin> set (live_slots (hs_queue demo_held)) \<and> host_commands (hs_queue demo_held) 0 = demo_cmd"
proof -
  let ?t = "demo_held\<lparr>hs_cons := C_Done 0, handled := [demo_cmd]\<rparr>"
  have "host_step demo_held ?t"
    using host_step.run[of demo_held 0] by (simp add: demo_defs)
  from host_held_slot_safe[OF demo_held_reach _ _ this, of 0] show ?thesis
    by (simp add: demo_defs held_slot_def)
qed

end
