(* ===== verification/WriteBuffer.thy ===== *)
theory WriteBuffer
  imports SsdConfig
begin

text \<open>
  The write buffer in front of the FTL, \<open>SSD_MODULE/ssd_write_buffer.c\<close>: a doubly linked list of
  write requests, oldest first, whose lengths are bounded by the capacity of the buffer.

  The list lives in an explicit heap \<open>wb_heap\<close> from addresses to entries; an address that is not
  in the heap was never allocated or was freed, and reading it is undefined behaviour, the
  outcome \<open>None\<close>. The address \<open>malloc\<close> returns is the argument \<open>m\<close> (\<open>None\<close> for a null pointer).
  \<open>FTL_WRITE\<close> does not touch the buffer; the calls are collected in \<open>ftl_writes\<close>, oldest first.

  \<open>int32_t\<close> values are words that are compared by \<open>sint\<close>; the mixed signed and unsigned sums of
  the code are computed without sign and converted back, which wraps.
\<close>

subsection \<open>Data\<close>

record write_buffer_entry =
  wb_sector_nb :: u32
  wb_length :: u32
  wb_prev :: "nat option"
  wb_next :: "nat option"

record write_buffer =
  wb_head :: "nat option"
  wb_tail :: "nat option"
  wb_heap :: "nat \<Rightarrow> write_buffer_entry option"
  MAX_MERGE_SECTORS :: u32
  remaining_sectors :: u32
  write_buffer_entry_nb :: u32
  ftl_writes :: "(u32 \<times> u32) list"

text \<open>The comparison of the \<open>int\<close> with the \<open>uint32_t\<close> is unsigned.\<close>

definition INIT_WRITE_BUFFER :: "config \<Rightarrow> write_buffer \<Rightarrow> write_buffer option" where
  "INIT_WRITE_BUFFER c s = do {
     q \<leftarrow> c_div (16 * 1024 * 1024) (SECTOR_SIZE c);
     let cap = u32i (SECTORS_PER_WRITE_BUFFER c);
     let m = u32i q;
     Some (s\<lparr>wb_head := None, wb_tail := None, write_buffer_entry_nb := 0,
             remaining_sectors := cap,
             MAX_MERGE_SECTORS := (if cap < m then cap else m)\<rparr>) }"

definition wb_emit :: "write_buffer_entry \<Rightarrow> write_buffer \<Rightarrow> write_buffer" where
  "wb_emit e s = s\<lparr>ftl_writes := ftl_writes s @ [(wb_sector_nb e, wb_length e)]\<rparr>"

definition wb_store :: "nat \<Rightarrow> write_buffer_entry \<Rightarrow> write_buffer \<Rightarrow> write_buffer" where
  "wb_store a e s = s\<lparr>wb_heap := (wb_heap s)(a \<mapsto> e)\<rparr>"

definition wb_free :: "nat \<Rightarrow> write_buffer \<Rightarrow> write_buffer" where
  "wb_free a s = s\<lparr>wb_heap := (wb_heap s)(a := None)\<rparr>"

text \<open>\<open>p->prev = v\<close> and \<open>p->next = v\<close> for a pointer \<open>p\<close> that may be null.\<close>

definition set_prev :: "nat option \<Rightarrow> nat option \<Rightarrow> write_buffer \<Rightarrow> write_buffer option" where
  "set_prev p v s = do {
     a \<leftarrow> p;
     e \<leftarrow> wb_heap s a;
     Some (wb_store a (e\<lparr>wb_prev := v\<rparr>) s) }"

definition set_next :: "nat option \<Rightarrow> nat option \<Rightarrow> write_buffer \<Rightarrow> write_buffer option" where
  "set_next p v s = do {
     a \<leftarrow> p;
     e \<leftarrow> wb_heap s a;
     Some (wb_store a (e\<lparr>wb_next := v\<rparr>) s) }"

subsection \<open>Inserting\<close>

definition ALLOC_WRITE_BUFFER_ENTRY ::
  "nat option \<Rightarrow> u32 \<Rightarrow> u32 \<Rightarrow> write_buffer \<Rightarrow> write_buffer option" where
  "ALLOC_WRITE_BUFFER_ENTRY m sector_nb len s =
     (case m of
        None \<Rightarrow> Some s
      | Some a \<Rightarrow> do {
          let s0 = wb_store a \<lparr>wb_sector_nb = sector_nb, wb_length = len,
                               wb_prev = None, wb_next = None\<rparr> s;
          s1 \<leftarrow> (if write_buffer_entry_nb s0 \<noteq> 0 then do {
                    s1 \<leftarrow> set_next (wb_tail s0) (Some a) s0;
                    s2 \<leftarrow> set_prev (Some a) (wb_tail s1) s1;
                    Some (s2\<lparr>wb_tail := Some a\<rparr>)
                  } else Some (s0\<lparr>wb_head := Some a, wb_tail := Some a\<rparr>));
          Some (s1\<lparr>write_buffer_entry_nb := write_buffer_entry_nb s1 + 1,
                   remaining_sectors := remaining_sectors s1 - len\<rparr>) })"

definition INSERT_WRITE_REQUEST ::
  "nat option \<Rightarrow> u32 \<Rightarrow> u32 \<Rightarrow> write_buffer \<Rightarrow> write_buffer option" where
  "INSERT_WRITE_REQUEST m sector_nb len s =
     (if write_buffer_entry_nb s \<noteq> 0 then do {
        a \<leftarrow> wb_tail s;
        e \<leftarrow> wb_heap s a;
        let last_sector_nb = wb_sector_nb e + wb_length e - 1;
        if last_sector_nb + 1 = sector_nb \<and> wb_length e + len \<le> MAX_MERGE_SECTORS s
        then Some ((wb_store a (e\<lparr>wb_length := wb_length e + len\<rparr>) s)
                     \<lparr>remaining_sectors := remaining_sectors s - len\<rparr>)
        else ALLOC_WRITE_BUFFER_ENTRY m sector_nb len s
      } else ALLOC_WRITE_BUFFER_ENTRY m sector_nb len s)"

subsection \<open>Flushing\<close>

definition FLUSH_WRITE_BUFFER :: "write_buffer \<Rightarrow> write_buffer option" where
  "FLUSH_WRITE_BUFFER s =
     (case wb_head s of
        Some a \<Rightarrow>
          if write_buffer_entry_nb s \<noteq> 0 then do {
            e \<leftarrow> wb_heap s a;
            let len = wb_length e;
            let s0 = wb_emit e s;
            s1 \<leftarrow> (if write_buffer_entry_nb s0 = 1
                   then Some (s0\<lparr>wb_head := None, wb_tail := None\<rparr>)
                   else do {
                     s1 \<leftarrow> set_prev (wb_next e) None s0;
                     e1 \<leftarrow> wb_heap s1 a;
                     Some (s1\<lparr>wb_head := wb_next e1\<rparr>) });
            let s2 = wb_free a s1;
            Some (s2\<lparr>write_buffer_entry_nb := write_buffer_entry_nb s2 - 1,
                     remaining_sectors := remaining_sectors s2 + len\<rparr>)
          } else Some s
      | None \<Rightarrow> Some s)"

text \<open>The loop does not end when nothing is left to flush: then its value is \<open>None\<close>.\<close>

partial_function (option) SECURE_WRITE_BUFFER :: "u32 \<Rightarrow> write_buffer \<Rightarrow> write_buffer option" where
  "SECURE_WRITE_BUFFER len s =
     (if remaining_sectors s < len
      then do { s1 \<leftarrow> FLUSH_WRITE_BUFFER s; SECURE_WRITE_BUFFER len s1 }
      else Some s)"

definition WRITE_TO_BUFFER ::
  "nat option \<Rightarrow> u32 \<Rightarrow> u32 \<Rightarrow> write_buffer \<Rightarrow> write_buffer option" where
  "WRITE_TO_BUFFER m sector_nb len s = do {
     s1 \<leftarrow> SECURE_WRITE_BUFFER len s;
     if remaining_sectors s1 < len then Some s1
     else INSERT_WRITE_REQUEST m sector_nb len s1 }"

text \<open>The entry is freed before its \<open>next\<close> pointer is read, as in the code.\<close>

fun flush_all_loop :: "nat \<Rightarrow> nat option \<Rightarrow> write_buffer \<Rightarrow> write_buffer option" where
  "flush_all_loop 0 cur s = Some s"
| "flush_all_loop (Suc n) cur s = do {
     a \<leftarrow> cur;
     e \<leftarrow> wb_heap s a;
     let s1 = wb_emit e s;
     let s2 = s1\<lparr>remaining_sectors := remaining_sectors s1 + wb_length e\<rparr>;
     let s3 = wb_free a s2;
     e1 \<leftarrow> wb_heap s3 a;
     flush_all_loop n (wb_next e1) s3 }"

definition FLUSH_ALL_WRITE_BUFFER :: "write_buffer \<Rightarrow> write_buffer option" where
  "FLUSH_ALL_WRITE_BUFFER s = do {
     s1 \<leftarrow> flush_all_loop (unat (write_buffer_entry_nb s)) (wb_head s) s;
     Some (s1\<lparr>write_buffer_entry_nb := 0, wb_head := None, wb_tail := None\<rparr>) }"

definition TERM_WRITE_BUFFER :: "write_buffer \<Rightarrow> write_buffer option" where
  "TERM_WRITE_BUFFER s = FLUSH_ALL_WRITE_BUFFER s"

subsection \<open>Reads\<close>

definition read_hit :: "u32 \<Rightarrow> u32 \<Rightarrow> u32 \<Rightarrow> u32 \<Rightarrow> bool" where
  "read_hit sector_nb len curr_sect_nb curr_len \<longleftrightarrow>
     sint curr_sect_nb \<le> sint (sector_nb + len - 1) \<and>
     sint sector_nb \<le> sint (curr_sect_nb + curr_len - 1)"

text \<open>Taking the entry at address \<open>a\<close> out of the list; the second result is the entry the walk
  goes on with. The four cases and their order are the code's.\<close>

definition wb_unlink :: "nat \<Rightarrow> write_buffer \<Rightarrow> (write_buffer \<times> nat option) option" where
  "wb_unlink a s = do {
     e \<leftarrow> wb_heap s a;
     if wb_head s = Some a \<and> wb_tail s = Some a
     then Some (s\<lparr>wb_head := None, wb_tail := None\<rparr>, None)
     else if wb_head s = Some a then do {
       s1 \<leftarrow> set_prev (wb_next e) None s;
       e1 \<leftarrow> wb_heap s1 a;
       Some (s1\<lparr>wb_head := wb_next e1\<rparr>, wb_next e1)
     } else if wb_tail s = Some a then do {
       s1 \<leftarrow> set_next (wb_prev e) None s;
       e1 \<leftarrow> wb_heap s1 a;
       Some (s1\<lparr>wb_tail := wb_prev e1\<rparr>, None)
     } else do {
       s1 \<leftarrow> set_next (wb_prev e) (wb_next e) s;
       e1 \<leftarrow> wb_heap s1 a;
       s2 \<leftarrow> set_prev (wb_next e1) (wb_prev e1) s1;
       e2 \<leftarrow> wb_heap s2 a;
       Some (s2, wb_next e2) } }"

partial_function (option) check_loop ::
  "u32 \<Rightarrow> u32 \<Rightarrow> nat option \<Rightarrow> write_buffer \<Rightarrow> write_buffer option" where
  "check_loop sector_nb len cur s =
     (case cur of
        None \<Rightarrow> Some s
      | Some a \<Rightarrow> do {
          e \<leftarrow> wb_heap s a;
          if read_hit sector_nb len (wb_sector_nb e) (wb_length e) then do {
            (s1, curr1) \<leftarrow> wb_unlink a (wb_emit e s);
            e1 \<leftarrow> wb_heap s1 a;
            let s2 = s1\<lparr>write_buffer_entry_nb := write_buffer_entry_nb s1 - 1,
                        remaining_sectors := remaining_sectors s1 + wb_length e1\<rparr>;
            check_loop sector_nb len curr1 (wb_free a s2)
          } else check_loop sector_nb len (wb_next e) s })"

definition CHECK_WRITE_BUFFER_FOR_READ :: "u32 \<Rightarrow> u32 \<Rightarrow> write_buffer \<Rightarrow> write_buffer option" where
  "CHECK_WRITE_BUFFER_FOR_READ sector_nb len s = check_loop sector_nb len (wb_head s) s"

text \<open>The loops as code equations, so that concrete inputs evaluate.\<close>

declare SECURE_WRITE_BUFFER.simps [code] check_loop.simps [code]

end
