(* ===== verification/WriteBufferSpec.thy ===== *)
theory WriteBufferSpec
  imports WriteBuffer
begin

text \<open>
  The write buffer implements a list of requests: the representation predicate \<open>wb_inv\<close> relates
  the linked list in the heap, with its addresses, to a HOL list of requests, and ties the two
  counters to it. Every operation is shown to return, and to do on the list what its contract
  says; the pointers stay an implementation detail.
\<close>

type_synonym wreq = "nat \<times> u32 \<times> u32"

abbreviation req_of :: "wreq \<Rightarrow> u32 \<times> u32" where
  "req_of \<equiv> snd"

fun first_addr :: "wreq list \<Rightarrow> nat option \<Rightarrow> nat option" where
  "first_addr [] n = n"
| "first_addr (x # xs) n = Some (fst x)"

fun last_addr :: "nat option \<Rightarrow> wreq list \<Rightarrow> nat option" where
  "last_addr p [] = p"
| "last_addr p (x # xs) = last_addr (Some (fst x)) xs"

text \<open>The segment of the list that starts behind \<open>p\<close>, holds \<open>xs\<close> and is followed by \<open>n\<close>.\<close>

fun dll :: "(nat \<Rightarrow> write_buffer_entry option) \<Rightarrow> nat option \<Rightarrow> wreq list \<Rightarrow> nat option \<Rightarrow> bool" where
  "dll h p [] n = True"
| "dll h p (x # xs) n =
     (h (fst x) = Some \<lparr>wb_sector_nb = fst (snd x), wb_length = snd (snd x), wb_prev = p,
                        wb_next = first_addr xs n\<rparr>
      \<and> dll h (Some (fst x)) xs n)"

lemma first_addr_append: "first_addr (xs @ ys) n = first_addr xs (first_addr ys n)"
  by (cases xs) auto

lemma last_addr_append: "last_addr p (xs @ ys) = last_addr (last_addr p xs) ys"
  by (induction xs arbitrary: p) auto

lemma last_addr_snoc [simp]: "last_addr p (xs @ [x]) = Some (fst x)"
  by (simp add: last_addr_append)

lemma first_addr_None_iff [simp]: "first_addr xs None = None \<longleftrightarrow> xs = []"
  by (cases xs) auto

lemma dll_append:
  "dll h p (xs @ ys) n = (dll h p xs (first_addr ys n) \<and> dll h (last_addr p xs) ys n)"
  by (induction xs arbitrary: p) (auto simp: first_addr_append)

lemma dll_frame: "a \<notin> fst ` set xs \<Longrightarrow> dll (h(a := v)) p xs n = dll h p xs n"
  by (induction xs arbitrary: p) auto

lemma dll_set_prev:
  assumes "dll h p (x # xs) n" "fst x \<notin> fst ` set xs" "h (fst x) = Some e"
  shows "dll (h(fst x \<mapsto> e\<lparr>wb_prev := v\<rparr>)) v (x # xs) n"
  using assms by (auto simp: dll_frame)

lemma dll_set_next:
  assumes "dll h p (xs @ [x]) n" "fst x \<notin> fst ` set xs" "h (fst x) = Some e"
  shows "dll (h(fst x \<mapsto> e\<lparr>wb_next := v\<rparr>)) p (xs @ [x]) v"
  using assms by (auto simp: dll_append dll_frame)

definition dlist :: "write_buffer \<Rightarrow> wreq list \<Rightarrow> bool" where
  "dlist s xs \<longleftrightarrow> dll (wb_heap s) None xs None \<and> distinct (map fst xs)
     \<and> dom (wb_heap s) = fst ` set xs
     \<and> wb_head s = first_addr xs None \<and> wb_tail s = last_addr None xs"

definition sects :: "wreq list \<Rightarrow> nat" where
  "sects xs = (\<Sum>x\<leftarrow>xs. unat (snd (snd x)))"

definition wb_inv :: "nat \<Rightarrow> write_buffer \<Rightarrow> wreq list \<Rightarrow> bool" where
  "wb_inv cap s xs \<longleftrightarrow> dlist s xs \<and> cap < 2 ^ 32 \<and> (\<forall>x \<in> set xs. 0 < snd (snd x))
     \<and> write_buffer_entry_nb s = of_nat (length xs)
     \<and> unat (remaining_sectors s) + sects xs = cap"

lemma sects_simps [simp]: "sects [] = 0" "sects (x # xs) = unat (snd (snd x)) + sects xs"
  "sects (xs @ ys) = sects xs + sects ys"
  by (simp_all add: sects_def)

lemma length_le_sects: "(\<forall>x \<in> set xs. 0 < snd (snd x)) \<Longrightarrow> length xs \<le> sects xs"
  by (induction xs) (auto simp: word_less_nat_alt)

lemma wb_inv_length: "wb_inv cap s xs \<Longrightarrow> length xs < 4294967296 \<and> unat (write_buffer_entry_nb s) = length xs"
  using length_le_sects[of xs] by (auto simp: wb_inv_def unat_of_nat)

lemma wb_inv_entry_nb:
  assumes "wb_inv cap s xs"
  shows "write_buffer_entry_nb s = 0 \<longleftrightarrow> xs = []" "write_buffer_entry_nb s = 1 \<longleftrightarrow> length xs = 1"
  using wb_inv_length[OF assms] by (auto simp: word_unat_eq_iff)

subsection \<open>Unlinking an entry\<close>

lemma dlist_at:
  assumes "dlist s (ys @ x # zs)"
  shows "wb_heap s (fst x) = Some \<lparr>wb_sector_nb = fst (snd x), wb_length = snd (snd x),
      wb_prev = last_addr None ys, wb_next = first_addr zs None\<rparr>"
  using assms by (simp add: dlist_def dll_append)

lemma dlist_drop_first:
  assumes "dlist s (x # xs)" "xs \<noteq> []"
  shows "\<exists>s1. set_prev (first_addr xs None) None s = Some s1 \<and> s1 = s\<lparr>wb_heap := wb_heap s1\<rparr>
    \<and> wb_heap s1 (fst x) = wb_heap s (fst x)
    \<and> dlist (wb_free (fst x) (s1\<lparr>wb_head := first_addr xs None\<rparr>)) xs"
proof -
  obtain z zs where xs: "xs = z # zs" using assms(2) by (cases xs) auto
  obtain e where e: "wb_heap s (fst z) = Some e"
    using assms(1) by (auto simp: xs dlist_def)
  have d: "fst x \<noteq> fst z" "fst x \<notin> fst ` set zs" "fst z \<notin> fst ` set zs"
    using assms(1) by (auto simp: xs dlist_def)
  have "dll (wb_heap s) (Some (fst x)) (z # zs) None" using assms(1) by (simp add: xs dlist_def)
  from dll_set_prev[OF this d(3) e, of None] d have "dll ((wb_heap s)(fst z \<mapsto> e\<lparr>wb_prev := None\<rparr>,
      fst x := None)) None (z # zs) None"
    by (subst dll_frame) auto
  moreover have "dom (wb_heap s) = insert (fst x) (fst ` set xs)"
    using assms(1) by (simp add: dlist_def)
  ultimately show ?thesis
    using assms(1) d e unfolding xs
    by (simp add: set_prev_def wb_store_def wb_free_def dlist_def insert_Diff_if insert_commute
        insert_absorb)
qed

lemma dlist_drop_last:
  assumes "dlist s (xs @ [x])" "xs \<noteq> []"
  shows "\<exists>s1. set_next (last_addr None xs) None s = Some s1 \<and> s1 = s\<lparr>wb_heap := wb_heap s1\<rparr>
    \<and> wb_heap s1 (fst x) = wb_heap s (fst x)
    \<and> dlist (wb_free (fst x) (s1\<lparr>wb_tail := last_addr None xs\<rparr>)) xs"
proof -
  obtain y ys where xs: "xs = ys @ [y]" using assms(2) by (cases xs rule: rev_cases) auto
  obtain e where e: "wb_heap s (fst y) = Some e"
    using assms(1) by (auto simp: xs dlist_def dll_append)
  have d: "fst x \<noteq> fst y" "fst x \<notin> fst ` set ys" "fst y \<notin> fst ` set ys"
    using assms(1) by (auto simp: xs dlist_def)
  have "dll (wb_heap s) None (ys @ [y]) (Some (fst x))"
    using assms(1) by (simp add: xs dlist_def dll_append)
  from dll_set_next[OF this d(3) e, of None] d have "dll ((wb_heap s)(fst y \<mapsto> e\<lparr>wb_next := None\<rparr>,
      fst x := None)) None (ys @ [y]) None"
    by (subst dll_frame) auto
  moreover have "dom (wb_heap s) = insert (fst x) (fst ` set xs)"
    using assms(1) by (simp add: dlist_def)
  ultimately show ?thesis
    using assms(1) d e unfolding xs
    by (simp add: set_next_def wb_store_def wb_free_def dlist_def insert_Diff_if insert_commute
        insert_absorb first_addr_append)
qed

lemma dlist_drop_mid:
  assumes "dlist s (ys @ y # x # z # zs)"
  shows "\<exists>s1 s2. set_next (Some (fst y)) (Some (fst z)) s = Some s1
    \<and> set_prev (Some (fst z)) (Some (fst y)) s1 = Some s2
    \<and> s1 = s\<lparr>wb_heap := wb_heap s1\<rparr> \<and> s2 = s\<lparr>wb_heap := wb_heap s2\<rparr>
    \<and> wb_heap s1 (fst x) = wb_heap s (fst x) \<and> wb_heap s2 (fst x) = wb_heap s (fst x)
    \<and> dlist (wb_free (fst x) s2) (ys @ y # z # zs)"
proof -
  obtain e f where e: "wb_heap s (fst y) = Some e" "wb_heap s (fst z) = Some f"
    using assms(1) by (auto simp: dlist_def dll_append)
  have d: "fst x \<noteq> fst y" "fst x \<noteq> fst z" "fst y \<noteq> fst z" "fst x \<notin> fst ` set ys"
    "fst x \<notin> fst ` set zs" "fst y \<notin> fst ` set ys" "fst y \<notin> fst ` set zs"
    "fst z \<notin> fst ` set ys" "fst z \<notin> fst ` set zs"
    using assms(1) by (auto simp: dlist_def)
  let ?h = "(wb_heap s)(fst y \<mapsto> e\<lparr>wb_next := Some (fst z)\<rparr>, fst z \<mapsto> f\<lparr>wb_prev := Some (fst y)\<rparr>,
      fst x := None)"
  have "dll (wb_heap s) None (ys @ [y]) (Some (fst x))" "dll (wb_heap s) (Some (fst x)) (z # zs) None"
    using assms(1) by (simp_all add: dlist_def dll_append)
  from dll_set_next[OF this(1) d(6) e(1), of "Some (fst z)"] dll_set_prev[OF this(2) d(9) e(2), of "Some (fst y)"]
  have "dll ?h None (ys @ [y]) (Some (fst z))" "dll ?h (Some (fst y)) (z # zs) None"
    using d by (auto simp: dll_frame dll_append)
  then have "dll ?h None (ys @ y # z # zs) None"
    using dll_append[of ?h None "ys @ [y]" "z # zs" None] by simp
  moreover have "dom (wb_heap s) = insert (fst x) (fst ` set (ys @ y # z # zs))"
    using assms(1) by (auto simp: dlist_def)
  ultimately show ?thesis
    using assms(1) d e
    by (simp add: set_next_def set_prev_def wb_store_def wb_free_def dlist_def insert_Diff_if
        insert_commute insert_absorb first_addr_append last_addr_append image_Un)
qed

text \<open>The four cases of the unlinking in \<open>CHECK_WRITE_BUFFER_FOR_READ\<close>.\<close>

lemma wb_unlink_ok:
  assumes "dlist s (ys @ x # zs)"
  shows "\<exists>s1. wb_unlink (fst x) s = Some (s1, first_addr zs None)
    \<and> s1 = s\<lparr>wb_heap := wb_heap s1, wb_head := wb_head s1, wb_tail := wb_tail s1\<rparr>
    \<and> (\<exists>e. wb_heap s1 (fst x) = Some e \<and> wb_length e = snd (snd x))
    \<and> dlist (wb_free (fst x) s1) (ys @ zs)"
proof -
  note at = dlist_at[OF assms]
  have ht: "wb_head s = first_addr ys (Some (fst x))" "wb_tail s = last_addr (Some (fst x)) zs"
    using assms by (simp_all add: dlist_def first_addr_append last_addr_append)
  have nin: "fst x \<notin> fst ` set ys" "fst x \<notin> fst ` set zs" using assms by (auto simp: dlist_def)
  have tl: "last_addr (Some (fst x)) zs = Some (fst x) \<longleftrightarrow> zs = []"
    using nin(2) by (cases zs rule: rev_cases) auto
  have hd: "first_addr ys (Some (fst x)) = Some (fst x) \<longleftrightarrow> ys = []"
    using nin(1) by (cases ys) auto
  consider "ys = []" "zs = []" | "ys = []" "zs \<noteq> []" | "ys \<noteq> []" "zs = []" | "ys \<noteq> []" "zs \<noteq> []"
    by blast
  then show ?thesis
  proof cases
    case 1
    then show ?thesis using at ht assms
      by (auto simp: wb_unlink_def dlist_def wb_free_def dom_def)
  next
    case 2
    then show ?thesis using at ht tl dlist_drop_first[of s x zs] assms
      by (auto simp: wb_unlink_def)
  next
    case 3
    then show ?thesis using at ht hd dlist_drop_last[of s ys x] assms
      by (auto simp: wb_unlink_def)
  next
    case 4
    then obtain ys' y z zs' where "ys = ys' @ [y]" "zs = z # zs'"
      by (metis rev_exhaust list.exhaust)
    then show ?thesis using at ht hd tl dlist_drop_mid[of s ys' y x z zs'] assms
      by (auto simp: wb_unlink_def)
  qed
qed

lemma wb_unlink_frame:
  assumes "s1 = s\<lparr>wb_heap := h, wb_head := p, wb_tail := q\<rparr>"
  shows "write_buffer_entry_nb s1 = write_buffer_entry_nb s"
    "remaining_sectors s1 = remaining_sectors s"
    "ftl_writes s1 = ftl_writes s" "MAX_MERGE_SECTORS s1 = MAX_MERGE_SECTORS s"
  using assms by simp_all

lemma dlist_fields:
  "dlist (s\<lparr>write_buffer_entry_nb := n\<rparr>) xs = dlist s xs"
  "dlist (s\<lparr>remaining_sectors := r\<rparr>) xs = dlist s xs"
  "dlist (wb_emit e s) xs = dlist s xs"
  by (simp_all add: dlist_def wb_emit_def)

text \<open>The counters after an entry left the list.\<close>

lemma wb_inv_remove:
  assumes "wb_inv cap s (ys @ x # zs)" "dlist t (ys @ zs)"
    and "write_buffer_entry_nb t = write_buffer_entry_nb s - 1"
    and "remaining_sectors t = remaining_sectors s + snd (snd x)"
  shows "wb_inv cap t (ys @ zs)"
proof -
  have "unat (remaining_sectors s + snd (snd x)) = unat (remaining_sectors s) + unat (snd (snd x))"
    using assms(1) by (intro unat_add_id) (auto simp: wb_inv_def)
  then show ?thesis using assms by (auto simp: wb_inv_def)
qed

subsection \<open>Flushing\<close>

lemma FLUSH_WRITE_BUFFER_empty: "wb_inv cap s [] \<Longrightarrow> FLUSH_WRITE_BUFFER s = Some s"
  by (simp add: FLUSH_WRITE_BUFFER_def wb_inv_def dlist_def)

lemma FLUSH_WRITE_BUFFER_ok:
  assumes "wb_inv cap s (x # xs)"
  shows "\<exists>t. FLUSH_WRITE_BUFFER s = Some t \<and> wb_inv cap t xs
    \<and> ftl_writes t = ftl_writes s @ [req_of x] \<and> MAX_MERGE_SECTORS t = MAX_MERGE_SECTORS s"
proof -
  have d: "dlist s ([] @ x # xs)" using assms by (simp add: wb_inv_def)
  note at = dlist_at[OF d]
  have hd: "wb_head s = Some (fst x)" using d by (simp add: dlist_def)
  have nb: "write_buffer_entry_nb s \<noteq> 0" "write_buffer_entry_nb s = 1 \<longleftrightarrow> xs = []"
    using wb_inv_entry_nb[OF assms] by auto
  let ?e = "\<lparr>wb_sector_nb = fst (snd x), wb_length = snd (snd x), wb_prev = None,
             wb_next = first_addr xs None\<rparr>"
  let ?s = "wb_emit ?e s"
  have ds: "dlist ?s (x # xs)" using d by (simp add: dlist_fields)
  show ?thesis
  proof (cases "xs = []")
    case True
    let ?t = "(wb_free (fst x) (?s\<lparr>wb_head := None, wb_tail := None\<rparr>))
      \<lparr>write_buffer_entry_nb := write_buffer_entry_nb s - 1,
       remaining_sectors := remaining_sectors s + snd (snd x)\<rparr>"
    have "FLUSH_WRITE_BUFFER s = Some ?t"
      using at hd nb True by (simp add: FLUSH_WRITE_BUFFER_def wb_emit_def wb_free_def)
    moreover have "dlist ?t []"
      using d True by (simp add: dlist_def wb_free_def wb_emit_def)
    ultimately show ?thesis
      using wb_inv_remove[of cap s "[]" x "[]" ?t] assms True
      by (auto simp: wb_free_def wb_emit_def)
  next
    case False
    obtain s1 where s1: "set_prev (first_addr xs None) None ?s = Some s1"
      "s1 = ?s\<lparr>wb_heap := wb_heap s1\<rparr>" "wb_heap s1 (fst x) = wb_heap ?s (fst x)"
      "dlist (wb_free (fst x) (s1\<lparr>wb_head := first_addr xs None\<rparr>)) xs"
      using dlist_drop_first[OF ds False] by auto
    let ?t = "(wb_free (fst x) (s1\<lparr>wb_head := first_addr xs None\<rparr>))
      \<lparr>write_buffer_entry_nb := write_buffer_entry_nb s1 - 1,
       remaining_sectors := remaining_sectors s1 + snd (snd x)\<rparr>"
    have f: "write_buffer_entry_nb s1 = write_buffer_entry_nb s"
      "remaining_sectors s1 = remaining_sectors s" "ftl_writes s1 = ftl_writes ?s"
      "MAX_MERGE_SECTORS s1 = MAX_MERGE_SECTORS s"
      using arg_cong[OF s1(2), of write_buffer_entry_nb] arg_cong[OF s1(2), of remaining_sectors]
        arg_cong[OF s1(2), of ftl_writes] arg_cong[OF s1(2), of MAX_MERGE_SECTORS]
      by (simp_all add: wb_emit_def)
    have "FLUSH_WRITE_BUFFER s = Some ?t"
      using at hd nb False s1(1,3) by (simp add: FLUSH_WRITE_BUFFER_def wb_emit_def wb_free_def)
    moreover have "dlist ?t xs" using s1(4) by (simp add: dlist_fields)
    ultimately show ?thesis
      using wb_inv_remove[of cap s "[]" x xs ?t] assms f
      by (auto simp: wb_free_def wb_emit_def)
  qed
qed

lemma SECURE_WRITE_BUFFER_ok:
  assumes "wb_inv cap s xs" "unat len \<le> cap"
  shows "\<exists>t k. SECURE_WRITE_BUFFER len s = Some t \<and> wb_inv cap t (drop k xs)
    \<and> ftl_writes t = ftl_writes s @ map req_of (take k xs) \<and> len \<le> remaining_sectors t
    \<and> MAX_MERGE_SECTORS t = MAX_MERGE_SECTORS s"
  using assms
proof (induction xs arbitrary: s)
  case Nil
  then have "\<not> remaining_sectors s < len" by (auto simp: wb_inv_def word_less_nat_alt)
  with Nil show ?case
    by (subst SECURE_WRITE_BUFFER.simps) (auto intro!: exI[of _ 0])
next
  case (Cons x xs)
  show ?case
  proof (cases "remaining_sectors s < len")
    case False
    with Cons.prems show ?thesis
      by (subst SECURE_WRITE_BUFFER.simps) (auto intro!: exI[of _ 0])
  next
    case True
    obtain s1 where s1: "FLUSH_WRITE_BUFFER s = Some s1" "wb_inv cap s1 xs"
      "ftl_writes s1 = ftl_writes s @ [req_of x]" "MAX_MERGE_SECTORS s1 = MAX_MERGE_SECTORS s"
      using FLUSH_WRITE_BUFFER_ok[OF Cons.prems(1)] by auto
    obtain t k where t: "SECURE_WRITE_BUFFER len s1 = Some t" "wb_inv cap t (drop k xs)"
      "ftl_writes t = ftl_writes s1 @ map req_of (take k xs)" "len \<le> remaining_sectors t"
      "MAX_MERGE_SECTORS t = MAX_MERGE_SECTORS s1"
      using Cons.IH[OF s1(2) Cons.prems(2)] by auto
    have "SECURE_WRITE_BUFFER len s = Some t"
      using True s1 t by (subst SECURE_WRITE_BUFFER.simps) simp
    with t s1 show ?thesis by (intro exI[of _ t] exI[of _ "Suc k"]) simp
  qed
qed

lemma SECURE_WRITE_BUFFER_fits:
  "SECURE_WRITE_BUFFER len s = Some t \<Longrightarrow> wb_inv cap s xs \<Longrightarrow> unat len \<le> cap"
proof (induction len s t arbitrary: xs rule: SECURE_WRITE_BUFFER.raw_induct
    [rotated, consumes 1, case_names round])
  case (round f len s t)
  have inv: "wb_inv cap s xs" using round(3) by simp
  show ?case
  proof (cases "remaining_sectors s < len")
    case False
    with inv show ?thesis by (auto simp: wb_inv_def word_less_nat_alt)
  next
    case True
    then obtain s1 where s1: "FLUSH_WRITE_BUFFER s = Some s1" "f len s1 = Some t"
      using round(2) by (auto simp: bind_eq_Some_conv)
    show ?thesis
    proof (cases xs)
      case Nil
      with s1 inv FLUSH_WRITE_BUFFER_empty[of cap s] show ?thesis
        using round(1)[OF s1(2), of "[]"] by simp
    next
      case (Cons y ys)
      with s1 inv FLUSH_WRITE_BUFFER_ok[of cap s y ys] show ?thesis
        using round(1)[OF s1(2), of ys] by auto
    qed
  qed
qed

subsection \<open>Inserting\<close>

lemma ALLOC_WRITE_BUFFER_ENTRY_ok:
  assumes "wb_inv cap s xs" "wb_heap s a = None" "0 < len" "len \<le> remaining_sectors s"
  shows "\<exists>t. ALLOC_WRITE_BUFFER_ENTRY (Some a) sec len s = Some t
    \<and> wb_inv cap t (xs @ [(a, sec, len)]) \<and> ftl_writes t = ftl_writes s"
proof -
  have d: "dlist s xs" using assms(1) by (simp add: wb_inv_def)
  have a: "a \<notin> fst ` set xs" using d assms(2) by (auto simp: dlist_def domIff)
  have nb: "write_buffer_entry_nb s = 0 \<longleftrightarrow> xs = []" using wb_inv_entry_nb[OF assms(1)] by simp
  have le: "unat len \<le> unat (remaining_sectors s)" using assms(4) by (simp add: word_le_nat_alt)
  then have rem: "unat (remaining_sectors s - len) = unat (remaining_sectors s) - unat len"
    by (simp add: unat_sub word_le_nat_alt)
  have cnt: "wb_inv cap t (xs @ [(a, sec, len)])" if "dlist t (xs @ [(a, sec, len)])"
    "write_buffer_entry_nb t = write_buffer_entry_nb s + 1"
    "remaining_sectors t = remaining_sectors s - len" for t
    using that assms(1,3) rem le by (auto simp: wb_inv_def)
  show ?thesis
  proof (cases xs rule: rev_cases)
    case Nil
    let ?t = "wb_store a \<lparr>wb_sector_nb = sec, wb_length = len, wb_prev = None, wb_next = None\<rparr> s
      \<lparr>wb_head := Some a, wb_tail := Some a, write_buffer_entry_nb := write_buffer_entry_nb s + 1,
       remaining_sectors := remaining_sectors s - len\<rparr>"
    have "dlist ?t (xs @ [(a, sec, len)])" using d Nil by (simp add: dlist_def wb_store_def)
    from cnt[OF this] Nil nb show ?thesis by (auto simp: ALLOC_WRITE_BUFFER_ENTRY_def wb_store_def)
  next
    case (snoc ys y)
    obtain e where e: "wb_heap s (fst y) = Some e"
      using d snoc by (auto simp: dlist_def dll_append)
    have y: "fst y \<noteq> a" "fst y \<notin> fst ` set ys" using a d snoc by (auto simp: dlist_def)
    let ?n = "\<lparr>wb_sector_nb = sec, wb_length = len, wb_prev = Some (fst y), wb_next = None\<rparr>"
    let ?h = "(wb_heap s)(a \<mapsto> ?n\<lparr>wb_prev := None\<rparr>, fst y \<mapsto> e\<lparr>wb_next := Some a\<rparr>, a \<mapsto> ?n)"
    let ?t = "s\<lparr>wb_heap := ?h, wb_tail := Some a, write_buffer_entry_nb := write_buffer_entry_nb s + 1,
       remaining_sectors := remaining_sectors s - len\<rparr>"
    have "?h = (wb_heap s)(fst y \<mapsto> e\<lparr>wb_next := Some a\<rparr>, a \<mapsto> ?n)" by auto
    moreover have "dll (wb_heap s) None (ys @ [y]) None" using d snoc by (simp add: dlist_def)
    ultimately have "dll ?h None (ys @ [y]) (Some a)"
      using dll_set_next[of "wb_heap s" None ys y None e "Some a"] y(2) e a snoc
      by (simp add: dll_frame)
    then have "dlist ?t (xs @ [(a, sec, len)])"
      using d snoc a e by (auto simp: dlist_def dll_append first_addr_append last_addr_append)
    from cnt[OF this] snoc nb e y d show ?thesis
      by (auto simp: ALLOC_WRITE_BUFFER_ENTRY_def wb_store_def set_next_def set_prev_def dlist_def)
  qed
qed

text \<open>What inserting does to the list of requests.\<close>

definition merges :: "u32 \<Rightarrow> u32 \<times> u32 \<Rightarrow> u32 \<Rightarrow> u32 \<Rightarrow> bool" where
  "merges mx l sec len \<longleftrightarrow> fst l + snd l = sec \<and> snd l + len \<le> mx"

lemma merge_last_ok:
  assumes "wb_inv cap s (ys @ [y])" "0 < len" "len \<le> remaining_sectors s"
    "wb_heap s (fst y) = Some e"
  shows "wb_inv cap ((wb_store (fst y) (e\<lparr>wb_length := wb_length e + len\<rparr>) s)
      \<lparr>remaining_sectors := remaining_sectors s - len\<rparr>)
      (ys @ [(fst y, fst (snd y), snd (snd y) + len)])"
proof -
  have d: "dlist s (ys @ [y])" using assms(1) by (simp add: wb_inv_def)
  have y: "fst y \<notin> fst ` set ys" using d by (auto simp: dlist_def)
  have at: "e = \<lparr>wb_sector_nb = fst (snd y), wb_length = snd (snd y),
      wb_prev = last_addr None ys, wb_next = None\<rparr>"
    using dlist_at[of s ys y "[]"] d assms(4) by simp
  have le: "unat len \<le> unat (remaining_sectors s)" using assms(3) by (simp add: word_le_nat_alt)
  have "unat (remaining_sectors s) + (sects ys + unat (snd (snd y))) < 4294967296"
    using assms(1) by (auto simp: wb_inv_def)
  then have u: "unat (remaining_sectors s - len) = unat (remaining_sectors s) - unat len"
    "unat (snd (snd y) + len) = unat (snd (snd y)) + unat len"
    using le by (simp_all add: unat_sub word_le_nat_alt unat_add_id)
  have "0 < snd (snd y) + len" using u(2) assms(2) by (simp add: word_less_nat_alt)
  then show ?thesis
    using assms(1) d y at u le
    by (auto simp: wb_inv_def dlist_def wb_store_def dll_append dll_frame first_addr_append
        last_addr_append)
qed

lemma INSERT_WRITE_REQUEST_ok:
  assumes "wb_inv cap s xs" "wb_heap s a = None" "0 < len" "len \<le> remaining_sectors s"
  shows "\<exists>t. INSERT_WRITE_REQUEST (Some a) sec len s = Some t \<and> ftl_writes t = ftl_writes s
    \<and> wb_inv cap t (if xs \<noteq> [] \<and> merges (MAX_MERGE_SECTORS s) (req_of (last xs)) sec len
                    then butlast xs @ [(fst (last xs), fst (snd (last xs)), snd (snd (last xs)) + len)]
                    else xs @ [(a, sec, len)])"
proof (cases "xs \<noteq> [] \<and> merges (MAX_MERGE_SECTORS s) (req_of (last xs)) sec len")
  case False
  have d: "dlist s xs" using assms(1) by (simp add: wb_inv_def)
  have "INSERT_WRITE_REQUEST (Some a) sec len s = ALLOC_WRITE_BUFFER_ENTRY (Some a) sec len s"
    using False wb_inv_entry_nb(1)[OF assms(1)] d
    by (cases xs rule: rev_cases)
       (auto simp: INSERT_WRITE_REQUEST_def merges_def dlist_def dll_append)
  with ALLOC_WRITE_BUFFER_ENTRY_ok[OF assms, of sec] False show ?thesis by auto
next
  case True
  then obtain ys y where xs: "xs = ys @ [y]" by (cases xs rule: rev_cases) auto
  have d: "dlist s (ys @ [y])" using assms(1) xs by (simp add: wb_inv_def)
  obtain e where e: "wb_heap s (fst y) = Some e" "wb_sector_nb e = fst (snd y)"
    "wb_length e = snd (snd y)" "wb_tail s = Some (fst y)"
    using dlist_at[of s ys y "[]"] d by (auto simp: dlist_def)
  have "INSERT_WRITE_REQUEST (Some a) sec len s
      = Some ((wb_store (fst y) (e\<lparr>wb_length := wb_length e + len\<rparr>) s)
               \<lparr>remaining_sectors := remaining_sectors s - len\<rparr>)"
    using True e wb_inv_entry_nb(1)[OF assms(1)] xs
    by (simp add: INSERT_WRITE_REQUEST_def merges_def)
  with merge_last_ok[of cap s ys y len e] assms xs e(1) True show ?thesis
    by (simp add: wb_store_def)
qed

subsection \<open>Reads\<close>

lemma check_loop_ok:
  assumes "wb_inv cap s (ys @ xs)"
  shows "\<exists>t. check_loop sec len (first_addr xs None) s = Some t
    \<and> wb_inv cap t (ys @ filter (\<lambda>x. \<not> read_hit sec len (fst (snd x)) (snd (snd x))) xs)
    \<and> ftl_writes t = ftl_writes s
        @ map req_of (filter (\<lambda>x. read_hit sec len (fst (snd x)) (snd (snd x))) xs)"
  using assms
proof (induction xs arbitrary: ys s)
  case Nil
  then show ?case by (subst check_loop.simps) simp
next
  case (Cons x xs)
  have d: "dlist s (ys @ x # xs)" using Cons.prems by (simp add: wb_inv_def)
  let ?e = "\<lparr>wb_sector_nb = fst (snd x), wb_length = snd (snd x),
      wb_prev = last_addr None ys, wb_next = first_addr xs None\<rparr>"
  have at: "wb_heap s (fst x) = Some ?e" using dlist_at[OF d] .
  show ?case
  proof (cases "read_hit sec len (fst (snd x)) (snd (snd x))")
    case False
    from Cons.IH[of s "ys @ [x]"] Cons.prems obtain t where
      "check_loop sec len (first_addr xs None) s = Some t"
      "wb_inv cap t ((ys @ [x]) @ filter (\<lambda>x. \<not> read_hit sec len (fst (snd x)) (snd (snd x))) xs)"
      "ftl_writes t = ftl_writes s
        @ map req_of (filter (\<lambda>x. read_hit sec len (fst (snd x)) (snd (snd x))) xs)"
      by auto
    with at False show ?thesis by (subst check_loop.simps) simp
  next
    case True
    let ?s = "wb_emit ?e s"
    obtain s1 e1 where s1: "wb_unlink (fst x) ?s = Some (s1, first_addr xs None)"
      "s1 = ?s\<lparr>wb_heap := wb_heap s1, wb_head := wb_head s1, wb_tail := wb_tail s1\<rparr>"
      "wb_heap s1 (fst x) = Some e1" "wb_length e1 = snd (snd x)"
      "dlist (wb_free (fst x) s1) (ys @ xs)"
      using wb_unlink_ok[of ?s ys x xs] d by (auto simp: dlist_fields)
    note f = wb_unlink_frame[OF s1(2)]
    let ?t = "wb_free (fst x) (s1\<lparr>write_buffer_entry_nb := write_buffer_entry_nb s1 - 1,
                        remaining_sectors := remaining_sectors s1 + wb_length e1\<rparr>)"
    have t: "wb_inv cap ?t (ys @ xs)"
      using s1(4,5) f by (intro wb_inv_remove[OF Cons.prems])
        (auto simp: wb_free_def wb_emit_def dlist_def)
    have w: "ftl_writes ?t = ftl_writes s @ [req_of x]"
      using f by (simp add: wb_free_def wb_emit_def)
    have "check_loop sec len (first_addr (x # xs) None) s = check_loop sec len (first_addr xs None) ?t"
      using at True s1 by (subst check_loop.simps) simp
    with Cons.IH[OF t] True w show ?thesis by auto
  qed
qed

subsection \<open>The contracts\<close>

text \<open>The sectors a request covers, and the stream of sectors the FTL has been given and will be
  given when the buffer is drained.\<close>

definition sectors_of :: "u32 \<times> u32 \<Rightarrow> u32 list" where
  "sectors_of r = map (\<lambda>i. fst r + of_nat i) [0 ..< unat (snd r)]"

definition stream :: "write_buffer \<Rightarrow> wreq list \<Rightarrow> u32 list" where
  "stream s xs = concat (map sectors_of (ftl_writes s @ map req_of xs))"

lemma sectors_of_merge:
  assumes "unat l + unat len < 4294967296"
  shows "sectors_of (sec, l + len) = sectors_of (sec, l) @ sectors_of (sec + l, len)"
proof -
  have split: "map f [0 ..< m + n] = map f [0 ..< m] @ map (\<lambda>i. f (i + m)) [0 ..< n]"
    for f :: "nat \<Rightarrow> u32" and m n
    by (rule nth_equalityI) (auto simp: nth_append)
  have "unat (l + len) = unat l + unat len" using assms by (rule unat_add_id)
  then show ?thesis
    by (simp add: sectors_of_def split ac_simps)
qed


text \<open>Requests whose sectors all have non-negative \<open>int32_t\<close> numbers.\<close>

definition no_wrap :: "u32 \<times> u32 \<Rightarrow> bool" where
  "no_wrap r \<longleftrightarrow> 0 < snd r \<and> unat (fst r) + unat (snd r) \<le> 2 ^ 31"

lemma last_sector: "no_wrap r \<Longrightarrow> sint (fst r + snd r - 1) = int (unat (fst r) + unat (snd r)) - 1"
proof -
  assume r: "no_wrap r"
  have s: "unat (fst r + snd r) = unat (fst r) + unat (snd r)"
    using r by (intro unat_add_id) (simp add: no_wrap_def)
  have "1 \<le> fst r + snd r" using r s by (simp add: no_wrap_def word_le_nat_alt word_less_nat_alt)
  then have "unat (fst r + snd r - 1) = unat (fst r) + unat (snd r) - 1"
    by (simp add: unat_sub s)
  with r show ?thesis by (subst sint_small) (auto simp: no_wrap_def word_less_nat_alt)
qed

lemma in_sectors_of:
  assumes "no_wrap r"
  shows "x \<in> set (sectors_of r) \<longleftrightarrow> unat (fst r) \<le> unat x \<and> unat x < unat (fst r) + unat (snd r)"
proof -
  have u: "unat (fst r + of_nat i) = unat (fst r) + i" if "i < unat (snd r)" for i
    using assms that by (subst unat_add_id) (auto simp: no_wrap_def unat_of_nat)
  show ?thesis
  proof
    assume "unat (fst r) \<le> unat x \<and> unat x < unat (fst r) + unat (snd r)"
    then have "x = fst r + of_nat (unat x - unat (fst r))" "unat x - unat (fst r) < unat (snd r)"
      using u[of "unat x - unat (fst r)"] by (auto intro!: u32_eqI)
    then show "x \<in> set (sectors_of r)" unfolding sectors_of_def by force
  qed (auto simp: sectors_of_def u)
qed

lemma read_hit_overlap:
  assumes "no_wrap r" "no_wrap q"
  shows "read_hit (fst r) (snd r) (fst q) (snd q) \<longleftrightarrow> set (sectors_of r) \<inter> set (sectors_of q) \<noteq> {}"
proof -
  let ?a = "unat (fst r)" and ?b = "unat (fst q)"
  have pos: "0 < unat (snd r)" "0 < unat (snd q)"
    using assms by (auto simp: no_wrap_def word_less_nat_alt)
  then have "?a < 2 ^ 31" "?b < 2 ^ 31" using assms by (auto simp: no_wrap_def)
  then have s: "sint (fst r) = int ?a" "sint (fst q) = int ?b" by (simp_all only: sint_small)
  have "read_hit (fst r) (snd r) (fst q) (snd q)
      \<longleftrightarrow> ?b < ?a + unat (snd r) \<and> ?a < ?b + unat (snd q)"
    unfolding read_hit_def last_sector[OF assms(1)] last_sector[OF assms(2)] s using pos by linarith
  also have "\<dots> \<longleftrightarrow> (\<exists>x. x \<in> set (sectors_of r) \<and> x \<in> set (sectors_of q))"
  proof
    assume h: "?b < ?a + unat (snd r) \<and> ?a < ?b + unat (snd q)"
    show "\<exists>x. x \<in> set (sectors_of r) \<and> x \<in> set (sectors_of q)"
      using h pos by (intro exI[of _ "if ?a \<le> ?b then fst q else fst r"])
        (auto simp: in_sectors_of assms)
  qed (auto simp: in_sectors_of assms)
  finally show ?thesis by auto
qed

text \<open>C10: Before a read every buffered request that overlaps it is handed to the FTL, oldest
  first, and taken out of the list; the others stay, in order, and the counters follow. The
  four ways of unlinking an entry keep the doubly linked list intact.\<close>

theorem check_write_buffer_for_read_ok:
  assumes "wb_inv cap s xs" "no_wrap (sec, len)" "\<forall>x \<in> set xs. no_wrap (req_of x)"
  shows "\<exists>t. CHECK_WRITE_BUFFER_FOR_READ sec len s = Some t
    \<and> wb_inv cap t (filter (\<lambda>x. set (sectors_of (sec, len)) \<inter> set (sectors_of (req_of x)) = {}) xs)
    \<and> ftl_writes t = ftl_writes s @ map req_of
        (filter (\<lambda>x. set (sectors_of (sec, len)) \<inter> set (sectors_of (req_of x)) \<noteq> {}) xs)"
proof -
  have hit: "read_hit sec len (fst (snd x)) (snd (snd x))
      \<longleftrightarrow> set (sectors_of (sec, len)) \<inter> set (sectors_of (req_of x)) \<noteq> {}" if "x \<in> set xs" for x
    using read_hit_overlap[OF assms(2), of "req_of x"] assms(3) that by simp
  have h: "wb_head s = first_addr xs None" using assms(1) by (simp add: wb_inv_def dlist_def)
  show ?thesis
    using check_loop_ok[of cap s "[]" xs sec len] assms(1) h hit
    by (simp add: CHECK_WRITE_BUFFER_FOR_READ_def cong: filter_cong)
qed

text \<open>C20: A request that is larger than the whole buffer makes \<open>SECURE_WRITE_BUFFER\<close> flush for
  ever; all others return.\<close>

theorem write_to_buffer_returns_iff:
  assumes "wb_inv cap s xs" "0 < len" "wb_heap s a = None"
  shows "WRITE_TO_BUFFER (Some a) sec len s \<noteq> None \<longleftrightarrow> unat len \<le> cap"
proof
  assume "WRITE_TO_BUFFER (Some a) sec len s \<noteq> None"
  then obtain t where "SECURE_WRITE_BUFFER len s = Some t"
    by (auto simp: WRITE_TO_BUFFER_def bind_eq_Some_conv)
  then show "unat len \<le> cap" using SECURE_WRITE_BUFFER_fits assms(1) by blast
next
  assume l: "unat len \<le> cap"
  obtain t1 k where t1: "SECURE_WRITE_BUFFER len s = Some t1" "wb_inv cap t1 (drop k xs)"
    "len \<le> remaining_sectors t1"
    using SECURE_WRITE_BUFFER_ok[OF assms(1) l] by auto
  have "fst ` set (drop k xs) \<subseteq> fst ` set xs" by (intro image_mono set_drop_subset)
  then have "wb_heap t1 a = None"
    using t1(2) assms(1,3) unfolding wb_inv_def dlist_def by (metis domIff subsetD)
  from INSERT_WRITE_REQUEST_ok[OF t1(2) this assms(2) t1(3), of sec] t1
  show "WRITE_TO_BUFFER (Some a) sec len s \<noteq> None" by (auto simp: WRITE_TO_BUFFER_def)
qed

text \<open>Flushing the whole buffer, which \<open>TERM_WRITE_BUFFER\<close> does, reads the \<open>next\<close> pointer of
  an entry it has just freed: with anything in the buffer the outcome is undefined.\<close>

theorem term_write_buffer_use_after_free:
  assumes "wb_inv cap s xs"
  shows "TERM_WRITE_BUFFER s = None \<longleftrightarrow> xs \<noteq> []"
proof (cases xs)
  case Nil
  then show ?thesis using wb_inv_entry_nb(1)[OF assms]
    by (simp add: TERM_WRITE_BUFFER_def FLUSH_ALL_WRITE_BUFFER_def)
next
  case (Cons x ys)
  then obtain n where n: "unat (write_buffer_entry_nb s) = Suc n" using wb_inv_length[OF assms] by auto
  have "wb_head s = Some (fst x)" "\<exists>e. wb_heap s (fst x) = Some e"
    using assms Cons by (auto simp: wb_inv_def dlist_def)
  then show ?thesis using n Cons
    by (auto simp: TERM_WRITE_BUFFER_def FLUSH_ALL_WRITE_BUFFER_def wb_free_def wb_emit_def)
qed

subsection \<open>Concrete runs\<close>

text \<open>A buffer of 64 sectors that \<open>INIT_WRITE_BUFFER\<close> set up and that took one request.\<close>

definition wb_empty :: write_buffer where
  "wb_empty = \<lparr>wb_head = None, wb_tail = None, wb_heap = (\<lambda>_. None), MAX_MERGE_SECTORS = 64,
     remaining_sectors = 64, write_buffer_entry_nb = 0, ftl_writes = []\<rparr>"

definition wb_one :: write_buffer where
  "wb_one = \<lparr>wb_head = Some 1, wb_tail = Some 1,
     wb_heap = [1 \<mapsto> \<lparr>wb_sector_nb = 8, wb_length = 16, wb_prev = None, wb_next = None\<rparr>],
     MAX_MERGE_SECTORS = 64, remaining_sectors = 48, write_buffer_entry_nb = 1, ftl_writes = []\<rparr>"

lemma wb_empty_inv: "wb_inv 64 wb_empty []"
  by (simp add: wb_inv_def dlist_def wb_empty_def)

lemma wb_one_inv: "wb_inv 64 wb_one [(1, 8, 16)]"
  by (simp add: wb_inv_def dlist_def wb_one_def)

lemma INIT_WRITE_BUFFER_inv:
  assumes "SECTOR_SIZE c \<noteq> 0" "wb_heap s = (\<lambda>_. None)"
  shows "\<exists>t. INIT_WRITE_BUFFER c s = Some t \<and> wb_inv (unat (u32i (SECTORS_PER_WRITE_BUFFER c))) t []
    \<and> MAX_MERGE_SECTORS t \<le> remaining_sectors t"
proof -
  have "unat (u32i (SECTORS_PER_WRITE_BUFFER c)) < 4294967296"
    using unsigned_less[of "u32i (SECTORS_PER_WRITE_BUFFER c)", where 'a = nat] by simp
  with assms show ?thesis
    by (auto simp: INIT_WRITE_BUFFER_def c_div_def wb_inv_def dlist_def Let_def)
qed

lemma length_sectors_of [simp]: "length (sectors_of r) = unat (snd r)"
  by (simp add: sectors_of_def)


lemma check_write_buffer_for_read_ok_witness:
  "\<exists>t. CHECK_WRITE_BUFFER_FOR_READ 10 4 wb_one = Some t \<and> wb_inv 64 t [] \<and> ftl_writes t = [(8, 16)]"
proof -
  have ov: "(10::u32) \<in> set (sectors_of (10, 4))" "(10::u32) \<in> set (sectors_of (8, 16))"
    by (simp_all add: in_sectors_of no_wrap_def)
  then have "set (sectors_of (10, 4)) \<inter> set (sectors_of (8, 16)) \<noteq> {}" by blast
  with check_write_buffer_for_read_ok[OF wb_one_inv, of 10 4] show ?thesis
    by (simp add: no_wrap_def wb_one_def)
qed

lemma write_to_buffer_returns_iff_witness:
  "WRITE_TO_BUFFER (Some 1) 0 65 wb_empty = None \<and> WRITE_TO_BUFFER (Some 1) 0 64 wb_empty \<noteq> None"
  using write_to_buffer_returns_iff[OF wb_empty_inv, of 65 1 0]
    write_to_buffer_returns_iff[OF wb_empty_inv, of 64 1 0]
  by (simp add: wb_empty_def)

lemma term_write_buffer_use_after_free_witness:
  "TERM_WRITE_BUFFER wb_one = None"
  using term_write_buffer_use_after_free[OF wb_one_inv] by simp

end
