(* ===== verification/FtlAllocSpec.thy ===== *)
theory FtlAllocSpec
  imports FtlAlloc
begin

text \<open>
  The allocator in a well-formed configuration: the address arithmetic read as arithmetic on
  naturals, the bitmap as a set of super blocks, and the invariant \<open>alloc_ok\<close> of the three write
  pointers with what each allocation gives its caller.
\<close>

subsection \<open>Sizes\<close>

definition banks :: "config \<Rightarrow> nat" where "banks c = nat (WAY_NB c * FLASH_NB c)"
definition pages :: "config \<Rightarrow> nat" where "pages c = nat (PAGE_NB c)"
definition blocks :: "config \<Rightarrow> nat" where "blocks c = nat (BLOCK_NB c)"
definition block_pages :: "config \<Rightarrow> nat" where "block_pages c = banks c * pages c"

lemmas size_defs = banks_def pages_def blocks_def block_pages_def

lemma cfg_wf_sizes [wf_simps]:
  assumes "cfg_wf c"
  shows "0 < banks c" "0 < pages c" "7 \<le> blocks c" "0 < block_pages c"
    "blocks c * block_pages c < 2147483648"
    "nat (NR_PHY_PAGES c) = blocks c * block_pages c"
    "nat (NR_RESERVED_PHY_PAGES c) = 4 * block_pages c"
    "0 \<le> NR_PHY_PAGES c" "0 \<le> NR_RESERVED_PHY_PAGES c"
    "NR_RESERVED_PHY_SUPER_BLOCKS c = 4" "1 < block_pages c"
proof -
  have w: "WAY_NB c = 1" using assms by (simp add: cfg_wf_def)
  have p: "0 < PAGE_NB c" "0 < FLASH_NB c" "WAY_NB c = 1" "7 \<le> BLOCK_NB c"
    "FLASH_NB c * BLOCK_NB c * PAGE_NB c < 2147483648"
    "NR_PHY_PAGES c = FLASH_NB c * BLOCK_NB c * PAGE_NB c"
    "NR_RESERVED_PHY_PAGES c = FLASH_NB c * 4 * PAGE_NB c"
    using assms unfolding cfg_wf_def w by simp_all
  have r: "int (4 * block_pages c) = FLASH_NB c * 4 * PAGE_NB c"
    using p(1-3) by (simp add: size_defs)
  have e: "int (blocks c * block_pages c) = FLASH_NB c * BLOCK_NB c * PAGE_NB c"
    using p(1-4) by (simp add: size_defs)
  show "NR_RESERVED_PHY_SUPER_BLOCKS c = 4" using assms by (simp add: cfg_wf_def)
  show "0 < banks c" "0 < pages c" "7 \<le> blocks c" "0 < block_pages c"
    using p(1-4) by (simp_all add: size_defs)
  have "2 \<le> FLASH_NB c * PAGE_NB c" using assms by (simp add: cfg_wf_def)
  then have "2 \<le> nat (FLASH_NB c * PAGE_NB c)" by linarith
  then show "1 < block_pages c"
    using p(1-3) by (simp add: size_defs nat_mult_distrib)
  show "0 \<le> NR_PHY_PAGES c" "0 \<le> NR_RESERVED_PHY_PAGES c"
    unfolding p(6,7) using p(1,2,4) by simp_all
  show "blocks c * block_pages c < 2147483648" "nat (NR_PHY_PAGES c) = blocks c * block_pages c"
    using e p by linarith+
  show "nat (NR_RESERVED_PHY_PAGES c) = 4 * block_pages c"
    using r p(7) by linarith
qed

lemma size_le:
  assumes "cfg_wf c"
  shows "banks c < 2147483648" "pages c < 2147483648" "blocks c < 2147483648"
    "block_pages c < 2147483648"
proof -
  note w = cfg_wf_sizes[OF assms]
  have "block_pages c \<le> blocks c * block_pages c" "blocks c \<le> blocks c * block_pages c"
    "banks c \<le> block_pages c" "pages c \<le> block_pages c"
    using w by (auto simp: block_pages_def)
  with w(5) show "banks c < 2147483648" "pages c < 2147483648" "blocks c < 2147483648"
    "block_pages c < 2147483648" by linarith+
qed

lemma u32i_sizes:
  assumes "cfg_wf c"
  shows "unat (u32i (WAY_NB c * FLASH_NB c)) = banks c" "unat (u32i (PAGE_NB c)) = pages c"
    "unat (u32i (BLOCK_NB c)) = blocks c" "unat (u32i (WAY_NB c)) = 1"
    "unat (u32i (FLASH_NB c)) = banks c" "unat (u32i (WAY_NB c) * u32i (FLASH_NB c)) = banks c"
proof -
  have p: "0 < PAGE_NB c" "0 < FLASH_NB c" "WAY_NB c = 1" "7 \<le> BLOCK_NB c"
    using assms by (auto simp: cfg_wf_def)
  show "unat (u32i (WAY_NB c * FLASH_NB c)) = banks c" "unat (u32i (PAGE_NB c)) = pages c"
    "unat (u32i (BLOCK_NB c)) = blocks c" "unat (u32i (WAY_NB c)) = 1"
    "unat (u32i (FLASH_NB c)) = banks c"
    using p size_le[OF assms] by (subst unat_u32i; auto simp: size_defs nat_less_iff)+
  then show "unat (u32i (WAY_NB c) * u32i (FLASH_NB c)) = banks c" by (simp only: wi_hom_mult)
qed

subsection \<open>Addresses\<close>

lemma unat_calc_bank: "cfg_wf c \<Longrightarrow> unat (ftl_calc_bank c p) = unat p mod banks c"
  by (simp add: ftl_calc_bank_def unat_mod_distrib u32i_sizes)

lemma unat_calc_block: "cfg_wf c \<Longrightarrow> unat (ftl_calc_block c p) = unat p div block_pages c"
  by (simp add: ftl_calc_block_def unat_div_distrib u32i_sizes block_pages_def div_mult2_eq)

lemma unat_calc_page: "cfg_wf c \<Longrightarrow> unat (ftl_calc_page c p) = unat p div banks c mod pages c"
  by (simp add: ftl_calc_page_def unat_div_distrib unat_mod_distrib u32i_sizes)

lemma unat_block_first_page:
  assumes "cfg_wf c" "unat b \<le> blocks c"
  shows "unat (block_first_page c b) = unat b * block_pages c"
proof -
  have "unat b * block_pages c \<le> blocks c * block_pages c" using assms(2) by simp
  then have l: "unat b * block_pages c < 4294967296" using cfg_wf_sizes(5)[OF assms(1)] by linarith
  have "unat b * pages c \<le> unat b * block_pages c"
    using cfg_wf_sizes(1)[OF assms(1)] by (simp add: block_pages_def)
  then have m: "unat b * pages c < 4294967296" using l by linarith
  then have "unat (b * u32i (PAGE_NB c)) = unat b * pages c"
    by (subst unat_mult_id) (simp_all add: u32i_sizes assms(1))
  then have "unat (b * u32i (PAGE_NB c) * u32i (WAY_NB c)) = unat b * pages c"
    using u32i_sizes(4)[OF assms(1)] m by (subst unat_mult_id) auto
  then show ?thesis
    unfolding block_first_page_def using l
    by (subst unat_mult_id) (auto simp: u32i_sizes assms(1) block_pages_def ac_simps)
qed

text \<open>C13: A physical page number is exactly a triple of bank, super block and page: the three
  calculations stay within the geometry and the number can be put together again from them, so
  no two pages share a triple.\<close>

theorem ftl_calc_roundtrip:
  assumes "cfg_wf c" "int (unat p) < NR_PHY_PAGES c"
  shows "unat (ftl_calc_bank c p) < banks c \<and> unat (ftl_calc_block c p) < blocks c
    \<and> unat (ftl_calc_page c p) < pages c
    \<and> unat p = (unat (ftl_calc_block c p) * pages c + unat (ftl_calc_page c p)) * banks c
               + unat (ftl_calc_bank c p)"
proof -
  note w = cfg_wf_sizes[OF assms(1)]
  have "unat p < blocks c * block_pages c" using assms(2) w(6,8) by linarith
  then have "unat p div block_pages c < blocks c" by (simp add: less_mult_imp_div_less)
  moreover have "unat p div block_pages c * pages c + unat p div banks c mod pages c = unat p div banks c"
    by (simp add: block_pages_def div_mult2_eq)
  ultimately show ?thesis
    using w(1,2) by (simp add: unat_calc_bank unat_calc_block unat_calc_page assms(1))
qed

lemma small_sizes [simp]: "banks small_config = 2" "pages small_config = 4"
  "blocks small_config = 8" "block_pages small_config = 8"
  by (simp_all add: size_defs)

lemma ftl_calc_roundtrip_witness:
  "unat (ftl_calc_bank small_config 45) = 1 \<and> unat (ftl_calc_block small_config 45) = 5
   \<and> unat (ftl_calc_page small_config 45) = 2 \<and>
   unat (45::u32) = (unat (ftl_calc_block small_config 45) * 4 + unat (ftl_calc_page small_config 45)) * 2
     + unat (ftl_calc_bank small_config 45)"
  using ftl_calc_roundtrip[of small_config 45]
  by (simp add: unat_calc_bank unat_calc_block unat_calc_page)

subsection \<open>The bitmap as a set of super blocks\<close>

definition allocated :: "u32 \<Rightarrow> ftl_state \<Rightarrow> bool" where
  "allocated b s \<longleftrightarrow> ftl_get_free_blk_bitmap b s \<noteq> 0"

lemma GET_BLK_OFFSET_less: "GET_BLK_OFFSET b < 32"
  by (simp add: GET_BLK_OFFSET_def unat_mod_distrib)

lemma GET_BLK_inj: "GET_BLK_PAGENUM a = GET_BLK_PAGENUM b \<Longrightarrow> GET_BLK_OFFSET a = GET_BLK_OFFSET b \<Longrightarrow> a = b"
  unfolding GET_BLK_PAGENUM_def GET_BLK_OFFSET_def
  by (rule u32_eqI) (metis div_mult_mod_eq unat_div_distrib unat_mod_distrib)

lemma allocated_bit:
  "allocated b s \<longleftrightarrow> bit (free_blk_bitmap s (GET_BLK_PAGENUM b)) (GET_BLK_OFFSET b)"
  by (simp add: allocated_def ftl_get_free_blk_bitmap_def Let_def BIT_GET_bit GET_BLK_OFFSET_less)

lemma allocated_set: "allocated b (ftl_set_free_blk_bitmap a s) \<longleftrightarrow> b = a \<or> allocated b s"
  by (auto simp: allocated_bit ftl_set_free_blk_bitmap_def Let_def bit_BIT_SET GET_BLK_OFFSET_less
      dest: GET_BLK_inj)

lemma allocated_clear: "allocated b (ftl_clear_free_blk_bitmap a s) \<longleftrightarrow> b \<noteq> a \<and> allocated b s"
  by (auto simp: allocated_bit ftl_clear_free_blk_bitmap_def Let_def bit_BIT_CLEAR
      GET_BLK_OFFSET_less dest: GET_BLK_inj)

text \<open>A set of names with insertion and removal, the interface of the bitmap.\<close>

locale name_set =
  fixes mem :: "'a \<Rightarrow> 's \<Rightarrow> bool"
    and add :: "'a \<Rightarrow> 's \<Rightarrow> 's"
    and rem :: "'a \<Rightarrow> 's \<Rightarrow> 's"
  assumes mem_add: "mem b (add a s) \<longleftrightarrow> b = a \<or> mem b s"
    and mem_rem: "mem b (rem a s) \<longleftrightarrow> b \<noteq> a \<and> mem b s"
begin

lemma mem_add_list: "mem b (fold add xs s) \<longleftrightarrow> b \<in> set xs \<or> mem b s"
  by (induction xs arbitrary: s) (auto simp: mem_add)

lemma mem_rem_list: "mem b (fold rem xs s) \<longleftrightarrow> b \<notin> set xs \<and> mem b s"
  by (induction xs arbitrary: s) (auto simp: mem_rem)

lemma collect_add: "{b. mem b (add a s)} = insert a {b. mem b s}"
  by (auto simp: mem_add)

lemma collect_rem: "{b. mem b (rem a s)} = {b. mem b s} - {a}"
  by (auto simp: mem_rem)

end

interpretation bm: name_set allocated ftl_set_free_blk_bitmap ftl_clear_free_blk_bitmap
  by unfold_locales (rule allocated_set allocated_clear)+

text \<open>The bitmap holds a set of super blocks: setting and clearing a bit adds and removes
  exactly that block, and no two blocks share a bit of a word.\<close>

theorem free_blk_bitmap_set:
  "{b. allocated b (ftl_set_free_blk_bitmap a s)} = insert a {b. allocated b s}
   \<and> {b. allocated b (ftl_clear_free_blk_bitmap a s)} = {b. allocated b s} - {a}"
  using bm.collect_add bm.collect_rem by simp

subsection \<open>Taking a super block\<close>

definition next_block :: "config \<Rightarrow> nat \<Rightarrow> nat" where
  "next_block c r = (if blocks c \<le> r + 1 then 4 else r + 1)"

lemma next_block_range: "cfg_wf c \<Longrightarrow> r < blocks c \<Longrightarrow> next_block c r < blocks c"
  using cfg_wf_sizes(3)[of c] by (auto simp: next_block_def)

lemma next_block_ge: "4 \<le> r \<Longrightarrow> 4 \<le> next_block c r"
  by (auto simp: next_block_def)

lemma next_block_distinct:
  assumes "cfg_wf c" "4 \<le> r" "r < blocks c"
  shows "next_block c r \<noteq> r" "next_block c (next_block c r) \<noteq> r"
    "next_block c (next_block c r) \<noteq> next_block c r"
  using assms cfg_wf_sizes(3)[OF assms(1)] by (auto simp: next_block_def split: if_splits)

lemma unat_next_block:
  assumes "cfg_wf c" "unat r < blocks c"
  shows "unat (if u32i (BLOCK_NB c) \<le> r + 1 then u32i (NR_RESERVED_PHY_SUPER_BLOCKS c) else r + 1)
    = next_block c (unat r)"
proof -
  have "unat (r + 1) = unat r + 1" using assms(2) size_le(3)[OF assms(1)] by (intro unat_inc) simp
  then show ?thesis
    by (simp add: next_block_def word_le_nat_alt u32i_sizes assms(1) cfg_wf_sizes(10))
qed

lemma free_block_loop_Suc:
  assumes "cfg_wf c" "unat res < blocks c"
  shows "\<exists>r. unat r = next_block c (unat res) \<and>
    free_block_loop c m (Suc n) res =
      (if write_map_block_ptr m \<noteq> r \<and> write_block_ptr m \<noteq> r then Some r
       else free_block_loop c m n r)"
  using unat_next_block[OF assms]
  by (intro exI[of _ "if u32i (BLOCK_NB c) \<le> res + 1 then u32i (NR_RESERVED_PHY_SUPER_BLOCKS c)
      else res + 1"]) (simp only: free_block_loop.simps Let_def simp_thms)

lemma free_block_loop_finds:
  assumes "cfg_wf c" "4 \<le> unat res" "unat res < blocks c"
  shows "\<exists>r. free_block_loop c m (Suc (Suc (Suc n))) res = Some r \<and> 4 \<le> unat r \<and> unat r < blocks c
    \<and> write_map_block_ptr m \<noteq> r \<and> write_block_ptr m \<noteq> r"
proof -
  let ?n = "next_block c"
  obtain r1 where r1: "unat r1 = ?n (unat res)" "free_block_loop c m (Suc (Suc (Suc n))) res =
      (if write_map_block_ptr m \<noteq> r1 \<and> write_block_ptr m \<noteq> r1 then Some r1
       else free_block_loop c m (Suc (Suc n)) r1)"
    using free_block_loop_Suc[OF assms(1,3)] by blast
  have b1: "4 \<le> unat r1" "unat r1 < blocks c"
    using assms r1(1) next_block_range next_block_ge by auto
  obtain r2 where r2: "unat r2 = ?n (unat r1)" "free_block_loop c m (Suc (Suc n)) r1 =
      (if write_map_block_ptr m \<noteq> r2 \<and> write_block_ptr m \<noteq> r2 then Some r2
       else free_block_loop c m (Suc n) r2)"
    using free_block_loop_Suc[OF assms(1) b1(2)] by blast
  have b2: "4 \<le> unat r2" "unat r2 < blocks c"
    using assms b1 r2(1) next_block_range next_block_ge by auto
  obtain r3 where r3: "unat r3 = ?n (unat r2)" "free_block_loop c m (Suc n) r2 =
      (if write_map_block_ptr m \<noteq> r3 \<and> write_block_ptr m \<noteq> r3 then Some r3
       else free_block_loop c m n r3)"
    using free_block_loop_Suc[OF assms(1) b2(2)] by blast
  have b3: "4 \<le> unat r3" "unat r3 < blocks c"
    using assms b2 r3(1) next_block_range next_block_ge by auto
  have "r1 \<noteq> r2" "r1 \<noteq> r3" "r2 \<noteq> r3"
    using next_block_distinct[OF assms(1) b1] r2(1) r3(1) by auto
  then show ?thesis
    using r1(2) r2(2) r3(2) b1 b2 b3 by metis
qed

subsection \<open>The invariant of the write pointers\<close>

text \<open>\<open>ptr_in c b p\<close>: the pointer is in super block \<open>b\<close> or just behind its last page.\<close>

definition ptr_in :: "config \<Rightarrow> u32 \<Rightarrow> u32 \<Rightarrow> bool" where
  "ptr_in c b p \<longleftrightarrow> unat b * block_pages c \<le> unat p \<and> unat p \<le> (unat b + 1) * block_pages c"

definition data_block :: "config \<Rightarrow> u32 \<Rightarrow> bool" where
  "data_block c b \<longleftrightarrow> 4 \<le> unat b \<and> unat b < blocks c"

definition alloc_ok :: "config \<Rightarrow> ftl_metadata \<Rightarrow> bool" where
  "alloc_ok c m \<longleftrightarrow> data_block c (write_block_ptr m) \<and> data_block c (write_map_block_ptr m)
     \<and> data_block c (block_ptr m) \<and> write_block_ptr m \<noteq> write_map_block_ptr m
     \<and> ptr_in c (write_block_ptr m) (write_ptr m)
     \<and> ptr_in c (write_map_block_ptr m) (write_map_ptr m)
     \<and> unat (reserved_block_ptr m) < 4 \<and> 0 < reserved_write_ptr m
     \<and> ptr_in c (reserved_block_ptr m) (reserved_write_ptr m)"

lemma ftl_get_free_block_ok:
  assumes "cfg_wf c" "alloc_ok c (ftl_meta s)"
  shows "\<exists>r. ftl_get_free_block c s
      = (r, ftl_set_free_blk_bitmap r (upd_meta (block_ptr_update (\<lambda>_. r)) s))
    \<and> data_block c r \<and> r \<noteq> write_map_block_ptr (ftl_meta s) \<and> r \<noteq> write_block_ptr (ftl_meta s)"
proof -
  have "nat (BLOCK_NB c - NR_RESERVED_PHY_SUPER_BLOCKS c) = blocks c - 4"
    using cfg_wf_sizes(10)[OF assms(1)] by (simp add: blocks_def nat_diff_distrib')
  moreover obtain n where "blocks c - 4 = Suc (Suc (Suc n))"
    using le_Suc_ex[OF cfg_wf_sizes(3)[OF assms(1)]] by auto
  ultimately show ?thesis
    using free_block_loop_finds[OF assms(1), of "block_ptr (ftl_meta s)" "ftl_meta s" n] assms(2)
    by (auto simp: alloc_ok_def data_block_def ftl_get_free_block_def)
qed

lemma ptr_in_block:
  assumes "cfg_wf c" "ptr_in c b p"
  shows "ftl_calc_block c p = b \<longleftrightarrow> unat p < (unat b + 1) * block_pages c"
proof -
  have pos: "0 < block_pages c" using cfg_wf_sizes(4)[OF assms(1)] .
  have "unat p div block_pages c = unat b \<longleftrightarrow> unat p < (unat b + 1) * block_pages c"
  proof
    assume "unat p div block_pages c = unat b"
    then show "unat p < (unat b + 1) * block_pages c"
      using pos by (metis Suc_eq_plus1 div_less_iff_less_mult lessI)
  next
    assume "unat p < (unat b + 1) * block_pages c"
    then show "unat p div block_pages c = unat b"
      using assms(2) unfolding ptr_in_def by (intro div_nat_eqI) (auto simp: mult.commute)
  qed
  then show ?thesis by (simp add: word_unat_eq_iff unat_calc_block assms(1))
qed

lemma block_end_le: "unat b < blocks c \<Longrightarrow> (unat b + 1) * block_pages c \<le> blocks c * block_pages c"
  by (intro mult_le_mono1) simp

lemma ptr_in_bound:
  assumes "cfg_wf c" "ptr_in c b p" "unat b < blocks c"
  shows "unat p \<le> blocks c * block_pages c" "\<not> NR_PHY_PAGES c < int (unat p)"
proof -
  show "unat p \<le> blocks c * block_pages c"
    using assms(2) block_end_le[OF assms(3)] by (simp add: ptr_in_def)
  then show "\<not> NR_PHY_PAGES c < int (unat p)"
    using cfg_wf_sizes(6,8)[OF assms(1)] by linarith
qed

lemma ptr_in_inc:
  assumes "cfg_wf c" "ptr_in c b p" "unat b < blocks c" "unat p < (unat b + 1) * block_pages c"
  shows "ptr_in c b (p + 1)" "unat (p + 1) = unat p + 1"
proof -
  show i: "unat (p + 1) = unat p + 1"
    using ptr_in_bound(1)[OF assms(1-3)] cfg_wf_sizes(5)[OF assms(1)] by (intro unat_inc) simp
  show "ptr_in c b (p + 1)" using assms(2,4) by (simp add: ptr_in_def i)
qed

lemma ptr_in_first:
  assumes "cfg_wf c" "unat b < blocks c"
  shows "ptr_in c b (block_first_page c b)" "unat (block_first_page c b) < (unat b + 1) * block_pages c"
  using unat_block_first_page[OF assms(1), of b] assms(2) cfg_wf_sizes(4)[OF assms(1)]
  by (simp_all add: ptr_in_def)

lemma page_in_block:
  assumes "cfg_wf c" "unat b < blocks c" "ptr_in c b p" "unat p < (unat b + 1) * block_pages c"
  shows "ftl_calc_block c p = b" "unat p < blocks c * block_pages c"
  using assms ptr_in_block[of c b p] block_end_le[of b c] by auto

subsection \<open>Taking a page\<close>

text \<open>What the three allocators promise of the page \<open>p\<close>, the block \<open>b\<close> and the pointer \<open>q\<close> they
  leave behind.\<close>

definition page_given :: "config \<Rightarrow> u32 \<Rightarrow> u32 \<Rightarrow> u32 \<Rightarrow> bool" where
  "page_given c p b q \<longleftrightarrow> ftl_calc_block c p = b \<and> unat p < blocks c * block_pages c
     \<and> q = p + 1 \<and> unat q = unat p + 1 \<and> ptr_in c b q"

lemma page_givenI:
  assumes "cfg_wf c" "unat b < blocks c" "ptr_in c b p" "unat p < (unat b + 1) * block_pages c"
  shows "page_given c p b (p + 1)"
  using page_in_block[OF assms] ptr_in_inc[OF assms(1,3,2,4)] by (simp add: page_given_def)

lemma ftl_get_free_page_same:
  assumes "cfg_wf c" "alloc_ok c (ftl_meta s)"
    and "unat (write_ptr (ftl_meta s)) < (unat (write_block_ptr (ftl_meta s)) + 1) * block_pages c"
  shows "ftl_get_free_page c s = (write_ptr (ftl_meta s),
      s\<lparr>ftl_meta := (ftl_meta s)\<lparr>write_ptr := write_ptr (ftl_meta s) + 1\<rparr>,
        free_page_cnt := free_page_cnt s - 1\<rparr>)"
proof -
  have p: "ptr_in c (write_block_ptr (ftl_meta s)) (write_ptr (ftl_meta s))"
    "unat (write_block_ptr (ftl_meta s)) < blocks c"
    using assms(2) by (auto simp: alloc_ok_def data_block_def)
  show ?thesis
    using ptr_in_bound(2)[OF assms(1) p] ptr_in_block[OF assms(1) p(1)] assms(3)
    by (simp add: ftl_get_free_page_def Let_def upd_meta_def)
qed

lemma ftl_get_free_page_next:
  assumes "cfg_wf c" "alloc_ok c (ftl_meta s)"
    and "\<not> unat (write_ptr (ftl_meta s)) < (unat (write_block_ptr (ftl_meta s)) + 1) * block_pages c"
  shows "\<exists>r. data_block c r \<and> r \<noteq> write_map_block_ptr (ftl_meta s) \<and> r \<noteq> write_block_ptr (ftl_meta s)
    \<and> ftl_get_free_page c s = (block_first_page c r,
      (ftl_set_free_blk_bitmap r s)\<lparr>ftl_meta := (ftl_meta s)\<lparr>block_ptr := r, write_block_ptr := r,
          write_ptr := block_first_page c r + 1\<rparr>,
        free_page_cnt := free_page_cnt s - 1\<rparr>)"
proof -
  have p: "ptr_in c (write_block_ptr (ftl_meta s)) (write_ptr (ftl_meta s))"
    using assms(2) by (auto simp: alloc_ok_def)
  obtain r where r: "ftl_get_free_block c s
      = (r, ftl_set_free_blk_bitmap r (upd_meta (block_ptr_update (\<lambda>_. r)) s))"
    "data_block c r" "r \<noteq> write_map_block_ptr (ftl_meta s)" "r \<noteq> write_block_ptr (ftl_meta s)"
    using ftl_get_free_block_ok[OF assms(1,2)] by blast
  have "r \<noteq> M1" using r(2) size_le(3)[OF assms(1)] by (auto simp: data_block_def)
  then show ?thesis
    using r ptr_in_block[OF assms(1) p] assms(3)
    by (auto simp: ftl_get_free_page_def Let_def upd_meta_def ftl_set_free_blk_bitmap_def)
qed

text \<open>C6: Taking a page for data never fails in a well-formed drive. The page lies in the super
  block that is now the active one, the pointer moves just behind it, and one page less is
  counted as free. While the active super block has pages left nothing else changes; after
  its last page a new one is opened outside the reserved area, different from the one just
  filled and from the one of the map pages, and marked in the bitmap. The other two write
  pointers never move, and the invariant that keeps the three areas apart is preserved.\<close>

theorem ftl_get_free_page_ok:
  assumes "cfg_wf c" "alloc_ok c (ftl_meta s)" "ftl_get_free_page c s = (p, t)"
  shows "page_given c p (write_block_ptr (ftl_meta t)) (write_ptr (ftl_meta t))
    \<and> alloc_ok c (ftl_meta t) \<and> free_page_cnt t = free_page_cnt s - 1
    \<and> write_map_block_ptr (ftl_meta t) = write_map_block_ptr (ftl_meta s)
    \<and> write_map_ptr (ftl_meta t) = write_map_ptr (ftl_meta s)
    \<and> (if ftl_calc_block c (write_ptr (ftl_meta s)) = write_block_ptr (ftl_meta s)
       then p = write_ptr (ftl_meta s) \<and> write_block_ptr (ftl_meta t) = write_block_ptr (ftl_meta s)
         \<and> (\<forall>b. allocated b t = allocated b s)
       else p = block_first_page c (write_block_ptr (ftl_meta t))
         \<and> write_block_ptr (ftl_meta t) \<noteq> write_block_ptr (ftl_meta s)
         \<and> (\<forall>b. allocated b t \<longleftrightarrow> b = write_block_ptr (ftl_meta t) \<or> allocated b s))"
proof -
  let ?m = "ftl_meta s"
  let ?b = "write_block_ptr ?m"
  have inv: "ptr_in c ?b (write_ptr ?m)" "unat ?b < blocks c"
    using assms(2) by (auto simp: alloc_ok_def data_block_def)
  note blk = ptr_in_block[OF assms(1) inv(1)]
  show ?thesis
  proof (cases "unat (write_ptr ?m) < (unat ?b + 1) * block_pages c")
    case True
    note g = page_givenI[OF assms(1) inv(2,1) True]
    show ?thesis
      using ftl_get_free_page_same[OF assms(1,2) True] assms(2,3) g True blk
      by (auto simp: alloc_ok_def page_given_def allocated_bit)
  next
    case False
    obtain r where r: "data_block c r" "r \<noteq> write_map_block_ptr ?m" "r \<noteq> ?b"
      "ftl_get_free_page c s = (block_first_page c r,
        (ftl_set_free_blk_bitmap r s)\<lparr>ftl_meta := ?m\<lparr>block_ptr := r, write_block_ptr := r,
            write_ptr := block_first_page c r + 1\<rparr>, free_page_cnt := free_page_cnt s - 1\<rparr>)"
      using ftl_get_free_page_next[OF assms(1,2) False] by blast
    have rb: "unat r < blocks c" using r(1) by (simp add: data_block_def)
    note g = page_givenI[OF assms(1) rb ptr_in_first[OF assms(1) rb]]
    have t: "free_blk_bitmap t = free_blk_bitmap (ftl_set_free_blk_bitmap r s)"
      "ftl_meta t = ?m\<lparr>block_ptr := r, write_block_ptr := r, write_ptr := block_first_page c r + 1\<rparr>"
      "free_page_cnt t = free_page_cnt s - 1" "p = block_first_page c r"
      using r(4) assms(3) by (auto simp: ftl_set_free_blk_bitmap_def Let_def)
    then have "allocated b t \<longleftrightarrow> b = r \<or> allocated b s" for b
      using bm.mem_add[of b r s] by (simp add: allocated_bit)
    then show ?thesis
      using t g r(1-3) assms(2) False blk by (auto simp: alloc_ok_def page_given_def)
  qed
qed

text \<open>The state \<open>ftl_init\<close> leaves, from cleared memory, is the concrete state of the witnesses.\<close>

definition zero_state :: ftl_state where
  "zero_state = \<lparr>region_table = (\<lambda>_. zero_region), region_idx_table = (\<lambda>_. 0),
     cache_map = (\<lambda>_. ZeroLine), cache_idx_table = (\<lambda>_. zero_cache_idx), cache_wp = 0,
     clock_hand = 0, ftl_meta = zero_metadata, free_blk_bitmap = (\<lambda>_. 0), free_page_cnt = 0,
     write_add_count = 0, change_pagemap_count = 0, step_flag = 0, vt_blk_num = 0,
     super_block_meta = (\<lambda>_. 0), map_store = [], io_trace = []\<rparr>"

lemma ftl_init_meta:
  assumes "cfg_wf c"
  shows "ftl_meta (ftl_init c s) = \<lparr>reserved_block_ptr = 0, block_ptr = 6, write_block_ptr = 4,
     write_map_block_ptr = 5, reserved_write_ptr = 1, write_ptr = block_first_page c 4,
     write_map_ptr = block_first_page c 5\<rparr>"
  by (simp add: ftl_init_def Let_def cfg_wf_sizes(10)[OF assms])

lemma ftl_init_alloc:
  assumes "cfg_wf c"
  shows "alloc_ok c (ftl_meta (ftl_init c s))"
proof -
  have b: "unat (4::u32) < blocks c" "unat (5::u32) < blocks c" "6 < blocks c" "4 < blocks c"
    "5 < blocks c"
    using cfg_wf_sizes(3)[OF assms] by auto
  have "ptr_in c 0 1"
    using cfg_wf_sizes(4)[OF assms] by (simp add: ptr_in_def)
  then show ?thesis
    using ptr_in_first(1)[OF assms b(1)] ptr_in_first(1)[OF assms b(2)] b
    by (simp add: ftl_init_meta[OF assms] alloc_ok_def data_block_def)
qed

text \<open>C18: \<open>ftl_init\<close> establishes the invariant of the write pointers, and from a cleared bitmap
  exactly the first reserved super block and the two active ones are marked.\<close>

theorem ftl_init_ok:
  assumes "cfg_wf c" "\<And>b. \<not> allocated b s"
  shows "alloc_ok c (ftl_meta (ftl_init c s)) \<and> {b. allocated b (ftl_init c s)} = {0, 4, 5}"
proof -
  have "alloc_ok c (ftl_meta (ftl_init c s))" by (rule ftl_init_alloc[OF assms(1)])
  moreover have "allocated b (ftl_init c s) \<longleftrightarrow> b = 5 \<or> b = 4 \<or> b = 0 \<or> allocated b s" for b
  proof -
    have "allocated b (ftl_init c s) = allocated b (ftl_set_free_blk_bitmap 5
        (ftl_set_free_blk_bitmap 4 (ftl_set_free_blk_bitmap 0 s)))"
      by (simp add: allocated_bit ftl_init_def Let_def cfg_wf_sizes(10)[OF assms(1)]
            ftl_set_free_blk_bitmap_def)
    then show ?thesis by (simp add: bm.mem_add)
  qed
  ultimately show ?thesis using assms(2) by auto
qed

lemma zero_state_allocated: "\<not> allocated b zero_state"
  by (simp add: allocated_bit zero_state_def)

lemma ftl_init_ok_witness:
  "alloc_ok small_config (ftl_meta (ftl_init small_config zero_state))
   \<and> {b. allocated b (ftl_init small_config zero_state)} = {0, 4, 5}"
  using ftl_init_ok[OF small_config_wf zero_state_allocated] .

lemma small_init_alloc: "alloc_ok small_config (ftl_meta (ftl_init small_config zero_state))"
  by (rule ftl_init_alloc[OF small_config_wf])

lemma ftl_get_free_page_ok_witness:
  "free_page_cnt (snd (ftl_get_free_page small_config (ftl_init small_config zero_state))) = -1
   \<and> alloc_ok small_config
       (ftl_meta (snd (ftl_get_free_page small_config (ftl_init small_config zero_state))))"
  using ftl_get_free_page_ok[OF small_config_wf small_init_alloc surjective_pairing]
  by (simp add: ftl_init_def Let_def zero_state_def ftl_set_free_blk_bitmap_def)

subsection \<open>Map pages and reserved pages\<close>

lemma ftl_get_free_map_page_ok:
  assumes "cfg_wf c" "alloc_ok c (ftl_meta s)"
  shows "\<exists>p m B. ftl_get_free_map_page c s = (p, s\<lparr>ftl_meta := m, free_blk_bitmap := B\<rparr>)
    \<and> alloc_ok c m \<and> page_given c p (write_map_block_ptr m) (write_map_ptr m)
    \<and> 4 * block_pages c \<le> unat p
    \<and> write_block_ptr m = write_block_ptr (ftl_meta s) \<and> write_ptr m = write_ptr (ftl_meta s)"
proof -
  let ?m = "ftl_meta s"
  let ?b = "write_map_block_ptr ?m"
  have inv: "ptr_in c ?b (write_map_ptr ?m)" "unat ?b < blocks c" "4 \<le> unat ?b"
    using assms(2) by (auto simp: alloc_ok_def data_block_def)
  note blk = ptr_in_block[OF assms(1) inv(1)]
  show ?thesis
  proof (cases "unat (write_map_ptr ?m) < (unat ?b + 1) * block_pages c")
    case True
    note g = page_givenI[OF assms(1) inv(2,1) True]
    have "4 * block_pages c \<le> unat (write_map_ptr ?m)"
      using inv(1,3) by (auto simp: ptr_in_def intro: order_trans[OF mult_le_mono1])
    with g show ?thesis
      using True blk assms(2) ptr_in_bound(2)[OF assms(1) inv(1,2)]
      by (intro exI[of _ "write_map_ptr ?m"] exI[of _ "?m\<lparr>write_map_ptr := write_map_ptr ?m + 1\<rparr>"]
            exI[of _ "free_blk_bitmap s"])
         (auto simp: ftl_get_free_map_page_def Let_def upd_meta_def alloc_ok_def page_given_def)
  next
    case False
    obtain r where r: "ftl_get_free_block c s
        = (r, ftl_set_free_blk_bitmap r (upd_meta (block_ptr_update (\<lambda>_. r)) s))"
      "data_block c r" "r \<noteq> ?b" "r \<noteq> write_block_ptr ?m"
      using ftl_get_free_block_ok[OF assms(1,2)] by blast
    have rb: "unat r < blocks c" "r \<noteq> M1"
      using r(2) size_le(3)[OF assms(1)] by (auto simp: data_block_def)
    note g = page_givenI[OF assms(1) rb(1) ptr_in_first[OF assms(1) rb(1)]]
    have "4 * block_pages c \<le> unat (block_first_page c r)"
      using r(2) by (simp add: unat_block_first_page assms(1) data_block_def)
    with g show ?thesis
      using False blk assms(2) r rb
      by (intro exI[of _ "block_first_page c r"]
            exI[of _ "?m\<lparr>block_ptr := r, write_map_block_ptr := r,
                         write_map_ptr := block_first_page c r + 1\<rparr>"]
            exI[of _ "free_blk_bitmap (ftl_set_free_blk_bitmap r s)"])
         (auto simp: ftl_get_free_map_page_def Let_def upd_meta_def alloc_ok_def page_given_def
            ftl_set_free_blk_bitmap_def)
  qed
qed

lemma ftl_get_free_page_reserved_ok:
  assumes "cfg_wf c" "alloc_ok c (ftl_meta s)"
  shows "\<exists>p m B. ftl_get_free_page_reserved c s = (p, s\<lparr>ftl_meta := m, free_blk_bitmap := B\<rparr>)
    \<and> alloc_ok c m \<and> page_given c p (reserved_block_ptr m) (reserved_write_ptr m)
    \<and> 0 < unat p \<and> unat p < 4 * block_pages c
    \<and> write_block_ptr m = write_block_ptr (ftl_meta s) \<and> write_ptr m = write_ptr (ftl_meta s)
    \<and> write_map_block_ptr m = write_map_block_ptr (ftl_meta s)
    \<and> write_map_ptr m = write_map_ptr (ftl_meta s)"
proof -
  let ?m = "ftl_meta s"
  let ?b = "reserved_block_ptr ?m"
  have inv: "ptr_in c ?b (reserved_write_ptr ?m)" "unat ?b < blocks c" "unat ?b < 4"
    "0 < reserved_write_ptr ?m"
    using assms cfg_wf_sizes(3)[OF assms(1)] by (auto simp: alloc_ok_def)
  note blk = ptr_in_block[OF assms(1) inv(1)]
  have le4: "(unat b + 1) * block_pages c \<le> 4 * block_pages c" if "unat b < 4" for b :: u32
    using that by (intro mult_le_mono1) simp
  show ?thesis
  proof (cases "unat (reserved_write_ptr ?m) < (unat ?b + 1) * block_pages c")
    case True
    note g = page_givenI[OF assms(1) inv(2,1) True]
    have lt: "unat (reserved_write_ptr ?m) < 4 * block_pages c" using True le4[OF inv(3)] by linarith
    then have "\<not> NR_RESERVED_PHY_PAGES c < int (unat (reserved_write_ptr ?m))"
      using cfg_wf_sizes(7,9)[OF assms(1)] by linarith
    moreover have "0 < reserved_write_ptr ?m + 1"
      using g by (auto simp: page_given_def word_less_nat_alt)
    ultimately show ?thesis
      using g True blk assms(2) lt inv(4)
      by (intro exI[of _ "reserved_write_ptr ?m"]
            exI[of _ "?m\<lparr>reserved_write_ptr := reserved_write_ptr ?m + 1\<rparr>"]
            exI[of _ "free_blk_bitmap s"])
         (auto simp: ftl_get_free_page_reserved_def Let_def upd_meta_def alloc_ok_def page_given_def
            word_less_nat_alt)
  next
    case False
    define r where "r = (if u32i (NR_RESERVED_PHY_SUPER_BLOCKS c) \<le> ?b + 1 then 0 else ?b + 1)"
    have r4: "unat r < 4" using inv(3) unat_inc[of ?b] cfg_wf_sizes(10)[OF assms(1)]
      by (auto simp: r_def word_le_nat_alt)
    have rb: "unat r < blocks c" "r \<noteq> M1" using r4 cfg_wf_sizes(3)[OF assms(1)] by auto
    define p where "p = (if r = 0 then 1 else block_first_page c r)"
    have pr: "ptr_in c r p" "unat p < (unat r + 1) * block_pages c" "p \<noteq> 0"
    proof -
      have "ptr_in c r p \<and> unat p < (unat r + 1) * block_pages c \<and> p \<noteq> 0"
      proof (cases "r = 0")
        case True
        then show ?thesis using cfg_wf_sizes(11)[OF assms(1)] by (simp add: p_def ptr_in_def)
      next
        case False
        then have "0 < unat r" by (simp add: unat_gt_0)
        then have "0 < unat (block_first_page c r)"
          using rb cfg_wf_sizes(4)[OF assms(1)] by (simp add: unat_block_first_page assms(1))
        then show ?thesis
          using False ptr_in_first[OF assms(1) rb(1)] by (auto simp: p_def)
      qed
      then show "ptr_in c r p" "unat p < (unat r + 1) * block_pages c" "p \<noteq> 0" by auto
    qed
    note g = page_givenI[OF assms(1) rb(1) pr(1,2)]
    have q: "0 < p + 1" "0 < unat p"
      using g pr(3) by (auto simp: page_given_def word_less_nat_alt unat_gt_0)
    have q4: "unat p < 4 * block_pages c" using pr(2) le4[OF r4] by (rule order_less_le_trans)
    have eq: "ftl_get_free_page_reserved c s = (p, s\<lparr>ftl_meta := ?m\<lparr>reserved_block_ptr := r,
        reserved_write_ptr := p + 1\<rparr>, free_blk_bitmap := free_blk_bitmap (ftl_set_free_blk_bitmap r s)\<rparr>)"
      using False blk rb(2) cfg_wf_sizes(10)[OF assms(1)]
      by (simp add: ftl_get_free_page_reserved_def ftl_get_free_block_reserved_def Let_def
            upd_meta_def ftl_set_free_blk_bitmap_def r_def p_def)
    show ?thesis
      unfolding eq using g q q4 r4 assms(2)
      by (intro exI[of _ p] exI[of _ "?m\<lparr>reserved_block_ptr := r, reserved_write_ptr := p + 1\<rparr>"]
            exI[of _ "free_blk_bitmap (ftl_set_free_blk_bitmap r s)"])
         (auto simp: alloc_ok_def page_given_def)
  qed
qed

text \<open>The choice of the next super block does not look at the bitmap: a block that still holds
  live pages is handed out like any other.\<close>

lemma free_block_ignores_bitmap:
  "fst (ftl_get_free_block c (s\<lparr>free_blk_bitmap := B\<rparr>)) = fst (ftl_get_free_block c s)"
  by (simp add: ftl_get_free_block_def split: option.splits)

subsection \<open>Consecutive pages\<close>

text \<open>Several pages in a row, as \<open>FTL_WRITE\<close> takes them.\<close>

fun take_pages :: "config \<Rightarrow> nat \<Rightarrow> ftl_state \<Rightarrow> u32 list \<times> ftl_state" where
  "take_pages c 0 s = ([], s)"
| "take_pages c (Suc n) s =
     (let (p, s1) = ftl_get_free_page c s; (ps, s2) = take_pages c n s1 in (p # ps, s2))"

definition room_left :: "config \<Rightarrow> ftl_state \<Rightarrow> nat" where
  "room_left c s = (unat (write_block_ptr (ftl_meta s)) + 1) * block_pages c - unat (write_ptr (ftl_meta s))"

lemma take_pages_run:
  assumes "cfg_wf c" "alloc_ok c (ftl_meta s)" "n \<le> room_left c s"
  shows "take_pages c n s = (map (\<lambda>i. write_ptr (ftl_meta s) + of_nat i) [0 ..< n],
      s\<lparr>ftl_meta := (ftl_meta s)\<lparr>write_ptr := write_ptr (ftl_meta s) + of_nat n\<rparr>,
        free_page_cnt := free_page_cnt s - int n\<rparr>)"
  using assms(2,3)
proof (induction n arbitrary: s)
  case 0
  then show ?case by simp
next
  case (Suc n)
  let ?w = "write_ptr (ftl_meta s)"
  have lt: "unat ?w < (unat (write_block_ptr (ftl_meta s)) + 1) * block_pages c"
    using Suc.prems(2) by (simp add: room_left_def)
  let ?s1 = "s\<lparr>ftl_meta := (ftl_meta s)\<lparr>write_ptr := ?w + 1\<rparr>, free_page_cnt := free_page_cnt s - 1\<rparr>"
  have inv: "ptr_in c (write_block_ptr (ftl_meta s)) ?w" "unat (write_block_ptr (ftl_meta s)) < blocks c"
    using Suc.prems(1) by (auto simp: alloc_ok_def data_block_def)
  note i = ptr_in_inc[OF assms(1) inv lt]
  have "alloc_ok c (ftl_meta ?s1)" using Suc.prems(1) i(1) by (simp add: alloc_ok_def)
  moreover have "n \<le> room_left c ?s1" using Suc.prems(2) i(2) by (simp add: room_left_def)
  ultimately have "take_pages c n ?s1 = (map (\<lambda>i. (?w + 1) + of_nat i) [0 ..< n],
      ?s1\<lparr>ftl_meta := (ftl_meta s)\<lparr>write_ptr := (?w + 1) + of_nat n\<rparr>,
          free_page_cnt := free_page_cnt s - 1 - int n\<rparr>)"
    using Suc.IH[of ?s1] by simp
  moreover have "map (\<lambda>i. ?w + of_nat i) [0 ..< Suc n] = ?w # map (\<lambda>i. (?w + 1) + of_nat i) [0 ..< n]"
    by (subst upt_conv_Cons) (auto simp: map_Suc_upt[symmetric] o_def ac_simps simp del: upt_Suc)
  ultimately show ?case
    using ftl_get_free_page_same[OF assms(1) Suc.prems(1) lt] by (simp add: ac_simps)
qed

end
