(* ===== verification/ClockSpec.thy ===== *)
theory ClockSpec
  imports FtlAllocSpec MapCache
begin

text \<open>
  The clock algorithm of \<open>cache_select_victim\<close> is second chance: from the line behind the hand
  on, skipping the line to avoid, the first line whose bit is clear is taken, the bits passed on
  the way are cleared, and when every bit is set the search comes round to where it began.
\<close>

text \<open>The lines in the order the hand visits them.\<close>

definition clock_order :: "nat \<Rightarrow> nat option \<Rightarrow> nat \<Rightarrow> nat list" where
  "clock_order n avoid hand =
     filter (\<lambda>i. avoid \<noteq> Some i) (map (\<lambda>j. (hand + 1 + j) mod n) [0 ..< n])"

fun clock_path :: "nat \<Rightarrow> nat option \<Rightarrow> nat \<Rightarrow> nat list \<Rightarrow> bool" where
  "clock_path n avoid idx [] = True"
| "clock_path n avoid idx (x # xs) \<longleftrightarrow> clock_advance n avoid idx = x \<and> clock_path n avoid x xs"

lemma clock_path_append:
  "clock_path n avoid idx (xs @ ys) \<longleftrightarrow>
     clock_path n avoid idx xs \<and> clock_path n avoid (last (idx # xs)) ys"
  by (induction xs arbitrary: idx) auto

lemma clock_next_mod: "idx < n \<Longrightarrow> clock_next n idx = (idx + 1) mod n"
  by (auto simp: clock_next_def)

lemma clock_path_skip:
  assumes "2 \<le> n" "idx < n" "avoid = Some (clock_next n idx)"
  shows "clock_advance n avoid (clock_next n idx) = clock_advance n avoid idx"
  using assms by (auto simp: clock_advance_def clock_next_def)

lemma clock_path_cong:
  "clock_advance n avoid idx = clock_advance n avoid idx' \<Longrightarrow>
    clock_path n avoid idx xs = clock_path n avoid idx' xs"
  by (cases xs) auto

lemma clock_path_order_aux:
  assumes "2 \<le> n" "idx < n"
  shows "clock_path n avoid idx
    (filter (\<lambda>i. avoid \<noteq> Some i) (map (\<lambda>j. (idx + 1 + j) mod n) [0 ..< m]))"
  using assms(2)
proof (induction m arbitrary: idx)
  case 0
  show ?case by simp
next
  case (Suc m)
  let ?x = "(idx + 1) mod n"
  have x: "?x < n" "clock_next n idx = ?x" using assms(1) Suc.prems clock_next_mod by simp_all
  have "map (\<lambda>j. (idx + 1 + j) mod n) [0 ..< Suc m] = ?x # map (\<lambda>j. (?x + 1 + j) mod n) [0 ..< m]"
  proof -
    have "(?x + 1 + j) mod n = (idx + 1 + Suc j) mod n" for j
      by (metis add.assoc add_Suc_right mod_add_left_eq plus_1_eq_Suc Suc_eq_plus1)
    then show ?thesis
      by (subst upt_conv_Cons, simp) (simp add: map_Suc_upt[symmetric] o_def del: upt_Suc)
  qed
  moreover note Suc.IH[OF x(1)]
  moreover have "clock_advance n avoid idx = ?x" if "avoid \<noteq> Some ?x"
    using that x(2) by (simp add: clock_advance_def Let_def)
  moreover have "clock_advance n avoid ?x = clock_advance n avoid idx" if "avoid = Some ?x"
    using clock_path_skip[OF assms(1) Suc.prems, of avoid] that x(2) by simp
  ultimately show ?case by (auto intro: clock_path_cong[THEN iffD1])
qed

lemma clock_path_order: "2 \<le> n \<Longrightarrow> hand < n \<Longrightarrow> clock_path n avoid hand (clock_order n avoid hand)"
  unfolding clock_order_def by (rule clock_path_order_aux)

lemma clock_order_full: "map (\<lambda>j. (hand + 1 + j) mod n) [0 ..< n] = rotate (hand + 1) [0 ..< n]"
proof (rule nth_equalityI)
  fix i assume "i < length (map (\<lambda>j. (hand + 1 + j) mod n) [0 ..< n])"
  then show "map (\<lambda>j. (hand + 1 + j) mod n) [0 ..< n] ! i = rotate (hand + 1) [0 ..< n] ! i"
    using nth_rotate[of i "[0 ..< n]" "hand + 1"] by (simp add: add.commute)
qed simp

lemma set_clock_order: "set (clock_order n avoid hand) = {i. i < n \<and> avoid \<noteq> Some i}"
  unfolding clock_order_def clock_order_full by auto

lemma distinct_clock_order: "distinct (clock_order n avoid hand)"
  unfolding clock_order_def clock_order_full by simp

lemma clock_order_nonempty: "2 \<le> n \<Longrightarrow> clock_order n avoid hand \<noteq> []"
proof
  assume "2 \<le> n" "clock_order n avoid hand = []"
  then have "{i. i < n \<and> avoid \<noteq> Some i} = {}" using set_clock_order[of n avoid hand] by simp
  then have "avoid = Some 0" "avoid = Some 1" using \<open>2 \<le> n\<close> by auto
  then show False by simp
qed

definition clear_bits :: "nat set \<Rightarrow> (nat \<Rightarrow> cache_idx_entry) \<Rightarrow> (nat \<Rightarrow> cache_idx_entry)" where
  "clear_bits K tbl = (\<lambda>k. if k \<in> K then (tbl k)\<lparr>clock_bit := False\<rparr> else tbl k)"

lemma clear_bits_empty [simp]: "clear_bits {} tbl = tbl"
  by (simp add: clear_bits_def)

lemma clear_bits_insert: "clear_bits K (tbl(i := (tbl i)\<lparr>clock_bit := False\<rparr>)) = clear_bits (insert i K) tbl"
  by (auto simp: clear_bits_def fun_eq_iff)

lemma clock_bit_clear [simp]: "clock_bit (clear_bits K tbl k) \<longleftrightarrow> k \<notin> K \<and> clock_bit (tbl k)"
  by (simp add: clear_bits_def)

text \<open>Running over set bits.\<close>

lemma victim_loop_pass:
  assumes "clock_path n avoid idx xs" "distinct xs" "\<forall>x \<in> set xs. clock_bit (tbl x)"
  shows "victim_loop n avoid idx tbl = victim_loop n avoid (last (idx # xs)) (clear_bits (set xs) tbl)"
  using assms
proof (induction xs arbitrary: idx tbl)
  case Nil
  then show ?case by simp
next
  case (Cons x xs)
  have "victim_loop n avoid idx tbl = victim_loop n avoid x (tbl(x := (tbl x)\<lparr>clock_bit := False\<rparr>))"
    using Cons.prems by (subst victim_loop.simps) (simp add: Let_def)
  also have "\<dots> = victim_loop n avoid (last (x # xs))
      (clear_bits (set xs) (tbl(x := (tbl x)\<lparr>clock_bit := False\<rparr>)))"
    using Cons.prems by (intro Cons.IH) auto
  finally show ?case by (simp add: clear_bits_insert)
qed

lemma victim_loop_stop:
  "clock_advance n avoid idx = i \<Longrightarrow> \<not> clock_bit (tbl i) \<Longrightarrow>
    victim_loop n avoid idx tbl = Some (i, tbl(i := (tbl i)\<lparr>clock_bit := True\<rparr>))"
  by (subst victim_loop.simps) (simp add: Let_def)

text \<open>After the whole order the hand is back in front of its first line.\<close>

lemma clock_order_wraps:
  assumes "2 \<le> n" "hand < n"
  shows "clock_advance n avoid (last (hand # clock_order n avoid hand)) = hd (clock_order n avoid hand)"
proof -
  let ?L = "\<lambda>m. filter (\<lambda>i. avoid \<noteq> Some i) (map (\<lambda>j. (hand + 1 + j) mod n) [0 ..< m])"
  have "[0 ..< n + n] = [0 ..< n] @ map (\<lambda>j. j + n) [0 ..< n]"
    by (metis add_0 map_add_upt upt_add_eq_append zero_le)
  moreover have "(hand + 1 + (j + n)) mod n = (hand + 1 + j) mod n" for j
    by (metis add.assoc mod_add_self2)
  ultimately have "?L (n + n) = clock_order n avoid hand @ clock_order n avoid hand"
    by (simp only: clock_order_def map_append filter_append list.map_comp o_def)
  then have "clock_path n avoid (last (hand # clock_order n avoid hand)) (clock_order n avoid hand)"
    using clock_path_order_aux[OF assms, of avoid "n + n"] by (simp add: clock_path_append)
  then show ?thesis using clock_order_nonempty[OF assms(1), of avoid hand]
    by (cases "clock_order n avoid hand") auto
qed

text \<open>The reference: the line taken and the lines passed.\<close>

definition second_chance :: "nat list \<Rightarrow> (nat \<Rightarrow> bool) \<Rightarrow> nat \<times> nat list" where
  "second_chance order bits =
     (case dropWhile bits order of
        [] \<Rightarrow> (hd order, order)
      | i # _ \<Rightarrow> (i, takeWhile bits order))"

lemma victim_loop_second_chance:
  assumes "2 \<le> n" "hand < n"
    and "second_chance (clock_order n avoid hand) (\<lambda>i. clock_bit (tbl i)) = (i, passed)"
  shows "victim_loop n avoid hand tbl =
    Some (i, (clear_bits (set passed) tbl)(i := (tbl i)\<lparr>clock_bit := True\<rparr>))"
proof -
  let ?o = "clock_order n avoid hand" and ?b = "\<lambda>i. clock_bit (tbl i)"
  note path = clock_path_order[OF assms(1,2), of avoid]
  have bump: "(clear_bits K tbl)(i := (clear_bits K tbl i)\<lparr>clock_bit := True\<rparr>)
      = (clear_bits K tbl)(i := (tbl i)\<lparr>clock_bit := True\<rparr>)" for K
    by (simp add: clear_bits_def)
  show ?thesis
  proof (cases "dropWhile ?b ?o")
    case Nil
    then have all: "\<forall>x \<in> set ?o. ?b x" by (simp add: dropWhile_eq_Nil_conv)
    have i: "i = hd ?o" "passed = ?o" using assms(3) Nil by (auto simp: second_chance_def)
    have "hd ?o \<in> set ?o" using clock_order_nonempty[OF assms(1)] by simp
    then have "\<not> clock_bit (clear_bits (set ?o) tbl (hd ?o))" by simp
    then show ?thesis
      using victim_loop_pass[OF path distinct_clock_order all] bump
        victim_loop_stop[OF clock_order_wraps[OF assms(1,2)], of "clear_bits (set ?o) tbl" avoid]
      unfolding i by simp
  next
    case (Cons y ys)
    have i: "i = y" "passed = takeWhile ?b ?o" using assms(3) Cons by (simp_all add: second_chance_def)
    have o: "?o = passed @ y # ys" using takeWhile_dropWhile_id[of ?b ?o] Cons i(2) by simp
    have y: "\<not> ?b y" using hd_dropWhile[of ?b ?o] Cons by simp
    have p: "clock_path n avoid hand passed" "clock_advance n avoid (last (hand # passed)) = y"
      using path unfolding o clock_path_append by auto
    have "distinct passed" using distinct_clock_order[of n avoid hand] unfolding o by simp
    moreover have "\<forall>x \<in> set passed. ?b x" using i(2) by (auto dest: set_takeWhileD)
    ultimately show ?thesis
      using victim_loop_pass[OF p(1), of tbl] bump y i(1)
        victim_loop_stop[OF p(2), of "clear_bits (set passed) tbl"]
      by simp
  qed
qed

lemma second_chance_mem:
  assumes "order \<noteq> []"
  shows "fst (second_chance order bits) \<in> set order
    \<and> set (snd (second_chance order bits)) \<subseteq> set order"
proof (cases "dropWhile bits order")
  case (Cons i xs)
  then have "i \<in> set order" by (metis list.set_intros(1) set_dropWhileD)
  with Cons show ?thesis by (auto simp: second_chance_def dest: set_takeWhileD)
next
  case Nil
  show ?thesis unfolding second_chance_def Nil using assms by simp
qed

lemma cache_select_victim_eq:
  assumes "2 \<le> CACHE_IDX_SIZE c" "int (clock_hand s) < CACHE_IDX_SIZE c"
    and "second_chance (clock_order (nat (CACHE_IDX_SIZE c)) avoid (clock_hand s))
           (\<lambda>i. clock_bit (cache_idx_table s i)) = (i, passed)"
  shows "int i < CACHE_IDX_SIZE c \<and> avoid \<noteq> Some i \<and>
    cache_select_victim c avoid s = Some (i, s\<lparr>cache_idx_table := (\<lambda>k. (cache_idx_table s k)
        \<lparr>clock_bit := k = i \<or> k \<notin> set passed \<and> clock_bit (cache_idx_table s k)\<rparr>), clock_hand := i\<rparr>)"
proof -
  let ?n = "nat (CACHE_IDX_SIZE c)"
  have n: "2 \<le> ?n" "clock_hand s < ?n" using assms(1,2) by simp_all
  have "i \<in> set (clock_order ?n avoid (clock_hand s))"
    using second_chance_mem[OF clock_order_nonempty[OF n(1)]] assms(3) by (metis fst_conv)
  moreover have "(clear_bits (set passed) (cache_idx_table s))(i := (cache_idx_table s i)\<lparr>clock_bit := True\<rparr>)
      = (\<lambda>k. (cache_idx_table s k)
          \<lparr>clock_bit := k = i \<or> k \<notin> set passed \<and> clock_bit (cache_idx_table s k)\<rparr>)"
    by (auto simp: fun_eq_iff clear_bits_def)
  ultimately show ?thesis
    using victim_loop_second_chance[OF n assms(3)] assms(1)
    by (auto simp add: cache_select_victim_def set_clock_order)
qed

text \<open>C17: The clock always finds a line, in a cache of at least two lines whatever the line to
  avoid: it is second chance over the lines in the order of the hand. The line lies in the
  cache and is not the one to avoid; only clock bits change, namely those passed are cleared and
  the one of the line is set, and the hand stays on it.\<close>

theorem cache_select_victim_second_chance:
  assumes "2 \<le> CACHE_IDX_SIZE c" "int (clock_hand s) < CACHE_IDX_SIZE c"
    and "second_chance (clock_order (nat (CACHE_IDX_SIZE c)) avoid (clock_hand s))
           (\<lambda>i. clock_bit (cache_idx_table s i)) = (i, passed)"
  shows "int i < CACHE_IDX_SIZE c \<and> avoid \<noteq> Some i \<and>
    cache_select_victim c avoid s = Some (i, s\<lparr>cache_idx_table := (\<lambda>k. (cache_idx_table s k)
        \<lparr>clock_bit := k = i \<or> k \<notin> set passed \<and> clock_bit (cache_idx_table s k)\<rparr>), clock_hand := i\<rparr>)"
  using cache_select_victim_eq[OF assms] .

lemma cache_select_victim_second_chance_witness:
  "\<exists>t. cache_select_victim small_config (Some 1) zero_state = Some (2, t)"
proof -
  have "second_chance (clock_order (nat (CACHE_IDX_SIZE small_config)) (Some 1) (clock_hand zero_state))
      (\<lambda>i. clock_bit (cache_idx_table zero_state i)) = (2, [])"
    by code_simp
  from cache_select_victim_second_chance[OF _ _ this] show ?thesis
    by (simp add: small_config_fields zero_state_def)
qed

end
