(* ===== verification/LeafLists.thy ===== *)
theory LeafLists
  imports Extents
begin

text \<open>
  What a block of leaves means: a list of extents, ascending and disjoint, and the page it gives
  for a logical page. Inserting an extent is specified here on lists; the theorem that the list
  then maps the new pages to the new place and every other page where it was before is
  independent of how the code moves leaves about.
\<close>

definition lf_end :: "leaf \<Rightarrow> nat" where
  "lf_end x = lf_lpn x + lf_size x"

definition covers :: "leaf \<Rightarrow> nat \<Rightarrow> bool" where
  "covers x p \<longleftrightarrow> lf_lpn x \<le> p \<and> p < lf_end x"

definition leaf_ppn :: "leaf \<Rightarrow> nat \<Rightarrow> u32" where
  "leaf_ppn x p = lf_ppn x + of_nat (p - lf_lpn x)"

fun lmap :: "leaf list \<Rightarrow> nat \<Rightarrow> u32 option" where
  "lmap [] p = None"
| "lmap (x # xs) p = (if covers x p then Some (leaf_ppn x p) else lmap xs p)"

definition leaf_ok :: "leaf \<Rightarrow> bool" where
  "leaf_ok x \<longleftrightarrow> lf_used x \<and> 0 < lf_size x \<and> lf_end x \<le> 2048"

definition ext_ok :: "leaf list \<Rightarrow> bool" where
  "ext_ok xs \<longleftrightarrow> (\<forall>x \<in> set xs. leaf_ok x) \<and> sorted_wrt (\<lambda>a b. lf_end a \<le> lf_lpn b) xs"

lemma ext_ok_Cons: "ext_ok (x # xs) \<longleftrightarrow> leaf_ok x \<and> (\<forall>y \<in> set xs. lf_end x \<le> lf_lpn y) \<and> ext_ok xs"
  by (auto simp: ext_ok_def)

lemma ext_ok_append:
  "ext_ok (xs @ ys) \<longleftrightarrow> ext_ok xs \<and> ext_ok ys \<and> (\<forall>x \<in> set xs. \<forall>y \<in> set ys. lf_end x \<le> lf_lpn y)"
  by (auto simp: ext_ok_def sorted_wrt_append)

lemma ext_ok_Nil [simp]: "ext_ok []"
  by (simp add: ext_ok_def)

lemma leaf_ok_less: "leaf_ok x \<Longrightarrow> lf_lpn x < lf_end x"
  by (simp add: leaf_ok_def lf_end_def)

lemma lmap_append: "lmap (xs @ ys) p = (case lmap xs p of None \<Rightarrow> lmap ys p | Some v \<Rightarrow> Some v)"
  by (induction xs) auto

lemma lmap_None: "(\<And>x. x \<in> set xs \<Longrightarrow> \<not> covers x p) \<Longrightarrow> lmap xs p = None"
  by (induction xs) auto

lemma lmap_before: "(\<And>x. x \<in> set xs \<Longrightarrow> p < lf_lpn x) \<Longrightarrow> lmap xs p = None"
  by (rule lmap_None) (auto simp: covers_def dest: leD)

lemma lmap_behind: "(\<And>x. x \<in> set xs \<Longrightarrow> lf_end x \<le> p) \<Longrightarrow> lmap xs p = None"
  by (rule lmap_None) (auto simp: covers_def dest: leD)

subsection \<open>Cutting extents\<close>

definition cut_end :: "nat \<Rightarrow> leaf \<Rightarrow> leaf" where
  "cut_end e x = x\<lparr>lf_size := e - lf_lpn x\<rparr>"

definition cut_front :: "nat \<Rightarrow> leaf \<Rightarrow> leaf" where
  "cut_front e x = x\<lparr>lf_ppn := lf_ppn x + of_nat (e - lf_lpn x), lf_lpn := e, lf_size := lf_end x - e\<rparr>"

lemma cut_end_simps [simp]:
  "lf_lpn (cut_end e x) = lf_lpn x" "lf_ppn (cut_end e x) = lf_ppn x" "lf_used (cut_end e x) = lf_used x"
  "lf_lpn x \<le> e \<Longrightarrow> lf_end (cut_end e x) = e" "lf_size (cut_end e x) = e - lf_lpn x"
  by (auto simp: cut_end_def lf_end_def)

lemma cut_front_simps [simp]:
  "lf_lpn (cut_front e x) = e" "lf_used (cut_front e x) = lf_used x"
  "e \<le> lf_end x \<Longrightarrow> lf_end (cut_front e x) = lf_end x" "lf_size (cut_front e x) = lf_end x - e"
  by (auto simp: cut_front_def lf_end_def)

lemma leaf_ppn_cut_end [simp]: "leaf_ppn (cut_end e x) p = leaf_ppn x p"
  by (simp add: leaf_ppn_def)

lemma leaf_ppn_cut_front: "lf_lpn x \<le> e \<Longrightarrow> e \<le> p \<Longrightarrow> leaf_ppn (cut_front e x) p = leaf_ppn x p"
  by (simp add: leaf_ppn_def cut_front_def add.assoc flip: of_nat_add)

lemma leaf_ok_cut_end: "leaf_ok x \<Longrightarrow> lf_lpn x < e \<Longrightarrow> e \<le> lf_end x \<Longrightarrow> leaf_ok (cut_end e x)"
  by (auto simp: leaf_ok_def)

lemma leaf_ok_cut_front: "leaf_ok x \<Longrightarrow> e < lf_end x \<Longrightarrow> leaf_ok (cut_front e x)"
  by (auto simp: leaf_ok_def)

text \<open>The bit fields hold what a cut stores.\<close>

lemma trim_leaf_front_cut:
  assumes "leaf_ok x" "lf_lpn x \<le> e" "e < lf_end x"
  shows "trim_leaf_front e x = cut_front e x"
proof -
  have "int e < 65536" "int (lf_end x) - int e < 32768" "e \<le> 2048"
    using assms by (auto simp: leaf_ok_def lf_end_def)
  then show ?thesis
    using assms by (auto simp: trim_leaf_front_def cut_front_def fld_simps lf_end_def
        nat_diff_distrib of_nat_diff)
qed

subsection \<open>The tail behind a new extent\<close>

fun align_tail :: "nat \<Rightarrow> leaf list \<Rightarrow> leaf list" where
  "align_tail e [] = []"
| "align_tail e (x # xs) =
     (if e \<le> lf_lpn x then x # xs
      else if lf_end x \<le> e then align_tail e xs
      else cut_front e x # xs)"

lemma align_tail_ok: "ext_ok xs \<Longrightarrow> ext_ok (align_tail e xs)"
  by (induction xs) (auto simp: ext_ok_Cons leaf_ok_cut_front)

lemma align_tail_start: "ext_ok xs \<Longrightarrow> y \<in> set (align_tail e xs) \<Longrightarrow> e \<le> lf_lpn y"
  by (induction xs) (force simp: ext_ok_Cons split: if_splits dest: leaf_ok_less)+

lemma align_tail_end: "ext_ok xs \<Longrightarrow> y \<in> set (align_tail e xs) \<Longrightarrow> \<exists>x \<in> set xs. lf_end y = lf_end x"
  by (induction xs) (auto simp: ext_ok_Cons split: if_splits)

lemma align_tail_length: "length (align_tail e xs) \<le> length xs"
  by (induction xs) (auto simp: le_Suc_eq)

lemma lmap_align_tail: "ext_ok xs \<Longrightarrow> e \<le> p \<Longrightarrow> lmap (align_tail e xs) p = lmap xs p"
proof (induction xs)
  case Nil
  then show ?case by simp
next
  case (Cons x xs)
  then have "covers (cut_front e x) p = covers x p" if "\<not> e \<le> lf_lpn x" "\<not> lf_end x \<le> e"
    using that by (auto simp: covers_def)
  with Cons show ?case by (auto simp: ext_ok_Cons covers_def leaf_ppn_cut_front)
qed

subsection \<open>The front before a new extent\<close>

text \<open>\<open>front_cut new xs\<close> is the front without what the new extent hides of its last extent, and
  \<open>front_rest new xs\<close> the end of that extent when it reaches beyond the new one.\<close>

definition front_cut :: "leaf \<Rightarrow> leaf list \<Rightarrow> leaf list" where
  "front_cut new xs =
     (if xs \<noteq> [] \<and> lf_lpn new < lf_end (last xs)
      then butlast xs @ [cut_end (lf_lpn new) (last xs)] else xs)"

definition front_rest :: "leaf \<Rightarrow> leaf list \<Rightarrow> leaf list" where
  "front_rest new xs =
     (if xs \<noteq> [] \<and> lf_end new < lf_end (last xs) then [cut_front (lf_end new) (last xs)] else [])"

definition insert_ext :: "leaf \<Rightarrow> leaf list \<Rightarrow> leaf list \<Rightarrow> leaf list" where
  "insert_ext new A B = front_cut new A @ new # front_rest new A @ align_tail (lf_end new) B"

lemma insert_ext_ok:
  assumes "ext_ok (A @ B)" "leaf_ok new" "\<forall>x \<in> set A. lf_lpn x < lf_lpn new"
    "\<forall>x \<in> set B. lf_lpn new \<le> lf_lpn x"
  shows "ext_ok (insert_ext new A B)"
proof -
  have t: "ext_ok (align_tail (lf_end new) B)" "\<forall>y \<in> set (align_tail (lf_end new) B). lf_end new \<le> lf_lpn y"
    using assms(1) align_tail_ok align_tail_start by (auto simp: ext_ok_append)
  show ?thesis
  proof (cases A rule: rev_cases)
    case Nil
    then show ?thesis
      using assms t by (simp add: insert_ext_def front_cut_def front_rest_def ext_ok_Cons)
  next
    case (snoc A' a)
    have a: "leaf_ok a" "\<forall>x \<in> set A'. lf_end x \<le> lf_lpn a" "ext_ok A'" "\<forall>y \<in> set B. lf_end a \<le> lf_lpn y"
      "lf_lpn a < lf_lpn new"
      using assms snoc by (auto simp: ext_ok_append ext_ok_Cons)
    have r: "\<forall>y \<in> set (align_tail (lf_end new) B). lf_end a \<le> lf_lpn y" if "lf_end new < lf_end a"
    proof
      fix y assume "y \<in> set (align_tail (lf_end new) B)"
      moreover have "align_tail (lf_end new) B = B"
        using a(4) that by (cases B) auto
      ultimately show "lf_end a \<le> lf_lpn y" using a(4) by auto
    qed
    have n: "lf_lpn new < lf_end new" using assms(2) by (rule leaf_ok_less)
    have q: "\<forall>x \<in> set A'. \<forall>y \<in> set (align_tail (lf_end new) B). lf_end x \<le> lf_lpn y"
      using a(2,5) t(2) n by (meson less_imp_le order_trans)
    show ?thesis
      unfolding insert_ext_def front_cut_def front_rest_def snoc
      using a t r n q assms(2)
      by (auto simp: ext_ok_append ext_ok_Cons leaf_ok_cut_end leaf_ok_cut_front
          intro: order_trans less_imp_le dest: leaf_ok_less)
  qed
qed

lemma lmap_snoc_behind: "(\<And>x. x \<in> set xs \<Longrightarrow> lf_end x \<le> p) \<Longrightarrow>
    lmap (xs @ ys) p = lmap ys p"
  by (simp add: lmap_append lmap_behind)

lemma lmap_snoc_before: "(\<And>x. x \<in> set ys \<Longrightarrow> p < lf_lpn x) \<Longrightarrow>
    lmap (xs @ ys) p = lmap xs p"
  by (simp add: lmap_append lmap_before split: option.splits)

lemma lmap_front_cut:
  assumes "ext_ok A" "\<forall>x \<in> set A. lf_lpn x < lf_lpn new" "p < lf_lpn new"
  shows "lmap (front_cut new A) p = lmap A p"
proof (cases A rule: rev_cases)
  case (snoc A' a)
  have "covers (cut_end (lf_lpn new) a) p = covers a p" if "lf_lpn new < lf_end a"
    using assms snoc that by (auto simp: covers_def)
  then have "lf_lpn new < lf_end a \<Longrightarrow> lmap [cut_end (lf_lpn new) a] p = lmap [a] p" by simp
  then show ?thesis using snoc by (simp add: front_cut_def lmap_append split: option.split)
qed (simp add: front_cut_def)

lemma front_cut_end: "ext_ok A \<Longrightarrow> \<forall>x \<in> set A. lf_lpn x < lf_lpn new \<Longrightarrow>
    x \<in> set (front_cut new A) \<Longrightarrow> lf_end x \<le> lf_lpn new"
  by (cases A rule: rev_cases)
     (auto simp: front_cut_def ext_ok_append ext_ok_Cons split: if_splits
       intro: order_trans less_imp_le)

lemma lmap_front_rest:
  assumes "ext_ok A" "\<forall>x \<in> set A. lf_lpn x < lf_lpn new" "lf_lpn new < lf_end new" "lf_end new \<le> p"
  shows "lmap (front_rest new A) p = lmap A p"
proof (cases A rule: rev_cases)
  case (snoc A' a)
  have b: "lf_end x \<le> p" if "x \<in> set A'" for x
    using assms snoc that by (fastforce simp: ext_ok_append ext_ok_Cons)
  show ?thesis
  proof (cases "lf_end new < lf_end a")
    case True
    then have "covers (cut_front (lf_end new) a) p = covers a p"
      using assms snoc by (auto simp: covers_def)
    then show ?thesis using True snoc assms b
      by (simp add: front_rest_def lmap_snoc_behind leaf_ppn_cut_front)
  next
    case False
    then have "lmap A p = None" using snoc b assms by (intro lmap_behind) auto
    with False snoc show ?thesis by (simp add: front_rest_def)
  qed
qed (simp add: front_rest_def)

text \<open>An inserted extent maps its own pages and changes the place of no other page.\<close>

lemma lmap_insert_ext:
  assumes "ext_ok (A @ B)" "leaf_ok new" "\<forall>x \<in> set A. lf_lpn x < lf_lpn new"
    "\<forall>x \<in> set B. lf_lpn new \<le> lf_lpn x"
  shows "lmap (insert_ext new A B) p = (if covers new p then Some (leaf_ppn new p) else lmap (A @ B) p)"
proof -
  have A: "ext_ok A" and B: "ext_ok B" using assms(1) by (auto simp: ext_ok_append)
  have n: "lf_lpn new < lf_end new" using assms(2) by (rule leaf_ok_less)
  consider "p < lf_lpn new" | "covers new p" | "lf_end new \<le> p" by (force simp: covers_def)
  then show ?thesis
  proof cases
    case 1
    have "lmap (insert_ext new A B) p = lmap (front_cut new A) p"
      unfolding insert_ext_def
      using align_tail_start[OF B] 1 n
      by (intro lmap_snoc_before) (fastforce simp: front_rest_def)
    moreover have "lmap (A @ B) p = lmap A p"
      using 1 assms(4) by (intro lmap_snoc_before) auto
    ultimately show ?thesis
      using 1 lmap_front_cut[OF A assms(3)] by (simp add: covers_def)
  next
    case 2
    then show ?thesis
      using front_cut_end[OF A assms(3)] lmap_snoc_behind[of "front_cut new A" p]
      by (fastforce simp: insert_ext_def covers_def)
  next
    case 3
    have "lmap (insert_ext new A B) p = lmap (new # front_rest new A @ align_tail (lf_end new) B) p"
      unfolding insert_ext_def using front_cut_end[OF A assms(3)] n 3
      by (intro lmap_snoc_behind) (meson less_imp_le order_trans)
    also have "\<dots> = lmap (front_rest new A @ align_tail (lf_end new) B) p"
      using 3 by (simp add: covers_def)
    also have "\<dots> = lmap (A @ B) p"
      using lmap_front_rest[OF A assms(3) n 3] lmap_align_tail[OF B 3]
      by (simp add: lmap_append split: option.split)
    finally show ?thesis using 3 by (simp add: covers_def)
  qed
qed

end
