(* ===== verification/ExtentsSpec.thy ===== *)
theory ExtentsSpec
  imports LeafLists PolyMap
begin

text \<open>
  The functions on one block of six leaves implement the operations on lists of extents.
  \<open>blk ls lb xs\<close>: the used leaves of the block at \<open>lb\<close> are \<open>xs\<close>, in front, and the others are
  unused and empty.
\<close>

definition blk :: "(nat \<Rightarrow> leaf) \<Rightarrow> nat \<Rightarrow> leaf list \<Rightarrow> bool" where
  "blk ls lb xs \<longleftrightarrow> length xs \<le> 6 \<and> (\<forall>x \<in> set xs. lf_used x)
     \<and> (\<forall>k < 6. if k < length xs then ls (lb + k) = xs ! k
               else \<not> lf_used (ls (lb + k)) \<and> lf_size (ls (lb + k)) = 0)"

text \<open>Two arrays that differ at most inside the block.\<close>

definition same_outside :: "nat \<Rightarrow> (nat \<Rightarrow> leaf) \<Rightarrow> (nat \<Rightarrow> leaf) \<Rightarrow> bool" where
  "same_outside lb ls ls' \<longleftrightarrow> (\<forall>k. k < lb \<or> lb + 6 \<le> k \<longrightarrow> ls' k = ls k)"

lemma same_outside_refl [simp]: "same_outside lb ls ls"
  by (simp add: same_outside_def)

lemma same_outside_trans: "same_outside lb a b \<Longrightarrow> same_outside lb b c \<Longrightarrow> same_outside lb a c"
  by (simp add: same_outside_def)

lemma same_outside_upd [simp]: "k < 6 \<Longrightarrow> same_outside lb ls (ls(lb + k := x))"
  by (auto simp: same_outside_def)

lemma blk_nth: "blk ls lb xs \<Longrightarrow> k < length xs \<Longrightarrow> ls (lb + k) = xs ! k"
  by (auto simp: blk_def dest: less_le_trans)

lemma blk_used: "blk ls lb xs \<Longrightarrow> k < 6 \<Longrightarrow> lf_used (ls (lb + k)) \<longleftrightarrow> k < length xs"
  by (cases "k < length xs") (auto simp: blk_def)

lemma blk_free: "blk ls lb xs \<Longrightarrow> length xs \<le> k \<Longrightarrow> k < 6 \<Longrightarrow>
    \<not> lf_used (ls (lb + k)) \<and> lf_size (ls (lb + k)) = 0"
  by (auto simp: blk_def dest: leD)

lemma blkI:
  assumes "length xs \<le> 6" "\<And>x. x \<in> set xs \<Longrightarrow> lf_used x"
    and "\<And>k. k < length xs \<Longrightarrow> ls (lb + k) = xs ! k"
    and "\<And>k. length xs \<le> k \<Longrightarrow> k < 6 \<Longrightarrow> \<not> lf_used (ls (lb + k)) \<and> lf_size (ls (lb + k)) = 0"
  shows "blk ls lb xs"
  using assms by (auto simp: blk_def)

lemma blk_length: "blk ls lb xs \<Longrightarrow> length xs \<le> 6"
  by (simp add: blk_def)

lemma blk_set: "blk ls lb xs \<Longrightarrow> k < length xs \<Longrightarrow> lf_used x \<Longrightarrow> blk (ls(lb + k := x)) lb (xs[k := x])"
  by (auto simp: blk_def nth_list_update dest!: set_update_subset_insert[THEN subsetD])

lemma blk_append: "blk ls lb xs \<Longrightarrow> length xs < 6 \<Longrightarrow> lf_used x \<Longrightarrow>
    blk (ls(lb + length xs := x)) lb (xs @ [x])"
  by (auto simp: blk_def nth_append less_Suc_eq)

subsection \<open>Shifting\<close>

lemma move_back_loop_eq:
  "move_back_loop lb l n ls =
    (\<lambda>j. if lb + l < j \<and> j \<le> lb + l + n \<and> lf_used (ls (j - 1)) then ls (j - 1) else ls j)"
proof (induction n arbitrary: ls)
  case 0
  show ?case by (auto simp: fun_eq_iff)
next
  case (Suc n)
  show ?case by (rule ext) (auto simp: Suc.IH)
qed

lemma move_back_blk:
  assumes "blk ls lb xs" "length xs \<le> 5" "l < length xs" "lf_used x"
  shows "blk ((pm_move_back_lnode lb l ls)(lb + l := x)) lb (take l xs @ x # drop l xs)
    \<and> same_outside lb ls ((pm_move_back_lnode lb l ls)(lb + l := x))"
proof -
  let ?m = "move_back_loop lb l (LEAF_NODE_SIZE - l) ls"
  have used: "lf_used (ls (lb + k)) \<longleftrightarrow> k < length xs" if "k < 6" for k
    using blk_used[OF assms(1) that] .
  have m: "?m (lb + k) = (if l < k \<and> k \<le> length xs then xs ! (k - 1) else ls (lb + k))" if "k < 6" for k
  proof (cases "l < k")
    case True
    then have k: "lb + k - 1 = lb + (k - 1)" by simp
    show ?thesis
      using True that assms(2,3) used[of "k - 1"] blk_nth[OF assms(1), of "k - 1"]
      unfolding move_back_loop_eq k by (auto simp: LEAF_NODE_SIZE_def)
  qed (simp add: move_back_loop_eq)
  have o: "?m j = ls j" if "j < lb \<or> lb + 6 \<le> j" for j
  proof -
    have "\<not> lf_used (ls (lb + 5))" using used[of 5] assms(2) by simp
    then show ?thesis using that assms(2,3)
      by (cases "j = lb + 6") (auto simp: move_back_loop_eq LEAF_NODE_SIZE_def add.commute[of 5])
  qed
  have e: "(pm_move_back_lnode lb l ls)(lb + l := x) = ?m(lb + l := x)"
    using assms(2,3) by (auto simp: pm_move_back_lnode_def LEAF_NODE_SIZE_def Let_def)
  have "blk (?m(lb + l := x)) lb (take l xs @ x # drop l xs)"
  proof (rule blkI)
    show "(?m(lb + l := x)) (lb + k) = (take l xs @ x # drop l xs) ! k"
      if "k < length (take l xs @ x # drop l xs)" for k
      using that assms(2,3) m[of k] blk_nth[OF assms(1), of k]
      by (cases k l rule: linorder_cases) (auto simp: nth_append nth_Cons')
    show "\<not> lf_used ((?m(lb + l := x)) (lb + k)) \<and> lf_size ((?m(lb + l := x)) (lb + k)) = 0"
      if "length (take l xs @ x # drop l xs) \<le> k" "k < 6" for k
      using that assms(3) m[of k] blk_free[OF assms(1), of k] by auto
  qed (use assms in \<open>auto simp: blk_def dest: in_set_takeD in_set_dropD\<close>)
  moreover have "same_outside lb ls (?m(lb + l := x))"
    using o assms(2,3) by (auto simp: same_outside_def)
  ultimately show ?thesis unfolding e ..
qed

lemma move_back_end:
  assumes "blk ls lb xs" "length xs \<le> 5"
  shows "pm_move_back_lnode lb (length xs) ls = ls"
proof -
  have "\<not> lf_used (ls (j - 1))" if "lb + length xs < j" "j \<le> lb + 6" for j
  proof -
    have "j - 1 = lb + (j - 1 - lb)" "length xs \<le> j - 1 - lb" "j - 1 - lb < 6" using that by auto
    then show ?thesis using blk_free[OF assms(1), of "j - 1 - lb"] by metis
  qed
  then have "move_back_loop lb (length xs) (6 - length xs) ls = ls"
    using assms(2) by (auto simp: move_back_loop_eq fun_eq_iff)
  then show ?thesis
    using blk_used[OF assms(1), of "length xs"] assms(2)
    by (simp add: pm_move_back_lnode_def LEAF_NODE_SIZE_def)
qed

text \<open>Making room and filling it, at any position.\<close>

lemma insert_blk:
  assumes "blk ls lb xs" "length xs \<le> 5" "l \<le> length xs" "lf_used x"
  shows "blk ((pm_move_back_lnode lb l ls)(lb + l := x)) lb (take l xs @ x # drop l xs)
    \<and> same_outside lb ls ((pm_move_back_lnode lb l ls)(lb + l := x))"
proof (cases "l < length xs")
  case True
  then show ?thesis using move_back_blk assms by blast
next
  case False
  then show ?thesis
    using assms move_back_end[OF assms(1,2)] blk_append[OF assms(1)] by simp
qed

lemma move_forward_loop_eq:
  assumes "\<And>k. i \<le> k \<Longrightarrow> k \<le> i + n \<Longrightarrow> lf_used (ls (lb + k)) \<longleftrightarrow> k < m" "i < m"
  shows "move_forward_loop lb i n ls =
    ((\<lambda>j. if lb + i \<le> j \<and> j < lb + min m (i + n) then ls (j + 1) else ls j), lb + min m (i + n))"
  using assms
proof (induction n arbitrary: i ls)
  case 0
  then show ?case by (auto simp: fun_eq_iff)
next
  case (Suc n)
  let ?ls = "ls(lb + i := ls (lb + i + 1))"
  show ?case
  proof (cases "i + 1 < m")
    case False
    then have "m = i + 1" "\<not> lf_used (ls (lb + i + 1))" using Suc.prems(2) Suc.prems(1)[of "i + 1"] by auto
    then show ?thesis by (auto simp: Let_def fun_eq_iff le_less_Suc_eq)
  next
    case True
    have u: "lf_used (ls (lb + i + 1))" using True Suc.prems(1)[of "i + 1"] by simp
    have "lf_used (?ls (lb + k)) \<longleftrightarrow> k < m" if "i + 1 \<le> k" "k \<le> i + 1 + n" for k
      using that Suc.prems(1)[of k] by auto
    from Suc.IH[OF this True] u
    have "move_forward_loop lb i (Suc n) ls =
      ((\<lambda>j. if lb + (i + 1) \<le> j \<and> j < lb + min m (i + 1 + n) then ?ls (j + 1) else ?ls j),
       lb + min m (i + 1 + n))"
      by (simp only: move_forward_loop.simps Let_def) simp
    moreover have "(\<lambda>j. if lb + (i + 1) \<le> j \<and> j < lb + min m (i + 1 + n) then ?ls (j + 1) else ?ls j)
      = (\<lambda>j. if lb + i \<le> j \<and> j < lb + min m (i + Suc n) then ls (j + 1) else ls j)"
      using True by (auto simp: fun_eq_iff)
    ultimately show ?thesis by simp
  qed
qed

lemma move_forward_blk:
  assumes "blk ls lb xs" "l < length xs"
  shows "\<exists>ls'. pm_move_forward_lnode lb l ls = Some ls' \<and> same_outside lb ls ls'
    \<and> blk ls' lb (take l xs @ drop (Suc l) xs)"
proof -
  let ?n = "LEAF_NODE_SIZE - 1 - l"
  have l: "l < 6" "length xs \<le> 6" using assms blk_length by fastforce+
  have "lf_used (ls (lb + k)) \<longleftrightarrow> k < length xs" if "l \<le> k" "k \<le> l + ?n" for k
    using that l blk_used[OF assms(1), of k] by (simp add: LEAF_NODE_SIZE_def)
  note loop = move_forward_loop_eq[OF this assms(2)]
  have mn: "min (length xs) (l + ?n) = (if length xs = 6 then 5 else length xs)"
    using l by (auto simp: LEAF_NODE_SIZE_def)
  let ?ls = "\<lambda>j. if lb + l \<le> j \<and> j < lb + (if length xs = 6 then 5 else length xs) then ls (j + 1) else ls j"
  let ?r = "if length xs = 6 then ?ls(lb + 5 := free_leaf) else ?ls"
  have "pm_move_forward_lnode lb l ls = Some ?r"
    using l loop blk_used[OF assms(1), of 5] blk_used[OF assms(1), of "length xs"]
    by (auto simp: pm_move_forward_lnode_def LEAF_NODE_SIZE_def mn[unfolded LEAF_NODE_SIZE_def])
  moreover have "same_outside lb ls ?r" using l by (auto simp: same_outside_def)
  moreover have "blk ?r lb (take l xs @ drop (Suc l) xs)"
  proof (rule blkI)
    let ?xs = "take l xs @ drop (Suc l) xs"
    have len: "length ?xs = length xs - 1" using assms(2) by simp
    show "?r (lb + k) = ?xs ! k" if "k < length ?xs" for k
      using that assms(2) l blk_nth[OF assms(1), of k] blk_nth[OF assms(1), of "Suc k"]
      by (auto simp: nth_append)
    show "\<not> lf_used (?r (lb + k)) \<and> lf_size (?r (lb + k)) = 0" if "length ?xs \<le> k" "k < 6" for k
      using that assms(2) l blk_free[OF assms(1), of k] blk_free[OF assms(1), of "Suc k"] len
      by (auto simp: free_leaf_def zero_leaf_def)
  qed (use assms in \<open>auto simp: blk_def dest: in_set_takeD in_set_dropD\<close>)
  ultimately show ?thesis by blast
qed

subsection \<open>Finding the place of a new extent\<close>

lemma scan_leaves_blk:
  assumes "blk ls lb xs" "l + n = 6" "l \<le> length xs"
  shows "scan_leaves ls lb lpn sz l n =
    (l + length (takeWhile (\<lambda>x. lf_lpn x < lpn) (drop l xs)),
     (let B = dropWhile (\<lambda>x. lf_lpn x < lpn) (drop l xs) in B \<noteq> [] \<and> lpn + sz < lf_end (hd B)))"
  using assms(2,3)
proof (induction n arbitrary: l)
  case 0
  then have "drop l xs = []" using blk_length[OF assms(1)] by simp
  then show ?case by simp
next
  case (Suc n)
  show ?case
  proof (cases "l < length xs")
    case False
    then show ?thesis using Suc.prems blk_used[OF assms(1), of l] by simp
  next
    case True
    then have d: "drop l xs = xs ! l # drop (Suc l) xs" by (simp add: Cons_nth_drop_Suc)
    have "ls (lb + l) = xs ! l" "lf_used (xs ! l)"
      using blk_nth[OF assms(1) True] assms(1) True by (auto simp: blk_def)
    then show ?thesis
      using Suc.IH[of "Suc l"] Suc.prems True by (auto simp: d Let_def lf_end_def)
  qed
qed

subsection \<open>Aligning the leaves behind the new one\<close>

text \<open>The leaves of the next index node do not concern an extent that ends at \<open>p\<close>.\<close>

definition next_clear :: "nat \<Rightarrow> nat \<Rightarrow> nat \<Rightarrow> nat \<Rightarrow> extents_node \<Rightarrow> bool" where
  "next_clear ib i_num lb p e \<longleftrightarrow> i_num + 1 = INDEX_NODE_SIZE
     \<or> \<not> ix_used (i_node e (ib + i_num + 1))
     \<or> (\<exists>nb. ix_l_node (i_node e (ib + i_num + 1)) = Some nb \<and> (nb < lb \<or> lb + 6 \<le> nb)
          \<and> p \<le> lf_lpn (l_node e nb))"

lemma next_clear_same:
  "next_clear ib i_num lb p e \<Longrightarrow> same_outside lb (l_node e) ls \<Longrightarrow>
    next_clear ib i_num lb p (e\<lparr>l_node := ls\<rparr>)"
  by (auto simp: next_clear_def same_outside_def)

lemma align_loop_blk:
  assumes "blk (l_node e) lb (A @ new # B)" "ext_ok B" "\<forall>x \<in> set B. lf_lpn new \<le> lf_lpn x"
    and "next_clear ib i_num lb (lf_end new) e"
  shows "\<exists>ls. align_loop ib i_num lb (length A) e = Some (e\<lparr>l_node := ls\<rparr>)
    \<and> same_outside lb (l_node e) ls \<and> blk ls lb (A @ new # align_tail (lf_end new) B)"
  using assms
proof (induction B arbitrary: e)
  case Nil
  have len: "length A < 6" using blk_length[OF Nil.prems(1)] by simp
  have new: "l_node e (lb + length A) = new" "lf_used new"
    using blk_nth[OF Nil.prems(1), of "length A"] Nil.prems(1) by (auto simp: blk_def)
  have unused: "\<not> lf_used (l_node e (lb + length A + 1))" if "length A + 1 < 6"
    using blk_used[OF Nil.prems(1), of "length A + 1"] that by simp
  have "align_loop ib i_num lb (length A) e = Some e"
    using len new unused Nil.prems(4)
    by (subst align_loop.simps)
       (auto simp: Let_def LEAF_NODE_SIZE_def INDEX_NODE_SIZE_def next_clear_def lf_end_def)
  with Nil.prems(1) show ?case by (intro exI[of _ "l_node e"]) simp
next
  case (Cons b B)
  let ?i = "length A"
  have len: "?i + 1 < 6" using blk_length[OF Cons.prems(1)] by simp
  have at: "l_node e (lb + ?i) = new" "lf_used new" "l_node e (lb + ?i + 1) = b" "lf_used b"
    using blk_nth[OF Cons.prems(1), of ?i] blk_nth[OF Cons.prems(1), of "?i + 1"] Cons.prems(1)
    by (auto simp: blk_def nth_append)
  have le: "lf_lpn new \<le> lf_lpn b" "leaf_ok b" "ext_ok B"
    using Cons.prems(2,3) by (auto simp: ext_ok_Cons)
  consider "lf_end new \<le> lf_lpn b" | "lf_lpn b < lf_end new" "lf_end b \<le> lf_end new"
    | "lf_lpn b < lf_end new" "lf_end new < lf_end b" by linarith
  then show ?case
  proof cases
    case 1
    then have "align_loop ib i_num lb ?i e = Some e"
      using len at
      by (subst align_loop.simps) (auto simp: Let_def LEAF_NODE_SIZE_def lf_end_def)
    with 1 Cons.prems(1) show ?thesis by (intro exI[of _ "l_node e"]) simp
  next
    case 2
    obtain ls where ls: "pm_move_forward_lnode lb (?i + 1) (l_node e) = Some ls"
      "same_outside lb (l_node e) ls" "blk ls lb (A @ new # B)"
      using move_forward_blk[OF Cons.prems(1), of "?i + 1"] by auto
    have "align_loop ib i_num lb ?i e = align_loop ib i_num lb ?i (e\<lparr>l_node := ls\<rparr>)"
      using len at le 2 ls(1)
      by (subst align_loop.simps) (auto simp: Let_def LEAF_NODE_SIZE_def lf_end_def)
    moreover obtain ls' where "align_loop ib i_num lb ?i (e\<lparr>l_node := ls\<rparr>) = Some (e\<lparr>l_node := ls'\<rparr>)"
      "same_outside lb ls ls'" "blk ls' lb (A @ new # align_tail (lf_end new) B)"
      using Cons.IH[of "e\<lparr>l_node := ls\<rparr>"] ls Cons.prems(3,4) le(3) by (auto simp: next_clear_same)
    ultimately show ?thesis using 2 ls(2) by (auto intro: same_outside_trans)
  next
    case 3
    let ?ls = "(l_node e)(lb + (?i + 1) := cut_front (lf_end new) b)"
    have "trim_leaf_front (lf_end new) b = cut_front (lf_end new) b"
      using trim_leaf_front_cut le(2) 3 by simp
    then have run: "align_loop ib i_num lb ?i e = Some (e\<lparr>l_node := ?ls\<rparr>)"
      using len at le 3
      by (subst align_loop.simps) (auto simp: Let_def LEAF_NODE_SIZE_def lf_end_def)
    have "blk ?ls lb ((A @ new # b # B)[?i + 1 := cut_front (lf_end new) b])"
      using at by (intro blk_set[OF Cons.prems(1)]) auto
    moreover have "(A @ new # b # B)[?i + 1 := cut_front (lf_end new) b]
        = A @ new # align_tail (lf_end new) (b # B)"
      using 3 by (simp add: list_update_append)
    ultimately have b: "blk ?ls lb (A @ new # align_tail (lf_end new) (b # B))" by (simp only:)
    have "same_outside lb (l_node e) ?ls" using len by (rule same_outside_upd)
    with run b show ?thesis by blast
  qed
qed

subsection \<open>Aligning the leaf before the new one\<close>

lemma set_extents_set [simp]: "set_extents n e' (set_extents n e s) = set_extents n e' s"
  by (simp add: set_extents_def)

lemma fld15_cut: "a \<le> b \<Longrightarrow> b \<le> 2048 \<Longrightarrow> fld15 (int b - int a) = b - a"
  by (simp add: fld_simps flip: of_nat_diff)

lemma fld16_small: "a \<le> 2048 \<Longrightarrow> fld16 (int a) = a"
  by (simp add: fld_simps)

lemma word_of_int_diff: "a \<le> b \<Longrightarrow> word_of_int (int b - int a) = (of_nat (b - a) :: u32)"
  by (simp add: of_nat_diff)

text \<open>Before the new leaf: with at most four leaves besides it nothing has to be divided.\<close>

lemma align_front_blk:
  assumes "blk (l_node e) lb (A @ new # B)" "A \<noteq> []" "length (A @ new # B) \<le> 5"
    and "leaf_ok (last A)" "leaf_ok new" "lf_lpn (last A) < lf_lpn new"
  shows "\<exists>ls. align_front c r_num i_num (length A) n lb (set_extents n e s)
      = Some (Some (lb, i_num), set_extents n (e\<lparr>l_node := ls\<rparr>) s)
    \<and> same_outside lb (l_node e) ls
    \<and> blk ls lb (front_cut new A @ new # front_rest new A @ B)"
proof -
  obtain A' a where A: "A = A' @ [a]" using assms(2) by (cases A rule: rev_cases) auto
  let ?k = "length A'"
  have len: "?k + 1 + length B < 5" using assms(3) A by simp
  have at: "l_node e (lb + ?k) = a" "l_node e (lb + (?k + 1)) = new"
    using blk_nth[OF assms(1), of ?k] blk_nth[OF assms(1), of "?k + 1"] A
    by (auto simp: nth_append)
  have ix: "lb + length A - 1 = lb + ?k" "lb + length A = lb + (?k + 1)" using A by auto
  have ok: "leaf_ok a" "lf_lpn a < lf_lpn new" "lf_end a \<le> 2048" "lf_end new \<le> 2048"
    "lf_lpn new < lf_end new"
    using assms(4-6) A leaf_ok_less by (auto simp: leaf_ok_def)
  let ?cut = "cut_end (lf_lpn new) a"
  let ?ls1 = "(l_node e)(lb + ?k := ?cut)"
  have ce: "a\<lparr>lf_size := fld15 (int (lf_lpn new) - int (lf_lpn a))\<rparr> = ?cut"
    using ok by (subst fld15_cut) (auto simp: cut_end_def)
  have b1: "blk ?ls1 lb (A' @ ?cut # new # B)"
    using blk_set[OF assms(1), of ?k ?cut] A ok(1) by (auto simp: list_update_append leaf_ok_def)
  have so1: "same_outside lb (l_node e) ?ls1" using len by simp
  consider "lf_end a \<le> lf_lpn new" | "lf_lpn new < lf_end a" "lf_end a \<le> lf_end new"
    | "lf_end new < lf_end a" by linarith
  then show ?thesis
  proof cases
    case 1
    have "align_front c r_num i_num (length A) n lb (set_extents n e s)
        = Some (Some (lb, i_num), set_extents n e s)"
      unfolding align_front_def ix using at 1 by (simp add: lf_end_def Let_def)
    moreover have "front_cut new A = A" "front_rest new A = []"
      using 1 ok(5) A by (auto simp: front_cut_def front_rest_def)
    ultimately show ?thesis using assms(1) by (intro exI[of _ "l_node e"]) simp
  next
    case 2
    have "align_front c r_num i_num (length A) n lb (set_extents n e s)
        = Some (Some (lb, i_num), set_extents n (e\<lparr>l_node := ?ls1\<rparr>) s)"
      unfolding align_front_def ix using at 2 ce by (simp add: lf_end_def Let_def)
    moreover have "front_cut new A = A' @ [?cut]" "front_rest new A = []"
      using 2 A by (auto simp: front_cut_def front_rest_def)
    ultimately show ?thesis using b1 so1 by (intro exI[of _ ?ls1]) simp
  next
    case 3
    let ?rest = "cut_front (lf_end new) a"
    let ?ls2 = "pm_move_back_lnode lb (?k + 2) ?ls1"
    let ?ls3 = "?ls2(lb + (?k + 2) := ?rest)"
    have ur: "lf_used ?rest" using ok(1) by (simp add: leaf_ok_def)
    have "\<not> lf_used (?ls1 (lb + 5))" using blk_used[OF b1, of 5] len by simp
    then have u5: "\<not> lf_used (?ls1 (lb + (LEAF_NODE_SIZE - 1)))" by (simp add: LEAF_NODE_SIZE_def)
    have sz: "fld15 (int (lf_end a) - int (lf_end new)) = lf_end a - lf_end new"
      using 3 ok by (intro fld15_cut) auto
    have rest: "\<lparr>lf_ppn = lf_ppn a + word_of_int (int (lf_size a) - int (lf_end a - lf_end new)),
        lf_lpn = fld16 (int (lf_end new)), lf_size = lf_end a - lf_end new, lf_used = True\<rparr> = ?rest"
    proof -
      have "lf_size a - (lf_end a - lf_end new) = lf_end new - lf_lpn a" "lf_end a - lf_end new \<le> lf_size a"
        using 3 ok by (auto simp: lf_end_def)
      then show ?thesis
        using ok by (subst word_of_int_diff) (auto simp: cut_front_def fld16_small leaf_ok_def)
    qed
    have "align_front c r_num i_num (length A) n lb (set_extents n e s)
        = Some (Some (lb, i_num), set_extents n (e\<lparr>l_node := ?ls3\<rparr>) s)"
      unfolding align_front_def ix using at 3 ce u5 sz rest A ok
      by (simp add: lf_end_def Let_def)
    moreover have "front_cut new A = A' @ [?cut]" "front_rest new A = [?rest]"
      using 3 A ok by (auto simp: front_cut_def front_rest_def)
    moreover have "blk ?ls3 lb (A' @ ?cut # new # ?rest # B) \<and> same_outside lb ?ls1 ?ls3"
      using insert_blk[OF b1, of "?k + 2" ?rest] len ur by (simp add: numeral_2_eq_2)
    ultimately show ?thesis using so1 by (intro exI[of _ ?ls3]) (auto intro: same_outside_trans)
  qed
qed

end
