(* ===== verification/ExtentsMap.thy ===== *)
theory ExtentsMap
  imports ExtentsSpec FtlAllocSpec
begin

text \<open>
  An extents table as a map: the invariant \<open>ext_inv\<close> of a whole table, the lookup
  \<open>pm_read_extmap\<close> as the map of the lists of extents it holds, the empty table of
  \<open>pm_init_extmap\<close>, and the insertion of an extent where an index node has room for it.
\<close>

subsection \<open>The invariant of a table\<close>

definition idx_end :: "idx \<Rightarrow> nat" where
  "idx_end t = ix_lpn t + ix_size t"

definition links_ok :: "extents_node \<Rightarrow> nat \<Rightarrow> bool" where
  "links_ok e r \<longleftrightarrow> r_node e r = Some (6 * r)
     \<and> (\<forall>i < 6. ix_l_node (i_node e (6 * r + i)) = Some (6 * (6 * r + i)))"

text \<open>The index node at \<open>j\<close> holds the extents \<open>xs\<close>, all inside its range.\<close>

definition inode_ok :: "extents_node \<Rightarrow> nat \<Rightarrow> leaf list \<Rightarrow> bool" where
  "inode_ok e j xs \<longleftrightarrow> blk (l_node e) (6 * j) xs \<and> ext_ok xs
     \<and> ix_lpn (i_node e j) < idx_end (i_node e j)
     \<and> (\<forall>x \<in> set xs. ix_lpn (i_node e j) \<le> lf_lpn x \<and> lf_end x \<le> idx_end (i_node e j))"

text \<open>A root whose used index nodes hold \<open>xss\<close>: their ranges are adjacent and cover the root, and
  only the first may be empty.\<close>

definition root_ok :: "extents_node \<Rightarrow> nat \<Rightarrow> leaf list list \<Rightarrow> bool" where
  "root_ok e r xss \<longleftrightarrow> 0 < length xss \<and> length xss \<le> 6
     \<and> (\<forall>i < 6. ix_used (i_node e (6 * r + i)) \<longleftrightarrow> i < length xss)
     \<and> (\<forall>i < length xss. inode_ok e (6 * r + i) (xss ! i))
     \<and> ix_lpn (i_node e (6 * r)) = 0
     \<and> (\<forall>i. Suc i < length xss \<longrightarrow> ix_lpn (i_node e (6 * r + Suc i)) = idx_end (i_node e (6 * r + i)))
     \<and> idx_end (i_node e (6 * r + (length xss - 1))) = 2048
     \<and> (\<forall>i < length xss. 0 < i \<longrightarrow> xss ! i \<noteq> [])"

text \<open>The roots in \<open>L\<close> are the ones the table still maps; the others were turned into page maps.\<close>

definition ext_inv :: "nat set \<Rightarrow> extents_node \<Rightarrow> (nat \<Rightarrow> leaf list list) \<Rightarrow> bool" where
  "ext_inv L e X \<longleftrightarrow> L \<subseteq> {..<16} \<and> (\<forall>r \<in> L. links_ok e r \<and> root_ok e r (X r))"

text \<open>The index node of a page.\<close>

definition holds :: "extents_node \<Rightarrow> nat \<Rightarrow> nat \<Rightarrow> nat \<Rightarrow> bool" where
  "holds e r i p \<longleftrightarrow> ix_lpn (i_node e (6 * r + i)) \<le> p \<and> p < idx_end (i_node e (6 * r + i))"

lemma root_ranges:
  assumes "root_ok e r xss" "i < j" "j < length xss"
  shows "idx_end (i_node e (6 * r + i)) \<le> ix_lpn (i_node e (6 * r + j))"
  using assms(2,3)
proof (induction j)
  case 0
  then show ?case by simp
next
  case (Suc j)
  have next_lpn: "ix_lpn (i_node e (6 * r + Suc j)) = idx_end (i_node e (6 * r + j))"
    using assms(1) Suc.prems by (simp add: root_ok_def)
  show ?case
  proof (cases "i = j")
    case False
    then have "idx_end (i_node e (6 * r + i)) \<le> ix_lpn (i_node e (6 * r + j))" using Suc by simp
    then show ?thesis using next_lpn by (simp add: idx_end_def)
  qed (use next_lpn in simp)
qed

lemma root_holds:
  assumes "root_ok e r xss" "p < 2048"
  shows "\<exists>i < length xss. holds e r i p"
proof -
  have "\<exists>i \<le> k. holds e r i p" if "p < idx_end (i_node e (6 * r + k))" "k < length xss" for k
    using that
  proof (induction k)
    case 0
    then show ?case using assms(1) by (simp add: holds_def root_ok_def)
  next
    case (Suc k)
    show ?case
    proof (cases "p < idx_end (i_node e (6 * r + k))")
      case True
      then show ?thesis using Suc by (metis Suc_lessD le_SucI)
    next
      case False
      moreover have "ix_lpn (i_node e (6 * r + Suc k)) = idx_end (i_node e (6 * r + k))"
        using assms(1) Suc.prems by (simp add: root_ok_def)
      ultimately have "holds e r (Suc k) p" using Suc.prems by (simp add: holds_def)
      then show ?thesis by blast
    qed
  qed
  moreover have "p < idx_end (i_node e (6 * r + (length xss - 1)))" "length xss - 1 < length xss"
    using assms by (auto simp: root_ok_def)
  ultimately show ?thesis by (meson le_less_trans)
qed

lemma holds_unique:
  assumes "root_ok e r xss" "holds e r i p" "holds e r j p" "i < length xss" "j < length xss"
  shows "i = j"
  using root_ranges[OF assms(1), of i j] root_ranges[OF assms(1), of j i] assms
  by (cases i j rule: linorder_cases) (auto simp: holds_def)

lemma holds_before:
  assumes "root_ok e r xss" "holds e r i p" "j < i" "i < length xss"
  shows "idx_end (i_node e (6 * r + j)) \<le> p"
  using root_ranges[OF assms(1,3,4)] assms(2) by (auto simp: holds_def)

subsection \<open>The searches\<close>

lemma find_inode_holds:
  assumes "root_ok e r xss" "holds e r i p" "i < length xss" "j \<le> i" "j + n = 6"
  shows "find_inode (i_node e) (6 * r) p j n = Some i"
  using assms(4,5)
proof (induction n arbitrary: j)
  case 0
  then show ?case using assms(1,3) by (simp add: root_ok_def)
next
  case (Suc n)
  show ?case
  proof (cases "j = i")
    case True
    then show ?thesis using assms(2) by (simp add: holds_def idx_end_def)
  next
    case False
    then have "idx_end (i_node e (6 * r + j)) \<le> p"
      using holds_before[OF assms(1,2)] Suc.prems assms(3) by simp
    then show ?thesis using Suc False by (simp add: idx_end_def)
  qed
qed

lemma read_inode_loop_holds:
  assumes "root_ok e r xss" "holds e r i p" "i < length xss" "j \<le> i" "j + n = 6"
  shows "read_inode_loop (i_node e) (6 * r) p j n = Some i"
  using assms(4,5)
proof (induction n arbitrary: j)
  case 0
  then show ?case using assms(1,3) by (simp add: root_ok_def)
next
  case (Suc n)
  have u: "ix_used (i_node e (6 * r + j))"
    using assms(1,3) Suc.prems by (auto simp: root_ok_def)
  show ?case
  proof (cases "j = i")
    case True
    then show ?thesis using u assms(2) by (simp add: holds_def idx_end_def Let_def)
  next
    case False
    then have "idx_end (i_node e (6 * r + j)) \<le> p"
      using holds_before[OF assms(1,2)] Suc.prems assms(3) by simp
    then show ?thesis using Suc False u by (simp add: idx_end_def Let_def)
  qed
qed

lemma read_leaf_loop_blk:
  assumes "blk ls lb xs" "l + n = 6" "l \<le> length xs"
  shows "map_option (\<lambda>k. leaf_ppn (ls (lb + k)) p) (read_leaf_loop ls lb p l n) = lmap (drop l xs) p"
  using assms(2,3)
proof (induction n arbitrary: l)
  case 0
  then have "drop l xs = []" using blk_length[OF assms(1)] by simp
  then show ?case by simp
next
  case (Suc n)
  show ?case
  proof (cases "l < length xs")
    case True
    then have "drop l xs = xs ! l # drop (Suc l) xs" by (simp add: Cons_nth_drop_Suc)
    then show ?thesis
      using Suc True blk_nth[OF assms(1) True] by (simp add: Let_def covers_def lf_end_def)
  next
    case False
    have none: "read_leaf_loop ls lb p k m = None" if "length xs \<le> k" "k + m = 6" for k m
      using that
    proof (induction m arbitrary: k)
      case (Suc m)
      then show ?case using blk_free[OF assms(1), of k] by (simp add: Let_def)
    qed simp
    have "read_leaf_loop ls lb p l (Suc n) = None" using False Suc.prems by (intro none) auto
    then show ?thesis using False by (simp del: read_leaf_loop.simps)
  qed
qed

subsection \<open>Lookup\<close>

text \<open>The physical page the table gives for page \<open>p\<close> of root \<open>r\<close>.\<close>

definition ext_lookup :: "extents_node \<Rightarrow> nat \<Rightarrow> nat \<Rightarrow> u32 option" where
  "ext_lookup e r p =
     (case r_node e r of
        None \<Rightarrow> None
      | Some ib \<Rightarrow> (case pm_read_extmap ib p e of
          Some (Some (i, l, k)) \<Rightarrow> Some (leaf_ppn (l_node e k) p)
        | _ \<Rightarrow> None))"

lemma ext_lookup_holds:
  assumes "ext_inv L e X" "r \<in> L" "holds e r i p" "i < length (X r)"
  shows "ext_lookup e r p = lmap (X r ! i) p"
proof -
  have ok: "root_ok e r (X r)" and l: "links_ok e r" using assms(1,2) by (auto simp: ext_inv_def)
  have i: "i < 6" "inode_ok e (6 * r + i) (X r ! i)" using ok assms(4) by (auto simp: root_ok_def)
  have b: "blk (l_node e) (6 * (6 * r + i)) (X r ! i)" using i(2) by (simp add: inode_ok_def)
  have lb: "ix_l_node (i_node e (6 * r + i)) = Some (6 * (6 * r + i))" "r_node e r = Some (6 * r)"
    using l i(1) by (auto simp: links_ok_def)
  have f: "read_inode_loop (i_node e) (6 * r) p 0 INDEX_NODE_SIZE = Some i"
    using read_inode_loop_holds[OF ok assms(3,4), of 0 6] by (simp add: INDEX_NODE_SIZE_def)
  have u: "lf_used (l_node e (6 * (6 * r + i))) \<longleftrightarrow> X r ! i \<noteq> []"
    using blk_used[OF b, of 0] by simp
  have rl: "map_option (\<lambda>k. leaf_ppn (l_node e (6 * (6 * r + i) + k)) p)
      (read_leaf_loop (l_node e) (6 * (6 * r + i)) p 0 LEAF_NODE_SIZE) = lmap (X r ! i) p"
    using read_leaf_loop_blk[OF b, of 0 6 p] by (simp add: LEAF_NODE_SIZE_def)
  show ?thesis
  proof (cases "X r ! i = []")
    case True
    then show ?thesis using lb f u by (simp add: ext_lookup_def pm_read_extmap_def)
  next
    case False
    then show ?thesis
      using lb f u rl[symmetric]
      by (cases "read_leaf_loop (l_node e) (6 * (6 * r + i)) p 0 LEAF_NODE_SIZE")
         (simp_all add: ext_lookup_def pm_read_extmap_def)
  qed
qed

subsection \<open>The empty table\<close>

lemma init_ext_inv: "ext_inv {..<16} (pm_init_extmap zero_extents) (\<lambda>_. [[]])"
proof -
  let ?e = "pm_init_extmap zero_extents"
  have leaf: "\<not> lf_used (l_node ?e k) \<and> lf_size (l_node ?e k) = 0" for k
    by (simp add: pm_init_extmap_def pm_init_extmap_link_def zero_extents_def zero_leaf_def)
  have "blk (l_node ?e) lb []" for lb using leaf by (simp add: blk_def)
  moreover have idx: "ix_used (i_node ?e (6 * r + i)) \<longleftrightarrow> i = 0" "ix_lpn (i_node ?e (6 * r + i)) = 0"
    "ix_size (i_node ?e (6 * r + i)) = (if i = 0 then 2048 else 0)" if "r < 16" "i < 6" for r i
  proof -
    have "(6 * r + i) mod 6 = 0 \<longleftrightarrow> i = 0" "6 * r + i < 96" using that by auto
    then show "ix_used (i_node ?e (6 * r + i)) \<longleftrightarrow> i = 0" "ix_lpn (i_node ?e (6 * r + i)) = 0"
      "ix_size (i_node ?e (6 * r + i)) = (if i = 0 then 2048 else 0)"
      by (simp_all add: pm_init_extmap_def pm_init_extmap_link_def pm_sizes zero_extents_def zero_idx_def)
  qed
  ultimately have "root_ok ?e r [[]]" if "r < 16" for r
    using that idx[OF that, of 0] by (simp add: root_ok_def inode_ok_def idx_end_def)
  moreover have "links_ok ?e r" if "r < 16" for r
    using that by (auto simp: links_ok_def pm_init_extmap_def pm_init_extmap_link_def pm_sizes)
  ultimately show ?thesis by (simp add: ext_inv_def)
qed

lemma init_lookup_none:
  assumes "r < 16" "p < 2048"
  shows "ext_lookup (pm_init_extmap zero_extents) r p = None"
proof -
  have "holds (pm_init_extmap zero_extents) r 0 p"
    using root_holds[of _ r "[[]]" p] init_ext_inv assms by (fastforce simp: ext_inv_def)
  then show ?thesis using ext_lookup_holds[OF init_ext_inv] assms(1) by simp
qed

text \<open>The table \<open>pm_init_extmap\<close> lays out in a cleared cache page maps no page at all, for
  every root and every page of it.\<close>

theorem pm_init_extmap_empty:
  assumes "r < 16" "p < 2048"
  shows "ext_lookup (pm_init_extmap zero_extents) r p = None"
  using init_lookup_none[OF assms] .

lemma pm_init_extmap_empty_witness: "ext_lookup (pm_init_extmap zero_extents) 15 2047 = None"
  by (rule pm_init_extmap_empty) simp_all

subsection \<open>Inserting\<close>

definition new_leaf :: "nat \<Rightarrow> nat \<Rightarrow> u32 \<Rightarrow> leaf" where
  "new_leaf lpn sz ppn = \<lparr>lf_ppn = ppn, lf_lpn = lpn, lf_size = sz, lf_used = True\<rparr>"

lemma put_leaf_new: "lpn + sz \<le> 2048 \<Longrightarrow> put_leaf k lpn sz ppn ls = ls(k := new_leaf lpn sz ppn)"
  by (simp add: put_leaf_def new_leaf_def fld_simps)

abbreviation before :: "nat \<Rightarrow> leaf list \<Rightarrow> leaf list" where
  "before lpn \<equiv> takeWhile (\<lambda>x. lf_lpn x < lpn)"

abbreviation behind :: "nat \<Rightarrow> leaf list \<Rightarrow> leaf list" where
  "behind lpn \<equiv> dropWhile (\<lambda>x. lf_lpn x < lpn)"

lemma ext_ok_behind: "ext_ok xs \<Longrightarrow> x \<in> set (behind lpn xs) \<Longrightarrow> lpn \<le> lf_lpn x"
proof (induction xs)
  case (Cons y ys)
  then show ?case
    by (auto simp: ext_ok_Cons split: if_splits intro: order_trans[of lpn "lf_lpn y"]
        dest!: leaf_ok_less bspec)
qed simp

text \<open>What is left behind the new leaf when it was put in the place of one it hides.\<close>

definition replaced :: "nat \<Rightarrow> leaf list \<Rightarrow> leaf list" where
  "replaced e B = (if B \<noteq> [] \<and> lf_end (hd B) \<le> e then tl B else B)"

lemma put_new_blk:
  assumes "blk ls lb xs" "length xs \<le> 4" "A = before lpn xs" "B = behind lpn xs"
    and "new = new_leaf lpn sz ppn"
  shows "let ls0 = (if B \<noteq> [] \<and> lpn + sz < lf_end (hd B) then pm_move_back_lnode lb (length A) ls else ls);
             ls1 = ls0(lb + length A := new) in
      blk ls1 lb (A @ new # replaced (lpn + sz) B) \<and> same_outside lb ls ls1"
proof -
  have xs: "xs = A @ B" by (simp add: assms(3,4))
  have u: "lf_used new" by (simp add: assms(5) new_leaf_def)
  show ?thesis
  proof (cases "B \<noteq> [] \<and> lpn + sz < lf_end (hd B)")
    case True
    then show ?thesis
      using insert_blk[OF assms(1), of "length A" new] assms(2) u xs by (simp add: replaced_def)
  next
    case F: False
    show ?thesis
    proof (cases B)
      case Nil
      then show ?thesis using blk_append[OF assms(1), of new] assms(2) u xs by (simp add: replaced_def)
    next
      case (Cons b B')
      then show ?thesis
        using blk_set[OF assms(1), of "length A" new] assms(2) F u xs
        by (simp add: replaced_def list_update_append)
    qed
  qed
qed

lemma insert_ext_replaced:
  assumes "ext_ok (A @ B)" "\<forall>x \<in> set B. lf_lpn new \<le> lf_lpn x" "leaf_ok new"
  shows "front_cut new A @ new # align_tail (lf_end new) (front_rest new A @ replaced (lf_end new) B)
    = insert_ext new A B"
proof (cases "front_rest new A = []")
  case True
  have "align_tail (lf_end new) (replaced (lf_end new) B) = align_tail (lf_end new) B"
    using assms leaf_ok_less by (cases B) (fastforce simp: replaced_def ext_ok_append ext_ok_Cons)+
  with True show ?thesis by (simp add: insert_ext_def)
next
  case False
  then obtain A' a where A: "A = A' @ [a]" "lf_end new < lf_end a"
    by (cases A rule: rev_cases) (auto simp: front_rest_def split: if_splits)
  then have "\<forall>x \<in> set B. lf_end a \<le> lf_lpn x" using assms(1) by (auto simp: ext_ok_append ext_ok_Cons)
  then have "replaced (lf_end new) B = B" "align_tail (lf_end new) B = B"
    using A(2) assms(1) leaf_ok_less
    by (cases B; fastforce simp: replaced_def ext_ok_append ext_ok_Cons)+
  with A show ?thesis by (simp add: insert_ext_def front_rest_def)
qed

text \<open>The index node that takes the new extent after the insertion.\<close>

lemma inode_ok_insert:
  assumes "inode_ok e j xs" "leaf_ok new" "ix_lpn (i_node e j) \<le> lf_lpn new"
    "lf_end new \<le> idx_end (i_node e j)"
    and "blk ls (6 * j) (insert_ext new (before (lf_lpn new) xs) (behind (lf_lpn new) xs))"
  shows "inode_ok (e\<lparr>l_node := ls\<rparr>) j (insert_ext new (before (lf_lpn new) xs) (behind (lf_lpn new) xs))"
proof -
  let ?A = "before (lf_lpn new) xs" and ?B = "behind (lf_lpn new) xs"
  have xs: "xs = ?A @ ?B" by simp
  have ok: "ext_ok (?A @ ?B)" using assms(1) by (simp add: inode_ok_def)
  have A: "\<forall>x \<in> set ?A. lf_lpn x < lf_lpn new" by (auto dest: set_takeWhileD)
  have B: "\<forall>x \<in> set ?B. lf_lpn new \<le> lf_lpn x" using assms(1) ext_ok_behind by (auto simp: inode_ok_def)
  have sub: "set ?A \<subseteq> set xs" "set ?B \<subseteq> set xs" by (auto dest: set_takeWhileD set_dropWhileD)
  have rng: "ix_lpn (i_node e j) \<le> lf_lpn x" "lf_end x \<le> idx_end (i_node e j)" if "x \<in> set xs" for x
    using assms(1) that by (auto simp: inode_ok_def)
  have n: "lf_lpn new < lf_end new" using assms(2) by (rule leaf_ok_less)
  have okAB: "ext_ok ?A" "ext_ok ?B" using ok unfolding ext_ok_append by blast+
  have tail: "ix_lpn (i_node e j) \<le> lf_lpn x \<and> lf_end x \<le> idx_end (i_node e j)"
    if "x \<in> set (align_tail (lf_end new) ?B)" for x
    using align_tail_start[OF okAB(2) that] align_tail_end[OF okAB(2) that] rng sub(2) assms(3) n
    by fastforce
  have front: "ix_lpn (i_node e j) \<le> lf_lpn x \<and> lf_end x \<le> idx_end (i_node e j)"
    if "x \<in> set (front_cut new ?A) \<union> set (front_rest new ?A)" for x
    using that rng sub(1) assms(3,4) n A
    by (cases ?A rule: rev_cases) (fastforce simp: front_cut_def front_rest_def split: if_splits)+
  show ?thesis
    using assms insert_ext_ok[OF ok assms(2) A B] tail front
    by (auto simp: inode_ok_def insert_ext_def)
qed

lemma inode_ok_frame:
  "inode_ok e j xs \<Longrightarrow> same_outside lb (l_node e) ls \<Longrightarrow> 6 * j + 6 \<le> lb \<or> lb + 6 \<le> 6 * j \<Longrightarrow>
    inode_ok (e\<lparr>l_node := ls\<rparr>) j xs"
  by (auto simp: inode_ok_def blk_def same_outside_def)

lemma ext_inv_update:
  assumes "ext_inv L e X" "r \<in> L" "i < length (X r)" "same_outside (6 * (6 * r + i)) (l_node e) ls"
    "inode_ok (e\<lparr>l_node := ls\<rparr>) (6 * r + i) ys" "ys \<noteq> []"
  shows "ext_inv L (e\<lparr>l_node := ls\<rparr>) (X(r := (X r)[i := ys]))"
proof -
  have "root_ok (e\<lparr>l_node := ls\<rparr>) r' ((X(r := (X r)[i := ys])) r')" if "r' \<in> L" for r'
  proof -
    have ok: "root_ok e r' (X r')" using assms(1) that by (simp add: ext_inv_def)
    have i6: "i < 6" using assms(1-3) by (auto simp: ext_inv_def root_ok_def)
    have "inode_ok (e\<lparr>l_node := ls\<rparr>) (6 * r' + k) ((X(r := (X r)[i := ys])) r' ! k)"
      if k: "k < length (X r')" for k
    proof (cases "r' = r \<and> k = i")
      case True
      then show ?thesis using assms(3,5) by simp
    next
      case False
      have k6: "k < 6" using ok k by (simp add: root_ok_def)
      have "6 * r' + k < 6 * r + i \<or> 6 * r + i < 6 * r' + k" using False i6 k6 by presburger
      then have "inode_ok (e\<lparr>l_node := ls\<rparr>) (6 * r' + k) (X r' ! k)"
        using ok k by (intro inode_ok_frame[OF _ assms(4)]) (auto simp: root_ok_def)
      then show ?thesis using False by auto
    qed
    moreover have "(X(r := (X r)[i := ys])) r' ! k \<noteq> []" if "k < length (X r')" "0 < k" for k
      using ok assms(3,6) that by (auto simp: root_ok_def nth_list_update)
    moreover have "length ((X(r := (X r)[i := ys])) r') = length (X r')" by simp
    ultimately show ?thesis using ok by (simp add: root_ok_def)
  qed
  then show ?thesis using assms(1) by (simp add: ext_inv_def links_ok_def)
qed

text \<open>No leaf behind the index node starts before its end.\<close>

lemma next_clear_holds:
  assumes "ext_inv L e X" "r \<in> L" "i < length (X r)" "p \<le> idx_end (i_node e (6 * r + i))"
  shows "next_clear (6 * r) i (6 * (6 * r + i)) p e"
proof (cases "Suc i < length (X r)")
  case False
  have ok: "root_ok e r (X r)" using assms by (simp add: ext_inv_def)
  have "i + 1 = 6 \<or> i + 1 < 6" using ok assms(3) by (auto simp: root_ok_def)
  moreover have "\<not> ix_used (i_node e (6 * r + (i + 1)))" if "i + 1 < 6"
    using ok False that unfolding root_ok_def by (metis Suc_eq_plus1)
  ultimately show ?thesis by (auto simp: next_clear_def INDEX_NODE_SIZE_def)
next
  case True
  have ok: "root_ok e r (X r)" "links_ok e r" using assms by (simp_all add: ext_inv_def)
  let ?j = "6 * r + Suc i"
  have i: "inode_ok e ?j (X r ! Suc i)" "X r ! Suc i \<noteq> []" "ix_lpn (i_node e ?j) = idx_end (i_node e (6 * r + i))"
    "Suc i < 6"
    using ok(1) True by (auto simp: root_ok_def)
  have "l_node e (6 * ?j + 0) = X r ! Suc i ! 0"
    using i(1,2) by (intro blk_nth) (auto simp: inode_ok_def)
  then have "p \<le> lf_lpn (l_node e (6 * ?j))"
    using i assms(4) by (auto simp: inode_ok_def dest!: bspec[OF _ nth_mem, of _ _ 0] simp del: mult_Suc_right)
  moreover have "ix_l_node (i_node e ?j) = Some (6 * ?j)"
    using ok(2) i(4) unfolding links_ok_def by blast
  ultimately show ?thesis by (auto simp: next_clear_def)
qed

lemma ext_ok_rest:
  assumes "ext_ok (A @ B)" "\<forall>x \<in> set B. lf_lpn new \<le> lf_lpn x" "leaf_ok new"
  shows "ext_ok (front_rest new A @ replaced e B)
    \<and> (\<forall>x \<in> set (front_rest new A @ replaced e B). lf_lpn new \<le> lf_lpn x)"
proof -
  have r: "ext_ok (replaced e B)" "set (replaced e B) \<subseteq> set B"
    using assms(1) by (cases B; auto simp: replaced_def ext_ok_append ext_ok_Cons)+
  show ?thesis
  proof (cases A rule: rev_cases)
    case Nil
    then show ?thesis using r assms(2) by (auto simp: front_rest_def)
  next
    case (snoc A' a)
    have "leaf_ok a" "\<forall>x \<in> set B. lf_end a \<le> lf_lpn x"
      using assms(1) snoc by (auto simp: ext_ok_append ext_ok_Cons)
    then show ?thesis
      using r assms(2,3) snoc leaf_ok_less[OF assms(3)]
      by (auto simp: front_rest_def ext_ok_Cons leaf_ok_cut_front)
  qed
qed

text \<open>Both alignments of \<open>pm_align_idxnode\<close> around a leaf that was just stored.\<close>

lemma align_front_step:
  assumes "blk (l_node e) lb (A @ new # C)" "length (A @ new # C) \<le> 5" "ext_ok A"
    "\<forall>x \<in> set A. lf_lpn x < lf_lpn new" "leaf_ok new"
  shows "\<exists>ls. (if length A \<noteq> 0 then align_front c r_num i (length A) n lb (set_extents n e s)
        else Some (Some (lb, i), set_extents n e s))
      = Some (Some (lb, i), set_extents n (e\<lparr>l_node := ls\<rparr>) s)
    \<and> same_outside lb (l_node e) ls \<and> blk ls lb (front_cut new A @ new # front_rest new A @ C)"
proof (cases "A = []")
  case True
  with assms(1) show ?thesis
    by (intro exI[of _ "l_node e"]) (simp add: front_cut_def front_rest_def)
next
  case False
  have "leaf_ok (last A)" "lf_lpn (last A) < lf_lpn new"
    using assms(3,4) last_in_set[OF False] by (auto simp: ext_ok_def)
  from align_front_blk[OF assms(1) False assms(2) this(1) assms(5) this(2), of c r_num i n s] False
  show ?thesis by simp
qed

lemma pm_align_idxnode_blk:
  assumes "blk (l_node e) lb (A @ new # replaced (lf_end new) B)"
    and "length (A @ new # replaced (lf_end new) B) \<le> 5" "ext_ok (A @ B)"
    and "\<forall>x \<in> set A. lf_lpn x < lf_lpn new" "\<forall>x \<in> set B. lf_lpn new \<le> lf_lpn x" "leaf_ok new"
    and "next_clear ib i lb (lf_end new) e" "r_node e (GET_ROOT_NUM_PER_REGION r_num) = Some ib"
  shows "\<exists>ls. pm_align_idxnode c r_num i (length A) n lb (set_extents n e s)
      = Some (set_extents n (e\<lparr>l_node := ls\<rparr>) s)
    \<and> same_outside lb (l_node e) ls \<and> blk ls lb (insert_ext new A B)"
proof -
  have A: "ext_ok A" using assms(3) by (simp add: ext_ok_append)
  let ?C = "replaced (lf_end new) B"
  obtain ls2 where ls2: "(if length A \<noteq> 0 then align_front c r_num i (length A) n lb (set_extents n e s)
        else Some (Some (lb, i), set_extents n e s))
      = Some (Some (lb, i), set_extents n (e\<lparr>l_node := ls2\<rparr>) s)"
    "same_outside lb (l_node e) ls2" "blk ls2 lb (front_cut new A @ new # front_rest new A @ ?C)"
    using align_front_step[OF assms(1,2) A assms(4,6), of c r_num i n s] by blast
  let ?e2 = "e\<lparr>l_node := ls2\<rparr>"
  have lenf: "length (front_cut new A) = length A"
    by (cases A rule: rev_cases) (auto simp: front_cut_def)
  obtain ls where ls: "align_loop ib i lb (length A) ?e2 = Some (?e2\<lparr>l_node := ls\<rparr>)"
    "same_outside lb ls2 ls"
    "blk ls lb (front_cut new A @ new # align_tail (lf_end new) (front_rest new A @ ?C))"
    using align_loop_blk[of ?e2 lb "front_cut new A" new "front_rest new A @ ?C" ib i]
      ls2(3) ext_ok_rest[OF assms(3,5,6), of "lf_end new"] next_clear_same[OF assms(7) ls2(2)] lenf
    by auto
  have "pm_align_idxnode c r_num i (length A) n lb (set_extents n e s)
      = Some (set_extents n (e\<lparr>l_node := ls\<rparr>) s)"
    using ls2(1) ls(1) assms(8) by (simp add: pm_align_idxnode_def)
  moreover have "blk ls lb (insert_ext new A B)"
    using ls(3) insert_ext_replaced[OF assms(3,5,6)] by simp
  moreover have "same_outside lb (l_node e) ls" using ls2(2) ls(2) by (rule same_outside_trans)
  ultimately show ?thesis by blast
qed

lemma l_node_upd: "l_node (e\<lparr>l_node := ls\<rparr>) = ls" "r_node (e\<lparr>l_node := ls\<rparr>) = r_node e"
  "e\<lparr>l_node := ls, l_node := ls'\<rparr> = e\<lparr>l_node := ls'\<rparr>"
  by simp_all

text \<open>The searches, making room, storing the leaf and aligning its neighbours, in a block with
  room for two more leaves.\<close>

lemma insert_leafnode_blk:
  fixes ppn :: u32
  assumes e: "get_extents s n = Some e" and inv: "ext_inv L e X" "r \<in> L"
    and i: "i < length (X r)" "length (X r ! i) \<le> 4"
    and r: "r = GET_ROOT_NUM_PER_REGION (unat lpn_ori div NUM_PAGE_PER_ROOT)"
    and lpn: "lpn = unat lpn_ori mod NUM_PAGE_PER_ROOT" "0 < sz"
    and fits: "ix_lpn (i_node e (6 * r + i)) \<le> lpn" "lpn + sz \<le> idx_end (i_node e (6 * r + i))"
      "lpn + sz \<le> 2048"
  defines "new \<equiv> new_leaf lpn sz ppn"
  shows "\<exists>ls. pm_insert_leafnode c lpn_ori sz ppn n s = Some (set_extents n (e\<lparr>l_node := ls\<rparr>) s)
    \<and> same_outside (6 * (6 * r + i)) (l_node e) ls
    \<and> blk ls (6 * (6 * r + i)) (insert_ext new (before lpn (X r ! i)) (behind lpn (X r ! i)))"
proof -
  let ?lb = "6 * (6 * r + i)" and ?xs = "X r ! i"
  let ?A = "before lpn ?xs" and ?B = "behind lpn ?xs"
  have ok: "root_ok e r (X r)" and l: "links_ok e r" using inv by (auto simp: ext_inv_def)
  have i6: "i < 6" using ok i(1) by (simp add: root_ok_def)
  have io: "inode_ok e (6 * r + i) ?xs" using ok i(1) by (simp add: root_ok_def)
  then have b: "blk (l_node e) ?lb ?xs" and x: "ext_ok ?xs" by (simp_all add: inode_ok_def)
  have hold: "holds e r i lpn" using fits lpn(2) by (simp add: holds_def)
  have links: "r_node e r = Some (6 * r)" "ix_l_node (i_node e (6 * r + i)) = Some ?lb"
    using l i6 by (simp_all add: links_ok_def)
  have find: "find_inode (i_node e) (6 * r) lpn 0 INDEX_NODE_SIZE = Some i"
    using find_inode_holds[OF ok hold i(1), of 0 6] by (simp add: INDEX_NODE_SIZE_def)
  let ?room = "?B \<noteq> [] \<and> lpn + sz < lf_end (hd ?B)"
  have scan: "scan_leaves (l_node e) ?lb lpn sz 0 LEAF_NODE_SIZE = (length ?A, ?room)"
    using scan_leaves_blk[OF b, of 0 6] by (simp add: LEAF_NODE_SIZE_def Let_def)
  have lenA: "length ?A \<le> 4" using i(2) length_takeWhile_le[of _ ?xs] by (rule order_trans[rotated])
  have u5: "\<not> lf_used (l_node e (?lb + (LEAF_NODE_SIZE - 1)))"
    using blk_used[OF b, of 5] i(2) by (simp add: LEAF_NODE_SIZE_def)
  let ?ls0 = "if ?room then pm_move_back_lnode ?lb (length ?A) (l_node e) else l_node e"
  let ?s0 = "if ?room then set_extents n (e\<lparr>l_node := ?ls0\<rparr>) s else s"
  have room: "make_room c r_num i ?lb (length ?A) ?room n s = Some (Some ?lb, length ?A, i, ?s0)" for r_num
    using e u5 lenA by (auto simp: make_room_def LEAF_NODE_SIZE_def)
  have s0: "get_extents ?s0 n = Some (e\<lparr>l_node := ?ls0\<rparr>)" using e by simp
  let ?ls1 = "?ls0(?lb + length ?A := new)"
  have put: "put_leaf (?lb + length ?A) lpn sz ppn ?ls0 = ?ls1"
    using fits(3) by (simp add: put_leaf_new new_def)
  let ?e1 = "e\<lparr>l_node := ?ls1\<rparr>"
  have b1: "blk ?ls1 ?lb (?A @ new # replaced (lpn + sz) ?B)" "same_outside ?lb (l_node e) ?ls1"
    using put_new_blk[OF b i(2) refl refl, of new lpn sz ppn] by (simp_all add: Let_def new_def)
  have new: "leaf_ok new" "lf_lpn new = lpn" "lf_end new = lpn + sz"
    using fits(3) lpn(2) by (simp_all add: new_def new_leaf_def leaf_ok_def lf_end_def)
  have ext: "ext_ok (?A @ ?B)" using x by simp
  have A: "\<forall>x \<in> set ?A. lf_lpn x < lpn" by (auto dest: set_takeWhileD)
  have B: "\<forall>x \<in> set ?B. lpn \<le> lf_lpn x" using x ext_ok_behind by auto
  have run: "pm_insert_leafnode c lpn_ori sz ppn n s
      = pm_align_idxnode c (unat lpn_ori div NUM_PAGE_PER_ROOT) i (length ?A) n ?lb (set_extents n ?e1 s)"
    using e links find scan room s0 put
    by (simp add: pm_insert_leafnode_def Let_def r[symmetric] lpn(1)[symmetric] split: if_splits)
  let ?C = "replaced (lpn + sz) ?B"
  have lenC: "length (?A @ new # ?C) \<le> 5"
  proof -
    have "length ?C \<le> length ?B" by (simp add: replaced_def)
    moreover have "length ?A + length ?B = length ?xs"
      by (metis length_append takeWhile_dropWhile_id)
    ultimately show ?thesis using i(2) by simp
  qed
  have clear: "next_clear (6 * r) i ?lb (lf_end new) ?e1"
    using next_clear_holds[OF inv i(1), of "lf_end new"] fits(2) new(3) b1(2) next_clear_same by simp
  have b2: "blk (l_node ?e1) ?lb (?A @ new # replaced (lf_end new) ?B)"
    using b1(1) unfolding new(3) by (simp only: l_node_upd)
  have len2: "length (?A @ new # replaced (lf_end new) ?B) \<le> 5" using lenC unfolding new(3) .
  have A2: "\<forall>x \<in> set ?A. lf_lpn x < lf_lpn new" and B2: "\<forall>x \<in> set ?B. lf_lpn new \<le> lf_lpn x"
    using A B unfolding new(2) .
  have lr: "r_node ?e1 (GET_ROOT_NUM_PER_REGION (unat lpn_ori div NUM_PAGE_PER_ROOT)) = Some (6 * r)"
    unfolding r[symmetric] using links(1) by (simp only: l_node_upd)
  obtain ls where "pm_align_idxnode c (unat lpn_ori div NUM_PAGE_PER_ROOT) i (length ?A) n ?lb
      (set_extents n ?e1 s) = Some (set_extents n (?e1\<lparr>l_node := ls\<rparr>) s)"
    "same_outside ?lb (l_node ?e1) ls" "blk ls ?lb (insert_ext new ?A ?B)"
    using pm_align_idxnode_blk[OF b2 len2 ext A2 B2 new(1) clear lr, of c n s] by blast
  moreover have "?e1\<lparr>l_node := ls\<rparr> = e\<lparr>l_node := ls\<rparr>" "l_node ?e1 = ?ls1" for ls
    by (simp_all only: l_node_upd)
  ultimately have p: "pm_align_idxnode c (unat lpn_ori div NUM_PAGE_PER_ROOT) i (length ?A) n ?lb
      (set_extents n ?e1 s) = Some (set_extents n (e\<lparr>l_node := ls\<rparr>) s)"
    "same_outside ?lb ?ls1 ls" "blk ls ?lb (insert_ext new ?A ?B)" by (simp_all only:)
  show ?thesis
    using p(1) same_outside_trans[OF b1(2) p(2)] p(3) unfolding run[symmetric] by blast
qed

lemma length_insert_ext: "length (insert_ext new A B) \<le> length A + length B + 2"
  using align_tail_length[of "lf_end new" B]
  by (cases A rule: rev_cases) (auto simp: insert_ext_def front_cut_def front_rest_def)

lemma holds_l_node [simp]: "holds (e\<lparr>l_node := ls\<rparr>) r i p = holds e r i p"
  by (simp add: holds_def)

lemma insert_lookup:
  assumes inv: "ext_inv L e X" "ext_inv L (e\<lparr>l_node := ls\<rparr>) (X(r := (X r)[i := ys]))"
    and i: "r \<in> L" "i < length (X r)"
    and ys: "ys = insert_ext new (before (lf_lpn new) (X r ! i)) (behind (lf_lpn new) (X r ! i))"
    and new: "leaf_ok new" "ix_lpn (i_node e (6 * r + i)) \<le> lf_lpn new"
      "lf_end new \<le> idx_end (i_node e (6 * r + i))"
    and p: "r' \<in> L" "p < 2048"
  shows "ext_lookup (e\<lparr>l_node := ls\<rparr>) r' p =
    (if r' = r \<and> covers new p then Some (leaf_ppn new p) else ext_lookup e r' p)"
proof -
  have ok: "root_ok e r' (X r')" using inv(1) p(1) by (simp add: ext_inv_def)
  obtain j where j: "j < length (X r')" "holds e r' j p" using root_holds[OF ok p(2)] by blast
  have old: "ext_lookup e r' p = lmap (X r' ! j) p"
    using ext_lookup_holds[OF inv(1) p(1) j(2,1)] .
  have new_look: "ext_lookup (e\<lparr>l_node := ls\<rparr>) r' p = lmap ((X(r := (X r)[i := ys])) r' ! j) p"
    using j by (intro ext_lookup_holds[OF inv(2) p(1)]) auto
  show ?thesis
  proof (cases "r' = r \<and> j = i")
    case True
    have x: "ext_ok (X r ! i)" using inv(1) i by (auto simp: ext_inv_def root_ok_def inode_ok_def)
    have "lmap ys p = (if covers new p then Some (leaf_ppn new p)
        else lmap (before (lf_lpn new) (X r ! i) @ behind (lf_lpn new) (X r ! i)) p)"
      unfolding ys using x new(1) ext_ok_behind[OF x]
      by (intro lmap_insert_ext) (auto dest: set_takeWhileD)
    with True old new_look i(2) show ?thesis by simp
  next
    case False
    have "\<not> covers new p" if "r' = r"
    proof
      assume "covers new p"
      then have "holds e r i p" using new(2,3) by (auto simp: holds_def covers_def)
      then show False using holds_unique[OF ok, of j p i] j i(2) that False by simp
    qed
    with False old new_look show ?thesis by auto
  qed
qed

lemma pm_insert_leafnode_eq:
  fixes ppn :: u32
  assumes e: "get_extents s n = Some e" "ext_inv L e X" "r \<in> L"
    and addr: "r = GET_ROOT_NUM_PER_REGION (unat lpn_ori div NUM_PAGE_PER_ROOT)"
      "lpn = unat lpn_ori mod NUM_PAGE_PER_ROOT" "0 < sz"
    and room: "i < length (X r)" "length (X r ! i) \<le> 4" "holds e r i lpn"
      "lpn + sz \<le> idx_end (i_node e (6 * r + i))"
  shows "\<exists>e' ys. pm_insert_leafnode c lpn_ori sz ppn n s = Some (set_extents n e' s)
    \<and> ext_inv L e' (X(r := (X r)[i := ys])) \<and> length ys \<le> length (X r ! i) + 2
    \<and> new_leaf lpn sz ppn \<in> set ys
    \<and> (\<forall>r' \<in> L. \<forall>p < 2048. ext_lookup e' r' p =
        (if r' = r \<and> lpn \<le> p \<and> p < lpn + sz then Some (ppn + of_nat (p - lpn))
         else ext_lookup e r' p))"
proof -
  let ?xs = "X r ! i" and ?new = "new_leaf lpn sz ppn"
  let ?ys = "insert_ext ?new (before lpn ?xs) (behind lpn ?xs)"
  have ok: "root_ok e r (X r)" using e(2,3) by (simp add: ext_inv_def)
  have io: "inode_ok e (6 * r + i) ?xs" using ok room(1) by (simp add: root_ok_def)
  have le: "idx_end (i_node e (6 * r + i)) \<le> 2048"
  proof (cases "i = length (X r) - 1")
    case True
    then show ?thesis using ok by (simp add: root_ok_def)
  next
    case False
    then have "i < length (X r) - 1" "length (X r) - 1 < length (X r)" using room(1) by auto
    from root_ranges[OF ok this] ok show ?thesis by (auto simp: root_ok_def idx_end_def)
  qed
  have fits: "ix_lpn (i_node e (6 * r + i)) \<le> lpn" using room(3) by (simp add: holds_def)
  have new: "leaf_ok ?new" "lf_lpn ?new = lpn" "lf_end ?new = lpn + sz"
    using room(4) le addr(3) by (simp_all add: new_leaf_def leaf_ok_def lf_end_def)
  obtain ls where ls: "pm_insert_leafnode c lpn_ori sz ppn n s = Some (set_extents n (e\<lparr>l_node := ls\<rparr>) s)"
    "same_outside (6 * (6 * r + i)) (l_node e) ls" "blk ls (6 * (6 * r + i)) ?ys"
    using insert_leafnode_blk[OF e room(1,2) addr fits room(4)] room(4) le by auto
  have "inode_ok (e\<lparr>l_node := ls\<rparr>) (6 * r + i) ?ys"
    using inode_ok_insert[OF io new(1), of ls] new(2,3) fits room(4) ls(3) by simp
  then have inv: "ext_inv L (e\<lparr>l_node := ls\<rparr>) (X(r := (X r)[i := ?ys]))"
    using ext_inv_update[OF e(2,3) room(1) ls(2)] by (simp add: insert_ext_def)
  have "length (before lpn ?xs) + length (behind lpn ?xs) = length ?xs"
    by (metis length_append takeWhile_dropWhile_id)
  then have len: "length ?ys \<le> length ?xs + 2"
    using length_insert_ext[of ?new "before lpn ?xs" "behind lpn ?xs"] by simp
  have "ext_lookup (e\<lparr>l_node := ls\<rparr>) r' p =
      (if r' = r \<and> lpn \<le> p \<and> p < lpn + sz then Some (ppn + of_nat (p - lpn)) else ext_lookup e r' p)"
    if "r' \<in> L" "p < 2048" for r' p
    using insert_lookup[OF e(2) inv e(3) room(1) _ new(1), of r' p] that fits room(4) new(2,3)
    by (auto simp: covers_def leaf_ppn_def new_leaf_def)
  moreover have "?new \<in> set ?ys" by (simp add: insert_ext_def)
  ultimately show ?thesis using ls(1) inv len by blast
qed

text \<open>An extent of the table is found at each of its pages.\<close>

lemma read_leaf_loop_member:
  assumes "blk ls lb xs" "ext_ok xs" "k < length xs" "covers (xs ! k) p" "l \<le> k" "l + n = 6"
  shows "read_leaf_loop ls lb p l n = Some k"
  using assms(5,6)
proof (induction n arbitrary: l)
  case 0
  then show ?case using assms(3) blk_length[OF assms(1)] by simp
next
  case (Suc n)
  show ?case
  proof (cases "l = k")
    case True
    then show ?thesis using assms(3,4) blk_nth[OF assms(1,3)] by (simp add: Let_def covers_def lf_end_def)
  next
    case False
    then have "l < k" using Suc.prems by simp
    then have "lf_end (xs ! l) \<le> lf_lpn (xs ! k)"
      using assms(2,3) by (simp add: ext_ok_def sorted_wrt_iff_nth_less)
    then have "\<not> covers (xs ! l) p" using assms(4) by (simp add: covers_def)
    then show ?thesis
      using Suc \<open>l < k\<close> assms(3) blk_nth[OF assms(1), of l] by (simp add: Let_def covers_def lf_end_def)
  qed
qed

lemma read_extmap_member:
  assumes "ext_inv L e X" "r \<in> L" "i < length (X r)" "x \<in> set (X r ! i)" "covers x p"
  shows "\<exists>l k. pm_read_extmap (6 * r) p e = Some (Some (i, l, k)) \<and> l_node e k = x"
proof -
  have ok: "root_ok e r (X r)" and l: "links_ok e r" using assms(1,2) by (auto simp: ext_inv_def)
  have i: "i < 6" "inode_ok e (6 * r + i) (X r ! i)" using ok assms(3) by (auto simp: root_ok_def)
  have b: "blk (l_node e) (6 * (6 * r + i)) (X r ! i)" "ext_ok (X r ! i)" using i(2) by (simp_all add: inode_ok_def)
  have h: "holds e r i p" using i(2) assms(4,5) by (fastforce simp: inode_ok_def holds_def covers_def)
  have f: "read_inode_loop (i_node e) (6 * r) p 0 INDEX_NODE_SIZE = Some i"
    using read_inode_loop_holds[OF ok h assms(3), of 0 6] by (simp add: INDEX_NODE_SIZE_def)
  obtain k where k: "k < length (X r ! i)" "X r ! i ! k = x" using assms(4) by (auto simp: in_set_conv_nth)
  have "read_leaf_loop (l_node e) (6 * (6 * r + i)) p 0 LEAF_NODE_SIZE = Some k"
    using read_leaf_loop_member[OF b k(1), of p 0 6] k(2) assms(5) by (simp add: LEAF_NODE_SIZE_def)
  moreover have "lf_used (l_node e (6 * (6 * r + i)))" using blk_used[OF b(1), of 0] k(1) by auto
  moreover have "ix_l_node (i_node e (6 * r + i)) = Some (6 * (6 * r + i))" using l i(1) by (simp add: links_ok_def)
  ultimately show ?thesis using f k blk_nth[OF b(1) k(1)] by (simp add: pm_read_extmap_def)
qed

text \<open>C5: Inserting an extent into a well-formed table, where it lies in one index node that has
  room: the insertion returns, the table stays well-formed, afterwards the lookup gives the new
  physical pages for the pages of the extent and, for every other page of every root, what it
  gave before. Old extents that the new one covers disappear, those it overlaps are cut, one
  that it splits becomes two.\<close>

theorem pm_insert_leafnode_ok:
  fixes ppn :: u32
  assumes e: "get_extents s n = Some e" "ext_inv L e X" "r \<in> L"
    and addr: "r = GET_ROOT_NUM_PER_REGION (unat lpn_ori div NUM_PAGE_PER_ROOT)"
      "lpn = unat lpn_ori mod NUM_PAGE_PER_ROOT" "0 < sz"
    and room: "i < length (X r)" "length (X r ! i) \<le> 4" "holds e r i lpn"
      "lpn + sz \<le> idx_end (i_node e (6 * r + i))"
  shows "\<exists>e' ys. pm_insert_leafnode c lpn_ori sz ppn n s = Some (set_extents n e' s)
    \<and> ext_inv L e' (X(r := (X r)[i := ys])) \<and> length ys \<le> length (X r ! i) + 2
    \<and> (\<forall>r' \<in> L. \<forall>p < 2048. ext_lookup e' r' p =
        (if r' = r \<and> lpn \<le> p \<and> p < lpn + sz then Some (ppn + of_nat (p - lpn))
         else ext_lookup e r' p))"
  using pm_insert_leafnode_eq[OF assms] by blast

definition table_state :: ftl_state where
  "table_state = set_extents 0 (pm_init_extmap zero_extents) zero_state"

lemma table_state: "get_extents table_state 0 = Some (pm_init_extmap zero_extents)"
  by (simp add: table_state_def)

lemma init_holds: "p < 2048 \<Longrightarrow> holds (pm_init_extmap zero_extents) 0 0 p"
  by (simp add: holds_def idx_end_def pm_init_extmap_def pm_init_extmap_link_def pm_sizes
        zero_extents_def zero_idx_def)

lemma init_idx_end: "idx_end (i_node (pm_init_extmap zero_extents) 0) = 2048"
  by (simp add: idx_end_def pm_init_extmap_def pm_init_extmap_link_def pm_sizes
        zero_extents_def zero_idx_def)

lemma pm_insert_leafnode_ok_witness:
  "\<exists>e'. pm_insert_leafnode small_config 5 3 100 0 table_state = Some (set_extents 0 e' table_state)
    \<and> ext_lookup e' 0 7 = Some 102 \<and> ext_lookup e' 0 8 = None"
proof -
  have "ext_lookup (pm_init_extmap zero_extents) 0 8 = None"
    using ext_lookup_holds[OF init_ext_inv _ init_holds, of 8] by simp
  with pm_insert_leafnode_ok[OF table_state init_ext_inv, where r = 0 and lpn = 5 and lpn_ori = 5
      and sz = 3 and i = 0 and c = small_config and ppn = 100]
    init_holds[of 5] init_idx_end
  show ?thesis by (fastforce simp: GET_ROOT_NUM_PER_REGION_def pm_sizes)
qed

subsection \<open>A full index node\<close>

text \<open>A well-formed table whose first index node is full: six extents of ten pages.\<close>

definition full_leaves :: "leaf list" where
  "full_leaves = map (\<lambda>k. new_leaf (10 * k) 10 (500 + 10 * of_nat k)) [0 ..< 6]"

definition full_table :: extents_node where
  "full_table = (pm_init_extmap zero_extents)
     \<lparr>l_node := (\<lambda>k. if k < 6 then full_leaves ! k else free_leaf)\<rparr>"

definition lookup_after :: "ftl_state option \<Rightarrow> nat \<Rightarrow> nat \<Rightarrow> u32 option option" where
  "lookup_after s r p = do { s1 \<leftarrow> s; e \<leftarrow> get_extents s1 0; Some (ext_lookup e r p) }"

lemma full_table_inv: "ext_inv {..<16} full_table (\<lambda>r. if r = 0 then [full_leaves] else [[]])"
proof -
  let ?e = "pm_init_extmap zero_extents" and ?ls = "\<lambda>k. if k < 6 then full_leaves ! k else free_leaf"
  have six: "[0 ..< 6] = [0, 1, 2, 3, 4, 5::nat]" by (simp add: upt_rec)
  have blk0: "blk ?ls 0 full_leaves" by (simp add: blk_def full_leaves_def new_leaf_def free_leaf_def zero_leaf_def)
  have blkn: "blk ?ls (6 * j) []" if "0 < j" for j
    using that by (auto simp: blk_def free_leaf_def zero_leaf_def)
  have ok: "root_ok ?e r [[]]" if "r < 16" for r
    using init_ext_inv that by (auto simp: ext_inv_def)
  have "root_ok full_table 0 [full_leaves]"
    using ok[of 0] blk0
    by (auto simp: root_ok_def inode_ok_def full_table_def ext_ok_def leaf_ok_def lf_end_def
        full_leaves_def new_leaf_def six)
  moreover have "root_ok full_table r [[]]" if "r < 16" "r \<noteq> 0" for r
    using ok[OF that(1)] blkn[of "6 * r"] that
    by (auto simp: root_ok_def inode_ok_def full_table_def)
  moreover have "links_ok full_table r" if "r < 16" for r
    using init_ext_inv that by (simp add: ext_inv_def links_ok_def full_table_def)
  ultimately show ?thesis by (simp add: ext_inv_def)
qed

text \<open>C21: Inserting into a full index node goes wrong when the new extent starts inside its fourth
  leaf. In a table that maps pages 30 to 39 by that leaf, writing pages 35 and 36 to the physical
  pages 900 and 901 splits the node, the new extent goes to the upper half, the fourth leaf stays
  in the lower half and is not cut, and page 36 is still looked up in its old place 536.\<close>

theorem insert_full_node_stale:
  "ext_inv {..<16} full_table (\<lambda>r. if r = 0 then [full_leaves] else [[]])
   \<and> ext_lookup full_table 0 36 = Some 536
   \<and> lookup_after (pm_insert_leafnode small_config 35 2 900 0 (set_extents 0 full_table zero_state)) 0 36
       = Some (Some 536)"
proof (intro conjI)
  show "ext_lookup full_table 0 36 = Some 536" by code_simp
  show "lookup_after (pm_insert_leafnode small_config 35 2 900 0 (set_extents 0 full_table zero_state)) 0 36
      = Some (Some 536)"
    by code_simp
qed (rule full_table_inv)

end
