(* ===== verification/MapView.thy ===== *)
theory MapView
  imports ClockSpec ExtentsMap
begin

text \<open>
  The mapping tables as the rest of the FTL sees them, wherever they are. A slot is an owner of
  a table: the extents table of a region, or the page map of one root. \<open>tab s x\<close> is the table of
  slot \<open>x\<close>, read from its cache line when it has one and from the map store when not. The
  invariant \<open>cache_inv\<close> ties the pointers of the regions, the cache lines, the clock and the
  store together; lines that were taken and have no owner yet are the set \<open>H\<close>.
\<close>

subsection \<open>Slots\<close>

datatype slot = ExtSlot nat | PageSlot nat nat

datatype map_val = ExtVal extents_node | PageVal "nat \<Rightarrow> u32"

fun slot_ptr :: "ftl_state \<Rightarrow> slot \<Rightarrow> nat option" where
  "slot_ptr s (ExtSlot rg) = ptr_cache_e (region_table s rg)"
| "slot_ptr s (PageSlot rg r) = ptr_cache_p (region_table s rg) r"

fun slot_ppn :: "ftl_state \<Rightarrow> slot \<Rightarrow> u32" where
  "slot_ppn s (ExtSlot rg) = extents_ppn (region_table s rg)"
| "slot_ppn s (PageSlot rg r) = page_ppn (region_table s rg) r"

text \<open>The contents of a line as the table of a slot. The links inside an extents table are set
  again whenever it is read from flash, so they are normalised.\<close>

fun slot_val :: "slot \<Rightarrow> cline \<Rightarrow> map_val option" where
  "slot_val (ExtSlot rg) l = map_option (\<lambda>e. ExtVal (pm_init_extmap_link e)) (line_extents l)"
| "slot_val (PageSlot rg r) l = map_option PageVal (line_pagemap l)"

fun slot_region :: "slot \<Rightarrow> nat" where
  "slot_region (ExtSlot rg) = rg"
| "slot_region (PageSlot rg r) = rg"

fun slot_ok :: "config \<Rightarrow> slot \<Rightarrow> bool" where
  "slot_ok c (ExtSlot rg) \<longleftrightarrow> rg < REGION_NODE_SIZE c"
| "slot_ok c (PageSlot rg r) \<longleftrightarrow> rg < REGION_NODE_SIZE c \<and> r < 16"

text \<open>The owner a line's entry names.\<close>

definition slot_of :: "cache_idx_entry \<Rightarrow> slot" where
  "slot_of t = (if ref_type t = PAGE_MAP then PageSlot (map_num t div 16) (map_num t mod 16)
                else ExtSlot (map_num t))"

definition stored :: "ftl_state \<Rightarrow> u32 \<Rightarrow> cline option" where
  "stored s ppn = (if ppn = M1 then None
     else case READ_MAP ppn (map_store s) of Some (CachePage l) \<Rightarrow> Some l | _ \<Rightarrow> None)"

definition saved :: "ftl_state \<Rightarrow> slot \<Rightarrow> map_val option" where
  "saved s x = Option.bind (stored s (slot_ppn s x)) (slot_val x)"

definition tab :: "ftl_state \<Rightarrow> slot \<Rightarrow> map_val option" where
  "tab s x = (case slot_ptr s x of Some n \<Rightarrow> slot_val x (cache_map s n) | None \<Rightarrow> saved s x)"

subsection \<open>The invariant\<close>

definition used_lines :: "ftl_state \<Rightarrow> nat set" where
  "used_lines s = {n. \<exists>x. slot_ptr s x = Some n}"

definition lines :: "config \<Rightarrow> nat" where
  "lines c = nat (CACHE_IDX_SIZE c)"

text \<open>While the cache fills up, the lines behind the hand are in use and the others were never
  touched; after that every line is in use.\<close>

definition clock_ok :: "config \<Rightarrow> nat set \<Rightarrow> ftl_state \<Rightarrow> bool" where
  "clock_ok c H s \<longleftrightarrow> clock_hand s < lines c \<and>
     (if cache_wp s < lines c
      then clock_hand s = cache_wp s \<and> used_lines s \<union> H = {1 .. cache_wp s} \<and>
           (\<forall>n. n \<notin> {1 .. cache_wp s} \<longrightarrow> cache_map s n = ZeroLine \<and>
              \<not> clock_bit (cache_idx_table s n) \<and> \<not> update_bit (cache_idx_table s n))
      else used_lines s \<union> H = {..< lines c})"

definition owners_ok :: "config \<Rightarrow> nat set \<Rightarrow> ftl_state \<Rightarrow> bool" where
  "owners_ok c H s \<longleftrightarrow> (\<forall>x n. slot_ptr s x = Some n \<longrightarrow>
     slot_ok c x \<and> n < lines c \<and> n \<notin> H \<and> slot_of (cache_idx_table s n) = x)"

text \<open>A slot that has a table has a readable one, and a line that is not marked as changed agrees
  with the copy in the store.\<close>

definition saved_ok :: "config \<Rightarrow> ftl_state \<Rightarrow> bool" where
  "saved_ok c s \<longleftrightarrow> (\<forall>x. slot_ok c x \<longrightarrow>
     (slot_ptr s x \<noteq> None \<or> slot_ppn s x \<noteq> M1 \<longrightarrow> tab s x \<noteq> None) \<and>
     (\<forall>n. slot_ptr s x = Some n \<and> \<not> update_bit (cache_idx_table s n) \<longrightarrow> saved s x = tab s x))"

definition cache_inv :: "config \<Rightarrow> nat set \<Rightarrow> ftl_state \<Rightarrow> bool" where
  "cache_inv c H s \<longleftrightarrow> cfg_wf c \<and> 2 \<le> lines c \<and> alloc_ok c (ftl_meta s) \<and> H \<subseteq> {..< lines c}
     \<and> clock_ok c H s \<and> owners_ok c H s \<and> saved_ok c s"

lemma slot_ptr_inj:
  "owners_ok c H s \<Longrightarrow> slot_ptr s x = Some n \<Longrightarrow> slot_ptr s y = Some n \<Longrightarrow> x = y"
  unfolding owners_ok_def by metis

subsection \<open>Frames\<close>

text \<open>The store only grows: a page that can be read is never overwritten.\<close>

definition store_grows :: "ftl_state \<Rightarrow> ftl_state \<Rightarrow> bool" where
  "store_grows s t \<longleftrightarrow> (\<forall>k v. READ_MAP k (map_store s) = Some v \<longrightarrow> READ_MAP k (map_store t) = Some v)"

lemma store_grows_refl [simp]: "store_grows s s"
  by (simp add: store_grows_def)

lemma store_grows_trans: "store_grows s t \<Longrightarrow> store_grows t u \<Longrightarrow> store_grows s u"
  by (simp add: store_grows_def)

lemma store_grows_WRITE_MAP:
  "map_store t = WRITE_MAP k v (map_store s) \<Longrightarrow> store_grows s t"
  by (simp add: store_grows_def ms.rd_mono)

lemma stored_grows: "store_grows s t \<Longrightarrow> stored s p \<noteq> None \<Longrightarrow> stored t p = stored s p"
  by (auto simp: store_grows_def stored_def split: option.splits map_page.splits)

lemma saved_grows:
  "store_grows s t \<Longrightarrow> slot_ppn t x = slot_ppn s x \<Longrightarrow> saved s x \<noteq> None \<Longrightarrow> saved t x = saved s x"
  using stored_grows[of s t "slot_ppn s x"]
  by (cases "stored s (slot_ppn s x)") (auto simp: saved_def)

lemma saved_M1 [simp]: "slot_ppn s x = M1 \<Longrightarrow> saved s x = None"
  by (simp add: saved_def stored_def)

lemma slot_frame:
  assumes "region_table t = region_table s"
  shows "slot_ptr t x = slot_ptr s x" "slot_ppn t x = slot_ppn s x"
  using assms by (cases x; simp)+

text \<open>What the data path sees of the rest of the state: the pointer that hands out data pages, the
  number of free pages, and the data pages that were read and written.\<close>

fun data_event :: "io_event \<Rightarrow> bool" where
  "data_event (SSD_PAGE_READ b k p n ty) = (ty = READ)"
| "data_event (SSD_PAGE_WRITE b k p n ty) = (ty = WRITE)"
| "data_event e = False"

definition data_io :: "ftl_state \<Rightarrow> io_event list" where
  "data_io s = filter data_event (io_trace s)"

definition data_view :: "ftl_state \<Rightarrow> u32 \<times> u32 \<times> int \<times> io_event list" where
  "data_view s = (write_block_ptr (ftl_meta s), write_ptr (ftl_meta s), free_page_cnt s, data_io s)"

text \<open>A step that leaves regions, lines, clock and data path alone.\<close>

definition map_frame :: "config \<Rightarrow> ftl_state \<Rightarrow> ftl_state \<Rightarrow> bool" where
  "map_frame c s t \<longleftrightarrow> region_table t = region_table s \<and> cache_map t = cache_map s
     \<and> cache_idx_table t = cache_idx_table s \<and> cache_wp t = cache_wp s
     \<and> clock_hand t = clock_hand s \<and> store_grows s t
     \<and> (alloc_ok c (ftl_meta s) \<longrightarrow> alloc_ok c (ftl_meta t) \<and> data_view t = data_view s)"

lemma map_frame_trans: "map_frame c s t \<Longrightarrow> map_frame c t u \<Longrightarrow> map_frame c s u"
  by (auto simp: map_frame_def intro: store_grows_trans)

lemma map_frame_inv:
  assumes "map_frame c s t" "cache_inv c H s"
  shows "cache_inv c H t" "slot_ok c x \<Longrightarrow> tab t x = tab s x"
proof -
  have r: "region_table t = region_table s" "cache_map t = cache_map s" "store_grows s t"
    "cache_idx_table t = cache_idx_table s"
    using assms(1) by (auto simp: map_frame_def)
  note f = slot_frame[OF r(1)]
  have sv: "saved t x = saved s x" if "saved s x \<noteq> None" for x
    using saved_grows[OF r(3) f(2) that] .
  have tab: "tab t x = tab s x" if "slot_ok c x" for x
  proof (cases "slot_ptr s x")
    case (Some n)
    then show ?thesis by (simp add: tab_def f r)
  next
    case None
    show ?thesis
    proof (cases "slot_ppn s x = M1")
      case True
      then show ?thesis using None by (simp add: tab_def f)
    next
      case False
      then have "tab s x \<noteq> None" using assms(2) that by (simp add: cache_inv_def saved_ok_def)
      then show ?thesis using None sv by (simp add: tab_def f)
    qed
  qed
  then show "slot_ok c x \<Longrightarrow> tab t x = tab s x" .
  have "saved t x = tab t x" if "slot_ok c x" "slot_ptr s x = Some n"
    "\<not> update_bit (cache_idx_table s n)" for x n
  proof -
    have "saved s x = tab s x" "tab s x \<noteq> None"
      using assms(2) that by (auto simp: cache_inv_def saved_ok_def)
    then show ?thesis using sv[of x] tab[OF that(1)] by simp
  qed
  then have "saved_ok c t"
    using assms(2) tab by (auto simp: cache_inv_def saved_ok_def f r)
  moreover have "used_lines t = used_lines s" by (simp add: used_lines_def f)
  ultimately show "cache_inv c H t"
    using assms by (simp add: cache_inv_def clock_ok_def owners_ok_def map_frame_def f)
qed

end
