(* ===== verification/MapTake.thy ===== *)
theory MapTake
  imports MapView
begin

text \<open>
  Taking a cache line. \<open>cache_take\<close> gives a line that has no owner and is cleared, and changes no
  table: what it evicts is in the store afterwards.
\<close>

subsection \<open>Choosing a line\<close>

definition region_ptr_frame :: "config \<Rightarrow> ftl_state \<Rightarrow> ftl_state \<Rightarrow> bool" where
  "region_ptr_frame c s t \<longleftrightarrow> region_table t = region_table s \<and> cache_map t = cache_map s
     \<and> map_store t = map_store s \<and> ftl_meta t = ftl_meta s \<and> data_view t = data_view s
     \<and> (\<forall>n. slot_of (cache_idx_table t n) = slot_of (cache_idx_table s n)
          \<and> ref_type (cache_idx_table t n) = ref_type (cache_idx_table s n)
          \<and> map_num (cache_idx_table t n) = map_num (cache_idx_table s n)
          \<and> update_bit (cache_idx_table t n) = update_bit (cache_idx_table s n))"

lemma region_ptr_frame_tab:
  assumes "region_ptr_frame c s t"
  shows "tab t x = tab s x" "saved t x = saved s x"
proof -
  have r: "region_table t = region_table s" "cache_map t = cache_map s" "map_store t = map_store s"
    using assms by (simp_all add: region_ptr_frame_def)
  note f = slot_frame[OF r(1)]
  show sv: "saved t x = saved s x" by (simp add: saved_def stored_def f r)
  show "tab t x = tab s x" by (simp add: tab_def f r sv split: option.split)
qed

lemma region_ptr_frame_ok:
  assumes "region_ptr_frame c s t" "cache_inv c H s"
  shows "owners_ok c H t" "saved_ok c t" "alloc_ok c (ftl_meta t)" "used_lines t = used_lines s"
proof -
  have r: "region_table t = region_table s" "ftl_meta t = ftl_meta s"
    "slot_of (cache_idx_table t n) = slot_of (cache_idx_table s n)"
    "update_bit (cache_idx_table t n) = update_bit (cache_idx_table s n)" for n
    using assms(1) by (auto simp: region_ptr_frame_def)
  note f = slot_frame[OF r(1)] region_ptr_frame_tab[OF assms(1)]
  show "owners_ok c H t" "saved_ok c t" "alloc_ok c (ftl_meta t)" "used_lines t = used_lines s"
    using assms(2) by (simp_all add: cache_inv_def owners_ok_def saved_ok_def used_lines_def f r)
qed

lemma select_victim_frame:
  assumes "cache_inv c H s"
  shows "\<exists>i t. cache_select_victim c avoid s = Some (i, t) \<and> i < lines c \<and> avoid \<noteq> Some i
    \<and> clock_hand t = i \<and> cache_wp t = cache_wp s \<and> region_ptr_frame c s t
    \<and> (\<forall>k. k \<noteq> i \<and> \<not> clock_bit (cache_idx_table s k) \<longrightarrow> \<not> clock_bit (cache_idx_table t k))"
proof -
  have n: "2 \<le> CACHE_IDX_SIZE c" "int (clock_hand s) < CACHE_IDX_SIZE c"
    using assms by (auto simp: cache_inv_def clock_ok_def lines_def)
  obtain i passed where p: "second_chance (clock_order (nat (CACHE_IDX_SIZE c)) avoid (clock_hand s))
      (\<lambda>i. clock_bit (cache_idx_table s i)) = (i, passed)" by fastforce
  from cache_select_victim_eq[OF n p] show ?thesis
    by (auto simp: region_ptr_frame_def slot_of_def lines_def data_view_def data_io_def)
qed

text \<open>While the cache fills up the next untouched line is taken.\<close>

lemma second_chance_hd: "\<not> bits x \<Longrightarrow> second_chance (x # xs) bits = (x, [])"
  by (simp add: second_chance_def)

lemma select_victim_cold:
  assumes "cache_inv c H s" "cache_wp s < lines c"
  defines "i \<equiv> (if cache_wp s + 1 = lines c then 0 else cache_wp s + 1)"
  shows "\<exists>t. cache_select_victim c None s = Some (i, t) \<and> clock_hand t = i \<and> region_ptr_frame c s t
    \<and> cache_wp t = cache_wp s \<and> i < lines c \<and> i \<notin> used_lines s \<union> H
    \<and> (\<forall>k. k \<noteq> i \<longrightarrow> clock_bit (cache_idx_table t k) = clock_bit (cache_idx_table s k))"
proof -
  have n: "2 \<le> CACHE_IDX_SIZE c" "int (clock_hand s) < CACHE_IDX_SIZE c" "clock_hand s = cache_wp s"
    and u: "used_lines s \<union> H = {1 .. cache_wp s}"
    and new: "\<And>n. n \<notin> {1 .. cache_wp s} \<Longrightarrow> \<not> clock_bit (cache_idx_table s n)"
    using assms by (auto simp: cache_inv_def clock_ok_def lines_def)
  have i: "i < lines c" "i \<notin> {1 .. cache_wp s}" "i = (cache_wp s + 1) mod lines c"
    using assms(2) by (auto simp: i_def)
  have "lines c \<noteq> 0" using assms(2) by simp
  then obtain xs where "clock_order (lines c) None (clock_hand s) = i # xs"
    using i(3) n(3) by (simp add: clock_order_def upt_conv_Cons)
  then have "second_chance (clock_order (nat (CACHE_IDX_SIZE c)) None (clock_hand s))
      (\<lambda>i. clock_bit (cache_idx_table s i)) = (i, [])"
    using new[OF i(2)] by (simp add: second_chance_hd lines_def)
  from cache_select_victim_eq[OF n(1,2) this] show ?thesis
    using i u by (auto simp: region_ptr_frame_def slot_of_def lines_def data_view_def data_io_def)
qed

subsection \<open>Writing the region table\<close>

lemma WRITE_MAP_frame:
  "map_frame c s (ftl_write_map c p d s)"
  by (auto simp: map_frame_def ftl_write_map_def Let_def log_io_def data_view_def data_io_def
      intro: store_grows_WRITE_MAP)

lemma pm_update_region_frame:
  assumes "cfg_wf c" "alloc_ok c (ftl_meta s)"
  shows "map_frame c s (pm_update_region c rg s)"
proof -
  obtain p m B where r: "ftl_get_free_page_reserved c s = (p, s\<lparr>ftl_meta := m, free_blk_bitmap := B\<rparr>)"
    "alloc_ok c m" "write_block_ptr m = write_block_ptr (ftl_meta s)" "write_ptr m = write_ptr (ftl_meta s)"
    using ftl_get_free_page_reserved_ok[OF assms] by blast
  have "map_frame c s (s\<lparr>ftl_meta := m, free_blk_bitmap := B\<rparr>)"
    using r(2-4) by (simp add: map_frame_def store_grows_def data_view_def data_io_def)
  moreover have "map_frame c t (pm_update_region_idx_ppn c k q t)" for t k q
    by (simp add: map_frame_def pm_update_region_idx_ppn_def store_grows_def data_view_def data_io_def)
  ultimately show ?thesis
    using WRITE_MAP_frame map_frame_trans
    by (simp add: pm_update_region_def Let_def r(1)) (meson map_frame_trans WRITE_MAP_frame)
qed


subsection \<open>Eviction\<close>

definition evict_slot :: "config \<Rightarrow> nat \<Rightarrow> u32 \<Rightarrow> ftl_state \<Rightarrow> (nat \<times> ftl_state) option" where
  "evict_slot c t p s = (if ref_type (cache_idx_table s t) = PAGE_MAP then evict_pagemap c t p s
                         else evict_extents c t p s)"

lemma slot_cases:
  "slot_ptr s y = (case y of ExtSlot rg \<Rightarrow> ptr_cache_e (region_table s rg)
     | PageSlot rg r \<Rightarrow> ptr_cache_p (region_table s rg) r)"
  "slot_ppn s y = (case y of ExtSlot rg \<Rightarrow> extents_ppn (region_table s rg)
     | PageSlot rg r \<Rightarrow> page_ppn (region_table s rg) r)"
  by (cases y; simp)+

lemma evict_slot_effect:
  assumes "slot_ptr s x = Some t" "slot_of (cache_idx_table s t) = x"
  defines "dirty \<equiv> update_bit (cache_idx_table s t)"
  shows "\<exists>s3. evict_slot c t p s = Some (slot_region x, s3)
    \<and> (\<forall>y. slot_ptr s3 y = (if y = x then None else slot_ptr s y))
    \<and> (\<forall>y. slot_ppn s3 y = (if y = x \<and> dirty then p else slot_ppn s y))
    \<and> map_store s3 = (if dirty then WRITE_MAP p (CachePage (cache_map s t)) (map_store s) else map_store s)
    \<and> cache_map s3 = (cache_map s)(t := ZeroLine)
    \<and> cache_idx_table s3 = (cache_idx_table s)(t := (cache_idx_table s t)\<lparr>update_bit := False\<rparr>)
    \<and> (\<forall>rg. map_type (region_table s3 rg) = map_type (region_table s rg))
    \<and> cache_wp s3 = cache_wp s \<and> clock_hand s3 = clock_hand s \<and> ftl_meta s3 = ftl_meta s
    \<and> data_view s3 = data_view s"
proof (cases x)
  case (ExtSlot rg)
  then have e: "ref_type (cache_idx_table s t) \<noteq> PAGE_MAP" "map_num (cache_idx_table s t) = rg"
    "ptr_cache_e (region_table s rg) = Some t"
    using assms(1,2) by (auto simp: slot_of_def split: if_splits)
  show ?thesis
    using e unfolding evict_slot_def evict_extents_def dirty_def Let_def
    by (cases "update_bit (cache_idx_table s t)")
       (auto simp: upd_region_def upd_cache_idx_def ftl_write_map_def log_io_def ExtSlot Let_def fun_eq_iff
         slot_cases data_view_def data_io_def split: slot.split)
next
  case (PageSlot rg r)
  then have e: "ref_type (cache_idx_table s t) = PAGE_MAP" "map_num (cache_idx_table s t) div 16 = rg"
    "map_num (cache_idx_table s t) mod 16 = r" "ptr_cache_p (region_table s rg) r = Some t"
    using assms(1,2) by (auto simp: slot_of_def split: if_splits)
  show ?thesis
    using e unfolding evict_slot_def evict_pagemap_def dirty_def Let_def ROOT_NODE_SIZE_def
      GET_ROOT_NUM_PER_REGION_def
    by (cases "update_bit (cache_idx_table s t)")
       (auto simp: upd_region_def upd_cache_idx_def ftl_write_map_def log_io_def PageSlot Let_def fun_eq_iff
         slot_cases data_view_def data_io_def split: slot.split)
qed


text \<open>The slot loses its line; its table is the one in the store now, all others are as before.\<close>

lemma evict_slot_inv:
  assumes "cache_inv c H s" "slot_ptr s x = Some t" "p \<noteq> M1" "READ_MAP p (map_store s) = None"
  shows "\<exists>s3. evict_slot c t p s = Some (slot_region x, s3)
    \<and> owners_ok c H s3 \<and> saved_ok c s3 \<and> used_lines s3 = used_lines s - {t}
    \<and> (\<forall>y. slot_ok c y \<longrightarrow> tab s3 y = tab s y)
    \<and> cache_map s3 = (cache_map s)(t := ZeroLine) \<and> \<not> update_bit (cache_idx_table s3 t)
    \<and> (\<forall>n. n \<noteq> t \<longrightarrow> cache_idx_table s3 n = cache_idx_table s n)
    \<and> (\<forall>y. slot_ptr s3 y = (if y = x then None else slot_ptr s y))
    \<and> (\<forall>rg. map_type (region_table s3 rg) = map_type (region_table s rg))
    \<and> cache_wp s3 = cache_wp s \<and> clock_hand s3 = clock_hand s \<and> ftl_meta s3 = ftl_meta s
    \<and> data_view s3 = data_view s"
proof -
  have own: "owners_ok c H s" and sv: "saved_ok c s" using assms(1) by (simp_all add: cache_inv_def)
  have x: "slot_of (cache_idx_table s t) = x" "slot_ok c x"
    using own assms(2) by (auto simp: owners_ok_def)
  define dirty where "dirty = update_bit (cache_idx_table s t)"
  obtain s3 where s3: "evict_slot c t p s = Some (slot_region x, s3)"
    and ptr: "\<And>y. slot_ptr s3 y = (if y = x then None else slot_ptr s y)"
    and ppn: "\<And>y. slot_ppn s3 y = (if y = x \<and> dirty then p else slot_ppn s y)"
    and store: "map_store s3 = (if dirty then WRITE_MAP p (CachePage (cache_map s t)) (map_store s)
      else map_store s)"
    and line: "cache_map s3 = (cache_map s)(t := ZeroLine)"
    and idx: "cache_idx_table s3 = (cache_idx_table s)(t := (cache_idx_table s t)\<lparr>update_bit := False\<rparr>)"
    and rest: "\<forall>rg. map_type (region_table s3 rg) = map_type (region_table s rg)"
      "cache_wp s3 = cache_wp s" "clock_hand s3 = clock_hand s" "ftl_meta s3 = ftl_meta s"
      "data_view s3 = data_view s"
    using evict_slot_effect[OF assms(2) x(1), of c p] unfolding dirty_def by blast
  have grows: "store_grows s s3" using store ms.rd_mono by (auto simp: store_grows_def)
  have other: "saved s3 y = saved s y" if "y \<noteq> x" "saved s y \<noteq> None" for y
    using saved_grows[OF grows _ that(2)] ppn[of y] that(1) by simp
  have tx: "tab s x \<noteq> None" using sv x(2) assms(2) by (auto simp: saved_ok_def)
  have save: "saved s3 x = tab s x"
  proof (cases dirty)
    case True
    then have "stored s3 p = Some (cache_map s t)"
      using store ms.rd_wr_fresh[OF assms(4)] assms(3) by (simp add: stored_def)
    then show ?thesis using ppn[of x] True assms(2) by (simp add: saved_def tab_def)
  next
    case False
    then have "saved s x = tab s x" using sv x(2) assms(2) by (auto simp: saved_ok_def dirty_def)
    then show ?thesis using saved_grows[OF grows, of x] ppn[of x] False tx by simp
  qed
  have t_only: "n \<noteq> t" if "slot_ptr s y = Some n" "y \<noteq> x" for y n
    using slot_ptr_inj[OF own assms(2)] that by auto
  have tab: "tab s3 y = tab s y" if "slot_ok c y" for y
  proof (cases "y = x")
    case True
    then show ?thesis using save ptr[of x] by (simp add: tab_def)
  next
    case False
    show ?thesis
    proof (cases "slot_ptr s y")
      case (Some n)
      then show ?thesis using t_only[OF Some False] ptr[of y] False line by (simp add: tab_def)
    next
      case None
      then have "saved s y = tab s y" "slot_ppn s y = M1 \<or> saved s y \<noteq> None"
        using sv that by (auto simp: saved_ok_def tab_def)
      then show ?thesis using None ptr[of y] ppn[of y] False other[OF False] by (auto simp: tab_def)
    qed
  qed
  have "owners_ok c H s3"
    using own t_only by (auto simp: owners_ok_def ptr idx split: if_splits)
  moreover have "saved_ok c s3"
    unfolding saved_ok_def
  proof (intro allI impI conjI)
    fix y assume y: "slot_ok c y"
    show "tab s3 y \<noteq> None" if "slot_ptr s3 y \<noteq> None \<or> slot_ppn s3 y \<noteq> M1"
      using that tab[OF y] tx sv y by (cases "y = x") (auto simp: ptr ppn saved_ok_def)
    show "saved s3 y = tab s3 y" if "slot_ptr s3 y = Some n \<and> \<not> update_bit (cache_idx_table s3 n)" for n
    proof -
      have n: "y \<noteq> x" "slot_ptr s y = Some n" using that ptr[of y] by (auto split: if_splits)
      then have "\<not> update_bit (cache_idx_table s n)" using that t_only[OF n(2,1)] idx by simp
      then have "saved s y = tab s y" "tab s y \<noteq> None" using sv y n(2) by (auto simp: saved_ok_def)
      then show ?thesis using tab[OF y] other[OF n(1)] by simp
    qed
  qed
  moreover have "used_lines s3 = used_lines s - {t}"
    using t_only assms(2) by (auto simp: used_lines_def ptr) (metis option.inject)
  ultimately show ?thesis
    using s3 tab line ptr rest idx by (intro exI[of _ s3]) simp
qed


subsection \<open>Taking a line\<close>

text \<open>What a client of \<open>cache_take\<close> relies on.\<close>

definition line_taken :: "config \<Rightarrow> nat set \<Rightarrow> nat \<Rightarrow> ftl_state \<Rightarrow> ftl_state \<Rightarrow> bool" where
  "line_taken c H t s s' \<longleftrightarrow> t < lines c \<and> t \<notin> H \<and> cache_inv c (insert t H) s'
     \<and> (\<forall>x. slot_ok c x \<longrightarrow> tab s' x = tab s x)
     \<and> cache_map s' t = ZeroLine \<and> \<not> update_bit (cache_idx_table s' t)
     \<and> (\<forall>n. n \<noteq> t \<longrightarrow> cache_map s' n = cache_map s n)
     \<and> (\<forall>x. slot_ptr s' x = (if slot_ptr s x = Some t then None else slot_ptr s x))
     \<and> (\<forall>x. slot_ptr s x \<noteq> Some t \<longrightarrow> slot_ppn s' x = slot_ppn s x)
     \<and> (\<forall>rg. map_type (region_table s' rg) = map_type (region_table s rg))
     \<and> data_view s' = data_view s"

lemma cache_take_cold:
  assumes "cache_inv c H s" "cache_wp s < lines c"
  shows "\<exists>t s'. cache_take c avoid s = Some (t, s') \<and> line_taken c H t s s'"
proof -
  define t where "t = (if cache_wp s + 1 = lines c then 0 else cache_wp s + 1)"
  obtain s1 where s1: "cache_select_victim c None s = Some (t, s1)" "clock_hand s1 = t"
    "region_ptr_frame c s s1" "cache_wp s1 = cache_wp s" "t < lines c" "t \<notin> used_lines s \<union> H"
    and bits: "\<And>k. k \<noteq> t \<Longrightarrow> clock_bit (cache_idx_table s1 k) = clock_bit (cache_idx_table s k)"
    using select_victim_cold[OF assms] unfolding t_def by blast
  define s' where "s' = s1\<lparr>cache_wp := cache_wp s1 + 1\<rparr>"
  have fr: "region_ptr_frame c s s'" using s1(3)
    by (simp add: s'_def region_ptr_frame_def data_view_def data_io_def)
  note ok = region_ptr_frame_ok[OF fr assms(1)]
  have r: "region_table s' = region_table s" "cache_map s' = cache_map s"
    "\<And>n. update_bit (cache_idx_table s' n) = update_bit (cache_idx_table s n)"
    using fr by (auto simp: region_ptr_frame_def)
  have dv: "data_view s' = data_view s" using fr by (simp add: region_ptr_frame_def)
  note f = slot_frame[OF r(1)]
  have inv: "cfg_wf c" "2 \<le> lines c" "H \<subseteq> {..< lines c}" "used_lines s \<union> H = {1 .. cache_wp s}"
    and cold: "\<And>n. n \<notin> {1 .. cache_wp s} \<Longrightarrow> cache_map s n = ZeroLine \<and>
      \<not> clock_bit (cache_idx_table s n) \<and> \<not> update_bit (cache_idx_table s n)"
    using assms by (auto simp: cache_inv_def clock_ok_def)
  have "owners_ok c (insert t H) s'"
    using ok(1) s1(6) f by (fastforce simp: owners_ok_def used_lines_def)
  moreover have "clock_ok c (insert t H) s'"
    using assms(2) s1(2,4,5) inv(4) ok(4) cold bits r
    by (auto simp: clock_ok_def t_def s'_def split: if_splits)
  ultimately have "cache_inv c (insert t H) s'"
    using ok inv s1(5) by (simp add: cache_inv_def)
  moreover have "cache_take c avoid s = Some (t, s')"
    using s1(1) assms(2) by (auto simp: cache_take_def lines_def s'_def)
  moreover have "slot_ptr s x \<noteq> Some t" for x using s1(6) by (auto simp: used_lines_def)
  moreover have "cache_map s t = ZeroLine" "\<not> update_bit (cache_idx_table s t)"
    using cold[of t] s1(6) inv(4) by auto
  ultimately show ?thesis
    using s1(5,6) region_ptr_frame_tab[OF fr] r f dv
    by (intro exI[of _ t] exI[of _ s']) (simp add: line_taken_def)
qed

lemma map_page_frame:
  assumes "cfg_wf c" "alloc_ok c (ftl_meta s)"
  shows "\<exists>p s2. ftl_get_free_map_page c s = (p, s2) \<and> map_frame c s s2 \<and> map_store s2 = map_store s
    \<and> p \<noteq> 0 \<and> p \<noteq> M1"
proof -
  obtain p m B where p: "ftl_get_free_map_page c s = (p, s\<lparr>ftl_meta := m, free_blk_bitmap := B\<rparr>)"
    "alloc_ok c m" "page_given c p (write_map_block_ptr m) (write_map_ptr m)" "4 * block_pages c \<le> unat p"
    "write_block_ptr m = write_block_ptr (ftl_meta s)" "write_ptr m = write_ptr (ftl_meta s)"
    using ftl_get_free_map_page_ok[OF assms] by blast
  have "0 < unat p" using p(4) cfg_wf_sizes(4)[OF assms(1)] by linarith
  moreover have "p \<noteq> M1" using p(3) by (auto simp: page_given_def)
  ultimately show ?thesis using p(1,2,5,6)
    by (auto simp: map_frame_def store_grows_def data_view_def data_io_def)
qed

lemma cache_take_warm:
  assumes inv: "cache_inv c H s" "\<not> cache_wp s < lines c" and avoid: "H \<subseteq> set_option avoid"
    and fresh: "READ_MAP (fst (ftl_get_free_map_page c s)) (map_store s) = None"
  shows "\<exists>t s'. cache_take c avoid s = Some (t, s') \<and> line_taken c H t s s'"
proof -
  obtain t s1 where s1: "cache_select_victim c avoid s = Some (t, s1)" "t < lines c" "avoid \<noteq> Some t"
    "clock_hand s1 = t" "cache_wp s1 = cache_wp s" "region_ptr_frame c s s1"
    using select_victim_frame[OF inv(1), of avoid] by blast
  note fr = region_ptr_frame_tab[OF s1(6)] region_ptr_frame_ok[OF s1(6) inv(1)]
  have r: "region_table s1 = region_table s" "cache_map s1 = cache_map s"
    "map_store s1 = map_store s" "ftl_meta s1 = ftl_meta s"
    using s1(6) by (auto simp: region_ptr_frame_def)
  note f1 = slot_frame[OF r(1)]
  have all: "used_lines s \<union> H = {..< lines c}" using inv by (simp add: cache_inv_def clock_ok_def)
  have inv1: "cache_inv c H s1"
    using inv fr all s1(2,4,5) by (simp add: cache_inv_def clock_ok_def)
  then have cfg: "cfg_wf c" "alloc_ok c (ftl_meta s1)" by (simp_all add: cache_inv_def)
  obtain p s2 where s2: "ftl_get_free_map_page c s1 = (p, s2)" "map_frame c s1 s2"
    "map_store s2 = map_store s1" "p \<noteq> 0" "p \<noteq> M1"
    using map_page_frame[OF cfg] by blast
  have "fst (ftl_get_free_map_page c s1) = fst (ftl_get_free_map_page c s)"
    using r(4) by (simp add: ftl_get_free_map_page_def ftl_get_free_block_def Let_def split: option.split)
  then have free: "READ_MAP p (map_store s2) = None" using fresh s2(1,3) r(3) by simp
  have inv2: "cache_inv c H s2" and tab2: "\<And>x. slot_ok c x \<Longrightarrow> tab s2 x = tab s1 x"
    using map_frame_inv[OF s2(2) inv1] by auto
  have r2: "region_table s2 = region_table s1" "cache_map s2 = cache_map s1"
    "cache_idx_table s2 = cache_idx_table s1" "cache_wp s2 = cache_wp s1" "clock_hand s2 = clock_hand s1"
    using s2(2) by (auto simp: map_frame_def)
  note f2 = slot_frame[OF r2(1)]
  have tH: "t \<notin> H" using avoid s1(3) by auto
  then have "t \<in> used_lines s" using all s1(2) by auto
  then obtain x where x: "slot_ptr s2 x = Some t" by (auto simp: used_lines_def f1 f2)
  obtain s3 where s3: "evict_slot c t p s2 = Some (slot_region x, s3)" "owners_ok c H s3"
    "saved_ok c s3" "used_lines s3 = used_lines s2 - {t}"
    "\<And>y. slot_ok c y \<Longrightarrow> tab s3 y = tab s2 y" "cache_map s3 = (cache_map s2)(t := ZeroLine)"
    "\<not> update_bit (cache_idx_table s3 t)"
    "\<And>y. slot_ptr s3 y = (if y = x then None else slot_ptr s2 y)"
    "\<And>rg. map_type (region_table s3 rg) = map_type (region_table s2 rg)"
    "cache_wp s3 = cache_wp s2" "clock_hand s3 = clock_hand s2" "ftl_meta s3 = ftl_meta s2"
    "data_view s3 = data_view s2"
    using evict_slot_inv[OF inv2 x s2(5) free] by blast
  have u: "used_lines s2 = used_lines s" using f1 f2 by (simp add: used_lines_def)
  have "owners_ok c (insert t H) s3"
    using s3(2,4) by (fastforce simp: owners_ok_def used_lines_def)
  then have inv3: "cache_inv c (insert t H) s3"
    using s3 inv2 tH all u s1(2) r2 s1(4,5) inv(2) by (auto simp: cache_inv_def clock_ok_def)
  have fr4: "map_frame c s3 (pm_update_region c (slot_region x) s3)"
    using pm_update_region_frame[OF cfg(1)] inv3 by (simp add: cache_inv_def)
  define s' where "s' = pm_update_region c (slot_region x) s3"
  have inv4: "cache_inv c (insert t H) s'" and tab4: "\<And>x. slot_ok c x \<Longrightarrow> tab s' x = tab s3 x"
    using map_frame_inv[OF fr4 inv3] by (auto simp: s'_def)
  have r4: "region_table s' = region_table s3" "cache_map s' = cache_map s3"
    "cache_idx_table s' = cache_idx_table s3"
    using fr4 by (auto simp: map_frame_def s'_def)
  have dv: "data_view s' = data_view s"
    using s1(6) s2(2) cfg(2) fr4 inv3 s3(13)
    by (simp add: region_ptr_frame_def map_frame_def cache_inv_def s'_def)
  note f4 = slot_frame[OF r4(1)]
  have ppn: "slot_ppn s3 y = slot_ppn s2 y" if "slot_ptr s2 y \<noteq> Some t" for y
    using evict_slot_effect[OF x, of c p] inv2 x s3(1) that
    by (fastforce simp: cache_inv_def owners_ok_def)
  have ptrx: "slot_ptr s y = Some t \<longleftrightarrow> y = x" for y
    using slot_ptr_inj[of c H s2 y t x] inv2 x f1 f2 by (auto simp: cache_inv_def)
  have "cache_take c avoid s = Some (t, s')"
    using s1(1,5) s2(1,4) s3(1) inv(2)
    by (auto simp: cache_take_def cache_evict_page_def lines_def s'_def evict_slot_def split: if_splits)
  moreover have "line_taken c H t s s'"
    unfolding line_taken_def
    using s1(2) tH inv4 tab4 s3(5) tab2 fr(1) r r2 r4 s3(6,7,8,9) f1 f2 f4 ppn ptrx dv
    by simp
  ultimately show ?thesis by blast
qed

lemma cache_take_line:
  assumes "cache_inv c H s" "H \<subseteq> set_option avoid"
    and "cache_wp s < lines c \<or> READ_MAP (fst (ftl_get_free_map_page c s)) (map_store s) = None"
  shows "\<exists>t s'. cache_take c avoid s = Some (t, s') \<and> line_taken c H t s s'"
proof (cases "cache_wp s < lines c")
  case True
  then show ?thesis using cache_take_cold[OF assms(1)] by blast
next
  case False
  then have "READ_MAP (fst (ftl_get_free_map_page c s)) (map_store s) = None" using assms(3) by blast
  then show ?thesis by (rule cache_take_warm[OF assms(1) False assms(2)])
qed

end
