(* ===== verification/MapOps.thy ===== *)
theory MapOps
  imports MapTake FtlRw
begin

text \<open>
  Bringing tables into the cache and changing them there. Reading a table changes no table;
  writing changes the one it writes.
\<close>

subsection \<open>Giving a line an owner\<close>

lemma attach_line:
  assumes inv: "cache_inv c (insert t H) s" "t \<notin> H" and x: "slot_ok c x" "slot_ptr s x = None"
    and ptr: "\<And>y. slot_ptr s' y = (if y = x then Some t else slot_ptr s y)"
    and ppn: "\<And>y. y \<noteq> x \<Longrightarrow> slot_ppn s' y = slot_ppn s y"
    and line: "cache_map s' = (cache_map s)(t := l)" "slot_val x l = Some v"
    and idx: "cache_idx_table s' = (cache_idx_table s)(t := i)" "slot_of i = x"
    and clean: "\<not> update_bit i \<Longrightarrow> saved s' x = Some v"
    and rest: "store_grows s s'" "cache_wp s' = cache_wp s" "clock_hand s' = clock_hand s"
      "alloc_ok c (ftl_meta s')"
  shows "cache_inv c H s'" "tab s' x = Some v" "\<And>y. slot_ok c y \<Longrightarrow> y \<noteq> x \<Longrightarrow> tab s' y = tab s y"
proof -
  have own: "owners_ok c (insert t H) s" and sv: "saved_ok c s" and ck: "clock_ok c (insert t H) s"
    and t: "t < lines c" and H: "H \<subseteq> {..< lines c}"
    using inv by (auto simp: cache_inv_def)
  have nt: "n \<noteq> t" if "slot_ptr s y = Some n" for y n using own that by (auto simp: owners_ok_def)
  show tx: "tab s' x = Some v" using ptr[of x] line by (simp add: tab_def)
  have sv': "saved s' y = saved s y" if "y \<noteq> x" "saved s y \<noteq> None" for y
    using saved_grows[OF rest(1) ppn] that by simp
  show ty: "tab s' y = tab s y" if y: "slot_ok c y" "y \<noteq> x" for y
  proof (cases "slot_ptr s y")
    case (Some n)
    then show ?thesis using ptr[of y] y(2) line(1) nt[OF Some] by (simp add: tab_def)
  next
    case None
    then have "slot_ppn s y = M1 \<or> saved s y \<noteq> None" using sv y(1) by (auto simp: saved_ok_def tab_def)
    then show ?thesis using None ptr[of y] ppn[OF y(2)] y(2) sv'[OF y(2)] by (auto simp: tab_def)
  qed
  have "owners_ok c H s'"
    using own x(1) t inv(2) idx nt by (auto simp: owners_ok_def ptr)
  moreover have "saved_ok c s'"
    unfolding saved_ok_def
  proof (intro allI impI conjI)
    fix y assume y: "slot_ok c y"
    show "tab s' y \<noteq> None" if "slot_ptr s' y \<noteq> None \<or> slot_ppn s' y \<noteq> M1"
      using that tx ty[OF y] sv y ppn[of y] by (cases "y = x") (auto simp: ptr saved_ok_def)
    show "saved s' y = tab s' y" if "slot_ptr s' y = Some n \<and> \<not> update_bit (cache_idx_table s' n)" for n
    proof (cases "y = x")
      case True
      then show ?thesis using that ptr[of x] idx(1) clean tx by auto
    next
      case False
      then have n: "slot_ptr s y = Some n" "\<not> update_bit (cache_idx_table s n)"
        using that ptr[of y] idx(1) nt by (auto split: if_splits)
      then have "saved s y = tab s y" "tab s y \<noteq> None" using sv y by (auto simp: saved_ok_def)
      then show ?thesis using sv'[OF False] ty[OF y False] by simp
    qed
  qed
  moreover have "clock_ok c H s'"
  proof -
    have "used_lines s' \<union> H = used_lines s \<union> insert t H"
    proof -
      have "(\<exists>y. slot_ptr s' y = Some n) \<longleftrightarrow> n = t \<or> (\<exists>y. slot_ptr s y = Some n)" for n
        using ptr x(2) by (metis option.distinct(1) option.inject)
      then show ?thesis by (auto simp: used_lines_def)
    qed
    moreover have "cache_map s' n = ZeroLine \<and> \<not> clock_bit (cache_idx_table s' n)
        \<and> \<not> update_bit (cache_idx_table s' n)"
      if "cache_wp s < lines c" "n \<notin> {1 .. cache_wp s}" for n
    proof -
      have "used_lines s \<union> insert t H = {1 .. cache_wp s}" using ck that(1) by (simp add: clock_ok_def)
      then have "n \<noteq> t" using that(2) by blast
      then show ?thesis using ck that line(1) idx(1) by (simp add: clock_ok_def)
    qed
    ultimately show ?thesis using ck rest(2,3) by (simp add: clock_ok_def split: if_splits)
  qed
  ultimately show "cache_inv c H s'" using inv(1) rest(4) H by (simp add: cache_inv_def)
qed

subsection \<open>Lines that are already cached\<close>

lemma change_line:
  assumes inv: "cache_inv c H s" and x: "slot_ptr s x = Some n"
    and s': "region_table s' = region_table s" "cache_map s' = (cache_map s)(n := l)"
      "slot_val x l = Some v" "cache_idx_table s' = (cache_idx_table s)(n := i)"
      "slot_of i = x" "update_bit i \<or> l = cache_map s n \<and> update_bit i = update_bit (cache_idx_table s n)"
      "map_store s' = map_store s" "cache_wp s' = cache_wp s" "clock_hand s' = clock_hand s"
      "ftl_meta s' = ftl_meta s"
  shows "cache_inv c H s'" "tab s' x = Some v" "\<And>y. slot_ok c y \<Longrightarrow> y \<noteq> x \<Longrightarrow> tab s' y = tab s y"
proof -
  have own: "owners_ok c H s" and sv: "saved_ok c s" and ck: "clock_ok c H s"
    using inv by (auto simp: cache_inv_def)
  note f = slot_frame[OF s'(1)]
  have nn: "m \<noteq> n" if "slot_ptr s y = Some m" "y \<noteq> x" for y m
    using slot_ptr_inj[OF own x] that by auto
  have sve: "saved s' y = saved s y" for y by (simp add: saved_def stored_def f s'(7))
  show tx: "tab s' x = Some v" using x s' by (simp add: tab_def f)
  show ty: "tab s' y = tab s y" if "slot_ok c y" "y \<noteq> x" for y
    using nn[of y] that(2) s'(2) by (auto simp: tab_def f sve split: option.split)
  have "owners_ok c H s'" using own x s'(4,5) by (auto simp: owners_ok_def f dest: slot_ptr_inj[OF own x])
  moreover have "saved_ok c s'"
    unfolding saved_ok_def
  proof (intro allI impI conjI)
    fix y assume y: "slot_ok c y"
    show "tab s' y \<noteq> None" if "slot_ptr s' y \<noteq> None \<or> slot_ppn s' y \<noteq> M1"
      using that tx ty[OF y] sv y by (cases "y = x") (auto simp: f saved_ok_def)
    show "saved s' y = tab s' y" if "slot_ptr s' y = Some m \<and> \<not> update_bit (cache_idx_table s' m)" for m
    proof (cases "y = x")
      case True
      then have "\<not> update_bit (cache_idx_table s n)" "l = cache_map s n"
        using that x s'(4,6) by (auto simp: f)
      then have "saved s x = tab s x" "tab s x = Some v"
        using sv y x True s'(3) by (auto simp: saved_ok_def tab_def)
      then show ?thesis using True tx sve by simp
    next
      case False
      then show ?thesis using that sv y ty[OF y False] nn[OF _ False] s'(4) by (auto simp: f sve saved_ok_def)
    qed
  qed
  moreover have "clock_ok c H s'"
  proof -
    have "used_lines s' = used_lines s" by (simp add: used_lines_def f)
    moreover have "n \<in> used_lines s" using x by (auto simp: used_lines_def)
    ultimately show ?thesis using ck s' by (fastforce simp: clock_ok_def)
  qed
  ultimately show "cache_inv c H s'" using inv s'(10) by (simp add: cache_inv_def)
qed


text \<open>\<open>cache_update_info\<close> only marks.\<close>

lemma touch_line:
  assumes "cache_inv c H s" "slot_ptr s x = Some n"
  shows "cache_inv c H (cache_update_info n u s)"
    "slot_ok c y \<Longrightarrow> tab (cache_update_info n u s) y = tab s y"
proof -
  let ?i = "(cache_idx_table s n)\<lparr>clock_bit := True, update_bit := u \<or> update_bit (cache_idx_table s n)\<rparr>"
  have x: "slot_ok c x" "slot_of (cache_idx_table s n) = x" "slot_val x (cache_map s n) = tab s x"
    using assms by (auto simp: cache_inv_def owners_ok_def tab_def)
  have "tab s x \<noteq> None" using assms x(1) by (simp add: cache_inv_def saved_ok_def)
  then obtain v where v: "slot_val x (cache_map s n) = Some v" using x(3) by auto
  have i: "slot_of ?i = x" using x(2) by (simp add: slot_of_def split: if_splits)
  have s': "cache_update_info n u s = s\<lparr>cache_idx_table := (cache_idx_table s)(n := ?i)\<rparr>"
    by (simp add: cache_update_info_def upd_cache_idx_def)
  note ch = change_line[OF assms, of "cache_update_info n u s" "cache_map s n" v ?i]
  show "cache_inv c H (cache_update_info n u s)" using ch(1) v i by (auto simp: s')
  show "tab (cache_update_info n u s) y = tab s y" if "slot_ok c y"
    using ch(2,3) v i x that by (cases "y = x") (auto simp: s')
qed

subsection \<open>What the FTL sees\<close>

text \<open>The roots of a region that its extents table maps.\<close>

definition live :: "ftl_state \<Rightarrow> nat \<Rightarrow> nat set" where
  "live s rg = {r. r < 16 \<and> BIT_GET (map_type (region_table s rg)) r = 0}"

text \<open>The physical page of a logical page, from the tables.\<close>

definition page_of :: "ftl_state \<Rightarrow> u32 \<Rightarrow> u32 option" where
  "page_of s lpn =
     (let rg = unat lpn div NUM_PAGE_PER_REGION;
          r = GET_ROOT_NUM_PER_REGION (unat lpn div NUM_PAGE_PER_ROOT);
          p = unat lpn mod NUM_PAGE_PER_ROOT in
      if r \<in> live s rg
      then (case tab s (ExtSlot rg) of Some (ExtVal e) \<Rightarrow> ext_lookup e r p | _ \<Rightarrow> None)
      else (case tab s (PageSlot rg r) of
              Some (PageVal m) \<Rightarrow> if m p = M1 then None else Some (m p) | _ \<Rightarrow> None))"

definition obs_same :: "config \<Rightarrow> ftl_state \<Rightarrow> ftl_state \<Rightarrow> bool" where
  "obs_same c s t \<longleftrightarrow> (\<forall>x. slot_ok c x \<longrightarrow> tab t x = tab s x)
     \<and> (\<forall>rg. map_type (region_table t rg) = map_type (region_table s rg)) \<and> data_view t = data_view s"

lemma obs_same_refl [simp]: "obs_same c s s"
  by (simp add: obs_same_def)

lemma obs_same_trans: "obs_same c s t \<Longrightarrow> obs_same c t u \<Longrightarrow> obs_same c s u"
  by (simp add: obs_same_def)

lemma obs_same_live: "obs_same c s t \<Longrightarrow> live t rg = live s rg"
  by (simp add: obs_same_def live_def)

lemma root_less [simp]: "GET_ROOT_NUM_PER_REGION n < 16"
  by (simp add: GET_ROOT_NUM_PER_REGION_def ROOT_NODE_SIZE_def)

lemma obs_same_page_of:
  "obs_same c s t \<Longrightarrow> unat lpn div NUM_PAGE_PER_REGION < REGION_NODE_SIZE c \<Longrightarrow> page_of t lpn = page_of s lpn"
  by (simp add: page_of_def obs_same_live) (simp add: obs_same_def Let_def)

subsection \<open>Well-formed tables\<close>

text \<open>The extents tables are well-formed on the roots they map, in the cache their links are set,
  and a root that was turned into a page map has one.\<close>

definition maps_ok :: "config \<Rightarrow> ftl_state \<Rightarrow> bool" where
  "maps_ok c s \<longleftrightarrow> (\<forall>rg < REGION_NODE_SIZE c.
     (\<forall>e. tab s (ExtSlot rg) = Some (ExtVal e) \<longrightarrow> (\<exists>X. ext_inv (live s rg) e X)) \<and>
     (\<forall>n e. ptr_cache_e (region_table s rg) = Some n \<and> get_extents s n = Some e \<longrightarrow>
        (\<forall>r \<in> live s rg. links_ok e r)) \<and>
     (\<forall>r < 16. r \<notin> live s rg \<longrightarrow> tab s (PageSlot rg r) \<noteq> None))"

lemma link_links [simp]: "r < 16 \<Longrightarrow> links_ok (pm_init_extmap_link e) r"
  by (simp add: links_ok_def pm_init_extmap_link_def pm_sizes)

lemma link_idx [simp]:
  "ix_lpn (i_node (pm_init_extmap_link e) j) = ix_lpn (i_node e j)"
  "ix_size (i_node (pm_init_extmap_link e) j) = ix_size (i_node e j)"
  "ix_used (i_node (pm_init_extmap_link e) j) = ix_used (i_node e j)"
  "l_node (pm_init_extmap_link e) = l_node e"
  by (simp_all add: pm_init_extmap_link_def)

lemma root_ok_link [simp]: "root_ok (pm_init_extmap_link e) r xss = root_ok e r xss"
  by (simp add: root_ok_def inode_ok_def idx_end_def)

lemma ext_inv_link: "ext_inv L (pm_init_extmap_link e) X \<longleftrightarrow> L \<subseteq> {..<16} \<and> (\<forall>r \<in> L. root_ok e r (X r))"
  by (auto simp: ext_inv_def)

lemma ext_inv_linkI: "ext_inv L e X \<Longrightarrow> ext_inv L (pm_init_extmap_link e) X"
  by (simp add: ext_inv_link) (simp add: ext_inv_def)

lemma ext_inv_linkD:
  "ext_inv L (pm_init_extmap_link e) X \<Longrightarrow> \<forall>r \<in> L. links_ok e r \<Longrightarrow> ext_inv L e X"
  by (simp add: ext_inv_link) (simp add: ext_inv_def)

lemma ext_lookup_link:
  assumes "ext_inv L e X" "r \<in> L" "p < 2048"
  shows "ext_lookup (pm_init_extmap_link e) r p = ext_lookup e r p"
proof -
  have "root_ok e r (X r)" using assms by (simp add: ext_inv_def)
  then obtain i where i: "i < length (X r)" "holds e r i p" using root_holds assms(3) by blast
  have "holds (pm_init_extmap_link e) r i p" using i(2) by (simp add: holds_def idx_end_def)
  from ext_lookup_holds[OF ext_inv_linkI[OF assms(1)] assms(2) this i(1)]
    ext_lookup_holds[OF assms(1,2) i(2,1)] show ?thesis by simp
qed

lemma maps_okI:
  assumes "maps_ok c s" "obs_same c s t"
    and "\<And>rg n e. rg < REGION_NODE_SIZE c \<Longrightarrow> ptr_cache_e (region_table t rg) = Some n \<Longrightarrow>
      get_extents t n = Some e \<Longrightarrow>
      (\<forall>r \<in> live s rg. links_ok e r) \<or> ptr_cache_e (region_table s rg) = Some n \<and> get_extents s n = Some e"
  shows "maps_ok c t"
  using assms unfolding maps_ok_def obs_same_live[OF assms(2)]
  by (auto simp: obs_same_def) blast

text \<open>Taking a line keeps all of this.\<close>

lemma line_taken_obs: "line_taken c H t s s' \<Longrightarrow> obs_same c s s'"
  by (simp add: line_taken_def obs_same_def)

lemma line_taken_maps_ok:
  assumes "line_taken c H t s s'" "maps_ok c s"
  shows "maps_ok c s'"
proof (rule maps_okI[OF assms(2) line_taken_obs[OF assms(1)]])
  fix rg n e
  assume n: "ptr_cache_e (region_table s' rg) = Some n" "get_extents s' n = Some e"
  have "slot_ptr s' (ExtSlot rg) = (if slot_ptr s (ExtSlot rg) = Some t then None else slot_ptr s (ExtSlot rg))"
    using assms(1) unfolding line_taken_def by blast
  then have "ptr_cache_e (region_table s rg) = Some n" "n \<noteq> t" using n(1) by (auto split: if_splits)
  moreover have "cache_map s' n = cache_map s n" using assms(1) \<open>n \<noteq> t\<close> by (simp add: line_taken_def)
  ultimately show "(\<forall>r \<in> live s rg. links_ok e r) \<or>
      ptr_cache_e (region_table s rg) = Some n \<and> get_extents s n = Some e"
    using n(2) by (simp add: get_extents_def)
qed


subsection \<open>Bringing a table into the cache\<close>

text \<open>A line can be taken: the cache is filling up, or the next map page was never written.\<close>

definition can_take :: "config \<Rightarrow> ftl_state \<Rightarrow> bool" where
  "can_take c s \<longleftrightarrow> cache_wp s < lines c
     \<or> READ_MAP (fst (ftl_get_free_map_page c s)) (map_store s) = None"

lemma take_line:
  assumes "cache_inv c {} s" "can_take c s"
  shows "\<exists>t s'. cache_take c avoid s = Some (t, s') \<and> line_taken c {} t s s'"
  using cache_take_line[OF assms(1), of avoid] assms(2) by (auto simp: can_take_def)

lemma ftl_read_map_stored:
  "stored s ppn = Some l \<Longrightarrow> ftl_read_map c ppn t s =
    Some (log_io (SSD_PAGE_READ (ftl_calc_bank c ppn) (ftl_calc_block c ppn) (ftl_calc_page c ppn) 0 MAP_READ)
      (s\<lparr>cache_map := (cache_map s)(t := l)\<rparr>))"
  by (auto simp: stored_def ftl_read_map_def split: if_splits option.splits map_page.splits)

lemma region_bound: "cfg_wf c \<Longrightarrow> rg < REGION_NODE_SIZE c \<Longrightarrow> rg < 2 ^ 16"
  by (auto simp: cfg_wf_def REGION_NODE_SIZE_def zless_nat_eq_int_zless)

lemma map_num_id:
  assumes "cfg_wf c" "rg < REGION_NODE_SIZE c"
  shows "take_bit 29 rg = rg" "r < 16 \<Longrightarrow> take_bit 29 (rg * 16 + r) = rg * 16 + r"
  using region_bound[OF assms] by (auto simp: take_bit_nat_eq_self_iff)

lemma line_taken_saved:
  assumes "line_taken c {} t s s'" "slot_ok c x" "slot_ptr s x = None"
  shows "saved s' x = tab s x" "slot_ptr s' x = None" "slot_ppn s' x = slot_ppn s x"
proof -
  show p: "slot_ptr s' x = None" using assms(1,3) unfolding line_taken_def by auto
  show "slot_ppn s' x = slot_ppn s x" using assms(1,3) unfolding line_taken_def by auto
  have "tab s' x = tab s x" using assms(1,2) by (simp add: line_taken_def)
  then show "saved s' x = tab s x" using p by (simp add: tab_def)
qed

lemma obs_pm_update_region:
  assumes "cache_inv c H s" "maps_ok c s"
  shows "cache_inv c H (pm_update_region c rg s)" "obs_same c s (pm_update_region c rg s)"
    "maps_ok c (pm_update_region c rg s)"
    "slot_ptr (pm_update_region c rg s) x = slot_ptr s x"
    "cache_map (pm_update_region c rg s) = cache_map s"
proof -
  have fr: "map_frame c s (pm_update_region c rg s)"
    using pm_update_region_frame assms by (simp add: cache_inv_def)
  then have r: "region_table (pm_update_region c rg s) = region_table s"
    "cache_map (pm_update_region c rg s) = cache_map s"
    by (auto simp: map_frame_def)
  have dv: "data_view (pm_update_region c rg s) = data_view s"
    using fr assms(1) by (simp add: map_frame_def cache_inv_def)
  show "cache_inv c H (pm_update_region c rg s)" using map_frame_inv(1)[OF fr assms(1)] .
  show o: "obs_same c s (pm_update_region c rg s)"
    using map_frame_inv(2)[OF fr assms(1)] r dv by (simp add: obs_same_def)
  show "maps_ok c (pm_update_region c rg s)"
    by (rule maps_okI[OF assms(2) o]) (use r in \<open>auto simp: get_extents_def\<close>)
  show "slot_ptr (pm_update_region c rg s) x = slot_ptr s x" using slot_frame[OF r(1)] by simp
  show "cache_map (pm_update_region c rg s) = cache_map s" by (rule r(2))
qed

text \<open>Loading the table of a slot that is not cached, for both kinds of slot: \<open>s1\<close> is the state after
  a line was taken, \<open>s2\<close> the one with the table in the line and the line attached to the slot.\<close>

lemma load_line:
  assumes tk: "line_taken c {} t s s1" and x: "slot_ok c x" "slot_ptr s x = None" "tab s x = Some v"
    and ptr: "\<And>y. slot_ptr s2 y = (if y = x then Some t else slot_ptr s1 y)"
    and ppn: "\<And>y. slot_ppn s2 y = slot_ppn s1 y"
    and line: "cache_map s2 = (cache_map s1)(t := l)" "slot_val x l = Some v"
    and idx: "cache_idx_table s2 = (cache_idx_table s1)(t := i)" "slot_of i = x"
    and rest: "map_store s2 = map_store s1" "cache_wp s2 = cache_wp s1" "clock_hand s2 = clock_hand s1"
      "ftl_meta s2 = ftl_meta s1" "\<And>rg. map_type (region_table s2 rg) = map_type (region_table s1 rg)"
      "data_view s2 = data_view s1"
  shows "cache_inv c {} s2" "obs_same c s s2"
proof -
  have inv: "cache_inv c (insert t {}) s1" using tk by (simp add: line_taken_def)
  have same: "obs_same c s s1" by (rule line_taken_obs[OF tk])
  have s1: "slot_ptr s1 x = None" "saved s1 x = Some v"
    using line_taken_saved[OF tk x(1,2)] x(3) by simp_all
  have "saved s2 x = saved s1 x" by (simp add: saved_def stored_def ppn rest)
  then have sv: "saved s2 x = Some v" using s1(2) by simp
  have gr: "store_grows s1 s2" using rest(1) by (simp add: store_grows_def)
  have al: "alloc_ok c (ftl_meta s2)" using inv rest(4) by (simp add: cache_inv_def)
  have at: "cache_inv c {} s2" "tab s2 x = Some v" "\<And>y. slot_ok c y \<Longrightarrow> y \<noteq> x \<Longrightarrow> tab s2 y = tab s1 y"
    using attach_line[OF inv _ x(1) s1(1) ptr _ line idx sv gr rest(2,3) al] ppn by simp_all
  show "cache_inv c {} s2" by (rule at(1))
  show "obs_same c s s2"
    using same at(2,3) x(3) rest(5,6) unfolding obs_same_def by metis
qed

lemma fetch_extents_ok:
  assumes inv: "cache_inv c {} s" "maps_ok c s" and rg: "rg < REGION_NODE_SIZE c"
    and free: "ptr_cache_e (region_table s rg) = None \<Longrightarrow> can_take c s"
  shows "\<exists>r s'. fetch_extents c rg s = Some (r, s') \<and> cache_inv c {} s' \<and> maps_ok c s' \<and> obs_same c s s'
    \<and> (case r of None \<Rightarrow> tab s (ExtSlot rg) = None \<and> s' = s | Some n \<Rightarrow> slot_ptr s' (ExtSlot rg) = Some n)"
proof (cases "ptr_cache_e (region_table s rg)")
  case (Some n)
  then have x: "slot_ptr s (ExtSlot rg) = Some n" by simp
  note t = touch_line[OF inv(1) x, where u = True]
  have r: "region_table (cache_update_info n True s) = region_table s"
    "cache_map (cache_update_info n True s) = cache_map s"
    by (simp_all add: cache_update_info_def upd_cache_idx_def)
  have o: "obs_same c s (cache_update_info n True s)" using t(2) r
    by (simp add: obs_same_def data_view_def data_io_def cache_update_info_def upd_cache_idx_def)
  have "maps_ok c (cache_update_info n True s)"
    by (rule maps_okI[OF inv(2) o]) (use r in \<open>auto simp: get_extents_def\<close>)
  then show ?thesis using Some t(1) o r by (simp add: fetch_extents_def)
next
  case None
  then have x: "slot_ptr s (ExtSlot rg) = None" "slot_ok c (ExtSlot rg)" using rg by simp_all
  let ?ppn = "extents_ppn (region_table s rg)"
  show ?thesis
  proof (cases "?ppn = M1")
    case True
    then have "tab s (ExtSlot rg) = None" using x by (simp add: tab_def)
    then show ?thesis using None True inv by (simp add: fetch_extents_def)
  next
    case False
    obtain t s1 where tk: "cache_take c None s = Some (t, s1)" "line_taken c {} t s s1"
      using take_line[OF inv(1) free[OF None]] by blast
    have "tab s (ExtSlot rg) \<noteq> None" using inv(1) x False by (auto simp: cache_inv_def saved_ok_def)
    then obtain v where v: "tab s (ExtSlot rg) = Some v" by auto
    note s1 = line_taken_saved[OF tk(2) x(2,1)]
    have "saved s1 (ExtSlot rg) = Some v" using s1(1) v by simp
    then obtain l e where le: "stored s1 ?ppn = Some l" "line_extents l = Some e"
      "v = ExtVal (pm_init_extmap_link e)"
      using s1(3) by (auto simp: saved_def bind_eq_Some_conv)
    let ?e = "pm_init_extmap_link e"
    have ll: "slot_val (ExtSlot rg) (ExtLine ?e) = Some v"
      using le(3) by (simp add: line_extents_def pm_init_extmap_link_def fun_eq_iff)
    let ?io = "SSD_PAGE_READ (ftl_calc_bank c ?ppn) (ftl_calc_block c ?ppn) (ftl_calc_page c ?ppn) 0 MAP_READ"
    let ?i = "(cache_idx_table s1 t)\<lparr>map_num := rg, ref_type := EXTENTS_MAP, clock_bit := True\<rparr>"
    define s2 where "s2 = upd_region rg (ptr_cache_e_update (\<lambda>_. Some t))
      (cache_update_extentsmap_info t rg False
        (set_extents t ?e (log_io ?io (s1\<lparr>cache_map := (cache_map s1)(t := l)\<rparr>))))"
    have cfg: "cfg_wf c" using inv(1) by (simp add: cache_inv_def)
    have idx: "cache_idx_table s2 = (cache_idx_table s1)(t := ?i)"
      using map_num_id(1)[OF cfg rg]
      by (simp add: s2_def cache_update_extentsmap_info_def set_extents_def log_io_def upd_region_def
          upd_cache_idx_def fun_eq_iff)
    have f2: "cache_map s2 = (cache_map s1)(t := ExtLine ?e)" "map_store s2 = map_store s1"
      "cache_wp s2 = cache_wp s1" "clock_hand s2 = clock_hand s1" "ftl_meta s2 = ftl_meta s1"
      "map_type (region_table s2 k) = map_type (region_table s1 k)" "data_view s2 = data_view s1"
      "slot_ptr s2 y = (if y = ExtSlot rg then Some t else slot_ptr s1 y)"
      "slot_ppn s2 y = slot_ppn s1 y" for k y
      by (auto simp: s2_def cache_update_extentsmap_info_def set_extents_def log_io_def upd_region_def
          upd_cache_idx_def slot_cases data_view_def data_io_def split: slot.split)
    note ld = load_line[OF tk(2) x(2,1) v f2(8,9) f2(1) ll idx _ f2(2-7)]
    have inv2: "cache_inv c {} s2" and o2: "obs_same c s s2" using ld by (simp_all add: slot_of_def)
    have "maps_ok c s2"
    proof (rule maps_okI[OF line_taken_maps_ok[OF tk(2) inv(2)]])
      show "obs_same c s1 s2"
        using o2 line_taken_obs[OF tk(2)] by (simp add: obs_same_def)
      fix g n e'
      assume a: "ptr_cache_e (region_table s2 g) = Some n" "get_extents s2 n = Some e'"
      show "(\<forall>r \<in> live s1 g. links_ok e' r) \<or>
          ptr_cache_e (region_table s1 g) = Some n \<and> get_extents s1 n = Some e'"
      proof (cases "n = t")
        case True
        then have "e' = ?e" using a(2) f2(1) by (simp add: get_extents_def line_extents_def)
        then show ?thesis by (auto simp: live_def)
      next
        case False
        then have "ptr_cache_e (region_table s1 g) = Some n"
          using a(1) f2(8)[of "ExtSlot g"] by (auto split: if_splits)
        then show ?thesis using a(2) False f2(1) by (simp add: get_extents_def)
      qed
    qed
    note up = obs_pm_update_region[OF inv2 this, of rg]
    have "fetch_extents c rg s = Some (Some t, pm_update_region c rg s2)"
      using None False tk(1) le(1,2) ftl_read_map_stored[OF le(1), of c t]
      by (simp add: fetch_extents_def s2_def get_extents_def log_io_def Let_def)
    then show ?thesis using up o2 f2(8) obs_same_trans[OF o2 up(2)] by (simp del: slot_ptr.simps)
  qed
qed


text \<open>The extents tables in the cache are not concerned by a page map.\<close>

lemma attach_page_maps_ok:
  assumes "maps_ok c s1" "obs_same c s1 s2" "cache_inv c {t} s1"
    and "cache_map s2 = (cache_map s1)(t := l)" "x = PageSlot rg r"
    and "\<And>y. slot_ptr s2 y = (if y = x then Some t else slot_ptr s1 y)"
  shows "maps_ok c s2"
proof (rule maps_okI[OF assms(1,2)])
  fix g n e'
  assume a: "ptr_cache_e (region_table s2 g) = Some n" "get_extents s2 n = Some e'"
  then have "slot_ptr s1 (ExtSlot g) = Some n" using assms(5) assms(6)[of "ExtSlot g"] by simp
  moreover from this have "n \<noteq> t" using assms(3) unfolding cache_inv_def owners_ok_def by blast
  ultimately show "(\<forall>r \<in> live s1 g. links_ok e' r) \<or>
      ptr_cache_e (region_table s1 g) = Some n \<and> get_extents s1 n = Some e'"
    using a(2) assms(4) by (simp add: get_extents_def)
qed

lemma fetch_pagemap_ok:
  assumes inv: "cache_inv c {} s" "maps_ok c s"
    and rg: "rg = r_num div ROOT_NODE_SIZE" "r = GET_ROOT_NUM_PER_REGION r_num" "rg < REGION_NODE_SIZE c"
    and free: "ptr_cache_p (region_table s rg) r = None \<Longrightarrow> can_take c s"
  shows "\<exists>n s'. fetch_pagemap c r_num s = Some (n, s') \<and> cache_inv c {} s' \<and> maps_ok c s' \<and> obs_same c s s'
    \<and> (case n of None \<Rightarrow> tab s (PageSlot rg r) = None \<and> s' = s | Some n \<Rightarrow> slot_ptr s' (PageSlot rg r) = Some n)"
proof (cases "ptr_cache_p (region_table s rg) r")
  case (Some n)
  then have x: "slot_ptr s (PageSlot rg r) = Some n" by simp
  note t = touch_line[OF inv(1) x, where u = False]
  have t': "region_table (cache_update_info n False s) = region_table s"
    "cache_map (cache_update_info n False s) = cache_map s"
    by (simp_all add: cache_update_info_def upd_cache_idx_def)
  have o: "obs_same c s (cache_update_info n False s)" using t(2) t'
    by (simp add: obs_same_def data_view_def data_io_def cache_update_info_def upd_cache_idx_def)
  have "maps_ok c (cache_update_info n False s)"
    by (rule maps_okI[OF inv(2) o]) (use t' in \<open>auto simp: get_extents_def\<close>)
  then show ?thesis using Some t(1) o t' rg(1,2) by (simp add: fetch_pagemap_def)
next
  case None
  have r16: "r < 16" by (simp add: rg(2))
  then have x: "slot_ptr s (PageSlot rg r) = None" "slot_ok c (PageSlot rg r)" using rg(3) None by simp_all
  let ?ppn = "page_ppn (region_table s rg) r"
  show ?thesis
  proof (cases "?ppn = M1")
    case True
    then have "tab s (PageSlot rg r) = None" using x by (simp add: tab_def)
    then show ?thesis using None True inv rg(1,2) by (simp add: fetch_pagemap_def Let_def)
  next
    case False
    obtain t s1 where tk: "cache_take c None s = Some (t, s1)" "line_taken c {} t s s1"
      using take_line[OF inv(1) free[OF None]] by blast
    have "tab s (PageSlot rg r) \<noteq> None" using inv(1) x False by (auto simp: cache_inv_def saved_ok_def)
    then obtain v where v: "tab s (PageSlot rg r) = Some v" by auto
    note s1 = line_taken_saved[OF tk(2) x(2,1)]
    have "saved s1 (PageSlot rg r) = Some v" using s1(1) v by simp
    then obtain l where le: "stored s1 ?ppn = Some l" "slot_val (PageSlot rg r) l = Some v"
      using s1(3) by (auto simp: saved_def bind_eq_Some_conv)
    let ?io = "SSD_PAGE_READ (ftl_calc_bank c ?ppn) (ftl_calc_block c ?ppn) (ftl_calc_page c ?ppn) 0 MAP_READ"
    let ?i = "(cache_idx_table s1 t)\<lparr>map_num := r_num, ref_type := PAGE_MAP, clock_bit := True\<rparr>"
    define s2 where "s2 = upd_region rg (\<lambda>g. g\<lparr>ptr_cache_p := (ptr_cache_p g)(r := Some t)\<rparr>)
      (cache_update_pagemap_info t r_num False (log_io ?io (s1\<lparr>cache_map := (cache_map s1)(t := l)\<rparr>)))"
    have cfg: "cfg_wf c" using inv(1) by (simp add: cache_inv_def)
    have rn: "r_num = rg * 16 + r"
      by (simp add: rg(1,2) GET_ROOT_NUM_PER_REGION_def ROOT_NODE_SIZE_def)
    have idx: "cache_idx_table s2 = (cache_idx_table s1)(t := ?i)" "slot_of ?i = PageSlot rg r"
      using map_num_id(2)[OF cfg rg(3) r16] r16
      by (simp_all add: s2_def cache_update_pagemap_info_def log_io_def upd_region_def
          upd_cache_idx_def fun_eq_iff slot_of_def rn)
    have f2: "cache_map s2 = (cache_map s1)(t := l)" "map_store s2 = map_store s1"
      "cache_wp s2 = cache_wp s1" "clock_hand s2 = clock_hand s1" "ftl_meta s2 = ftl_meta s1"
      "map_type (region_table s2 k) = map_type (region_table s1 k)" "data_view s2 = data_view s1"
      "slot_ptr s2 y = (if y = PageSlot rg r then Some t else slot_ptr s1 y)"
      "slot_ppn s2 y = slot_ppn s1 y" for k y
      by (auto simp: s2_def cache_update_pagemap_info_def log_io_def upd_region_def
          upd_cache_idx_def slot_cases data_view_def data_io_def split: slot.split)
    note ld = load_line[OF tk(2) x(2,1) v f2(8,9) f2(1) le(2) idx f2(2-7)]
    have inv2: "cache_inv c {} s2" and o2: "obs_same c s s2" using ld by simp_all
    have o12: "obs_same c s1 s2" using o2 line_taken_obs[OF tk(2)] by (simp add: obs_same_def)
    have inv1: "cache_inv c {t} s1" using tk(2) by (simp add: line_taken_def)
    have "maps_ok c s2"
      by (rule attach_page_maps_ok[OF line_taken_maps_ok[OF tk(2) inv(2)] o12 inv1 f2(1) refl f2(8)])
    note up = obs_pm_update_region[OF inv2 this, of rg]
    have "fetch_pagemap c r_num s = Some (Some t, pm_update_region c rg s2)"
      using None False tk(1) ftl_read_map_stored[OF le(1), of c t] rg(1,2)
      by (simp add: fetch_pagemap_def s2_def log_io_def Let_def)
    then show ?thesis using up o2 f2(8) obs_same_trans[OF o2 up(2)] by (simp del: slot_ptr.simps)
  qed
qed

subsection \<open>Looking a page up\<close>

text \<open>The page number behind the pointer \<open>pm_get_physical_address\<close> returns.\<close>

definition phys_value :: "u32 \<Rightarrow> phys \<Rightarrow> ftl_state \<Rightarrow> u32 option" where
  "phys_value lpn ptr s =
     (case ptr of
        NoPage \<Rightarrow> None
      | PageEntry n k \<Rightarrow> (case get_pagemap s n of Some m \<Rightarrow> if m k = M1 then None else Some (m k) | None \<Rightarrow> None)
      | LeafEntry n k \<Rightarrow> (case leaf_at s (n, k) of
            Some t \<Rightarrow> Some (leaf_ppn t (unat lpn mod NUM_PAGE_PER_ROOT)) | None \<Rightarrow> None))"

definition lpn_cached :: "ftl_state \<Rightarrow> u32 \<Rightarrow> bool" where
  "lpn_cached s lpn =
     (let rg = unat lpn div NUM_PAGE_PER_REGION;
          r = GET_ROOT_NUM_PER_REGION (unat lpn div NUM_PAGE_PER_ROOT) in
      slot_ptr s (if r \<in> live s rg then ExtSlot rg else PageSlot rg r) \<noteq> None)"

lemma tab_cached_extents:
  assumes "cache_inv c H s" "slot_ptr s (ExtSlot rg) = Some n"
  shows "\<exists>e. get_extents s n = Some e \<and> tab s (ExtSlot rg) = Some (ExtVal (pm_init_extmap_link e))"
proof -
  have "slot_ok c (ExtSlot rg)" using assms unfolding cache_inv_def owners_ok_def by blast
  then have "tab s (ExtSlot rg) \<noteq> None"
    using assms unfolding cache_inv_def saved_ok_def by (metis option.distinct(1))
  then show ?thesis using assms(2) by (auto simp: tab_def get_extents_def)
qed

lemma tab_cached_pagemap:
  assumes "cache_inv c H s" "slot_ptr s (PageSlot rg r) = Some n"
  shows "\<exists>m. get_pagemap s n = Some m \<and> tab s (PageSlot rg r) = Some (PageVal m)"
proof -
  have "slot_ok c (PageSlot rg r)" using assms unfolding cache_inv_def owners_ok_def by blast
  then have "tab s (PageSlot rg r) \<noteq> None"
    using assms unfolding cache_inv_def saved_ok_def by (metis option.distinct(1))
  then show ?thesis using assms(2) by (auto simp: tab_def get_pagemap_def)
qed


lemma read_inode_loop_bound: "read_inode_loop is ib p i n = Some j \<Longrightarrow> j < i + n"
proof (induction n arbitrary: i)
  case (Suc n)
  then show ?case using Suc.IH[of "i + 1"] by (auto simp: Let_def split: if_splits)
qed simp

lemma read_extmap_returns:
  assumes "links_ok e r"
  shows "\<exists>f. pm_read_extmap (6 * r) p e = Some f"
proof (cases "read_inode_loop (i_node e) (6 * r) p 0 INDEX_NODE_SIZE")
  case (Some i)
  then have "i < 6" using read_inode_loop_bound by (fastforce simp: INDEX_NODE_SIZE_def)
  then have "ix_l_node (i_node e (6 * r + i)) = Some (6 * (6 * r + i))" using assms by (simp add: links_ok_def)
  then show ?thesis using Some by (simp add: pm_read_extmap_def)
qed (simp add: pm_read_extmap_def)

lemma lpn_region_root: "unat (lpn :: u32) div NUM_PAGE_PER_ROOT div ROOT_NODE_SIZE = unat lpn div NUM_PAGE_PER_REGION"
  by (simp add: div_mult2_eq[symmetric] pm_sizes)

lemma get_physical_pagemap:
  assumes inv: "cache_inv c {} s" "maps_ok c s"
    and lpn: "rg = unat lpn div NUM_PAGE_PER_REGION" "r = GET_ROOT_NUM_PER_REGION (unat lpn div NUM_PAGE_PER_ROOT)"
      "rg < REGION_NODE_SIZE c" "r \<notin> live s rg"
    and free: "\<not> lpn_cached s lpn \<Longrightarrow> can_take c s"
  shows "\<exists>ptr off' s'. pm_get_physical_address c lpn off s = Some (ptr, off', s')
    \<and> cache_inv c {} s' \<and> maps_ok c s' \<and> obs_same c s s' \<and> phys_value lpn ptr s' = page_of s lpn
    \<and> (s' = s \<or> lpn_cached s' lpn) \<and> old_page c lpn ptr s' \<noteq> None"
proof -
  have f: "ptr_cache_p (region_table s rg) r = None \<Longrightarrow> can_take c s"
    using free lpn by (simp add: lpn_cached_def)
  obtain n s' where n: "fetch_pagemap c (unat lpn div NUM_PAGE_PER_ROOT) s = Some (n, s')"
    "cache_inv c {} s'" "maps_ok c s'" "obs_same c s s'"
    "case n of None \<Rightarrow> tab s (PageSlot rg r) = None \<and> s' = s | Some n \<Rightarrow> slot_ptr s' (PageSlot rg r) = Some n"
    using fetch_pagemap_ok[OF inv _ lpn(2,3) f] lpn(1) lpn_region_root by metis
  have bit: "BIT_GET (map_type (region_table s rg)) r \<noteq> 0" using lpn(2,4) by (simp add: live_def)
  show ?thesis
  proof (cases n)
    case None
    then show ?thesis using n bit lpn
      by (auto simp: pm_get_physical_address_def Let_def page_of_def phys_value_def old_page_def)
  next
    case (Some k)
    then obtain m where m: "get_pagemap s' k = Some m" "tab s' (PageSlot rg r) = Some (PageVal m)"
      using tab_cached_pagemap[OF n(2)] n(5) by fastforce
    have "tab s (PageSlot rg r) = Some (PageVal m)" using m(2) n(4) lpn(3) by (auto simp: obs_same_def lpn(2))
    then show ?thesis using n Some bit lpn m(1)
      by (auto simp: pm_get_physical_address_def Let_def page_of_def phys_value_def lpn_cached_def
          obs_same_live old_page_def)
  qed
qed

text \<open>The extent a page of a root with extents lies in.\<close>

definition ext_leaf :: "ftl_state \<Rightarrow> u32 \<Rightarrow> leaf option" where
  "ext_leaf s lpn =
     (case tab s (ExtSlot (unat lpn div NUM_PAGE_PER_REGION)) of
        Some (ExtVal e) \<Rightarrow>
          (case pm_read_extmap (6 * GET_ROOT_NUM_PER_REGION (unat lpn div NUM_PAGE_PER_ROOT))
                 (unat lpn mod NUM_PAGE_PER_ROOT) e of
             Some (Some (i, l, k)) \<Rightarrow> Some (l_node e k)
           | _ \<Rightarrow> None)
      | _ \<Rightarrow> None)"

lemma read_extmap_link:
  assumes "links_ok e r" "r < 16"
  shows "pm_read_extmap (6 * r) p (pm_init_extmap_link e) = pm_read_extmap (6 * r) p e"
proof -
  have same: "i_node (pm_init_extmap_link e) (6 * r + i) = i_node e (6 * r + i)" if "i < 6" for i
    using assms that by (simp add: links_ok_def pm_init_extmap_link_def ROOT_NODE_SIZE_def
        INDEX_NODE_SIZE_def LEAF_NODE_SIZE_def)
  have "read_inode_loop (i_node (pm_init_extmap_link e)) (6 * r) p i n = read_inode_loop (i_node e) (6 * r) p i n"
    if "i + n = 6" for i n
    using that
  proof (induction n arbitrary: i)
    case (Suc n)
    then show ?case using same[of i] Suc.IH[of "i + 1"] by (simp add: Let_def)
  qed simp
  then have f: "read_inode_loop (i_node (pm_init_extmap_link e)) (6 * r) p 0 INDEX_NODE_SIZE
      = read_inode_loop (i_node e) (6 * r) p 0 INDEX_NODE_SIZE"
    by (simp add: INDEX_NODE_SIZE_def)
  have l: "l_node (pm_init_extmap_link e) = l_node e" by (simp add: pm_init_extmap_link_def)
  show ?thesis
  proof (cases "read_inode_loop (i_node e) (6 * r) p 0 INDEX_NODE_SIZE")
    case (Some i)
    then have "i < 6" using read_inode_loop_bound by (fastforce simp: INDEX_NODE_SIZE_def)
    then show ?thesis using Some f same unfolding pm_read_extmap_def l by simp
  qed (simp add: pm_read_extmap_def f)
qed

lemma get_physical_extents:
  assumes inv: "cache_inv c {} s" "maps_ok c s"
    and lpn: "rg = unat lpn div NUM_PAGE_PER_REGION" "r = GET_ROOT_NUM_PER_REGION (unat lpn div NUM_PAGE_PER_ROOT)"
      "rg < REGION_NODE_SIZE c" "r \<in> live s rg"
    and free: "\<not> lpn_cached s lpn \<Longrightarrow> can_take c s"
  shows "\<exists>ptr off' s'. pm_get_physical_address c lpn off s = Some (ptr, off', s')
    \<and> cache_inv c {} s' \<and> maps_ok c s' \<and> obs_same c s s' \<and> phys_value lpn ptr s' = page_of s lpn
    \<and> (s' = s \<or> lpn_cached s' lpn) \<and> old_page c lpn ptr s' \<noteq> None
    \<and> (\<forall>t. ext_leaf s lpn = Some t \<longrightarrow> (\<exists>n k. ptr = LeafEntry n k \<and> leaf_at s' (n, k) = Some t))"
proof -
  have f: "ptr_cache_e (region_table s rg) = None \<Longrightarrow> can_take c s"
    using free lpn by (simp add: lpn_cached_def)
  obtain n s' where n: "fetch_extents c rg s = Some (n, s')" "cache_inv c {} s'" "maps_ok c s'"
    "obs_same c s s'"
    "case n of None \<Rightarrow> tab s (ExtSlot rg) = None \<and> s' = s | Some n \<Rightarrow> slot_ptr s' (ExtSlot rg) = Some n"
    using fetch_extents_ok[OF inv lpn(3) f] by blast
  have bit: "BIT_GET (map_type (region_table s rg)) r = 0" using lpn(4) by (simp add: live_def)
  show ?thesis
  proof (cases n)
    case None
    then show ?thesis using n bit lpn
      by (auto simp: pm_get_physical_address_def Let_def page_of_def phys_value_def old_page_def ext_leaf_def)
  next
    case (Some k)
    then have k: "slot_ptr s' (ExtSlot rg) = Some k" using n(5) by simp
    then obtain e where e: "get_extents s' k = Some e"
      "tab s' (ExtSlot rg) = Some (ExtVal (pm_init_extmap_link e))"
      using tab_cached_extents[OF n(2)] by blast
    have lv: "live s' rg = live s rg" by (rule obs_same_live[OF n(4)])
    have links: "\<forall>r \<in> live s rg. links_ok e r" using n(3) lpn(3) k e(1) lv by (auto simp: maps_ok_def)
    obtain X where "ext_inv (live s rg) (pm_init_extmap_link e) X"
      using n(3) lpn(3) e(2) lv unfolding maps_ok_def by metis
    then have X: "ext_inv (live s rg) e X" using links by (rule ext_inv_linkD)
    let ?p = "unat lpn mod NUM_PAGE_PER_ROOT"
    have p: "?p < 2048" by (simp add: pm_sizes)
    have "tab s (ExtSlot rg) = Some (ExtVal (pm_init_extmap_link e))"
      using e(2) n(4) lpn(3) by (simp add: obs_same_def)
    then have pg: "page_of s lpn = ext_lookup e r ?p"
      using ext_lookup_link[OF X lpn(4) p] lpn by (simp add: page_of_def Let_def)
    obtain f where f: "pm_read_extmap (6 * r) ?p e = Some f"
      using read_extmap_returns links lpn(4) by blast
    have rn: "r_node e r = Some (6 * r)" using links lpn(4) by (auto simp: links_ok_def)
    have "lpn_cached s' lpn" using k lpn(1,2,4) lv by (simp add: lpn_cached_def)
    moreover have "ext_leaf s lpn = (case f of Some (i, l, k) \<Rightarrow> Some (l_node e k) | None \<Rightarrow> None)"
    proof -
      have "pm_read_extmap (6 * r) ?p (pm_init_extmap_link e) = Some f"
        using read_extmap_link[of e r ?p] links lpn(2,4) f by simp
      then show ?thesis
        using \<open>tab s (ExtSlot rg) = Some (ExtVal (pm_init_extmap_link e))\<close> lpn(1,2)
        by (simp add: ext_leaf_def pm_init_extmap_link_def split: option.split)
    qed
    ultimately show ?thesis
      using n(1-4) Some bit e(1) f rn lpn(1,2) pg
      by (cases f) (auto simp: pm_get_physical_address_def Let_def phys_value_def ext_lookup_def leaf_at_def
          old_page_def)
  qed
qed

subsection \<open>The opened drive\<close>

lemma opened_inv:
  fixes s :: ftl_state
  assumes "cfg_wf c" "2 \<le> lines c"
  defines "s0 \<equiv> ftl_init c (cache_init (pm_init c (cleared s)))"
  shows "cache_inv c {} s0" "maps_ok c s0" "slot_ok c x \<Longrightarrow> slot_ptr s0 x = None \<and> tab s0 x = None"
    "live s0 rg = {..<16}" "cache_wp s0 = 0"
proof -
  have al: "\<not> allocated b (cache_init (pm_init c (cleared s)))" for b
    by (simp add: allocated_bit cache_init_def pm_init_def cleared_def)
  have meta: "alloc_ok c (ftl_meta s0)"
    by (simp add: s0_def ftl_init_alloc[OF assms(1)])
  have f: "region_table s0 = region_table (pm_init c (cleared s))" "cache_wp s0 = 0" "clock_hand s0 = 0"
    "cache_map s0 = (\<lambda>_. ZeroLine)" "cache_idx_table s0 = (\<lambda>_. zero_cache_idx)"
    by (simp_all add: s0_def ftl_init_def Let_def ftl_set_free_blk_bitmap_def cache_init_def pm_init_def
        cleared_def)
  have ptr: "slot_ptr s0 y = None" for y
    by (simp add: slot_cases f pm_init_def cleared_def zero_region_def split: slot.split)
  have ppn: "slot_ppn s0 y = M1" if "slot_ok c y" for y
    using that by (cases y) (simp_all add: f pm_init_def cleared_def ROOT_NODE_SIZE_def)
  have tab: "tab s0 y = None" if "slot_ok c y" for y using ptr ppn[OF that] by (simp add: tab_def)
  show "cache_wp s0 = 0" by (rule f(2))
  show "slot_ok c x \<Longrightarrow> slot_ptr s0 x = None \<and> tab s0 x = None" using ptr tab by simp
  show "live s0 rg = {..<16}"
    by (auto simp: live_def f pm_init_def cleared_def zero_region_def BIT_GET_def)
  have "used_lines s0 = {}" by (simp add: used_lines_def ptr)
  then have "clock_ok c {} s0" using assms(2) f by (simp add: clock_ok_def zero_cache_idx_def)
  then show "cache_inv c {} s0"
    using assms meta ptr ppn by (simp add: cache_inv_def owners_ok_def saved_ok_def)
  have "ptr_cache_e (region_table s0 rg) = None" for rg using ptr[of "ExtSlot rg"] by simp
  moreover have "live s0 rg = {..<16}" for rg
    by (auto simp: live_def f pm_init_def cleared_def zero_region_def BIT_GET_def)
  ultimately show "maps_ok c s0" using tab by (simp add: maps_ok_def)
qed

lemma pm_get_physical_address_eq:
  assumes "cache_inv c {} s" "maps_ok c s" "unat lpn div NUM_PAGE_PER_REGION < REGION_NODE_SIZE c"
    and "\<not> lpn_cached s lpn \<Longrightarrow> can_take c s"
  obtains ptr off' s' where "pm_get_physical_address c lpn off s = Some (ptr, off', s')"
    "cache_inv c {} s'" "maps_ok c s'" "obs_same c s s'" "phys_value lpn ptr s' = page_of s lpn"
    "s' = s \<or> lpn_cached s' lpn" "old_page c lpn ptr s' \<noteq> None"
    "\<And>t. GET_ROOT_NUM_PER_REGION (unat lpn div NUM_PAGE_PER_ROOT) \<in> live s (unat lpn div NUM_PAGE_PER_REGION) \<Longrightarrow>
      ext_leaf s lpn = Some t \<Longrightarrow> \<exists>n k. ptr = LeafEntry n k \<and> leaf_at s' (n, k) = Some t"
proof (cases "GET_ROOT_NUM_PER_REGION (unat lpn div NUM_PAGE_PER_ROOT) \<in> live s (unat lpn div NUM_PAGE_PER_REGION)")
  case True
  show ?thesis using get_physical_extents[OF assms(1,2) refl refl assms(3) True assms(4), of off]
    by (elim meta_impE exE conjE) (assumption | (rule that, assumption+, blast))+
next
  case False
  show ?thesis using get_physical_pagemap[OF assms(1,2) refl refl assms(3) False assms(4), of off]
    by (elim meta_impE exE conjE) (assumption | (rule that, assumption+, use False in blast))+
qed



text \<open>A device large enough for two regions, and its state after it was opened.\<close>

definition mid_config :: config where
  "mid_config = small_config\<lparr>BLOCK_NB := 8192, NR_PHY_BLOCKS := 16384, NR_PHY_PAGES := 65536\<rparr>"

lemma mid_config [simp]:
  "cfg_wf mid_config" "lines mid_config = 3" "REGION_NODE_SIZE mid_config = 2"
  "SECTORS_PER_PAGE mid_config = 16"
  using small_config_wf by (simp_all add: mid_config_def cfg_wf_def lines_def REGION_NODE_SIZE_def)

definition opened :: ftl_state where
  "opened = ftl_init mid_config (cache_init (pm_init mid_config (cleared zero_state)))"

lemma opened [simp]: "cache_inv mid_config {} opened" "maps_ok mid_config opened" "can_take mid_config opened"
  using opened_inv[where c = mid_config and s = zero_state] by (simp_all add: opened_def can_take_def)


text \<open>C16: Opening the drive succeeds exactly when both allocations do, and then every page of every
  region is unmapped, no map is cached, and the invariants of the allocator, of the cache and
  of the tables hold.\<close>

theorem ftl_open_ok:
  assumes "cfg_wf c" "2 \<le> lines c" "ftl_open c False mem_ok tmp_ok False s = (res, t)"
  shows "(res = 0 \<longleftrightarrow> mem_ok \<and> tmp_ok) \<and> (res = 0 \<longrightarrow> cache_inv c {} t \<and> maps_ok c t \<and>
    (\<forall>l. unat l div NUM_PAGE_PER_REGION < REGION_NODE_SIZE c \<longrightarrow> page_of t l = None))"
proof (cases "mem_ok \<and> tmp_ok")
  case False
  then show ?thesis using assms(3) by (auto simp: ftl_open_def Let_def)
next
  case True
  define u where "u = s\<lparr>free_page_cnt := NR_PHY_PAGES c - NR_RESERVED_PHY_PAGES c\<rparr>"
  define s0 where "s0 = ftl_init c (cache_init (pm_init c (cleared u)))"
  note op = opened_inv[OF assms(1,2), where s = u, folded s0_def]
  have t: "res = 0" "t = s0\<lparr>write_add_count := 0, map_store := []\<rparr>"
    using assms(3) True by (auto simp: ftl_open_def Let_def s0_def u_def INIT_VSSIM_PM_MAPPING_def)
  have ptr: "slot_ptr t y = slot_ptr s0 y" "slot_ppn t y = slot_ppn s0 y" for y
    using slot_frame[of t s0] by (simp_all add: t)
  have tab: "tab t y = None" if "slot_ok c y" for y
  proof -
    have p: "slot_ptr s0 y = None" "tab s0 y = None" using op(3)[OF that] by auto
    have "slot_ppn s0 y = M1" using op(1) that p by (auto simp: cache_inv_def saved_ok_def)
    then show ?thesis using p by (simp add: tab_def ptr)
  qed
  have tf: "ftl_meta t = ftl_meta s0" "cache_map t = cache_map s0" "cache_wp t = cache_wp s0"
    "clock_hand t = clock_hand s0" "cache_idx_table t = cache_idx_table s0"
    by (simp_all add: t(2))
  have "used_lines t = used_lines s0" by (simp add: used_lines_def ptr)
  moreover have "saved_ok c t"
    using op(1,3) tab by (auto simp: saved_ok_def ptr cache_inv_def)
  ultimately have "cache_inv c {} t"
    using op(1) tf by (auto simp: cache_inv_def clock_ok_def owners_ok_def ptr)
  moreover have "maps_ok c t"
  proof -
    have "ptr_cache_e (region_table t rg) = None" if "rg < REGION_NODE_SIZE c" for rg
      using op(3)[of "ExtSlot rg"] that by (simp add: t)
    moreover have "live t rg = {..<16}" for rg using op(4)[of rg] by (simp add: live_def t(2))
    ultimately show ?thesis using tab by (simp add: maps_ok_def)
  qed
  moreover have "page_of t l = None" if "unat l div NUM_PAGE_PER_REGION < REGION_NODE_SIZE c" for l
    using tab that by (simp add: page_of_def Let_def)
  ultimately show ?thesis using t(1) True by simp
qed

lemma ftl_open_ok_witness:
  "page_of (snd (ftl_open mid_config False True True False zero_state)) 40000 = None"
  using ftl_open_ok[of mid_config True True zero_state, OF _ _ surjective_pairing]
  by (simp add: ftl_open_def Let_def NUM_PAGE_PER_REGION_def NUM_PAGE_PER_ROOT_def
      MAP_ENTRIES_PER_PAGE_def ROOT_NODE_SIZE_def)

end
