(* ===== verification/MapUpdate.thy ===== *)
theory MapUpdate
  imports MapOps
begin

text \<open>
  Entering new pages: \<open>pm_update_physical_address\<close> on a root with a page map, and on one with
  extents where the index node has room.
\<close>

subsection \<open>Page maps\<close>

lemma pm_write_pagemap_range:
  "pm_write_pagemap lpn n ppn m p =
     (if lpn \<le> p \<and> p < lpn + n then ppn + of_nat (p - lpn) else m p)"
proof (induction n arbitrary: lpn ppn m p)
  case (Suc n)
  show ?case
    by (cases "p = lpn") (auto simp: Suc.IH of_nat_diff)
qed auto

text \<open>A changed table in a line that has an owner.\<close>

lemma write_cached:
  assumes inv: "cache_inv c {} s" and x: "slot_ptr s x = Some n" and v: "slot_val x l = Some v"
  defines "t \<equiv> cache_update_info n True (s\<lparr>cache_map := (cache_map s)(n := l)\<rparr>)"
  shows "cache_inv c {} t" "tab t x = Some v" "\<And>y. slot_ok c y \<Longrightarrow> y \<noteq> x \<Longrightarrow> tab t y = tab s y"
    "region_table t = region_table s" "cache_map t = (cache_map s)(n := l)"
proof -
  have own: "slot_of (cache_idx_table s n) = x" using inv x by (simp add: cache_inv_def owners_ok_def)
  let ?i = "(cache_idx_table s n)\<lparr>clock_bit := True, update_bit := True\<rparr>"
  have i: "slot_of ?i = x" using own by (simp add: slot_of_def split: if_splits)
  note ch = change_line[OF inv x, of t l v ?i]
  show "cache_inv c {} t" "tab t x = Some v" "region_table t = region_table s"
    "cache_map t = (cache_map s)(n := l)"
    using ch(1,2) v i by (simp_all add: t_def cache_update_info_def upd_cache_idx_def)
  show "tab t y = tab s y" if "slot_ok c y" "y \<noteq> x" for y
    using ch(3)[of y] v i that by (simp add: t_def cache_update_info_def upd_cache_idx_def)
qed

lemma set_pagemap_upd: "set_pagemap n m s = s\<lparr>cache_map := (cache_map s)(n := MapLine m)\<rparr>"
  by (simp add: set_pagemap_def)

lemma set_extents_upd: "set_extents n e s = s\<lparr>cache_map := (cache_map s)(n := ExtLine e)\<rparr>"
  by (simp add: set_extents_def)

text \<open>What an update promises: the table of slot \<open>x\<close> is \<open>v\<close>, all others are as they were.\<close>

definition table_set :: "config \<Rightarrow> slot \<Rightarrow> map_val \<Rightarrow> ftl_state \<Rightarrow> ftl_state \<Rightarrow> bool" where
  "table_set c x v s t \<longleftrightarrow> tab t x = Some v \<and> (\<forall>y. slot_ok c y \<longrightarrow> y \<noteq> x \<longrightarrow> tab t y = tab s y)
     \<and> (\<forall>rg. map_type (region_table t rg) = map_type (region_table s rg)) \<and> data_view t = data_view s"

lemma table_set_obs: "table_set c x v s t \<Longrightarrow> obs_same c t u \<Longrightarrow> slot_ok c x \<Longrightarrow> table_set c x v s u"
  by (simp add: table_set_def obs_same_def)

lemma obs_table_set: "obs_same c s s1 \<Longrightarrow> table_set c x v s1 t \<Longrightarrow> table_set c x v s t"
  by (simp add: table_set_def obs_same_def)

lemma table_set_live: "table_set c x v s t \<Longrightarrow> live t rg = live s rg"
  by (simp add: table_set_def live_def)

text \<open>Changing a page map does not concern the extents tables.\<close>

lemma page_set_maps_ok:
  assumes "maps_ok c s" "table_set c x v s t" "x = PageSlot g r"
    and "\<And>rg n e. ptr_cache_e (region_table t rg) = Some n \<Longrightarrow> get_extents t n = Some e \<Longrightarrow>
      (\<forall>r \<in> live s rg. links_ok e r) \<or> ptr_cache_e (region_table s rg) = Some n \<and> get_extents s n = Some e"
  shows "maps_ok c t"
  unfolding maps_ok_def table_set_live[OF assms(2)]
proof (intro allI impI conjI ballI)
  fix rg assume rg: "rg < REGION_NODE_SIZE c"
  have same: "tab t (ExtSlot rg) = tab s (ExtSlot rg)" using assms(2,3) rg by (simp add: table_set_def)
  show "\<exists>X. ext_inv (live s rg) e X" if "tab t (ExtSlot rg) = Some (ExtVal e)" for e
    using assms(1) rg that same by (simp add: maps_ok_def)
  show "links_ok e r" if "ptr_cache_e (region_table t rg) = Some n \<and> get_extents t n = Some e"
    "r \<in> live s rg" for n e r
    using assms(4)[of rg n e] that assms(1) rg by (auto simp: maps_ok_def)
  show "tab t (PageSlot rg r) \<noteq> None" if "r < 16" "r \<notin> live s rg" for r
    using assms(1-3) rg that by (cases "PageSlot rg r = x") (auto simp: maps_ok_def table_set_def)
qed

lemma pm_update_pagemap_ok:
  assumes inv: "cache_inv c {} s" "maps_ok c s"
    and rg: "rg = r_num div ROOT_NODE_SIZE" "r = GET_ROOT_NUM_PER_REGION r_num" "rg < REGION_NODE_SIZE c"
    and m: "tab s (PageSlot rg r) = Some (PageVal m)"
    and free: "ptr_cache_p (region_table s rg) r = None \<Longrightarrow> can_take c s"
  shows "\<exists>t. pm_update_pagemap c r_num off sz ppn s = Some t \<and> cache_inv c {} t \<and> maps_ok c t
    \<and> table_set c (PageSlot rg r) (PageVal (pm_write_pagemap off sz ppn m)) s t
    \<and> slot_ptr t (PageSlot rg r) \<noteq> None"
proof -
  let ?x = "PageSlot rg r" and ?m = "pm_write_pagemap off sz ppn m"
  have r16: "r < 16" by (simp add: rg(2))
  then have ok: "slot_ok c ?x" using rg(3) by simp
  show ?thesis
  proof (cases "ptr_cache_p (region_table s rg) r")
    case (Some n)
    then have x: "slot_ptr s ?x = Some n" by simp
    have mn: "get_pagemap s n = Some m" using m x by (auto simp: tab_def get_pagemap_def)
    have v: "slot_val ?x (MapLine ?m) = Some (PageVal ?m)" by (simp add: line_pagemap_def)
    note w = write_cached[OF inv(1) x v]
    let ?t = "cache_update_info n True (s\<lparr>cache_map := (cache_map s)(n := MapLine ?m)\<rparr>)"
    have ts: "table_set c ?x (PageVal ?m) s ?t" using w(2-4)
    by (simp add: table_set_def data_view_def data_io_def cache_update_info_def upd_cache_idx_def)
    have "maps_ok c ?t"
    proof (rule page_set_maps_ok[OF inv(2) ts refl])
      fix g k e assume "ptr_cache_e (region_table ?t g) = Some k" "get_extents ?t k = Some e"
      moreover from this have "slot_ptr s (ExtSlot g) = Some k" using w(4) by simp
      then have "k \<noteq> n" using slot_ptr_inj[of c "{}" s ?x n "ExtSlot g"] x inv(1) by (auto simp: cache_inv_def)
      ultimately show "(\<forall>r \<in> live s g. links_ok e r) \<or>
          ptr_cache_e (region_table s g) = Some k \<and> get_extents s k = Some e"
        using w(4,5) by (simp add: get_extents_def)
    qed
    then show ?thesis
      using Some mn w(1,4) ts rg(1,2) by (simp add: pm_update_pagemap_def Let_def set_pagemap_upd)
  next
    case None
    then have x: "slot_ptr s ?x = None" by simp
    let ?ppn = "page_ppn (region_table s rg) r"
    obtain t s1 where tk: "cache_take c None s = Some (t, s1)" "line_taken c {} t s s1"
      using take_line[OF inv(1) free[OF None]] by blast
    note s1 = line_taken_saved[OF tk(2) ok x]
    have "saved s1 ?x = Some (PageVal m)" using s1(1) m by simp
    then obtain l where le: "stored s1 ?ppn = Some l" "line_pagemap l = Some m"
      using s1(3) by (auto simp: saved_def bind_eq_Some_conv)
    let ?io = "SSD_PAGE_READ (ftl_calc_bank c ?ppn) (ftl_calc_block c ?ppn) (ftl_calc_page c ?ppn) 0 MAP_READ"
    let ?i = "(cache_idx_table s1 t)\<lparr>map_num := r_num, ref_type := PAGE_MAP, clock_bit := True, update_bit := True\<rparr>"
    define s2 where "s2 = upd_region rg (\<lambda>g. g\<lparr>ptr_cache_p := (ptr_cache_p g)(r := Some t)\<rparr>)
      (cache_update_pagemap_info t r_num True
        (set_pagemap t ?m (log_io ?io (s1\<lparr>cache_map := (cache_map s1)(t := l)\<rparr>))))"
    have cfg: "cfg_wf c" using inv(1) by (simp add: cache_inv_def)
    have rn: "r_num = rg * 16 + r"
      by (simp add: rg(1,2) GET_ROOT_NUM_PER_REGION_def ROOT_NODE_SIZE_def)
    have idx: "cache_idx_table s2 = (cache_idx_table s1)(t := ?i)" "slot_of ?i = ?x"
      using map_num_id(2)[OF cfg rg(3) r16] r16
      by (simp_all add: s2_def cache_update_pagemap_info_def log_io_def upd_region_def set_pagemap_def
          upd_cache_idx_def fun_eq_iff slot_of_def rn)
    have f2: "cache_map s2 = (cache_map s1)(t := MapLine ?m)" "store_grows s1 s2"
      "cache_wp s2 = cache_wp s1" "clock_hand s2 = clock_hand s1" "ftl_meta s2 = ftl_meta s1"
      "map_type (region_table s2 k) = map_type (region_table s1 k)"
      "slot_ptr s2 y = (if y = ?x then Some t else slot_ptr s1 y)"
      "slot_ppn s2 y = slot_ppn s1 y" for k y
      by (auto simp: s2_def cache_update_pagemap_info_def log_io_def upd_region_def set_pagemap_def
          upd_cache_idx_def slot_cases store_grows_def split: slot.split)
    have inv1: "cache_inv c (insert t {}) s1" using tk(2) by (simp add: line_taken_def)
    have al: "alloc_ok c (ftl_meta s2)" using inv1 f2(5) by (simp add: cache_inv_def)
    have at: "cache_inv c {} s2" "tab s2 ?x = Some (PageVal ?m)"
      "\<And>y. slot_ok c y \<Longrightarrow> y \<noteq> ?x \<Longrightarrow> tab s2 y = tab s1 y"
      using attach_line[OF inv1 _ ok s1(2) f2(7,8,1) _ idx _ f2(2-4) al, of "PageVal ?m"]
      by (simp_all add: line_pagemap_def)
    have "data_view s2 = data_view s1"
      by (simp add: s2_def cache_update_pagemap_info_def log_io_def upd_region_def set_pagemap_def
          upd_cache_idx_def data_view_def data_io_def)
    then have ts1: "table_set c ?x (PageVal ?m) s1 s2" using at(2,3) f2(6) by (simp add: table_set_def)
    have "maps_ok c s2"
    proof (rule page_set_maps_ok[OF line_taken_maps_ok[OF tk(2) inv(2)] ts1 refl])
      fix g n e' assume a: "ptr_cache_e (region_table s2 g) = Some n" "get_extents s2 n = Some e'"
      then have "slot_ptr s1 (ExtSlot g) = Some n" using f2(7)[of "ExtSlot g"] by simp
      moreover from this have "n \<noteq> t" using inv1 unfolding cache_inv_def owners_ok_def by blast
      ultimately show "(\<forall>r \<in> live s1 g. links_ok e' r) \<or>
          ptr_cache_e (region_table s1 g) = Some n \<and> get_extents s1 n = Some e'"
        using a(2) f2(1) by (simp add: get_extents_def)
    qed
    note up = obs_pm_update_region[OF at(1) this, of rg]
    have ts: "table_set c ?x (PageVal ?m) s (pm_update_region c rg s2)"
      using table_set_obs[OF obs_table_set[OF line_taken_obs[OF tk(2)] ts1] up(2) ok] .
    have "pm_update_pagemap c r_num off sz ppn s = Some (pm_update_region c rg s2)"
      using None tk(1) ftl_read_map_stored[OF le(1), of c t] rg(1,2) le(2)
      by (simp add: pm_update_pagemap_def s2_def log_io_def Let_def get_pagemap_def)
    then show ?thesis using up(1,3) ts up(4)[of ?x] f2(7)[of ?x] by (metis option.distinct(1))
  qed
qed


subsection \<open>Extents tables\<close>

text \<open>The index node a new extent of a root falls into has at most four leaves and holds all of it.
  A region without a table has room.\<close>

definition has_room :: "ftl_state \<Rightarrow> nat \<Rightarrow> nat \<Rightarrow> nat \<Rightarrow> nat \<Rightarrow> bool" where
  "has_room s rg r p sz \<longleftrightarrow>
     (case tab s (ExtSlot rg) of
        None \<Rightarrow> True
      | Some (ExtVal e) \<Rightarrow> (\<exists>X i. ext_inv (live s rg) e X \<and> i < length (X r) \<and> length (X r ! i) \<le> 4
          \<and> holds e r i p \<and> p + sz \<le> idx_end (i_node e (6 * r + i)))
      | Some (PageVal m) \<Rightarrow> False)"

lemma holds_link [simp]: "holds (pm_init_extmap_link e) r i p = holds e r i p"
  by (simp add: holds_def idx_end_def)

lemma idx_end_link [simp]: "idx_end (i_node (pm_init_extmap_link e) j) = idx_end (i_node e j)"
  by (simp add: idx_end_def)

lemma set_extents_twice: "set_extents n e' (set_extents n e s) = set_extents n e' s"
  by (simp add: set_extents_def)

text \<open>The effect of an insertion on the lookup.\<close>

definition inserted :: "nat set \<Rightarrow> nat \<Rightarrow> nat \<Rightarrow> nat \<Rightarrow> u32 \<Rightarrow> (nat \<Rightarrow> nat \<Rightarrow> u32 option) \<Rightarrow> extents_node \<Rightarrow> bool"
  where
  "inserted L r p sz ppn look e' \<longleftrightarrow>
     (\<exists>X i. ext_inv L e' X \<and> i < length (X r) \<and> new_leaf p sz ppn \<in> set (X r ! i)) \<and> (\<forall>r' \<in> L. \<forall>q < 2048.
     ext_lookup e' r' q = (if r' = r \<and> p \<le> q \<and> q < p + sz then Some (ppn + of_nat (q - p)) else look r' q))"

lemma inserted_link: "inserted L r p sz ppn look e' \<Longrightarrow> inserted L r p sz ppn look (pm_init_extmap_link e')"
  using ext_inv_linkI ext_lookup_link by (fastforce simp: inserted_def)

text \<open>Into a table with room, and into a fresh one.\<close>

lemma insert_in_room:
  assumes "get_extents s n = Some e" "ext_inv L e X" "r \<in> L" "r = GET_ROOT_NUM_PER_REGION (unat lpn div NUM_PAGE_PER_ROOT)"
    and "p = unat lpn mod NUM_PAGE_PER_ROOT" "0 < sz" "i < length (X r)" "length (X r ! i) \<le> 4" "holds e r i p"
      "p + sz \<le> idx_end (i_node e (6 * r + i))"
  shows "\<exists>e'. pm_insert_leafnode c lpn sz ppn n s = Some (set_extents n e' s) \<and> inserted L r p sz ppn (ext_lookup e) e'"
proof -
  obtain e' ys where e': "pm_insert_leafnode c lpn sz ppn n s = Some (set_extents n e' s)"
    "ext_inv L e' (X(r := (X r)[i := ys]))" "new_leaf p sz ppn \<in> set ys"
    "\<forall>r' \<in> L. \<forall>q < 2048. ext_lookup e' r' q =
        (if r' = r \<and> p \<le> q \<and> q < p + sz then Some (ppn + of_nat (q - p)) else ext_lookup e r' q)"
    using pm_insert_leafnode_eq[OF assms, of c ppn] by blast
  have "\<exists>Y j. ext_inv L e' Y \<and> j < length (Y r) \<and> new_leaf p sz ppn \<in> set (Y r ! j)"
    using e'(2,3) assms(7) by (intro exI[of _ "X(r := (X r)[i := ys])"] exI[of _ i]) simp
  then show ?thesis using e'(1,4) unfolding inserted_def by blast
qed

lemma insert_in_fresh:
  assumes "get_extents s n = Some (pm_init_extmap zero_extents)" "r \<in> L" "L \<subseteq> {..<16}"
    and "r = GET_ROOT_NUM_PER_REGION (unat lpn div NUM_PAGE_PER_ROOT)" "p = unat lpn mod NUM_PAGE_PER_ROOT"
    and "0 < sz" "p + sz \<le> 2048"
  shows "\<exists>e'. pm_insert_leafnode c lpn sz ppn n s = Some (set_extents n e' s)
    \<and> inserted L r p sz ppn (\<lambda>_ _. None) e'"
proof -
  let ?e = "pm_init_extmap zero_extents"
  have inv: "ext_inv L ?e (\<lambda>_. [[]])" using init_ext_inv assms(3) by (auto simp: ext_inv_def)
  have "6 * r < 96" "(6 * r) mod 6 = 0" using assms(2,3) by auto
  then have z: "ix_lpn (i_node ?e (6 * r)) = 0" "ix_size (i_node ?e (6 * r)) = 2048"
    by (simp_all add: pm_init_extmap_def pm_init_extmap_link_def pm_sizes zero_extents_def zero_idx_def)
  then have h: "holds ?e r 0 p" "p + sz \<le> idx_end (i_node ?e (6 * r + 0))"
    using assms(6,7) by (simp_all add: holds_def idx_end_def)
  obtain e' where e': "pm_insert_leafnode c lpn sz ppn n s = Some (set_extents n e' s)"
    "inserted L r p sz ppn (ext_lookup ?e) e'"
    using insert_in_room[OF assms(1) inv assms(2,4-6), of 0] h by auto
  have "ext_lookup ?e r' q = None" if "r' \<in> L" "q < 2048" for r' q
    using init_lookup_none assms(3) that by auto
  then have "inserted L r p sz ppn (\<lambda>_ _. None) e'" using e'(2) by (simp add: inserted_def)
  with e'(1) show ?thesis by blast
qed


text \<open>What the extents table of a region maps.\<close>

definition ext_look :: "ftl_state \<Rightarrow> nat \<Rightarrow> nat \<Rightarrow> nat \<Rightarrow> u32 option" where
  "ext_look s rg r q = (case tab s (ExtSlot rg) of Some (ExtVal e) \<Rightarrow> ext_lookup e r q | _ \<Rightarrow> None)"

lemma ext_set_maps_ok:
  assumes "maps_ok c s" "table_set c (ExtSlot g) (ExtVal e0) s t" "\<exists>X. ext_inv (live s g) e0 X"
    and "\<And>rg n e. ptr_cache_e (region_table t rg) = Some n \<Longrightarrow> get_extents t n = Some e \<Longrightarrow>
      (\<forall>r \<in> live s rg. links_ok e r) \<or> ptr_cache_e (region_table s rg) = Some n \<and> get_extents s n = Some e"
  shows "maps_ok c t"
  unfolding maps_ok_def table_set_live[OF assms(2)]
proof (intro allI impI conjI ballI)
  fix rg assume rg: "rg < REGION_NODE_SIZE c"
  show "\<exists>X. ext_inv (live s rg) e X" if "tab t (ExtSlot rg) = Some (ExtVal e)" for e
    using assms(1-3) rg that by (cases "rg = g") (auto simp: maps_ok_def table_set_def)
  show "links_ok e r" if "ptr_cache_e (region_table t rg) = Some n \<and> get_extents t n = Some e"
    "r \<in> live s rg" for n e r
    using assms(4)[of rg n e] that assms(1) rg by (auto simp: maps_ok_def)
  show "tab t (PageSlot rg r) \<noteq> None" if "r < 16" "r \<notin> live s rg" for r
    using assms(1,2) rg that by (auto simp: maps_ok_def table_set_def)
qed

lemma ext_inv_links: "ext_inv L e X \<Longrightarrow> r \<in> L \<Longrightarrow> links_ok e r"
  by (simp add: ext_inv_def)

lemma inserted_links: "inserted L r p sz ppn look e \<Longrightarrow> \<forall>r \<in> L. links_ok e r"
  by (auto simp: inserted_def ext_inv_def)

lemma live_less: "live s rg \<subseteq> {..<16}"
  by (auto simp: live_def)

text \<open>The table of a region in line \<open>n\<close>, with the links set: an insertion has room there.\<close>

lemma insert_line:
  assumes e: "get_extents s1 n = Some e" "\<forall>r \<in> L. links_ok e r"
    and t: "tab s (ExtSlot rg) = Some (ExtVal (pm_init_extmap_link e))" "L = live s rg"
    and r: "r \<in> L" "r = GET_ROOT_NUM_PER_REGION (unat lpn div NUM_PAGE_PER_ROOT)"
      "p = unat lpn mod NUM_PAGE_PER_ROOT" "0 < sz"
    and room: "has_room s rg r p sz"
  shows "\<exists>e'. pm_insert_leafnode c lpn sz ppn n s1 = Some (set_extents n e' s1)
    \<and> inserted L r p sz ppn (ext_look s rg) e'"
proof -
  obtain X i where X: "ext_inv L (pm_init_extmap_link e) X" "i < length (X r)" "length (X r ! i) \<le> 4"
    "holds e r i p" "p + sz \<le> idx_end (i_node e (6 * r + i))"
    using room t by (auto simp: has_room_def)
  have inv: "ext_inv L e X" by (rule ext_inv_linkD[OF X(1) e(2)])
  have "ext_lookup e r' q = ext_look s rg r' q" if "r' \<in> L" "q < 2048" for r' q
    using ext_lookup_link[OF inv that] t(1) by (simp add: ext_look_def)
  then have "inserted L r p sz ppn (ext_lookup e) e' \<Longrightarrow> inserted L r p sz ppn (ext_look s rg) e'" for e'
    by (simp add: inserted_def)
  then show ?thesis using insert_in_room[OF e(1) inv r X(2-5)] by blast
qed

lemma pm_update_extents_cached:
  assumes inv: "cache_inv c {} s" "maps_ok c s" and rg: "rg < REGION_NODE_SIZE c"
    and n: "slot_ptr s (ExtSlot rg) = Some n"
    and lpn: "lpn = lpn_of c lba" "sz = unat (pages_of c lba sectors)"
      "r = GET_ROOT_NUM_PER_REGION (unat lpn div NUM_PAGE_PER_ROOT)" "p = unat lpn mod NUM_PAGE_PER_ROOT"
      "r \<in> live s rg" "0 < sz"
    and room: "has_room s rg r p sz"
  shows "\<exists>t e'. pm_update_extents c rg lba sectors ppn s = Some t \<and> cache_inv c {} t \<and> maps_ok c t
    \<and> table_set c (ExtSlot rg) (ExtVal e') s t \<and> inserted (live s rg) r p sz ppn (ext_look s rg) e'
    \<and> slot_ptr t (ExtSlot rg) \<noteq> None"
proof -
  let ?x = "ExtSlot rg"
  obtain e where e: "get_extents s n = Some e" "tab s ?x = Some (ExtVal (pm_init_extmap_link e))"
    using tab_cached_extents[OF inv(1) n] by blast
  have links: "\<forall>r \<in> live s rg. links_ok e r" using inv(2) rg n e(1) by (auto simp: maps_ok_def)
  obtain e' where e': "pm_insert_leafnode c lpn sz ppn n s = Some (set_extents n e' s)"
    "inserted (live s rg) r p sz ppn (ext_look s rg) e'"
    using insert_line[OF e(1) links e(2) refl lpn(5,3,4,6) room] by blast
  have v: "slot_val ?x (ExtLine e') = Some (ExtVal (pm_init_extmap_link e'))"
    by (simp add: line_extents_def)
  note w = write_cached[OF inv(1) n v]
  let ?t = "cache_update_info n True (s\<lparr>cache_map := (cache_map s)(n := ExtLine e')\<rparr>)"
  have ts: "table_set c ?x (ExtVal (pm_init_extmap_link e')) s ?t" using w(2-4)
    by (simp add: table_set_def data_view_def data_io_def cache_update_info_def upd_cache_idx_def)
  note il = inserted_link[OF e'(2)]
  have "maps_ok c ?t"
  proof (rule ext_set_maps_ok[OF inv(2) ts])
    show "\<exists>X. ext_inv (live s rg) (pm_init_extmap_link e') X" using il by (auto simp: inserted_def)
    fix g k e1 assume a: "ptr_cache_e (region_table ?t g) = Some k" "get_extents ?t k = Some e1"
    then have g: "slot_ptr s (ExtSlot g) = Some k" using w(4) by simp
    show "(\<forall>r \<in> live s g. links_ok e1 r) \<or>
        ptr_cache_e (region_table s g) = Some k \<and> get_extents s k = Some e1"
    proof (cases "k = n")
      case True
      then have "g = rg" "e1 = e'"
        using slot_ptr_inj[of c "{}" s ?x n "ExtSlot g"] n g inv(1) a(2) w(5)
        by (auto simp: cache_inv_def get_extents_def line_extents_def)
      then show ?thesis using inserted_links[OF e'(2)] by simp
    next
      case False
      then show ?thesis using a w(4,5) by (simp add: get_extents_def)
    qed
  qed
  moreover have "pm_update_extents c rg lba sectors ppn s = Some ?t"
    using n e'(1) lpn(1,2) by (simp add: pm_update_extents_def pm_write_extmap_def set_extents_upd)
  moreover have "slot_ptr ?t ?x \<noteq> None" using n w(4) by simp
  ultimately show ?thesis using w(1) ts il by blast
qed


text \<open>Storing a changed table in a line that was just taken, and giving the line to the region.\<close>

lemma attach_extents:
  assumes tk: "line_taken c {} t s s1" and ok: "maps_ok c s" and rg: "rg < REGION_NODE_SIZE c"
    and x: "slot_ptr s (ExtSlot rg) = None"
    and s2: "s2 = s1\<lparr>cache_map := (cache_map s1)(t := l2), io_trace := io\<rparr>"
      "filter data_event io = data_io s1"
    and e': "inserted (live s rg) r p sz ppn look e'"
  defines "u \<equiv> pm_update_region c rg (upd_region rg (ptr_cache_e_update (\<lambda>_. Some t))
      (cache_update_extentsmap_info t rg True (set_extents t e' s2)))"
  shows "cache_inv c {} u \<and> maps_ok c u \<and> table_set c (ExtSlot rg) (ExtVal (pm_init_extmap_link e')) s u
    \<and> slot_ptr u (ExtSlot rg) \<noteq> None"
proof -
  let ?x = "ExtSlot rg" and ?v = "ExtVal (pm_init_extmap_link e')"
  have sok: "slot_ok c ?x" using rg by simp
  have inv1: "cache_inv c (insert t {}) s1" using tk by (simp add: line_taken_def)
  then have cfg: "cfg_wf c" by (simp add: cache_inv_def)
  note s1 = line_taken_saved[OF tk sok x]
  let ?i = "(cache_idx_table s1 t)\<lparr>map_num := rg, ref_type := EXTENTS_MAP, clock_bit := True, update_bit := True\<rparr>"
  define s5 where "s5 = upd_region rg (ptr_cache_e_update (\<lambda>_. Some t))
      (cache_update_extentsmap_info t rg True (set_extents t e' s2))"
  have idx: "cache_idx_table s5 = (cache_idx_table s1)(t := ?i)" "slot_of ?i = ?x"
    using map_num_id(1)[OF cfg rg]
    by (simp_all add: s5_def s2(1) cache_update_extentsmap_info_def upd_region_def set_extents_def
        upd_cache_idx_def fun_eq_iff slot_of_def)
  have f5: "cache_map s5 = (cache_map s1)(t := ExtLine e')" "store_grows s1 s5"
    "cache_wp s5 = cache_wp s1" "clock_hand s5 = clock_hand s1" "ftl_meta s5 = ftl_meta s1"
    "map_type (region_table s5 k) = map_type (region_table s1 k)"
    "slot_ptr s5 y = (if y = ?x then Some t else slot_ptr s1 y)"
    "slot_ppn s5 y = slot_ppn s1 y" for k y
    by (auto simp: s5_def s2(1) cache_update_extentsmap_info_def upd_region_def set_extents_def
        upd_cache_idx_def slot_cases store_grows_def split: slot.split)
  have al: "alloc_ok c (ftl_meta s5)" using inv1 f5(5) by (simp add: cache_inv_def)
  have at: "cache_inv c {} s5" "tab s5 ?x = Some ?v"
    "\<And>y. slot_ok c y \<Longrightarrow> y \<noteq> ?x \<Longrightarrow> tab s5 y = tab s1 y"
    using attach_line[OF inv1 _ sok s1(2) f5(7,8,1) _ idx _ f5(2-4) al, of ?v]
    by (simp_all add: line_extents_def)
  have "data_view s5 = data_view s1"
    using s2(2) by (simp add: s5_def s2(1) cache_update_extentsmap_info_def upd_region_def set_extents_def
        upd_cache_idx_def data_view_def data_io_def)
  then have ts1: "table_set c ?x ?v s1 s5" using at(2,3) f5(6) by (simp add: table_set_def)
  have lv: "live s1 g = live s g" for g by (rule obs_same_live[OF line_taken_obs[OF tk]])
  have "maps_ok c s5"
  proof (rule ext_set_maps_ok[OF line_taken_maps_ok[OF tk ok] ts1])
    show "\<exists>X. ext_inv (live s1 rg) (pm_init_extmap_link e') X"
      using inserted_link[OF e'] lv by (auto simp: inserted_def)
    fix g n e1 assume a: "ptr_cache_e (region_table s5 g) = Some n" "get_extents s5 n = Some e1"
    show "(\<forall>r \<in> live s1 g. links_ok e1 r) \<or>
        ptr_cache_e (region_table s1 g) = Some n \<and> get_extents s1 n = Some e1"
    proof (cases "g = rg")
      case True
      then have "n = t" using a(1) f5(7)[of ?x] by simp
      then have "e1 = e'" using a(2) f5(1) by (simp add: get_extents_def line_extents_def)
      then show ?thesis using inserted_links[OF e'] True lv by simp
    next
      case False
      then have "slot_ptr s1 (ExtSlot g) = Some n" using a(1) f5(7)[of "ExtSlot g"] by simp
      moreover from this have "n \<noteq> t" using inv1 unfolding cache_inv_def owners_ok_def by blast
      ultimately show ?thesis using a(2) f5(1) by (simp add: get_extents_def)
    qed
  qed
  note up = obs_pm_update_region[OF at(1) this, of rg]
  show ?thesis
    using up(1,3) table_set_obs[OF obs_table_set[OF line_taken_obs[OF tk] ts1] up(2) sok]
      up(4)[of ?x] f5(7)[of ?x]
    by (simp add: u_def s5_def)
qed

lemma pm_update_extents_uncached:
  assumes inv: "cache_inv c {} s" "maps_ok c s" and rg: "rg < REGION_NODE_SIZE c"
    and x: "slot_ptr s (ExtSlot rg) = None" "can_take c s"
    and lpn: "lpn = lpn_of c lba" "sz = unat (pages_of c lba sectors)"
      "r = GET_ROOT_NUM_PER_REGION (unat lpn div NUM_PAGE_PER_ROOT)" "p = unat lpn mod NUM_PAGE_PER_ROOT"
      "r \<in> live s rg" "0 < sz" "p + sz \<le> 2048"
    and room: "has_room s rg r p sz"
  shows "\<exists>t e'. pm_update_extents c rg lba sectors ppn s = Some t \<and> cache_inv c {} t \<and> maps_ok c t
    \<and> table_set c (ExtSlot rg) (ExtVal e') s t \<and> inserted (live s rg) r p sz ppn (ext_look s rg) e'
    \<and> slot_ptr t (ExtSlot rg) \<noteq> None"
proof -
  let ?x = "ExtSlot rg" and ?ppn = "extents_ppn (region_table s rg)"
  have sok: "slot_ok c ?x" using rg by simp
  have x': "ptr_cache_e (region_table s rg) = None" using x(1) by simp
  obtain t s1 where tk: "cache_take c None s = Some (t, s1)" "line_taken c {} t s s1"
    using take_line[OF inv(1) x(2)] by blast
  note s1 = line_taken_saved[OF tk(2) sok x(1)]
  show ?thesis
  proof (cases "?ppn = M1")
    case True
    have zero: "get_extents s1 t = Some zero_extents"
      using tk(2) by (simp add: line_taken_def get_extents_def line_extents_def)
    have "tab s ?x = None" using x(1) True by (simp add: tab_def)
    then have look: "ext_look s rg = (\<lambda>_ _. None)" by (simp add: ext_look_def fun_eq_iff)
    let ?s2 = "set_extents t (pm_init_extmap zero_extents) s1"
    obtain e' where e': "pm_insert_leafnode c lpn sz ppn t ?s2 = Some (set_extents t e' ?s2)"
      "inserted (live s rg) r p sz ppn (ext_look s rg) e'"
      using insert_in_fresh[of ?s2 t r "live s rg" lpn p sz c ppn] lpn live_less look by auto
    have s2: "?s2 = s1\<lparr>cache_map := (cache_map s1)(t := ExtLine (pm_init_extmap zero_extents)),
        io_trace := io_trace s1\<rparr>"
      by (simp add: set_extents_def)
    note at = attach_extents[OF tk(2) inv(2) rg x(1) s2 _ e'(2)]
    have "pm_update_extents c rg lba sectors ppn s = Some (pm_update_region c rg
        (upd_region rg (ptr_cache_e_update (\<lambda>_. Some t))
          (cache_update_extentsmap_info t rg True (set_extents t e' ?s2))))"
      using x' True tk(1) zero e'(1) lpn(1,2)
      by (simp add: pm_update_extents_def pm_write_extmap_def Let_def)
    then show ?thesis using at inserted_link[OF e'(2)] by (fastforce simp: data_io_def)
  next
    case False
    have "tab s ?x \<noteq> None" using inv(1) sok x(1) False by (auto simp: cache_inv_def saved_ok_def)
    then obtain v where v: "tab s ?x = Some v" by auto
    then have "saved s1 ?x = Some v" using s1(1) by simp
    then obtain l e where le: "stored s1 ?ppn = Some l" "line_extents l = Some e"
      "v = ExtVal (pm_init_extmap_link e)"
      using s1(3) by (auto simp: saved_def bind_eq_Some_conv)
    let ?e = "pm_init_extmap_link e"
    let ?io = "SSD_PAGE_READ (ftl_calc_bank c ?ppn) (ftl_calc_block c ?ppn) (ftl_calc_page c ?ppn) 0 MAP_READ"
    let ?sr = "log_io ?io (s1\<lparr>cache_map := (cache_map s1)(t := l)\<rparr>)"
    let ?s2 = "set_extents t ?e ?sr"
    have "pm_init_extmap_link ?e = ?e" by (simp add: pm_init_extmap_link_def fun_eq_iff)
    then have te: "tab s ?x = Some (ExtVal (pm_init_extmap_link ?e))" using v le(3) by simp
    have links: "\<forall>r \<in> live s rg. links_ok ?e r" using live_less[of s rg] by auto
    have ge: "get_extents ?s2 t = Some ?e" by simp
    obtain e' where e': "pm_insert_leafnode c lpn sz ppn t ?s2 = Some (set_extents t e' ?s2)"
      "inserted (live s rg) r p sz ppn (ext_look s rg) e'"
      using insert_line[OF ge links te refl lpn(5,3,4,6) room] by blast
    have s2: "?s2 = s1\<lparr>cache_map := (cache_map s1)(t := ExtLine ?e), io_trace := io_trace s1 @ [?io]\<rparr>"
      by (simp add: set_extents_def log_io_def)
    note at = attach_extents[OF tk(2) inv(2) rg x(1) s2 _ e'(2)]
    have "pm_update_extents c rg lba sectors ppn s = Some (pm_update_region c rg
        (upd_region rg (ptr_cache_e_update (\<lambda>_. Some t))
          (cache_update_extentsmap_info t rg True (set_extents t e' ?s2))))"
      using x' False tk(1) le(2) ftl_read_map_stored[OF le(1), of c t] e'(1) lpn(1,2) s1(3)
      by (simp add: pm_update_extents_def pm_write_extmap_def Let_def get_extents_def log_io_def)
    then show ?thesis using at inserted_link[OF e'(2)] by (fastforce simp: data_io_def)
  qed
qed

subsection \<open>Updating the mapping\<close>

lemma page_of_page_set:
  assumes "table_set c (PageSlot rg r) (PageVal m) s t" "rg < REGION_NODE_SIZE c" "r < 16" "r \<notin> live s rg"
    and "unat l div NUM_PAGE_PER_REGION < REGION_NODE_SIZE c"
  shows "page_of t l =
    (if unat l div NUM_PAGE_PER_REGION = rg \<and> GET_ROOT_NUM_PER_REGION (unat l div NUM_PAGE_PER_ROOT) = r
     then (if m (unat l mod NUM_PAGE_PER_ROOT) = M1 then None else Some (m (unat l mod NUM_PAGE_PER_ROOT)))
     else page_of s l)"
proof -
  let ?g = "unat l div NUM_PAGE_PER_REGION" and ?q = "GET_ROOT_NUM_PER_REGION (unat l div NUM_PAGE_PER_ROOT)"
  have "tab t (ExtSlot ?g) = tab s (ExtSlot ?g)" using assms(1,5) by (simp add: table_set_def)
  moreover have "tab t (PageSlot ?g ?q) = (if ?g = rg \<and> ?q = r then Some (PageVal m) else tab s (PageSlot ?g ?q))"
    using assms(1,5) by (simp add: table_set_def)
  ultimately show ?thesis using assms(4)
    by (cases "?g = rg \<and> ?q = r") (auto simp: page_of_def Let_def table_set_live[OF assms(1)])
qed

lemma page_of_ext_set:
  assumes "table_set c (ExtSlot rg) (ExtVal e) s t" "unat l div NUM_PAGE_PER_REGION < REGION_NODE_SIZE c"
    and "inserted (live s rg) r p sz ppn (ext_look s rg) e" "r \<in> live s rg"
  shows "page_of t l =
    (let q = unat l mod NUM_PAGE_PER_ROOT in
     if unat l div NUM_PAGE_PER_REGION = rg \<and> GET_ROOT_NUM_PER_REGION (unat l div NUM_PAGE_PER_ROOT) = r
        \<and> p \<le> q \<and> q < p + sz
     then Some (ppn + of_nat (q - p)) else page_of s l)"
proof -
  let ?g = "unat l div NUM_PAGE_PER_REGION" and ?q = "GET_ROOT_NUM_PER_REGION (unat l div NUM_PAGE_PER_ROOT)"
  have q: "unat l mod NUM_PAGE_PER_ROOT < 2048" by (simp add: pm_sizes)
  have p: "tab t (PageSlot ?g ?q) = tab s (PageSlot ?g ?q)" using assms(1,2) by (simp add: table_set_def)
  have e: "tab t (ExtSlot ?g) = (if ?g = rg then Some (ExtVal e) else tab s (ExtSlot ?g))"
    using assms(1,2) by (simp add: table_set_def)
  show ?thesis
  proof (cases "?q \<in> live s ?g \<and> ?g = rg")
    case True
    then have lk: "ext_lookup e ?q (unat l mod NUM_PAGE_PER_ROOT) =
      (if ?q = r \<and> p \<le> unat l mod NUM_PAGE_PER_ROOT \<and> unat l mod NUM_PAGE_PER_ROOT < p + sz
       then Some (ppn + of_nat (unat l mod NUM_PAGE_PER_ROOT - p))
       else ext_look s rg ?q (unat l mod NUM_PAGE_PER_ROOT))"
      using assms(3) q unfolding inserted_def by blast
    have "page_of t l = ext_lookup e ?q (unat l mod NUM_PAGE_PER_ROOT)"
      using True e by (auto simp: page_of_def Let_def table_set_live[OF assms(1)])
    moreover have "page_of s l = ext_look s rg ?q (unat l mod NUM_PAGE_PER_ROOT)"
      using True by (auto simp: page_of_def Let_def ext_look_def)
    ultimately show ?thesis using True unfolding lk Let_def by auto
  next
    case False
    then show ?thesis using p e assms(4)
      by (auto simp: page_of_def Let_def table_set_live[OF assms(1)])
  qed
qed


text \<open>The pages of an extent inside one root.\<close>

lemma in_root_range:
  fixes l lpn :: u32
  assumes "unat lpn mod NUM_PAGE_PER_ROOT + sz \<le> 2048"
  shows "(unat l div NUM_PAGE_PER_REGION = unat lpn div NUM_PAGE_PER_REGION
      \<and> GET_ROOT_NUM_PER_REGION (unat l div NUM_PAGE_PER_ROOT) = GET_ROOT_NUM_PER_REGION (unat lpn div NUM_PAGE_PER_ROOT)
      \<and> unat lpn mod NUM_PAGE_PER_ROOT \<le> unat l mod NUM_PAGE_PER_ROOT
      \<and> unat l mod NUM_PAGE_PER_ROOT < unat lpn mod NUM_PAGE_PER_ROOT + sz)
    \<longleftrightarrow> unat lpn \<le> unat l \<and> unat l < unat lpn + sz"
    and "unat lpn \<le> unat l \<and> unat l < unat lpn + sz \<Longrightarrow>
      unat l mod NUM_PAGE_PER_ROOT - unat lpn mod NUM_PAGE_PER_ROOT = unat l - unat lpn"
proof -
  define a b where "a = unat l div 2048" "b = unat l mod 2048"
  define x y where "x = unat lpn div 2048" "y = unat lpn mod 2048"
  have ab: "unat l = 2048 * a + b" "b < 2048" "unat lpn = 2048 * x + y" "y < 2048"
    by (simp_all add: a_b_def x_y_def)
  have y: "y + sz \<le> 2048" using assms by (simp add: x_y_def pm_sizes)
  have d: "unat l div NUM_PAGE_PER_REGION = a div 16" "unat lpn div NUM_PAGE_PER_REGION = x div 16"
    using lpn_region_root[of l] lpn_region_root[of lpn] by (simp_all add: a_b_def x_y_def pm_sizes)
  have eq: "a div 16 = x div 16 \<and> a mod 16 = x mod 16 \<longleftrightarrow> a = x" by (metis div_mult_mod_eq)
  have m: "unat l mod NUM_PAGE_PER_ROOT = b" "unat lpn mod NUM_PAGE_PER_ROOT = y"
    "unat l div NUM_PAGE_PER_ROOT = a" "unat lpn div NUM_PAGE_PER_ROOT = x"
    by (simp_all add: a_b_def x_y_def pm_sizes)
  have r: "GET_ROOT_NUM_PER_REGION k = k mod 16" for k
    by (simp add: GET_ROOT_NUM_PER_REGION_def ROOT_NODE_SIZE_def)
  have "a = x \<and> y \<le> b \<and> b < y + sz \<longleftrightarrow> unat lpn \<le> unat l \<and> unat l < unat lpn + sz"
  proof (cases a x rule: linorder_cases)
    case less
    then have "2048 * a + 2048 \<le> 2048 * x" by simp
    then show ?thesis unfolding ab(1,3) using less ab(2) by auto
  next
    case equal
    then show ?thesis unfolding ab(1,3) by auto
  next
    case greater
    then have "2048 * x + 2048 \<le> 2048 * a" by simp
    then show ?thesis unfolding ab(1,3) using greater y by auto
  qed
  then show "(unat l div NUM_PAGE_PER_REGION = unat lpn div NUM_PAGE_PER_REGION
      \<and> GET_ROOT_NUM_PER_REGION (unat l div NUM_PAGE_PER_ROOT) = GET_ROOT_NUM_PER_REGION (unat lpn div NUM_PAGE_PER_ROOT)
      \<and> unat lpn mod NUM_PAGE_PER_ROOT \<le> unat l mod NUM_PAGE_PER_ROOT
      \<and> unat l mod NUM_PAGE_PER_ROOT < unat lpn mod NUM_PAGE_PER_ROOT + sz)
    \<longleftrightarrow> unat lpn \<le> unat l \<and> unat l < unat lpn + sz"
    unfolding d m r using eq by blast
  show "unat l mod NUM_PAGE_PER_ROOT - unat lpn mod NUM_PAGE_PER_ROOT = unat l - unat lpn"
    if "unat lpn \<le> unat l \<and> unat l < unat lpn + sz"
  proof -
    have "a = x"
      using that \<open>a = x \<and> y \<le> b \<and> b < y + sz \<longleftrightarrow> unat lpn \<le> unat l \<and> unat l < unat lpn + sz\<close> by simp
    then show ?thesis unfolding m unfolding ab(1,3) by simp
  qed
qed

text \<open>The conditions under which an update of the pages from \<open>lpn\<close> on enters them: they lie in one
  root, its map is cached or a cache line can be taken for it, and an extents table has room.\<close>

definition can_update :: "config \<Rightarrow> ftl_state \<Rightarrow> u32 \<Rightarrow> nat \<Rightarrow> bool" where
  "can_update c s lpn sz \<longleftrightarrow>
     (let rg = unat lpn div NUM_PAGE_PER_REGION;
          r = GET_ROOT_NUM_PER_REGION (unat lpn div NUM_PAGE_PER_ROOT);
          p = unat lpn mod NUM_PAGE_PER_ROOT in
      rg < REGION_NODE_SIZE c \<and> 0 < sz \<and> p + sz \<le> NUM_PAGE_PER_ROOT
      \<and> (lpn_cached s lpn \<or> can_take c s) \<and> (r \<in> live s rg \<longrightarrow> has_room s rg r p sz))"

text \<open>All pages of a request are found in the same extent.\<close>

definition in_extent :: "ftl_state \<Rightarrow> u32 \<Rightarrow> nat \<Rightarrow> leaf \<Rightarrow> bool" where
  "in_extent s lpn n t \<longleftrightarrow> \<not> unwritten t \<and> lf_end t \<le> NUM_PAGE_PER_ROOT
     \<and> (\<forall>l. unat lpn \<le> unat l \<and> unat l < unat lpn + n \<longrightarrow> ext_leaf s l = Some t)"

lemma inserted_in_extent:
  assumes "table_set c (ExtSlot rg) (ExtVal e) s t" "inserted (live s rg) r p sz ppn look e"
    and "rg = unat lpn div NUM_PAGE_PER_REGION" "r = GET_ROOT_NUM_PER_REGION (unat lpn div NUM_PAGE_PER_ROOT)"
    and "r \<in> live s rg" "rg < REGION_NODE_SIZE c" "p + sz \<le> 2048" "p = unat lpn mod NUM_PAGE_PER_ROOT" "ppn \<noteq> M1"
  shows "in_extent t lpn sz (new_leaf p sz ppn)"
proof -
  let ?new = "new_leaf p sz ppn"
  obtain X i where X: "ext_inv (live s rg) e X" "i < length (X r)" "?new \<in> set (X r ! i)"
    using assms(2) by (auto simp: inserted_def)
  have tb: "tab t (ExtSlot rg) = Some (ExtVal e)" using assms(1,6) by (simp add: table_set_def)
  have "ext_leaf t l = Some ?new" if l: "unat lpn \<le> unat l" "unat l < unat lpn + sz" for l
  proof -
    have q: "unat l div NUM_PAGE_PER_REGION = rg" "GET_ROOT_NUM_PER_REGION (unat l div NUM_PAGE_PER_ROOT) = r"
      "covers ?new (unat l mod NUM_PAGE_PER_ROOT)"
      using in_root_range(1)[of lpn sz l] l assms(3,4,7,8) by (auto simp: covers_def lf_end_def new_leaf_def)
    show ?thesis using read_extmap_member[OF X(1) assms(5) X(2,3) q(3)] tb q(1,2) by (auto simp: ext_leaf_def)
  qed
  then show ?thesis
    using assms(7,9) by (simp add: in_extent_def unwritten_def new_leaf_def lf_end_def pm_sizes)
qed

lemma update_in_pagemap:
  assumes inv: "cache_inv c {} s" "maps_ok c s"
    and lpn: "lpn = lpn_of c lba" "sz = unat (pages_of c lba sectors)" "can_update c s lpn sz"
      "GET_ROOT_NUM_PER_REGION (unat lpn div NUM_PAGE_PER_ROOT) \<notin> live s (unat lpn div NUM_PAGE_PER_REGION)"
    and ppn: "unat ppn + sz < 4294967295"
  shows "\<exists>t. pm_update_physical_address c lba sectors ppn s = Some t \<and> cache_inv c {} t \<and> maps_ok c t \<and> lpn_cached t lpn
    \<and> (\<forall>rg. map_type (region_table t rg) = map_type (region_table s rg))
    \<and> data_view t = data_view s \<and> (\<forall>l. unat l div NUM_PAGE_PER_REGION < REGION_NODE_SIZE c \<longrightarrow> page_of t l =
        (if unat lpn \<le> unat l \<and> unat l < unat lpn + sz then Some (ppn + of_nat (unat l - unat lpn))
         else page_of s l))"
proof -
  let ?rg = "unat lpn div NUM_PAGE_PER_REGION" and ?n = "unat lpn div NUM_PAGE_PER_ROOT"
  let ?r = "GET_ROOT_NUM_PER_REGION ?n" and ?p = "unat lpn mod NUM_PAGE_PER_ROOT"
  have u: "?rg < REGION_NODE_SIZE c" "?p + sz \<le> 2048" "lpn_cached s lpn \<or> can_take c s"
    using lpn(3) by (simp_all add: can_update_def Let_def pm_sizes)
  have rg: "?rg = ?n div ROOT_NODE_SIZE" using lpn_region_root by simp
  have "tab s (PageSlot ?rg ?r) \<noteq> None" using inv(2) u(1) lpn(4) by (simp add: maps_ok_def)
  moreover have "tab s (PageSlot ?rg ?r) = Some v \<Longrightarrow> \<exists>m. v = PageVal m" for v
    by (auto simp: tab_def saved_def bind_eq_Some_conv split: option.splits)
  ultimately obtain m where m: "tab s (PageSlot ?rg ?r) = Some (PageVal m)" by blast
  have free: "ptr_cache_p (region_table s ?rg) ?r = None \<Longrightarrow> can_take c s"
    using u(3) lpn(4) by (auto simp: lpn_cached_def Let_def)
  let ?m = "pm_write_pagemap ?p sz ppn m"
  obtain t where t: "pm_update_pagemap c ?n ?p sz ppn s = Some t" "cache_inv c {} t" "maps_ok c t"
    "table_set c (PageSlot ?rg ?r) (PageVal ?m) s t" "slot_ptr t (PageSlot ?rg ?r) \<noteq> None"
    using pm_update_pagemap_ok[OF inv rg refl u(1) m free] by blast
  have run: "pm_update_physical_address c lba sectors ppn s = Some t"
    using t(1) lpn(1,2,4) by (simp add: pm_update_physical_address_def Let_def live_def)
  have "page_of t l = (if unat lpn \<le> unat l \<and> unat l < unat lpn + sz
      then Some (ppn + of_nat (unat l - unat lpn)) else page_of s l)"
    if l: "unat l div NUM_PAGE_PER_REGION < REGION_NODE_SIZE c" for l
  proof -
    let ?q = "unat l mod NUM_PAGE_PER_ROOT"
    let ?same = "unat l div NUM_PAGE_PER_REGION = ?rg \<and> GET_ROOT_NUM_PER_REGION (unat l div NUM_PAGE_PER_ROOT) = ?r"
    have pt: "page_of t l = (if ?same then (if ?m ?q = M1 then None else Some (?m ?q)) else page_of s l)"
      using page_of_page_set[OF t(4) u(1) root_less lpn(4) l] .
    have old: "?same \<Longrightarrow> page_of s l = (if m ?q = M1 then None else Some (m ?q))"
      using m lpn(4) by (auto simp: page_of_def Let_def)
    show ?thesis
    proof (cases "unat lpn \<le> unat l \<and> unat l < unat lpn + sz")
      case True
      then have s: ?same "?p \<le> ?q" "?q < ?p + sz" "?q - ?p = unat l - unat lpn"
        using in_root_range[OF u(2), of l] by auto
      have "unat l - unat lpn < sz" using True by linarith
      then have "unat (of_nat (unat l - unat lpn) :: u32) \<le> unat l - unat lpn"
        by (simp add: unat_of_nat)
      then have "unat (ppn + of_nat (unat l - unat lpn)) < 4294967295"
        using ppn True by (subst unat_add_id) linarith+
      then have "ppn + of_nat (unat l - unat lpn) \<noteq> M1" by (rule word_le_not_M1)
      then show ?thesis using True pt s by (simp add: pm_write_pagemap_range)
    next
      case False
      then have "?same \<Longrightarrow> ?m ?q = m ?q"
        using in_root_range(1)[OF u(2), of l] by (auto simp: pm_write_pagemap_range)
      then show ?thesis using False pt old by auto
    qed
  qed
  moreover have "data_view t = data_view s" "\<forall>rg. map_type (region_table t rg) = map_type (region_table s rg)"
    using t(4) by (simp_all add: table_set_def)
  moreover have "lpn_cached t lpn"
    using t(5) lpn(4) by (simp add: lpn_cached_def Let_def table_set_live[OF t(4)])
  ultimately show ?thesis using run t(2,3) by blast
qed

lemma update_in_extents:
  assumes inv: "cache_inv c {} s" "maps_ok c s"
    and lpn: "lpn = lpn_of c lba" "sz = unat (pages_of c lba sectors)" "can_update c s lpn sz"
      "GET_ROOT_NUM_PER_REGION (unat lpn div NUM_PAGE_PER_ROOT) \<in> live s (unat lpn div NUM_PAGE_PER_REGION)"
    and ppn: "unat ppn + sz < 4294967295"
  shows "\<exists>t. pm_update_physical_address c lba sectors ppn s = Some t \<and> cache_inv c {} t \<and> maps_ok c t \<and> lpn_cached t lpn
    \<and> (\<forall>rg. map_type (region_table t rg) = map_type (region_table s rg))
    \<and> in_extent t lpn sz (new_leaf (unat lpn mod NUM_PAGE_PER_ROOT) sz ppn)
    \<and> data_view t = data_view s \<and> (\<forall>l. unat l div NUM_PAGE_PER_REGION < REGION_NODE_SIZE c \<longrightarrow> page_of t l =
        (if unat lpn \<le> unat l \<and> unat l < unat lpn + sz then Some (ppn + of_nat (unat l - unat lpn))
         else page_of s l))"
proof -
  let ?rg = "unat lpn div NUM_PAGE_PER_REGION" and ?n = "unat lpn div NUM_PAGE_PER_ROOT"
  let ?r = "GET_ROOT_NUM_PER_REGION ?n" and ?p = "unat lpn mod NUM_PAGE_PER_ROOT"
  have u: "?rg < REGION_NODE_SIZE c" "0 < sz" "?p + sz \<le> 2048" "lpn_cached s lpn \<or> can_take c s"
    "has_room s ?rg ?r ?p sz"
    using lpn(3,4) by (simp_all add: can_update_def Let_def pm_sizes)
  have "\<exists>t e'. pm_update_extents c ?rg lba sectors ppn s = Some t \<and> cache_inv c {} t \<and> maps_ok c t
    \<and> table_set c (ExtSlot ?rg) (ExtVal e') s t \<and> inserted (live s ?rg) ?r ?p sz ppn (ext_look s ?rg) e'
    \<and> slot_ptr t (ExtSlot ?rg) \<noteq> None"
  proof (cases "slot_ptr s (ExtSlot ?rg)")
    case (Some n)
    show ?thesis using pm_update_extents_cached[OF inv u(1) Some lpn(1,2) refl refl lpn(4) u(2,5)] .
  next
    case None
    then have "can_take c s" using u(4) lpn(4) by (auto simp: lpn_cached_def Let_def)
    then show ?thesis
      using pm_update_extents_uncached[OF inv u(1) None _ lpn(1,2) refl refl lpn(4) u(2,3,5)] by blast
  qed
  then obtain t e' where t: "pm_update_extents c ?rg lba sectors ppn s = Some t" "cache_inv c {} t" "maps_ok c t"
    "table_set c (ExtSlot ?rg) (ExtVal e') s t" "inserted (live s ?rg) ?r ?p sz ppn (ext_look s ?rg) e'"
    "slot_ptr t (ExtSlot ?rg) \<noteq> None"
    by blast
  have run: "pm_update_physical_address c lba sectors ppn s = Some t"
    using t(1) lpn(1,4) by (simp add: pm_update_physical_address_def Let_def live_def)
  have "page_of t l = (if unat lpn \<le> unat l \<and> unat l < unat lpn + sz
      then Some (ppn + of_nat (unat l - unat lpn)) else page_of s l)"
    if l: "unat l div NUM_PAGE_PER_REGION < REGION_NODE_SIZE c" for l
    using page_of_ext_set[OF t(4) l t(5) lpn(4)] in_root_range[OF u(3), of l]
    unfolding Let_def by presburger
  moreover have "data_view t = data_view s" "\<forall>rg. map_type (region_table t rg) = map_type (region_table s rg)"
    using t(4) by (simp_all add: table_set_def)
  moreover have "lpn_cached t lpn"
    using t(6) lpn(4) by (simp add: lpn_cached_def Let_def table_set_live[OF t(4)])
  moreover have "in_extent t lpn sz (new_leaf ?p sz ppn)"
    using inserted_in_extent[OF t(4,5) refl refl lpn(4) u(1,3)] ppn u(2) word_le_not_M1[of ppn] by simp
  ultimately show ?thesis using run t(2,3) by blast
qed

lemma pm_update_physical_address_eq:
  assumes "cache_inv c {} s" "maps_ok c s"
    and "lpn = lpn_of c lba" "sz = unat (pages_of c lba sectors)" "can_update c s lpn sz"
    and "unat ppn + sz < 4294967295"
  obtains t where "pm_update_physical_address c lba sectors ppn s = Some t" "cache_inv c {} t" "maps_ok c t"
    "data_view t = data_view s" "lpn_cached t lpn"
    "\<And>rg. map_type (region_table t rg) = map_type (region_table s rg)"
    "GET_ROOT_NUM_PER_REGION (unat lpn div NUM_PAGE_PER_ROOT) \<in> live s (unat lpn div NUM_PAGE_PER_REGION) \<Longrightarrow>
      in_extent t lpn sz (new_leaf (unat lpn mod NUM_PAGE_PER_ROOT) sz ppn)"
    "\<And>l. unat l div NUM_PAGE_PER_REGION < REGION_NODE_SIZE c \<Longrightarrow> page_of t l =
        (if unat lpn \<le> unat l \<and> unat l < unat lpn + sz then Some (ppn + of_nat (unat l - unat lpn))
         else page_of s l)"
  using update_in_pagemap[OF assms(1-5) _ assms(6)] update_in_extents[OF assms(1-5) _ assms(6)] that by blast



lemma opened_tab: "slot_ok mid_config x \<Longrightarrow> slot_ptr opened x = None \<and> tab opened x = None"
  "live opened rg = {..<16}"
  using opened_inv(3-4)[where c = mid_config and s = zero_state] by (simp_all add: opened_def)

lemma opened_can_update:
  assumes "unat lpn < 2048" "0 < sz" "unat lpn + sz \<le> 2048"
  shows "can_update mid_config opened lpn sz"
  using assms opened_tab by (simp add: can_update_def has_room_def pm_sizes)


end
