(* ===== verification/FtlSpec.thy ===== *)
theory FtlSpec
  imports MapUpdate
begin

text \<open>
  The write path as a whole. A request that lies in one root and finds room in the active super
  block takes consecutive pages, programs them in order, looks up the old page of a partly written
  one, and enters the new pages into the mapping: afterwards every page of the drive is where a
  map updated at the pages of the request says it is.
\<close>

subsection \<open>Sectors and pages of a request\<close>

text \<open>The number of pages a request of \<open>n\<close> sectors at sector \<open>a\<close> touches, with \<open>k\<close> sectors in a
  page, and the sectors of it that lie in its first page.\<close>

definition page_count :: "nat \<Rightarrow> nat \<Rightarrow> nat \<Rightarrow> nat" where
  "page_count k a n = (if n = 0 then 0 else (a mod k + n - 1) div k + 1)"

lemma page_count_step:
  fixes a n k :: nat
  assumes "0 < n" "0 < k"
  defines "m \<equiv> min n (k - a mod k)"
  shows "0 < m" "page_count k a n = Suc (page_count k (a + m) (n - m))"
    "m < n \<Longrightarrow> (a + m) mod k = 0" "m < n \<Longrightarrow> (a + m) div k = a div k + 1"
proof -
  have lt: "a mod k < k" using assms(2) by simp
  show "0 < m" using lt assms(1) by (simp add: m_def)
  have am: "a + m = k * (a div k + 1)" if "m < n"
  proof -
    have m: "m = k - a mod k" using that by (simp add: m_def min_def split: if_splits)
    have "k * (a div k) + a mod k = a" by simp
    then have "a + m = k * (a div k) + k" using m lt by linarith
    then show ?thesis by simp
  qed
  then show mod: "m < n \<Longrightarrow> (a + m) mod k = 0" and "m < n \<Longrightarrow> (a + m) div k = a div k + 1"
    using assms(2) by simp_all
  show "page_count k a n = Suc (page_count k (a + m) (n - m))"
  proof (cases "m < n")
    case False
    then have "m = n" "a mod k + n \<le> k" using lt by (auto simp: m_def)
    then show ?thesis using assms(1) lt by (simp add: page_count_def)
  next
    case True
    then have "m = k - a mod k" by (simp add: m_def min_def split: if_splits)
    then have "a mod k + n - 1 = k + (n - m - 1)" using True lt by linarith
    moreover have "(k + (n - m - 1)) div k = 1 + (n - m - 1) div k"
      using div_add_self1[of k "n - m - 1"] assms(2) by simp
    ultimately have "(a mod k + n - 1) div k = 1 + (n - m - 1) div k" by simp
    then show ?thesis using True mod[OF True] assms(1) unfolding page_count_def by simp
  qed
qed

lemma page_count_le: "page_count k a n \<le> n"
proof (cases "n = 0 \<or> k = 0")
  case True
  then show ?thesis by (auto simp: page_count_def)
next
  case False
  then have "a mod k < k" by simp
  then have "a mod k + n - 1 \<le> (k - 1) + (n - 1)" using False by linarith
  also have "\<dots> < k * n" using False by (cases k; cases n) auto
  finally show ?thesis using False by (simp add: page_count_def less_mult_imp_div_less mult.commute Suc_leI)
qed

lemma last_sector_div:
  fixes a n k :: nat
  assumes "0 < n" "0 < k"
  shows "(a + n - 1) div k = a div k + (a mod k + n - 1) div k"
proof -
  have "a div k * k + a mod k = a" by simp
  then have "a + n - 1 = a div k * k + (a mod k + n - 1)" using assms(1) by linarith
  then have "(a + n - 1) div k = (a div k * k + (a mod k + n - 1)) div k" by (rule arg_cong)
  also have "\<dots> = a div k + (a mod k + n - 1) div k" using assms(2) by (intro div_mult_self3) simp
  finally show ?thesis .
qed

lemma unat_SPP: "cfg_wf c \<Longrightarrow> unat (SPP c) = nat (SECTORS_PER_PAGE c)" "cfg_wf c \<Longrightarrow> 0 < unat (SPP c)"
  by (auto simp: SPP_def cfg_wf_def unat_u32i)

lemma lpn_of_nat: "unat (lpn_of c lba) = unat lba div unat (SPP c)"
  by (simp add: lpn_of_def SPP_def unat_div)

lemma pages_of_count:
  assumes "cfg_wf c" "0 < unat sectors" "unat lba + unat sectors < 4294967296"
  shows "unat (pages_of c lba sectors) = page_count (unat (SPP c)) (unat lba) (unat sectors)"
proof -
  let ?k = "unat (SPP c)" and ?a = "unat lba" and ?n = "unat sectors"
  have sum: "unat (lba + sectors) = ?a + ?n" using assms(3) by (simp add: unat_add_id)
  have "(1::u32) \<le> lba + sectors" using sum assms(2) by (simp add: word_le_nat_alt)
  then have last: "unat (lba + sectors - 1) = ?a + ?n - 1" using sum by (simp add: unat_sub)
  note q = last_sector_div[OF assms(2) unat_SPP(2)[OF assms(1)], of ?a]
  have le: "lpn_of c lba \<le> (lba + sectors - 1) div SPP c"
    using assms(2) by (simp add: word_le_nat_alt lpn_of_nat unat_div last div_le_mono)
  have "unat ((lba + sectors - 1) div SPP c - lpn_of c lba) = (?a mod ?k + ?n - 1) div ?k"
    unfolding unat_sub[OF le] unat_div last q lpn_of_nat by simp
  moreover have "(?a mod ?k + ?n - 1) div ?k < ?n"
    using page_count_le[of ?k ?a ?n] assms(2) by (simp add: page_count_def)
  ultimately show ?thesis
    using assms(2,3) unat_add_id[of "(lba + sectors - 1) div SPP c - lpn_of c lba" 1]
    by (simp add: pages_of_def SPP_def page_count_def)
qed

text \<open>The sectors \<open>FTL_WRITE\<close> takes into the next page.\<close>

lemma sects_of_min:
  assumes "cfg_wf c" "unat left = a mod unat (SPP c)"
  shows "unat (sects_of c remain left) = min (unat remain) (unat (SPP c) - a mod unat (SPP c))"
proof -
  have lt: "unat left < unat (SPP c)" using assms(2) unat_SPP(2)[OF assms(1)] by simp
  then have sub: "unat (SPP c - left) = unat (SPP c) - unat left"
    by (simp add: unat_sub word_le_nat_alt)
  show ?thesis
  proof (cases "SPP c - left < remain")
    case True
    then show ?thesis using sub assms(2) by (simp add: sects_of_def right_skip_of_def word_less_nat_alt)
  next
    case False
    then have le: "unat remain \<le> unat (SPP c) - unat left" using sub by (simp add: word_less_nat_alt)
    have "SPP c - left - (SPP c - left - remain) = remain" by simp
    then show ?thesis using False le assms(2) by (simp add: sects_of_def right_skip_of_def)
  qed
qed


subsection \<open>The pages of a write\<close>

text \<open>A map is cached for all pages of a root or for none.\<close>

lemma lpn_cached_root:
  assumes "unat l div NUM_PAGE_PER_ROOT = unat lpn div NUM_PAGE_PER_ROOT"
  shows "lpn_cached s l = lpn_cached s lpn"
  using assms lpn_region_root[of l] lpn_region_root[of lpn] by (simp add: lpn_cached_def)

text \<open>The programming of the \<open>n\<close> pages from \<open>w\<close> on, numbered from \<open>nb\<close>.\<close>

definition programmed :: "config \<Rightarrow> u32 \<Rightarrow> nat \<Rightarrow> nat \<Rightarrow> io_event list" where
  "programmed c w nb n = map (\<lambda>i. let p = w + of_nat i in
     SSD_PAGE_WRITE (ftl_calc_bank c p) (ftl_calc_block c p) (ftl_calc_page c p) (nb + i) WRITE) [0 ..< n]"

lemma programmed_Suc:
  "programmed c w nb (Suc n) =
     SSD_PAGE_WRITE (ftl_calc_bank c w) (ftl_calc_block c w) (ftl_calc_page c w) nb WRITE
     # programmed c (w + 1) (nb + 1) n"
proof -
  have "[0 ..< Suc n] = 0 # map Suc [0 ..< n]" by (simp add: map_Suc_upt upt_conv_Cons del: upt_Suc)
  then show ?thesis by (simp add: programmed_def Let_def o_def ac_simps del: upt_Suc)
qed

text \<open>A state of the data path: the maps are as in \<open>s\<close>, \<open>n\<close> pages were taken and programmed, and
  the root of \<open>lpn\<close> is cached or can be.\<close>

definition written :: "config \<Rightarrow> u32 \<Rightarrow> nat \<Rightarrow> nat \<Rightarrow> ftl_state \<Rightarrow> ftl_state \<Rightarrow> bool" where
  "written c lpn nb n s t \<longleftrightarrow> cache_inv c {} t \<and> maps_ok c t
     \<and> (\<forall>x. slot_ok c x \<longrightarrow> tab t x = tab s x)
     \<and> (\<forall>rg. map_type (region_table t rg) = map_type (region_table s rg))
     \<and> (lpn_cached t lpn \<or> can_take c t)
     \<and> write_block_ptr (ftl_meta t) = write_block_ptr (ftl_meta s)
     \<and> write_ptr (ftl_meta t) = write_ptr (ftl_meta s) + of_nat n
     \<and> free_page_cnt t = free_page_cnt s - int n
     \<and> data_io t = data_io s @ programmed c (write_ptr (ftl_meta s)) nb n"

lemma written_refl:
  assumes "cache_inv c {} s" "maps_ok c s" "lpn_cached s lpn \<or> can_take c s"
  shows "written c lpn nb 0 s s"
  using assms by (simp add: written_def programmed_def)

lemma written_Suc:
  assumes "written c lpn nb 1 s t" "written c lpn (nb + 1) n t u"
  shows "written c lpn nb (Suc n) s u"
  using assms by (simp add: written_def programmed_Suc) (simp add: programmed_def algebra_simps)

text \<open>A step that leaves the maps alone.\<close>

definition maps_same :: "ftl_state \<Rightarrow> ftl_state \<Rightarrow> bool" where
  "maps_same s t \<longleftrightarrow> region_table t = region_table s \<and> cache_map t = cache_map s
     \<and> cache_idx_table t = cache_idx_table s \<and> cache_wp t = cache_wp s \<and> clock_hand t = clock_hand s
     \<and> map_store t = map_store s
     \<and> write_block_ptr (ftl_meta t) = write_block_ptr (ftl_meta s)
     \<and> write_map_block_ptr (ftl_meta t) = write_map_block_ptr (ftl_meta s)
     \<and> write_map_ptr (ftl_meta t) = write_map_ptr (ftl_meta s) \<and> block_ptr (ftl_meta t) = block_ptr (ftl_meta s)"

lemma maps_same_facts:
  assumes "maps_same s t"
  shows "slot_ptr t x = slot_ptr s x" "slot_ppn t x = slot_ppn s x" "tab t x = tab s x"
    "region_table t = region_table s" "live t rg = live s rg" "lpn_cached t l = lpn_cached s l"
    "can_take c t = can_take c s" "maps_ok c t = maps_ok c s" "page_of t l = page_of s l"
    "cache_inv c H s \<Longrightarrow> alloc_ok c (ftl_meta t) \<Longrightarrow> cache_inv c H t"
proof -
  note same = assms[unfolded maps_same_def]
  have sp: "slot_ptr t y = slot_ptr s y" "slot_ppn t y = slot_ppn s y" for y
    using same by (cases y; simp)+
  have sv: "saved t y = saved s y" for y using same by (simp add: saved_def stored_def sp)
  have tb: "tab t y = tab s y" for y using same by (simp add: tab_def sp sv split: option.split)
  have ul: "used_lines t = used_lines s" by (simp add: used_lines_def sp)
  have lv: "live t g = live s g" for g using same by (simp add: live_def)
  show "slot_ptr t x = slot_ptr s x" "slot_ppn t x = slot_ppn s x" "tab t x = tab s x"
    "region_table t = region_table s" "live t rg = live s rg" "lpn_cached t l = lpn_cached s l"
    using same by (simp_all add: sp tb lv lpn_cached_def Let_def)
  show "maps_ok c t = maps_ok c s" using same by (simp add: maps_ok_def lv tb get_extents_def)
  show "page_of t l = page_of s l" unfolding page_of_def lv tb ..
  have "free_block_loop c (ftl_meta t) k r = free_block_loop c (ftl_meta s) k r" for k r
    using same by (induction k arbitrary: r) (simp_all add: Let_def)
  then have "fst (ftl_get_free_map_page c t) = fst (ftl_get_free_map_page c s)"
    using same by (simp add: ftl_get_free_map_page_def ftl_get_free_block_def Let_def split: option.split)
  then show "can_take c t = can_take c s" using same by (simp add: can_take_def)
  show "cache_inv c H s \<Longrightarrow> alloc_ok c (ftl_meta t) \<Longrightarrow> cache_inv c H t"
    using same unfolding cache_inv_def clock_ok_def owners_ok_def saved_ok_def sp sv tb ul
    by (elim conjE, simp only: simp_thms)
qed

lemma maps_same_log_io: "maps_same s (log_io e s)"
  by (simp add: maps_same_def log_io_def)

text \<open>Taking the next page of the active super block.\<close>

lemma next_page:
  assumes "cache_inv c {} s" "0 < room_left c s"
  defines "w \<equiv> write_ptr (ftl_meta s)"
  obtains s1 where "ftl_get_free_page c s = (w, s1)" "maps_same s s1" "cache_inv c {} s1"
    "room_left c s1 = room_left c s - 1" "write_ptr (ftl_meta s1) = w + 1"
    "free_page_cnt s1 = free_page_cnt s - 1" "data_io s1 = data_io s"
proof -
  have wf: "cfg_wf c" and al: "alloc_ok c (ftl_meta s)" using assms(1) by (simp_all add: cache_inv_def)
  have lt: "unat w < (unat (write_block_ptr (ftl_meta s)) + 1) * block_pages c"
    using assms(2) by (simp add: room_left_def w_def)
  let ?s1 = "s\<lparr>ftl_meta := (ftl_meta s)\<lparr>write_ptr := w + 1\<rparr>, free_page_cnt := free_page_cnt s - 1\<rparr>"
  have g: "ftl_get_free_page c s = (w, ?s1)" using ftl_get_free_page_same[OF wf al] lt by (simp add: w_def)
  have inv: "ptr_in c (write_block_ptr (ftl_meta s)) w" "unat (write_block_ptr (ftl_meta s)) < blocks c"
    using al by (auto simp: alloc_ok_def data_block_def w_def)
  note i = ptr_in_inc[OF wf inv lt]
  have "alloc_ok c (ftl_meta ?s1)" using al i(1) by (simp add: alloc_ok_def)
  moreover have ms: "maps_same s ?s1" by (simp add: maps_same_def)
  ultimately have "cache_inv c {} ?s1" using maps_same_facts(10)[OF ms assms(1)] by blast
  then show ?thesis using that[OF g ms] i(2) by (simp add: room_left_def data_io_def w_def)
qed

text \<open>One round of the loop: a page is taken, the old contents of a partly written page are looked
  up, and the page is programmed.\<close>

definition look_old :: "config \<Rightarrow> bool \<Rightarrow> u32 \<Rightarrow> ftl_state \<Rightarrow> ftl_state option" where
  "look_old c partly lpn s =
     (if partly then do {
        r \<leftarrow> pm_get_physical_address c lpn \<lparr>root_offset = 0, index_offset = 0, leaf_offset = 0\<rparr> s;
        old_ppn \<leftarrow> old_page c lpn (fst r) (snd (snd r));
        Some (snd (snd r)) }
      else Some s)"

lemma look_old_ok:
  assumes "cache_inv c {} s" "maps_ok c s" "unat lpn div NUM_PAGE_PER_REGION < REGION_NODE_SIZE c"
    and "lpn_cached s lpn \<or> can_take c s"
  obtains t where "look_old c partly lpn s = Some t" "cache_inv c {} t" "maps_ok c t" "obs_same c s t"
    "lpn_cached t lpn \<or> can_take c t"
proof (cases partly)
  case False
  then show ?thesis using assms that[of s] by (simp add: look_old_def)
next
  case True
  have "\<not> lpn_cached s lpn \<Longrightarrow> can_take c s" using assms(4) by simp
  then obtain ptr off' t where t: "pm_get_physical_address c lpn
      \<lparr>root_offset = 0, index_offset = 0, leaf_offset = 0\<rparr> s = Some (ptr, off', t)"
    "cache_inv c {} t" "maps_ok c t" "obs_same c s t" "t = s \<or> lpn_cached t lpn" "old_page c lpn ptr t \<noteq> None"
    by (rule pm_get_physical_address_eq[OF assms(1-3)])
  then show ?thesis using True assms(4) that[of t] by (auto simp: look_old_def)
qed

lemma write_round:
  assumes "cache_inv c {} s" "maps_ok c s" "0 < room_left c s"
    and "unat l div NUM_PAGE_PER_REGION < REGION_NODE_SIZE c" "lpn_cached s lpn \<or> can_take c s"
    and "unat l div NUM_PAGE_PER_ROOT = unat lpn div NUM_PAGE_PER_ROOT"
  defines "w \<equiv> write_ptr (ftl_meta s)"
  obtains s2 where "look_old c partly l (snd (ftl_get_free_page c s)) = Some s2"
    "fst (ftl_get_free_page c s) = w"
    "written c lpn nb 1 s
      (log_io (SSD_PAGE_WRITE (ftl_calc_bank c w) (ftl_calc_block c w) (ftl_calc_page c w) nb WRITE) s2)"
    "room_left c
      (log_io (SSD_PAGE_WRITE (ftl_calc_bank c w) (ftl_calc_block c w) (ftl_calc_page c w) nb WRITE) s2)
      = room_left c s - 1"
proof -
  obtain s1 where n: "ftl_get_free_page c s = (w, s1)" "maps_same s s1" "cache_inv c {} s1"
    "room_left c s1 = room_left c s - 1" "write_ptr (ftl_meta s1) = w + 1"
    "free_page_cnt s1 = free_page_cnt s - 1" "data_io s1 = data_io s"
    using next_page[OF assms(1,3)] unfolding w_def by blast
  note f = maps_same_facts[OF n(2)]
  let ?ev = "SSD_PAGE_WRITE (ftl_calc_bank c w) (ftl_calc_block c w) (ftl_calc_page c w) nb WRITE"
  have "lpn_cached s1 l \<or> can_take c s1"
    using assms(5) f(6,7) lpn_cached_root[OF assms(6)] by simp
  moreover have "maps_ok c s1" using f(8) assms(2) by simp
  ultimately obtain s2 where s2: "look_old c partly l s1 = Some s2" "cache_inv c {} s2" "maps_ok c s2"
    "obs_same c s1 s2" "lpn_cached s2 l \<or> can_take c s2"
    using look_old_ok[OF n(3) _ assms(4)] by metis
  let ?t = "log_io ?ev s2"
  note g = maps_same_facts[OF maps_same_log_io[of s2 ?ev]]
  have meta: "ftl_meta ?t = ftl_meta s2" "free_page_cnt ?t = free_page_cnt s2" "data_io ?t = data_io s2 @ [?ev]"
    by (simp_all add: log_io_def data_io_def)
  have dv: "write_block_ptr (ftl_meta s2) = write_block_ptr (ftl_meta s1)" "write_ptr (ftl_meta s2) = w + 1"
    "free_page_cnt s2 = free_page_cnt s - 1" "data_io s2 = data_io s"
    using s2(4) n(5-7) by (simp_all add: obs_same_def data_view_def)
  have blk: "write_block_ptr (ftl_meta s1) = write_block_ptr (ftl_meta s)" using n(2) by (simp add: maps_same_def)
  have "cache_inv c {} ?t" using g(10)[OF s2(2)] s2(2) meta(1) by (simp add: cache_inv_def)
  moreover have "maps_ok c ?t" using g(8) s2(3) by simp
  moreover have "tab ?t x = tab s x" if "slot_ok c x" for x
    using that g(3) f(3) s2(4) by (simp add: obs_same_def)
  moreover have "map_type (region_table ?t rg) = map_type (region_table s rg)" for rg
    using g(4) f(4) s2(4) by (simp add: obs_same_def)
  moreover have "lpn_cached ?t lpn \<or> can_take c ?t"
    using s2(5) g(6,7) lpn_cached_root[OF assms(6)] by simp
  ultimately have "written c lpn nb 1 s ?t"
    using meta dv blk by (simp add: written_def programmed_def w_def Let_def)
  moreover have "room_left c ?t = room_left c s - 1"
    using n(4,5) meta(1) dv(1,2) by (simp add: room_left_def)
  ultimately show ?thesis using that[of s2] s2(1) n(1) by simp
qed

text \<open>The loop over the pages of a request.\<close>

lemma room_not_M1:
  assumes "cfg_wf c" "alloc_ok c (ftl_meta s)"
  shows "write_ptr (ftl_meta s) \<noteq> M1" "0 < room_left c s \<Longrightarrow> unat (write_ptr (ftl_meta s)) + room_left c s < 2147483648"
proof -
  let ?b = "write_block_ptr (ftl_meta s)" and ?w = "write_ptr (ftl_meta s)"
  have p: "ptr_in c ?b ?w" "unat ?b < blocks c" using assms(2) by (auto simp: alloc_ok_def data_block_def)
  have "unat ?w < 2147483648"
    using ptr_in_bound(1)[OF assms(1) p] cfg_wf_sizes(5)[OF assms(1)] by linarith
  then show "?w \<noteq> M1" by auto
  show "unat ?w + room_left c s < 2147483648" if "0 < room_left c s"
    using that block_end_le[OF p(2)] cfg_wf_sizes(5)[OF assms(1)] by (simp add: room_left_def)
qed

lemma written_same_root:
  assumes "written c lpn nb n s t"
  shows "cache_inv c {} t" "maps_ok c t" "lpn_cached t lpn \<or> can_take c t"
    "write_ptr (ftl_meta t) = write_ptr (ftl_meta s) + of_nat n"
  using assms by (simp_all add: written_def)

lemma write_loop_0: "write_loop c 0 v s = Some (v, s)"
  by (simp add: write_loop.simps[of c 0 v s])

lemma write_loop_ok:
  assumes "cache_inv c {} s" "maps_ok c s" "lpn_cached s lpn \<or> can_take c s"
    and "unat lba + unat remain < 4294967296"
    and "\<And>x. unat lba \<le> x \<Longrightarrow> x < unat lba + unat remain \<Longrightarrow>
      x div unat (SPP c) div NUM_PAGE_PER_ROOT = unat lpn div NUM_PAGE_PER_ROOT"
    and "unat lpn div NUM_PAGE_PER_REGION < REGION_NODE_SIZE c"
    and "page_count (unat (SPP c)) (unat lba) (unat remain) \<le> room_left c s"
    and "wr_lba v = lba" "0 < unat remain \<Longrightarrow> unat (wr_left_skip v) = unat lba mod unat (SPP c)"
  defines "n \<equiv> page_count (unat (SPP c)) (unat lba) (unat remain)"
  defines "w \<equiv> write_ptr (ftl_meta s)"
  shows "\<exists>v' t. write_loop c remain v s = Some (v', t) \<and> written c lpn (write_page_nb v) n s t
    \<and> (0 < n \<longrightarrow> wr_ori_ppn v' = (if wr_ori_ppn v = M1 then w else wr_ori_ppn v)
          \<and> wr_new_ppn v' = w + of_nat (n - 1))"
  using assms(1-9) unfolding n_def w_def
proof (induction "unat remain" arbitrary: remain lba v s rule: less_induct)
  case less
  have wf: "cfg_wf c" using less.prems(1) by (simp add: cache_inv_def)
  let ?k = "unat (SPP c)"
  show ?case
  proof (cases "remain = 0")
    case True
    then show ?thesis using written_refl[OF less.prems(1-3)]
      by (auto simp: write_loop.simps[of c 0 v s] page_count_def)
  next
    case False
    then have pos: "0 < unat remain" by (simp add: unat_gt_0)
    let ?l = "lpn_of c lba" and ?left = "wr_left_skip v"
    let ?m = "min (unat remain) (?k - unat lba mod ?k)"
    let ?sects = "sects_of c remain ?left"
    have left: "unat ?left = unat lba mod ?k" using less.prems(9) pos by simp
    have m: "unat ?sects = ?m" by (rule sects_of_min[OF wf left])
    note st = page_count_step[OF pos unat_SPP(2)[OF wf], of "unat lba"]
    have root: "unat ?l div NUM_PAGE_PER_ROOT = unat lpn div NUM_PAGE_PER_ROOT"
      using less.prems(5)[of "unat lba"] pos by (simp add: lpn_of_nat)
    then have rg: "unat ?l div NUM_PAGE_PER_REGION < REGION_NODE_SIZE c"
      using less.prems(6) lpn_region_root[of ?l] lpn_region_root[of lpn] by simp
    have rl: "0 < room_left c s" using less.prems(7) st(2) by simp
    let ?w = "write_ptr (ftl_meta s)"
    let ?ev = "SSD_PAGE_WRITE (ftl_calc_bank c ?w) (ftl_calc_block c ?w) (ftl_calc_page c ?w) (write_page_nb v) WRITE"
    let ?partly = "?left \<noteq> 0 \<or> right_skip_of c remain ?left \<noteq> 0"
    obtain s2 where s2: "look_old c ?partly ?l (snd (ftl_get_free_page c s)) = Some s2"
      "fst (ftl_get_free_page c s) = ?w" "written c lpn (write_page_nb v) 1 s (log_io ?ev s2)"
      "room_left c (log_io ?ev s2) = room_left c s - 1"
      using write_round[OF less.prems(1,2) rl rg less.prems(3) root] by blast
    let ?v = "v\<lparr>wr_lba := wr_lba v + ?sects, wr_left_skip := 0,
      wr_ori_ppn := (if wr_ori_ppn v = M1 then ?w else wr_ori_ppn v), wr_new_ppn := ?w,
      write_page_nb := write_page_nb v + 1\<rparr>"
    have run: "write_loop c remain v s = write_loop c (remain - ?sects) ?v (log_io ?ev s2)"
      using s2(1,2) False less.prems(8)
      by (auto simp: write_loop.simps[of c remain] look_old_def Let_def bind_eq_Some_conv split: if_splits)
    have le: "?sects \<le> remain" using m by (simp add: word_le_nat_alt)
    have rem: "unat (remain - ?sects) = unat remain - ?m" by (simp add: unat_sub[OF le] m)
    have add: "unat (lba + ?sects) = unat lba + ?m"
      using less.prems(4) m by (subst unat_add_id) auto
    note wr = written_same_root[OF s2(3)]
    have lt: "unat (remain - ?sects) < unat remain" using rem st(1) pos by simp
    have IH: "\<exists>v' t. write_loop c (remain - ?sects) ?v (log_io ?ev s2) = Some (v', t)
      \<and> written c lpn (write_page_nb ?v) (page_count ?k (unat (lba + ?sects)) (unat (remain - ?sects)))
          (log_io ?ev s2) t
      \<and> (0 < page_count ?k (unat (lba + ?sects)) (unat (remain - ?sects)) \<longrightarrow>
          wr_ori_ppn v' = (if wr_ori_ppn ?v = M1 then write_ptr (ftl_meta (log_io ?ev s2)) else wr_ori_ppn ?v)
        \<and> wr_new_ppn v' = write_ptr (ftl_meta (log_io ?ev s2))
            + of_nat (page_count ?k (unat (lba + ?sects)) (unat (remain - ?sects)) - 1))"
    proof (rule less.hyps[OF lt wr(1-3)])
      show "unat (lba + ?sects) + unat (remain - ?sects) < 4294967296"
        using less.prems(4) rem add by simp
      show "x div ?k div NUM_PAGE_PER_ROOT = unat lpn div NUM_PAGE_PER_ROOT"
        if "unat (lba + ?sects) \<le> x" "x < unat (lba + ?sects) + unat (remain - ?sects)" for x
        using that less.prems(5)[of x] rem add by simp
      show "page_count ?k (unat (lba + ?sects)) (unat (remain - ?sects)) \<le> room_left c (log_io ?ev s2)"
        using less.prems(7) unfolding st(2) s2(4) rem add by linarith
      show "unat (wr_left_skip ?v) = unat (lba + ?sects) mod ?k" if "0 < unat (remain - ?sects)"
        using that st(3) rem add by simp
    qed (use less.prems(6,8) in simp_all)
    let ?n = "page_count ?k (unat lba + ?m) (unat remain - ?m)"
    from IH obtain v' t where t: "write_loop c remain v s = Some (v', t)"
      "written c lpn (write_page_nb v + 1) ?n (log_io ?ev s2) t"
      "0 < ?n \<longrightarrow> wr_ori_ppn v' = (if wr_ori_ppn ?v = M1 then ?w + 1 else wr_ori_ppn ?v)
        \<and> wr_new_ppn v' = ?w + 1 + of_nat (?n - 1)"
      unfolding run rem add using wr(4) by auto
    have n: "page_count ?k (unat lba) (unat remain) = Suc ?n" by (rule st(2))
    have wM: "?w \<noteq> M1"
      using less.prems(1) room_not_M1(1)[OF wf] by (simp add: cache_inv_def)
    have end0: "v' = ?v" if "?n = 0"
    proof -
      have "unat (remain - ?sects) = 0" using that rem by (simp add: page_count_def split: if_splits)
      then have "remain - ?sects = 0" by (simp only: unat_eq_0)
      then have "write_loop c remain v s = Some (?v, log_io ?ev s2)" unfolding run by (simp only: write_loop_0)
      then show ?thesis using t(1) by simp
    qed
    have "wr_ori_ppn v' = (if wr_ori_ppn v = M1 then ?w else wr_ori_ppn v) \<and> wr_new_ppn v' = ?w + of_nat ?n"
    proof (cases "?n = 0")
      case True
      then show ?thesis using end0 by simp
    next
      case False
      then have "?w + 1 + of_nat (?n - 1) = ?w + of_nat ?n" by (cases ?n) simp_all
      then show ?thesis using False t(3) wM by auto
    qed
    then show ?thesis using t(1) written_Suc[OF s2(3) t(2)] unfolding n by auto
  qed
qed

subsection \<open>The mapping of the new pages\<close>

lemma same_region:
  assumes "cfg_wf c" "0 < unat sectors" "unat lba + unat sectors < 4294967296"
  shows "IS_SAME_REGION c lba sectors \<longleftrightarrow>
    unat lba div unat (SPP c) div NUM_PAGE_PER_ROOT
    = (unat lba + unat sectors - 1) div unat (SPP c) div NUM_PAGE_PER_ROOT"
proof -
  have sum: "unat (lba + sectors) = unat lba + unat sectors" using assms(3) by (simp add: unat_add_id)
  have "(1::u32) \<le> lba + sectors" using sum assms(2) by (simp add: word_le_nat_alt)
  then have last: "unat (lba + sectors - 1) = unat lba + unat sectors - 1" using sum by (simp add: unat_sub)
  show ?thesis
    by (simp add: IS_SAME_REGION_def word_unat_eq_iff unat_div last pm_sizes)
qed

lemma last_sector_page:
  assumes "cfg_wf c" "0 < unat sectors"
  shows "(unat lba + unat sectors - 1) div unat (SPP c)
    = unat lba div unat (SPP c) + (page_count (unat (SPP c)) (unat lba) (unat sectors) - 1)"
  using last_sector_div[OF assms(2) unat_SPP(2)[OF assms(1)], of "unat lba"] assms(2)
  by (simp add: page_count_def)

text \<open>The pages of a request that fits into the root of its first page.\<close>

lemma sector_in_root:
  assumes "cfg_wf c" "0 < unat sectors"
    and "unat (lpn_of c lba) mod NUM_PAGE_PER_ROOT + page_count (unat (SPP c)) (unat lba) (unat sectors)
      \<le> NUM_PAGE_PER_ROOT"
    and "unat lba \<le> x" "x < unat lba + unat sectors"
  shows "x div unat (SPP c) div NUM_PAGE_PER_ROOT = unat (lpn_of c lba) div NUM_PAGE_PER_ROOT"
proof -
  let ?k = "unat (SPP c)" and ?a = "unat lba" and ?N = "NUM_PAGE_PER_ROOT"
  have ge: "?a div ?k \<le> x div ?k" using assms(4) by (rule div_le_mono)
  have "x div ?k \<le> (?a + unat sectors - 1) div ?k" using assms(5) by (intro div_le_mono) simp
  then have le: "x div ?k \<le> ?a div ?k + (page_count ?k ?a (unat sectors) - 1)"
    unfolding last_sector_page[OF assms(1,2)] .
  have d: "?a div ?k = ?a div ?k div ?N * ?N + ?a div ?k mod ?N" by simp
  have pc: "0 < page_count ?k ?a (unat sectors)" using assms(2) by (simp add: page_count_def)
  have "x div ?k < (?a div ?k div ?N + 1) * ?N"
    using le d assms(3) pc unfolding lpn_of_nat add_mult_distrib by linarith
  moreover have "?a div ?k div ?N * ?N \<le> x div ?k" using ge d by linarith
  ultimately show ?thesis unfolding lpn_of_nat by (intro div_nat_eqI) (simp_all add: mult.commute)
qed

lemma can_update_same:
  assumes "\<And>x. slot_ok c x \<Longrightarrow> tab t x = tab s x"
    and "\<And>rg. map_type (region_table t rg) = map_type (region_table s rg)"
    and "lpn_cached t lpn \<or> can_take c t" "can_update c s lpn n"
  shows "can_update c t lpn n"
proof -
  let ?rg = "unat lpn div NUM_PAGE_PER_REGION"
  have lv: "live t g = live s g" for g by (simp add: live_def assms(2))
  have rg: "?rg < REGION_NODE_SIZE c" using assms(4) by (simp add: can_update_def Let_def)
  have "has_room t ?rg r p sz = has_room s ?rg r p sz" for r p sz
    using assms(1)[of "ExtSlot ?rg"] rg unfolding has_room_def lv by simp
  then show ?thesis using assms(3,4) by (simp add: can_update_def lv Let_def)
qed

lemma page_of_same:
  assumes "\<And>x. slot_ok c x \<Longrightarrow> tab t x = tab s x"
    and "\<And>rg. map_type (region_table t rg) = map_type (region_table s rg)"
    and "unat l div NUM_PAGE_PER_REGION < REGION_NODE_SIZE c"
  shows "page_of t l = page_of s l"
proof -
  let ?rg = "unat l div NUM_PAGE_PER_REGION" and ?r = "GET_ROOT_NUM_PER_REGION (unat l div NUM_PAGE_PER_ROOT)"
  have "tab t (ExtSlot ?rg) = tab s (ExtSlot ?rg)" "tab t (PageSlot ?rg ?r) = tab s (PageSlot ?rg ?r)"
    using assms(1,3) by simp_all
  moreover have "live t g = live s g" for g by (simp add: live_def assms(2))
  ultimately show ?thesis unfolding page_of_def Let_def by presburger
qed

text \<open>Both ends of a run of pages in the active super block lie in it.\<close>

lemma run_in_block:
  assumes "cfg_wf c" "alloc_ok c (ftl_meta s)" "0 < n" "n \<le> room_left c s"
  shows "ftl_calc_block c (write_ptr (ftl_meta s)) = ftl_calc_block c (write_ptr (ftl_meta s) + of_nat (n - 1))"
    "unat (write_ptr (ftl_meta s)) + n < 4294967295"
proof -
  let ?w = "write_ptr (ftl_meta s)" and ?b = "write_block_ptr (ftl_meta s)"
  have p: "ptr_in c ?b ?w" using assms(2) by (auto simp: alloc_ok_def)
  have lt: "unat ?w + room_left c s < 2147483648" using room_not_M1[OF assms(1,2)] assms(3,4) by simp
  then show "unat ?w + n < 4294967295" using assms(4) by simp
  have k: "unat (of_nat (n - 1) :: u32) = n - 1" using lt assms(4) 
    by (simp add: unat_of_nat take_bit_nat_eq_self)
  have u: "unat (?w + of_nat (n - 1)) = unat ?w + (n - 1)"
    using lt assms(4) k by (subst unat_add_id) simp_all
  have e: "unat ?w + (n - 1) < (unat ?b + 1) * block_pages c"
    using assms(3,4) by (simp add: room_left_def)
  then have q: "ptr_in c ?b (?w + of_nat (n - 1))" using p unfolding ptr_in_def u by linarith
  have "ftl_calc_block c ?w = ?b" using ptr_in_block[OF assms(1) p] e by linarith
  moreover have "ftl_calc_block c (?w + of_nat (n - 1)) = ?b" using ptr_in_block[OF assms(1) q] e u by simp
  ultimately show "ftl_calc_block c ?w = ftl_calc_block c (?w + of_nat (n - 1))" by simp
qed

lemma ftl_write_eq:
  assumes "cache_inv c {} s" "maps_ok c s"
    and "0 < unat sectors" "unat lba + unat sectors < 4294967296"
    and "lpn = lpn_of c lba" "n = unat (pages_of c lba sectors)" "can_update c s lpn n"
    and "n \<le> room_left c s" "NR_RESERVED_PHY_PAGES c + PAGE_NB c * FLASH_NB c * 500 < free_page_cnt s"
  shows "\<exists>t. FTL_WRITE c ev1 ev2 lba sectors s = Some t \<and> cache_inv c {} t \<and> maps_ok c t
    \<and> (\<forall>l. unat l div NUM_PAGE_PER_REGION < REGION_NODE_SIZE c \<longrightarrow> page_of t l =
        (if unat lpn \<le> unat l \<and> unat l < unat lpn + n
         then Some (write_ptr (ftl_meta s) + of_nat (unat l - unat lpn)) else page_of s l))
    \<and> data_io t = data_io s @ programmed c (write_ptr (ftl_meta s)) 0 n
    \<and> write_ptr (ftl_meta t) = write_ptr (ftl_meta s) + of_nat n \<and> free_page_cnt t = free_page_cnt s - int n
    \<and> lpn_cached t lpn \<and> (\<forall>rg. map_type (region_table t rg) = map_type (region_table s rg))
    \<and> (GET_ROOT_NUM_PER_REGION (unat lpn div NUM_PAGE_PER_ROOT) \<in> live s (unat lpn div NUM_PAGE_PER_REGION) \<longrightarrow>
        in_extent t lpn n (new_leaf (unat lpn mod NUM_PAGE_PER_ROOT) n (write_ptr (ftl_meta s))))"
proof -
  have wf: "cfg_wf c" and al: "alloc_ok c (ftl_meta s)" using assms(1) by (simp_all add: cache_inv_def)
  let ?w = "write_ptr (ftl_meta s)"
  let ?s1 = "log_io (ALLOC_IO_REQUEST lba sectors WRITE) (s\<lparr>write_add_count := 0\<rparr>)"
  let ?v = "\<lparr>wr_lba = lba, wr_left_skip = lba mod SPP c, wr_ori_ppn = M1, wr_new_ppn = 0, write_page_nb = 0\<rparr>"
  have n: "n = page_count (unat (SPP c)) (unat lba) (unat sectors)"
    unfolding assms(6) by (rule pages_of_count[OF wf assms(3,4)])
  have cu: "unat lpn div NUM_PAGE_PER_REGION < REGION_NODE_SIZE c" "0 < n"
    "unat lpn mod NUM_PAGE_PER_ROOT + n \<le> NUM_PAGE_PER_ROOT" "lpn_cached s lpn \<or> can_take c s"
    using assms(7) by (simp_all add: can_update_def Let_def)
  have ms: "maps_same s ?s1" by (simp add: maps_same_def log_io_def)
  note f = maps_same_facts[OF ms]
  have meta: "ftl_meta ?s1 = ftl_meta s" "free_page_cnt ?s1 = free_page_cnt s" "data_io ?s1 = data_io s"
    by (simp_all add: log_io_def data_io_def)
  have inv1: "cache_inv c {} ?s1" "maps_ok c ?s1" "lpn_cached ?s1 lpn \<or> can_take c ?s1"
    using f(10)[OF assms(1)] al meta(1) f(6-8) assms(2) cu(4) by simp_all
  have rl: "room_left c ?s1 = room_left c s" by (simp add: room_left_def meta)
  note sr = sector_in_root[OF wf assms(3), of lba, folded n assms(5), OF cu(3)]
  have "\<exists>v' t. write_loop c sectors ?v ?s1 = Some (v', t)
    \<and> written c lpn (write_page_nb ?v) (page_count (unat (SPP c)) (unat lba) (unat sectors)) ?s1 t
    \<and> (0 < page_count (unat (SPP c)) (unat lba) (unat sectors) \<longrightarrow>
          wr_ori_ppn v' = (if wr_ori_ppn ?v = M1 then write_ptr (ftl_meta ?s1) else wr_ori_ppn ?v)
          \<and> wr_new_ppn v' = write_ptr (ftl_meta ?s1)
              + of_nat (page_count (unat (SPP c)) (unat lba) (unat sectors) - 1))"
    by (rule write_loop_ok[OF inv1 assms(4) sr cu(1)])
       (use assms(8) rl n in \<open>simp_all add: unat_mod\<close>)
  then obtain v' t where t: "write_loop c sectors ?v ?s1 = Some (v', t)" "written c lpn 0 n ?s1 t"
    "wr_ori_ppn v' = ?w" "wr_new_ppn v' = ?w + of_nat (n - 1)"
    unfolding n[symmetric] using cu(2) meta(1) by auto
  have w: "cache_inv c {} t" "maps_ok c t" "lpn_cached t lpn \<or> can_take c t"
    "\<And>x. slot_ok c x \<Longrightarrow> tab t x = tab s x"
    "\<And>rg. map_type (region_table t rg) = map_type (region_table s rg)"
    using t(2) f(3,4) by (simp_all add: written_def)
  have cut: "can_update c t lpn n" by (rule can_update_same[OF w(4,5,3) assms(7)])
  note blk = run_in_block[OF wf al cu(2) assms(8)]
  obtain u where u: "pm_update_physical_address c lba sectors ?w t = Some u" "cache_inv c {} u" "maps_ok c u"
    "data_view u = data_view t" "lpn_cached u lpn"
    "\<And>rg. map_type (region_table u rg) = map_type (region_table t rg)"
    "GET_ROOT_NUM_PER_REGION (unat lpn div NUM_PAGE_PER_ROOT) \<in> live t (unat lpn div NUM_PAGE_PER_REGION) \<Longrightarrow>
      in_extent u lpn n (new_leaf (unat lpn mod NUM_PAGE_PER_ROOT) n ?w)"
    "\<And>l. unat l div NUM_PAGE_PER_REGION < REGION_NODE_SIZE c \<Longrightarrow> page_of u l =
        (if unat lpn \<le> unat l \<and> unat l < unat lpn + n then Some (?w + of_nat (unat l - unat lpn))
         else page_of t l)"
    by (rule pm_update_physical_address_eq[OF w(1,2) assms(5,6) cut blk(2)]) blast
  have "IS_SAME_REGION c lba sectors"
    unfolding same_region[OF wf assms(3,4)] using sr[of "unat lba"] sr[of "unat lba + unat sectors - 1"] assms(3)
    by simp
  then have wu: "write_update c lba sectors ?w (?w + of_nat (n - 1)) t = Some u"
    using u(1) blk(1) by (simp add: write_update_def update_in_roots_def Let_def)
  let ?t = "log_io INCREASE_IO_REQUEST_SEQ_NB u"
  note g = maps_same_facts[OF maps_same_log_io[of u INCREASE_IO_REQUEST_SEQ_NB]]
  have run: "FTL_WRITE c ev1 ev2 lba sectors s = Some ?t"
    using t(1,3,4) wu assms(9) by (simp add: FTL_WRITE_def write_gc_def Let_def)
  have "ftl_meta ?t = ftl_meta u" "free_page_cnt ?t = free_page_cnt u" "data_io ?t = data_io u"
    by (simp_all add: log_io_def data_io_def)
  moreover have "write_ptr (ftl_meta u) = ?w + of_nat n" "free_page_cnt u = free_page_cnt s - int n"
    "data_io u = data_io s @ programmed c ?w 0 n"
    using u(4) t(2) meta by (simp_all add: data_view_def written_def)
  moreover have "cache_inv c {} ?t" "maps_ok c ?t"
    using g(10)[OF u(2)] g(8) u(2,3) by (simp_all add: cache_inv_def log_io_def)
  moreover have "page_of ?t l = (if unat lpn \<le> unat l \<and> unat l < unat lpn + n
      then Some (?w + of_nat (unat l - unat lpn)) else page_of s l)"
    if "unat l div NUM_PAGE_PER_REGION < REGION_NODE_SIZE c" for l
    using u(8)[OF that] page_of_same[OF w(4,5) that] g(9) by simp
  moreover have "lpn_cached ?t lpn" using g(6) u(5) by simp
  moreover have "map_type (region_table ?t rg) = map_type (region_table s rg)" for rg using g(4) u(6) w(5) by simp
  moreover have "in_extent ?t lpn n (new_leaf (unat lpn mod NUM_PAGE_PER_ROOT) n ?w)"
    if "GET_ROOT_NUM_PER_REGION (unat lpn div NUM_PAGE_PER_ROOT) \<in> live s (unat lpn div NUM_PAGE_PER_REGION)"
    using u(7) that w(5) g(3) by (simp add: in_extent_def ext_leaf_def live_def)
  ultimately show ?thesis using run by auto
qed


text \<open>A drive that was just opened.\<close>

definition fresh :: ftl_state where
  "fresh = ftl_init mid_config (cache_init (pm_init mid_config (cleared (zero_state\<lparr>free_page_cnt := 65504\<rparr>))))"

lemma fresh: "cache_inv mid_config {} fresh" "maps_ok mid_config fresh" "can_take mid_config fresh"
  "slot_ok mid_config x \<Longrightarrow> tab fresh x = None" "live fresh rg = {..<16}"
  "free_page_cnt fresh = 65504" "ftl_meta fresh = ftl_meta (ftl_init mid_config zero_state)"
  using opened_inv[where c = mid_config and s = "zero_state\<lparr>free_page_cnt := 65504\<rparr>"]
  by (simp_all add: fresh_def can_take_def ftl_init_def cache_init_def pm_init_def cleared_def
      ftl_set_free_blk_bitmap_def Let_def zero_state_def)

lemma fresh_can_update: "can_update mid_config fresh 100 2"
  using fresh by (simp add: can_update_def has_room_def pm_sizes)

lemma fresh_room: "room_left mid_config fresh = 8"
  "NR_RESERVED_PHY_PAGES mid_config + PAGE_NB mid_config * FLASH_NB mid_config * 500 < free_page_cnt fresh"
proof -
  have m: "write_block_ptr (ftl_meta fresh) = 4" "write_ptr (ftl_meta fresh) = block_first_page mid_config 4"
    by (simp_all add: fresh ftl_init_meta)
  show "room_left mid_config fresh = 8"
    unfolding room_left_def m
    by (simp add: block_pages_def banks_def pages_def block_first_page_def mid_config_def small_config_fields)
  show "NR_RESERVED_PHY_PAGES mid_config + PAGE_NB mid_config * FLASH_NB mid_config * 500 < free_page_cnt fresh"
    by (simp add: fresh mid_config_def small_config_fields)
qed


end
