(* ===== verification/FtlReadSpec.thy ===== *)
theory FtlReadSpec
  imports FtlSpec
begin

text \<open>
  The read path. In a root with extents a request whose pages lie in one extent reads exactly
  their physical pages in order. In a root with a page map the loop of \<open>FTL_READ\<close> reads each page at
  the place looked up in the round before; what it then reads is stated as it is.
\<close>

text \<open>The reading of the pages \<open>ps\<close>, numbered from \<open>nb\<close>.\<close>

fun read_events :: "config \<Rightarrow> nat \<Rightarrow> u32 list \<Rightarrow> io_event list" where
  "read_events c nb [] = []"
| "read_events c nb (p # ps) =
     SSD_PAGE_READ (ftl_calc_bank c p) (ftl_calc_block c p) (ftl_calc_page c p) nb READ # read_events c (nb + 1) ps"

definition run_of :: "u32 \<Rightarrow> nat \<Rightarrow> u32 list" where
  "run_of p n = map (\<lambda>i. p + of_nat i) [0 ..< n]"

lemma run_of_Suc: "run_of p (Suc n) = p # run_of (p + 1) n"
proof -
  have "[0 ..< Suc n] = 0 # map Suc [0 ..< n]" by (simp add: map_Suc_upt upt_conv_Cons del: upt_Suc)
  then show ?thesis by (simp add: run_of_def o_def ac_simps del: upt_Suc)
qed

lemma run_of_0 [simp]: "run_of p 0 = []"
  by (simp add: run_of_def)

lemma data_read_events: "filter data_event (read_events c nb ps) = read_events c nb ps"
  by (induction ps arbitrary: nb) simp_all

subsection \<open>One extent\<close>

lemma read_leaf_pages_ok:
  assumes "cfg_wf c" "\<not> unwritten t"
    and "0 < unat remain \<Longrightarrow> unat (rd_left_skip v) = a mod unat (SPP c)"
    and "page_count (unat (SPP c)) a (unat remain) \<le> unat leaf_size"
  shows "\<exists>v' ls. read_leaf_pages c t remain leaf_size v s = Some (0, ls, v',
      s\<lparr>io_trace := io_trace s @ read_events c (read_page_nb v)
        (run_of (rd_ppn v) (page_count (unat (SPP c)) a (unat remain)))\<rparr>)
    \<and> (remain \<noteq> 0 \<longrightarrow> \<not> rd_dummy_alloc v')"
  using assms(3,4)
proof (induction "unat remain" arbitrary: remain a leaf_size v s rule: less_induct)
  case less
  let ?k = "unat (SPP c)"
  show ?case
  proof (cases "remain = 0")
    case True
    then show ?thesis by (simp add: read_leaf_pages.simps[of c t 0] page_count_def)
  next
    case False
    then have pos: "0 < unat remain" by (simp add: unat_gt_0)
    let ?m = "min (unat remain) (?k - a mod ?k)" and ?sects = "sects_of c remain (rd_left_skip v)"
    note st = page_count_step[OF pos unat_SPP(2)[OF assms(1)], of a]
    have m: "unat ?sects = ?m" by (rule sects_of_min[OF assms(1) less.prems(1)[OF pos]])
    have le: "?sects \<le> remain" using m by (simp add: word_le_nat_alt)
    have rem: "unat (remain - ?sects) = unat remain - ?m" by (simp add: unat_sub[OF le] m)
    have ls: "leaf_size \<noteq> 0" using less.prems(2) st(2) by auto
    then have ls1: "unat (leaf_size - 1) = unat leaf_size - 1" by (simp add: unat_minus_one)
    let ?v = "count_read ?sects (v\<lparr>rd_ppn := rd_ppn v + 1\<rparr>)"
    have lt: "unat (remain - ?sects) < unat remain" using rem st(1) pos by simp
    have IH: "\<exists>v' ls. read_leaf_pages c t (remain - ?sects) (leaf_size - 1) ?v (issue_read c v s) = Some (0, ls, v',
        (issue_read c v s)\<lparr>io_trace := io_trace (issue_read c v s) @ read_events c (read_page_nb ?v)
          (run_of (rd_ppn ?v) (page_count ?k (a + ?m) (unat (remain - ?sects))))\<rparr>)
        \<and> (remain - ?sects \<noteq> 0 \<longrightarrow> \<not> rd_dummy_alloc v')"
    proof (rule less.hyps[OF lt])
      show "unat (rd_left_skip ?v) = (a + ?m) mod ?k" if "0 < unat (remain - ?sects)"
        using that st(3) rem by (simp add: count_read_def)
      show "page_count ?k (a + ?m) (unat (remain - ?sects)) \<le> unat (leaf_size - 1)"
        using less.prems(2) unfolding st(2) rem ls1 by linarith
    qed
    then obtain v' l where u: "read_leaf_pages c t (remain - ?sects) (leaf_size - 1) ?v (issue_read c v s) =
        Some (0, l, v', (issue_read c v s)\<lparr>io_trace := io_trace (issue_read c v s) @ read_events c (read_page_nb ?v)
          (run_of (rd_ppn ?v) (page_count ?k (a + ?m) (unat (remain - ?sects))))\<rparr>)"
      "remain - ?sects \<noteq> 0 \<longrightarrow> \<not> rd_dummy_alloc v'" by blast
    have run: "read_leaf_pages c t remain leaf_size v s
        = read_leaf_pages c t (remain - ?sects) (leaf_size - 1) ?v (issue_read c v s)"
      using False ls assms(2) by (simp add: read_leaf_pages.simps[of c t remain] Let_def)
    have "\<not> rd_dummy_alloc v'"
    proof (cases "remain - ?sects = 0")
      case True
      then have "read_leaf_pages c t (remain - ?sects) (leaf_size - 1) ?v (issue_read c v s)
          = Some (0, leaf_size - 1, ?v, issue_read c v s)"
        by (simp add: read_leaf_pages.simps[of c t "0 :: u32"])
      then have "v' = ?v" using u(1) by simp
      then show ?thesis by (simp add: count_read_def)
    qed (use u(2) in blast)
    then show ?thesis
      using u(1) unfolding run st(2) rem run_of_Suc
      by (simp add: issue_read_def log_io_def count_read_def)
  qed
qed

lemma read_leaf_loop_covers:
  "read_leaf_loop ls lb p i n = Some l \<Longrightarrow> lf_lpn (ls (lb + l)) \<le> p \<and> p < lf_end (ls (lb + l))"
  by (induction n arbitrary: i) (auto simp: Let_def lf_end_def split: if_splits)

lemma ext_leaf_covers:
  assumes "ext_leaf s l = Some t"
  shows "lf_lpn t \<le> unat l mod NUM_PAGE_PER_ROOT" "unat l mod NUM_PAGE_PER_ROOT < lf_end t"
  using assms read_leaf_loop_covers
  by (fastforce simp: ext_leaf_def pm_read_extmap_def bind_eq_Some_conv
      split: option.splits map_val.splits prod.splits if_splits)+

lemma tab_r_node:
  assumes "tab s (ExtSlot rg) = Some (ExtVal e)" "r < 16"
  shows "r_node e r = Some (6 * r)"
  using assms by (auto simp: tab_def saved_def bind_eq_Some_conv line_extents_def pm_init_extmap_link_def
      ROOT_NODE_SIZE_def INDEX_NODE_SIZE_def split: option.splits)

lemma ext_leaf_page_of:
  assumes "ext_leaf s l = Some t"
    "GET_ROOT_NUM_PER_REGION (unat l div NUM_PAGE_PER_ROOT) \<in> live s (unat l div NUM_PAGE_PER_REGION)"
  shows "page_of s l = Some (leaf_ppn t (unat l mod NUM_PAGE_PER_ROOT))"
  using assms tab_r_node[of s "unat l div NUM_PAGE_PER_REGION" _ "GET_ROOT_NUM_PER_REGION (unat l div NUM_PAGE_PER_ROOT)"]
  by (fastforce simp: ext_leaf_def page_of_def ext_lookup_def Let_def split: option.splits map_val.splits)

text \<open>Where the reading starts in the extent, and how much of it is left.\<close>

lemma extent_start:
  assumes "in_extent s lpn n t" "0 < n" "unat lpn mod NUM_PAGE_PER_ROOT + n \<le> NUM_PAGE_PER_ROOT"
    and "unat lpn + n \<le> 4294967296"
  defines "p \<equiv> unat lpn mod NUM_PAGE_PER_ROOT"
  defines "add \<equiv> word_of_int (int p - int (lf_lpn t)) :: u32"
  shows "lf_ppn t + add = leaf_ppn t p" "n \<le> unat (of_nat (lf_size t) - add)"
    "i < n \<Longrightarrow> leaf_ppn t p + of_nat i = leaf_ppn t (p + i)"
proof -
  have cov: "ext_leaf s l = Some t" if "unat lpn \<le> unat l" "unat l < unat lpn + n" for l
    using assms(1) that by (simp add: in_extent_def)
  have p: "lf_lpn t \<le> p" "p < lf_end t"
    using ext_leaf_covers[OF cov[of lpn]] assms(2) by (simp_all add: p_def)
  have a: "add = of_nat (p - lf_lpn t)" unfolding add_def using p(1) by (simp flip: of_nat_diff)
  then show "lf_ppn t + add = leaf_ppn t p" by (simp add: leaf_ppn_def)
  obtain j where j: "n = Suc j" using assms(2) by (cases n) simp_all
  let ?l = "lpn + of_nat j"
  have "unat (of_nat j :: u32) = j" using assms(4) j by (simp add: unat_of_nat take_bit_nat_eq_self)
  then have u: "unat ?l = unat lpn + j" using assms(4) j by (subst unat_add_id) simp_all
  have "unat ?l mod NUM_PAGE_PER_ROOT = (p + j) mod NUM_PAGE_PER_ROOT"
    by (simp add: u p_def mod_add_left_eq)
  then have "unat ?l mod NUM_PAGE_PER_ROOT = p + j" using assms(3) j by (simp add: p_def)
  then have e: "p + (n - 1) < lf_end t"
    using ext_leaf_covers(2)[OF cov[of ?l]] u j by simp
  have sz: "lf_lpn t + lf_size t \<le> 2048" using assms(1) by (simp add: in_extent_def lf_end_def pm_sizes)
  have le: "p - lf_lpn t \<le> lf_size t" using p(2) by (simp add: lf_end_def)
  have "of_nat (lf_size t) - add = (of_nat (lf_size t - (p - lf_lpn t)) :: u32)"
    unfolding a using le by (simp add: of_nat_diff)
  then have "unat (of_nat (lf_size t) - add) = lf_size t - (p - lf_lpn t)"
    using sz by (simp add: unat_of_nat take_bit_nat_eq_self)
  then show "n \<le> unat (of_nat (lf_size t) - add)" using e p(1) by (simp add: lf_end_def)
  show "i < n \<Longrightarrow> leaf_ppn t p + of_nat i = leaf_ppn t (p + i)"
    using p(1) by (simp add: leaf_ppn_def flip: of_nat_add)
qed

lemma page_end_bound:
  assumes "cfg_wf c" "0 < unat sectors" "unat lba + unat sectors < 4294967296"
  shows "unat lba div unat (SPP c) + page_count (unat (SPP c)) (unat lba) (unat sectors) \<le> 4294967296"
proof -
  have "(unat lba + unat sectors - 1) div unat (SPP c) \<le> unat lba + unat sectors - 1" by simp
  then show ?thesis using last_sector_page[OF assms(1,2), of lba] assms(3) by linarith
qed

lemma extent_page_of:
  assumes "in_extent s lpn n t" "0 < n" "unat lpn mod NUM_PAGE_PER_ROOT + n \<le> NUM_PAGE_PER_ROOT"
    and "unat lpn + n \<le> 4294967296"
    and "GET_ROOT_NUM_PER_REGION (unat lpn div NUM_PAGE_PER_ROOT) \<in> live s (unat lpn div NUM_PAGE_PER_REGION)"
    and "i < n"
  shows "page_of s (lpn + of_nat i) = Some (leaf_ppn t (unat lpn mod NUM_PAGE_PER_ROOT + i))"
proof -
  let ?l = "lpn + of_nat i" and ?p = "unat lpn mod NUM_PAGE_PER_ROOT"
  have "unat (of_nat i :: u32) = i" using assms(4,6) by (simp add: unat_of_nat take_bit_nat_eq_self)
  then have u: "unat ?l = unat lpn + i" using assms(4,6) by (subst unat_add_id) simp_all
  have lpn: "unat lpn = unat lpn div NUM_PAGE_PER_ROOT * NUM_PAGE_PER_ROOT + ?p" by simp
  have q: "?p + i < NUM_PAGE_PER_ROOT" using assms(3,6) by simp
  have e: "unat ?l = (?p + i) + unat lpn div NUM_PAGE_PER_ROOT * NUM_PAGE_PER_ROOT" using u lpn by linarith
  have "(?p + i + unat lpn div NUM_PAGE_PER_ROOT * NUM_PAGE_PER_ROOT) mod NUM_PAGE_PER_ROOT = ?p + i"
    using q by (simp only: mod_mult_self1 mod_less)
  then have m: "unat ?l mod NUM_PAGE_PER_ROOT = ?p + i" unfolding e .
  have N: "NUM_PAGE_PER_ROOT \<noteq> 0" by (simp add: pm_sizes)
  have "(?p + i + unat lpn div NUM_PAGE_PER_ROOT * NUM_PAGE_PER_ROOT) div NUM_PAGE_PER_ROOT
      = unat lpn div NUM_PAGE_PER_ROOT"
    unfolding div_mult_self1[OF N] using q by simp
  then have "unat ?l div NUM_PAGE_PER_ROOT = unat lpn div NUM_PAGE_PER_ROOT" unfolding e .
  note m = m this
  then have "unat ?l div NUM_PAGE_PER_REGION = unat lpn div NUM_PAGE_PER_REGION"
    using lpn_region_root[of ?l] lpn_region_root[of lpn] by simp
  moreover have "ext_leaf s ?l = Some t" using assms(1,6) u by (simp add: in_extent_def)
  ultimately show ?thesis using ext_leaf_page_of[of s ?l t] assms(5) m by simp
qed

lemma ftl_read_extent_eq:
  assumes "cache_inv c {} s" "maps_ok c s"
    and "0 < unat sectors" "unat lba + unat sectors < 4294967296" "\<not> (lba = 0 \<and> sectors = 1)"
    and "lpn = lpn_of c lba" "n = unat (pages_of c lba sectors)"
    and "unat lpn div NUM_PAGE_PER_REGION < REGION_NODE_SIZE c"
    and "unat lpn mod NUM_PAGE_PER_ROOT + n \<le> NUM_PAGE_PER_ROOT"
    and "GET_ROOT_NUM_PER_REGION (unat lpn div NUM_PAGE_PER_ROOT) \<in> live s (unat lpn div NUM_PAGE_PER_REGION)"
    and "lpn_cached s lpn \<or> can_take c s" "in_extent s lpn n t"
  shows "\<exists>u. FTL_READ c lba sectors s = Some u \<and> cache_inv c {} u \<and> maps_ok c u
    \<and> (\<forall>l. unat l div NUM_PAGE_PER_REGION < REGION_NODE_SIZE c \<longrightarrow> page_of u l = page_of s l)
    \<and> data_io u = data_io s @ read_events c 0 (map (\<lambda>i. the (page_of s (lpn + of_nat i))) [0 ..< n])"
proof -
  have wf: "cfg_wf c" and al: "alloc_ok c (ftl_meta s)" using assms(1) by (simp_all add: cache_inv_def)
  let ?p = "unat lpn mod NUM_PAGE_PER_ROOT" and ?rg = "unat lpn div NUM_PAGE_PER_REGION"
  have n: "n = page_count (unat (SPP c)) (unat lba) (unat sectors)"
    unfolding assms(7) by (rule pages_of_count[OF wf assms(3,4)])
  have n0: "0 < n" using assms(3) by (simp add: n page_count_def)
  let ?s0 = "(log_io (ALLOC_IO_REQUEST lba sectors READ) s)\<lparr>write_add_count := 0\<rparr>"
  have ms: "maps_same s ?s0" by (simp add: maps_same_def log_io_def)
  note f = maps_same_facts[OF ms]
  have meta: "ftl_meta ?s0 = ftl_meta s" "data_io ?s0 = data_io s" by (simp_all add: log_io_def data_io_def)
  have inv0: "cache_inv c {} ?s0" "maps_ok c ?s0" using f(10)[OF assms(1)] al meta(1) f(8) assms(2) by simp_all
  have live0: "GET_ROOT_NUM_PER_REGION (unat lpn div NUM_PAGE_PER_ROOT) \<in> live ?s0 ?rg" using f(5) assms(10) by simp
  have free0: "\<not> lpn_cached ?s0 lpn \<Longrightarrow> can_take c ?s0" using f(6,7) assms(11) by simp
  have leaf0: "ext_leaf ?s0 l = ext_leaf s l" for l by (simp add: ext_leaf_def f(3))
  have leaf: "ext_leaf s l = Some t" if "unat lpn \<le> unat l" "unat l < unat lpn + n" for l
    using assms(12) that by (simp add: in_extent_def)
  obtain ptr off' s1 where g: "pm_get_physical_address c lpn \<lparr>root_offset = 0, index_offset = 0, leaf_offset = 0\<rparr> ?s0
      = Some (ptr, off', s1)" "cache_inv c {} s1" "maps_ok c s1" "obs_same c ?s0 s1"
    "\<exists>m k. ptr = LeafEntry m k \<and> leaf_at s1 (m, k) = Some t"
    by (rule pm_get_physical_address_eq[where off = "\<lparr>root_offset = 0, index_offset = 0, leaf_offset = 0\<rparr>",
          OF inv0 assms(8) free0]) (use leaf[of lpn] n0 leaf0 live0 in auto)
  then obtain m k where mk: "ptr = LeafEntry m k" "leaf_at s1 (m, k) = Some t" by blast
  have "unat lba div unat (SPP c) + n \<le> 4294967296" unfolding n by (rule page_end_bound[OF wf assms(3,4)])
  then have n32: "unat lpn + n \<le> 4294967296" by (simp add: assms(6) lpn_of_nat)
  note st = extent_start[OF assms(12) n0 assms(9) n32]
  let ?v = "\<lparr>rd_lba = lba, rd_lpn = lpn, rd_left_skip = lba mod SPP c, rd_t_sectors = sectors,
    rd_ppn = leaf_ppn t ?p, read_page_nb = 0, rd_dummy_alloc = True, rd_off = off'\<rparr>"
  let ?size = "of_nat (lf_size t) - word_of_int (int ?p - int (lf_lpn t)) :: u32"
  let ?s2 = "s1\<lparr>io_trace := io_trace s1 @ read_events c 0 (run_of (leaf_ppn t ?p) n)\<rparr>"
  have uw: "\<not> unwritten t" using assms(12) by (simp add: in_extent_def)
  obtain v' ls where r: "read_leaf_pages c t sectors ?size ?v s1 = Some (0, ls, v', ?s2)" "\<not> rd_dummy_alloc v'"
    using read_leaf_pages_ok[OF wf uw, of sectors ?v "unat lba" ?size s1] st(2) assms(3)
    by (auto simp: unat_mod n[symmetric])
  have "IS_SAME_REGION c lba sectors"
    unfolding same_region[OF wf assms(3,4)]
    using sector_in_root[OF wf assms(3), of lba, folded n assms(6), OF assms(9)] assms(3) by simp
  moreover have "read_extents_loop c ?rg (m, k) ?size ?v s1 = Some (v', ?s2)"
    using mk(2) r(1) by (simp add: read_extents_loop.simps[of c ?rg "(m, k)"])
  then have "read_root c (?v\<lparr>rd_ppn := 0, rd_off := \<lparr>root_offset = 0, index_offset = 0, leaf_offset = 0\<rparr>\<rparr>) ?s0
      = Some (v', ?s2)"
    using live0 g(1) mk st(1) by (simp add: read_root_def Let_def live_def)
  ultimately have run: "FTL_READ c lba sectors s = Some (log_io INCREASE_IO_REQUEST_SEQ_NB ?s2)"
    using assms(5,6) r(2) by (auto simp: FTL_READ_def Let_def)
  have pg: "page_of s (lpn + of_nat i) = Some (leaf_ppn t ?p + of_nat i)" if i: "i < n" for i
    using extent_page_of[OF assms(12) n0 assms(9) n32 assms(10) i] st(3)[OF i] by simp
  have rd: "run_of (leaf_ppn t ?p) n = map (\<lambda>i. the (page_of s (lpn + of_nat i))) [0 ..< n]"
    by (simp add: run_of_def pg)
  let ?u = "log_io INCREASE_IO_REQUEST_SEQ_NB ?s2"
  have "maps_same s1 ?u" by (simp add: maps_same_def log_io_def)
  note h = maps_same_facts[OF this]
  have "cache_inv c {} ?u" "maps_ok c ?u"
    using h(10)[OF g(2)] g(2,3) h(8) by (simp_all add: cache_inv_def log_io_def)
  moreover have "page_of ?u l = page_of s l" if "unat l div NUM_PAGE_PER_REGION < REGION_NODE_SIZE c" for l
    using h(9) obs_same_page_of[OF g(4) that] f(9) by simp
  moreover have "data_io s1 = data_io s" using g(4) meta(2) by (simp add: obs_same_def data_view_def)
  then have "data_io ?u = data_io s @ read_events c 0 (map (\<lambda>i. the (page_of s (lpn + of_nat i))) [0 ..< n])"
    unfolding rd[symmetric] by (simp add: data_io_def log_io_def data_read_events)
  ultimately show ?thesis using run by blast
qed


subsection \<open>Reading what was written\<close>

text \<open>A part of the pages of a request.\<close>

lemma sub_request:
  fixes lpn l :: u32
  assumes "unat lpn mod NUM_PAGE_PER_ROOT + n \<le> NUM_PAGE_PER_ROOT" "unat lpn \<le> unat l" "unat l + m \<le> unat lpn + n"
    and "0 < m"
  shows "unat l div NUM_PAGE_PER_ROOT = unat lpn div NUM_PAGE_PER_ROOT"
    "unat l div NUM_PAGE_PER_REGION = unat lpn div NUM_PAGE_PER_REGION"
    "unat l mod NUM_PAGE_PER_ROOT + m \<le> NUM_PAGE_PER_ROOT"
proof -
  define q where "q = unat lpn div NUM_PAGE_PER_ROOT"
  define d where "d = unat l - unat lpn"
  have lpn: "unat lpn = q * NUM_PAGE_PER_ROOT + unat lpn mod NUM_PAGE_PER_ROOT" by (simp add: q_def)
  have l: "unat l = (unat lpn mod NUM_PAGE_PER_ROOT + d) + q * NUM_PAGE_PER_ROOT"
    using lpn assms(2) by (simp add: d_def)
  have lt: "unat lpn mod NUM_PAGE_PER_ROOT + d + m \<le> NUM_PAGE_PER_ROOT" using assms by (simp add: d_def)
  have N: "NUM_PAGE_PER_ROOT \<noteq> 0" by (simp add: pm_sizes)
  show root: "unat l div NUM_PAGE_PER_ROOT = unat lpn div NUM_PAGE_PER_ROOT"
    unfolding l div_mult_self1[OF N] using lt assms(4) by (simp add: q_def)
  show "unat l div NUM_PAGE_PER_REGION = unat lpn div NUM_PAGE_PER_REGION"
    using root lpn_region_root[of l] lpn_region_root[of lpn] by simp
  have "unat l mod NUM_PAGE_PER_ROOT = unat lpn mod NUM_PAGE_PER_ROOT + d"
    unfolding l mod_mult_self1 using lt assms(4) by simp
  then show "unat l mod NUM_PAGE_PER_ROOT + m \<le> NUM_PAGE_PER_ROOT" using lt by simp
qed


lemma fresh_request: "lpn_of mid_config 1605 = 100" "unat (pages_of mid_config 1605 20) = 2"
  "lpn_of mid_config 1618 = 101" "unat (pages_of mid_config 1618 3) = 1"
  "GET_ROOT_NUM_PER_REGION (unat (100 :: u32) div NUM_PAGE_PER_ROOT) \<in> live fresh (unat (100 :: u32) div NUM_PAGE_PER_REGION)"
  by (simp_all add: lpn_of_def pages_of_def fresh)



subsection \<open>Roots with a page map\<close>

text \<open>The pages read when each page is read at the place of the one before it.\<close>

definition one_behind :: "u32 \<Rightarrow> u32 list \<Rightarrow> u32 list" where
  "one_behind p ps = butlast (p # ps)"

lemma one_behind_Cons: "one_behind p (q # ps) = p # one_behind q ps"
  by (simp add: one_behind_def)

lemma one_behind_Nil [simp]: "one_behind p [] = []"
  by (simp add: one_behind_def)

lemma pagemap_lookup_shape:
  assumes "pm_get_physical_address c l off s = Some (ptr, off', s')"
    and "GET_ROOT_NUM_PER_REGION (unat l div NUM_PAGE_PER_ROOT) \<notin> live s (unat l div NUM_PAGE_PER_REGION)"
  shows "ptr \<noteq> LeafEntry n k"
  using assms by (auto simp: pm_get_physical_address_def Let_def live_def bind_eq_Some_conv split: option.splits)

text \<open>What a reading keeps: invariants, maps, and the root of \<open>lpn\<close> in reach.\<close>

definition reading :: "config \<Rightarrow> u32 \<Rightarrow> ftl_state \<Rightarrow> ftl_state \<Rightarrow> bool" where
  "reading c lpn s t \<longleftrightarrow> cache_inv c {} t \<and> maps_ok c t \<and> (lpn_cached t lpn \<or> can_take c t)
     \<and> (\<forall>x. slot_ok c x \<longrightarrow> tab t x = tab s x)
     \<and> (\<forall>rg. map_type (region_table t rg) = map_type (region_table s rg))"

lemma reading_trans: "reading c lpn s t \<Longrightarrow> reading c lpn t u \<Longrightarrow> reading c lpn s u"
  by (simp add: reading_def)

lemma reading_page_of:
  assumes "reading c lpn s t" "unat l div NUM_PAGE_PER_REGION < REGION_NODE_SIZE c"
  shows "page_of t l = page_of s l" "live t rg = live s rg"
proof -
  have a: "\<And>x. slot_ok c x \<Longrightarrow> tab t x = tab s x" and b: "\<And>rg. map_type (region_table t rg) = map_type (region_table s rg)"
    using assms(1) by (simp_all add: reading_def)
  show "page_of t l = page_of s l" by (rule page_of_same[OF a b assms(2)])
  show "live t rg = live s rg" by (simp add: live_def b)
qed

lemma read_pagemap_round:
  assumes "cache_inv c {} s" "maps_ok c s" "lpn_cached s lpn \<or> can_take c s"
    and "unat l div NUM_PAGE_PER_ROOT = unat lpn div NUM_PAGE_PER_ROOT"
    and "unat l div NUM_PAGE_PER_REGION < REGION_NODE_SIZE c"
    and "GET_ROOT_NUM_PER_REGION (unat l div NUM_PAGE_PER_ROOT) \<notin> live s (unat l div NUM_PAGE_PER_REGION)"
    and "page_of s l = Some q"
  obtains n k off' s1 where "pm_get_physical_address c l off s = Some (PageEntry n k, off', s1)"
    "map_option (\<lambda>m. pm_read_pagemap m k) (get_pagemap (issue_read c v s1) n) = Some q"
    "reading c lpn s (issue_read c v s1)"
    "data_io (issue_read c v s1) = data_io s @ read_events c (read_page_nb v) [rd_ppn v]"
proof -
  have "\<not> lpn_cached s l \<Longrightarrow> can_take c s" using assms(3) lpn_cached_root[OF assms(4)] by simp
  then obtain ptr off' s1 where g: "pm_get_physical_address c l off s = Some (ptr, off', s1)"
    "cache_inv c {} s1" "maps_ok c s1" "obs_same c s s1" "phys_value l ptr s1 = page_of s l"
    "s1 = s \<or> lpn_cached s1 l"
    by (rule pm_get_physical_address_eq[OF assms(1,2,5), where off = off]) blast
  obtain n k where ptr: "ptr = PageEntry n k"
    using pagemap_lookup_shape[OF g(1) assms(6)] g(5) assms(7) by (cases ptr) (auto simp: phys_value_def)
  have q: "map_option (\<lambda>m. pm_read_pagemap m k) (get_pagemap (issue_read c v s1) n) = Some q"
    using g(5) assms(7) ptr
    by (auto simp: phys_value_def pm_read_pagemap_def issue_read_def log_io_def get_pagemap_def split: option.splits if_splits)
  have ms: "maps_same s1 (issue_read c v s1)" unfolding issue_read_def by (rule maps_same_log_io)
  note f = maps_same_facts[OF ms]
  have "alloc_ok c (ftl_meta (issue_read c v s1))"
    using g(2) by (simp add: cache_inv_def issue_read_def log_io_def)
  then have "cache_inv c {} (issue_read c v s1)" by (rule f(10)[OF g(2)])
  moreover have "lpn_cached s1 lpn \<or> can_take c s1"
    using g(6) assms(3) lpn_cached_root[OF assms(4)] by auto
  ultimately have "reading c lpn s (issue_read c v s1)"
    using g(3,4) f(3,4,6-8) by (simp add: reading_def obs_same_def)
  moreover have "data_io (issue_read c v s1) = data_io s @ read_events c (read_page_nb v) [rd_ppn v]"
    using g(4) by (simp add: obs_same_def data_view_def data_io_def issue_read_def log_io_def)
  ultimately show ?thesis using that g(1) ptr q by blast
qed

lemma read_pagemap_loop_ok:
  assumes "cache_inv c {} s" "maps_ok c s" "lpn_cached s lpn \<or> can_take c s"
    and "unat lba + unat remain < 4294967296"
    and "\<And>x. unat lba \<le> x \<Longrightarrow> x < unat lba + unat remain \<Longrightarrow>
      x div unat (SPP c) div NUM_PAGE_PER_ROOT = unat lpn div NUM_PAGE_PER_ROOT"
    and "unat lpn div NUM_PAGE_PER_REGION < REGION_NODE_SIZE c"
    and "GET_ROOT_NUM_PER_REGION (unat lpn div NUM_PAGE_PER_ROOT) \<notin> live s (unat lpn div NUM_PAGE_PER_REGION)"
    and "\<And>i. i < page_count (unat (SPP c)) (unat lba) (unat remain) \<Longrightarrow>
      page_of s (lpn_of c lba + of_nat i) = Some (pg i)
      \<and> unat (lpn_of c lba + of_nat i) div NUM_PAGE_PER_REGION < REGION_NODE_SIZE c"
    and "rd_lba v = lba" "0 < unat remain \<Longrightarrow> unat (rd_left_skip v) = unat lba mod unat (SPP c)"
  shows "\<exists>v' t. read_pagemap_loop c remain v s = Some (v', t) \<and> reading c lpn s t
    \<and> data_io t = data_io s @ read_events c (read_page_nb v)
        (one_behind (rd_ppn v) (map pg [0 ..< page_count (unat (SPP c)) (unat lba) (unat remain)]))
    \<and> (remain \<noteq> 0 \<or> \<not> rd_dummy_alloc v \<longrightarrow> \<not> rd_dummy_alloc v')"
  using assms
proof (induction "unat remain" arbitrary: remain lba v s pg rule: less_induct)
  case less
  have wf: "cfg_wf c" using less.prems(1) by (simp add: cache_inv_def)
  let ?k = "unat (SPP c)"
  show ?case
  proof (cases "remain = 0")
    case True
    then show ?thesis using less.prems(1-3)
      by (simp add: read_pagemap_loop.simps[of c 0 v s] page_count_def reading_def)
  next
    case False
    then have pos: "0 < unat remain" by (simp add: unat_gt_0)
    let ?l = "lpn_of c lba" and ?m = "min (unat remain) (?k - unat lba mod ?k)"
    let ?sects = "sects_of c remain (rd_left_skip v)"
    note st = page_count_step[OF pos unat_SPP(2)[OF wf], of "unat lba"]
    have m: "unat ?sects = ?m" by (rule sects_of_min[OF wf less.prems(10)[OF pos]])
    have root: "unat ?l div NUM_PAGE_PER_ROOT = unat lpn div NUM_PAGE_PER_ROOT"
      using less.prems(5)[of "unat lba"] pos by (simp add: lpn_of_nat)
    then have rgeq: "unat ?l div NUM_PAGE_PER_REGION = unat lpn div NUM_PAGE_PER_REGION"
      using lpn_region_root[of ?l] lpn_region_root[of lpn] by simp
    have pg0: "page_of s ?l = Some (pg 0)" using less.prems(8)[of 0] st(2) by simp
    obtain n k off' s1 where g: "pm_get_physical_address c ?l (rd_off v) s = Some (PageEntry n k, off', s1)"
      "map_option (\<lambda>m. pm_read_pagemap m k) (get_pagemap (issue_read c v s1) n) = Some (pg 0)"
      "reading c lpn s (issue_read c v s1)"
      "data_io (issue_read c v s1) = data_io s @ read_events c (read_page_nb v) [rd_ppn v]"
      by (rule read_pagemap_round[OF less.prems(1-3) root _ _ pg0, where off = "rd_off v" and v = v])
         (use rgeq root less.prems(6,7) in auto)
    let ?v = "count_read ?sects (v\<lparr>rd_lpn := ?l, rd_off := off', rd_ppn := pg 0\<rparr>)" and ?s = "issue_read c v s1"
    have run: "read_pagemap_loop c remain v s = read_pagemap_loop c (remain - ?sects) ?v ?s"
      using False g(1,2) less.prems(9)
      by (simp add: read_pagemap_loop.simps[of c remain] Let_def del: map_option_eq_Some)
    have le: "?sects \<le> remain" using m by (simp add: word_le_nat_alt)
    have rem: "unat (remain - ?sects) = unat remain - ?m" by (simp add: unat_sub[OF le] m)
    have add: "unat (lba + ?sects) = unat lba + ?m"
      using less.prems(4) m by (subst unat_add_id) auto
    let ?n = "page_count ?k (unat lba + ?m) (unat remain - ?m)"
    have cnt: "page_count ?k (unat (lba + ?sects)) (unat (remain - ?sects)) = ?n" by (simp add: rem add)
    have next_lpn: "lpn_of c (lba + ?sects) = ?l + 1" if "0 < ?n"
    proof -
      have "?m < unat remain" using that by (simp add: page_count_def split: if_splits)
      then have u: "unat (lpn_of c (lba + ?sects)) = unat ?l + 1" using st(4) by (simp add: lpn_of_nat add)
      moreover have "unat (lpn_of c (lba + ?sects)) < 2 ^ LENGTH(32)" by (rule unsigned_less)
      ultimately have "unat ?l + 1 < 4294967296" by simp
      then show ?thesis using u unat_add_id[of ?l 1] by (simp add: word_unat_eq_iff)
    qed
    have lt: "unat (remain - ?sects) < unat remain" using rem st(1) pos by simp
    have inv: "cache_inv c {} ?s" "maps_ok c ?s" "lpn_cached ?s lpn \<or> can_take c ?s"
      using g(3) by (simp_all add: reading_def)
    have IH: "\<exists>v' t. read_pagemap_loop c (remain - ?sects) ?v ?s = Some (v', t) \<and> reading c lpn ?s t
      \<and> data_io t = data_io ?s @ read_events c (read_page_nb ?v)
        (one_behind (rd_ppn ?v) (map (\<lambda>i. pg (Suc i))
          [0 ..< page_count ?k (unat (lba + ?sects)) (unat (remain - ?sects))]))
      \<and> (remain - ?sects \<noteq> 0 \<or> \<not> rd_dummy_alloc ?v \<longrightarrow> \<not> rd_dummy_alloc v')"
    proof (rule less.hyps[OF lt inv _ _ less.prems(6)])
      show "unat (lba + ?sects) + unat (remain - ?sects) < 4294967296" using less.prems(4) rem add by simp
      show "x div ?k div NUM_PAGE_PER_ROOT = unat lpn div NUM_PAGE_PER_ROOT"
        if "unat (lba + ?sects) \<le> x" "x < unat (lba + ?sects) + unat (remain - ?sects)" for x
        using that less.prems(5)[of x] rem add by simp
      show "GET_ROOT_NUM_PER_REGION (unat lpn div NUM_PAGE_PER_ROOT) \<notin> live ?s (unat lpn div NUM_PAGE_PER_REGION)"
        using reading_page_of(2)[OF g(3) less.prems(6)] less.prems(7) by simp
      show "page_of ?s (lpn_of c (lba + ?sects) + of_nat i) = Some (pg (Suc i))
          \<and> unat (lpn_of c (lba + ?sects) + of_nat i) div NUM_PAGE_PER_REGION < REGION_NODE_SIZE c"
        if "i < page_count ?k (unat (lba + ?sects)) (unat (remain - ?sects))" for i
      proof -
        have i: "i < ?n" using that unfolding cnt .
        then have eq: "lpn_of c (lba + ?sects) + of_nat i = ?l + of_nat (Suc i)" using next_lpn by simp
        have "Suc i < page_count ?k (unat lba) (unat remain)" using i st(2) by simp
        then show ?thesis unfolding eq using less.prems(8)[of "Suc i"] reading_page_of(1)[OF g(3)] by simp
      qed
      show "rd_lba ?v = lba + ?sects" using less.prems(9) by (simp add: count_read_def)
      show "unat (rd_left_skip ?v) = unat (lba + ?sects) mod ?k" if "0 < unat (remain - ?sects)"
        using that st(3) rem add by (simp add: count_read_def)
    qed
    then obtain v' t where t: "read_pagemap_loop c (remain - ?sects) ?v ?s = Some (v', t)" "reading c lpn ?s t"
      "data_io t = data_io ?s @ read_events c (read_page_nb v + 1)
        (one_behind (pg 0) (map (\<lambda>i. pg (Suc i)) [0 ..< ?n]))" "\<not> rd_dummy_alloc v'"
      unfolding cnt by (auto simp: count_read_def)
    have "map pg [0 ..< Suc ?n] = pg 0 # map (\<lambda>i. pg (Suc i)) [0 ..< ?n]"
      by (simp add: map_Suc_upt[symmetric] upt_conv_Cons o_def del: upt_Suc)
    then have "data_io t = data_io s @ read_events c (read_page_nb v)
        (one_behind (rd_ppn v) (map pg [0 ..< page_count ?k (unat lba) (unat remain)]))"
      using t(3) g(4) by (simp add: st(2) one_behind_Cons del: upt_Suc)
    then show ?thesis using run t(1,4) reading_trans[OF g(3) t(2)] by auto
  qed
qed

text \<open>C15: Reading a request in a root that was turned into a page map, all of whose pages are mapped:
  the call returns and no page changes its place, but every page is read one round late. The
  first read goes to physical page 0 whatever the request, the next ones to the places of the
  pages before them, and the last page of the request is never read.\<close>

theorem ftl_read_pagemap_one_behind:
  assumes "cache_inv c {} s" "maps_ok c s"
    and "0 < unat sectors" "unat lba + unat sectors < 4294967296" "\<not> (lba = 0 \<and> sectors = 1)"
    and "lpn = lpn_of c lba" "n = unat (pages_of c lba sectors)"
    and "unat lpn div NUM_PAGE_PER_REGION < REGION_NODE_SIZE c"
    and "unat lpn mod NUM_PAGE_PER_ROOT + n \<le> NUM_PAGE_PER_ROOT"
    and "GET_ROOT_NUM_PER_REGION (unat lpn div NUM_PAGE_PER_ROOT) \<notin> live s (unat lpn div NUM_PAGE_PER_REGION)"
    and "lpn_cached s lpn \<or> can_take c s"
    and "\<And>i. i < n \<Longrightarrow> page_of s (lpn + of_nat i) = Some (pg i)"
  shows "\<exists>u. FTL_READ c lba sectors s = Some u \<and> cache_inv c {} u \<and> maps_ok c u
    \<and> (\<forall>l. unat l div NUM_PAGE_PER_REGION < REGION_NODE_SIZE c \<longrightarrow> page_of u l = page_of s l)
    \<and> data_io u = data_io s @ read_events c 0 (0 # map pg [0 ..< n - 1])"
proof -
  have wf: "cfg_wf c" and al: "alloc_ok c (ftl_meta s)" using assms(1) by (simp_all add: cache_inv_def)
  have n: "n = page_count (unat (SPP c)) (unat lba) (unat sectors)"
    unfolding assms(7) by (rule pages_of_count[OF wf assms(3,4)])
  have n0: "0 < n" using assms(3) by (simp add: n page_count_def)
  have n32: "unat lpn + n \<le> 4294967296"
    using page_end_bound[OF wf assms(3,4)] by (simp add: n assms(6) lpn_of_nat)
  let ?s0 = "(log_io (ALLOC_IO_REQUEST lba sectors READ) s)\<lparr>write_add_count := 0\<rparr>"
  have ms: "maps_same s ?s0" by (simp add: maps_same_def log_io_def)
  note f = maps_same_facts[OF ms]
  have meta: "ftl_meta ?s0 = ftl_meta s" "data_io ?s0 = data_io s" by (simp_all add: log_io_def data_io_def)
  have inv0: "cache_inv c {} ?s0" "maps_ok c ?s0" "lpn_cached ?s0 lpn \<or> can_take c ?s0"
    using f(10)[OF assms(1)] al meta(1) f(6-8) assms(2,11) by simp_all
  let ?v = "\<lparr>rd_lba = lba, rd_lpn = lpn, rd_left_skip = lba mod SPP c, rd_t_sectors = sectors, rd_ppn = 0,
    read_page_nb = 0, rd_dummy_alloc = True, rd_off = \<lparr>root_offset = 0, index_offset = 0, leaf_offset = 0\<rparr>\<rparr>"
  have pages: "page_of ?s0 (lpn_of c lba + of_nat i) = Some (pg i)
      \<and> unat (lpn_of c lba + of_nat i) div NUM_PAGE_PER_REGION < REGION_NODE_SIZE c"
    if i: "i < page_count (unat (SPP c)) (unat lba) (unat sectors)" for i
  proof -
    have i: "i < n" using i by (simp add: n)
    have "unat (of_nat i :: u32) = i" using n32 i by (simp add: unat_of_nat take_bit_nat_eq_self)
    then have "unat (lpn + of_nat i) = unat lpn + i" using n32 i by (subst unat_add_id) simp_all
    then show ?thesis
      using sub_request(2)[OF assms(9), of "lpn + of_nat i" 1] i assms(6,8,12) f(9) by simp
  qed
  note sr = sector_in_root[OF wf assms(3), of lba, folded n assms(6), OF assms(9)]
  have "\<exists>v' t. read_pagemap_loop c sectors ?v ?s0 = Some (v', t) \<and> reading c lpn ?s0 t
    \<and> data_io t = data_io ?s0 @ read_events c (read_page_nb ?v)
        (one_behind (rd_ppn ?v) (map pg [0 ..< page_count (unat (SPP c)) (unat lba) (unat sectors)]))
    \<and> (sectors \<noteq> 0 \<or> \<not> rd_dummy_alloc ?v \<longrightarrow> \<not> rd_dummy_alloc v')"
    by (rule read_pagemap_loop_ok[OF inv0 assms(4) sr assms(8) _ pages])
       (use assms(10) f(5) in \<open>simp_all add: unat_mod\<close>)
  then obtain v' t where t: "read_pagemap_loop c sectors ?v ?s0 = Some (v', t)" "reading c lpn ?s0 t"
    "data_io t = data_io s @ read_events c 0 (one_behind 0 (map pg [0 ..< n]))" "\<not> rd_dummy_alloc v'"
    using assms(3) meta(2) by (auto simp: n)
  have "[0 ..< n] = [0 ..< n - 1] @ [n - 1]" using n0 by (cases n) simp_all
  then have late: "one_behind 0 (map pg [0 ..< n]) = 0 # map pg [0 ..< n - 1]"
    by (simp add: one_behind_def)
  have "IS_SAME_REGION c lba sectors"
    unfolding same_region[OF wf assms(3,4)] using sr assms(3) by simp
  moreover have "read_root c ?v ?s0 = Some (v', t)"
    using t(1) assms(10) f(4) by (auto simp: read_root_def Let_def live_def)
  ultimately have run: "FTL_READ c lba sectors s = Some (log_io INCREASE_IO_REQUEST_SEQ_NB t)"
    using assms(5,6) t(4) by (auto simp: FTL_READ_def Let_def)
  let ?u = "log_io INCREASE_IO_REQUEST_SEQ_NB t"
  note h = maps_same_facts[OF maps_same_log_io[of t INCREASE_IO_REQUEST_SEQ_NB]]
  have "cache_inv c {} ?u" "maps_ok c ?u"
    using h(10)[of c "{}"] h(8) t(2) by (simp_all add: reading_def cache_inv_def log_io_def)
  moreover have "page_of ?u l = page_of s l" if "unat l div NUM_PAGE_PER_REGION < REGION_NODE_SIZE c" for l
    using h(9) reading_page_of(1)[OF t(2) that] f(9) by simp
  moreover have "data_io ?u = data_io t" by (simp add: data_io_def log_io_def)
  ultimately show ?thesis using run t(3) late by auto
qed

text \<open>A drive whose first root was turned into a page map, held in line 1.\<close>

definition paged :: ftl_state where
  "paged = fresh\<lparr>region_table := (region_table fresh)(0 := (region_table fresh 0)
       \<lparr>map_type := 1, ptr_cache_p := (ptr_cache_p (region_table fresh 0))(0 := Some 1)\<rparr>),
     cache_map := (cache_map fresh)(1 := MapLine (\<lambda>k. if k < 2048 then of_nat k + 100 else M1)),
     cache_idx_table := (cache_idx_table fresh)
       (1 := \<lparr>map_num = 0, clock_bit = True, ref_type = PAGE_MAP, update_bit = True\<rparr>),
     cache_wp := 1, clock_hand := 1\<rparr>"

lemma fresh_fields:
  "region_table fresh = (\<lambda>i. if i < 2 then zero_region\<lparr>extents_ppn := M1, page_ppn := (\<lambda>k. if k < 16 then M1 else 0)\<rparr>
     else zero_region)"
  "cache_map fresh = (\<lambda>_. ZeroLine)" "cache_idx_table fresh = (\<lambda>_. zero_cache_idx)"
  by (simp_all add: fresh_def ftl_init_def pm_init_def cleared_def cache_init_def Let_def
      ftl_set_free_blk_bitmap_def zero_region_def fun_eq_iff ROOT_NODE_SIZE_def)

lemma paged_fields:
  "slot_ptr paged x = (if x = PageSlot 0 0 then Some 1 else None)"
  "slot_ok mid_config x \<Longrightarrow> slot_ppn paged x = M1"
  "live paged rg = (if rg = 0 then {1..<16} else {..<16})"
  "cache_map paged = (\<lambda>_. ZeroLine)(1 := MapLine (\<lambda>k. if k < 2048 then of_nat k + 100 else M1))"
  "cache_idx_table paged = (\<lambda>_. zero_cache_idx)(1 := \<lparr>map_num = 0, clock_bit = True, ref_type = PAGE_MAP, update_bit = True\<rparr>)"
  "cache_wp paged = 1" "clock_hand paged = 1" "ftl_meta paged = ftl_meta fresh"
proof -
  show "slot_ptr paged x = (if x = PageSlot 0 0 then Some 1 else None)"
    by (cases x) (auto simp: paged_def fresh_fields zero_region_def)
  show "slot_ok mid_config x \<Longrightarrow> slot_ppn paged x = M1"
    by (cases x) (auto simp: paged_def fresh_fields zero_region_def)
  have "BIT_GET (1 :: u32) r = 0 \<longleftrightarrow> r \<noteq> 0" if "r < 16" for r
    using that by (auto simp: BIT_GET_def less_Suc_eq eval_nat_numeral)
  then show "live paged rg = (if rg = 0 then {1..<16} else {..<16})"
    by (auto simp: live_def paged_def fresh_fields zero_region_def BIT_GET_def)
qed (simp_all add: paged_def fresh_fields)

lemma paged_tab:
  "slot_ok mid_config x \<Longrightarrow> tab paged x =
     (if x = PageSlot 0 0 then Some (PageVal (\<lambda>k. if k < 2048 then of_nat k + 100 else M1)) else None)"
  by (simp add: tab_def saved_def stored_def paged_fields line_pagemap_def)

lemma paged_inv: "cache_inv mid_config {} paged" "maps_ok mid_config paged"
proof -
  have "used_lines paged = {1}" by (auto simp: used_lines_def paged_fields)
  then have "clock_ok mid_config {} paged"
    by (auto simp: clock_ok_def paged_fields zero_cache_idx_def)
  moreover have "owners_ok mid_config {} paged"
    by (auto simp: owners_ok_def paged_fields slot_of_def split: if_splits)
  moreover have "saved_ok mid_config paged"
    by (auto simp: saved_ok_def paged_fields paged_tab split: if_splits)
  ultimately show "cache_inv mid_config {} paged"
    using fresh(1) by (simp add: cache_inv_def paged_fields)
  have "ptr_cache_e (region_table paged rg) = None" for rg using paged_fields(1)[of "ExtSlot rg"] by simp
  then show "maps_ok mid_config paged"
    by (auto simp: maps_ok_def paged_tab paged_fields)
qed

lemma ftl_read_pagemap_one_behind_witness:
  "\<exists>u. FTL_READ mid_config 1605 20 paged = Some u \<and> data_io u = data_io paged @ read_events mid_config 0 [0, 200]"
proof -
  have "GET_ROOT_NUM_PER_REGION (unat (100 :: u32) div NUM_PAGE_PER_ROOT) \<notin> live paged (unat (100 :: u32) div NUM_PAGE_PER_REGION)"
    by (simp add: paged_fields pm_sizes GET_ROOT_NUM_PER_REGION_def)
  moreover have "lpn_cached paged 100"
    by (simp add: lpn_cached_def paged_fields pm_sizes GET_ROOT_NUM_PER_REGION_def del: slot_ptr.simps)
  moreover have "page_of paged (100 + of_nat i) = Some (of_nat i + 200)" if "i < 2" for i :: nat
  proof -
    have "page_of paged 100 = Some 200" "page_of paged 101 = Some 201"
      by (simp_all add: page_of_def paged_tab paged_fields pm_sizes GET_ROOT_NUM_PER_REGION_def)
    then show ?thesis using that by (auto simp: less_Suc_eq eval_nat_numeral)
  qed
  ultimately show ?thesis
    using ftl_read_pagemap_one_behind[of mid_config paged 20 1605 100 2 "\<lambda>i. of_nat i + 200", OF paged_inv _ _ _
        fresh_request(1)[symmetric] fresh_request(2)[symmetric]] by (auto simp: pm_sizes)
qed

end
