(* ===== verification/IoManager.thy ===== *)
theory IoManager
  imports SsdConfig
begin

text \<open>
  \<open>ssd_io_manager_mt.c\<close>: one thread per channel and one per flash chip pass commands through shared
  variables, and simulate the time an operation takes by busy loops. A state holds the shared
  variables and the place each thread is at; each access to a shared variable by a thread is a
  step of its own, so that every interleaving of the accesses is a run. The waits on condition
  variables hold the lock of the variable they test and test it again after waking, so they are
  guards of the steps. A busy loop ends after its delay; the loops are recorded in order in
  \<open>mt_busy\<close>, with the microseconds each takes.

  The block and page numbers of a request are not used by the code and are left out.
  \<open>SSD_MT_IO_INIT\<close> gives every thread the address of the same variable for its number; the model takes
  it that each thread has read its number before the next one is created, and that the requests
  come after the initialisation.
\<close>

subsection \<open>The variables of a channel and of a chip\<close>

text \<open>The variables are numbered by name. A \<open>switch\<close> without a matching case leaves the result
  undefined, here \<open>None\<close>. A thread that uses an undefined variable, or writes behind the end of
  \<open>flash_io_done\<close>, has the outcome \<open>Undefined\<close>.\<close>

definition find_ch_cmd_var :: "nat \<Rightarrow> nat option" where
  "find_ch_cmd_var channel_nb = (if channel_nb \<le> 9 then Some channel_nb else None)"

definition find_ch_cond_var :: "nat \<Rightarrow> nat option" where
  "find_ch_cond_var channel_nb = (if channel_nb \<le> 9 then Some channel_nb else None)"

definition find_ch_lock :: "nat \<Rightarrow> nat option" where
  "find_ch_lock channel_nb = (if channel_nb \<le> 9 then Some channel_nb else None)"

definition find_flash_cmd_var :: "nat \<Rightarrow> nat option" where
  "find_flash_cmd_var flash_nb = (if flash_nb \<le> 19 then Some flash_nb else None)"

definition find_flash_cond_var :: "nat \<Rightarrow> nat option" where
  "find_flash_cond_var flash_nb = (if flash_nb \<le> 19 then Some flash_nb else None)"

definition find_flash_lock :: "nat \<Rightarrow> nat option" where
  "find_flash_lock flash_nb = (if flash_nb \<le> 19 then Some flash_nb else None)"

text \<open>A thread asks for the three variables of a channel or of a chip together.\<close>

definition ch_vars :: "nat \<Rightarrow> nat option" where
  "ch_vars n = do { v \<leftarrow> find_ch_cmd_var n; c \<leftarrow> find_ch_cond_var n; l \<leftarrow> find_ch_lock n; Some v }"

definition flash_vars :: "nat \<Rightarrow> nat option" where
  "flash_vars n = do { v \<leftarrow> find_flash_cmd_var n; c \<leftarrow> find_flash_cond_var n; l \<leftarrow> find_flash_lock n; Some v }"

lemma ch_vars_eq: "ch_vars n = (if n \<le> 9 then Some n else None)"
  by (simp add: ch_vars_def find_ch_cmd_var_def find_ch_cond_var_def find_ch_lock_def)

lemma flash_vars_eq: "flash_vars n = (if n \<le> 19 then Some n else None)"
  by (simp add: flash_vars_def find_flash_cmd_var_def find_flash_cond_var_def find_flash_lock_def)

subsection \<open>State\<close>

text \<open>The places of the threads. \<open>R_\<close> and \<open>W_\<close> are inside \<open>SSD_PAGE_READ_MT\<close> and
  \<open>SSD_PAGE_WRITE_MT\<close>: before the first wait, before the second, before the channel is enabled,
  before the command is set and before the last wait.\<close>

datatype main_pc = Main_Idle | R_Flash nat | R_Chan nat | R_Enable nat | R_Issue nat | R_End nat
  | W_Chan nat | W_Flash nat | W_Enable nat | W_Issue nat | W_End nat

datatype ch_pc = C_Wait | C_Got int nat | C_Hand nat | C_Clear | C_Done

datatype flash_pc = F_Wait | F_Got int | F_Chan | F_Hand | F_Clear | F_Done

datatype busy_loop = Reg_Write nat nat | Reg_Read nat nat | Cell_Read nat | Cell_Program nat | Ch_Switch nat

datatype mt_op = Page_Read nat | Page_Write nat

record mt_state =
  ch_io_cmd :: "nat \<Rightarrow> int \<times> nat"
  flash_io_cmd :: "nat \<Rightarrow> int"
  old_ch_nb :: int
  flash_io_done :: "nat \<Rightarrow> int"
  ch_io_done :: "nat \<Rightarrow> int"
  F_O_DIRECT_VSSIM_MT :: int
  ch_threads :: nat
  flash_threads :: nat
  main_pc :: main_pc
  mt_prog :: "mt_op list"
  ch_pc :: "nat \<Rightarrow> ch_pc"
  flash_pc :: "nat \<Rightarrow> flash_pc"
  mt_busy :: "(busy_loop \<times> int) list"

definition busy :: "busy_loop \<Rightarrow> int \<Rightarrow> mt_state \<Rightarrow> mt_state" where
  "busy b usec s = s\<lparr>mt_busy := mt_busy s @ [(b, usec)]\<rparr>"

text \<open>What a thread does when it is given the processor: it waits, takes a step, or runs into an
  undefined variable.\<close>

datatype 'a outcome = Wait | Undefined | Go 'a

definition with_var :: "nat option \<Rightarrow> (nat \<Rightarrow> 'a outcome) \<Rightarrow> 'a outcome" where
  "with_var v f = (case v of None \<Rightarrow> Undefined | Some n \<Rightarrow> f n)"

subsection \<open>Initialisation\<close>

text \<open>\<open>create_ch\<close> and \<open>create_flash\<close> say for which number \<open>pthread_create\<close> succeeds; the first failure
  ends the function. The requests the simulator will make are the argument \<open>ops\<close>.\<close>

definition created :: "(nat \<Rightarrow> bool) \<Rightarrow> nat \<Rightarrow> nat" where
  "created ok n = length (takeWhile ok [0 ..< n])"

definition SSD_MT_IO_INIT :: "config \<Rightarrow> (nat \<Rightarrow> bool) \<Rightarrow> (nat \<Rightarrow> bool) \<Rightarrow> mt_op list \<Rightarrow> mt_state" where
  "SSD_MT_IO_INIT c create_ch create_flash ops =
     (let chs = nat (CHANNEL_NB c); fls = nat (FLASH_NB c);
          s = \<lparr>ch_io_cmd = (\<lambda>n. (CMD_NOOP, fls)), flash_io_cmd = (\<lambda>n. CMD_NOOP), old_ch_nb = 0,
               flash_io_done = (\<lambda>n. -1), ch_io_done = (\<lambda>n. -1), F_O_DIRECT_VSSIM_MT = 0,
               ch_threads = created create_ch chs, flash_threads = 0, main_pc = Main_Idle,
               mt_prog = ops, ch_pc = (\<lambda>n. C_Wait), flash_pc = (\<lambda>n. F_Wait), mt_busy = []\<rparr> in
      if ch_threads s < chs then s
      else let s1 = s\<lparr>flash_threads := created create_flash fls\<rparr> in
        if flash_threads s1 < fls then s1
        else s1\<lparr>F_O_DIRECT_VSSIM_MT := -1, old_ch_nb := -1\<rparr>)"

subsection \<open>The simulator's thread\<close>

definition channel_of :: "config \<Rightarrow> nat \<Rightarrow> nat" where
  "channel_of c flash_nb = flash_nb mod nat (CHANNEL_NB c)"

definition SSD_CH_SWITCH_DELAY_MT :: "config \<Rightarrow> nat \<Rightarrow> int \<Rightarrow> mt_state \<Rightarrow> mt_state" where
  "SSD_CH_SWITCH_DELAY_MT c channel cmd s =
     (if cmd = CMD_READ then busy (Ch_Switch channel) (CHANNEL_SWITCH_DELAY_R c) s
      else if cmd = CMD_WRITE then busy (Ch_Switch channel) (CHANNEL_SWITCH_DELAY_W c) s
      else s)"

definition SSD_CH_ENABLE_MT :: "config \<Rightarrow> nat \<Rightarrow> int \<Rightarrow> mt_state \<Rightarrow> mt_state" where
  "SSD_CH_ENABLE_MT c channel cmd s =
     (if CHANNEL_SWITCH_DELAY_R c = 0 \<and> CHANNEL_SWITCH_DELAY_W c = 0 then s
      else if old_ch_nb s \<noteq> int channel then SSD_CH_SWITCH_DELAY_MT c channel cmd s
      else s)"

definition SSD_PAGE_READ_MT :: "config \<Rightarrow> main_pc \<Rightarrow> mt_state \<Rightarrow> mt_state outcome" where
  "SSD_PAGE_READ_MT c pc s =
     (case pc of
        R_Flash f \<Rightarrow> with_var (flash_vars f) (\<lambda>v.
          if flash_io_cmd s v \<noteq> CMD_NOOP then Wait else Go (s\<lparr>main_pc := R_Chan f\<rparr>))
      | R_Chan f \<Rightarrow> if ch_io_done s (channel_of c f) = -1 then Wait else Go (s\<lparr>main_pc := R_Enable f\<rparr>)
      | R_Enable f \<Rightarrow>
          let ch_nb = channel_of c f; s1 = SSD_CH_ENABLE_MT c ch_nb CMD_READ s in
          Go (s1\<lparr>old_ch_nb := int ch_nb, ch_io_done := (ch_io_done s1)(ch_nb := -1), main_pc := R_Issue f\<rparr>)
      | R_Issue f \<Rightarrow> with_var (flash_vars f) (\<lambda>v.
          Go (s\<lparr>flash_io_cmd := (flash_io_cmd s)(v := CMD_READ), main_pc := R_End f\<rparr>))
      | R_End f \<Rightarrow>
          if F_O_DIRECT_VSSIM_MT s = 1 \<and> ch_io_done s (channel_of c f) = -1 then Wait
          else Go (s\<lparr>main_pc := Main_Idle\<rparr>)
      | _ \<Rightarrow> Wait)"

definition SSD_PAGE_WRITE_MT :: "config \<Rightarrow> main_pc \<Rightarrow> mt_state \<Rightarrow> mt_state outcome" where
  "SSD_PAGE_WRITE_MT c pc s =
     (case pc of
        W_Chan f \<Rightarrow> with_var (ch_vars (channel_of c f)) (\<lambda>v.
          if fst (ch_io_cmd s v) \<noteq> CMD_NOOP then Wait else Go (s\<lparr>main_pc := W_Flash f\<rparr>))
      | W_Flash f \<Rightarrow> with_var (find_flash_cmd_var f) (\<lambda>v.
          if flash_io_cmd s v \<noteq> CMD_NOOP then Wait else Go (s\<lparr>main_pc := W_Enable f\<rparr>))
      | W_Enable f \<Rightarrow> if nat (FLASH_NB c) \<le> f then Undefined else
          let ch_nb = channel_of c f; s1 = SSD_CH_ENABLE_MT c ch_nb CMD_WRITE s in
          Go (s1\<lparr>old_ch_nb := int ch_nb, flash_io_done := (flash_io_done s1)(f := -1), main_pc := W_Issue f\<rparr>)
      | W_Issue f \<Rightarrow> with_var (ch_vars (channel_of c f)) (\<lambda>v.
          Go (s\<lparr>ch_io_cmd := (ch_io_cmd s)(v := (CMD_WRITE, f)), main_pc := W_End f\<rparr>))
      | W_End f \<Rightarrow>
          if F_O_DIRECT_VSSIM_MT s = 1 \<and> flash_io_done s f = -1 then Wait
          else Go (s\<lparr>main_pc := Main_Idle\<rparr>)
      | _ \<Rightarrow> Wait)"

definition main_step :: "config \<Rightarrow> mt_state \<Rightarrow> mt_state outcome" where
  "main_step c s =
     (case main_pc s of
        Main_Idle \<Rightarrow> (case mt_prog s of
            [] \<Rightarrow> Wait
          | Page_Read f # ops \<Rightarrow> Go (s\<lparr>mt_prog := ops, main_pc := R_Flash f\<rparr>)
          | Page_Write f # ops \<Rightarrow> Go (s\<lparr>mt_prog := ops, main_pc := W_Chan f\<rparr>))
      | R_Flash f \<Rightarrow> SSD_PAGE_READ_MT c (R_Flash f) s
      | R_Chan f \<Rightarrow> SSD_PAGE_READ_MT c (R_Chan f) s
      | R_Enable f \<Rightarrow> SSD_PAGE_READ_MT c (R_Enable f) s
      | R_Issue f \<Rightarrow> SSD_PAGE_READ_MT c (R_Issue f) s
      | R_End f \<Rightarrow> SSD_PAGE_READ_MT c (R_End f) s
      | pc \<Rightarrow> SSD_PAGE_WRITE_MT c pc s)"

subsection \<open>The threads of the channels and of the chips\<close>

definition set_ch_pc :: "nat \<Rightarrow> ch_pc \<Rightarrow> mt_state \<Rightarrow> mt_state" where
  "set_ch_pc n pc s = s\<lparr>ch_pc := (ch_pc s)(n := pc)\<rparr>"

definition set_flash_pc :: "nat \<Rightarrow> flash_pc \<Rightarrow> mt_state \<Rightarrow> mt_state" where
  "set_flash_pc n pc s = s\<lparr>flash_pc := (flash_pc s)(n := pc)\<rparr>"

definition CH_THREAD_FUNCTION :: "config \<Rightarrow> nat \<Rightarrow> mt_state \<Rightarrow> mt_state outcome" where
  "CH_THREAD_FUNCTION c ch_nb s = with_var (ch_vars ch_nb) (\<lambda>v.
     case ch_pc s ch_nb of
        C_Wait \<Rightarrow>
          if fst (ch_io_cmd s v) = CMD_NOOP then Wait
          else Go (set_ch_pc ch_nb (C_Got (fst (ch_io_cmd s v)) (snd (ch_io_cmd s v))) s)
      | C_Got ch_cmd flash_nb \<Rightarrow>
          if ch_cmd = CMD_WRITE then with_var (flash_vars flash_nb) (\<lambda>w.
            if flash_io_cmd s w \<noteq> CMD_NOOP then Wait
            else Go (set_ch_pc ch_nb (C_Hand flash_nb) (busy (Reg_Write ch_nb flash_nb) (REG_WRITE_DELAY c) s)))
          else if ch_cmd = CMD_READ then
            Go (set_ch_pc ch_nb C_Clear (busy (Reg_Read ch_nb flash_nb) (REG_READ_DELAY c) s))
          else Go (set_ch_pc ch_nb C_Clear s)
      | C_Hand flash_nb \<Rightarrow> with_var (flash_vars flash_nb) (\<lambda>w.
          Go (set_ch_pc ch_nb C_Clear (s\<lparr>flash_io_cmd := (flash_io_cmd s)(w := CMD_WRITE)\<rparr>)))
      | C_Clear \<Rightarrow>
          Go (set_ch_pc ch_nb C_Done (s\<lparr>ch_io_cmd := (ch_io_cmd s)(v := (CMD_NOOP, snd (ch_io_cmd s v)))\<rparr>))
      | C_Done \<Rightarrow> Go (set_ch_pc ch_nb C_Wait (s\<lparr>ch_io_done := (ch_io_done s)(ch_nb := 1)\<rparr>)))"

definition FLASH_THREAD_FUNCTION :: "config \<Rightarrow> nat \<Rightarrow> mt_state \<Rightarrow> mt_state outcome" where
  "FLASH_THREAD_FUNCTION c flash_nb s =
     (let ch_nb = channel_of c flash_nb in
      with_var (flash_vars flash_nb) (\<lambda>v. with_var (ch_vars ch_nb) (\<lambda>w.
      case flash_pc s flash_nb of
        F_Wait \<Rightarrow>
          if flash_io_cmd s v = CMD_NOOP then Wait else Go (set_flash_pc flash_nb (F_Got (flash_io_cmd s v)) s)
      | F_Got flash_cmd \<Rightarrow>
          if flash_cmd = CMD_READ then
            Go (set_flash_pc flash_nb F_Chan (busy (Cell_Read flash_nb) (CELL_READ_DELAY c) s))
          else if flash_cmd = CMD_WRITE then
            Go (set_flash_pc flash_nb F_Clear (busy (Cell_Program flash_nb) (CELL_PROGRAM_DELAY c) s))
          else Go (set_flash_pc flash_nb F_Clear s)
      | F_Chan \<Rightarrow> if fst (ch_io_cmd s w) \<noteq> CMD_NOOP then Wait else Go (set_flash_pc flash_nb F_Hand s)
      | F_Hand \<Rightarrow> Go (set_flash_pc flash_nb F_Clear (s\<lparr>ch_io_cmd := (ch_io_cmd s)(w := (CMD_READ, flash_nb))\<rparr>))
      | F_Clear \<Rightarrow> Go (set_flash_pc flash_nb F_Done (s\<lparr>flash_io_cmd := (flash_io_cmd s)(v := CMD_NOOP)\<rparr>))
      | F_Done \<Rightarrow> Go (set_flash_pc flash_nb F_Wait (s\<lparr>flash_io_done := (flash_io_done s)(flash_nb := 1)\<rparr>)))))"

subsection \<open>Runs\<close>

datatype mt_thread = Main_T | Ch_T nat | Flash_T nat

fun mt_next :: "config \<Rightarrow> mt_thread \<Rightarrow> mt_state \<Rightarrow> mt_state outcome" where
  "mt_next c Main_T s = main_step c s"
| "mt_next c (Ch_T n) s = (if n < ch_threads s then CH_THREAD_FUNCTION c n s else Wait)"
| "mt_next c (Flash_T n) s = (if n < flash_threads s then FLASH_THREAD_FUNCTION c n s else Wait)"

inductive mt_step :: "config \<Rightarrow> mt_state \<Rightarrow> mt_state \<Rightarrow> bool" for c where
  step: "mt_next c th s = Go t \<Longrightarrow> mt_step c s t"

text \<open>A run under a given schedule, for concrete inputs.\<close>

fun mt_run :: "config \<Rightarrow> mt_thread list \<Rightarrow> mt_state \<Rightarrow> mt_state outcome" where
  "mt_run c [] s = Go s"
| "mt_run c (th # ths) s = (case mt_next c th s of Go t \<Rightarrow> mt_run c ths t | r \<Rightarrow> r)"

lemma mt_run_reaches: "mt_run c ths s = Go t \<Longrightarrow> (mt_step c)\<^sup>*\<^sup>* s t"
  by (induction ths arbitrary: s)
     (auto split: outcome.splits intro: converse_rtranclp_into_rtranclp mt_step.step)

end
