(* ===== verification/IoManagerSpec.thy ===== *)
theory IoManagerSpec
  imports IoManager
begin

text \<open>
  What the threads of \<open>ssd_io_manager_mt.c\<close> guarantee, for every interleaving: within the sizes the
  file has variables for nothing undefined is used; if only pages are written, no write is lost
  or done twice and every run ends with all of them done; and two runs in which it goes wrong as
  soon as pages are read as well.
\<close>

subsection \<open>Sizes\<close>

definition mt_sizes :: "config \<Rightarrow> bool" where
  "mt_sizes c \<longleftrightarrow> 0 < CHANNEL_NB c \<and> CHANNEL_NB c \<le> 10 \<and> FLASH_NB c \<le> 20"

abbreviation chips :: "config \<Rightarrow> nat" where "chips c \<equiv> nat (FLASH_NB c)"
abbreviation chans :: "config \<Rightarrow> nat" where "chans c \<equiv> nat (CHANNEL_NB c)"

definition op_chip :: "mt_op \<Rightarrow> nat" where
  "op_chip p = (case p of Page_Read f \<Rightarrow> f | Page_Write f \<Rightarrow> f)"

fun pc_chip :: "main_pc \<Rightarrow> nat option" where
  "pc_chip Main_Idle = None"
| "pc_chip (R_Flash f) = Some f" | "pc_chip (R_Chan f) = Some f" | "pc_chip (R_Enable f) = Some f"
| "pc_chip (R_Issue f) = Some f" | "pc_chip (R_End f) = Some f"
| "pc_chip (W_Chan f) = Some f" | "pc_chip (W_Flash f) = Some f" | "pc_chip (W_Enable f) = Some f"
| "pc_chip (W_Issue f) = Some f" | "pc_chip (W_End f) = Some f"

lemma channel_of_less: "mt_sizes c \<Longrightarrow> channel_of c f < chans c"
  by (simp add: channel_of_def mt_sizes_def)

lemma mt_vars:
  "mt_sizes c \<Longrightarrow> n < chans c \<Longrightarrow> ch_vars n = Some n"
  "mt_sizes c \<Longrightarrow> n < chips c \<Longrightarrow> flash_vars n = Some n"
  "mt_sizes c \<Longrightarrow> n < chips c \<Longrightarrow> find_flash_cmd_var n = Some n"
  by (auto simp: ch_vars_eq flash_vars_eq find_flash_cmd_var_def mt_sizes_def)

lemma with_var_Some [simp]: "with_var (Some n) f = f n"
  by (simp add: with_var_def)

lemmas mt_step_defs = main_step_def SSD_PAGE_READ_MT_def SSD_PAGE_WRITE_MT_def CH_THREAD_FUNCTION_def
  FLASH_THREAD_FUNCTION_def set_ch_pc_def set_flash_pc_def busy_def Let_def

lemma ch_enable_fields [simp]:
  "ch_io_cmd (SSD_CH_ENABLE_MT c n k s) = ch_io_cmd s" "flash_io_cmd (SSD_CH_ENABLE_MT c n k s) = flash_io_cmd s"
  "ch_threads (SSD_CH_ENABLE_MT c n k s) = ch_threads s" "flash_threads (SSD_CH_ENABLE_MT c n k s) = flash_threads s"
  "mt_prog (SSD_CH_ENABLE_MT c n k s) = mt_prog s" "ch_pc (SSD_CH_ENABLE_MT c n k s) = ch_pc s"
  "flash_pc (SSD_CH_ENABLE_MT c n k s) = flash_pc s" "main_pc (SSD_CH_ENABLE_MT c n k s) = main_pc s"
  "F_O_DIRECT_VSSIM_MT (SSD_CH_ENABLE_MT c n k s) = F_O_DIRECT_VSSIM_MT s"
  "flash_io_done (SSD_CH_ENABLE_MT c n k s) = flash_io_done s" "ch_io_done (SSD_CH_ENABLE_MT c n k s) = ch_io_done s"
  by (auto simp: SSD_CH_ENABLE_MT_def SSD_CH_SWITCH_DELAY_MT_def busy_def)

subsection \<open>Nothing undefined\<close>

text \<open>All chip numbers in the state are numbers of chips.\<close>

definition chips_ok :: "config \<Rightarrow> mt_state \<Rightarrow> bool" where
  "chips_ok c s \<longleftrightarrow> ch_threads s \<le> chans c \<and> flash_threads s \<le> chips c
     \<and> (\<forall>p \<in> set (mt_prog s). op_chip p < chips c)
     \<and> (\<forall>f. pc_chip (main_pc s) = Some f \<longrightarrow> f < chips c)
     \<and> (\<forall>n. fst (ch_io_cmd s n) \<noteq> CMD_NOOP \<longrightarrow> snd (ch_io_cmd s n) < chips c)
     \<and> (\<forall>n k f. ch_pc s n = C_Got k f \<longrightarrow> f < chips c) \<and> (\<forall>n f. ch_pc s n = C_Hand f \<longrightarrow> f < chips c)"

lemma takeWhile_created: "created ok n \<le> n"
  unfolding created_def using length_takeWhile_le[of ok "[0 ..< n]"] by simp

lemma chips_ok_init:
  assumes "\<forall>p \<in> set ops. op_chip p < chips c"
  shows "chips_ok c (SSD_MT_IO_INIT c okc okf ops)"
  using assms takeWhile_created by (simp add: SSD_MT_IO_INIT_def chips_ok_def Let_def)

lemma main_chips_ok:
  assumes "mt_sizes c" "chips_ok c s" "main_step c s = Go t"
  shows "chips_ok c t"
proof (cases "main_pc s")
  case Main_Idle
  then show ?thesis using assms
    by (auto simp: mt_step_defs chips_ok_def op_chip_def split: list.splits mt_op.splits)
qed (use assms in \<open>auto simp: mt_step_defs chips_ok_def mt_vars channel_of_less split: if_splits\<close>)

lemma ch_chips_ok:
  assumes "mt_sizes c" "chips_ok c s" "n < ch_threads s" "CH_THREAD_FUNCTION c n s = Go t"
  shows "chips_ok c t"
proof -
  have "n < chans c" using assms(2,3) unfolding chips_ok_def by linarith
  then have n: "ch_vars n = Some n" by (rule mt_vars(1)[OF assms(1)])
  show ?thesis
    by (cases "ch_pc s n")
       (use assms n in \<open>auto simp: mt_step_defs chips_ok_def mt_vars split: if_splits\<close>)
qed

lemma flash_chips_ok:
  assumes "mt_sizes c" "chips_ok c s" "n < flash_threads s" "FLASH_THREAD_FUNCTION c n s = Go t"
  shows "chips_ok c t"
proof -
  have n: "flash_vars n = Some n" "ch_vars (channel_of c n) = Some (channel_of c n)"
    "n < chips c"
    using assms channel_of_less[of c n] by (auto intro!: mt_vars simp: chips_ok_def)
  show ?thesis
    by (cases "flash_pc s n")
       (use assms n in \<open>auto simp: mt_step_defs chips_ok_def split: if_splits\<close>)
qed

lemma mt_step_chips_ok: "mt_sizes c \<Longrightarrow> chips_ok c s \<Longrightarrow> mt_step c s t \<Longrightarrow> chips_ok c t"
  by (erule mt_step.cases, case_tac th)
     (auto split: if_splits intro: main_chips_ok ch_chips_ok flash_chips_ok)

lemma reach_chips_ok: "(mt_step c)\<^sup>*\<^sup>* s t \<Longrightarrow> mt_sizes c \<Longrightarrow> chips_ok c s \<Longrightarrow> chips_ok c t"
  by (induction rule: rtranclp_induct) (auto intro: mt_step_chips_ok)

text \<open>C24: With at most ten channels and twenty chips, and requests for chips of the drive only, no
  thread ever uses a variable the file does not have, in no interleaving of any requests: every
  thread always either waits or takes a step.\<close>

theorem mt_never_undefined:
  assumes "mt_sizes c" "\<forall>p \<in> set ops. op_chip p < chips c"
    and "(mt_step c)\<^sup>*\<^sup>* (SSD_MT_IO_INIT c okc okf ops) s"
  shows "mt_next c th s \<noteq> Undefined"
proof -
  have ok: "chips_ok c s" using reach_chips_ok[OF assms(3,1) chips_ok_init[OF assms(2)]] .
  show ?thesis
  proof (cases th)
    case Main_T
    then show ?thesis using ok assms(1) mt_vars[OF assms(1)] channel_of_less[OF assms(1)]
      by (cases "main_pc s") (auto simp: mt_step_defs chips_ok_def split: list.splits mt_op.splits)
  next
    case (Ch_T n)
    then show ?thesis using ok mt_vars[OF assms(1)]
      by (cases "ch_pc s n") (auto simp: mt_step_defs chips_ok_def)
  next
    case (Flash_T n)
    then show ?thesis using ok mt_vars[OF assms(1)] channel_of_less[OF assms(1)]
      by (cases "flash_pc s n") (auto simp: mt_step_defs chips_ok_def)
  qed
qed

lemma mt_never_undefined_witness:
  "mt_next (small_config\<lparr>CHANNEL_NB := 1\<rparr>) Main_T
     (SSD_MT_IO_INIT (small_config\<lparr>CHANNEL_NB := 1\<rparr>) (\<lambda>_. True) (\<lambda>_. True) [Page_Write 1]) \<noteq> Undefined"
  by (rule mt_never_undefined[where ops = "[Page_Write 1]", OF _ _ rtranclp.rtrancl_refl])
     (simp_all add: mt_sizes_def op_chip_def)

subsection \<open>Runs that only write\<close>

text \<open>A command in the variable of channel \<open>n\<close> is a write to one of its chips.\<close>

definition cmd_ok :: "config \<Rightarrow> nat \<Rightarrow> int \<times> nat \<Rightarrow> bool" where
  "cmd_ok c n k \<longleftrightarrow> fst k = CMD_NOOP \<or> fst k = CMD_WRITE \<and> snd k < chips c \<and> channel_of c (snd k) = n"

fun ch_inv :: "config \<Rightarrow> (nat \<Rightarrow> int) \<Rightarrow> nat \<Rightarrow> int \<times> nat \<Rightarrow> ch_pc \<Rightarrow> bool" where
  "ch_inv c fc n k C_Wait \<longleftrightarrow> cmd_ok c n k"
| "ch_inv c fc n k (C_Got op f) \<longleftrightarrow> cmd_ok c n k \<and> op = CMD_WRITE \<and> k = (CMD_WRITE, f)"
| "ch_inv c fc n k (C_Hand f) \<longleftrightarrow> cmd_ok c n k \<and> k = (CMD_WRITE, f) \<and> fc f = CMD_NOOP"
| "ch_inv c fc n k C_Clear \<longleftrightarrow> cmd_ok c n k \<and> fst k = CMD_WRITE"
| "ch_inv c fc n k C_Done \<longleftrightarrow> cmd_ok c n k"

fun flash_inv :: "int \<Rightarrow> flash_pc \<Rightarrow> bool" where
  "flash_inv k F_Wait \<longleftrightarrow> k = CMD_NOOP \<or> k = CMD_WRITE"
| "flash_inv k (F_Got op) \<longleftrightarrow> k = CMD_WRITE \<and> op = CMD_WRITE"
| "flash_inv k F_Chan \<longleftrightarrow> False"
| "flash_inv k F_Hand \<longleftrightarrow> False"
| "flash_inv k F_Clear \<longleftrightarrow> k = CMD_WRITE"
| "flash_inv k F_Done \<longleftrightarrow> k = CMD_NOOP \<or> k = CMD_WRITE"

text \<open>A write that was issued and is not marked as done is still on its way.\<close>

definition on_its_way :: "config \<Rightarrow> mt_state \<Rightarrow> nat \<Rightarrow> bool" where
  "on_its_way c s f \<longleftrightarrow> ch_io_cmd s (channel_of c f) = (CMD_WRITE, f) \<and> ch_pc s (channel_of c f) \<noteq> C_Clear
     \<or> flash_io_cmd s f = CMD_WRITE \<or> flash_pc s f = F_Done"

fun main_inv :: "config \<Rightarrow> mt_state \<Rightarrow> main_pc \<Rightarrow> bool" where
  "main_inv c s Main_Idle \<longleftrightarrow> True"
| "main_inv c s (W_Chan f) \<longleftrightarrow> f < chips c"
| "main_inv c s (W_Flash f) \<longleftrightarrow> f < chips c \<and> fst (ch_io_cmd s (channel_of c f)) = CMD_NOOP"
| "main_inv c s (W_Enable f) \<longleftrightarrow> f < chips c \<and> fst (ch_io_cmd s (channel_of c f)) = CMD_NOOP"
| "main_inv c s (W_Issue f) \<longleftrightarrow> f < chips c \<and> fst (ch_io_cmd s (channel_of c f)) = CMD_NOOP"
| "main_inv c s (W_End f) \<longleftrightarrow> f < chips c \<and> (flash_io_done s f = -1 \<longrightarrow> on_its_way c s f)"
| "main_inv c s pc \<longleftrightarrow> False"

definition writing :: "config \<Rightarrow> mt_state \<Rightarrow> bool" where
  "writing c s \<longleftrightarrow> ch_threads s = chans c \<and> flash_threads s = chips c
     \<and> (\<forall>p \<in> set (mt_prog s). \<exists>f < chips c. p = Page_Write f) \<and> main_inv c s (main_pc s)
     \<and> (\<forall>n < chans c. ch_inv c (flash_io_cmd s) n (ch_io_cmd s n) (ch_pc s n))
     \<and> (\<forall>f < chips c. flash_inv (flash_io_cmd s f) (flash_pc s f))"

lemma mt_codes [simp]:
  "CMD_NOOP \<noteq> CMD_READ" "CMD_NOOP \<noteq> CMD_WRITE" "CMD_READ \<noteq> CMD_WRITE"
  "CMD_READ \<noteq> CMD_NOOP" "CMD_WRITE \<noteq> CMD_NOOP" "CMD_WRITE \<noteq> CMD_READ"
  by (simp_all add: cmd_codes)

lemma writing_init:
  assumes "\<forall>p \<in> set ops. \<exists>f < chips c. p = Page_Write f" "\<forall>n. okc n" "\<forall>n. okf n"
  shows "writing c (SSD_MT_IO_INIT c okc okf ops)"
proof -
  have "created ok n = n" if "\<forall>k. ok k" for ok n
    using that by (simp add: created_def takeWhile_eq_all_conv[THEN iffD2])
  then show ?thesis using assms
    by (simp add: SSD_MT_IO_INIT_def Let_def writing_def cmd_ok_def)
qed

lemma writing_main_step:
  assumes "mt_sizes c" "writing c s" "main_step c s = Go t"
  shows "writing c t"
proof -
  note ch = channel_of_less[OF assms(1)]
  note v = mt_vars[OF assms(1)]
  show ?thesis
  proof (cases "main_pc s")
    case Main_Idle
    then show ?thesis using assms
      by (auto simp: mt_step_defs writing_def split: list.splits mt_op.splits)
  next
    case (W_Issue f)
    let ?n = "channel_of c f"
    have f: "f < chips c" "fst (ch_io_cmd s ?n) = CMD_NOOP"
      and i: "ch_inv c (flash_io_cmd s) ?n (ch_io_cmd s ?n) (ch_pc s ?n)"
      using assms(2) W_Issue ch[of f] by (auto simp: writing_def)
    have t: "t = s\<lparr>ch_io_cmd := (ch_io_cmd s)(?n := (CMD_WRITE, f)), main_pc := W_End f\<rparr>"
      using assms(3) W_Issue v(1)[OF ch] by (simp add: mt_step_defs)
    have pc: "ch_pc s ?n = C_Wait \<or> ch_pc s ?n = C_Done" using i f(2) by (cases "ch_pc s ?n") auto
    then show ?thesis using assms(2) f by (auto simp: t writing_def on_its_way_def cmd_ok_def)
  next
    case (W_Chan f)
    then have "fst (ch_io_cmd s (channel_of c f)) = CMD_NOOP \<and> t = s\<lparr>main_pc := W_Flash f\<rparr>"
      using assms(3) v(1)[OF ch[of f]] by (simp add: mt_step_defs split: if_splits)
    then show ?thesis using assms(2) W_Chan by (simp add: writing_def)
  next
    case (W_Flash f)
    then have f: "f < chips c" using assms(2) by (simp add: writing_def)
    then have "t = s\<lparr>main_pc := W_Enable f\<rparr>"
      using assms(3) v(3)[OF f] W_Flash by (simp add: mt_step_defs split: if_splits)
    then show ?thesis using assms(2) W_Flash by (simp add: writing_def)
  next
    case (W_Enable f)
    then have f: "f < chips c" using assms(2) by (simp add: writing_def)
    then have "t = (SSD_CH_ENABLE_MT c (channel_of c f) CMD_WRITE s)\<lparr>old_ch_nb := int (channel_of c f),
        flash_io_done := (flash_io_done s)(f := -1), main_pc := W_Issue f\<rparr>"
      using assms(3) W_Enable by (simp add: mt_step_defs)
    then show ?thesis using assms(2) W_Enable by (simp add: writing_def)
  next
    case (W_End f)
    then have "t = s\<lparr>main_pc := Main_Idle\<rparr>" using assms(3) by (simp add: mt_step_defs split: if_splits)
    then show ?thesis using assms(2) by (simp add: writing_def)
  qed (use assms(2) in \<open>simp_all add: writing_def\<close>)
qed

text \<open>Only the channel of a chip hands commands to it.\<close>

lemma ch_inv_other:
  assumes "ch_inv c fc m k pc" "m \<noteq> channel_of c f"
  shows "ch_inv c (fc(f := v)) m k pc"
  using assms by (cases pc) (auto simp: cmd_ok_def)

lemma writing_ch_step:
  assumes "mt_sizes c" "writing c s" "n < ch_threads s" "CH_THREAD_FUNCTION c n s = Go t"
  shows "writing c t"
proof -
  have n: "n < chans c" using assms(2,3) by (simp add: writing_def)
  note v = mt_vars[OF assms(1)]
  have i: "ch_inv c (flash_io_cmd s) n (ch_io_cmd s n) (ch_pc s n)" using assms(2) n by (simp add: writing_def)
  show ?thesis
  proof (cases "ch_pc s n")
    case C_Wait
    then have t: "t = set_ch_pc n (C_Got (fst (ch_io_cmd s n)) (snd (ch_io_cmd s n))) s"
      and k: "fst (ch_io_cmd s n) \<noteq> CMD_NOOP"
      using assms(4) v(1)[OF n] by (simp_all add: CH_THREAD_FUNCTION_def split: if_splits)
    have "main_inv c t (main_pc t)" using assms(2) C_Wait
      by (cases "main_pc s") (auto simp: t set_ch_pc_def writing_def on_its_way_def)
    moreover have "fst (ch_io_cmd s n) = CMD_WRITE" using i k C_Wait by (simp add: cmd_ok_def)
    ultimately show ?thesis using assms(2) i C_Wait
      by (auto simp: t set_ch_pc_def writing_def prod_eq_iff)
  next
    case (C_Got k f)
    then have f: "f < chips c" using i by (auto simp: cmd_ok_def)
    have k: "k = CMD_WRITE" "ch_io_cmd s n = (CMD_WRITE, f)" using i C_Got by simp_all
    then have t: "t = set_ch_pc n (C_Hand f) (busy (Reg_Write n f) (REG_WRITE_DELAY c) s)" "flash_io_cmd s f = CMD_NOOP"
      using assms(4) C_Got v(1)[OF n] v(2)[OF f] by (simp_all add: CH_THREAD_FUNCTION_def split: if_splits)
    have "main_inv c t (main_pc t)" using assms(2) C_Got
      by (cases "main_pc s") (auto simp: t(1) set_ch_pc_def busy_def writing_def on_its_way_def)
    then show ?thesis using assms(2) i C_Got k t(2)
      by (auto simp: t(1) set_ch_pc_def busy_def writing_def)
  next
    case (C_Hand f)
    then have f: "f < chips c" "channel_of c f = n" "flash_io_cmd s f = CMD_NOOP" "ch_io_cmd s n = (CMD_WRITE, f)"
      using i by (auto simp: cmd_ok_def)
    have t: "t = s\<lparr>flash_io_cmd := (flash_io_cmd s)(f := CMD_WRITE), ch_pc := (ch_pc s)(n := C_Clear)\<rparr>"
      using assms(4) C_Hand v(1)[OF n] v(2)[OF f(1)] by (simp add: mt_step_defs)
    have "ch_inv c (flash_io_cmd t) m (ch_io_cmd t m) (ch_pc t m)" if "m < chans c" for m
    proof (cases "m = n")
      case True
      then show ?thesis using i f by (simp add: t cmd_ok_def)
    next
      case False
      have "ch_inv c (flash_io_cmd s) m (ch_io_cmd s m) (ch_pc s m)" using assms(2) that by (simp add: writing_def)
      then show ?thesis using False f(2) ch_inv_other by (simp add: t)
    qed
    moreover have "flash_inv (flash_io_cmd t g) (flash_pc t g)" if "g < chips c" for g
    proof -
      have "flash_inv (flash_io_cmd s g) (flash_pc s g)" using assms(2) that by (simp add: writing_def)
      then show ?thesis using f(3) by (cases "flash_pc s g") (auto simp: t)
    qed
    moreover have "main_inv c t (main_pc t)"
      using assms(2) f by (cases "main_pc s") (auto simp: t writing_def on_its_way_def)
    ultimately show ?thesis using assms(2) by (auto simp: t writing_def)
  next
    case C_Clear
    then have t: "t = set_ch_pc n C_Done (s\<lparr>ch_io_cmd := (ch_io_cmd s)(n := (CMD_NOOP, snd (ch_io_cmd s n)))\<rparr>)"
      using assms(4) v(1)[OF n] by (simp add: CH_THREAD_FUNCTION_def)
    have "main_inv c t (main_pc t)" using assms(2) C_Clear
      by (cases "main_pc s") (auto simp: t set_ch_pc_def writing_def on_its_way_def)
    then show ?thesis using assms(2) by (auto simp: t set_ch_pc_def writing_def cmd_ok_def)
  next
    case C_Done
    then have t: "t = set_ch_pc n C_Wait (s\<lparr>ch_io_done := (ch_io_done s)(n := 1)\<rparr>)"
      using assms(4) v(1)[OF n] by (simp add: CH_THREAD_FUNCTION_def)
    have "main_inv c t (main_pc t)" using assms(2) C_Done
      by (cases "main_pc s") (auto simp: t set_ch_pc_def writing_def on_its_way_def)
    then show ?thesis using assms(2) i C_Done by (auto simp: t set_ch_pc_def writing_def)
  qed
qed

lemma ch_inv_noop:
  assumes "ch_inv c fc m k pc"
  shows "ch_inv c (fc(f := CMD_NOOP)) m k pc"
  using assms by (cases pc) auto

lemma writing_flash_step:
  assumes "mt_sizes c" "writing c s" "n < flash_threads s" "FLASH_THREAD_FUNCTION c n s = Go t"
  shows "writing c t"
proof -
  have n: "n < chips c" using assms(2,3) by (simp add: writing_def)
  note v = mt_vars(2)[OF assms(1) n] mt_vars(1)[OF assms(1) channel_of_less[OF assms(1)], of n]
  have i: "flash_inv (flash_io_cmd s n) (flash_pc s n)" using assms(2) n by (simp add: writing_def)
  show ?thesis
    by (cases "flash_pc s n"; cases "main_pc s")
       (use assms(2,4) i v in \<open>auto simp: mt_step_defs writing_def on_its_way_def ch_inv_noop split: if_splits\<close>)
qed

lemma mt_step_writing: "mt_sizes c \<Longrightarrow> writing c s \<Longrightarrow> mt_step c s t \<Longrightarrow> writing c t"
  by (erule mt_step.cases, case_tac th)
     (auto split: if_splits intro: writing_main_step writing_ch_step writing_flash_step)

text \<open>The steps of such a run, as rules.\<close>

inductive write_step :: "config \<Rightarrow> mt_state \<Rightarrow> mt_state \<Rightarrow> bool" for c s where
  fetch: "main_pc s = Main_Idle \<Longrightarrow> mt_prog s = Page_Write f # ops \<Longrightarrow>
    write_step c s (s\<lparr>mt_prog := ops, main_pc := W_Chan f\<rparr>)"
| chan: "main_pc s = W_Chan f \<Longrightarrow> write_step c s (s\<lparr>main_pc := W_Flash f\<rparr>)"
| flash: "main_pc s = W_Flash f \<Longrightarrow> write_step c s (s\<lparr>main_pc := W_Enable f\<rparr>)"
| enable: "main_pc s = W_Enable f \<Longrightarrow> write_step c s ((SSD_CH_ENABLE_MT c (channel_of c f) CMD_WRITE s)
    \<lparr>old_ch_nb := int (channel_of c f), flash_io_done := (flash_io_done s)(f := -1), main_pc := W_Issue f\<rparr>)"
| issue: "main_pc s = W_Issue f \<Longrightarrow> f < chips c \<Longrightarrow> channel_of c f = n \<Longrightarrow> n < chans c \<Longrightarrow>
    fst (ch_io_cmd s n) = CMD_NOOP \<Longrightarrow> ch_pc s n \<in> {C_Wait, C_Done} \<Longrightarrow>
    write_step c s (s\<lparr>ch_io_cmd := (ch_io_cmd s)(n := (CMD_WRITE, f)), main_pc := W_End f\<rparr>)"
| finish: "main_pc s = W_End f \<Longrightarrow> write_step c s (s\<lparr>main_pc := Main_Idle\<rparr>)"
| got: "n < chans c \<Longrightarrow> channel_of c f = n \<Longrightarrow> ch_pc s n = C_Wait \<Longrightarrow> ch_io_cmd s n = (CMD_WRITE, f) \<Longrightarrow>
    write_step c s (set_ch_pc n (C_Got CMD_WRITE f) s)"
| reg: "n < chans c \<Longrightarrow> channel_of c f = n \<Longrightarrow> ch_pc s n = C_Got CMD_WRITE f \<Longrightarrow> ch_io_cmd s n = (CMD_WRITE, f) \<Longrightarrow>
    write_step c s (set_ch_pc n (C_Hand f) (busy (Reg_Write n f) (REG_WRITE_DELAY c) s))"
| hand: "n < chans c \<Longrightarrow> channel_of c f = n \<Longrightarrow> f < chips c \<Longrightarrow> ch_pc s n = C_Hand f \<Longrightarrow>
    ch_io_cmd s n = (CMD_WRITE, f) \<Longrightarrow> flash_io_cmd s f = CMD_NOOP \<Longrightarrow> flash_pc s f \<in> {F_Wait, F_Done} \<Longrightarrow>
    write_step c s (set_ch_pc n C_Clear (s\<lparr>flash_io_cmd := (flash_io_cmd s)(f := CMD_WRITE)\<rparr>))"
| clear: "n < chans c \<Longrightarrow> ch_pc s n = C_Clear \<Longrightarrow> write_step c s
    (set_ch_pc n C_Done (s\<lparr>ch_io_cmd := (ch_io_cmd s)(n := (CMD_NOOP, snd (ch_io_cmd s n)))\<rparr>))"
| cdone: "n < chans c \<Longrightarrow> ch_pc s n = C_Done \<Longrightarrow>
    write_step c s (set_ch_pc n C_Wait (s\<lparr>ch_io_done := (ch_io_done s)(n := 1)\<rparr>))"
| fgot: "f < chips c \<Longrightarrow> flash_pc s f = F_Wait \<Longrightarrow> flash_io_cmd s f = CMD_WRITE \<Longrightarrow>
    write_step c s (set_flash_pc f (F_Got CMD_WRITE) s)"
| cell: "f < chips c \<Longrightarrow> flash_pc s f = F_Got CMD_WRITE \<Longrightarrow> flash_io_cmd s f = CMD_WRITE \<Longrightarrow>
    write_step c s (set_flash_pc f F_Clear (busy (Cell_Program f) (CELL_PROGRAM_DELAY c) s))"
| fclear: "f < chips c \<Longrightarrow> flash_pc s f = F_Clear \<Longrightarrow> flash_io_cmd s f = CMD_WRITE \<Longrightarrow>
    write_step c s (set_flash_pc f F_Done (s\<lparr>flash_io_cmd := (flash_io_cmd s)(f := CMD_NOOP)\<rparr>))"
| fdone: "f < chips c \<Longrightarrow> flash_pc s f = F_Done \<Longrightarrow>
    write_step c s (set_flash_pc f F_Wait (s\<lparr>flash_io_done := (flash_io_done s)(f := 1)\<rparr>))"

lemma main_write_step:
  assumes "mt_sizes c" "writing c s" "main_step c s = Go t"
  shows "write_step c s t"
proof -
  note ch = channel_of_less[OF assms(1)]
  note v = mt_vars[OF assms(1)]
  show ?thesis
  proof (cases "main_pc s")
    case Main_Idle
    then show ?thesis using assms(2,3)
      by (auto simp: main_step_def writing_def split: list.splits mt_op.splits intro: write_step.intros)
  next
    case (W_Issue f)
    have "ch_inv c (flash_io_cmd s) (channel_of c f) (ch_io_cmd s (channel_of c f)) (ch_pc s (channel_of c f))"
      "f < chips c" "fst (ch_io_cmd s (channel_of c f)) = CMD_NOOP"
      using assms(2) W_Issue ch[of f] by (simp_all add: writing_def)
    moreover from this have "ch_pc s (channel_of c f) \<in> {C_Wait, C_Done}"
      by (cases "ch_pc s (channel_of c f)") auto
    moreover have "t = s\<lparr>ch_io_cmd := (ch_io_cmd s)(channel_of c f := (CMD_WRITE, f)), main_pc := W_End f\<rparr>"
      using assms(3) W_Issue v(1)[OF ch] by (simp add: main_step_def SSD_PAGE_WRITE_MT_def)
    ultimately show ?thesis using write_step.issue[OF W_Issue] ch by metis
  next
    case (W_Chan f)
    then show ?thesis using assms(3) v(1)[OF ch[of f]]
      by (auto simp: main_step_def SSD_PAGE_WRITE_MT_def split: if_splits intro: write_step.intros)
  next
    case (W_Flash f)
    then have "f < chips c" using assms(2) by (simp add: writing_def)
    then show ?thesis using assms(3) v(3)[of f] W_Flash
      by (auto simp: main_step_def SSD_PAGE_WRITE_MT_def split: if_splits intro: write_step.intros)
  next
    case (W_Enable f)
    then have "f < chips c" using assms(2) by (simp add: writing_def)
    then have "t = (SSD_CH_ENABLE_MT c (channel_of c f) CMD_WRITE s)\<lparr>old_ch_nb := int (channel_of c f),
        flash_io_done := (flash_io_done s)(f := -1), main_pc := W_Issue f\<rparr>"
      using assms(3) W_Enable by (simp add: main_step_def SSD_PAGE_WRITE_MT_def Let_def)
    then show ?thesis using write_step.enable[where c = c and s = s, OF W_Enable] by simp
  next
    case (W_End f)
    then show ?thesis using assms(3)
      by (auto simp: main_step_def SSD_PAGE_WRITE_MT_def split: if_splits intro: write_step.intros)
  qed (use assms(2) in \<open>simp_all add: writing_def\<close>)
qed

lemma ch_write_step:
  assumes "mt_sizes c" "writing c s" "n < ch_threads s" "CH_THREAD_FUNCTION c n s = Go t"
  shows "write_step c s t"
proof -
  have n: "n < chans c" using assms(2,3) by (simp add: writing_def)
  have i: "ch_inv c (flash_io_cmd s) n (ch_io_cmd s n) (ch_pc s n)" using assms(2) n by (simp add: writing_def)
  note v = mt_vars(1)[OF assms(1) n]
  show ?thesis
  proof (cases "ch_pc s n")
    case C_Wait
    then have "t = set_ch_pc n (C_Got (fst (ch_io_cmd s n)) (snd (ch_io_cmd s n))) s" "fst (ch_io_cmd s n) \<noteq> CMD_NOOP"
      using assms(4) v by (simp_all add: CH_THREAD_FUNCTION_def split: if_splits)
    moreover from this have "ch_io_cmd s n = (CMD_WRITE, snd (ch_io_cmd s n))" "channel_of c (snd (ch_io_cmd s n)) = n"
      using i C_Wait by (auto simp: cmd_ok_def prod_eq_iff)
    ultimately show ?thesis using write_step.got[OF n _ C_Wait] by (metis fst_conv)
  next
    case (C_Got k f)
    then have f: "f < chips c" "channel_of c f = n" "k = CMD_WRITE" "ch_io_cmd s n = (CMD_WRITE, f)"
      using i by (auto simp: cmd_ok_def)
    then have "t = set_ch_pc n (C_Hand f) (busy (Reg_Write n f) (REG_WRITE_DELAY c) s)"
      using assms(4) v C_Got mt_vars(2)[OF assms(1) f(1)] by (simp add: CH_THREAD_FUNCTION_def split: if_splits)
    then show ?thesis using write_step.reg[OF n f(2)] C_Got f by simp
  next
    case (C_Hand f)
    then have f: "f < chips c" "channel_of c f = n" "ch_io_cmd s n = (CMD_WRITE, f)" "flash_io_cmd s f = CMD_NOOP"
      using i by (auto simp: cmd_ok_def)
    have "flash_inv (flash_io_cmd s f) (flash_pc s f)" using assms(2) f(1) by (simp add: writing_def)
    then have "flash_pc s f \<in> {F_Wait, F_Done}" using f(4) by (cases "flash_pc s f") auto
    moreover have "t = set_ch_pc n C_Clear (s\<lparr>flash_io_cmd := (flash_io_cmd s)(f := CMD_WRITE)\<rparr>)"
      using assms(4) v C_Hand mt_vars(2)[OF assms(1) f(1)] by (simp add: CH_THREAD_FUNCTION_def)
    ultimately show ?thesis using write_step.hand[OF n f(2,1) C_Hand f(3,4)] by simp
  next
    case C_Clear
    then show ?thesis using assms(4) v write_step.clear[OF n C_Clear] by (simp add: CH_THREAD_FUNCTION_def)
  next
    case C_Done
    then show ?thesis using assms(4) v write_step.cdone[OF n C_Done] by (simp add: CH_THREAD_FUNCTION_def)
  qed
qed

lemma flash_write_step:
  assumes "mt_sizes c" "writing c s" "n < flash_threads s" "FLASH_THREAD_FUNCTION c n s = Go t"
  shows "write_step c s t"
proof -
  have n: "n < chips c" using assms(2,3) by (simp add: writing_def)
  note v = mt_vars(2)[OF assms(1) n] mt_vars(1)[OF assms(1) channel_of_less[OF assms(1)], of n]
  have i: "flash_inv (flash_io_cmd s n) (flash_pc s n)" using assms(2) n by (simp add: writing_def)
  show ?thesis
    by (cases "flash_pc s n")
       (use assms(4) i v n in \<open>auto simp: FLASH_THREAD_FUNCTION_def split: if_splits intro: write_step.intros\<close>)
qed

lemma mt_write_step: "mt_sizes c \<Longrightarrow> writing c s \<Longrightarrow> mt_step c s t \<Longrightarrow> write_step c s t"
  by (erule mt_step.cases, case_tac th)
     (auto split: if_splits intro: main_write_step ch_write_step flash_write_step)

subsection \<open>Every write is done once\<close>

text \<open>How often the cells of chip \<open>f\<close> were programmed, and where a write to \<open>f\<close> can be in between.\<close>

definition cells_written :: "mt_state \<Rightarrow> nat \<Rightarrow> nat" where
  "cells_written s f = count_list (map fst (mt_busy s)) (Cell_Program f)"

definition main_has :: "mt_state \<Rightarrow> nat \<Rightarrow> bool" where
  "main_has s f \<longleftrightarrow> main_pc s \<in> {W_Chan f, W_Flash f, W_Enable f, W_Issue f}"

definition chan_has :: "config \<Rightarrow> mt_state \<Rightarrow> nat \<Rightarrow> bool" where
  "chan_has c s f \<longleftrightarrow> ch_io_cmd s (channel_of c f) = (CMD_WRITE, f) \<and> ch_pc s (channel_of c f) \<noteq> C_Clear"

definition flash_has :: "mt_state \<Rightarrow> nat \<Rightarrow> bool" where
  "flash_has s f \<longleftrightarrow> flash_io_cmd s f = CMD_WRITE \<and> flash_pc s f \<noteq> F_Clear"

definition in_flight :: "config \<Rightarrow> mt_state \<Rightarrow> nat \<Rightarrow> nat" where
  "in_flight c s f = of_bool (main_has s f) + of_bool (chan_has c s f) + of_bool (flash_has s f)"

definition writes_to :: "mt_op list \<Rightarrow> nat \<Rightarrow> nat" where
  "writes_to ops f = count_list ops (Page_Write f)"

lemmas account_defs = cells_written_def main_has_def chan_has_def flash_has_def in_flight_def writes_to_def

lemma cells_ch_enable [simp]: "cells_written (SSD_CH_ENABLE_MT c n k s) f = cells_written s f"
  by (simp add: cells_written_def SSD_CH_ENABLE_MT_def SSD_CH_SWITCH_DELAY_MT_def busy_def)

lemma write_step_account:
  assumes "write_step c s t"
  shows "writes_to (mt_prog t) g + in_flight c t g + cells_written t g
    = writes_to (mt_prog s) g + in_flight c s g + cells_written s g"
  using assms
proof cases
  case (enable f)
  then show ?thesis by (simp add: in_flight_def main_has_def chan_has_def flash_has_def)
      (simp add: cells_written_def SSD_CH_ENABLE_MT_def SSD_CH_SWITCH_DELAY_MT_def busy_def)
qed (auto simp: account_defs set_ch_pc_def set_flash_pc_def busy_def)

subsection \<open>Every run ends\<close>

fun main_work :: "main_pc \<Rightarrow> nat" where
  "main_work (W_Chan f) = 14" | "main_work (W_Flash f) = 13" | "main_work (W_Enable f) = 12"
| "main_work (W_Issue f) = 11" | "main_work (W_End f) = 1" | "main_work pc = 0"

fun ch_work :: "int \<times> nat \<Rightarrow> ch_pc \<Rightarrow> nat" where
  "ch_work k C_Wait = (if fst k = CMD_NOOP then 0 else 9)" | "ch_work k (C_Got op f) = 8"
| "ch_work k (C_Hand f) = 7" | "ch_work k C_Clear = 2" | "ch_work k C_Done = (if fst k = CMD_NOOP then 1 else 10)"

fun flash_work :: "int \<Rightarrow> flash_pc \<Rightarrow> nat" where
  "flash_work k F_Wait = (if k = CMD_NOOP then 0 else 4)" | "flash_work k F_Clear = 2"
| "flash_work k F_Done = (if k = CMD_NOOP then 1 else 5)" | "flash_work k pc = 3"

definition mt_work :: "config \<Rightarrow> mt_state \<Rightarrow> nat" where
  "mt_work c s = 15 * length (mt_prog s) + main_work (main_pc s)
     + (\<Sum>n < chans c. ch_work (ch_io_cmd s n) (ch_pc s n)) + (\<Sum>f < chips c. flash_work (flash_io_cmd s f) (flash_pc s f))"

lemma sum_change:
  fixes g h :: "nat \<Rightarrow> nat"
  assumes "n < N" "\<And>m. m \<noteq> n \<Longrightarrow> h m = g m"
  shows "(\<Sum>m < N. h m) + g n = (\<Sum>m < N. g m) + h n"
proof -
  have n: "n \<in> {..<N}" using assms(1) by simp
  have "(\<Sum>m \<in> {..<N} - {n}. h m) = (\<Sum>m \<in> {..<N} - {n}. g m)" using assms(2) by (intro sum.cong) auto
  then show ?thesis using sum.remove[OF finite_lessThan n, of h] sum.remove[OF finite_lessThan n, of g] by simp
qed

definition ch_load :: "mt_state \<Rightarrow> nat \<Rightarrow> nat" where
  "ch_load s n = ch_work (ch_io_cmd s n) (ch_pc s n)"

definition flash_load :: "mt_state \<Rightarrow> nat \<Rightarrow> nat" where
  "flash_load s f = flash_work (flash_io_cmd s f) (flash_pc s f)"

definition main_load :: "mt_state \<Rightarrow> nat" where
  "main_load s = 15 * length (mt_prog s) + main_work (main_pc s)"

lemma mt_work_eq: "mt_work c s = main_load s + (\<Sum>n < chans c. ch_load s n) + (\<Sum>f < chips c. flash_load s f)"
  by (simp add: mt_work_def ch_load_def flash_load_def main_load_def)

text \<open>A step changes the work of at most one channel and of one chip.\<close>

lemma ch_work_less:
  assumes "n < chans c" "\<And>m. m \<noteq> n \<Longrightarrow> ch_load t m = ch_load s m" "\<And>m. flash_load t m = flash_load s m"
    "main_load t + ch_load t n < main_load s + ch_load s n"
  shows "mt_work c t < mt_work c s"
  using sum_change[of n "chans c" "ch_load t" "ch_load s", OF assms(1,2)] assms(3,4) by (simp add: mt_work_eq)

lemma flash_work_less:
  assumes "f < chips c" "\<And>m. m \<noteq> f \<Longrightarrow> flash_load t m = flash_load s m" "\<And>m. ch_load t m = ch_load s m"
    "main_load t + flash_load t f < main_load s + flash_load s f"
  shows "mt_work c t < mt_work c s"
  using sum_change[of f "chips c" "flash_load t" "flash_load s", OF assms(1,2)] assms(3,4) by (simp add: mt_work_eq)

lemmas load_defs = ch_load_def flash_load_def main_load_def set_ch_pc_def set_flash_pc_def busy_def

lemma write_step_work:
  assumes "write_step c s t"
  shows "mt_work c t < mt_work c s"
  using assms
proof cases
  case (hand n f)
  then have "mt_work c t + ch_load s n + flash_load s f = mt_work c s + ch_load t n + flash_load t f"
    using sum_change[of n "chans c" "ch_load t" "ch_load s"] sum_change[of f "chips c" "flash_load t" "flash_load s"]
    by (simp add: mt_work_eq load_defs)
  then show ?thesis using hand by (auto simp: load_defs)
next
  case (issue f n)
  show ?thesis by (rule ch_work_less[of n]) (use issue in \<open>auto simp: load_defs\<close>)
next
  case (got n f)
  show ?thesis by (rule ch_work_less[of n]) (use got in \<open>auto simp: load_defs\<close>)
next
  case (reg n f)
  show ?thesis by (rule ch_work_less[of n]) (use reg in \<open>auto simp: load_defs\<close>)
next
  case (clear n)
  show ?thesis by (rule ch_work_less[of n]) (use clear in \<open>auto simp: load_defs\<close>)
next
  case (cdone n)
  show ?thesis by (rule ch_work_less[of n]) (use cdone in \<open>auto simp: load_defs\<close>)
next
  case (fgot f)
  show ?thesis by (rule flash_work_less[of f]) (use fgot in \<open>auto simp: load_defs\<close>)
next
  case (cell f)
  show ?thesis by (rule flash_work_less[of f]) (use cell in \<open>auto simp: load_defs\<close>)
next
  case (fclear f)
  show ?thesis by (rule flash_work_less[of f]) (use fclear in \<open>auto simp: load_defs\<close>)
next
  case (fdone f)
  show ?thesis by (rule flash_work_less[of f]) (use fdone in \<open>auto simp: load_defs\<close>)
qed (simp_all add: mt_work_def)

lemma mt_work_init: "mt_work c (SSD_MT_IO_INIT c okc okf ops) = 15 * length ops"
  by (simp add: SSD_MT_IO_INIT_def Let_def mt_work_def)

text \<open>When nothing can be done any more, everything is idle.\<close>

lemma mt_next_step: "mt_next c th s = Go t \<Longrightarrow> \<exists>t. mt_step c s t"
  by (blast intro: mt_step.step)

lemma flash_stuck:
  assumes "mt_sizes c" "writing c s" "f < chips c" "\<not> (\<exists>t. mt_step c s t)"
  shows "flash_pc s f = F_Wait \<and> flash_io_cmd s f = CMD_NOOP"
proof -
  have i: "flash_inv (flash_io_cmd s f) (flash_pc s f)" "flash_threads s = chips c"
    using assms(2,3) by (simp_all add: writing_def)
  have "\<not> (\<exists>t. mt_next c (Flash_T f) s = Go t)" using assms(4) mt_next_step by blast
  then show ?thesis
    using i mt_vars(2)[OF assms(1,3)] mt_vars(1)[OF assms(1) channel_of_less[OF assms(1)], of f] assms(3)
    by (cases "flash_pc s f") (auto simp: FLASH_THREAD_FUNCTION_def split: if_splits)
qed

lemma ch_stuck:
  assumes "mt_sizes c" "writing c s" "n < chans c" "\<not> (\<exists>t. mt_step c s t)"
  shows "ch_pc s n = C_Wait \<and> fst (ch_io_cmd s n) = CMD_NOOP"
proof -
  have i: "ch_inv c (flash_io_cmd s) n (ch_io_cmd s n) (ch_pc s n)" "ch_threads s = chans c"
    using assms(2,3) by (simp_all add: writing_def)
  have go: "\<not> (\<exists>t. mt_next c (Ch_T n) s = Go t)" using assms(4) mt_next_step by blast
  show ?thesis
  proof (cases "ch_pc s n")
    case (C_Got k f)
    then have f: "f < chips c" "k = CMD_WRITE" using i(1) by (auto simp: cmd_ok_def)
    then show ?thesis using go i(2) C_Got assms(3) mt_vars(1)[OF assms(1,3)] mt_vars(2)[OF assms(1) f(1)]
        flash_stuck[OF assms(1,2) f(1) assms(4)] by (simp add: CH_THREAD_FUNCTION_def)
  next
    case (C_Hand f)
    then have f: "f < chips c" using i(1) by (auto simp: cmd_ok_def)
    then show ?thesis using go i(2) C_Hand assms(3) mt_vars(1)[OF assms(1,3)] mt_vars(2)[OF assms(1) f]
      by (simp add: CH_THREAD_FUNCTION_def)
  qed (use go i(2) assms(3) mt_vars(1)[OF assms(1,3)] in \<open>simp_all add: CH_THREAD_FUNCTION_def split: if_splits\<close>)
qed

lemma main_stuck:
  assumes "mt_sizes c" "writing c s" "\<not> (\<exists>t. mt_step c s t)"
  shows "main_pc s = Main_Idle \<and> mt_prog s = []"
proof -
  have go: "\<not> (\<exists>t. main_step c s = Go t)" using assms(3) mt_next_step[of c Main_T] by auto
  note ch = channel_of_less[OF assms(1)]
  note st = ch_stuck[OF assms(1,2) ch assms(3)] flash_stuck[OF assms(1,2) _ assms(3)]
  note v = mt_vars[OF assms(1)]
  show ?thesis
  proof (cases "main_pc s")
    case Main_Idle
    have "mt_prog s = []"
    proof (cases "mt_prog s")
      case (Cons p ops)
      then show ?thesis using go Main_Idle by (cases p) (simp_all add: main_step_def)
    qed
    then show ?thesis using Main_Idle by simp
  next
    case (W_End f)
    then show ?thesis using go st[of f] assms(2)
      by (auto simp: main_step_def SSD_PAGE_WRITE_MT_def writing_def on_its_way_def split: if_splits)
  next
    case (W_Flash f)
    then have "f < chips c" using assms(2) by (simp add: writing_def)
    then show ?thesis using go st[of f] W_Flash v(3)[of f]
      by (simp add: main_step_def SSD_PAGE_WRITE_MT_def split: if_splits)
  qed (use go st assms(2) v(1)[OF ch] in \<open>auto simp: main_step_def SSD_PAGE_WRITE_MT_def writing_def Let_def split: if_splits\<close>)
qed

lemma stuck_idle:
  assumes "mt_sizes c" "writing c s" "\<not> (\<exists>t. mt_step c s t)" "f < chips c"
  shows "in_flight c s f = 0 \<and> mt_prog s = []"
  using main_stuck[OF assms(1-3)] flash_stuck[OF assms(1,2,4,3)]
    ch_stuck[OF assms(1,2) channel_of_less[OF assms(1)] assms(3), of f]
  by (auto simp: in_flight_def main_has_def chan_has_def flash_has_def)

text \<open>The start of a run that only writes; the direct mode is free.\<close>

definition writing_start :: "config \<Rightarrow> int \<Rightarrow> mt_op list \<Rightarrow> mt_state" where
  "writing_start c direct ops = (SSD_MT_IO_INIT c (\<lambda>_. True) (\<lambda>_. True) ops)\<lparr>F_O_DIRECT_VSSIM_MT := direct\<rparr>"

definition only_writes :: "config \<Rightarrow> mt_op list \<Rightarrow> bool" where
  "only_writes c ops \<longleftrightarrow> (\<forall>p \<in> set ops. \<exists>f < chips c. p = Page_Write f)"

lemma writing_start:
  assumes "only_writes c ops"
  shows "writing c (writing_start c d ops)" "mt_work c (writing_start c d ops) = 15 * length ops"
    "writes_to (mt_prog (writing_start c d ops)) f + in_flight c (writing_start c d ops) f
      + cells_written (writing_start c d ops) f = writes_to ops f"
proof -
  let ?s = "SSD_MT_IO_INIT c (\<lambda>_. True) (\<lambda>_. True) ops"
  have "writing c ?s" using assms by (intro writing_init) (auto simp: only_writes_def)
  then show "writing c (writing_start c d ops)" by (simp add: writing_start_def writing_def SSD_MT_IO_INIT_def Let_def)
  show "mt_work c (writing_start c d ops) = 15 * length ops"
    using mt_work_init[of c "\<lambda>_. True" "\<lambda>_. True" ops] by (simp add: writing_start_def mt_work_def)
  show "writes_to (mt_prog (writing_start c d ops)) f + in_flight c (writing_start c d ops) f
      + cells_written (writing_start c d ops) f = writes_to ops f"
    by (simp add: writing_start_def SSD_MT_IO_INIT_def Let_def account_defs)
qed

lemma writing_run:
  assumes "mt_sizes c" "only_writes c ops" "(mt_step c ^^ n) (writing_start c d ops) s"
  shows "writing c s \<and> n + mt_work c s \<le> 15 * length ops
    \<and> writes_to (mt_prog s) f + in_flight c s f + cells_written s f = writes_to ops f"
  using assms(3)
proof (induction n arbitrary: s)
  case 0
  then show ?case using writing_start[OF assms(2), of d] by auto
next
  case (Suc n)
  then obtain r where r: "(mt_step c ^^ n) (writing_start c d ops) r" "mt_step c r s" by auto
  then have "write_step c r s" using Suc.IH mt_write_step assms(1) by blast
  then show ?case using Suc.IH[OF r(1)] mt_step_writing[OF assms(1) _ r(2)] write_step_account write_step_work
    by fastforce
qed

text \<open>Two chips on one channel.\<close>

definition two_chips :: config where
  "two_chips = zero_config\<lparr>CHANNEL_NB := 1, FLASH_NB := 2, REG_WRITE_DELAY := 82, CELL_PROGRAM_DELAY := 900,
     REG_READ_DELAY := 82, CELL_READ_DELAY := 50\<rparr>"

lemma two_chips_ok: "mt_sizes two_chips" "chips two_chips = 2"
  by (simp_all add: mt_sizes_def two_chips_def)

lemma mt_run_steps: "mt_run c ths s = Go t \<Longrightarrow> (mt_step c ^^ length ths) s t"
proof (induction ths arbitrary: s)
  case (Cons th ths)
  then obtain r where "mt_next c th s = Go r" "mt_run c ths r = Go t" by (auto split: outcome.splits)
  then show ?case using Cons.IH relpowp_Suc_I2[of "mt_step c" s r] mt_step.step by (metis length_Cons)
qed simp

lemma mt_run_case: "(case mt_run c ths s of Go t \<Rightarrow> P t | _ \<Rightarrow> False) \<Longrightarrow> \<exists>t. mt_run c ths s = Go t \<and> P t"
  by (simp split: outcome.splits)

text \<open>C23: While pages are only written, every write request is at any moment at exactly one place: still
  to be made, in the hands of the simulator's thread, in the channel's variable, in the chip's
  variable, or done. So no interleaving of the threads loses a write or programs a page twice.\<close>

theorem mt_writes_accounted:
  assumes "mt_sizes c" "only_writes c ops" "(mt_step c)\<^sup>*\<^sup>* (writing_start c d ops) s"
  shows "writes_to (mt_prog s) f + in_flight c s f + cells_written s f = writes_to ops f"
  using assms(3) writing_run[OF assms(1,2)] by (auto dest: rtranclp_imp_relpowp)

lemma mt_writes_accounted_witness:
  "writes_to (mt_prog (writing_start two_chips 1 [Page_Write 1])) 1
      + in_flight two_chips (writing_start two_chips 1 [Page_Write 1]) 1
      + cells_written (writing_start two_chips 1 [Page_Write 1]) 1 = 1"
  using mt_writes_accounted[of two_chips "[Page_Write 1]", OF _ _ rtranclp.rtrancl_refl, of 1 1]
  by (simp add: two_chips_ok only_writes_def writes_to_def)

text \<open>C22: While pages are only written the threads never block each other: a run of any schedule has at
  most 15 steps per request, with and without the direct mode, and when no thread can take a step
  any more every requested write has been done, as often as it was requested.\<close>

theorem mt_writes_complete:
  assumes "mt_sizes c" "only_writes c ops" "(mt_step c ^^ n) (writing_start c d ops) s"
  shows "n \<le> 15 * length ops
    \<and> ((\<exists>t. mt_step c s t) \<or> (\<forall>f \<in> {..<chips c}. cells_written s f = writes_to ops f))"
proof -
  note run = writing_run[OF assms]
  then have "n \<le> 15 * length ops" "writing c s" using add_leD1 by blast+
  moreover have "cells_written s f = writes_to ops f" if "\<not> (\<exists>t. mt_step c s t)" "f < chips c" for f
    using run[of f] stuck_idle[OF assms(1) \<open>writing c s\<close> that] by (simp add: writes_to_def)
  ultimately show ?thesis by blast
qed

text \<open>One write to chip 1, step by step.\<close>

definition one_write :: "mt_thread list" where
  "one_write = [Main_T, Main_T, Main_T, Main_T, Main_T, Main_T, Ch_T 0, Ch_T 0, Ch_T 0, Ch_T 0, Ch_T 0,
     Flash_T 1, Flash_T 1, Flash_T 1, Flash_T 1]"

lemma one_write_length: "length one_write = 15"
  by (simp add: one_write_def)

lemma one_write_run: "case mt_run two_chips one_write (writing_start two_chips (-1) [Page_Write 1]) of
    Go s \<Rightarrow> cells_written s 1 = 1 | _ \<Rightarrow> False"
  by code_simp

lemma mt_writes_complete_witness:
  "\<exists>s. (mt_step two_chips ^^ 15) (writing_start two_chips (-1) [Page_Write 1]) s \<and> (15::nat) \<le> 15 * 1
    \<and> cells_written s 1 = 1"
proof -
  obtain s where s: "mt_run two_chips one_write (writing_start two_chips (-1) [Page_Write 1]) = Go s" "cells_written s 1 = 1"
    using mt_run_case[OF one_write_run] by auto
  then have st: "(mt_step two_chips ^^ 15) (writing_start two_chips (-1) [Page_Write 1]) s"
    using mt_run_steps[OF s(1)] one_write_length by metis
  then show ?thesis using mt_writes_complete[OF two_chips_ok(1) _ st] s(2) by (auto simp: only_writes_def two_chips_ok)
qed

subsection \<open>Reads\<close>

text \<open>\<open>SSD_PAGE_READ_MT\<close> waits until \<open>ch_io_done\<close> of the channel is not \<open>-1\<close>. The array starts with
  \<open>-1\<close> and is set by the channel's thread after a command, so the first read of a channel that has
  never had a command waits for something that cannot come.\<close>

definition two_reads_start :: mt_state where
  "two_reads_start = SSD_MT_IO_INIT two_chips (\<lambda>_. True) (\<lambda>_. True) [Page_Read 0, Page_Write 1]"

definition after_read_call :: mt_state where
  "after_read_call = two_reads_start\<lparr>mt_prog := [Page_Write 1], main_pc := R_Chan 0\<rparr>"


text \<open>A lost write: chip 0 is written, chip 1 is asked for a page, and chip 0 is written again. When the
  cell of chip 1 is read its thread finds the channel's variable free; before it takes the lock
  and puts its command there, the simulator's thread puts the second write there.\<close>

definition lost_write :: "mt_thread list" where
  "lost_write = replicate 6 Main_T @ replicate 5 (Ch_T 0) @ replicate 4 (Flash_T 0)
     @ replicate 6 Main_T @ replicate 3 (Flash_T 1) @ replicate 6 Main_T
     @ replicate 3 (Flash_T 1) @ replicate 4 (Ch_T 0)"

definition write_read_write :: mt_state where
  "write_read_write = SSD_MT_IO_INIT two_chips (\<lambda>_. True) (\<lambda>_. True) [Page_Write 0, Page_Read 1, Page_Write 0]"

fun waits :: "'a outcome \<Rightarrow> bool" where
  "waits Wait = True" | "waits Undefined = False" | "waits (Go s) = False"

lemma waits_eq [simp]: "waits r \<longleftrightarrow> r = Wait"
  by (cases r) auto

lemma lost_write_run: "case mt_run two_chips lost_write write_read_write of
    Go s \<Rightarrow> list_all (\<lambda>th. waits (mt_next two_chips th s)) [Main_T, Ch_T 0, Flash_T 0, Flash_T 1]
      \<and> ch_threads s = 1 \<and> flash_threads s = 2 \<and> mt_prog s = [] \<and> cells_written s 0 = 1
    | _ \<Rightarrow> False"
  by code_simp

text \<open>C25: Once pages are read as well, a write can be lost: there is an interleaving of a write, a read and
  a write on two chips of one channel after which all requests have returned, no thread can do
  anything any more, and the page that was written twice was programmed once.\<close>

theorem mt_read_loses_write:
  "\<exists>s. (mt_step two_chips)\<^sup>*\<^sup>* write_read_write s \<and> (\<forall>th. mt_next two_chips th s = Wait) \<and> mt_prog s = []
     \<and> cells_written s 0 = 1 \<and> writes_to (mt_prog write_read_write) 0 = 2"
proof -
  obtain s where s: "mt_run two_chips lost_write write_read_write = Go s"
    and w: "mt_next two_chips Main_T s = Wait" "mt_next two_chips (Ch_T 0) s = Wait"
      "mt_next two_chips (Flash_T 0) s = Wait" "mt_next two_chips (Flash_T 1) s = Wait"
    and f: "ch_threads s = 1" "flash_threads s = 2" "mt_prog s = []" "cells_written s 0 = 1"
    using mt_run_case[OF lost_write_run] by (auto simp del: mt_next.simps mt_run.simps)
  have "mt_next two_chips th s = Wait" for th
  proof (cases th)
    case (Ch_T n)
    then show ?thesis using w(2) f(1) by (cases "n = 0") simp_all
  next
    case (Flash_T n)
    then consider "n = 0" | "n = 1" | "2 \<le> n" by linarith
    then show ?thesis using w(3,4) f(2) Flash_T by cases simp_all
  qed (use w(1) in simp)
  moreover have "writes_to (mt_prog write_read_write) 0 = 2"
    by (simp add: write_read_write_def SSD_MT_IO_INIT_def Let_def writes_to_def two_chips_def created_def
        split: if_splits)
  ultimately show ?thesis using mt_run_reaches[OF s] f by blast
qed

end
