(* ===== verification/F2fsNode.thy ===== *)
theory F2fsNode
  imports Prelude
begin

unbundle bit_operations_syntax

text \<open>
  The node tree of an F2FS file, from \<open>F2FS/f2fs/node.c\<close>, \<open>node.h\<close> and \<open>gc.c\<close>: where the block of a
  file with a given index is found below the inode, the number each node has in this tree, and the
  way back from a node's number to the first block it holds.

  The constants of \<open>linux/f2fs_fs.h\<close> are those of the copy under \<open>tools/f2fs-tools/include\<close>.
\<close>

subsection \<open>Constants\<close>

definition DEF_ADDRS_PER_INODE :: int where "DEF_ADDRS_PER_INODE = 923"
definition F2FS_INLINE_XATTR_ADDRS :: int where "F2FS_INLINE_XATTR_ADDRS = 50"
definition ADDRS_PER_BLOCK :: int where "ADDRS_PER_BLOCK = 1018"
definition NIDS_PER_BLOCK :: int where "NIDS_PER_BLOCK = 1018"
definition NODE_DIR1_BLOCK :: int where "NODE_DIR1_BLOCK = DEF_ADDRS_PER_INODE + 1"
definition NODE_DIR2_BLOCK :: int where "NODE_DIR2_BLOCK = DEF_ADDRS_PER_INODE + 2"
definition NODE_IND1_BLOCK :: int where "NODE_IND1_BLOCK = DEF_ADDRS_PER_INODE + 3"
definition NODE_IND2_BLOCK :: int where "NODE_IND2_BLOCK = DEF_ADDRS_PER_INODE + 4"
definition NODE_DIND_BLOCK :: int where "NODE_DIND_BLOCK = DEF_ADDRS_PER_INODE + 5"
definition COLD_BIT_SHIFT :: nat where "COLD_BIT_SHIFT = 0"
definition FSYNC_BIT_SHIFT :: nat where "FSYNC_BIT_SHIFT = 1"
definition DENT_BIT_SHIFT :: nat where "DENT_BIT_SHIFT = 2"
definition OFFSET_BIT_SHIFT :: nat where "OFFSET_BIT_SHIFT = 3"

lemmas node_consts = DEF_ADDRS_PER_INODE_def F2FS_INLINE_XATTR_ADDRS_def ADDRS_PER_BLOCK_def NIDS_PER_BLOCK_def
  NODE_DIR1_BLOCK_def NODE_DIR2_BLOCK_def NODE_IND1_BLOCK_def NODE_IND2_BLOCK_def NODE_DIND_BLOCK_def

definition XATTR_NODE_OFFSET :: u32 where
  "XATTR_NODE_OFFSET = drop_bit OFFSET_BIT_SHIFT (push_bit OFFSET_BIT_SHIFT (- 1))"

definition f2fs_has_xattr_block :: "u32 \<Rightarrow> bool" where
  "f2fs_has_xattr_block ofs \<longleftrightarrow> ofs = XATTR_NODE_OFFSET"

text \<open>The addresses in the inode; \<open>xattr\<close> says that the inode also holds extended attributes.\<close>

definition addrs_per_inode :: "bool \<Rightarrow> int" where
  "addrs_per_inode xattr = (if xattr then DEF_ADDRS_PER_INODE - F2FS_INLINE_XATTR_ADDRS else DEF_ADDRS_PER_INODE)"

definition PGOFS_OF_NEXT_DNODE :: "int \<Rightarrow> bool \<Rightarrow> int" where
  "PGOFS_OF_NEXT_DNODE pgofs xattr =
     (if pgofs < addrs_per_inode xattr then addrs_per_inode xattr
      else (pgofs - addrs_per_inode xattr + ADDRS_PER_BLOCK) div ADDRS_PER_BLOCK * ADDRS_PER_BLOCK + addrs_per_inode xattr)"

subsection \<open>The path to a block\<close>

text \<open>The level, the slots taken in the nodes of the path and the numbers of these nodes; \<open>None\<close> is the
  call of \<open>BUG\<close> for a block behind the largest file. The arrays have four entries in the code, of
  which the first \<open>level + 1\<close> are set.\<close>

definition get_node_path :: "bool \<Rightarrow> int \<Rightarrow> (nat \<times> int list \<times> u32 list) option" where
  "get_node_path xattr block0 =
     (let direct_index = addrs_per_inode xattr; direct_blks = ADDRS_PER_BLOCK; dptrs_per_blk = NIDS_PER_BLOCK;
          indirect_blks = ADDRS_PER_BLOCK * NIDS_PER_BLOCK; dindirect_blks = indirect_blks * NIDS_PER_BLOCK in
      if block0 < direct_index then Some (0, [block0], [0])
      else let block1 = block0 - direct_index in
      if block1 < direct_blks then Some (1, [NODE_DIR1_BLOCK, block1], [0, 1])
      else let block2 = block1 - direct_blks in
      if block2 < direct_blks then Some (1, [NODE_DIR2_BLOCK, block2], [0, 2])
      else let block3 = block2 - direct_blks in
      if block3 < indirect_blks then
        Some (2, [NODE_IND1_BLOCK, block3 div direct_blks, block3 mod direct_blks],
              [0, 3, u32i (4 + block3 div direct_blks)])
      else let block4 = block3 - indirect_blks in
      if block4 < indirect_blks then
        Some (2, [NODE_IND2_BLOCK, block4 div direct_blks, block4 mod direct_blks],
              [0, u32i (4 + dptrs_per_blk), u32i (5 + dptrs_per_blk + block4 div direct_blks)])
      else let block5 = block4 - indirect_blks in
      if block5 < dindirect_blks then
        let o1 = block5 div indirect_blks; o2 = (block5 div direct_blks) mod dptrs_per_blk in
        Some (3, [NODE_DIND_BLOCK, o1, o2, block5 mod direct_blks],
              [0, u32i (5 + dptrs_per_blk * 2), u32i (6 + dptrs_per_blk * 2 + o1 * (dptrs_per_blk + 1)),
               u32i (7 + dptrs_per_blk * 2 + o1 * (dptrs_per_blk + 1) + o2)])
      else None)"

subsection \<open>The way back\<close>

definition start_bidx_of_node :: "u32 \<Rightarrow> bool \<Rightarrow> u32" where
  "start_bidx_of_node node_ofs xattr =
     (let indirect_blks = u32i (2 * NIDS_PER_BLOCK + 4); n = u32i (NIDS_PER_BLOCK + 1) in
      if node_ofs = 0 then 0
      else
        let bidx = (if node_ofs \<le> 2 then node_ofs - 1
              else if node_ofs \<le> indirect_blks then node_ofs - 2 - (node_ofs - 4) div n
              else node_ofs - 5 - (node_ofs - indirect_blks - 3) div n) in
        bidx * u32i ADDRS_PER_BLOCK + u32i (addrs_per_inode xattr))"

definition IS_DNODE :: "u32 \<Rightarrow> bool" where
  "IS_DNODE ofs =
     (if f2fs_has_xattr_block ofs then False
      else if ofs = 3 \<or> ofs = u32i (4 + NIDS_PER_BLOCK) \<or> ofs = u32i (5 + 2 * NIDS_PER_BLOCK) then False
      else if u32i (6 + 2 * NIDS_PER_BLOCK) \<le> ofs
        then (ofs - u32i (6 + 2 * NIDS_PER_BLOCK)) mod u32i (NIDS_PER_BLOCK + 1) \<noteq> 0
      else True)"

end
