(* ===== verification/F2fsNodeSpec.thy ===== *)
theory F2fsNodeSpec
  imports F2fsNode
begin

text \<open>
  The path from the inode to a block of a file, as a case distinction over the six regions of a file,
  and its agreement with the computation of the block from the node.
\<close>

subsection \<open>Words from integers\<close>

lemma u32i_div: "0 \<le> a \<Longrightarrow> a < 2 ^ 32 \<Longrightarrow> 0 \<le> b \<Longrightarrow> b < 2 ^ 32 \<Longrightarrow> u32i a div u32i b = u32i (a div b)"
  by (simp add: word_div_def unsigned_of_int take_bit_int_eq_self)

lemma u32i_mod: "0 \<le> a \<Longrightarrow> a < 2 ^ 32 \<Longrightarrow> 0 \<le> b \<Longrightarrow> b < 2 ^ 32 \<Longrightarrow> u32i a mod u32i b = u32i (a mod b)"
  by (simp add: word_mod_def unsigned_of_int take_bit_int_eq_self)

lemma u32i_le: "0 \<le> a \<Longrightarrow> a < 2 ^ 32 \<Longrightarrow> 0 \<le> b \<Longrightarrow> b < 2 ^ 32 \<Longrightarrow> u32i a \<le> u32i b \<longleftrightarrow> a \<le> b"
  by (simp add: word_le_def unsigned_of_int take_bit_int_eq_self)

lemma u32i_eq: "0 \<le> a \<Longrightarrow> a < 2 ^ 32 \<Longrightarrow> 0 \<le> b \<Longrightarrow> b < 2 ^ 32 \<Longrightarrow> u32i a = u32i b \<longleftrightarrow> a = b"
  by (metis u32i_le order_antisym order_refl)

lemma uint_u32i: "0 \<le> a \<Longrightarrow> a < 2 ^ 32 \<Longrightarrow> uint (u32i a) = a"
  by (simp add: unsigned_of_int take_bit_int_eq_self)

lemma start_bidx_of_node_int:
  assumes "0 < v" "v \<noteq> 3" "v < 2 ^ 31" "v \<le> 2040 \<or> 2043 \<le> v"
  shows "start_bidx_of_node (u32i v) x = u32i ((if v \<le> 2 then v - 1 else if v \<le> 2040 then v - 2 - (v - 4) div 1019
      else v - 5 - (v - 2043) div 1019) * 1018 + addrs_per_inode x)"
proof -
  have a: "u32i v - 4 = u32i (v - 4)" "u32i v - 2040 - 3 = u32i (v - 2043)" by simp_all
  have "u32i v = 0 \<longleftrightarrow> v = 0" using u32i_eq[of v 0] assms by simp
  moreover have "u32i v \<le> 2 \<longleftrightarrow> v \<le> 2" "u32i v \<le> 2040 \<longleftrightarrow> v \<le> 2040"
    using u32i_le[of v 2] u32i_le[of v 2040] assms by simp_all
  moreover have "4 \<le> v \<Longrightarrow> u32i (v - 4) div 1019 = u32i ((v - 4) div 1019)"
    "2043 \<le> v \<Longrightarrow> u32i (v - 2043) div 1019 = u32i ((v - 2043) div 1019)"
    using u32i_div[of "v - 4" 1019] u32i_div[of "v - 2043" 1019] assms by simp_all
  ultimately show ?thesis using assms
    by (cases "v \<le> 2"; cases "v \<le> 2040") (simp_all add: start_bidx_of_node_def node_consts Let_def)
qed

lemma get_node_path_cases:
  assumes "get_node_path x b = Some (l, offs, nofs)"
  obtains (inode) "b < addrs_per_inode x" "l = 0" "offs = [b]" "nofs = [0]"
  | (dir1) j where "b = addrs_per_inode x + j" "0 \<le> j" "j < 1018" "l = 1" "offs = [924, j]" "nofs = [0, 1]"
  | (dir2) j where "b = addrs_per_inode x + 1018 + j" "0 \<le> j" "j < 1018" "l = 1" "offs = [925, j]" "nofs = [0, 2]"
  | (ind1) i j where "b = addrs_per_inode x + (2 + i) * 1018 + j" "0 \<le> i" "i < 1018" "0 \<le> j" "j < 1018"
      "l = 2" "offs = [926, i, j]" "nofs = [0, 3, u32i (4 + i)]"
  | (ind2) i j where "b = addrs_per_inode x + (1020 + i) * 1018 + j" "0 \<le> i" "i < 1018" "0 \<le> j" "j < 1018"
      "l = 2" "offs = [927, i, j]" "nofs = [0, 1022, u32i (1023 + i)]"
  | (dind) h i j where "b = addrs_per_inode x + (2038 + h * 1018 + i) * 1018 + j" "0 \<le> h" "h < 1018" "0 \<le> i" "i < 1018"
      "0 \<le> j" "j < 1018" "l = 3" "offs = [928, h, i, j]"
      "nofs = [0, 2041, u32i (2042 + h * 1019), u32i (2043 + h * 1019 + i)]"
proof -
  let ?c = "b - addrs_per_inode x"
  consider "?c < 0" | "0 \<le> ?c" "?c < 1018" | "1018 \<le> ?c" "?c < 2036" | "2036 \<le> ?c" "?c < 1038360"
    | "1038360 \<le> ?c" "?c < 2074684" | "2074684 \<le> ?c" "?c < 1057052516" | "1057052516 \<le> ?c" by linarith
  then show thesis
  proof cases
    case 1
    then show thesis using assms inode by (simp add: get_node_path_def Let_def)
  next
    case 2
    then show thesis using assms dir1[of ?c] by (simp add: get_node_path_def node_consts Let_def)
  next
    case 3
    then show thesis using assms dir2[of "?c - 1018"] by (simp add: get_node_path_def node_consts Let_def)
  next
    case 4
    let ?k = "?c - 2036"
    have "b = addrs_per_inode x + (2 + ?k div 1018) * 1018 + ?k mod 1018" "0 \<le> ?k div 1018" "?k div 1018 < 1018"
      using 4 by auto
    moreover have "l = 2" "offs = [926, ?k div 1018, ?k mod 1018]" "nofs = [0, 3, u32i (4 + ?k div 1018)]"
      using assms 4 by (simp_all add: get_node_path_def node_consts Let_def)
    ultimately show thesis using ind1[of "?k div 1018" "?k mod 1018"] by simp
  next
    case 5
    let ?k = "?c - 1038360"
    have "b = addrs_per_inode x + (1020 + ?k div 1018) * 1018 + ?k mod 1018" "0 \<le> ?k div 1018" "?k div 1018 < 1018"
      using 5 by auto
    moreover have "l = 2" "offs = [927, ?k div 1018, ?k mod 1018]" "nofs = [0, 1022, u32i (1023 + ?k div 1018)]"
      using assms 5 by (simp_all add: get_node_path_def node_consts Let_def)
    ultimately show thesis using ind2[of "?k div 1018" "?k mod 1018"] by simp
  next
    case 6
    define k where "k = ?c - 2074684"
    define h i j where "h = k div 1036324" and "i = k div 1018 mod 1018" and "j = k mod 1018"
    have k: "0 \<le> k" "k < 1054977832" using 6 by (simp_all add: k_def)
    then have r: "0 \<le> h" "h < 1018" "0 \<le> i" "i < 1018" "0 \<le> j" "j < 1018" by (auto simp: h_def i_def j_def)
    have "k = (h * 1018 + i) * 1018 + j"
      using zdiv_zmult2_eq[of 1018 k 1018] div_mult_mod_eq[of "k div 1018" 1018] div_mult_mod_eq[of k 1018]
      by (simp add: h_def i_def j_def)
    then have b: "b = addrs_per_inode x + (2038 + h * 1018 + i) * 1018 + j"
      by (simp add: k_def algebra_simps)
    have "l = 3" "offs = [928, h, i, j]" "nofs = [0, 2041, u32i (2042 + h * 1019), u32i (2043 + h * 1019 + i)]"
      using assms 6 by (simp_all add: get_node_path_def node_consts Let_def h_def i_def j_def k_def)
    then show thesis using dind b r by simp
  next
    case 7
    then show thesis using assms by (simp add: get_node_path_def node_consts Let_def)
  qed
qed

text \<open>C27: Two independent pieces of code agree: \<open>get_node_path\<close>, which finds the node and the slot of a
  block, and \<open>start_bidx_of_node\<close>, by which the garbage collector computes the block from the
  node's number and the slot. No index a file can have overflows the 32 bits.\<close>

theorem node_path_start_bidx:
  assumes "0 \<le> b" "get_node_path x b = Some (l, offs, nofs)"
  shows "uint (start_bidx_of_node (last nofs) x) + last offs = b"
proof -
  note sb = start_bidx_of_node_int[of _ x]
  have ai: "0 \<le> addrs_per_inode x" "addrs_per_inode x \<le> 923" by (simp_all add: addrs_per_inode_def node_consts)
  show ?thesis
  using assms(2) proof (cases rule: get_node_path_cases)
    case inode
    then show ?thesis by (simp add: start_bidx_of_node_def)
  next
    case (dir1 j)
    then show ?thesis using sb[of 1] ai by (simp add: uint_u32i)
  next
    case (dir2 j)
    then show ?thesis using sb[of 2] ai uint_u32i[of "1018 + addrs_per_inode x"] by simp
  next
    case (ind1 i j)
    have "start_bidx_of_node (last nofs) x = u32i ((2 + i) * 1018 + addrs_per_inode x)"
      using sb[of "4 + i"] ind1 by (simp split: if_splits)
    then show ?thesis using ind1 ai uint_u32i[of "(2 + i) * 1018 + addrs_per_inode x"] by simp
  next
    case (ind2 i j)
    have "(i + 1019) div 1019 = 1" using ind2 by simp
    then have "start_bidx_of_node (last nofs) x = u32i ((1020 + i) * 1018 + addrs_per_inode x)"
      using sb[of "1023 + i"] ind2 by (simp add: add.commute split: if_splits)
    then show ?thesis using ind2 ai uint_u32i[of "(1020 + i) * 1018 + addrs_per_inode x"] by simp
  next
    case (dind h i j)
    have "(h * 1019 + i) div 1019 = h" using dind by simp
    then have "start_bidx_of_node (last nofs) x = u32i ((2038 + h * 1018 + i) * 1018 + addrs_per_inode x)"
      using sb[of "2043 + h * 1019 + i"] dind by (simp add: algebra_simps split: if_splits)
    then show ?thesis using dind ai uint_u32i[of "(2038 + h * 1018 + i) * 1018 + addrs_per_inode x"] by simp
  qed
qed

lemma node_path_start_bidx_witness:
  "uint (start_bidx_of_node (u32i 1039383) False) + 1017 = 1057053438"
proof -
  have "get_node_path False 1057053438 = Some (3, [928, 1017, 1017, 1017], [0, 2041, u32i 1038365, u32i 1039383])"
    by (simp add: get_node_path_def addrs_per_inode_def node_consts Let_def)
  then show ?thesis using node_path_start_bidx[of 1057053438 False] by simp
qed

lemma XATTR_NODE_OFFSET_eq: "XATTR_NODE_OFFSET = u32i 536870911"
  by (simp add: XATTR_NODE_OFFSET_def OFFSET_BIT_SHIFT_def drop_bit_eq_div push_bit_eq_mult word_div_def)

lemma IS_DNODE_int:
  assumes "0 \<le> v" "v < 536870911"
  shows "IS_DNODE (u32i v) \<longleftrightarrow> v \<noteq> 3 \<and> v \<noteq> 1022 \<and> v \<noteq> 2041 \<and> (2042 \<le> v \<longrightarrow> (v - 2042) mod 1019 \<noteq> 0)"
proof -
  have e: "u32i v = u32i w \<longleftrightarrow> v = w" if "0 \<le> w" "w < 2 ^ 32" for w using u32i_eq[of v w] assms that by simp
  have "u32i 2042 \<le> u32i v \<longleftrightarrow> 2042 \<le> v" using u32i_le[of 2042 v] assms by simp
  moreover have "2042 \<le> v \<Longrightarrow> (u32i v - 2042) mod 1019 = u32i ((v - 2042) mod 1019)"
    using u32i_mod[of "v - 2042" 1019] assms by simp
  moreover have "u32i ((v - 2042) mod 1019) = 0 \<longleftrightarrow> (v - 2042) mod 1019 = 0"
    using u32i_eq[of "(v - 2042) mod 1019" 0] by (simp add: order_less_trans[OF pos_mod_bound])
  ultimately show ?thesis using e[of 3] e[of 1022] e[of 2041] e[of 536870911] assms
    by (auto simp: IS_DNODE_def f2fs_has_xattr_block_def XATTR_NODE_OFFSET_eq node_consts)
qed

lemma IS_DNODE_low: "0 \<le> v \<Longrightarrow> v < 2041 \<Longrightarrow> v \<noteq> 3 \<Longrightarrow> v \<noteq> 1022 \<Longrightarrow> IS_DNODE (u32i v)"
  by (simp add: IS_DNODE_int)

lemma not_IS_DNODE: "\<not> IS_DNODE 3" "\<not> IS_DNODE 1022" "\<not> IS_DNODE 2041"
  using IS_DNODE_int[of 3] IS_DNODE_int[of 1022] IS_DNODE_int[of 2041] by simp_all

text \<open>C28: Every step of the path stays inside the arrays of the nodes: the slot of the inode is one of its
  addresses or of its five node pointers, the other slots are below 1018, the last node is one that
  holds addresses and those between it and the inode are not. The largest file has 1057053439 blocks.\<close>

theorem node_path_in_bounds:
  assumes "0 \<le> b" "get_node_path x b = Some (l, offs, nofs)"
  shows "length offs = l + 1 \<and> length nofs = l + 1 \<and> hd nofs = 0 \<and> IS_DNODE (last nofs)
    \<and> (\<forall>n \<in> set (butlast (tl nofs)). \<not> IS_DNODE n)
    \<and> (if l = 0 then hd offs \<in> {0 ..< addrs_per_inode x} else hd offs - NODE_DIR1_BLOCK \<in> {0 ..< 5})
    \<and> (\<forall>i \<in> set (tl offs). 0 \<le> i \<and> i < 1018) \<and> b \<le> 1057053438"
proof -
  have ai: "0 \<le> addrs_per_inode x" "addrs_per_inode x \<le> 923" by (simp_all add: addrs_per_inode_def node_consts)
  show ?thesis
    using assms(2)
  proof (cases rule: get_node_path_cases)
    case (dind h i j)
    have "(2043 + h * 1019 + i - 2042) mod 1019 = 1 + i"
      using mod_mult_self1[of "1 + i" h 1019] dind by (simp add: algebra_simps)
    then have "IS_DNODE (u32i (2043 + h * 1019 + i))" using IS_DNODE_int[of "2043 + h * 1019 + i"] dind by simp
    moreover have "\<not> IS_DNODE (u32i (2042 + h * 1019))" using IS_DNODE_int[of "2042 + h * 1019"] dind by simp
    moreover have "b = addrs_per_inode x + 2074684 + 1036324 * h + 1018 * i + j" using dind by simp
    then have "b \<le> 1057053438" using dind(2-7) ai by linarith
    ultimately show ?thesis using dind not_IS_DNODE by (simp add: node_consts)
  next
    case (ind1 i j)
    then have "IS_DNODE (u32i (4 + i))" by (intro IS_DNODE_low) linarith+
    moreover have "b = addrs_per_inode x + 2036 + 1018 * i + j" using ind1 by simp
    then have "b \<le> 1057053438" using ind1(2-5) ai by linarith
    ultimately show ?thesis using ind1 not_IS_DNODE by (simp add: node_consts)
  next
    case (ind2 i j)
    then have "IS_DNODE (u32i (1023 + i))" by (intro IS_DNODE_low) linarith+
    moreover have "b = addrs_per_inode x + 1038360 + 1018 * i + j" using ind2 by simp
    then have "b \<le> 1057053438" using ind2(2-5) ai by linarith
    ultimately show ?thesis using ind2 not_IS_DNODE by (simp add: node_consts)
  next
    case inode
    then show ?thesis using ai assms(1) IS_DNODE_low[of 0] by (simp add: node_consts)
  next
    case (dir1 j)
    then show ?thesis using ai IS_DNODE_low[of 1] by (simp add: node_consts)
  next
    case (dir2 j)
    then show ?thesis using ai IS_DNODE_low[of 2] by (simp add: node_consts)
  qed
qed

lemma node_path_in_bounds_witness:
  "length [924, 5 :: int] = 1 + 1 \<and> IS_DNODE (last [0, 1]) \<and> (928 :: int) \<le> 1057053438"
proof -
  have "get_node_path False 928 = Some (1, [924, 5], [0, 1])"
    by (simp add: get_node_path_def addrs_per_inode_def node_consts Let_def)
  then show ?thesis using node_path_in_bounds[of 928 False] by simp
qed

end
