(* ===== verification/F2fsKernel.thy ===== *)
theory F2fsKernel
  imports Prelude
begin

unbundle bit_operations_syntax

text \<open>
  What the F2FS models use of the kernel: two special block addresses, radix trees, and the bit operations that \<open>f2fs.h\<close> defines on
  byte arrays.

  A radix tree is the association list of its items in the order of their indices. An insertion
  fails when the index is taken; the allocation of its nodes is taken to succeed, as the code
  repeats it until it does. A list of structures is the list of their keys. \<open>f2fs_bug_on\<close> stops the
  kernel as with \<open>CONFIG_F2FS_CHECK_FS\<close>: the operation is \<open>None\<close>.
\<close>

type_synonym u8 = "8 word"

definition NULL_ADDR :: u32 where "NULL_ADDR = 0"
definition NEW_ADDR :: u32 where "NEW_ADDR = - 1"

definition bug_on :: "bool \<Rightarrow> unit option" where
  "bug_on c = (if c then None else Some ())"

lemma bug_on_simps [simp]: "bug_on True = None" "bug_on False = Some ()"
  by (simp_all add: bug_on_def)

subsection \<open>Radix trees\<close>

type_synonym 'a radix = "(u32 \<times> 'a) list"

definition radix_lookup :: "'a radix \<Rightarrow> u32 \<Rightarrow> 'a option" where
  "radix_lookup t k = map_of t k"

fun radix_put :: "u32 \<Rightarrow> 'a \<Rightarrow> 'a radix \<Rightarrow> 'a radix" where
  "radix_put k v [] = [(k, v)]"
| "radix_put k v ((j, w) # t) =
     (if k < j then (k, v) # (j, w) # t else if k = j then (k, v) # t else (j, w) # radix_put k v t)"

definition radix_insert :: "u32 \<Rightarrow> 'a \<Rightarrow> 'a radix \<Rightarrow> 'a radix option" where
  "radix_insert k v t = (if radix_lookup t k = None then Some (radix_put k v t) else None)"

definition radix_delete :: "u32 \<Rightarrow> 'a radix \<Rightarrow> 'a radix" where
  "radix_delete k t = filter (\<lambda>(j, v). j \<noteq> k) t"

definition radix_gang_lookup :: "'a radix \<Rightarrow> u32 \<Rightarrow> nat \<Rightarrow> (u32 \<times> 'a) list" where
  "radix_gang_lookup t start nr = take nr (filter (\<lambda>(j, v). start \<le> j) t)"

definition radix_ok :: "'a radix \<Rightarrow> bool" where
  "radix_ok t \<longleftrightarrow> sorted_wrt (<) (map fst t)"

lemma radix_ok_distinct: "radix_ok t \<Longrightarrow> distinct (map fst t)"
  by (simp add: radix_ok_def strict_sorted_iff)

lemma set_radix_put: "fst ` set (radix_put k v t) = insert k (fst ` set t)"
  by (induction k v t rule: radix_put.induct) auto

lemma radix_put_ok [intro]: "radix_ok t \<Longrightarrow> radix_ok (radix_put k v t)"
  unfolding radix_ok_def
proof (induction k v t rule: radix_put.induct)
  case (2 k v j w t)
  have "set (map fst (radix_put k v t)) = insert k (fst ` set t)" by (simp add: set_radix_put)
  then show ?case using 2 by auto
qed simp

lemma radix_lookup_put: "radix_ok t \<Longrightarrow> radix_lookup (radix_put k v t) j = (if j = k then Some v else radix_lookup t j)"
  unfolding radix_lookup_def radix_ok_def
proof (induction k v t rule: radix_put.induct)
  case (2 k v i w t)
  have "k < i \<Longrightarrow> k \<notin> fst ` set t \<and> k \<noteq> i" using 2(2) by auto
  then show ?case using 2 by (auto simp: map_of_eq_None_iff)
qed simp

lemma radix_delete_ok [intro]: "radix_ok t \<Longrightarrow> radix_ok (radix_delete k t)"
  by (simp add: radix_ok_def radix_delete_def sorted_wrt_map sorted_wrt_filter)

lemma radix_lookup_delete: "radix_lookup (radix_delete k t) j = (if j = k then None else radix_lookup t j)"
  by (induction t) (auto simp: radix_lookup_def radix_delete_def)

lemma map_fst_radix_put:
  "radix_ok t \<Longrightarrow> radix_lookup t k \<noteq> None \<Longrightarrow> map fst (radix_put k v t) = map fst t"
  unfolding radix_lookup_def radix_ok_def
proof (induction k v t rule: radix_put.induct)
  case (2 k v j w t)
  have "k < j \<Longrightarrow> map_of t k = None" using 2(2) by (force simp: map_of_eq_None_iff)
  then show ?case using 2 by auto
qed simp

lemma radix_lookup_None: "radix_lookup t k = None \<longleftrightarrow> k \<notin> set (map fst t)"
  by (simp add: radix_lookup_def map_of_eq_None_iff)

lemma radix_lookup_set: "radix_ok t \<Longrightarrow> radix_lookup t k = Some v \<longleftrightarrow> (k, v) \<in> set t"
  unfolding radix_lookup_def by (rule map_of_eq_Some_iff[OF radix_ok_distinct])

subsection \<open>Bits in byte arrays\<close>

definition f2fs_mask :: "nat \<Rightarrow> u8" where
  "f2fs_mask nr = push_bit (7 - nr mod 8) 1"

definition f2fs_test_bit :: "nat \<Rightarrow> (nat \<Rightarrow> u8) \<Rightarrow> bool" where
  "f2fs_test_bit nr a \<longleftrightarrow> f2fs_mask nr AND a (nr div 8) \<noteq> 0"

definition f2fs_set_bit :: "nat \<Rightarrow> (nat \<Rightarrow> u8) \<Rightarrow> bool \<times> (nat \<Rightarrow> u8)" where
  "f2fs_set_bit nr a = (f2fs_test_bit nr a, a(nr div 8 := a (nr div 8) OR f2fs_mask nr))"

definition f2fs_clear_bit :: "nat \<Rightarrow> (nat \<Rightarrow> u8) \<Rightarrow> bool \<times> (nat \<Rightarrow> u8)" where
  "f2fs_clear_bit nr a = (f2fs_test_bit nr a, a(nr div 8 := a (nr div 8) AND NOT (f2fs_mask nr)))"

lemma bit_f2fs_mask: "bit (f2fs_mask nr) n \<longleftrightarrow> n = 7 - nr mod 8"
  by (auto simp: f2fs_mask_def bit_simps)

lemma f2fs_test_bit_iff: "f2fs_test_bit nr a \<longleftrightarrow> bit (a (nr div 8)) (7 - nr mod 8)"
proof
  assume "f2fs_test_bit nr a"
  then obtain n where "bit (f2fs_mask nr AND a (nr div 8)) n" by (auto simp: f2fs_test_bit_def bit_eq_iff)
  then show "bit (a (nr div 8)) (7 - nr mod 8)" by (auto simp: bit_and_iff bit_f2fs_mask)
next
  assume "bit (a (nr div 8)) (7 - nr mod 8)"
  then have "bit (f2fs_mask nr AND a (nr div 8)) (7 - nr mod 8)" by (simp add: bit_and_iff bit_f2fs_mask)
  then show "f2fs_test_bit nr a" unfolding f2fs_test_bit_def by (metis bit_0_eq bot_apply bot_bool_def)
qed

lemma bit_pos_eq: "(m::nat) div 8 = n div 8 \<Longrightarrow> 7 - m mod 8 = 7 - n mod 8 \<Longrightarrow> m = n"
  using mod_less_divisor[of 8 m] mod_less_divisor[of 8 n] div_mult_mod_eq[of m 8] div_mult_mod_eq[of n 8] by linarith

lemma f2fs_set_bit_test [simp]: "f2fs_test_bit m (snd (f2fs_set_bit n a)) \<longleftrightarrow> m = n \<or> f2fs_test_bit m a"
  by (auto simp: f2fs_set_bit_def f2fs_test_bit_iff bit_or_iff bit_f2fs_mask dest: bit_pos_eq)

lemma f2fs_clear_bit_test [simp]: "f2fs_test_bit m (snd (f2fs_clear_bit n a)) \<longleftrightarrow> m \<noteq> n \<and> f2fs_test_bit m a"
  by (auto simp: f2fs_clear_bit_def f2fs_test_bit_iff bit_and_iff bit_not_iff bit_f2fs_mask dest: bit_pos_eq)

subsection \<open>Bit searches of the kernel\<close>

text \<open>\<open>find_next_bit\<close> and \<open>find_next_zero_bit\<close>: the first bit from an offset on, or the size.\<close>

definition find_next_bit :: "(nat \<Rightarrow> bool) \<Rightarrow> nat \<Rightarrow> nat \<Rightarrow> nat" where
  "find_next_bit f siz off = (case find f [off ..< siz] of Some i \<Rightarrow> i | None \<Rightarrow> siz)"

definition find_next_zero_bit :: "(nat \<Rightarrow> bool) \<Rightarrow> nat \<Rightarrow> nat \<Rightarrow> nat" where
  "find_next_zero_bit f siz off = find_next_bit (\<lambda>i. \<not> f i) siz off"

lemma find_next_bit_hit:
  assumes "off \<le> r" "r < siz" "f r" "\<And>i. off \<le> i \<Longrightarrow> i < r \<Longrightarrow> \<not> f i"
  shows "find_next_bit f siz off = r"
proof -
  have "find f [off ..< siz] = Some r"
    using assms by (auto simp: find_Some_iff intro!: exI[of _ "r - off"])
  then show ?thesis by (simp add: find_next_bit_def)
qed

lemma find_next_bit_none: "(\<And>i. off \<le> i \<Longrightarrow> i < siz \<Longrightarrow> \<not> f i) \<Longrightarrow> find_next_bit f siz off = siz"
  by (auto simp: find_next_bit_def find_None_iff split: option.splits dest!: find_Some_iff[THEN iffD1])

lemma find_next_bit_least:
  assumes "find_next_bit f siz off = r" "r \<noteq> siz"
  shows "off \<le> r" "r < siz" "f r" "off \<le> i \<Longrightarrow> i < r \<Longrightarrow> \<not> f i"
proof -
  have "find f [off ..< siz] = Some r" using assms by (auto simp: find_next_bit_def split: option.splits)
  then obtain k where k: "k < siz - off" "f ([off ..< siz] ! k)" "r = [off ..< siz] ! k" "\<forall>j < k. \<not> f ([off ..< siz] ! j)"
    by (auto simp: find_Some_iff)
  then show "off \<le> r" "r < siz" "f r" by simp_all
  assume i: "off \<le> i" "i < r"
  then have "i - off < k" using k(1,3) by simp
  then have "\<not> f ([off ..< siz] ! (i - off))" using k(4) by blast
  then show "\<not> f i" using i k(1,3) by simp
qed

lemma find_next_bit_end:
  assumes "find_next_bit f siz off = siz" "off \<le> i" "i < siz"
  shows "\<not> f i"
proof
  assume f: "f i"
  obtain r where r: "r \<le> i" "off \<le> r" "f r" "\<And>j. off \<le> j \<Longrightarrow> j < r \<Longrightarrow> \<not> f j"
    using f assms(2) exists_least_iff[of "\<lambda>r. off \<le> r \<and> f r"] by (metis not_le)
  then have "find_next_bit f siz off = r" using assms(3) by (intro find_next_bit_hit) auto
  then show False using r(1) assms(1,3) by simp
qed

lemma find_next_bit_skip:
  assumes "off \<le> m" "m \<le> siz" "\<And>i. off \<le> i \<Longrightarrow> i < m \<Longrightarrow> \<not> f i"
  shows "find_next_bit f siz off = find_next_bit f siz m"
proof (cases "find_next_bit f siz m = siz")
  case True
  have "\<not> f i" if "off \<le> i" "i < siz" for i
    using find_next_bit_end[OF True, of i] assms(3) that by (cases "i < m") simp_all
  then show ?thesis using True by (simp add: find_next_bit_none)
next
  case False
  note l = find_next_bit_least[OF refl False]
  show ?thesis using l assms by (intro find_next_bit_hit) (auto, metis not_le)
qed

end
