(* ===== verification/F2fsNat.thy ===== *)
theory F2fsNat
  imports F2fsKernel
begin

unbundle bit_operations_syntax

text \<open>
  The node address table (NAT) of F2FS, from \<open>node.c\<close>, \<open>node.h\<close> and the summary journal of
  \<open>segment.c\<close> and \<open>f2fs.h\<close>: for every node number the inode it belongs to and the block it is stored in. An
  entry is looked up in a cache, then in the journal of the hot data summary, then in the NAT
  blocks, of which there are two copies; a bitmap says which is current. The checkpoint flushes the
  dirty entries of the cache to the journal or to the other copy of the block.

  Locks and reference counts are left out: the operations are run one after the other.
\<close>

definition NAT_ENTRY_PER_BLOCK :: u32 where "NAT_ENTRY_PER_BLOCK = 455"
definition NAT_JOURNAL_ENTRIES :: nat where "NAT_JOURNAL_ENTRIES = 38"
definition FREE_NID_PAGES :: nat where "FREE_NID_PAGES = 4"
definition NATVEC_SIZE :: nat where "NATVEC_SIZE = 64"
definition IS_CHECKPOINTED :: nat where "IS_CHECKPOINTED = 0"
definition HAS_FSYNCED_INODE :: nat where "HAS_FSYNCED_INODE = 1"
definition HAS_LAST_FSYNC :: nat where "HAS_LAST_FSYNC = 2"
definition IS_DIRTY :: nat where "IS_DIRTY = 3"

lemmas nat_flags = IS_CHECKPOINTED_def HAS_FSYNCED_INODE_def HAS_LAST_FSYNC_def IS_DIRTY_def

definition START_NID :: "u32 \<Rightarrow> u32" where
  "START_NID nid = nid div NAT_ENTRY_PER_BLOCK * NAT_ENTRY_PER_BLOCK"

definition NAT_BLOCK_OFFSET :: "u32 \<Rightarrow> u32" where
  "NAT_BLOCK_OFFSET start_nid = start_nid div NAT_ENTRY_PER_BLOCK"

subsection \<open>Data\<close>

record node_info =
  ni_nid :: u32
  ni_ino :: u32
  ni_blk_addr :: u32
  ni_version :: u8

record f2fs_nat_entry =
  raw_version :: u8
  raw_ino :: u32
  raw_block_addr :: u32

record nat_entry =
  nat_flag :: u8
  nat_ni :: node_info

record nat_entry_set =
  entry_list :: "u32 list"
  entry_cnt :: u32

datatype nid_state = NID_NEW | NID_ALLOC

datatype mem_type = FREE_NIDS | NAT_ENTRIES | DIRTY_DENTS

record f2fs_summary_block =
  n_nats :: nat
  nat_j :: "nat \<Rightarrow> u32 \<times> f2fs_nat_entry"

record f2fs_nm_info =
  nat_blkaddr :: nat
  log_blocks_per_seg :: nat
  blocks_per_seg :: nat
  max_nid :: u32
  available_nids :: u32
  next_scan_nid :: u32
  ram_thresh :: nat
  totalram :: nat
  dirty_exceeded :: bool
  dirty_dents :: nat
  nat_root :: "nat_entry radix"
  nat_set_root :: "nat_entry_set radix"
  nat_entries :: "u32 list"
  nat_cnt :: u32
  dirty_nat_cnt :: u32
  free_nid_root :: "nid_state radix"
  free_nid_list :: "u32 list"
  fcnt :: u32
  nat_bitmap :: "nat \<Rightarrow> u8"
  nat_pages :: "nat \<Rightarrow> nat \<Rightarrow> f2fs_nat_entry"
  cursum :: f2fs_summary_block
  total_valid_node_count :: u32

definition set_nat_flag :: "nat \<Rightarrow> bool \<Rightarrow> nat_entry \<Rightarrow> nat_entry" where
  "set_nat_flag type b e =
     (if b then e\<lparr>nat_flag := nat_flag e OR push_bit type 1\<rparr> else e\<lparr>nat_flag := nat_flag e AND NOT (push_bit type 1)\<rparr>)"

definition get_nat_flag :: "nat_entry \<Rightarrow> nat \<Rightarrow> bool" where
  "get_nat_flag e type \<longleftrightarrow> nat_flag e AND push_bit type 1 \<noteq> 0"

definition nat_reset_flag :: "nat_entry \<Rightarrow> nat_entry" where
  "nat_reset_flag e = set_nat_flag HAS_LAST_FSYNC True (set_nat_flag HAS_FSYNCED_INODE False (set_nat_flag IS_CHECKPOINTED True e))"

definition node_info_from_raw_nat :: "f2fs_nat_entry \<Rightarrow> node_info \<Rightarrow> node_info" where
  "node_info_from_raw_nat raw ni = ni\<lparr>ni_ino := raw_ino raw, ni_blk_addr := raw_block_addr raw, ni_version := raw_version raw\<rparr>"

definition raw_nat_from_node_info :: "node_info \<Rightarrow> f2fs_nat_entry" where
  "raw_nat_from_node_info ni = \<lparr>raw_version = ni_version ni, raw_ino = ni_ino ni, raw_block_addr = ni_blk_addr ni\<rparr>"

text \<open>A structure has 24 bytes in the list of free nids and 40 bytes in the cache.\<close>

definition available_free_memory :: "mem_type \<Rightarrow> f2fs_nm_info \<Rightarrow> bool" where
  "available_free_memory type s =
     (let part = totalram s * ram_thresh s div 100 in
      case type of
        FREE_NIDS \<Rightarrow> unat (fcnt s) * 24 div 4096 < part div 4
      | NAT_ENTRIES \<Rightarrow> unat (nat_cnt s) * 40 div 4096 < part div 4
      | DIRTY_DENTS \<Rightarrow> \<not> dirty_exceeded s \<and> dirty_dents s < part div 2)"

subsection \<open>The journal\<close>

definition update_nats_in_cursum :: "int \<Rightarrow> f2fs_summary_block \<Rightarrow> nat \<times> f2fs_summary_block" where
  "update_nats_in_cursum i sm = (n_nats sm, sm\<lparr>n_nats := nat (int (n_nats sm) + i)\<rparr>)"

definition has_cursum_space :: "f2fs_summary_block \<Rightarrow> int \<Rightarrow> bool" where
  "has_cursum_space sm sz \<longleftrightarrow> sz \<le> int NAT_JOURNAL_ENTRIES - int (n_nats sm)"

definition find_in_journal :: "f2fs_summary_block \<Rightarrow> u32 \<Rightarrow> nat option" where
  "find_in_journal sm val = find (\<lambda>i. fst (nat_j sm i) = val) [0 ..< n_nats sm]"

definition lookup_journal_in_cursum :: "f2fs_summary_block \<Rightarrow> u32 \<Rightarrow> bool \<Rightarrow> nat option \<times> f2fs_summary_block" where
  "lookup_journal_in_cursum sm val alloc =
     (case find_in_journal sm val of
        Some i \<Rightarrow> (Some i, sm)
      | None \<Rightarrow>
          if alloc \<and> n_nats sm < NAT_JOURNAL_ENTRIES
          then (let (before, sm1) = update_nats_in_cursum 1 sm in (Some before, sm1))
          else (None, sm))"

subsection \<open>NAT blocks\<close>

definition current_nat_addr :: "f2fs_nm_info \<Rightarrow> u32 \<Rightarrow> nat" where
  "current_nat_addr s start =
     (let block_off = unat (NAT_BLOCK_OFFSET start);
          seg_off = drop_bit (log_blocks_per_seg s) block_off;
          block_addr = nat_blkaddr s + push_bit 1 (push_bit (log_blocks_per_seg s) seg_off)
            + (block_off AND (push_bit (log_blocks_per_seg s) 1 - 1)) in
      if f2fs_test_bit block_off (nat_bitmap s) then block_addr + blocks_per_seg s else block_addr)"

definition next_nat_addr :: "f2fs_nm_info \<Rightarrow> nat \<Rightarrow> nat" where
  "next_nat_addr s block_addr0 =
     (let block_addr = block_addr0 - nat_blkaddr s in
      (if drop_bit (log_blocks_per_seg s) block_addr mod 2 \<noteq> 0 then block_addr - blocks_per_seg s
       else block_addr + blocks_per_seg s) + nat_blkaddr s)"

definition set_to_next_nat :: "u32 \<Rightarrow> f2fs_nm_info \<Rightarrow> f2fs_nm_info" where
  "set_to_next_nat start_nid s =
     (let block_off = unat (NAT_BLOCK_OFFSET start_nid) in
      if f2fs_test_bit block_off (nat_bitmap s) then s\<lparr>nat_bitmap := snd (f2fs_clear_bit block_off (nat_bitmap s))\<rparr>
      else s\<lparr>nat_bitmap := snd (f2fs_set_bit block_off (nat_bitmap s))\<rparr>)"

definition get_current_nat_page :: "f2fs_nm_info \<Rightarrow> u32 \<Rightarrow> nat \<Rightarrow> f2fs_nat_entry" where
  "get_current_nat_page s nid = nat_pages s (current_nat_addr s nid)"

text \<open>The page is given by its address; it is written through this address.\<close>

definition get_next_nat_page :: "u32 \<Rightarrow> f2fs_nm_info \<Rightarrow> nat \<times> f2fs_nm_info" where
  "get_next_nat_page nid s =
     (let src_off = current_nat_addr s nid; dst_off = next_nat_addr s src_off in
      (dst_off, set_to_next_nat nid (s\<lparr>nat_pages := (nat_pages s)(dst_off := nat_pages s src_off)\<rparr>)))"

subsection \<open>The cache\<close>

text \<open>An entry of the cache is given by its nid. It is on one list: the clean ones on \<open>nat_entries\<close>, the
  dirty ones on the list of the set of their NAT block.\<close>

definition set_nat_cache_dirty :: "u32 \<Rightarrow> f2fs_nm_info \<Rightarrow> f2fs_nm_info option" where
  "set_nat_cache_dirty nid s = do {
     ne \<leftarrow> radix_lookup (nat_root s) nid;
     if get_nat_flag ne IS_DIRTY then Some s
     else
       let set = NAT_BLOCK_OFFSET (ni_nid (nat_ni ne));
           head = (case radix_lookup (nat_set_root s) set of
             Some h \<Rightarrow> h | None \<Rightarrow> \<lparr>entry_list = [], entry_cnt = 0\<rparr>) in
       Some (s\<lparr>nat_entries := remove1 nid (nat_entries s),
         nat_set_root := radix_put set \<lparr>entry_list = entry_list head @ [nid], entry_cnt = entry_cnt head + 1\<rparr> (nat_set_root s),
         dirty_nat_cnt := dirty_nat_cnt s + 1,
         nat_root := radix_put nid (set_nat_flag IS_DIRTY True ne) (nat_root s)\<rparr>) }"

definition clear_nat_cache_dirty :: "u32 \<Rightarrow> f2fs_nm_info \<Rightarrow> f2fs_nm_info option" where
  "clear_nat_cache_dirty nid s = do {
     ne \<leftarrow> radix_lookup (nat_root s) nid;
     let set = ni_nid (nat_ni ne) div NAT_ENTRY_PER_BLOCK in
     case radix_lookup (nat_set_root s) set of
       None \<Rightarrow> Some s
     | Some head \<Rightarrow> Some (s\<lparr>nat_entries := nat_entries s @ [nid],
         nat_set_root := radix_put set \<lparr>entry_list = remove1 nid (entry_list head), entry_cnt = entry_cnt head - 1\<rparr> (nat_set_root s),
         dirty_nat_cnt := dirty_nat_cnt s - 1,
         nat_root := radix_put nid (set_nat_flag IS_DIRTY False ne) (nat_root s)\<rparr>) }"

definition grab_nat_entry :: "u32 \<Rightarrow> f2fs_nm_info \<Rightarrow> (nat_entry \<times> f2fs_nm_info) option" where
  "grab_nat_entry nid s =
     (let new = nat_reset_flag \<lparr>nat_flag = 0, nat_ni = \<lparr>ni_nid = nid, ni_ino = 0, ni_blk_addr = 0, ni_version = 0\<rparr>\<rparr> in
      case radix_insert nid new (nat_root s) of
        None \<Rightarrow> None
      | Some root \<Rightarrow> Some (new, s\<lparr>nat_root := root, nat_entries := nat_entries s @ [nid], nat_cnt := nat_cnt s + 1\<rparr>))"

definition put_nat_entry :: "u32 \<Rightarrow> nat_entry \<Rightarrow> f2fs_nm_info \<Rightarrow> f2fs_nm_info" where
  "put_nat_entry nid e s = s\<lparr>nat_root := radix_put nid e (nat_root s)\<rparr>"

definition cache_nat_entry :: "u32 \<Rightarrow> f2fs_nat_entry \<Rightarrow> f2fs_nm_info \<Rightarrow> f2fs_nm_info option" where
  "cache_nat_entry nid ne s =
     (case radix_lookup (nat_root s) nid of
        Some e \<Rightarrow> Some s
      | None \<Rightarrow> do {
          (e, s1) \<leftarrow> grab_nat_entry nid s;
          Some (put_nat_entry nid (e\<lparr>nat_ni := node_info_from_raw_nat ne (nat_ni e)\<rparr>) s1) })"

definition del_from_nat_cache :: "u32 \<Rightarrow> f2fs_nm_info \<Rightarrow> f2fs_nm_info" where
  "del_from_nat_cache nid s =
     s\<lparr>nat_entries := remove1 nid (nat_entries s), nat_root := radix_delete nid (nat_root s), nat_cnt := nat_cnt s - 1\<rparr>"

definition is_checkpointed_node :: "u32 \<Rightarrow> f2fs_nm_info \<Rightarrow> bool" where
  "is_checkpointed_node nid s =
     (case radix_lookup (nat_root s) nid of Some e \<Rightarrow> get_nat_flag e IS_CHECKPOINTED | None \<Rightarrow> True)"

definition has_fsynced_inode :: "u32 \<Rightarrow> f2fs_nm_info \<Rightarrow> bool" where
  "has_fsynced_inode ino s =
     (case radix_lookup (nat_root s) ino of Some e \<Rightarrow> get_nat_flag e HAS_FSYNCED_INODE | None \<Rightarrow> False)"

definition need_inode_block_update :: "u32 \<Rightarrow> f2fs_nm_info \<Rightarrow> bool" where
  "need_inode_block_update ino s =
     (case radix_lookup (nat_root s) ino of
        Some e \<Rightarrow> \<not> (get_nat_flag e HAS_LAST_FSYNC \<and> (get_nat_flag e IS_CHECKPOINTED \<or> get_nat_flag e HAS_FSYNCED_INODE))
      | None \<Rightarrow> True)"

definition set_node_addr :: "node_info \<Rightarrow> u32 \<Rightarrow> bool \<Rightarrow> f2fs_nm_info \<Rightarrow> f2fs_nm_info option" where
  "set_node_addr ni new_blkaddr fsync_done s = do {
     let nid = ni_nid ni;
     (e, s1) \<leftarrow> (case radix_lookup (nat_root s) nid of
        None \<Rightarrow> do { (e, s1) \<leftarrow> grab_nat_entry nid s; bug_on (ni_blk_addr ni = NEW_ADDR); Some (e\<lparr>nat_ni := ni\<rparr>, s1) }
      | Some e \<Rightarrow>
          if new_blkaddr = NEW_ADDR then do { bug_on (ni_blk_addr ni \<noteq> NULL_ADDR); Some (e\<lparr>nat_ni := ni\<rparr>, s) }
          else Some (e, s));
     let blk = ni_blk_addr (nat_ni e);
     bug_on (blk \<noteq> ni_blk_addr ni);
     bug_on (blk = NULL_ADDR \<and> new_blkaddr = NULL_ADDR);
     bug_on (blk = NEW_ADDR \<and> new_blkaddr = NEW_ADDR);
     bug_on (blk \<noteq> NEW_ADDR \<and> blk \<noteq> NULL_ADDR \<and> new_blkaddr = NEW_ADDR);
     let n1 = (if blk \<noteq> NEW_ADDR \<and> new_blkaddr = NULL_ADDR then (nat_ni e)\<lparr>ni_version := ni_version (nat_ni e) + 1\<rparr> else nat_ni e);
     let e1 = e\<lparr>nat_ni := n1\<lparr>ni_blk_addr := new_blkaddr\<rparr>\<rparr>;
     let e2 = (if new_blkaddr = NEW_ADDR \<or> new_blkaddr = NULL_ADDR then set_nat_flag IS_CHECKPOINTED False e1 else e1);
     s2 \<leftarrow> set_nat_cache_dirty nid (put_nat_entry nid e2 s1);
     (case radix_lookup (nat_root s2) (ni_ino ni) of
        None \<Rightarrow> Some s2
      | Some f \<Rightarrow>
          let f1 = (if fsync_done \<and> nid = ni_ino ni then set_nat_flag HAS_FSYNCED_INODE True f else f) in
          Some (put_nat_entry (ni_ino ni) (set_nat_flag HAS_LAST_FSYNC fsync_done f1) s2)) }"

fun free_nats_loop :: "nat \<Rightarrow> f2fs_nm_info \<Rightarrow> nat \<times> f2fs_nm_info" where
  "free_nats_loop 0 s = (0, s)"
| "free_nats_loop (Suc n) s =
     (case nat_entries s of [] \<Rightarrow> (Suc n, s) | nid # _ \<Rightarrow> free_nats_loop n (del_from_nat_cache nid s))"

definition try_to_free_nats :: "nat \<Rightarrow> f2fs_nm_info \<Rightarrow> nat \<times> f2fs_nm_info" where
  "try_to_free_nats nr_shrink s =
     (if available_free_memory NAT_ENTRIES s then (0, s) else free_nats_loop nr_shrink s)"

definition get_node_info :: "u32 \<Rightarrow> f2fs_nm_info \<Rightarrow> (node_info \<times> f2fs_nm_info) option" where
  "get_node_info nid s =
     (case radix_lookup (nat_root s) nid of
        Some e \<Rightarrow> Some (\<lparr>ni_nid = nid, ni_ino = ni_ino (nat_ni e), ni_blk_addr = ni_blk_addr (nat_ni e), ni_version = ni_version (nat_ni e)\<rparr>, s)
      | None \<Rightarrow>
          let ne = (case fst (lookup_journal_in_cursum (cursum s) nid False) of
                Some i \<Rightarrow> snd (nat_j (cursum s) i)
              | None \<Rightarrow> get_current_nat_page s (START_NID nid) (unat (nid - START_NID nid)));
              ni = node_info_from_raw_nat ne \<lparr>ni_nid = nid, ni_ino = 0, ni_blk_addr = 0, ni_version = 0\<rparr> in
          do { s1 \<leftarrow> cache_nat_entry nid ne s; Some (ni, s1) })"

subsection \<open>Free node numbers\<close>

definition add_free_nid :: "u32 \<Rightarrow> bool \<Rightarrow> f2fs_nm_info \<Rightarrow> int \<times> f2fs_nm_info" where
  "add_free_nid nid build s =
     (if \<not> available_free_memory FREE_NIDS s then (-1, s)
      else if nid = 0 then (0, s)
      else if build \<and> (case radix_lookup (nat_root s) nid of
          Some ne \<Rightarrow> \<not> get_nat_flag ne IS_CHECKPOINTED \<or> ni_blk_addr (nat_ni ne) \<noteq> NULL_ADDR | None \<Rightarrow> False) then (0, s)
      else (case radix_insert nid NID_NEW (free_nid_root s) of
          None \<Rightarrow> (0, s)
        | Some root \<Rightarrow> (1, s\<lparr>free_nid_root := root, free_nid_list := free_nid_list s @ [nid], fcnt := fcnt s + 1\<rparr>)))"

definition del_from_free_nid_list :: "u32 \<Rightarrow> f2fs_nm_info \<Rightarrow> f2fs_nm_info" where
  "del_from_free_nid_list nid s =
     s\<lparr>free_nid_list := remove1 nid (free_nid_list s), free_nid_root := radix_delete nid (free_nid_root s)\<rparr>"

definition remove_free_nid :: "u32 \<Rightarrow> f2fs_nm_info \<Rightarrow> f2fs_nm_info" where
  "remove_free_nid nid s =
     (if radix_lookup (free_nid_root s) nid = Some NID_NEW
      then (let s1 = del_from_free_nid_list nid s in s1\<lparr>fcnt := fcnt s1 - 1\<rparr>) else s)"

text \<open>The loop over the entries of a NAT page ends when memory is short.\<close>

fun scan_loop :: "(nat \<Rightarrow> f2fs_nat_entry) \<Rightarrow> nat list \<Rightarrow> u32 \<Rightarrow> f2fs_nm_info \<Rightarrow> f2fs_nm_info option" where
  "scan_loop page [] start_nid s = Some s"
| "scan_loop page (i # is) start_nid s =
     (if max_nid s \<le> start_nid then Some s
      else
        let blk_addr = raw_block_addr (page i) in
        do {
          bug_on (blk_addr = NEW_ADDR);
          if blk_addr = NULL_ADDR then
            (let (r, s1) = add_free_nid start_nid True s in
             if r < 0 then Some s1 else scan_loop page is (start_nid + 1) s1)
          else scan_loop page is (start_nid + 1) s })"

definition scan_nat_page :: "(nat \<Rightarrow> f2fs_nat_entry) \<Rightarrow> u32 \<Rightarrow> f2fs_nm_info \<Rightarrow> f2fs_nm_info option" where
  "scan_nat_page nat_page start_nid s =
     scan_loop nat_page [unat (start_nid mod NAT_ENTRY_PER_BLOCK) ..< unat NAT_ENTRY_PER_BLOCK] start_nid s"

fun build_pages :: "nat \<Rightarrow> u32 \<Rightarrow> f2fs_nm_info \<Rightarrow> (u32 \<times> f2fs_nm_info) option" where
  "build_pages 0 nid s = Some (nid, s)"
| "build_pages (Suc n) nid s = do {
     s1 \<leftarrow> scan_nat_page (get_current_nat_page s nid) nid s;
     let nid1 = nid + (NAT_ENTRY_PER_BLOCK - nid mod NAT_ENTRY_PER_BLOCK);
     build_pages n (if max_nid s1 \<le> nid1 then 0 else nid1) s1 }"

definition scan_journal :: "nat \<Rightarrow> f2fs_nm_info \<Rightarrow> f2fs_nm_info" where
  "scan_journal i s =
     (let (nid, ne) = nat_j (cursum s) i in
      if raw_block_addr ne = NULL_ADDR then snd (add_free_nid nid True s) else remove_free_nid nid s)"

definition build_free_nids :: "f2fs_nm_info \<Rightarrow> f2fs_nm_info option" where
  "build_free_nids s =
     (if NAT_ENTRY_PER_BLOCK < fcnt s then Some s
      else do {
        (nid, s1) \<leftarrow> build_pages (FREE_NID_PAGES + 1) (next_scan_nid s) s;
        let s2 = s1\<lparr>next_scan_nid := nid\<rparr>;
        Some (fold scan_journal [0 ..< n_nats (cursum s2)] s2) })"

text \<open>The result of \<open>alloc_nid\<close> is the nid, or \<open>None\<close> when there are no more. It repeats
  \<open>build_free_nids\<close> until a free nid is found.\<close>

definition first_new_nid :: "f2fs_nm_info \<Rightarrow> u32 option" where
  "first_new_nid s = find (\<lambda>nid. radix_lookup (free_nid_root s) nid = Some NID_NEW) (free_nid_list s)"

partial_function (option) alloc_nid :: "f2fs_nm_info \<Rightarrow> (u32 option \<times> f2fs_nm_info) option" where
  "alloc_nid s =
     (if available_nids s < total_valid_node_count s + 1 then Some (None, s)
      else if fcnt s \<noteq> 0 then
        Option.bind (first_new_nid s) (\<lambda>nid.
          Some (Some nid, s\<lparr>free_nid_root := radix_put nid NID_ALLOC (free_nid_root s), fcnt := fcnt s - 1\<rparr>))
      else Option.bind (build_free_nids s) alloc_nid)"

declare alloc_nid.simps [code]

definition alloc_nid_done :: "u32 \<Rightarrow> f2fs_nm_info \<Rightarrow> f2fs_nm_info option" where
  "alloc_nid_done nid s = do {
     bug_on (radix_lookup (free_nid_root s) nid \<noteq> Some NID_ALLOC);
     Some (del_from_free_nid_list nid s) }"

definition alloc_nid_failed :: "u32 \<Rightarrow> f2fs_nm_info \<Rightarrow> f2fs_nm_info option" where
  "alloc_nid_failed nid s =
     (if nid = 0 then Some s
      else do {
        bug_on (radix_lookup (free_nid_root s) nid \<noteq> Some NID_ALLOC);
        Some (if \<not> available_free_memory FREE_NIDS s then del_from_free_nid_list nid s
              else s\<lparr>free_nid_root := radix_put nid NID_NEW (free_nid_root s), fcnt := fcnt s + 1\<rparr>) })"

definition next_free_nid :: "u32 \<Rightarrow> f2fs_nm_info \<Rightarrow> u32 option" where
  "next_free_nid nid s =
     (if fcnt s = 0 then Some nid else (case free_nid_list s of [] \<Rightarrow> None | n # _ \<Rightarrow> Some n))"

subsection \<open>Checkpoint\<close>

definition remove_nat_in_journal :: "nat \<Rightarrow> f2fs_nm_info \<Rightarrow> f2fs_nm_info option" where
  "remove_nat_in_journal i s =
     (let (nid, raw_ne) = nat_j (cursum s) i in
      do {
        s1 \<leftarrow> (case radix_lookup (nat_root s) nid of
          Some e \<Rightarrow> Some s
        | None \<Rightarrow> do {
            (ne, s1) \<leftarrow> grab_nat_entry nid s;
            Some (put_nat_entry nid (ne\<lparr>nat_ni := node_info_from_raw_nat raw_ne (nat_ni ne)\<rparr>) s1) });
        set_nat_cache_dirty nid s1 })"

definition remove_nats_in_journal :: "f2fs_nm_info \<Rightarrow> f2fs_nm_info option" where
  "remove_nats_in_journal s = do {
     s1 \<leftarrow> foldM remove_nat_in_journal [0 ..< n_nats (cursum s)] s;
     Some (s1\<lparr>cursum := snd (update_nats_in_cursum (- int (n_nats (cursum s))) (cursum s1))\<rparr>) }"

text \<open>The sets in the order of their sizes, given by number and size.\<close>

fun insert_set :: "u32 \<times> u32 \<Rightarrow> (u32 \<times> u32) list \<Rightarrow> (u32 \<times> u32) list" where
  "insert_set nes [] = [nes]"
| "insert_set nes (cur # head) = (if snd nes \<le> snd cur then nes # cur # head else cur # insert_set nes head)"

definition adjust_nat_entry_set :: "u32 \<times> u32 \<Rightarrow> (u32 \<times> u32) list \<Rightarrow> nat \<Rightarrow> (u32 \<times> u32) list" where
  "adjust_nat_entry_set nes head mx =
     (if mx \<le> unat (snd nes) then head @ [nes] else insert_set nes head)"

definition flush_nat_entry :: "bool \<Rightarrow> nat \<Rightarrow> u32 \<Rightarrow> u32 \<Rightarrow> f2fs_nm_info \<Rightarrow> f2fs_nm_info option" where
  "flush_nat_entry to_journal page start_nid nid s = do {
     ne \<leftarrow> radix_lookup (nat_root s) nid;
     if ni_blk_addr (nat_ni ne) = NEW_ADDR then Some s
     else
       let raw = raw_nat_from_node_info (nat_ni ne) in
       do {
         s1 \<leftarrow> (if to_journal then
             (let (off, sm) = lookup_journal_in_cursum (cursum s) nid True in
              do { o1 \<leftarrow> off; Some (s\<lparr>cursum := sm\<lparr>nat_j := (nat_j sm)(o1 := (nid, raw))\<rparr>\<rparr>) })
           else Some (s\<lparr>nat_pages := (nat_pages s)(page := (nat_pages s page)(unat (nid - start_nid) := raw))\<rparr>));
         s2 \<leftarrow> clear_nat_cache_dirty nid (put_nat_entry nid (nat_reset_flag ne) s1);
         Some (if ni_blk_addr (nat_ni ne) = NULL_ADDR then snd (add_free_nid nid False s2) else s2) } }"

definition flush_nat_entry_set :: "u32 \<Rightarrow> f2fs_nm_info \<Rightarrow> f2fs_nm_info option" where
  "flush_nat_entry_set k s = do {
     head \<leftarrow> radix_lookup (nat_set_root s) k;
     let start_nid = k * NAT_ENTRY_PER_BLOCK;
     let to_journal = has_cursum_space (cursum s) (sint (entry_cnt head));
     let (page, s1) = (if to_journal then (0, s) else get_next_nat_page start_nid s);
     s2 \<leftarrow> foldM (flush_nat_entry to_journal page start_nid) (entry_list head) s1;
     head2 \<leftarrow> radix_lookup (nat_set_root s2) k;
     Some (if entry_cnt head2 = 0 then s2\<lparr>nat_set_root := radix_delete k (nat_set_root s2)\<rparr> else s2) }"

text \<open>Each round of the loop finds at least one set more, so the number of sets bounds the rounds.\<close>

fun gang_sets :: "nat \<Rightarrow> u32 \<Rightarrow> (u32 \<times> u32) list \<Rightarrow> f2fs_nm_info \<Rightarrow> (u32 \<times> u32) list option" where
  "gang_sets 0 set_idx sets s = None"
| "gang_sets (Suc n) set_idx sets s =
     (let found = radix_gang_lookup (nat_set_root s) set_idx NATVEC_SIZE in
      if found = [] then Some sets
      else gang_sets n (fst (last found) + 1)
        (fold (\<lambda>(k, h) sets. adjust_nat_entry_set (k, entry_cnt h) sets (NAT_JOURNAL_ENTRIES - n_nats (cursum s))) found sets) s)"

definition flush_nat_entries :: "f2fs_nm_info \<Rightarrow> f2fs_nm_info option" where
  "flush_nat_entries s = do {
     s1 \<leftarrow> (if has_cursum_space (cursum s) (sint (dirty_nat_cnt s)) then Some s else remove_nats_in_journal s);
     if dirty_nat_cnt s1 = 0 then Some s1
     else do {
       sets \<leftarrow> gang_sets (length (nat_set_root s1) + 1) 0 [] s1;
       s2 \<leftarrow> foldM flush_nat_entry_set (map fst sets) s1;
       bug_on (dirty_nat_cnt s2 \<noteq> 0);
       Some s2 } }"

end
