(* ===== verification/F2fsNatSpec.thy ===== *)
theory F2fsNatSpec
  imports F2fsNat
begin

text \<open>
  The node address table as one function from node numbers to entries, whatever of it is in the
  cache, the journal or the NAT blocks. The operations of the cache keep it, the update changes it
  at one place, and the checkpoint moves all of it to the disk without touching the blocks of the
  checkpoint before.
\<close>

subsection \<open>Flags\<close>

lemma get_nat_flag_bit: "get_nat_flag e type \<longleftrightarrow> bit (nat_flag e) type"
proof -
  have "bit (nat_flag e AND push_bit type 1) n \<longleftrightarrow> n = type \<and> bit (nat_flag e) type" for n
    by (auto simp: bit_simps dest: bit_imp_le_length)
  then show ?thesis unfolding get_nat_flag_def by (metis bit_eq_iff bit_0_eq bot_apply bot_bool_def)
qed

lemma get_set_nat_flag [simp]:
  "type < 8 \<Longrightarrow> get_nat_flag (set_nat_flag type b e) type' \<longleftrightarrow> (if type' = type then b else get_nat_flag e type')"
  by (cases b) (auto simp: get_nat_flag_bit set_nat_flag_def bit_simps dest: bit_imp_le_length)

lemma set_nat_flag_ni [simp]: "nat_ni (set_nat_flag type b e) = nat_ni e"
  by (simp add: set_nat_flag_def)

lemma nat_reset_flag_simps [simp]:
  "nat_ni (nat_reset_flag e) = nat_ni e" "get_nat_flag (nat_reset_flag e) IS_DIRTY \<longleftrightarrow> get_nat_flag e IS_DIRTY"
  by (simp_all add: nat_reset_flag_def nat_flags)

lemma get_nat_flag_new [simp]: "\<not> get_nat_flag \<lparr>nat_flag = 0, nat_ni = i\<rparr> type"
  by (simp add: get_nat_flag_bit)

subsection \<open>The two copies of the NAT blocks\<close>

definition nat_addr :: "f2fs_nm_info \<Rightarrow> nat \<Rightarrow> bool \<Rightarrow> nat" where
  "nat_addr s b second = nat_blkaddr s + (2 * (b div blocks_per_seg s) + of_bool second) * blocks_per_seg s
     + b mod blocks_per_seg s"

definition nat_geometry :: "f2fs_nm_info \<Rightarrow> bool" where
  "nat_geometry s \<longleftrightarrow> blocks_per_seg s = 2 ^ log_blocks_per_seg s"

definition second_copy :: "f2fs_nm_info \<Rightarrow> nat \<Rightarrow> bool" where
  "second_copy s b = f2fs_test_bit b (nat_bitmap s)"

definition block_of :: "u32 \<Rightarrow> nat" where
  "block_of nid = unat (nid div NAT_ENTRY_PER_BLOCK)"

lemma nat_addr_inject:
  assumes "0 < blocks_per_seg s" "nat_addr s b x = nat_addr s b' x'"
  shows "b = b' \<and> x = x'"
proof -
  let ?n = "blocks_per_seg s"
  have e: "(2 * (b div ?n) + of_bool x) * ?n + b mod ?n = (2 * (b' div ?n) + of_bool x') * ?n + b' mod ?n"
    using assms(2) by (simp add: nat_addr_def)
  have "((2 * (b div ?n) + of_bool x) * ?n + b mod ?n) mod ?n = b mod ?n"
    "((2 * (b' div ?n) + of_bool x') * ?n + b' mod ?n) mod ?n = b' mod ?n" by simp_all
  then have m: "b mod ?n = b' mod ?n" using e by simp
  then have d: "2 * (b div ?n) + of_bool x = 2 * (b' div ?n) + of_bool x'" using e assms(1) by simp
  have x: "x = x'"
  proof (rule ccontr)
    assume "x \<noteq> x'"
    then show False using arg_cong[OF d, of "\<lambda>n. n mod 2"] by (cases x) auto
  qed
  then have "b div ?n = b' div ?n" using d by simp
  then show ?thesis using m x by (metis div_mult_mod_eq)
qed

lemma current_nat_addr_eq:
  assumes "nat_geometry s"
  shows "current_nat_addr s nid = nat_addr s (block_of nid) (second_copy s (block_of nid))"
proof -
  have "push_bit (log_blocks_per_seg s) 1 - (1 :: nat) = mask (log_blocks_per_seg s)"
    by (simp add: mask_eq_exp_minus_1 push_bit_eq_mult)
  then have "n AND (push_bit (log_blocks_per_seg s) 1 - 1) = n mod blocks_per_seg s" for n :: nat
    using assms by (simp add: nat_geometry_def take_bit_eq_mod flip: take_bit_eq_mask)
  then show ?thesis using assms
    by (simp add: current_nat_addr_def nat_addr_def NAT_BLOCK_OFFSET_def block_of_def second_copy_def Let_def
        drop_bit_eq_div push_bit_eq_mult nat_geometry_def algebra_simps)
qed

lemma next_nat_addr_eq:
  assumes "nat_geometry s"
  shows "next_nat_addr s (nat_addr s b x) = nat_addr s b (\<not> x)"
proof -
  let ?n = "blocks_per_seg s"
  have n: "0 < ?n" "?n = 2 ^ log_blocks_per_seg s" using assms by (simp_all add: nat_geometry_def)
  have a: "nat_addr s b x - nat_blkaddr s = (2 * (b div ?n) + of_bool x) * ?n + b mod ?n" by (simp add: nat_addr_def)
  have "drop_bit (log_blocks_per_seg s) m = m div ?n" for m :: nat using n(2) by (simp add: drop_bit_eq_div)
  moreover have "((2 * (b div ?n) + of_bool x) * ?n + b mod ?n) div ?n = 2 * (b div ?n) + of_bool x"
    using n(1) by simp
  ultimately have "drop_bit (log_blocks_per_seg s) (nat_addr s b x - nat_blkaddr s) = 2 * (b div ?n) + of_bool x"
    by (simp only: a)
  then have "drop_bit (log_blocks_per_seg s) (nat_addr s b x - nat_blkaddr s) mod 2 = of_bool x" by (cases x) simp_all
  then show ?thesis using n(1) by (cases x) (simp_all add: next_nat_addr_def Let_def nat_addr_def)
qed

lemma second_copy_next: "second_copy (set_to_next_nat nid s) b \<longleftrightarrow> second_copy s b \<noteq> (b = block_of nid)"
  by (auto simp: set_to_next_nat_def second_copy_def block_of_def NAT_BLOCK_OFFSET_def Let_def)

subsection \<open>The table\<close>

definition page_view :: "f2fs_nm_info \<Rightarrow> u32 \<Rightarrow> f2fs_nat_entry" where
  "page_view s nid = nat_pages s (nat_addr s (block_of nid) (second_copy s (block_of nid))) (unat (nid mod NAT_ENTRY_PER_BLOCK))"

definition disk_view :: "f2fs_nm_info \<Rightarrow> u32 \<Rightarrow> f2fs_nat_entry" where
  "disk_view s nid = (case find_in_journal (cursum s) nid of Some i \<Rightarrow> snd (nat_j (cursum s) i) | None \<Rightarrow> page_view s nid)"

definition nat_view :: "f2fs_nm_info \<Rightarrow> u32 \<Rightarrow> f2fs_nat_entry" where
  "nat_view s nid = (case radix_lookup (nat_root s) nid of
     Some e \<Rightarrow> raw_nat_from_node_info (nat_ni e) | None \<Rightarrow> disk_view s nid)"

definition is_dirty :: "f2fs_nm_info \<Rightarrow> u32 \<Rightarrow> bool" where
  "is_dirty s nid \<longleftrightarrow> (\<exists>e. radix_lookup (nat_root s) nid = Some e \<and> get_nat_flag e IS_DIRTY)"

definition set_list :: "f2fs_nm_info \<Rightarrow> u32 \<Rightarrow> u32 list" where
  "set_list s k = (case radix_lookup (nat_set_root s) k of Some h \<Rightarrow> entry_list h | None \<Rightarrow> [])"

definition dirty_total :: "f2fs_nm_info \<Rightarrow> nat" where
  "dirty_total s = (\<Sum>(k, h) \<leftarrow> nat_set_root s. length (entry_list h))"

text \<open>The invariant of the cache: each cached entry has its own number, the dirty ones are in the set of
  their block and the clean ones on the clean list; the counters count. The clean entries outside
  \<open>X\<close> are those on the disk.\<close>

definition nat_inv :: "u32 set \<Rightarrow> f2fs_nm_info \<Rightarrow> bool" where
  "nat_inv X s \<longleftrightarrow> radix_ok (nat_root s) \<and> radix_ok (nat_set_root s) \<and> nat_geometry s
     \<and> (\<forall>nid e. radix_lookup (nat_root s) nid = Some e \<longrightarrow> ni_nid (nat_ni e) = nid)
     \<and> (\<forall>k nid. nid \<in> set (set_list s k) \<longleftrightarrow> is_dirty s nid \<and> k = nid div NAT_ENTRY_PER_BLOCK)
     \<and> (\<forall>k h. radix_lookup (nat_set_root s) k = Some h \<longrightarrow> distinct (entry_list h) \<and> entry_cnt h = of_nat (length (entry_list h)))
     \<and> dirty_nat_cnt s = of_nat (dirty_total s)
     \<and> distinct (nat_entries s)
     \<and> (\<forall>nid. nid \<in> set (nat_entries s) \<longleftrightarrow> radix_lookup (nat_root s) nid \<noteq> None \<and> \<not> is_dirty s nid)
     \<and> (\<forall>nid e. radix_lookup (nat_root s) nid = Some e \<and> \<not> get_nat_flag e IS_DIRTY \<and> nid \<notin> X
          \<longrightarrow> raw_nat_from_node_info (nat_ni e) = disk_view s nid)
     \<and> n_nats (cursum s) \<le> NAT_JOURNAL_ENTRIES
     \<and> (\<forall>k. radix_lookup (nat_set_root s) k \<noteq> None \<longrightarrow> k \<le> - 1 div NAT_ENTRY_PER_BLOCK)"

definition same_disk :: "f2fs_nm_info \<Rightarrow> f2fs_nm_info \<Rightarrow> bool" where
  "same_disk s t \<longleftrightarrow> cursum t = cursum s \<and> nat_pages t = nat_pages s \<and> nat_bitmap t = nat_bitmap s
     \<and> nat_blkaddr t = nat_blkaddr s \<and> log_blocks_per_seg t = log_blocks_per_seg s \<and> blocks_per_seg t = blocks_per_seg s"

lemma same_disk_view:
  assumes "same_disk s t"
  shows "disk_view t nid = disk_view s nid" "nat_geometry t \<longleftrightarrow> nat_geometry s" "page_view t nid = page_view s nid"
  using assms by (simp_all add: same_disk_def disk_view_def page_view_def nat_addr_def second_copy_def nat_geometry_def
      cong: option.case_cong)

lemma same_disk_refl [simp]: "same_disk s s"
  by (simp add: same_disk_def)

lemma same_disk_trans: "same_disk s t \<Longrightarrow> same_disk t u \<Longrightarrow> same_disk s u"
  by (simp add: same_disk_def)

subsection \<open>Sums over a radix tree\<close>

lemma sum_radix_put:
  fixes f :: "'a \<Rightarrow> nat"
  assumes "radix_ok t"
  shows "(\<Sum>(j, w) \<leftarrow> radix_put k v t. f w) + (case radix_lookup t k of None \<Rightarrow> 0 | Some w \<Rightarrow> f w)
    = (\<Sum>(j, w) \<leftarrow> t. f w) + f v"
  using assms unfolding radix_lookup_def radix_ok_def
proof (induction k v t rule: radix_put.induct)
  case (2 k v i w t)
  have "k < i \<Longrightarrow> map_of t k = None" using 2(2) by (force simp: map_of_eq_None_iff)
  then show ?case using 2 by (auto split: option.splits)
qed simp

lemma sum_radix_delete:
  fixes f :: "'a \<Rightarrow> nat"
  assumes "radix_ok t"
  shows "(\<Sum>(j, w) \<leftarrow> radix_delete k t. f w) + (case radix_lookup t k of None \<Rightarrow> 0 | Some w \<Rightarrow> f w) = (\<Sum>(j, w) \<leftarrow> t. f w)"
  using assms unfolding radix_lookup_def radix_ok_def radix_delete_def
proof (induction t)
  case (Cons p t)
  have "filter (\<lambda>(j, w). j \<noteq> fst p) t = t" using Cons(2) by (force intro: filter_True)
  then show ?case using Cons by (cases p) (auto split: option.splits)
qed simp

lemma sum_radix_member: "radix_lookup t k = Some v \<Longrightarrow> f v \<le> (\<Sum>(j, w) \<leftarrow> t. f w :: nat)"
  by (induction t) (auto simp: radix_lookup_def split: if_splits)

lemma unat_mod_block: "unat (nid - START_NID nid) = unat (nid mod NAT_ENTRY_PER_BLOCK)"
  by (simp add: START_NID_def minus_div_mult_eq_mod)

lemma block_of_start: "block_of (START_NID nid) = block_of nid"
proof -
  have "unat nid div 455 * 455 \<le> unat nid" by (rule div_times_less_eq_dividend)
  moreover have "unat nid < 4294967296" using unsigned_less[of nid] by simp
  ultimately have "unat nid div 455 * 455 < 4294967296" by linarith
  then have "unat (nid div NAT_ENTRY_PER_BLOCK * NAT_ENTRY_PER_BLOCK) = unat nid div 455 * 455"
    unfolding NAT_ENTRY_PER_BLOCK_def by (subst unat_mult_id) (simp_all add: unat_div)
  then show ?thesis by (simp add: block_of_def START_NID_def NAT_ENTRY_PER_BLOCK_def unat_div)
qed

lemma page_view_current:
  assumes "nat_geometry s"
  shows "get_current_nat_page s (START_NID nid) (unat (nid - START_NID nid)) = page_view s nid"
  using assms by (simp add: get_current_nat_page_def current_nat_addr_eq page_view_def unat_mod_block block_of_start)

subsection \<open>Operations of the cache\<close>

lemma nat_invD:
  assumes "nat_inv X s"
  shows "radix_ok (nat_root s)" "radix_ok (nat_set_root s)" "nat_geometry s"
    "radix_lookup (nat_root s) nid = Some e \<Longrightarrow> ni_nid (nat_ni e) = nid"
    "nid \<in> set (set_list s k) \<longleftrightarrow> is_dirty s nid \<and> k = nid div NAT_ENTRY_PER_BLOCK"
    "radix_lookup (nat_set_root s) k = Some h \<Longrightarrow> distinct (entry_list h)"
    "radix_lookup (nat_set_root s) k = Some h \<Longrightarrow> entry_cnt h = of_nat (length (entry_list h))"
    "dirty_nat_cnt s = of_nat (dirty_total s)" "distinct (nat_entries s)"
    "nid \<in> set (nat_entries s) \<longleftrightarrow> radix_lookup (nat_root s) nid \<noteq> None \<and> \<not> is_dirty s nid"
    "radix_lookup (nat_root s) nid = Some e \<Longrightarrow> \<not> get_nat_flag e IS_DIRTY \<Longrightarrow> nid \<notin> X \<Longrightarrow>
      raw_nat_from_node_info (nat_ni e) = disk_view s nid"
    "n_nats (cursum s) \<le> NAT_JOURNAL_ENTRIES"
    "radix_lookup (nat_set_root s) k = Some h \<Longrightarrow> k \<le> - 1 div NAT_ENTRY_PER_BLOCK"
  using assms unfolding nat_inv_def by blast+

lemma set_of_le: "nid div NAT_ENTRY_PER_BLOCK \<le> - 1 div (NAT_ENTRY_PER_BLOCK :: u32)"
proof -
  have "unat nid < 4294967296" using unsigned_less[of nid] by simp
  then have "unat nid div 455 \<le> 4294967295 div 455" by (intro div_le_mono) simp
  then show ?thesis by (simp add: word_le_nat_alt unat_div NAT_ENTRY_PER_BLOCK_def)
qed

lemma nat_invI:
  assumes "radix_ok (nat_root s)" "radix_ok (nat_set_root s)" "nat_geometry s"
    "\<And>nid e. radix_lookup (nat_root s) nid = Some e \<Longrightarrow> ni_nid (nat_ni e) = nid"
    "\<And>nid k. nid \<in> set (set_list s k) \<longleftrightarrow> is_dirty s nid \<and> k = nid div NAT_ENTRY_PER_BLOCK"
    "\<And>k h. radix_lookup (nat_set_root s) k = Some h \<Longrightarrow> distinct (entry_list h) \<and> entry_cnt h = of_nat (length (entry_list h))"
    "dirty_nat_cnt s = of_nat (dirty_total s)" "distinct (nat_entries s)"
    "\<And>nid. nid \<in> set (nat_entries s) \<longleftrightarrow> radix_lookup (nat_root s) nid \<noteq> None \<and> \<not> is_dirty s nid"
    "\<And>nid e. radix_lookup (nat_root s) nid = Some e \<Longrightarrow> \<not> get_nat_flag e IS_DIRTY \<Longrightarrow> nid \<notin> X \<Longrightarrow>
      raw_nat_from_node_info (nat_ni e) = disk_view s nid"
    "n_nats (cursum s) \<le> NAT_JOURNAL_ENTRIES"
    "\<And>k h. radix_lookup (nat_set_root s) k = Some h \<Longrightarrow> k \<le> - 1 div NAT_ENTRY_PER_BLOCK"
  shows "nat_inv X s"
  using assms unfolding nat_inv_def by blast

lemma nat_inv_mono: "nat_inv X s \<Longrightarrow> X \<subseteq> Y \<Longrightarrow> nat_inv Y s"
  unfolding nat_inv_def by blast

lemma set_list_put:
  assumes "radix_ok (nat_set_root s)"
  shows "set_list (s\<lparr>nat_set_root := radix_put k h (nat_set_root s)\<rparr>) j = (if j = k then entry_list h else set_list s j)"
  using assms by (simp add: set_list_def radix_lookup_put)

lemma is_dirty_lookup: "radix_lookup (nat_root s) nid = Some e \<Longrightarrow> is_dirty s nid \<longleftrightarrow> get_nat_flag e IS_DIRTY"
  by (simp add: is_dirty_def)

lemma is_dirty_put:
  assumes "radix_ok (nat_root s)"
  shows "is_dirty (put_nat_entry nid e s) n \<longleftrightarrow> (if n = nid then get_nat_flag e IS_DIRTY else is_dirty s n)"
  using assms by (simp add: is_dirty_def put_nat_entry_def radix_lookup_put)

lemma put_nat_entry_frame [simp]:
  "same_disk s (put_nat_entry nid e s)" "nat_set_root (put_nat_entry nid e s) = nat_set_root s"
  "nat_entries (put_nat_entry nid e s) = nat_entries s" "dirty_nat_cnt (put_nat_entry nid e s) = dirty_nat_cnt s"
  "free_nid_root (put_nat_entry nid e s) = free_nid_root s" "free_nid_list (put_nat_entry nid e s) = free_nid_list s"
  "cursum (put_nat_entry nid e s) = cursum s"
  by (simp_all add: put_nat_entry_def same_disk_def)

lemma put_nat_entry_lookup:
  "radix_ok (nat_root s) \<Longrightarrow> radix_lookup (nat_root (put_nat_entry nid e s)) n = (if n = nid then Some e else radix_lookup (nat_root s) n)"
  by (simp add: put_nat_entry_def radix_lookup_put)

lemma put_nat_entry_inv:
  assumes inv: "nat_inv X s" and e0: "radix_lookup (nat_root s) nid = Some e0"
    and e: "ni_nid (nat_ni e) = nid" "get_nat_flag e IS_DIRTY \<longleftrightarrow> get_nat_flag e0 IS_DIRTY"
    and Y: "X - {nid} \<subseteq> Y" "get_nat_flag e IS_DIRTY \<or> raw_nat_from_node_info (nat_ni e) = disk_view s nid \<or> nid \<in> Y"
  shows "nat_inv Y (put_nat_entry nid e s)"
proof -
  note D = nat_invD[OF inv]
  let ?t = "put_nat_entry nid e s"
  have d: "is_dirty ?t n \<longleftrightarrow> is_dirty s n" for n
    using e(2) is_dirty_lookup[OF e0] by (simp add: is_dirty_put[OF D(1)])
  have sl: "set_list ?t k = set_list s k" for k by (simp add: set_list_def)
  have r: "radix_ok (nat_root ?t)" using D(1) by (auto simp: put_nat_entry_def)
  have sd: "disk_view ?t n = disk_view s n" "nat_geometry ?t \<longleftrightarrow> nat_geometry s" for n
    using same_disk_view[OF put_nat_entry_frame(1)] by simp_all
  note look = put_nat_entry_lookup[OF D(1)]
  show ?thesis
  proof (rule nat_invI)
    fix n e'
    assume "radix_lookup (nat_root ?t) n = Some e'" "\<not> get_nat_flag e' IS_DIRTY" "n \<notin> Y"
    then show "raw_nat_from_node_info (nat_ni e') = disk_view ?t n"
      using D(11)[of n e'] Y by (auto simp: look sd split: if_splits)
  qed (use D e(1) e0 in \<open>auto simp: r sd d sl look dirty_total_def split: if_splits\<close>)
qed

lemma grab_nat_entry_ok:
  assumes inv: "nat_inv X s" and new: "radix_lookup (nat_root s) nid = None"
  obtains e t where "grab_nat_entry nid s = Some (e, t)" "nat_inv (insert nid X) t" "same_disk s t"
    "\<And>n. radix_lookup (nat_root t) n = (if n = nid then Some e else radix_lookup (nat_root s) n)"
    "ni_nid (nat_ni e) = nid" "\<not> get_nat_flag e IS_DIRTY" "\<And>n. is_dirty t n \<longleftrightarrow> is_dirty s n"
    "nat_set_root t = nat_set_root s" "dirty_nat_cnt t = dirty_nat_cnt s"
    "free_nid_root t = free_nid_root s" "free_nid_list t = free_nid_list s"
proof -
  note D = nat_invD[OF inv]
  let ?e = "nat_reset_flag \<lparr>nat_flag = 0, nat_ni = \<lparr>ni_nid = nid, ni_ino = 0, ni_blk_addr = 0, ni_version = 0\<rparr>\<rparr>"
  define t where "t = s\<lparr>nat_root := radix_put nid ?e (nat_root s), nat_entries := nat_entries s @ [nid], nat_cnt := nat_cnt s + 1\<rparr>"
  have r: "radix_ok (nat_root t)" using D(1) by (auto simp: t_def)
  have look: "radix_lookup (nat_root t) n = (if n = nid then Some ?e else radix_lookup (nat_root s) n)" for n
    using D(1) by (simp add: t_def radix_lookup_put)
  have d: "is_dirty t n \<longleftrightarrow> is_dirty s n" for n using new by (auto simp: is_dirty_def look)
  have f: "nat_set_root t = nat_set_root s" "dirty_nat_cnt t = dirty_nat_cnt s" "nat_entries t = nat_entries s @ [nid]"
    "free_nid_root t = free_nid_root s" "free_nid_list t = free_nid_list s" "cursum t = cursum s" "same_disk s t"
    by (simp_all add: t_def same_disk_def)
  have sl: "set_list t k = set_list s k" for k by (simp add: set_list_def f)
  have "nid \<notin> set (nat_entries s)" "\<not> is_dirty s nid" using D(10)[of nid] new by (simp_all add: is_dirty_def)
  then have inv1: "nat_inv (insert nid X) t"
    by (intro nat_invI) (use D r in \<open>auto simp: look d sl f same_disk_view[OF f(7)] dirty_total_def split: if_splits\<close>)
  have "grab_nat_entry nid s = Some (?e, t)" using new by (simp add: grab_nat_entry_def radix_insert_def t_def Let_def)
  then show thesis by (rule that[OF _ inv1 f(7) look]) (simp_all add: d f)
qed

lemma set_nat_cache_dirty_ok:
  assumes inv: "nat_inv X s" and e: "radix_lookup (nat_root s) nid = Some e"
  obtains t where "set_nat_cache_dirty nid s = Some t" "nat_inv (X - {nid}) t" "same_disk s t"
    "\<And>n. radix_lookup (nat_root t) n = (if n = nid then Some (set_nat_flag IS_DIRTY True e) else radix_lookup (nat_root s) n)"
    "\<And>n. is_dirty t n \<longleftrightarrow> n = nid \<or> is_dirty s n"
    "dirty_total t = (if is_dirty s nid then dirty_total s else Suc (dirty_total s))"
    "free_nid_root t = free_nid_root s" "free_nid_list t = free_nid_list s"
proof (cases "is_dirty s nid")
  case True
  note D = nat_invD[OF inv]
  have "set_nat_flag IS_DIRTY True e = e"
  proof -
    have "bit (nat_flag e) IS_DIRTY" using True e by (simp add: is_dirty_lookup get_nat_flag_bit)
    then have "nat_flag e OR push_bit IS_DIRTY 1 = nat_flag e"
      by (intro bit_eqI) (auto simp: bit_simps)
    then show ?thesis by (simp add: set_nat_flag_def)
  qed
  moreover have "nat_inv (X - {nid}) s"
    using True by (intro nat_invI) (use D e in \<open>auto simp: is_dirty_lookup\<close>)
  ultimately show thesis using True e
    by (intro that[of s]) (auto simp: set_nat_cache_dirty_def is_dirty_lookup)
next
  case False
  note D = nat_invD[OF inv]
  let ?k = "nid div NAT_ENTRY_PER_BLOCK"
  define h where "h = (case radix_lookup (nat_set_root s) ?k of Some h \<Rightarrow> h | None \<Rightarrow> \<lparr>entry_list = [], entry_cnt = 0\<rparr>)"
  define h1 where "h1 = \<lparr>entry_list = entry_list h @ [nid], entry_cnt = entry_cnt h + 1\<rparr>"
  define t where "t = s\<lparr>nat_entries := remove1 nid (nat_entries s), nat_set_root := radix_put ?k h1 (nat_set_root s),
     dirty_nat_cnt := dirty_nat_cnt s + 1, nat_root := radix_put nid (set_nat_flag IS_DIRTY True e) (nat_root s)\<rparr>"
  have g: "set_nat_cache_dirty nid s = Some t"
    using e False D(4)[OF e] by (simp add: set_nat_cache_dirty_def is_dirty_lookup Let_def t_def h1_def h_def NAT_BLOCK_OFFSET_def)
  have f: "same_disk s t" "free_nid_root t = free_nid_root s" "free_nid_list t = free_nid_list s"
    "cursum t = cursum s" "nat_entries t = remove1 nid (nat_entries s)" "dirty_nat_cnt t = dirty_nat_cnt s + 1"
    by (simp_all add: t_def same_disk_def)
  have r: "radix_ok (nat_root t)" "radix_ok (nat_set_root t)" using D(1,2) by (auto simp: t_def)
  have look: "radix_lookup (nat_root t) n = (if n = nid then Some (set_nat_flag IS_DIRTY True e) else radix_lookup (nat_root s) n)" for n
    using D(1) by (simp add: t_def radix_lookup_put)
  have d: "is_dirty t n \<longleftrightarrow> n = nid \<or> is_dirty s n" for n
    by (auto simp: is_dirty_def look nat_flags)
  have hl: "entry_list h = set_list s ?k" by (simp add: h_def set_list_def split: option.splits)
  have look2: "radix_lookup (nat_set_root t) k = (if k = ?k then Some h1 else radix_lookup (nat_set_root s) k)" for k
    using D(2) by (simp add: t_def radix_lookup_put)
  have sl: "set_list t k = (if k = ?k then set_list s k @ [nid] else set_list s k)" for k
    by (simp add: set_list_def look2 h1_def hl[unfolded set_list_def])
  have hc: "distinct (entry_list h)" "entry_cnt h = of_nat (length (entry_list h))"
    using D(6,7) by (auto simp: h_def split: option.splits)
  have tot: "dirty_total t = Suc (dirty_total s)"
    using sum_radix_put[OF D(2), of "\<lambda>h. length (entry_list h)" ?k h1]
    by (simp add: dirty_total_def t_def h1_def h_def split: option.splits)
  have "nid \<notin> set (entry_list h)" using D(5)[of nid ?k] False by (simp add: hl)
  then have h1: "distinct (entry_list h1)" "entry_cnt h1 = of_nat (length (entry_list h1))"
    using hc by (simp_all add: h1_def)
  have "nat_inv (X - {nid}) t"
    by (intro nat_invI) (use D r h1 e set_of_le in \<open>auto simp: look d sl look2 f same_disk_view[OF f(1)] tot nat_flags split: if_splits\<close>)
  then show thesis by (rule that[OF g _ f(1) look d _ f(2,3)]) (simp add: tot False)
qed

lemma clear_nat_cache_dirty_ok:
  assumes inv: "nat_inv X s" and e: "radix_lookup (nat_root s) nid = Some e" "get_nat_flag e IS_DIRTY"
    and disk: "raw_nat_from_node_info (nat_ni e) = disk_view s nid \<or> nid \<in> X"
  obtains t where "clear_nat_cache_dirty nid s = Some t" "nat_inv X t" "same_disk s t"
    "\<And>n. radix_lookup (nat_root t) n = (if n = nid then Some (set_nat_flag IS_DIRTY False e) else radix_lookup (nat_root s) n)"
    "\<And>n. is_dirty t n \<longleftrightarrow> n \<noteq> nid \<and> is_dirty s n" "dirty_total s = Suc (dirty_total t)"
    "\<And>k. set_list t k = (if k = nid div NAT_ENTRY_PER_BLOCK then remove1 nid (set_list s k) else set_list s k)"
    "\<And>k. radix_lookup (nat_set_root t) k = None \<longleftrightarrow> radix_lookup (nat_set_root s) k = None"
    "map fst (nat_set_root t) = map fst (nat_set_root s)"
    "free_nid_root t = free_nid_root s" "free_nid_list t = free_nid_list s"
proof -
  note D = nat_invD[OF inv]
  let ?k = "nid div NAT_ENTRY_PER_BLOCK"
  have "nid \<in> set (set_list s ?k)" using D(5)[of nid ?k] e by (simp add: is_dirty_lookup)
  then obtain h where h: "radix_lookup (nat_set_root s) ?k = Some h" "nid \<in> set (entry_list h)"
    by (cases "radix_lookup (nat_set_root s) ?k") (auto simp: set_list_def)
  define h1 where "h1 = \<lparr>entry_list = remove1 nid (entry_list h), entry_cnt = entry_cnt h - 1\<rparr>"
  define t where "t = s\<lparr>nat_entries := nat_entries s @ [nid], nat_set_root := radix_put ?k h1 (nat_set_root s),
     dirty_nat_cnt := dirty_nat_cnt s - 1, nat_root := radix_put nid (set_nat_flag IS_DIRTY False e) (nat_root s)\<rparr>"
  have g: "clear_nat_cache_dirty nid s = Some t"
    using e h D(4)[OF e(1)] by (simp add: clear_nat_cache_dirty_def t_def h1_def Let_def)
  have f: "same_disk s t" "free_nid_root t = free_nid_root s" "free_nid_list t = free_nid_list s"
    "cursum t = cursum s" "nat_entries t = nat_entries s @ [nid]" "dirty_nat_cnt t = dirty_nat_cnt s - 1"
    by (simp_all add: t_def same_disk_def)
  have r: "radix_ok (nat_root t)" "radix_ok (nat_set_root t)" using D(1,2) by (auto simp: t_def)
  have look: "radix_lookup (nat_root t) n = (if n = nid then Some (set_nat_flag IS_DIRTY False e) else radix_lookup (nat_root s) n)" for n
    using D(1) by (simp add: t_def radix_lookup_put)
  have d: "is_dirty t n \<longleftrightarrow> n \<noteq> nid \<and> is_dirty s n" for n
    by (auto simp: is_dirty_def look nat_flags)
  have look2: "radix_lookup (nat_set_root t) k = (if k = ?k then Some h1 else radix_lookup (nat_set_root s) k)" for k
    using D(2) by (simp add: t_def radix_lookup_put)
  have sl: "set_list t k = (if k = ?k then remove1 nid (set_list s k) else set_list s k)" for k
    using h by (simp add: set_list_def look2 h1_def)
  have hc: "distinct (entry_list h)" "entry_cnt h = of_nat (length (entry_list h))" using D(6,7)[OF h(1)] by simp_all
  obtain m where m: "length (entry_list h) = Suc m" using h(2) by (cases "entry_list h") auto
  then have h1: "distinct (entry_list h1)" "entry_cnt h1 = of_nat (length (entry_list h1))" "length (entry_list h1) = m"
    using hc h(2) by (simp_all add: h1_def length_remove1)
  have tot: "dirty_total s = Suc (dirty_total t)"
    using sum_radix_put[OF D(2), of "\<lambda>h. length (entry_list h)" ?k h1] m h1(3)
    by (simp add: dirty_total_def t_def h)
  have nc: "nid \<notin> set (nat_entries s)" using D(10)[of nid] e by (simp add: is_dirty_lookup)
  have ent: "n \<in> set (nat_entries t) \<longleftrightarrow> radix_lookup (nat_root t) n \<noteq> None \<and> \<not> is_dirty t n" for n
    using D(10)[of n] by (auto simp: f d look)
  have sls: "n \<in> set (set_list t k) \<longleftrightarrow> is_dirty t n \<and> k = n div NAT_ENTRY_PER_BLOCK" for n k
  proof -
    have "distinct (set_list s ?k)" using hc(1) h(1) by (simp add: set_list_def)
    then show ?thesis using D(5)[of n] by (auto simp: sl d)
  qed
  have cnt: "dirty_nat_cnt t = of_nat (dirty_total t)" using D(8) tot by (simp add: f)
  have fst: "map fst (nat_set_root t) = map fst (nat_set_root s)"
    using map_fst_radix_put[of "nat_set_root s" ?k h1] h(1) D(2) by (simp add: t_def)
  have "nat_inv X t"
    by (intro nat_invI ent sls cnt)
      (use D r h1 e disk nc set_of_le in \<open>auto simp: look look2 f same_disk_view[OF f(1)] nat_flags split: if_splits\<close>)
  then show thesis by (rule that[OF g _ f(1) look d tot sl _ fst f(2,3)]) (simp add: look2 h)
qed

lemma del_from_nat_cache_ok:
  assumes inv: "nat_inv X s" and nid: "nid \<in> set (nat_entries s)"
  shows "nat_inv X (del_from_nat_cache nid s)" "same_disk s (del_from_nat_cache nid s)"
    "nid \<notin> X \<Longrightarrow> nat_view (del_from_nat_cache nid s) n = nat_view s n"
    "is_dirty (del_from_nat_cache nid s) n \<longleftrightarrow> is_dirty s n"
proof -
  note D = nat_invD[OF inv]
  obtain e where e: "radix_lookup (nat_root s) nid = Some e" "\<not> get_nat_flag e IS_DIRTY"
    using D(10)[of nid] nid by (auto simp: is_dirty_lookup)
  define t where "t = del_from_nat_cache nid s"
  have look: "radix_lookup (nat_root t) n = (if n = nid then None else radix_lookup (nat_root s) n)" for n
    by (simp add: t_def del_from_nat_cache_def radix_lookup_delete)
  have f: "same_disk s t" "nat_set_root t = nat_set_root s" "dirty_nat_cnt t = dirty_nat_cnt s" "cursum t = cursum s"
    "nat_entries t = remove1 nid (nat_entries s)" by (simp_all add: t_def del_from_nat_cache_def same_disk_def)
  have d: "is_dirty t n \<longleftrightarrow> is_dirty s n" for n using e by (auto simp: is_dirty_def look)
  have r: "radix_ok (nat_root t)" using D(1) by (auto simp: t_def del_from_nat_cache_def)
  have sl: "set_list t k = set_list s k" for k by (simp add: set_list_def f)
  show "nat_inv X t" using D(9) e
    by (intro nat_invI) (use D r in \<open>auto simp: look d sl f same_disk_view[OF f(1)] dirty_total_def is_dirty_lookup split: if_splits\<close>)
  show "same_disk s t" by (rule f(1))
  show "is_dirty t n \<longleftrightarrow> is_dirty s n" by (rule d)
  show "nid \<notin> X \<Longrightarrow> nat_view t n = nat_view s n"
    using D(11)[OF e] e by (auto simp: nat_view_def look same_disk_view[OF f(1)] split: option.splits)
qed

end
