(* ===== verification/F2fsFlush.thy ===== *)
theory F2fsFlush
  imports F2fsNatSpec "HOL-Library.Multiset"
begin

text \<open>
  The checkpoint of the node address table: what \<open>flush_nat_entries\<close> leaves in the journal and in the
  NAT blocks.
\<close>

subsection \<open>The journal\<close>

definition journal_view :: "f2fs_summary_block \<Rightarrow> u32 \<Rightarrow> f2fs_nat_entry option" where
  "journal_view sm nid = map_option (\<lambda>i. snd (nat_j sm i)) (find_in_journal sm nid)"

definition journal_nids :: "f2fs_summary_block \<Rightarrow> u32 set" where
  "journal_nids sm = (\<lambda>i. fst (nat_j sm i)) ` {..<n_nats sm}"

lemma find_append: "find P (xs @ ys) = (case find P xs of None \<Rightarrow> find P ys | r \<Rightarrow> r)"
  by (induction xs) auto

lemma find_cong_set: "(\<And>x. x \<in> set xs \<Longrightarrow> P x \<longleftrightarrow> Q x) \<Longrightarrow> find P xs = find Q xs"
  by (induction xs) auto

lemma find_in_journal_Some: "find_in_journal sm nid = Some i \<Longrightarrow> i < n_nats sm \<and> fst (nat_j sm i) = nid"
  by (auto simp: find_in_journal_def find_Some_iff)

lemma find_in_journal_None: "find_in_journal sm nid = None \<longleftrightarrow> nid \<notin> journal_nids sm"
  by (auto simp: find_in_journal_def find_None_iff journal_nids_def)

lemma journal_view_None: "journal_view sm nid = None \<longleftrightarrow> nid \<notin> journal_nids sm"
  by (simp add: journal_view_def find_in_journal_None)

lemma disk_view_journal: "disk_view s nid = (case journal_view (cursum s) nid of Some r \<Rightarrow> r | None \<Rightarrow> page_view s nid)"
  by (simp add: disk_view_def journal_view_def split: option.splits)

lemma journal_put:
  assumes "nid \<in> journal_nids sm \<or> n_nats sm < NAT_JOURNAL_ENTRIES"
  obtains off sm1 where "lookup_journal_in_cursum sm nid True = (Some off, sm1)"
    "\<And>n. journal_view (sm1\<lparr>nat_j := (nat_j sm1)(off := (nid, raw))\<rparr>) n = (if n = nid then Some raw else journal_view sm n)"
    "journal_nids (sm1\<lparr>nat_j := (nat_j sm1)(off := (nid, raw))\<rparr>) = insert nid (journal_nids sm)"
    "n_nats sm1 = (if nid \<in> journal_nids sm then n_nats sm else Suc (n_nats sm))"
proof (cases "find_in_journal sm nid")
  case (Some i)
  note i = find_in_journal_Some[OF Some]
  let ?s = "sm\<lparr>nat_j := (nat_j sm)(i := (nid, raw))\<rparr>"
  have f: "find_in_journal ?s n = find_in_journal sm n" for n
    using i find_cong_set[of "[0 ..< n_nats sm]" "\<lambda>i. fst (nat_j ?s i) = n" "\<lambda>i. fst (nat_j sm i) = n"]
    by (simp add: find_in_journal_def)
  have "journal_view ?s n = (if n = nid then Some raw else journal_view sm n)" for n
    using Some i find_in_journal_Some[of sm n]
    by (cases "find_in_journal sm n") (auto simp: journal_view_def f)
  moreover have "journal_nids ?s = journal_nids sm" using i by (auto simp: journal_nids_def)
  moreover have "nid \<in> journal_nids sm" using find_in_journal_None[of sm nid] Some by simp
  ultimately show thesis using Some that[of i sm] by (auto simp: lookup_journal_in_cursum_def insert_absorb)
next
  case None
  then have new: "nid \<notin> journal_nids sm" by (simp add: find_in_journal_None)
  let ?m = "n_nats sm"
  let ?sm1 = "sm\<lparr>n_nats := Suc ?m\<rparr>"
  let ?s = "?sm1\<lparr>nat_j := (nat_j ?sm1)(?m := (nid, raw))\<rparr>"
  have "find_in_journal ?s n = (case find_in_journal sm n of None \<Rightarrow> if n = nid then Some ?m else None | r \<Rightarrow> r)" for n
  proof -
    have "find (\<lambda>i. fst (nat_j ?s i) = n) [0 ..< ?m] = find_in_journal sm n"
      unfolding find_in_journal_def by (rule find_cong_set) auto
    then show ?thesis by (simp add: find_in_journal_def find_append split: option.splits)
  qed
  then have v: "journal_view ?s n = (if n = nid then Some raw else journal_view sm n)" for n
    using None find_in_journal_Some[of sm n] by (cases "find_in_journal sm n") (auto simp: journal_view_def)
  have "journal_nids ?s = insert nid (journal_nids sm)" by (auto simp: journal_nids_def lessThan_Suc)
  moreover have "lookup_journal_in_cursum sm nid True = (Some ?m, ?sm1)"
    using None assms new by (simp add: lookup_journal_in_cursum_def update_nats_in_cursum_def nat_add_distrib)
  ultimately show thesis using that[OF _ v] new by simp
qed

subsection \<open>One entry\<close>

definition same_cache :: "f2fs_nm_info \<Rightarrow> f2fs_nm_info \<Rightarrow> bool" where
  "same_cache s t \<longleftrightarrow> nat_root t = nat_root s \<and> nat_set_root t = nat_set_root s \<and> nat_entries t = nat_entries s
     \<and> dirty_nat_cnt t = dirty_nat_cnt s"

lemma same_cache_simps:
  assumes "same_cache s t"
  shows "is_dirty t n \<longleftrightarrow> is_dirty s n" "set_list t k = set_list s k" "dirty_total t = dirty_total s"
  using assms by (simp_all add: same_cache_def is_dirty_def set_list_def dirty_total_def)

lemma nat_inv_disk:
  assumes "nat_inv X s" "same_cache s t" "nat_geometry t" "n_nats (cursum t) \<le> NAT_JOURNAL_ENTRIES"
    and "\<And>n. disk_view t n = disk_view s n \<or> is_dirty s n \<or> n \<in> X"
  shows "nat_inv X t"
proof -
  note D = nat_invD[OF assms(1)]
  have c: "nat_root t = nat_root s" "nat_set_root t = nat_set_root s" "nat_entries t = nat_entries s"
    "dirty_nat_cnt t = dirty_nat_cnt s" using assms(2) by (simp_all add: same_cache_def)
  show ?thesis
  proof (rule nat_invI)
    fix n e assume "radix_lookup (nat_root t) n = Some e" "\<not> get_nat_flag e IS_DIRTY" "n \<notin> X"
    then show "raw_nat_from_node_info (nat_ni e) = disk_view t n"
      using D(11)[of n e] assms(5)[of n] by (auto simp: c is_dirty_lookup)
  qed (use D assms(3,4) in \<open>auto simp: c same_cache_simps[OF assms(2)]\<close>)
qed

lemma add_free_nid_frame:
  "same_cache s (snd (add_free_nid nid b s))" "same_disk s (snd (add_free_nid nid b s))"
  by (auto simp: add_free_nid_def same_cache_def same_disk_def split: option.splits)

lemma nat_inv_same: "nat_inv X s \<Longrightarrow> same_cache s t \<Longrightarrow> same_disk s t \<Longrightarrow> nat_inv X t"
  using nat_inv_disk[of X s t] same_disk_view[of s t] by (auto simp: nat_inv_def same_disk_def)

lemma nat_view_same: "same_cache s t \<Longrightarrow> same_disk s t \<Longrightarrow> nat_view t n = nat_view s n"
  by (simp add: nat_view_def same_cache_def same_disk_view cong: option.case_cong)

text \<open>An entry that is written to the disk is made clean; the table stays the same.\<close>

lemma clear_written_entry:
  assumes inv: "nat_inv {} s" and e: "radix_lookup (nat_root s) nid = Some e" "get_nat_flag e IS_DIRTY"
    and w: "same_cache s s1" "nat_geometry s1" "n_nats (cursum s1) \<le> NAT_JOURNAL_ENTRIES"
    and v: "\<And>n. disk_view s1 n = (if n = nid then raw_nat_from_node_info (nat_ni e) else disk_view s n)"
  obtains t where "clear_nat_cache_dirty nid (put_nat_entry nid (nat_reset_flag e) s1) = Some t"
    "nat_inv {} t" "same_disk s1 t" "\<And>n. nat_view t n = nat_view s n" "\<And>n. is_dirty t n \<longleftrightarrow> n \<noteq> nid \<and> is_dirty s n"
    "dirty_total s = Suc (dirty_total t)" "map fst (nat_set_root t) = map fst (nat_set_root s)"
    "\<And>k. set_list t k = (if k = nid div NAT_ENTRY_PER_BLOCK then remove1 nid (set_list s k) else set_list s k)"
proof -
  have e1: "radix_lookup (nat_root s1) nid = Some e" using w(1) e(1) by (simp add: same_cache_def)
  have "nat_inv {} s1"
    using nat_inv_disk[OF inv w] v is_dirty_lookup[OF e(1)] e(2) by auto
  note D1 = nat_invD[OF this]
  let ?p = "put_nat_entry nid (nat_reset_flag e) s1"
  have p: "nat_inv {} ?p"
    using put_nat_entry_inv[OF \<open>nat_inv {} s1\<close> e1, of "nat_reset_flag e" "{}"] D1(4)[OF e1] e(2) by simp
  have lp: "radix_lookup (nat_root ?p) n = (if n = nid then Some (nat_reset_flag e) else radix_lookup (nat_root s1) n)" for n
    by (rule put_nat_entry_lookup[OF D1(1)])
  have dv: "disk_view ?p n = disk_view s1 n" for n by (rule same_disk_view(1)) simp
  obtain t where t: "clear_nat_cache_dirty nid ?p = Some t" "nat_inv {} t" "same_disk ?p t"
    "\<And>n. radix_lookup (nat_root t) n = (if n = nid then Some (set_nat_flag IS_DIRTY False (nat_reset_flag e)) else radix_lookup (nat_root ?p) n)"
    "\<And>n. is_dirty t n \<longleftrightarrow> n \<noteq> nid \<and> is_dirty ?p n" "dirty_total ?p = Suc (dirty_total t)"
    "\<And>k. set_list t k = (if k = nid div NAT_ENTRY_PER_BLOCK then remove1 nid (set_list ?p k) else set_list ?p k)"
    "map fst (nat_set_root t) = map fst (nat_set_root ?p)"
    by (rule clear_nat_cache_dirty_ok[OF p, of nid "nat_reset_flag e"]) (use e v dv lp in auto)
  have sd: "same_disk s1 t" using t(3) same_disk_trans[OF put_nat_entry_frame(1)] by blast
  have pd: "is_dirty ?p n \<longleftrightarrow> is_dirty s n" for n
    using is_dirty_put[OF D1(1), of nid "nat_reset_flag e" n] e is_dirty_lookup[OF e(1)] same_cache_simps(1)[OF w(1)] by simp
  have vt: "nat_view t n = nat_view s n" for n
    using e v w(1) by (simp add: nat_view_def t(4) lp same_disk_view[OF sd] same_cache_def cong: option.case_cong)
  show thesis
    by (rule that[OF t(1,2) sd vt]) (use t(5-8) pd w(1) in \<open>simp_all add: dirty_total_def set_list_def same_cache_def\<close>)
qed

text \<open>The relation between the state before and after the entries \<open>ys\<close> were flushed.\<close>

definition flushed :: "u32 list \<Rightarrow> f2fs_nm_info \<Rightarrow> f2fs_nm_info \<Rightarrow> bool" where
  "flushed ys s t \<longleftrightarrow> nat_inv {} t \<and> (\<forall>n. nat_view t n = nat_view s n) \<and> (\<forall>n. is_dirty t n \<longleftrightarrow> is_dirty s n \<and> n \<notin> set ys)
     \<and> dirty_total s = length ys + dirty_total t \<and> map fst (nat_set_root t) = map fst (nat_set_root s)
     \<and> (\<forall>k. set_list t k = filter (\<lambda>n. n \<notin> set ys) (set_list s k))
     \<and> nat_blkaddr t = nat_blkaddr s \<and> log_blocks_per_seg t = log_blocks_per_seg s \<and> blocks_per_seg t = blocks_per_seg s
     \<and> nat_bitmap t = nat_bitmap s"

lemma flushed_trans: "flushed xs s t \<Longrightarrow> flushed ys t u \<Longrightarrow> flushed (xs @ ys) s u"
  unfolding flushed_def by (auto intro: filter_cong)

lemma distinct_set_list: "nat_inv X s \<Longrightarrow> distinct (set_list s k)"
  by (auto simp: set_list_def nat_invD(6) split: option.splits)

lemma remove1_set_list:
  assumes "nat_inv X s"
  shows "(if k = nid div NAT_ENTRY_PER_BLOCK then remove1 nid (set_list s k) else set_list s k) = filter (\<lambda>n. n \<notin> {nid}) (set_list s k)"
  using nat_invD(5)[OF assms, of nid k] distinct_set_list[OF assms, of k]
  by (auto simp: distinct_remove1_removeAll removeAll_filter_not_eq intro!: filter_cong filter_True[symmetric])

lemma dirty_entry:
  assumes "is_dirty s nid"
  obtains e where "radix_lookup (nat_root s) nid = Some e" "get_nat_flag e IS_DIRTY"
    "nat_view s nid = raw_nat_from_node_info (nat_ni e)" "raw_block_addr (nat_view s nid) = ni_blk_addr (nat_ni e)"
  using assms that by (auto simp: is_dirty_def nat_view_def raw_nat_from_node_info_def)

lemma flush_nat_entry_end:
  assumes inv: "nat_inv {} s" and d: "is_dirty s nid" and e: "radix_lookup (nat_root s) nid = Some e"
    and w: "same_cache s s1" "n_nats (cursum s1) \<le> NAT_JOURNAL_ENTRIES" "nat_blkaddr s1 = nat_blkaddr s"
      "log_blocks_per_seg s1 = log_blocks_per_seg s" "blocks_per_seg s1 = blocks_per_seg s" "nat_bitmap s1 = nat_bitmap s"
    and v: "\<And>n. disk_view s1 n = (if n = nid then raw_nat_from_node_info (nat_ni e) else disk_view s n)"
  obtains t where "clear_nat_cache_dirty nid (put_nat_entry nid (nat_reset_flag e) s1) = Some t"
    "flushed [nid] s (if b then snd (add_free_nid nid False t) else t)"
    "same_disk s1 (if b then snd (add_free_nid nid False t) else t)"
proof -
  have g: "nat_geometry s1" using nat_invD(3)[OF inv] w by (simp add: nat_geometry_def)
  have ed: "get_nat_flag e IS_DIRTY" using d e by (simp add: is_dirty_lookup)
  obtain t where t: "clear_nat_cache_dirty nid (put_nat_entry nid (nat_reset_flag e) s1) = Some t"
    "nat_inv {} t" "same_disk s1 t" "\<And>n. nat_view t n = nat_view s n" "\<And>n. is_dirty t n \<longleftrightarrow> n \<noteq> nid \<and> is_dirty s n"
    "dirty_total s = Suc (dirty_total t)" "map fst (nat_set_root t) = map fst (nat_set_root s)"
    "\<And>k. set_list t k = (if k = nid div NAT_ENTRY_PER_BLOCK then remove1 nid (set_list s k) else set_list s k)"
    by (rule clear_written_entry[OF inv e ed w(1) g w(2) v]) blast
  let ?u = "if b then snd (add_free_nid nid False t) else t"
  have fr: "same_cache t ?u" "same_disk t ?u" using add_free_nid_frame[of t nid False] by (simp_all add: same_cache_def)
  have "nat_set_root ?u = nat_set_root t" using fr(1) by (simp only: same_cache_def)
  moreover have "nat_inv {} ?u" by (rule nat_inv_same[OF t(2) fr])
  moreover have "set_list t k = filter (\<lambda>n. n \<notin> {nid}) (set_list s k)" for k
    using t(8)[of k] remove1_set_list[OF inv, of k nid] by simp
  ultimately have "flushed [nid] s ?u"
    unfolding flushed_def
    using t(4-7) w fr(2) t(3) nat_view_same[OF fr] same_cache_simps[OF fr(1)]
    by (simp only: same_disk_def) auto
  then show thesis using that[OF t(1)] same_disk_trans[OF t(3) fr(2)] by blast
qed

subsection \<open>One set\<close>

definition can_flush :: "f2fs_nm_info \<Rightarrow> u32 list \<Rightarrow> bool" where
  "can_flush s ys \<longleftrightarrow> distinct ys \<and> (\<forall>n \<in> set ys. is_dirty s n \<and> raw_block_addr (nat_view s n) \<noteq> NEW_ADDR)"

lemma can_flush_Cons:
  "can_flush s (nid # ys) \<Longrightarrow> flushed [nid] s t \<Longrightarrow> can_flush t ys"
  by (auto simp: can_flush_def flushed_def)

lemma flushed_Nil: "nat_inv {} s \<Longrightarrow> flushed [] s s"
  by (simp add: flushed_def)

lemma flush_to_journal_step:
  assumes inv: "nat_inv {} s" and c: "can_flush s (nid # ys)" and room: "n_nats (cursum s) < NAT_JOURNAL_ENTRIES"
  obtains t where "flush_nat_entry True page start nid s = Some t" "flushed [nid] s t" "nat_pages t = nat_pages s"
    "n_nats (cursum t) \<le> Suc (n_nats (cursum s))" "journal_nids (cursum t) = insert nid (journal_nids (cursum s))"
proof -
  have "is_dirty s nid" using c by (simp add: can_flush_def)
  then obtain e where e: "radix_lookup (nat_root s) nid = Some e" "get_nat_flag e IS_DIRTY"
    "raw_block_addr (nat_view s nid) = ni_blk_addr (nat_ni e)" by (rule dirty_entry)
  let ?raw = "raw_nat_from_node_info (nat_ni e)"
  obtain off sm1 where j: "lookup_journal_in_cursum (cursum s) nid True = (Some off, sm1)"
    "\<And>n. journal_view (sm1\<lparr>nat_j := (nat_j sm1)(off := (nid, ?raw))\<rparr>) n = (if n = nid then Some ?raw else journal_view (cursum s) n)"
    "journal_nids (sm1\<lparr>nat_j := (nat_j sm1)(off := (nid, ?raw))\<rparr>) = insert nid (journal_nids (cursum s))"
    "n_nats sm1 = (if nid \<in> journal_nids (cursum s) then n_nats (cursum s) else Suc (n_nats (cursum s)))"
    using journal_put[of nid "cursum s" ?raw] room by blast
  let ?s1 = "s\<lparr>cursum := sm1\<lparr>nat_j := (nat_j sm1)(off := (nid, ?raw))\<rparr>\<rparr>"
  have pv: "page_view ?s1 n = page_view s n" for n by (simp add: page_view_def nat_addr_def second_copy_def)
  obtain t where t: "clear_nat_cache_dirty nid (put_nat_entry nid (nat_reset_flag e) ?s1) = Some t"
    "flushed [nid] s (if ni_blk_addr (nat_ni e) = NULL_ADDR then snd (add_free_nid nid False t) else t)"
    "same_disk ?s1 (if ni_blk_addr (nat_ni e) = NULL_ADDR then snd (add_free_nid nid False t) else t)"
    by (rule flush_nat_entry_end[OF inv \<open>is_dirty s nid\<close> e(1), of ?s1 "ni_blk_addr (nat_ni e) = NULL_ADDR"])
      (use room j(4) in \<open>auto simp: same_cache_def disk_view_journal j(2) pv cong: option.case_cong split: if_splits\<close>)
  have "ni_blk_addr (nat_ni e) \<noteq> NEW_ADDR" using c e(3) by (simp add: can_flush_def)
  then have "flush_nat_entry True page start nid s
      = Some (if ni_blk_addr (nat_ni e) = NULL_ADDR then snd (add_free_nid nid False t) else t)"
    using e(1) j(1) t(1) by (simp add: flush_nat_entry_def Let_def)
  then show thesis
    by (rule that[OF _ t(2)]) (use t(3) j(3,4) in \<open>simp_all add: same_disk_def split: if_splits\<close>)
qed

lemma flush_to_journal:
  assumes "nat_inv {} s" "can_flush s ys" "n_nats (cursum s) + length ys \<le> NAT_JOURNAL_ENTRIES"
  shows "\<exists>t. foldM (flush_nat_entry True page start) ys s = Some t \<and> flushed ys s t \<and> nat_pages t = nat_pages s
    \<and> n_nats (cursum t) \<le> n_nats (cursum s) + length ys \<and> journal_nids (cursum t) = journal_nids (cursum s) \<union> set ys"
  using assms
proof (induction ys arbitrary: s)
  case Nil
  then show ?case by (simp add: flushed_Nil)
next
  case (Cons nid ys)
  obtain t where t: "flush_nat_entry True page start nid s = Some t" "flushed [nid] s t" "nat_pages t = nat_pages s"
    "n_nats (cursum t) \<le> Suc (n_nats (cursum s))" "journal_nids (cursum t) = insert nid (journal_nids (cursum s))"
    by (rule flush_to_journal_step[OF Cons.prems(1,2)]) (use Cons.prems(3) in simp)
  have "nat_inv {} t" using t(2) by (simp add: flushed_def)
  then obtain u where "foldM (flush_nat_entry True page start) ys t = Some u" "flushed ys t u" "nat_pages u = nat_pages t"
    "n_nats (cursum u) \<le> n_nats (cursum t) + length ys" "journal_nids (cursum u) = journal_nids (cursum t) \<union> set ys"
    using Cons.IH[of t] can_flush_Cons[OF Cons.prems(2) t(2)] Cons.prems(3) t(4) by auto
  then show ?case using t flushed_trans[OF t(2), of ys u] by auto
qed

lemma flush_to_page_step:
  assumes inv: "nat_inv {} s" and c: "can_flush s (nid # ys)" and k: "nid div NAT_ENTRY_PER_BLOCK = k"
    and j: "nid \<notin> journal_nids (cursum s)" and page: "page = nat_addr s (unat k) (second_copy s (unat k))"
  obtains t where "flush_nat_entry False page (k * NAT_ENTRY_PER_BLOCK) nid s = Some t" "flushed [nid] s t"
    "cursum t = cursum s" "\<And>a. a \<noteq> page \<Longrightarrow> nat_pages t a = nat_pages s a"
proof -
  have "is_dirty s nid" using c by (simp add: can_flush_def)
  then obtain e where e: "radix_lookup (nat_root s) nid = Some e" "get_nat_flag e IS_DIRTY"
    "raw_block_addr (nat_view s nid) = ni_blk_addr (nat_ni e)" by (rule dirty_entry)
  let ?raw = "raw_nat_from_node_info (nat_ni e)"
  let ?i = "unat (nid - k * NAT_ENTRY_PER_BLOCK)"
  have i: "?i = unat (nid mod NAT_ENTRY_PER_BLOCK)" using k by (metis minus_div_mult_eq_mod)
  let ?s1 = "s\<lparr>nat_pages := (nat_pages s)(page := (nat_pages s page)(?i := ?raw))\<rparr>"
  have bps: "0 < blocks_per_seg s" using nat_invD(3)[OF inv] by (simp add: nat_geometry_def)
  have pv: "page_view ?s1 n = (if n = nid then ?raw else page_view s n)" for n
  proof (cases "block_of n = unat k")
    case True
    then have "n div NAT_ENTRY_PER_BLOCK = nid div NAT_ENTRY_PER_BLOCK" using k u32_eqI by (auto simp: block_of_def)
    then have "unat (n mod NAT_ENTRY_PER_BLOCK) = ?i \<longleftrightarrow> n = nid"
      using i by (metis div_mult_mod_eq unsigned_word_eqI)
    then show ?thesis using True by (simp add: page_view_def nat_addr_def second_copy_def page)
  next
    case False
    then have "nat_addr s (block_of n) (second_copy s (block_of n)) \<noteq> page"
      using nat_addr_inject[OF bps] page by blast
    moreover have "n \<noteq> nid" using False k by (auto simp: block_of_def)
    ultimately show ?thesis by (simp add: page_view_def nat_addr_def second_copy_def)
  qed
  obtain t where t: "clear_nat_cache_dirty nid (put_nat_entry nid (nat_reset_flag e) ?s1) = Some t"
    "flushed [nid] s (if ni_blk_addr (nat_ni e) = NULL_ADDR then snd (add_free_nid nid False t) else t)"
    "same_disk ?s1 (if ni_blk_addr (nat_ni e) = NULL_ADDR then snd (add_free_nid nid False t) else t)"
    by (rule flush_nat_entry_end[OF inv \<open>is_dirty s nid\<close> e(1), of ?s1 "ni_blk_addr (nat_ni e) = NULL_ADDR"])
      (use nat_invD(12)[OF inv] j in \<open>auto simp: same_cache_def disk_view_journal pv journal_view_None[THEN iffD2] cong: option.case_cong\<close>)
  have "ni_blk_addr (nat_ni e) \<noteq> NEW_ADDR" using c e(3) by (simp add: can_flush_def)
  then have "flush_nat_entry False page (k * NAT_ENTRY_PER_BLOCK) nid s
      = Some (if ni_blk_addr (nat_ni e) = NULL_ADDR then snd (add_free_nid nid False t) else t)"
    using e(1) t(1) by (simp add: flush_nat_entry_def Let_def)
  then show thesis
    by (rule that[OF _ t(2)]) (use t(3) in \<open>simp_all add: same_disk_def split: if_splits\<close>)
qed

lemma flushed_nat_addr: "flushed ys s t \<Longrightarrow> nat_addr t b x = nat_addr s b x \<and> (second_copy t b \<longleftrightarrow> second_copy s b)"
  by (simp add: flushed_def nat_addr_def second_copy_def)

lemma flush_to_page:
  assumes "nat_inv {} s" "can_flush s ys" "\<forall>n \<in> set ys. n div NAT_ENTRY_PER_BLOCK = k \<and> n \<notin> journal_nids (cursum s)"
    "page = nat_addr s (unat k) (second_copy s (unat k))"
  shows "\<exists>t. foldM (flush_nat_entry False page (k * NAT_ENTRY_PER_BLOCK)) ys s = Some t \<and> flushed ys s t
    \<and> cursum t = cursum s \<and> (\<forall>a. a \<noteq> page \<longrightarrow> nat_pages t a = nat_pages s a)"
  using assms
proof (induction ys arbitrary: s)
  case Nil
  then show ?case by (simp add: flushed_Nil)
next
  case (Cons nid ys)
  obtain t where t: "flush_nat_entry False page (k * NAT_ENTRY_PER_BLOCK) nid s = Some t" "flushed [nid] s t"
    "cursum t = cursum s" "\<And>a. a \<noteq> page \<Longrightarrow> nat_pages t a = nat_pages s a"
    by (rule flush_to_page_step[OF Cons.prems(1,2) _ _ Cons.prems(4)]) (use Cons.prems(3) in auto)
  have "nat_inv {} t" using t(2) by (simp add: flushed_def)
  moreover have "page = nat_addr t (unat k) (second_copy t (unat k))"
    using Cons.prems(4) flushed_nat_addr[OF t(2)] by simp
  ultimately obtain u where "foldM (flush_nat_entry False page (k * NAT_ENTRY_PER_BLOCK)) ys t = Some u" "flushed ys t u"
    "cursum u = cursum t" "\<forall>a. a \<noteq> page \<longrightarrow> nat_pages u a = nat_pages t a"
    using Cons.IH[of t] can_flush_Cons[OF Cons.prems(2) t(2)] Cons.prems(3) t(3) by auto
  then show ?case using t flushed_trans[OF t(2), of ys u] by auto
qed

text \<open>A block's other copy becomes current with the same contents.\<close>

lemma get_next_nat_page_ok:
  assumes inv: "nat_inv {} s" and k: "block_of nid = unat k"
  obtains s1 where "get_next_nat_page nid s = (nat_addr s (unat k) (\<not> second_copy s (unat k)), s1)"
    "same_cache s s1" "nat_inv {} s1" "\<And>n. nat_view s1 n = nat_view s n" "cursum s1 = cursum s"
    "\<And>a. a \<noteq> nat_addr s (unat k) (\<not> second_copy s (unat k)) \<Longrightarrow> nat_pages s1 a = nat_pages s a"
    "\<And>b. second_copy s1 b \<longleftrightarrow> second_copy s b \<noteq> (b = unat k)"
    "nat_blkaddr s1 = nat_blkaddr s" "log_blocks_per_seg s1 = log_blocks_per_seg s" "blocks_per_seg s1 = blocks_per_seg s"
proof -
  note g = nat_invD(3)[OF inv]
  have bps: "0 < blocks_per_seg s" using g by (simp add: nat_geometry_def)
  let ?src = "nat_addr s (unat k) (second_copy s (unat k))" and ?dst = "nat_addr s (unat k) (\<not> second_copy s (unat k))"
  define s0 where "s0 = s\<lparr>nat_pages := (nat_pages s)(?dst := nat_pages s ?src)\<rparr>"
  define s1 where "s1 = set_to_next_nat nid s0"
  have eq: "get_next_nat_page nid s = (?dst, s1)"
    using current_nat_addr_eq[OF g, of nid] next_nat_addr_eq[OF g] k by (simp add: get_next_nat_page_def s1_def s0_def Let_def)
  have f: "same_cache s s1" "cursum s1 = cursum s" "nat_pages s1 = nat_pages s0"
    "nat_blkaddr s1 = nat_blkaddr s" "log_blocks_per_seg s1 = log_blocks_per_seg s" "blocks_per_seg s1 = blocks_per_seg s"
    by (simp_all add: s1_def s0_def set_to_next_nat_def Let_def same_cache_def)
  have sc: "second_copy s1 b \<longleftrightarrow> second_copy s b \<noteq> (b = unat k)" for b
    unfolding s1_def second_copy_next k by (simp add: s0_def second_copy_def)
  have na: "nat_addr s1 b x = nat_addr s b x" for b x by (simp add: nat_addr_def f)
  have pv: "page_view s1 n = page_view s n" for n
  proof (cases "block_of n = unat k")
    case True
    then show ?thesis by (simp add: page_view_def sc na f(3) s0_def)
  next
    case False
    then have "nat_addr s (block_of n) (second_copy s (block_of n)) \<noteq> ?dst" using nat_addr_inject[OF bps] by blast
    then show ?thesis using False by (simp add: page_view_def sc na f(3) s0_def)
  qed
  have dv: "disk_view s1 n = disk_view s n" for n by (simp add: disk_view_journal f pv cong: option.case_cong)
  have "nat_inv {} s1"
    by (rule nat_inv_disk[OF inv f(1)]) (use g nat_invD(12)[OF inv] in \<open>simp_all add: f dv nat_geometry_def\<close>)
  moreover have "nat_view s1 n = nat_view s n" for n
    using f(1) by (simp add: nat_view_def dv same_cache_def cong: option.case_cong)
  ultimately show thesis by (intro that[OF eq f(1) _ _ f(2) _ sc f(4-6)]) (simp_all add: f(3) s0_def)
qed

text \<open>The relation between the state before and after the set \<open>k\<close> was flushed. Only the other copy of the
  NAT block of the set is written, and if it was, it is current.\<close>

definition set_flushed :: "u32 \<Rightarrow> f2fs_nm_info \<Rightarrow> f2fs_nm_info \<Rightarrow> bool" where
  "set_flushed k s t \<longleftrightarrow> nat_inv {} t \<and> (\<forall>n. nat_view t n = nat_view s n)
     \<and> (\<forall>n. is_dirty t n \<longleftrightarrow> is_dirty s n \<and> n div NAT_ENTRY_PER_BLOCK \<noteq> k)
     \<and> dirty_total s = length (set_list s k) + dirty_total t
     \<and> map fst (nat_set_root t) = filter (\<lambda>j. j \<noteq> k) (map fst (nat_set_root s))
     \<and> nat_blkaddr t = nat_blkaddr s \<and> log_blocks_per_seg t = log_blocks_per_seg s \<and> blocks_per_seg t = blocks_per_seg s
     \<and> (\<forall>b. b \<noteq> unat k \<longrightarrow> (second_copy t b \<longleftrightarrow> second_copy s b))
     \<and> (\<forall>a. a \<noteq> nat_addr s (unat k) (\<not> second_copy s (unat k)) \<longrightarrow> nat_pages t a = nat_pages s a)
     \<and> n_nats (cursum t) \<le> n_nats (cursum s) + length (set_list s k)
     \<and> journal_nids (cursum t) \<subseteq> journal_nids (cursum s) \<union> set (set_list s k)"

lemma set_root_frame [simp]:
  "nat_view (s\<lparr>nat_set_root := r\<rparr>) n = nat_view s n" "is_dirty (s\<lparr>nat_set_root := r\<rparr>) n = is_dirty s n"
  "second_copy (s\<lparr>nat_set_root := r\<rparr>) b = second_copy s b"
  by (simp_all add: nat_view_def disk_view_def page_view_def nat_addr_def second_copy_def is_dirty_def cong: option.case_cong)

lemma delete_empty_set:
  assumes inv: "nat_inv X s" and h: "radix_lookup (nat_set_root s) k = Some h" "entry_list h = []"
  shows "nat_inv X (s\<lparr>nat_set_root := radix_delete k (nat_set_root s)\<rparr>)"
    "dirty_total (s\<lparr>nat_set_root := radix_delete k (nat_set_root s)\<rparr>) = dirty_total s"
proof -
  note D = nat_invD[OF inv]
  let ?t = "s\<lparr>nat_set_root := radix_delete k (nat_set_root s)\<rparr>"
  have sl: "set_list ?t j = set_list s j" for j using h by (simp add: set_list_def radix_lookup_delete)
  show tot: "dirty_total ?t = dirty_total s"
    using sum_radix_delete[OF D(2), of "\<lambda>h. length (entry_list h)" k] h by (simp add: dirty_total_def)
  have d: "is_dirty ?t n \<longleftrightarrow> is_dirty s n" for n by (simp add: is_dirty_def)
  have dv: "disk_view ?t n = disk_view s n" for n by (rule same_disk_view(1)) (simp add: same_disk_def)
  show "nat_inv X ?t"
  proof (rule nat_invI)
    show "nat_geometry ?t" using D(3) by (simp add: nat_geometry_def)
  qed (use D in \<open>auto simp: sl tot d dv radix_lookup_delete split: if_splits\<close>)
qed

lemma map_fst_radix_delete: "map fst (radix_delete k t) = filter (\<lambda>j. j \<noteq> k) (map fst t)"
  by (induction t) (auto simp: radix_delete_def)

lemma finish_set:
  assumes s2: "flushed (set_list s k) s1 s2" and s1: "map fst (nat_set_root s1) = map fst (nat_set_root s)"
      "set_list s1 k = set_list s k"
    and h: "radix_lookup (nat_set_root s) k = Some head"
  obtains h2 where "radix_lookup (nat_set_root s2) k = Some h2" "entry_cnt h2 = 0" "entry_list h2 = []"
proof -
  have inv: "nat_inv {} s2" using s2 by (simp add: flushed_def)
  have "map fst (nat_set_root s2) = map fst (nat_set_root s)" using s2 s1(1) by (simp add: flushed_def)
  then have "radix_lookup (nat_set_root s2) k \<noteq> None" using h by (metis option.distinct(1) radix_lookup_None)
  then obtain h2 where h2: "radix_lookup (nat_set_root s2) k = Some h2" by blast
  have "set_list s2 k = []" using s2 s1(2) by (simp add: flushed_def)
  then have "entry_list h2 = []" using h2 by (simp add: set_list_def)
  then show thesis using that[OF h2] nat_invD(7)[OF inv h2] by simp
qed

lemma sint_of_nat_small: "n < 2 ^ 31 \<Longrightarrow> sint (of_nat n :: u32) = int n"
  by (simp add: sint_small unsigned_of_nat take_bit_nat_eq_self)

lemma flush_nat_entry_set_ok:
  assumes inv: "nat_inv {} s" and h: "radix_lookup (nat_set_root s) k = Some head"
    and small: "dirty_total s < 2 ^ 31"
    and old: "\<And>n. is_dirty s n \<Longrightarrow> raw_block_addr (nat_view s n) \<noteq> NEW_ADDR"
    and room: "n_nats (cursum s) + dirty_total s \<le> NAT_JOURNAL_ENTRIES
      \<or> (\<forall>n \<in> journal_nids (cursum s). n div NAT_ENTRY_PER_BLOCK \<noteq> k)"
  obtains t where "flush_nat_entry_set k s = Some t" "set_flushed k s t"
proof -
  note D = nat_invD[OF inv]
  let ?ys = "set_list s k"
  have ys: "entry_list head = ?ys" using h by (simp add: set_list_def)
  have len: "length ?ys \<le> dirty_total s"
    using sum_radix_member[OF h, of "\<lambda>h. length (entry_list h)"] ys by (simp add: dirty_total_def)
  have cnt: "sint (entry_cnt head) = int (length ?ys)"
    using D(7)[OF h] ys len small by (simp add: sint_of_nat_small)
  have cf: "can_flush s ?ys" using distinct_set_list[OF inv] D(5) old by (auto simp: can_flush_def)
  have blk: "n div NAT_ENTRY_PER_BLOCK = k" if "n \<in> set ?ys" for n using D(5)[of n k] that by simp
  have fin: "set_flushed k s (s2\<lparr>nat_set_root := radix_delete k (nat_set_root s2)\<rparr>)"
    if s2: "flushed ?ys s1 s2" and s1: "nat_set_root s1 = nat_set_root s" "\<And>n. nat_view s1 n = nat_view s n"
      "\<And>n. is_dirty s1 n \<longleftrightarrow> is_dirty s n" "nat_blkaddr s1 = nat_blkaddr s" "log_blocks_per_seg s1 = log_blocks_per_seg s"
      "blocks_per_seg s1 = blocks_per_seg s" "\<And>b. b \<noteq> unat k \<Longrightarrow> second_copy s1 b \<longleftrightarrow> second_copy s b"
    and pg: "\<And>a. a \<noteq> nat_addr s (unat k) (\<not> second_copy s (unat k)) \<Longrightarrow> nat_pages s2 a = nat_pages s a"
    and jn: "n_nats (cursum s2) \<le> n_nats (cursum s) + length ?ys" "journal_nids (cursum s2) \<subseteq> journal_nids (cursum s) \<union> set ?ys"
    for s1 s2
  proof -
    have sl: "set_list s1 k = ?ys" "dirty_total s1 = dirty_total s" using s1(1) by (simp_all add: set_list_def dirty_total_def)
    obtain h2 where h2: "radix_lookup (nat_set_root s2) k = Some h2" "entry_cnt h2 = 0" "entry_list h2 = []"
      by (rule finish_set[OF s2 _ sl(1) h]) (simp add: s1(1))
    have inv2: "nat_inv {} s2" using s2 by (simp add: flushed_def)
    have "is_dirty s2 n \<longleftrightarrow> is_dirty s n \<and> n div NAT_ENTRY_PER_BLOCK \<noteq> k" for n
      using s2 s1(3) D(5)[of n k] by (auto simp: flushed_def)
    moreover have "second_copy s2 b \<longleftrightarrow> second_copy s b" if "b \<noteq> unat k" for b
      using flushed_nat_addr[OF s2] s1(7)[OF that] by simp
    ultimately show ?thesis
      using delete_empty_set[OF inv2 h2(1,3)] s2 s1(1-6) sl pg jn
      by (simp add: set_flushed_def flushed_def map_fst_radix_delete)
  qed
  show thesis
  proof (cases "has_cursum_space (cursum s) (sint (entry_cnt head))")
    case True
    then have fits: "n_nats (cursum s) + length ?ys \<le> NAT_JOURNAL_ENTRIES"
      using cnt D(12) by (simp add: has_cursum_space_def)
    obtain s2 where s2: "foldM (flush_nat_entry True 0 (k * NAT_ENTRY_PER_BLOCK)) ?ys s = Some s2" "flushed ?ys s s2"
      "nat_pages s2 = nat_pages s" "n_nats (cursum s2) \<le> n_nats (cursum s) + length ?ys"
      "journal_nids (cursum s2) = journal_nids (cursum s) \<union> set ?ys"
      using flush_to_journal[OF inv cf fits] by blast
    obtain h2 where h2: "radix_lookup (nat_set_root s2) k = Some h2" "entry_cnt h2 = 0"
      by (rule finish_set[OF s2(2) refl refl h]) blast
    have "flush_nat_entry_set k s = Some (s2\<lparr>nat_set_root := radix_delete k (nat_set_root s2)\<rparr>)"
      using h True s2(1) h2 ys by (simp add: flush_nat_entry_set_def)
    then show thesis using that fin[OF s2(2)] s2(3-5) by simp
  next
    case False
    then have "\<not> n_nats (cursum s) + length ?ys \<le> NAT_JOURNAL_ENTRIES" using cnt by (simp add: has_cursum_space_def)
    then have nj: "\<forall>n \<in> journal_nids (cursum s). n div NAT_ENTRY_PER_BLOCK \<noteq> k" "?ys \<noteq> []"
      using room len D(12) by auto
    then obtain nid where "nid \<in> set ?ys" by (cases ?ys) auto
    then have bk: "block_of (k * NAT_ENTRY_PER_BLOCK) = unat k"
      using blk[of nid] block_of_start[of nid] by (simp add: START_NID_def block_of_def)
    let ?page = "nat_addr s (unat k) (\<not> second_copy s (unat k))"
    obtain s1 where s1: "get_next_nat_page (k * NAT_ENTRY_PER_BLOCK) s = (?page, s1)" "same_cache s s1" "nat_inv {} s1"
      "\<And>n. nat_view s1 n = nat_view s n" "cursum s1 = cursum s" "\<And>a. a \<noteq> ?page \<Longrightarrow> nat_pages s1 a = nat_pages s a"
      "\<And>b. second_copy s1 b \<longleftrightarrow> second_copy s b \<noteq> (b = unat k)"
      "nat_blkaddr s1 = nat_blkaddr s" "log_blocks_per_seg s1 = log_blocks_per_seg s" "blocks_per_seg s1 = blocks_per_seg s"
      by (rule get_next_nat_page_ok[OF inv bk]) blast
    have "?page = nat_addr s1 (unat k) (second_copy s1 (unat k))" using s1(7-10) by (simp add: nat_addr_def)
    moreover have "can_flush s1 ?ys" using cf s1(4) same_cache_simps[OF s1(2)] by (simp add: can_flush_def)
    ultimately obtain s2 where s2: "foldM (flush_nat_entry False ?page (k * NAT_ENTRY_PER_BLOCK)) ?ys s1 = Some s2"
      "flushed ?ys s1 s2" "cursum s2 = cursum s1" "\<forall>a. a \<noteq> ?page \<longrightarrow> nat_pages s2 a = nat_pages s1 a"
      using flush_to_page[OF s1(3), of ?ys k ?page] blk nj(1) s1(5) by metis
    have sr: "nat_set_root s1 = nat_set_root s" using s1(2) by (simp add: same_cache_def)
    obtain h2 where h2: "radix_lookup (nat_set_root s2) k = Some h2" "entry_cnt h2 = 0"
      by (rule finish_set[OF s2(2) _ _ h]) (use sr in \<open>simp_all add: set_list_def\<close>)
    have "flush_nat_entry_set k s = Some (s2\<lparr>nat_set_root := radix_delete k (nat_set_root s2)\<rparr>)"
      using h False s1(1) s2(1) h2 ys by (simp add: flush_nat_entry_set_def)
    moreover have "set_flushed k s (s2\<lparr>nat_set_root := radix_delete k (nat_set_root s2)\<rparr>)"
      by (rule fin[OF s2(2) sr s1(4) _ s1(8-10)]) (use s2 s1(5-7) same_cache_simps[OF s1(2)] in simp_all)
    ultimately show thesis by (rule that)
  qed
qed

end
