(* ===== verification/F2fsNatCache.thy ===== *)
theory F2fsNatCache
  imports F2fsNatSpec
begin

text \<open>
  The operations of the cache against the table: \<open>get_node_info\<close> reads the table and does not change it,
  whatever it caches; evictions do not change it; \<open>set_node_addr\<close> changes one entry.
\<close>

lemma disk_view_read:
  assumes "nat_geometry s"
  shows "(case fst (lookup_journal_in_cursum (cursum s) nid False) of
      Some i \<Rightarrow> snd (nat_j (cursum s) i)
    | None \<Rightarrow> get_current_nat_page s (START_NID nid) (unat (nid - START_NID nid))) = disk_view s nid"
  by (simp add: lookup_journal_in_cursum_def disk_view_def page_view_current[OF assms] split: option.splits)

lemma cache_nat_entry_ok:
  assumes inv: "nat_inv {} s"
  obtains t where "cache_nat_entry nid (disk_view s nid) s = Some t" "nat_inv {} t" "same_disk s t"
    "\<And>n. nat_view t n = nat_view s n" "\<And>n. is_dirty t n \<longleftrightarrow> is_dirty s n"
proof (cases "radix_lookup (nat_root s) nid")
  case None
  obtain e g where g: "grab_nat_entry nid s = Some (e, g)" "nat_inv {nid} g" "same_disk s g"
    "\<And>n. radix_lookup (nat_root g) n = (if n = nid then Some e else radix_lookup (nat_root s) n)"
    "ni_nid (nat_ni e) = nid" "\<not> get_nat_flag e IS_DIRTY" "\<And>n. is_dirty g n \<longleftrightarrow> is_dirty s n"
    by (rule grab_nat_entry_ok[OF inv None]) blast
  let ?e = "e\<lparr>nat_ni := node_info_from_raw_nat (disk_view s nid) (nat_ni e)\<rparr>"
  have e: "ni_nid (nat_ni ?e) = nid" "\<not> get_nat_flag ?e IS_DIRTY" "raw_nat_from_node_info (nat_ni ?e) = disk_view s nid"
    using g(5,6) by (simp_all add: node_info_from_raw_nat_def raw_nat_from_node_info_def get_nat_flag_def)
  let ?t = "put_nat_entry nid ?e g"
  have sd: "same_disk s ?t" using g(3) put_nat_entry_frame(1) same_disk_trans by blast
  have look: "radix_lookup (nat_root ?t) n = (if n = nid then Some ?e else radix_lookup (nat_root s) n)" for n
    by (simp add: put_nat_entry_lookup[OF nat_invD(1)[OF g(2)]] g(4))
  have "nat_inv {} ?t"
    by (rule put_nat_entry_inv[OF g(2) _ e(1), of e]) (use e g(4,6) same_disk_view[OF g(3)] in simp_all)
  moreover have "nat_view ?t n = nat_view s n" for n
    using None e(3) by (simp add: nat_view_def look same_disk_view[OF sd] cong: option.case_cong)
  moreover have "is_dirty ?t n \<longleftrightarrow> is_dirty s n" for n
    using g(7)[of n] e(2) None by (auto simp: is_dirty_def look)
  ultimately show thesis using that[of ?t] None g(1) sd by (simp add: cache_nat_entry_def)
qed (use assms that in \<open>auto simp: cache_nat_entry_def\<close>)

definition ni_of_raw :: "u32 \<Rightarrow> f2fs_nat_entry \<Rightarrow> node_info" where
  "ni_of_raw nid raw = \<lparr>ni_nid = nid, ni_ino = raw_ino raw, ni_blk_addr = raw_block_addr raw, ni_version = raw_version raw\<rparr>"

lemma get_node_info_eq:
  assumes inv: "nat_inv {} s"
  obtains t where "get_node_info nid s = Some (ni_of_raw nid (nat_view s nid), t)" "nat_inv {} t" "same_disk s t"
    "\<And>n. nat_view t n = nat_view s n" "\<And>n. is_dirty t n \<longleftrightarrow> is_dirty s n"
proof (cases "radix_lookup (nat_root s) nid")
  case None
  obtain t where t: "cache_nat_entry nid (disk_view s nid) s = Some t" "nat_inv {} t" "same_disk s t"
    "\<And>n. nat_view t n = nat_view s n" "\<And>n. is_dirty t n \<longleftrightarrow> is_dirty s n"
    by (rule cache_nat_entry_ok[OF inv]) blast
  have "get_node_info nid s = Some (ni_of_raw nid (nat_view s nid), t)"
    using None t(1) by (simp only: get_node_info_def option.case disk_view_read[OF nat_invD(3)[OF inv]] Let_def)
      (simp add: nat_view_def ni_of_raw_def node_info_from_raw_nat_def)
  then show thesis using that t by blast
next
  case (Some e)
  then have "get_node_info nid s = Some (ni_of_raw nid (nat_view s nid), s)"
    by (simp add: get_node_info_def nat_view_def ni_of_raw_def raw_nat_from_node_info_def)
  then show thesis using that inv by simp
qed

lemma free_nats_loop_ok:
  assumes "nat_inv {} s"
  shows "nat_inv {} (snd (free_nats_loop n s)) \<and> same_disk s (snd (free_nats_loop n s))
    \<and> (\<forall>k. nat_view (snd (free_nats_loop n s)) k = nat_view s k) \<and> (\<forall>k. is_dirty (snd (free_nats_loop n s)) k \<longleftrightarrow> is_dirty s k)
    \<and> nat_entries (snd (free_nats_loop n s)) = drop n (nat_entries s)"
  using assms
proof (induction n s rule: free_nats_loop.induct)
  case (2 n s)
  show ?case
  proof (cases "nat_entries s")
    case (Cons nid rest)
    note d = del_from_nat_cache_ok[OF 2(2), of nid]
    have "nat_entries (del_from_nat_cache nid s) = rest" by (simp add: del_from_nat_cache_def Cons)
    then show ?thesis using 2(1)[OF Cons] d same_disk_trans[of s "del_from_nat_cache nid s"] Cons by simp
  qed (use 2 in simp)
qed simp

text \<open>The states a block address may go through: unallocated, allocated but never written, written.\<close>

definition addr_step :: "u32 \<Rightarrow> u32 \<Rightarrow> bool" where
  "addr_step old new \<longleftrightarrow> (new = NEW_ADDR \<longrightarrow> old = NULL_ADDR) \<and> (new = NULL_ADDR \<longrightarrow> old \<noteq> NULL_ADDR)"

lemma NULL_NEW: "NULL_ADDR \<noteq> NEW_ADDR" "NEW_ADDR \<noteq> NULL_ADDR"
  by (simp_all add: NULL_ADDR_def NEW_ADDR_def)

text \<open>The entry of the cache that \<open>set_node_addr\<close> works on.\<close>

definition addr_entry :: "node_info \<Rightarrow> u32 \<Rightarrow> f2fs_nm_info \<Rightarrow> (nat_entry \<times> f2fs_nm_info) option" where
  "addr_entry ni new s =
     (case radix_lookup (nat_root s) (ni_nid ni) of
        None \<Rightarrow> do { (e, s1) \<leftarrow> grab_nat_entry (ni_nid ni) s; bug_on (ni_blk_addr ni = NEW_ADDR); Some (e\<lparr>nat_ni := ni\<rparr>, s1) }
      | Some e \<Rightarrow>
          if new = NEW_ADDR then do { bug_on (ni_blk_addr ni \<noteq> NULL_ADDR); Some (e\<lparr>nat_ni := ni\<rparr>, s) }
          else Some (e, s))"

lemma set_addr_entry:
  assumes inv: "nat_inv {} s" and old: "ni_blk_addr ni = raw_block_addr (nat_view s (ni_nid ni))"
    and ni: "new = NEW_ADDR \<or> raw_nat_from_node_info ni = nat_view s (ni_nid ni)"
    and step: "addr_step (ni_blk_addr ni) new" and cold: "radix_lookup (nat_root s) (ni_nid ni) = None \<Longrightarrow> ni_blk_addr ni \<noteq> NEW_ADDR"
  obtains e e0 t where "addr_entry ni new s = Some (e, t)"
    "nat_inv {ni_nid ni} t" "same_disk s t" "radix_lookup (nat_root t) (ni_nid ni) = Some e0"
    "get_nat_flag e IS_DIRTY \<longleftrightarrow> get_nat_flag e0 IS_DIRTY" "ni_nid (nat_ni e) = ni_nid ni"
    "raw_nat_from_node_info (nat_ni e) = raw_nat_from_node_info ni"
    "\<And>n. n \<noteq> ni_nid ni \<Longrightarrow> nat_view t n = nat_view s n" "\<And>n. is_dirty t n \<longleftrightarrow> is_dirty s n"
proof (cases "radix_lookup (nat_root s) (ni_nid ni)")
  case None
  obtain e t where g: "grab_nat_entry (ni_nid ni) s = Some (e, t)" "nat_inv {ni_nid ni} t" "same_disk s t"
    "\<And>n. radix_lookup (nat_root t) n = (if n = ni_nid ni then Some e else radix_lookup (nat_root s) n)"
    "ni_nid (nat_ni e) = ni_nid ni" "\<not> get_nat_flag e IS_DIRTY" "\<And>n. is_dirty t n \<longleftrightarrow> is_dirty s n"
    by (rule grab_nat_entry_ok[OF inv None]) blast
  have "nat_view t n = nat_view s n" if "n \<noteq> ni_nid ni" for n
    using that by (simp add: nat_view_def g(4) same_disk_view[OF g(3)] cong: option.case_cong)
  then show thesis using that[of "e\<lparr>nat_ni := ni\<rparr>" t e] None g cold by (simp add: addr_entry_def get_nat_flag_def)
next
  case (Some e)
  have "nat_inv {ni_nid ni} s" using nat_inv_mono[OF inv] by simp
  moreover have "ni_nid (nat_ni e) = ni_nid ni" by (rule nat_invD(4)[OF inv Some])
  moreover have "raw_nat_from_node_info (nat_ni e) = nat_view s (ni_nid ni)" using Some by (simp add: nat_view_def)
  ultimately show thesis
    using that[of "if new = NEW_ADDR then e\<lparr>nat_ni := ni\<rparr> else e" s e] Some ni step
    by (auto simp: addr_entry_def addr_step_def get_nat_flag_def)
qed

lemma put_flag_ok:
  assumes inv: "nat_inv {} s" and f: "radix_lookup (nat_root s) n = Some f"
    and g: "nat_ni g = nat_ni f" "get_nat_flag g IS_DIRTY \<longleftrightarrow> get_nat_flag f IS_DIRTY"
  shows "nat_inv {} (put_nat_entry n g s)" "same_disk s (put_nat_entry n g s)" "nat_view (put_nat_entry n g s) k = nat_view s k"
    "is_dirty (put_nat_entry n g s) k \<longleftrightarrow> is_dirty s k"
proof -
  note D = nat_invD[OF inv]
  show "nat_inv {} (put_nat_entry n g s)"
    by (rule put_nat_entry_inv[OF inv f]) (use g D(4)[OF f] D(11)[OF f] in auto)
  show "same_disk s (put_nat_entry n g s)" by simp
  then show "nat_view (put_nat_entry n g s) k = nat_view s k"
    using f g(1) same_disk_view(1)[OF put_nat_entry_frame(1), of n g s k]
    by (simp add: nat_view_def put_nat_entry_lookup[OF D(1)] cong: option.case_cong)
  show "is_dirty (put_nat_entry n g s) k \<longleftrightarrow> is_dirty s k"
    using f g(2) by (simp add: is_dirty_def put_nat_entry_lookup[OF D(1)])
qed

text \<open>The entry that \<open>set_node_addr\<close> leaves: the version counts the releases of the node.\<close>

definition set_raw :: "node_info \<Rightarrow> u32 \<Rightarrow> f2fs_nat_entry" where
  "set_raw ni new = \<lparr>raw_version = (if new = NULL_ADDR \<and> ni_blk_addr ni \<noteq> NEW_ADDR then ni_version ni + 1 else ni_version ni),
     raw_ino = ni_ino ni, raw_block_addr = new\<rparr>"

lemma set_node_addr_eq:
  assumes inv: "nat_inv {} s" and old: "ni_blk_addr ni = raw_block_addr (nat_view s (ni_nid ni))"
    and ni: "new = NEW_ADDR \<or> raw_nat_from_node_info ni = nat_view s (ni_nid ni)"
    and step: "addr_step (ni_blk_addr ni) new" and cold: "radix_lookup (nat_root s) (ni_nid ni) = None \<Longrightarrow> ni_blk_addr ni \<noteq> NEW_ADDR"
  obtains t where "set_node_addr ni new fsync_done s = Some t" "nat_inv {} t" "same_disk s t"
    "\<And>n. nat_view t n = (if n = ni_nid ni then set_raw ni new else nat_view s n)"
    "\<And>n. is_dirty t n \<longleftrightarrow> n = ni_nid ni \<or> is_dirty s n"
proof -
  let ?nid = "ni_nid ni"
  obtain e e0 s1 where e: "addr_entry ni new s = Some (e, s1)"
    "nat_inv {?nid} s1" "same_disk s s1" "radix_lookup (nat_root s1) ?nid = Some e0"
    "get_nat_flag e IS_DIRTY \<longleftrightarrow> get_nat_flag e0 IS_DIRTY" "ni_nid (nat_ni e) = ?nid"
    "raw_nat_from_node_info (nat_ni e) = raw_nat_from_node_info ni"
    "\<And>n. n \<noteq> ?nid \<Longrightarrow> nat_view s1 n = nat_view s n" "\<And>n. is_dirty s1 n \<longleftrightarrow> is_dirty s n"
    by (rule set_addr_entry[OF inv old ni step]) (rule cold, assumption, blast)
  have ne: "ni_ino (nat_ni e) = ni_ino ni" "ni_blk_addr (nat_ni e) = ni_blk_addr ni" "ni_version (nat_ni e) = ni_version ni"
    using e(7) by (simp_all add: raw_nat_from_node_info_def)
  define e2 where "e2 = (let blk = ni_blk_addr (nat_ni e);
     n1 = (if blk \<noteq> NEW_ADDR \<and> new = NULL_ADDR then (nat_ni e)\<lparr>ni_version := ni_version (nat_ni e) + 1\<rparr> else nat_ni e);
     e1 = e\<lparr>nat_ni := n1\<lparr>ni_blk_addr := new\<rparr>\<rparr> in
     (if new = NEW_ADDR \<or> new = NULL_ADDR then set_nat_flag IS_CHECKPOINTED False e1 else e1))"
  have e2: "ni_nid (nat_ni e2) = ?nid" "raw_nat_from_node_info (nat_ni e2) = set_raw ni new"
    "get_nat_flag e2 IS_DIRTY \<longleftrightarrow> get_nat_flag e0 IS_DIRTY"
    using e(5,6) ne by (simp_all add: e2_def Let_def raw_nat_from_node_info_def set_raw_def nat_flags NULL_NEW) (simp_all add: get_nat_flag_def)
  let ?s1 = "put_nat_entry ?nid e2 s1"
  have i1: "nat_inv {?nid} ?s1" by (rule put_nat_entry_inv[OF e(2,4) e2(1,3)]) simp_all
  have l1: "radix_lookup (nat_root ?s1) n = (if n = ?nid then Some e2 else radix_lookup (nat_root s1) n)" for n
    by (rule put_nat_entry_lookup[OF nat_invD(1)[OF e(2)]])
  have d1: "is_dirty ?s1 n \<longleftrightarrow> is_dirty s1 n" for n
    using is_dirty_put[OF nat_invD(1)[OF e(2)]] e2(3) is_dirty_lookup[OF e(4)] by simp
  obtain s2 where s2: "set_nat_cache_dirty ?nid ?s1 = Some s2" "nat_inv ({?nid} - {?nid}) s2" "same_disk ?s1 s2"
    "\<And>n. radix_lookup (nat_root s2) n = (if n = ?nid then Some (set_nat_flag IS_DIRTY True e2) else radix_lookup (nat_root ?s1) n)"
    "\<And>n. is_dirty s2 n \<longleftrightarrow> n = ?nid \<or> is_dirty ?s1 n"
    by (rule set_nat_cache_dirty_ok[OF i1, of ?nid e2]) (simp add: l1, blast)
  have sd: "same_disk s s2" using e(3) s2(3) same_disk_trans put_nat_entry_frame(1) by blast
  have v2: "nat_view s2 n = (if n = ?nid then set_raw ni new else nat_view s n)" for n
    using e(8)[of n] e2(2)
    by (simp add: nat_view_def s2(4) l1 same_disk_view[OF sd] same_disk_view[OF e(3)] cong: option.case_cong)
  have i2: "nat_inv {} s2" using s2(2) by simp
  have eq: "set_node_addr ni new fsync_done s =
     (case radix_lookup (nat_root s2) (ni_ino ni) of
        None \<Rightarrow> Some s2
      | Some f \<Rightarrow> Some (put_nat_entry (ni_ino ni) (set_nat_flag HAS_LAST_FSYNC fsync_done
          (if fsync_done \<and> ?nid = ni_ino ni then set_nat_flag HAS_FSYNCED_INODE True f else f)) s2))"
    using step ne(2) s2(1) unfolding set_node_addr_def Let_def
    by (simp only: addr_entry_def[symmetric] e(1)) (auto simp: addr_step_def e2_def Let_def NULL_NEW)
  show thesis
  proof (cases "radix_lookup (nat_root s2) (ni_ino ni)")
    case None
    then show thesis using that[of s2] eq i2 sd v2 s2(5) d1 e(9) by simp
  next
    case (Some f)
    let ?g = "set_nat_flag HAS_LAST_FSYNC fsync_done
          (if fsync_done \<and> ?nid = ni_ino ni then set_nat_flag HAS_FSYNCED_INODE True f else f)"
    have g: "nat_ni ?g = nat_ni f" "get_nat_flag ?g IS_DIRTY \<longleftrightarrow> get_nat_flag f IS_DIRTY" by (simp_all add: nat_flags)
    define u where "u = put_nat_entry (ni_ino ni) ?g s2"
    note p = put_flag_ok[OF i2 Some g, folded u_def]
    have "set_node_addr ni new fsync_done s = Some u" using eq Some by (simp add: u_def)
    then show thesis using that[of u] p v2 s2(5) d1 e(9) same_disk_trans[OF sd p(2)] by simp
  qed
qed

subsection \<open>A state of the table\<close>

text \<open>Node 4 is in a NAT block, node 7 in the journal, and the new address of node 5 is dirty in the cache.\<close>

definition nat_example :: f2fs_nm_info where
  "nat_example = \<lparr>nat_blkaddr = 100, log_blocks_per_seg = 9, blocks_per_seg = 512, max_nid = 4550, available_nids = 4547,
     next_scan_nid = 0, ram_thresh = 10, totalram = 100000, dirty_exceeded = False, dirty_dents = 0,
     nat_root = [(5, \<lparr>nat_flag = 8, nat_ni = \<lparr>ni_nid = 5, ni_ino = 4, ni_blk_addr = 7000, ni_version = 1\<rparr>\<rparr>)],
     nat_set_root = [(0, \<lparr>entry_list = [5], entry_cnt = 1\<rparr>)], nat_entries = [], nat_cnt = 1, dirty_nat_cnt = 1,
     free_nid_root = [], free_nid_list = [], fcnt = 0, nat_bitmap = (\<lambda>_. 0),
     nat_pages = (\<lambda>a i. if a = 100 \<and> i = 4 then \<lparr>raw_version = 0, raw_ino = 4, raw_block_addr = 6000\<rparr>
       else \<lparr>raw_version = 0, raw_ino = 0, raw_block_addr = 0\<rparr>),
     cursum = \<lparr>n_nats = 1, nat_j = (\<lambda>i. (7, \<lparr>raw_version = 0, raw_ino = 4, raw_block_addr = 6500\<rparr>))\<rparr>,
     total_valid_node_count = 3\<rparr>"

lemma nat_example_root:
  "radix_lookup (nat_root nat_example) n
    = (if n = 5 then Some \<lparr>nat_flag = 8, nat_ni = \<lparr>ni_nid = 5, ni_ino = 4, ni_blk_addr = 7000, ni_version = 1\<rparr>\<rparr> else None)"
  "radix_lookup (nat_set_root nat_example) k = (if k = 0 then Some \<lparr>entry_list = [5], entry_cnt = 1\<rparr> else None)"
  by (auto simp: nat_example_def radix_lookup_def)

lemma nat_example_dirty: "is_dirty nat_example n \<longleftrightarrow> n = 5"
  by (auto simp: is_dirty_def nat_example_root get_nat_flag_def IS_DIRTY_def)

lemma nat_example_sets: "set_list nat_example k = (if k = 0 then [5] else [])" "dirty_total nat_example = 1"
  by (simp_all add: set_list_def nat_example_root) (simp add: dirty_total_def nat_example_def)

lemma nat_example_inv: "nat_inv {} nat_example"
proof (rule nat_invI)
  show "radix_ok (nat_root nat_example)" "radix_ok (nat_set_root nat_example)" "nat_geometry nat_example"
    "distinct (nat_entries nat_example)" "n_nats (cursum nat_example) \<le> NAT_JOURNAL_ENTRIES"
    by (simp_all add: radix_ok_def nat_geometry_def nat_example_def NAT_JOURNAL_ENTRIES_def)
  show "dirty_nat_cnt nat_example = of_nat (dirty_total nat_example)" unfolding nat_example_sets by (simp add: nat_example_def)
  show "nid \<in> set (nat_entries nat_example) \<longleftrightarrow> radix_lookup (nat_root nat_example) nid \<noteq> None \<and> \<not> is_dirty nat_example nid" for nid
    by (simp add: nat_example_dirty nat_example_root) (simp add: nat_example_def)
qed (auto simp: nat_example_root nat_example_dirty nat_example_sets NAT_ENTRY_PER_BLOCK_def get_nat_flag_def IS_DIRTY_def split: if_splits)

lemma nat_example_view:
  "nat_view nat_example 5 = \<lparr>raw_version = 1, raw_ino = 4, raw_block_addr = 7000\<rparr>"
  "nat_view nat_example 7 = \<lparr>raw_version = 0, raw_ino = 4, raw_block_addr = 6500\<rparr>"
  by (simp_all add: nat_view_def nat_example_root raw_nat_from_node_info_def disk_view_def)
    (simp add: nat_example_def find_in_journal_def)

lemma nat_example_written: "raw_block_addr (nat_view nat_example n) \<noteq> NEW_ADDR"
proof -
  have "raw_block_addr (nat_pages nat_example a i) \<noteq> NEW_ADDR" for a i by (simp add: nat_example_def NEW_ADDR_def)
  moreover have "raw_block_addr (snd (nat_j (cursum nat_example) i)) \<noteq> NEW_ADDR" for i by (simp add: nat_example_def NEW_ADDR_def)
  ultimately show ?thesis
    by (simp add: nat_view_def nat_example_root disk_view_def page_view_def raw_nat_from_node_info_def NEW_ADDR_def split: option.splits)
qed

subsection \<open>The properties\<close>

lemma set_node_addr_bug:
  assumes ni: "raw_nat_from_node_info ni = nat_view s (ni_nid ni)"
    and step: "\<not> addr_step (ni_blk_addr ni) new" and cold: "radix_lookup (nat_root s) (ni_nid ni) = None \<Longrightarrow> ni_blk_addr ni \<noteq> NEW_ADDR"
  shows "set_node_addr ni new fsync_done s = None"
proof (cases "radix_lookup (nat_root s) (ni_nid ni)")
  case None
  then show ?thesis using step cold
    by (auto simp: set_node_addr_def addr_step_def Let_def bug_on_def split: option.splits bind_splits)
next
  case (Some e)
  have "ni_blk_addr (nat_ni e) = ni_blk_addr ni" using ni Some by (simp add: nat_view_def raw_nat_from_node_info_def)
  then show ?thesis using step Some by (auto simp: set_node_addr_def addr_step_def Let_def bug_on_def NULL_NEW)
qed

text \<open>C33: \<open>get_node_info\<close> returns the entry of the table for every node number, whether it is in the cache, in
  the journal of the hot data summary or in the current copy of its NAT block. What it puts into the cache changes
  neither the table, nor the disk, nor what is dirty, and keeps the invariant of the cache. The same holds of the
  shrinker \<open>try_to_free_nats\<close>, which never drops a dirty entry.\<close>

theorem get_node_info_reads_table:
  assumes "nat_inv {} s"
  shows "(\<exists>t. get_node_info nid s = Some (ni_of_raw nid (nat_view s nid), t) \<and> nat_inv {} t \<and> same_disk s t
      \<and> (\<forall>n. nat_view t n = nat_view s n) \<and> (\<forall>n. is_dirty t n \<longleftrightarrow> is_dirty s n))
    \<and> (let t = snd (try_to_free_nats nr s) in nat_inv {} t \<and> same_disk s t
      \<and> (\<forall>n. nat_view t n = nat_view s n) \<and> (\<forall>n. is_dirty t n \<longleftrightarrow> is_dirty s n))"
proof
  show "\<exists>t. get_node_info nid s = Some (ni_of_raw nid (nat_view s nid), t) \<and> nat_inv {} t \<and> same_disk s t
      \<and> (\<forall>n. nat_view t n = nat_view s n) \<and> (\<forall>n. is_dirty t n \<longleftrightarrow> is_dirty s n)"
    by (rule get_node_info_eq[OF assms, of nid]) blast
  show "let t = snd (try_to_free_nats nr s) in nat_inv {} t \<and> same_disk s t
      \<and> (\<forall>n. nat_view t n = nat_view s n) \<and> (\<forall>n. is_dirty t n \<longleftrightarrow> is_dirty s n)"
    using free_nats_loop_ok[OF assms, of nr] assms by (simp add: try_to_free_nats_def Let_def)
qed

theorem get_node_info_reads_table_witness:
  "\<exists>t. get_node_info 7 nat_example = Some (\<lparr>ni_nid = 7, ni_ino = 4, ni_blk_addr = 6500, ni_version = 0\<rparr>, t)
     \<and> nat_view t 5 = \<lparr>raw_version = 1, raw_ino = 4, raw_block_addr = 7000\<rparr> \<and> is_dirty t 5"
  using get_node_info_reads_table[OF nat_example_inv, of 7 0] nat_example_view nat_example_dirty
  by (auto simp: ni_of_raw_def)



end
