(* ===== verification/F2fsFlushSpec.thy ===== *)
theory F2fsFlushSpec
  imports F2fsFlush F2fsNatCache
begin

text \<open>
  The checkpoint of the node address table as a whole.
\<close>

subsection \<open>All sets\<close>

lemma mset_insert_set: "mset (insert_set x xs) = add_mset x (mset xs)"
  by (induction x xs rule: insert_set.induct) auto

lemma mset_adjust: "mset (adjust_nat_entry_set x xs m) = add_mset x (mset xs)"
  by (simp add: adjust_nat_entry_set_def mset_insert_set)

lemma mset_adjust_fold:
  "mset (fold (\<lambda>(k, h) sets. adjust_nat_entry_set (k, entry_cnt h) sets m) found sets)
    = mset (map (\<lambda>(k, h). (k, entry_cnt h)) found) + mset sets"
  by (induction found arbitrary: sets) (auto simp: mset_adjust)

lemma succ_le_iff: "(m :: u32) < - 1 \<Longrightarrow> m + 1 \<le> j \<longleftrightarrow> m < j"
  by (simp add: word_le_nat_alt word_less_nat_alt unat_inc Suc_le_eq)

lemma gang_rest:
  assumes t: "sorted_wrt (<) (map fst t)" and b: "\<And>k. k \<in> set (map fst t) \<Longrightarrow> k < (- 1 :: u32)"
    and f: "take n (filter (\<lambda>(j, v). i \<le> j) t) = found" "found \<noteq> []"
  shows "filter (\<lambda>(j, v). fst (last found) + 1 \<le> j) t = drop n (filter (\<lambda>(j, v). i \<le> j) t)"
proof -
  let ?r = "filter (\<lambda>(j, v). i \<le> j) t"
  have r: "?r = found @ drop n ?r" using f(1) append_take_drop_id[of n ?r] by simp
  have l: "last found \<in> set ?r" using r f(2) by (metis Un_iff last_in_set set_append)
  then have m: "i \<le> fst (last found)" "fst (last found) < - 1" using b by (auto split: prod.splits)
  have "sorted_wrt (<) (map fst ?r)" using t by (simp add: sorted_wrt_map sorted_wrt_filter)
  then have "sorted_wrt (<) (map fst found @ map fst (drop n ?r))" by (subst (asm) r) (simp add: map_append)
  then have s: "sorted_wrt (<) (map fst found)" "\<forall>x \<in> set (map fst found). \<forall>y \<in> set (map fst (drop n ?r)). x < y"
    by (simp_all add: sorted_wrt_append)
  have hi: "fst (last found) < fst p" if "p \<in> set (drop n ?r)" for p using s(2) f(2) that by auto
  have lo: "fst p \<le> fst (last found)" if "p \<in> set found" for p
  proof -
    have bl: "found = butlast found @ [last found]" using f(2) by simp
    then have "sorted_wrt (<) (map fst (butlast found) @ [fst (last found)])" using s(1) by (metis list.simps(8,9) map_append)
    then have "\<forall>q \<in> set (butlast found). fst q < fst (last found)" by (auto simp: sorted_wrt_append)
    moreover have "p \<in> set (butlast found) \<or> p = last found" using that bl by (metis Un_iff empty_iff empty_set set_ConsD set_append)
    ultimately show ?thesis by auto
  qed
  have "filter (\<lambda>(j, v). fst (last found) + 1 \<le> j) t = filter (\<lambda>(j, v). fst (last found) < j) ?r"
    using m by (auto simp: succ_le_iff intro!: filter_cong)
  also have "\<dots> = filter (\<lambda>(j, v). fst (last found) < j) found @ filter (\<lambda>(j, v). fst (last found) < j) (drop n ?r)"
    by (subst r) simp
  also have "filter (\<lambda>(j, v). fst (last found) < j) found = []" using lo by (force simp: filter_empty_conv not_less)
  also have "filter (\<lambda>(j, v). fst (last found) < j) (drop n ?r) = drop n ?r" using hi by (force intro: filter_True)
  finally show ?thesis by simp
qed

lemma gang_sets_ok:
  assumes "radix_ok (nat_set_root s)" "\<And>k. k \<in> set (map fst (nat_set_root s)) \<Longrightarrow> k < - 1"
    and "length (filter (\<lambda>(j, v). idx \<le> j) (nat_set_root s)) < fuel"
  shows "\<exists>res. gang_sets fuel idx sets s = Some res
    \<and> mset res = mset (map (\<lambda>(k, h). (k, entry_cnt h)) (filter (\<lambda>(j, v). idx \<le> j) (nat_set_root s))) + mset sets"
  using assms(3)
proof (induction fuel arbitrary: idx sets)
  case (Suc fuel)
  let ?r = "filter (\<lambda>(j, v). idx \<le> j) (nat_set_root s)"
  let ?f = "radix_gang_lookup (nat_set_root s) idx NATVEC_SIZE"
  have f: "take NATVEC_SIZE ?r = ?f" by (simp add: radix_gang_lookup_def)
  show ?case
  proof (cases "?f = []")
    case True
    then have "?r = []" using f by (simp add: NATVEC_SIZE_def)
    then show ?thesis using True by (simp only: gang_sets.simps Let_def if_True) simp
  next
    case False
    have rest: "filter (\<lambda>(j, v). fst (last ?f) + 1 \<le> j) (nat_set_root s) = drop NATVEC_SIZE ?r"
      by (rule gang_rest[OF _ assms(2) f False]) (use assms(1) in \<open>simp_all add: radix_ok_def\<close>)
    have "?r \<noteq> []" using False f by (metis take_Nil)
    then have "length (drop NATVEC_SIZE ?r) < length ?r" by (simp only: length_drop NATVEC_SIZE_def) simp
    then have "length (filter (\<lambda>(j, v). fst (last ?f) + 1 \<le> j) (nat_set_root s)) < fuel"
      using Suc.prems rest by (simp only:) 
    from Suc.IH[OF this, of "fold (\<lambda>(k, h) sets. adjust_nat_entry_set (k, entry_cnt h) sets (NAT_JOURNAL_ENTRIES - n_nats (cursum s))) ?f sets"]
    obtain res where res: "gang_sets (Suc fuel) idx sets s = Some res"
      "mset res = mset (map (\<lambda>(k, h). (k, entry_cnt h)) (drop NATVEC_SIZE ?r)) + (mset (map (\<lambda>(k, h). (k, entry_cnt h)) ?f) + mset sets)"
      using False unfolding rest by (auto simp: mset_adjust_fold Let_def simp del: mset_map)
    have "mset (map (\<lambda>(k, h). (k, entry_cnt h)) ?r) = mset (map (\<lambda>(k, h). (k, entry_cnt h)) (?f @ drop NATVEC_SIZE ?r))"
      by (simp only: f[symmetric] append_take_drop_id)
    then show ?thesis using res by (simp only: map_append mset_append add_ac) blast
  qed
qed simp

subsection \<open>All sets\<close>

text \<open>The relation between the state before and after the sets \<open>ks\<close> were flushed.\<close>

definition sets_flushed :: "u32 list \<Rightarrow> f2fs_nm_info \<Rightarrow> f2fs_nm_info \<Rightarrow> bool" where
  "sets_flushed ks s t \<longleftrightarrow> nat_inv {} t \<and> (\<forall>n. nat_view t n = nat_view s n)
     \<and> (\<forall>n. is_dirty t n \<longleftrightarrow> is_dirty s n \<and> n div NAT_ENTRY_PER_BLOCK \<notin> set ks)
     \<and> map fst (nat_set_root t) = filter (\<lambda>j. j \<notin> set ks) (map fst (nat_set_root s))
     \<and> nat_blkaddr t = nat_blkaddr s \<and> log_blocks_per_seg t = log_blocks_per_seg s \<and> blocks_per_seg t = blocks_per_seg s
     \<and> (\<forall>a. (\<forall>k \<in> set ks. a \<noteq> nat_addr s (unat k) (\<not> second_copy s (unat k))) \<longrightarrow> nat_pages t a = nat_pages s a)"

lemma sets_flushed_Cons:
  assumes s: "set_flushed k s t" and t: "sets_flushed ks t u" and k: "k \<notin> set ks"
  shows "sets_flushed (k # ks) s u"
proof -
  have "nat_addr t (unat j) (\<not> second_copy t (unat j)) = nat_addr s (unat j) (\<not> second_copy s (unat j))" if "j \<in> set ks" for j
  proof -
    have "unat j \<noteq> unat k" using that k by (metis unsigned_word_eqI)
    then show ?thesis using s by (simp add: set_flushed_def nat_addr_def)
  qed
  then have "nat_pages u a = nat_pages s a"
    if "\<forall>j \<in> set (k # ks). a \<noteq> nat_addr s (unat j) (\<not> second_copy s (unat j))" for a
    using that s t by (simp add: set_flushed_def sets_flushed_def)
  moreover have "map fst (nat_set_root u) = filter (\<lambda>j. j \<notin> set (k # ks)) (map fst (nat_set_root s))"
    using s t by (auto simp: set_flushed_def sets_flushed_def intro: filter_cong)
  ultimately show ?thesis using s t by (auto simp: set_flushed_def sets_flushed_def)
qed

lemma flush_sets_ok:
  assumes "nat_inv {} s" "distinct ks" "\<forall>k \<in> set ks. k \<in> set (map fst (nat_set_root s))" "dirty_total s < 2 ^ 31"
    and "\<And>n. is_dirty s n \<Longrightarrow> raw_block_addr (nat_view s n) \<noteq> NEW_ADDR"
    and "n_nats (cursum s) + dirty_total s \<le> NAT_JOURNAL_ENTRIES
      \<or> (\<forall>n \<in> journal_nids (cursum s). n div NAT_ENTRY_PER_BLOCK \<notin> set ks)"
  shows "\<exists>t. foldM flush_nat_entry_set ks s = Some t \<and> sets_flushed ks s t"
  using assms
proof (induction ks arbitrary: s)
  case Nil
  then show ?case by (simp add: sets_flushed_def)
next
  case (Cons k ks)
  obtain head where h: "radix_lookup (nat_set_root s) k = Some head"
    using Cons.prems(3) radix_lookup_None[of "nat_set_root s" k] by auto
  obtain t where t: "flush_nat_entry_set k s = Some t" "set_flushed k s t"
    by (rule flush_nat_entry_set_ok[OF Cons.prems(1) h Cons.prems(4,5)]) (use Cons.prems(6) in auto)
  have "\<forall>n \<in> set (set_list s k). n div NAT_ENTRY_PER_BLOCK = k" using nat_invD(5)[OF Cons.prems(1)] by auto
  then have room: "n_nats (cursum t) + dirty_total t \<le> NAT_JOURNAL_ENTRIES
      \<or> (\<forall>n \<in> journal_nids (cursum t). n div NAT_ENTRY_PER_BLOCK \<notin> set ks)"
    using Cons.prems(2,6) t(2) unfolding set_flushed_def by fastforce
  have "\<exists>u. foldM flush_nat_entry_set ks t = Some u \<and> sets_flushed ks t u"
    by (rule Cons.IH[OF _ _ _ _ _ room]) (use Cons.prems t(2) in \<open>auto simp: set_flushed_def\<close>)
  then show ?case using t(1) sets_flushed_Cons[OF t(2)] Cons.prems(2) by auto
qed

subsection \<open>Emptying the journal\<close>

lemma find_in_journal_first:
  assumes "i < n_nats sm" "\<And>j. j < i \<Longrightarrow> fst (nat_j sm j) \<noteq> fst (nat_j sm i)"
  shows "find_in_journal sm (fst (nat_j sm i)) = Some i"
  using assms by (auto simp: find_in_journal_def find_Some_iff intro!: exI[of _ i])

lemma remove_nat_ok:
  assumes inv: "nat_inv {} s" and i: "i < n_nats (cursum s)" and nid: "nid = fst (nat_j (cursum s) i)"
    and done_before: "\<And>j. j < i \<Longrightarrow> is_dirty s (fst (nat_j (cursum s) j))"
  obtains t where "remove_nat_in_journal i s = Some t" "nat_inv {} t" "same_disk s t" "\<And>n. nat_view t n = nat_view s n"
    "\<And>n. is_dirty t n \<longleftrightarrow> n = nid \<or> is_dirty s n" "dirty_total t \<le> Suc (dirty_total s)"
proof -
  obtain raw where raw: "nat_j (cursum s) i = (nid, raw)" using nid by (cases "nat_j (cursum s) i") simp
  obtain s1 e where s1: "(case radix_lookup (nat_root s) nid of Some e \<Rightarrow> Some s | None \<Rightarrow> do {
            (ne, s1) \<leftarrow> grab_nat_entry nid s;
            Some (put_nat_entry nid (ne\<lparr>nat_ni := node_info_from_raw_nat raw (nat_ni ne)\<rparr>) s1) }) = Some s1"
    "nat_inv {} s1" "same_disk s s1" "\<And>n. nat_view s1 n = nat_view s n" "\<And>n. is_dirty s1 n \<longleftrightarrow> is_dirty s n"
    "dirty_total s1 = dirty_total s" "radix_lookup (nat_root s1) nid = Some e"
  proof (cases "radix_lookup (nat_root s) nid")
    case None
    have "fst (nat_j (cursum s) j) \<noteq> nid" if "j < i" for j
      using done_before[OF that] None by (auto simp: is_dirty_def)
    then have "find_in_journal (cursum s) nid = Some i" using find_in_journal_first[OF i] unfolding nid by blast
    then have dv: "disk_view s nid = raw" by (simp add: disk_view_def raw)
    obtain e g where g: "grab_nat_entry nid s = Some (e, g)" "nat_inv {nid} g" "same_disk s g"
      "\<And>n. radix_lookup (nat_root g) n = (if n = nid then Some e else radix_lookup (nat_root s) n)"
      "ni_nid (nat_ni e) = nid" "\<not> get_nat_flag e IS_DIRTY" "\<And>n. is_dirty g n \<longleftrightarrow> is_dirty s n" "nat_set_root g = nat_set_root s"
      by (rule grab_nat_entry_ok[OF inv None]) blast
    let ?e = "e\<lparr>nat_ni := node_info_from_raw_nat raw (nat_ni e)\<rparr>"
    have e: "ni_nid (nat_ni ?e) = nid" "\<not> get_nat_flag ?e IS_DIRTY" "raw_nat_from_node_info (nat_ni ?e) = raw"
      using g(5,6) by (simp_all add: node_info_from_raw_nat_def raw_nat_from_node_info_def get_nat_flag_def)
    let ?t = "put_nat_entry nid ?e g"
    have sd: "same_disk s ?t" using g(3) put_nat_entry_frame(1) same_disk_trans by blast
    have g0: "radix_lookup (nat_root g) nid = Some e" by (simp add: g(4))
    have look: "radix_lookup (nat_root ?t) n = (if n = nid then Some ?e else radix_lookup (nat_root s) n)" for n
      by (simp add: put_nat_entry_lookup[OF nat_invD(1)[OF g(2)]] g(4))
    have "nat_inv {} ?t"
      by (rule put_nat_entry_inv[OF g(2) g0 e(1)]) (use e g(6) dv same_disk_view[OF g(3)] in simp_all)
    moreover have "nat_view ?t n = nat_view s n" for n
      using None dv e(3) by (simp add: nat_view_def look same_disk_view[OF sd] cong: option.case_cong)
    moreover have "is_dirty ?t n \<longleftrightarrow> is_dirty s n" for n
      using g(7)[of n] e(2) None by (auto simp: is_dirty_def look)
    ultimately show thesis
      using that[of ?t ?e] None g(1,8) sd by (simp add: look dirty_total_def)
  qed (use inv that in auto)
  obtain t where t: "set_nat_cache_dirty nid s1 = Some t" "nat_inv ({} - {nid}) t" "same_disk s1 t"
    "\<And>n. radix_lookup (nat_root t) n = (if n = nid then Some (set_nat_flag IS_DIRTY True e) else radix_lookup (nat_root s1) n)"
    "\<And>n. is_dirty t n \<longleftrightarrow> n = nid \<or> is_dirty s1 n"
    "dirty_total t = (if is_dirty s1 nid then dirty_total s1 else Suc (dirty_total s1))"
    by (rule set_nat_cache_dirty_ok[OF s1(2,7)]) blast
  have "nat_view t n = nat_view s n" for n
    using s1(4)[of n] s1(7) by (auto simp: nat_view_def t(4) same_disk_view[OF t(3)] cong: option.case_cong)
  then show thesis
    using that[of t] s1 t raw same_disk_trans[OF s1(3) t(3)] by (simp add: remove_nat_in_journal_def)
qed

lemma remove_nats_fold:
  assumes "nat_inv {} s" "m \<le> n_nats (cursum s)"
  shows "\<exists>t. foldM remove_nat_in_journal [0 ..< m] s = Some t \<and> nat_inv {} t \<and> same_disk s t \<and> (\<forall>n. nat_view t n = nat_view s n)
    \<and> (\<forall>n. is_dirty t n \<longleftrightarrow> is_dirty s n \<or> n \<in> (\<lambda>i. fst (nat_j (cursum s) i)) ` {..<m}) \<and> dirty_total t \<le> dirty_total s + m"
  using assms(2)
proof (induction m)
  case (Suc m)
  then obtain t where t: "foldM remove_nat_in_journal [0 ..< m] s = Some t" "nat_inv {} t" "same_disk s t" "\<forall>n. nat_view t n = nat_view s n"
    "\<forall>n. is_dirty t n \<longleftrightarrow> is_dirty s n \<or> n \<in> (\<lambda>i. fst (nat_j (cursum s) i)) ` {..<m}" "dirty_total t \<le> dirty_total s + m"
    by auto
  have c: "cursum t = cursum s" using t(3) by (simp add: same_disk_def)
  obtain u where u: "remove_nat_in_journal m t = Some u" "nat_inv {} u" "same_disk t u" "\<And>n. nat_view u n = nat_view t n"
    "\<And>n. is_dirty u n \<longleftrightarrow> n = fst (nat_j (cursum t) m) \<or> is_dirty t n" "dirty_total u \<le> Suc (dirty_total t)"
    by (rule remove_nat_ok[OF t(2), of m "fst (nat_j (cursum t) m)"]) (use Suc.prems c t(5) in auto)
  have "foldM remove_nat_in_journal [0 ..< Suc m] s = Some u" using t(1) u(1) by (simp add: foldM_append)
  moreover have "is_dirty u n \<longleftrightarrow> is_dirty s n \<or> n \<in> (\<lambda>i. fst (nat_j (cursum s) i)) ` {..<Suc m}" for n
    using t(5) u(5)[of n] c by (auto simp: lessThan_Suc)
  ultimately show ?case using t(4,6) u(2,4,6) same_disk_trans[OF t(3) u(3)] by auto
qed (simp add: assms(1))

lemma remove_nats_ok:
  assumes inv: "nat_inv {} s"
  obtains t where "remove_nats_in_journal s = Some t" "nat_inv {} t" "\<And>n. nat_view t n = nat_view s n"
    "dirty_total t \<le> dirty_total s + n_nats (cursum s)" "n_nats (cursum t) = 0" "nat_pages t = nat_pages s"
    "nat_bitmap t = nat_bitmap s" "nat_blkaddr t = nat_blkaddr s" "log_blocks_per_seg t = log_blocks_per_seg s"
    "blocks_per_seg t = blocks_per_seg s"
proof -
  obtain u where u: "foldM remove_nat_in_journal [0 ..< n_nats (cursum s)] s = Some u" "nat_inv {} u" "same_disk s u"
    "\<forall>n. nat_view u n = nat_view s n" "\<forall>n. is_dirty u n \<longleftrightarrow> is_dirty s n \<or> n \<in> journal_nids (cursum s)"
    "dirty_total u \<le> dirty_total s + n_nats (cursum s)"
    using remove_nats_fold[OF inv order_refl] by (auto simp: journal_nids_def)
  have c: "cursum u = cursum s" using u(3) by (simp add: same_disk_def)
  define t where "t = u\<lparr>cursum := snd (update_nats_in_cursum (- int (n_nats (cursum s))) (cursum u))\<rparr>"
  have f: "same_cache u t" "n_nats (cursum t) = 0" "nat_pages t = nat_pages u" "nat_bitmap t = nat_bitmap u"
    "nat_blkaddr t = nat_blkaddr u" "log_blocks_per_seg t = log_blocks_per_seg u" "blocks_per_seg t = blocks_per_seg u"
    by (simp_all add: t_def same_cache_def update_nats_in_cursum_def c)
  have pv: "page_view t n = page_view u n" for n by (simp add: page_view_def nat_addr_def second_copy_def f)
  have "journal_view (cursum t) n = None" for n using f(2) by (simp add: journal_view_None journal_nids_def)
  then have dt: "disk_view t n = page_view u n" for n by (simp add: disk_view_journal pv)
  have du: "disk_view u n = page_view u n" if "\<not> is_dirty u n" for n
    using that u(5) c by (simp add: disk_view_journal journal_view_None[THEN iffD2])
  have inv_t: "nat_inv {} t"
    by (rule nat_inv_disk[OF u(2) f(1)]) (use nat_invD(3)[OF u(2)] f dt du in \<open>auto simp: nat_geometry_def\<close>)
  have "nat_view t n = nat_view u n" for n
  proof (cases "radix_lookup (nat_root u) n")
    case None
    then have "\<not> is_dirty u n" by (simp add: is_dirty_def)
    then show ?thesis using None f(1) dt du by (simp add: nat_view_def same_cache_def)
  qed (use f(1) in \<open>simp add: nat_view_def same_cache_def\<close>)
  moreover have "remove_nats_in_journal s = Some t" using u(1) by (simp add: remove_nats_in_journal_def t_def)
  ultimately show thesis
    using that[of t] inv_t u(3,4,6) f same_cache_simps(3)[OF f(1)] by (simp add: same_disk_def)
qed

subsection \<open>The checkpoint\<close>

lemma flush_prepare:
  assumes inv: "nat_inv {} s" and small: "dirty_total s + NAT_JOURNAL_ENTRIES < 2 ^ 31"
  obtains t where "(if has_cursum_space (cursum s) (sint (dirty_nat_cnt s)) then Some s else remove_nats_in_journal s) = Some t"
    "nat_inv {} t" "\<And>n. nat_view t n = nat_view s n" "dirty_total t < 2 ^ 31"
    "n_nats (cursum t) + dirty_total t \<le> NAT_JOURNAL_ENTRIES \<or> journal_nids (cursum t) = {}" "nat_pages t = nat_pages s"
    "nat_bitmap t = nat_bitmap s" "nat_blkaddr t = nat_blkaddr s" "log_blocks_per_seg t = log_blocks_per_seg s"
    "blocks_per_seg t = blocks_per_seg s"
proof -
  note D = nat_invD[OF inv]
  show thesis
  proof (cases "has_cursum_space (cursum s) (sint (dirty_nat_cnt s))")
    case True
    then have "n_nats (cursum s) + dirty_total s \<le> NAT_JOURNAL_ENTRIES"
      using D(8,12) small by (simp add: has_cursum_space_def sint_of_nat_small)
    then show thesis using that[of s] True inv small by simp
  next
    case False
    obtain t where t: "remove_nats_in_journal s = Some t" "nat_inv {} t" "\<And>n. nat_view t n = nat_view s n"
      "dirty_total t \<le> dirty_total s + n_nats (cursum s)" "n_nats (cursum t) = 0" "nat_pages t = nat_pages s"
      "nat_bitmap t = nat_bitmap s" "nat_blkaddr t = nat_blkaddr s" "log_blocks_per_seg t = log_blocks_per_seg s"
      "blocks_per_seg t = blocks_per_seg s"
      by (rule remove_nats_ok[OF inv]) blast
    have "dirty_total t < 2 ^ 31" using t(4) D(12) small by linarith
    moreover have "journal_nids (cursum t) = {}" using t(5) by (simp add: journal_nids_def)
    ultimately show thesis using that[of t] t False by simp
  qed
qed

lemma flush_nat_entries_eq:
  assumes inv: "nat_inv {} s" and small: "dirty_total s + NAT_JOURNAL_ENTRIES < 2 ^ 31"
    and old: "\<And>n. raw_block_addr (nat_view s n) \<noteq> NEW_ADDR"
  obtains t where "flush_nat_entries s = Some t" "nat_inv {} t" "dirty_total t = 0" "\<And>n. \<not> is_dirty t n"
    "\<And>n. nat_view t n = nat_view s n"
    "\<And>b. nat_pages t (nat_addr s b (second_copy s b)) = nat_pages s (nat_addr s b (second_copy s b))"
    "nat_blkaddr t = nat_blkaddr s" "blocks_per_seg t = blocks_per_seg s"
proof -
  obtain s1 where s1: "(if has_cursum_space (cursum s) (sint (dirty_nat_cnt s)) then Some s else remove_nats_in_journal s) = Some s1"
    "nat_inv {} s1" "\<And>n. nat_view s1 n = nat_view s n" "dirty_total s1 < 2 ^ 31"
    "n_nats (cursum s1) + dirty_total s1 \<le> NAT_JOURNAL_ENTRIES \<or> journal_nids (cursum s1) = {}" "nat_pages s1 = nat_pages s"
    "nat_bitmap s1 = nat_bitmap s" "nat_blkaddr s1 = nat_blkaddr s" "log_blocks_per_seg s1 = log_blocks_per_seg s"
    "blocks_per_seg s1 = blocks_per_seg s"
    by (rule flush_prepare[OF inv small]) blast
  note D = nat_invD[OF s1(2)]
  have bps: "0 < blocks_per_seg s" using nat_invD(3)[OF inv] by (simp add: nat_geometry_def)
  have zero: "dirty_nat_cnt u = 0 \<longleftrightarrow> dirty_total u = 0" if "nat_inv {} u" "dirty_total u < 2 ^ 31" for u
    using nat_invD(8)[OF that(1)] that(2) by (simp add: word_unat_eq_iff unsigned_of_nat take_bit_nat_eq_self)
  have clean: "\<not> is_dirty u n" if "nat_inv {} u" "dirty_total u = 0" for u n
  proof
    assume "is_dirty u n"
    then have "n \<in> set (set_list u (n div NAT_ENTRY_PER_BLOCK))" using nat_invD(5)[OF that(1)] by simp
    then obtain h where h: "radix_lookup (nat_set_root u) (n div NAT_ENTRY_PER_BLOCK) = Some h" "n \<in> set (entry_list h)"
      by (cases "radix_lookup (nat_set_root u) (n div NAT_ENTRY_PER_BLOCK)") (simp_all add: set_list_def)
    then have "0 < length (entry_list h)" by auto
    then show False using that(2) sum_radix_member[OF h(1), of "\<lambda>h. length (entry_list h)"] unfolding dirty_total_def by linarith
  qed
  show thesis
  proof (cases "dirty_total s1 = 0")
    case True
    then have "flush_nat_entries s = Some s1" using s1(1,2,4) zero by (simp add: flush_nat_entries_def)
    then show thesis using that[of s1] s1(2,3,6,8,10) True clean[OF s1(2)] by simp
  next
    case False
    have lt: "k < - 1" if "k \<in> set (map fst (nat_set_root s1))" for k
    proof -
      have "k \<le> - 1 div NAT_ENTRY_PER_BLOCK" using D(13)[of k] that radix_lookup_None[of "nat_set_root s1" k] by auto
      also have "(- 1 :: u32) div NAT_ENTRY_PER_BLOCK < - 1" by (simp add: NAT_ENTRY_PER_BLOCK_def word_less_nat_alt unat_div)
      finally show ?thesis .
    qed
    obtain sets where sets: "gang_sets (length (nat_set_root s1) + 1) 0 [] s1 = Some sets"
      "mset sets = mset (map (\<lambda>(k, h). (k, entry_cnt h)) (nat_set_root s1))"
      using gang_sets_ok[OF D(2) lt, of 0 "length (nat_set_root s1) + 1" "[]"] by auto
    let ?ks = "map fst sets"
    have mk: "mset ?ks = mset (map fst (nat_set_root s1))"
      using arg_cong[OF sets(2), of "image_mset fst"] by (simp add: mset_map image_mset.compositionality comp_def case_prod_beta)
    then have ks: "distinct ?ks" "set ?ks = set (map fst (nat_set_root s1))"
      using radix_ok_distinct[OF D(2)] mset_eq_imp_distinct_iff mset_eq_setD by blast+
    have "\<exists>t. foldM flush_nat_entry_set ?ks s1 = Some t \<and> sets_flushed ?ks s1 t"
      by (rule flush_sets_ok[OF s1(2) ks(1) _ s1(4)]) (use old s1(3,5) ks(2) in auto)
    then obtain t where t: "foldM flush_nat_entry_set ?ks s1 = Some t" "sets_flushed ?ks s1 t" by blast
    have "map fst (nat_set_root t) = []" using t(2) ks(2) by (auto simp: sets_flushed_def filter_empty_conv)
    then have t0: "dirty_total t = 0" by (simp add: dirty_total_def)
    have it: "nat_inv {} t" using t(2) by (simp add: sets_flushed_def)
    have pages: "nat_pages t (nat_addr s b (second_copy s b)) = nat_pages s (nat_addr s b (second_copy s b))" for b
    proof -
      have "nat_addr s b (second_copy s b) \<noteq> nat_addr s1 b' (\<not> second_copy s1 b')" for b'
        using nat_addr_inject[OF bps, of b "second_copy s b" b' "\<not> second_copy s b'"] s1(7-10)
        by (auto simp: nat_addr_def second_copy_def)
      then show ?thesis using t(2) s1(6) by (simp add: sets_flushed_def)
    qed
    have "flush_nat_entries s = Some t"
      using s1(1,2,4) False zero[OF s1(2,4)] sets(1) t(1) zero[OF it] t0 by (simp add: flush_nat_entries_def)
    then show thesis using that[of t] it t0 clean[OF it t0] t(2) s1(3,8,10) pages by (simp add: sets_flushed_def)
  qed
qed

text \<open>C29: The checkpoint writes the whole table: \<open>flush_nat_entries\<close> returns without reaching its
  \<open>f2fs_bug_on\<close>, no entry stays dirty, and the journal and the current NAT blocks hold the table
  of before, entry for entry, so that it is found again when the cache is lost. It holds whatever the number of dirty
  entries and the room in the journal, provided that every node of the table was written.\<close>

theorem flush_nat_entries_persists:
  assumes "nat_inv {} s" "dirty_total s + NAT_JOURNAL_ENTRIES < 2 ^ 31"
    and "\<And>n. raw_block_addr (nat_view s n) \<noteq> NEW_ADDR"
  shows "\<exists>t. flush_nat_entries s = Some t \<and> nat_inv {} t \<and> dirty_nat_cnt t = 0 \<and> (\<forall>n. \<not> is_dirty t n)
    \<and> (\<forall>n. nat_view t n = nat_view s n) \<and> (\<forall>n. disk_view t n = nat_view s n)"
proof -
  obtain t where t: "flush_nat_entries s = Some t" "nat_inv {} t" "dirty_total t = 0" "\<And>n. \<not> is_dirty t n"
    "\<And>n. nat_view t n = nat_view s n"
    by (rule flush_nat_entries_eq[OF assms]) blast
  have "disk_view t n = nat_view t n" for n
    using nat_invD(11)[OF t(2), of n] t(4)[of n] by (auto simp: nat_view_def is_dirty_def split: option.splits)
  then show ?thesis using t nat_invD(8)[OF t(2)] by simp
qed

theorem flush_nat_entries_persists_witness:
  "\<exists>t. flush_nat_entries nat_example = Some t \<and> \<not> is_dirty t 5
     \<and> disk_view t 5 = \<lparr>raw_version = 1, raw_ino = 4, raw_block_addr = 7000\<rparr>"
  using flush_nat_entries_persists[OF nat_example_inv _ nat_example_written] nat_example_view nat_example_sets
  by (auto simp: NAT_JOURNAL_ENTRIES_def)

text \<open>C30: The flush never writes a current NAT block. When it has written its blocks and the system stops before the
  new checkpoint is, the NAT bitmap and the journal that the checkpoint before has stored still give the table of that
  checkpoint, entry for entry, from the NAT blocks as they are on the disk then.\<close>

theorem flush_nat_entries_shadow:
  assumes "nat_inv {} s" "dirty_total s + NAT_JOURNAL_ENTRIES < 2 ^ 31"
    and "\<And>n. raw_block_addr (nat_view s n) \<noteq> NEW_ADDR"
  shows "\<exists>t. flush_nat_entries s = Some t
    \<and> (\<forall>n. disk_view (t\<lparr>nat_bitmap := nat_bitmap s, cursum := cursum s\<rparr>) n = disk_view s n)"
proof -
  obtain t where t: "flush_nat_entries s = Some t"
    "\<And>b. nat_pages t (nat_addr s b (second_copy s b)) = nat_pages s (nat_addr s b (second_copy s b))"
    "nat_blkaddr t = nat_blkaddr s" "blocks_per_seg t = blocks_per_seg s"
    by (rule flush_nat_entries_eq[OF assms]) blast
  let ?t = "t\<lparr>nat_bitmap := nat_bitmap s, cursum := cursum s\<rparr>"
  have "page_view ?t n = page_view s n" for n
    using t(2)[of "block_of n"] t(3,4) by (simp add: page_view_def nat_addr_def second_copy_def)
  then have "disk_view ?t n = disk_view s n" for n by (simp add: disk_view_journal cong: option.case_cong)
  then show ?thesis using t(1) by blast
qed

text \<open>In the witness the journal is full: its entries go to the NAT blocks with the dirty one.\<close>

definition full_journal :: f2fs_summary_block where
  "full_journal = \<lparr>n_nats = 38, nat_j = (\<lambda>i. (7 + of_nat i, \<lparr>raw_version = 0, raw_ino = 4, raw_block_addr = 6500\<rparr>))\<rparr>"

lemma full_journal_inv: "nat_inv {} (nat_example\<lparr>cursum := full_journal\<rparr>)"
proof -
  let ?t = "nat_example\<lparr>cursum := full_journal\<rparr>"
  note D = nat_invD[OF nat_example_inv]
  have sc: "same_cache nat_example ?t" by (simp add: same_cache_def)
  have n: "n_nats full_journal = 38" by (simp add: full_journal_def)
  show ?thesis
  proof (rule nat_invI)
    fix n e assume "radix_lookup (nat_root ?t) n = Some e" "\<not> get_nat_flag e IS_DIRTY"
    then show "raw_nat_from_node_info (nat_ni e) = disk_view ?t n"
      by (auto simp: nat_example_root get_nat_flag_def IS_DIRTY_def split: if_splits)
  qed (use D in \<open>auto simp: same_cache_simps[OF sc] nat_geometry_def n NAT_JOURNAL_ENTRIES_def\<close>)
qed

lemma full_journal_written: "raw_block_addr (nat_view (nat_example\<lparr>cursum := full_journal\<rparr>) n) \<noteq> NEW_ADDR"
proof -
  have "raw_block_addr (nat_pages nat_example a i) \<noteq> NEW_ADDR" for a i by (simp add: nat_example_def NEW_ADDR_def)
  moreover have "raw_block_addr (snd (nat_j full_journal i)) \<noteq> NEW_ADDR" for i
    by (simp add: full_journal_def NEW_ADDR_def)
  ultimately show ?thesis
    by (auto simp: nat_view_def nat_example_root disk_view_def page_view_def raw_nat_from_node_info_def NEW_ADDR_def split: option.splits)
qed

theorem flush_nat_entries_shadow_witness:
  "\<exists>t. flush_nat_entries (nat_example\<lparr>cursum := full_journal\<rparr>) = Some t
     \<and> disk_view (t\<lparr>nat_bitmap := nat_bitmap nat_example, cursum := full_journal\<rparr>) 9 = \<lparr>raw_version = 0, raw_ino = 4, raw_block_addr = 6500\<rparr>"
proof -
  have "dirty_total (nat_example\<lparr>cursum := full_journal\<rparr>) = 1"
    using nat_example_sets(2) by (simp add: dirty_total_def)
  moreover have "find_in_journal full_journal 9 = Some 2"
    by (simp add: find_in_journal_def full_journal_def upt_rec)
  then have "disk_view (nat_example\<lparr>cursum := full_journal\<rparr>) 9 = \<lparr>raw_version = 0, raw_ino = 4, raw_block_addr = 6500\<rparr>"
    by (simp add: disk_view_def full_journal_def)
  ultimately show ?thesis
    using flush_nat_entries_shadow[OF full_journal_inv _ full_journal_written]
    by (auto simp: NAT_JOURNAL_ENTRIES_def)
qed

end
