(* ===== verification/F2fsFreeNid.thy ===== *)
theory F2fsFreeNid
  imports F2fsFlushSpec
begin

text \<open>
  The allocation of node numbers: \<open>alloc_nid\<close> returns, and what it returns is not in use. The free numbers
  are found by scanning the NAT blocks in turns, against the cache and the journal.
\<close>

subsection \<open>The set of free node numbers\<close>

definition new_set :: "f2fs_nm_info \<Rightarrow> u32 set" where
  "new_set s = {k. radix_lookup (free_nid_root s) k = Some NID_NEW}"

definition alloc_set :: "f2fs_nm_info \<Rightarrow> u32 set" where
  "alloc_set s = {k. radix_lookup (free_nid_root s) k = Some NID_ALLOC}"

text \<open>What the operations on free numbers leave as it is.\<close>

definition nat_part :: "f2fs_nm_info \<Rightarrow> f2fs_nm_info \<Rightarrow> bool" where
  "nat_part s t \<longleftrightarrow> same_cache s t \<and> same_disk s t \<and> max_nid t = max_nid s \<and> totalram t = totalram s \<and> ram_thresh t = ram_thresh s
     \<and> available_nids t = available_nids s \<and> total_valid_node_count t = total_valid_node_count s"

lemma nat_part_refl [simp]: "nat_part s s"
  by (simp add: nat_part_def same_cache_def)

lemma nat_part_trans: "nat_part s t \<Longrightarrow> nat_part t u \<Longrightarrow> nat_part s u"
  using same_disk_trans[of s t u] by (simp add: nat_part_def same_cache_def)

lemma nat_part_view:
  assumes "nat_part s t"
  shows "nat_view t n = nat_view s n" "page_view t n = page_view s n" "disk_view t n = disk_view s n"
    "nat_root t = nat_root s" "cursum t = cursum s" "max_nid t = max_nid s"
  using assms same_disk_view[of s t] nat_view_same[of s t] by (auto simp: nat_part_def same_cache_def same_disk_def)

text \<open>A free number is not in use. The numbers in \<open>J\<close> are still to be checked against the journal.\<close>

definition unused :: "u32 set \<Rightarrow> f2fs_nm_info \<Rightarrow> u32 \<Rightarrow> bool" where
  "unused J s n \<longleftrightarrow> (\<forall>e. radix_lookup (nat_root s) n = Some e \<longrightarrow> ni_blk_addr (nat_ni e) = NULL_ADDR)
     \<and> (radix_lookup (nat_root s) n = None \<longrightarrow> n \<in> J \<or> raw_block_addr (disk_view s n) = NULL_ADDR)"

definition free_inv :: "u32 set \<Rightarrow> f2fs_nm_info \<Rightarrow> bool" where
  "free_inv J s \<longleftrightarrow> radix_ok (free_nid_root s) \<and> distinct (free_nid_list s)
     \<and> (\<forall>n. n \<in> set (free_nid_list s) \<longleftrightarrow> radix_lookup (free_nid_root s) n \<noteq> None)
     \<and> radix_lookup (free_nid_root s) 0 = None \<and> fcnt s = of_nat (card (new_set s)) \<and> (\<forall>n \<in> new_set s. unused J s n)"

lemma card_new_set:
  assumes "free_inv J s"
  shows "unat (fcnt s) = card (new_set s)"
proof -
  have "0 \<notin> new_set s" using assms by (simp add: free_inv_def new_set_def)
  then have "new_set s \<subset> UNIV" by blast
  then have "card (new_set s) < card (UNIV :: u32 set)" by (intro psubset_card_mono) simp_all
  then have "card (new_set s) < 2 ^ 32" by (simp add: card_word)
  then show ?thesis using assms by (simp add: free_inv_def unsigned_of_nat take_bit_nat_eq_self)
qed

lemma unused_view: "unused {} s n \<Longrightarrow> raw_block_addr (nat_view s n) = NULL_ADDR"
  by (auto simp: unused_def nat_view_def raw_nat_from_node_info_def split: option.splits)

definition enough_memory :: "f2fs_nm_info \<Rightarrow> bool" where
  "enough_memory s \<longleftrightarrow> 4 \<le> totalram s * ram_thresh s div 100"

lemma short_of_memory:
  assumes "enough_memory s" "\<not> available_free_memory FREE_NIDS s" "free_inv J s"
  shows "170 < card (new_set s)"
proof -
  have "1 \<le> totalram s * ram_thresh s div 100 div 4" using assms(1) div_le_mono[of 4 _ 4] by (simp add: enough_memory_def)
  then have "1 \<le> unat (fcnt s) * 24 div 4096" using assms(2) by (simp add: available_free_memory_def Let_def not_less)
  then have "4096 \<le> unat (fcnt s) * 24" using div_greater_zero_iff[of "unat (fcnt s) * 24" 4096] by linarith
  then show ?thesis using card_new_set[OF assms(3)] by linarith
qed

lemma add_new_nid:
  assumes inv: "free_inv J s" and new: "radix_lookup (free_nid_root s) nid = None" and nid: "nid \<noteq> 0"
    and safe: "unused J s nid"
    and t: "t = s\<lparr>free_nid_root := radix_put nid NID_NEW (free_nid_root s), free_nid_list := free_nid_list s @ [nid], fcnt := fcnt s + 1\<rparr>"
  shows "free_inv J t" "new_set t = insert nid (new_set s)" "alloc_set t = alloc_set s" "nat_part s t"
proof -
  have r: "radix_ok (free_nid_root s)" using inv by (simp add: free_inv_def)
  have look: "radix_lookup (free_nid_root t) n = (if n = nid then Some NID_NEW else radix_lookup (free_nid_root s) n)" for n
    using r by (simp add: t radix_lookup_put)
  show ns: "new_set t = insert nid (new_set s)" by (auto simp: new_set_def look)
  show "alloc_set t = alloc_set s" using new by (auto simp: alloc_set_def look)
  show np: "nat_part s t" by (simp add: t nat_part_def same_cache_def same_disk_def)
  have "nid \<notin> new_set s" using new by (simp add: new_set_def)
  then have "card (new_set t) = Suc (card (new_set s))" by (simp add: ns)
  moreover have "\<forall>n \<in> new_set t. unused J t n"
    using inv safe by (simp add: free_inv_def unused_def ns nat_part_view[OF np])
  moreover have "fcnt t = fcnt s + 1" "free_nid_list t = free_nid_list s @ [nid]" "radix_ok (free_nid_root t)"
    using r by (auto simp: t)
  ultimately show "free_inv J t" using inv new nid by (auto simp: free_inv_def look)
qed

definition clean_null :: "f2fs_nm_info \<Rightarrow> u32 \<Rightarrow> bool" where
  "clean_null s nid \<longleftrightarrow> nid \<noteq> 0 \<and> (case radix_lookup (nat_root s) nid of
     Some e \<Rightarrow> get_nat_flag e IS_CHECKPOINTED \<and> ni_blk_addr (nat_ni e) = NULL_ADDR | None \<Rightarrow> True)"

lemma add_free_nid_ok:
  assumes inv: "free_inv J s" and mem: "enough_memory s"
    and safe: "radix_lookup (nat_root s) nid = None \<Longrightarrow> nid \<in> J \<or> raw_block_addr (disk_view s nid) = NULL_ADDR"
  obtains r t where "add_free_nid nid True s = (r, t)" "free_inv J t" "nat_part s t" "new_set s \<subseteq> new_set t" "alloc_set t = alloc_set s"
    "r < 0 \<Longrightarrow> 170 < card (new_set t)"
    "170 < card (new_set t) \<or> (clean_null s nid \<longrightarrow> nid \<in> new_set t \<union> alloc_set t)"
proof (cases "available_free_memory FREE_NIDS s")
  case False
  then show thesis using that[of "-1" s] short_of_memory[OF mem False inv] inv by (simp add: add_free_nid_def)
next
  case mem: True
  show thesis
  proof (cases "clean_null s nid \<and> radix_lookup (free_nid_root s) nid = None")
    case True
    define t where "t = s\<lparr>free_nid_root := radix_put nid NID_NEW (free_nid_root s), free_nid_list := free_nid_list s @ [nid], fcnt := fcnt s + 1\<rparr>"
    have eq: "add_free_nid nid True s = (1, t)"
      using True mem by (auto simp: add_free_nid_def clean_null_def radix_insert_def t_def split: option.splits)
    have u: "unused J s nid" "nid \<noteq> 0"
      using True safe by (auto simp: clean_null_def unused_def split: option.splits)
    note a = add_new_nid[OF inv conjunct2[OF True] u(2,1) t_def]
    show thesis by (rule that[OF eq a(1,4)]) (simp_all add: a subset_insertI)
  next
    case False
    then have "add_free_nid nid True s = (0, s)"
      using mem by (auto simp: add_free_nid_def clean_null_def radix_insert_def split: option.splits)
    moreover have "clean_null s nid \<Longrightarrow> nid \<in> new_set s \<union> alloc_set s"
    proof -
      assume "clean_null s nid"
      then obtain v where "radix_lookup (free_nid_root s) nid = Some v" using False by auto
      then show "nid \<in> new_set s \<union> alloc_set s" by (cases v) (simp_all add: new_set_def alloc_set_def)
    qed
    ultimately show thesis using that[of 0 s] inv by simp
  qed
qed

subsection \<open>Scanning the NAT blocks\<close>

text \<open>The result of a scan in which the numbers of \<open>P\<close> were looked at.\<close>

definition scanned :: "u32 set \<Rightarrow> (u32 \<Rightarrow> bool) \<Rightarrow> f2fs_nm_info \<Rightarrow> f2fs_nm_info \<Rightarrow> bool" where
  "scanned J P s t \<longleftrightarrow> free_inv J t \<and> nat_part s t \<and> new_set s \<subseteq> new_set t \<and> alloc_set t = alloc_set s
     \<and> (170 < card (new_set t) \<or> (\<forall>n. P n \<and> clean_null s n \<and> raw_block_addr (page_view s n) = NULL_ADDR
          \<longrightarrow> n \<in> new_set t \<union> alloc_set t))"

lemma scanned_trans:
  assumes "scanned J P s t" "scanned J Q t u"
  shows "scanned J (\<lambda>n. P n \<or> Q n) s u"
proof -
  have np: "nat_part s t" using assms(1) by (simp add: scanned_def)
  have c: "clean_null t n \<longleftrightarrow> clean_null s n" for n by (simp add: clean_null_def nat_part_view[OF np])
  have "card (new_set t) \<le> card (new_set u)" using assms(2) by (intro card_mono) (simp_all add: scanned_def)
  then show ?thesis
    using assms nat_part_trans[OF np, of u] by (auto simp: scanned_def c nat_part_view[OF np])
qed

lemma scanned_mono: "scanned J P s t \<Longrightarrow> (\<And>n. Q n \<Longrightarrow> P n) \<Longrightarrow> scanned J Q s t"
  by (auto simp: scanned_def)

lemma scanned_none: "free_inv J s \<Longrightarrow> scanned J (\<lambda>n. False) s s"
  by (simp add: scanned_def)

definition pages_written :: "f2fs_nm_info \<Rightarrow> bool" where
  "pages_written s \<longleftrightarrow> (\<forall>n. raw_block_addr (page_view s n) \<noteq> NEW_ADDR)"

lemma word_add_of_nat_less:
  fixes b m :: u32
  assumes "unat b + 455 < 2 ^ 32" "i \<le> 455"
  shows "unat (b + of_nat i) = unat b + i"
proof -
  have "i < 2 ^ 32" using assms(2) by (rule le_less_trans) simp
  then have "unat (of_nat i :: u32) = i" by (simp add: unsigned_of_nat take_bit_nat_eq_self)
  then show ?thesis using assms by (simp add: unat_word_ariths)
qed

lemma scan_loop_ok:
  assumes "free_inv (journal_nids (cursum s)) s" "enough_memory s" "unat base + 455 < 2 ^ 32" "pages_written s"
    and "\<And>i. i < 455 \<Longrightarrow> page i = page_view s (base + of_nat i)" "m \<le> 455"
  shows "\<exists>t. scan_loop page [m ..< 455] (base + of_nat m) s = Some t
    \<and> scanned (journal_nids (cursum s)) (\<lambda>n. \<exists>i. m \<le> i \<and> i < 455 \<and> n = base + of_nat i \<and> n < max_nid s) s t"
  using assms
proof (induction "455 - m" arbitrary: m s)
  case 0
  then have "m = 455" by simp
  then show ?case using 0 by (auto simp: scanned_def)
next
  case (Suc d)
  let ?n = "base + of_nat m" and ?J = "journal_nids (cursum s)"
  have m: "m < 455" using Suc(2) by simp
  have l: "[m ..< 455] = m # [Suc m ..< 455]" by (rule upt_conv_Cons[OF m])
  show ?case
  proof (cases "max_nid s \<le> ?n")
    case True
    have "\<not> base + of_nat i < max_nid s" if "m \<le> i" "i < 455" for i
    proof -
      have "?n \<le> base + of_nat i" using word_add_of_nat_less[OF Suc.prems(3)] that m by (simp add: word_le_nat_alt)
      then show ?thesis using True by simp
    qed
    then show ?thesis using True Suc.prems(1) by (auto simp: l scanned_def)
  next
    case False
    have pm: "page m = page_view s ?n" using Suc.prems(5)[OF m] by simp
    have dp: "?n \<notin> ?J \<Longrightarrow> disk_view s ?n = page_view s ?n" by (simp add: disk_view_journal journal_view_None[THEN iffD2])
    obtain r t where t: "(if raw_block_addr (page m) = NULL_ADDR then add_free_nid ?n True s else (0, s)) = (r, t)"
      "free_inv ?J t" "nat_part s t" "new_set s \<subseteq> new_set t" "alloc_set t = alloc_set s" "r < 0 \<Longrightarrow> 170 < card (new_set t)"
      "170 < card (new_set t) \<or> (clean_null s ?n \<and> raw_block_addr (page m) = NULL_ADDR \<longrightarrow> ?n \<in> new_set t \<union> alloc_set t)"
    proof (cases "raw_block_addr (page m) = NULL_ADDR")
      case True
      have safe: "?n \<in> ?J \<or> raw_block_addr (disk_view s ?n) = NULL_ADDR"
        using True pm dp by (cases "?n \<in> ?J") simp_all
      show thesis
        by (rule add_free_nid_ok[OF Suc.prems(1,2) safe]) (use True that in auto)
    qed (use Suc.prems(1) that[of 0 s] in auto)
    have sc: "scanned ?J (\<lambda>n. n = ?n) s t" using t(2-5,7) pm by (auto simp: scanned_def)
    show ?thesis
    proof (cases "r < 0")
      case True
      then have "scan_loop page [m ..< 455] ?n s = Some t"
        using t(1) False pm Suc.prems(4) by (auto simp: l pages_written_def split: if_splits)
      then show ?thesis using sc t(6)[OF True] by (auto simp: scanned_def)
    next
      case r: False
      have eq: "scan_loop page [m ..< 455] ?n s = scan_loop page [Suc m ..< 455] (base + of_nat (Suc m)) t"
        using t(1) False r pm Suc.prems(4) by (auto simp: l pages_written_def ac_simps split: if_splits)
      have v: "journal_nids (cursum t) = ?J" "page_view t n = page_view s n" "max_nid t = max_nid s" for n
        by (simp_all add: nat_part_view[OF t(3)])
      have "enough_memory t" using Suc.prems(2) t(3) by (simp add: enough_memory_def nat_part_def)
      moreover have d: "d = 455 - Suc m" using Suc.hyps(2) by linarith
      ultimately obtain u where u: "scan_loop page [Suc m ..< 455] (base + of_nat (Suc m)) t = Some u"
        "scanned ?J (\<lambda>n. \<exists>i. Suc m \<le> i \<and> i < 455 \<and> n = base + of_nat i \<and> n < max_nid s) t u"
        using Suc.hyps(1)[OF d, of t] Suc.prems(3-5) m t(2) by (auto simp: v pages_written_def)
      have "scanned ?J (\<lambda>n. \<exists>i. m \<le> i \<and> i < 455 \<and> n = base + of_nat i \<and> n < max_nid s) s u"
        by (rule scanned_mono[OF scanned_trans[OF sc u(2)]]) (metis Suc_leI le_neq_implies_less)
      then show ?thesis using eq u(1) by auto
    qed
  qed
qed

lemma block_of_unat: "block_of n = unat n div 455" "unat (n mod NAT_ENTRY_PER_BLOCK) = unat n mod 455"
  "unat NAT_ENTRY_PER_BLOCK = 455"
  by (simp_all add: block_of_def NAT_ENTRY_PER_BLOCK_def unat_div unat_mod)

lemma unat_START_NID: "unat (START_NID nid) = 455 * (unat nid div 455)"
proof -
  have "455 * (unat nid div 455) \<le> unat nid" by simp
  moreover have "unat nid < 2 ^ 32" using unsigned_less[of nid] by simp
  ultimately have "455 * (unat nid div 455) < 2 ^ 32" by linarith
  then show ?thesis by (simp add: START_NID_def NAT_ENTRY_PER_BLOCK_def unat_word_ariths unat_div mult.commute)
qed

lemma START_NID_split:
  assumes "block_of n = block_of nid"
  shows "n = START_NID nid + of_nat (unat n mod 455)"
proof -
  have "n = n div NAT_ENTRY_PER_BLOCK * NAT_ENTRY_PER_BLOCK + n mod NAT_ENTRY_PER_BLOCK" by (simp add: div_mult_mod_eq)
  also have "n div NAT_ENTRY_PER_BLOCK = nid div NAT_ENTRY_PER_BLOCK" using assms by (simp add: block_of_def word_unat_eq_iff)
  also have "n mod NAT_ENTRY_PER_BLOCK = of_nat (unat n mod 455)" by (simp flip: block_of_unat(2))
  finally show ?thesis by (simp add: START_NID_def)
qed

lemma scan_nat_page_ok:
  assumes inv: "free_inv (journal_nids (cursum s)) s" and mem: "enough_memory s" and geo: "nat_geometry s"
    and bound: "unat (max_nid s) + 455 < 2 ^ 32" and w: "pages_written s"
  shows "\<exists>t. scan_nat_page (get_current_nat_page s nid) nid s = Some t
    \<and> scanned (journal_nids (cursum s)) (\<lambda>n. block_of n = block_of nid \<and> nid \<le> n \<and> n < max_nid s) s t"
proof (cases "max_nid s \<le> nid")
  case True
  have "[unat nid mod 455 ..< 455] = unat nid mod 455 # [Suc (unat nid mod 455) ..< 455]" by (rule upt_conv_Cons) simp
  then have "scan_nat_page (get_current_nat_page s nid) nid s = Some s"
    using True by (simp add: scan_nat_page_def block_of_unat)
  then show ?thesis using inv True by (auto simp: scanned_def)
next
  case False
  let ?b = "START_NID nid" and ?m = "unat nid mod 455"
  have nid: "nid = ?b + of_nat ?m" by (rule START_NID_split) simp
  have "unat ?b \<le> unat nid" by (simp add: unat_START_NID)
  then have b: "unat ?b + 455 < 2 ^ 32" using False bound by (simp add: word_le_nat_alt)
  have ub: "unat (?b + of_nat i) = 455 * (unat nid div 455) + i" if "i < 455" for i
    using word_add_of_nat_less[OF b, of i] that by (simp add: unat_START_NID)
  have pg: "get_current_nat_page s nid i = page_view s (?b + of_nat i)" if "i < 455" for i
    using ub[OF that] that
    by (simp add: get_current_nat_page_def current_nat_addr_eq[OF geo] page_view_def block_of_unat)
  obtain t where t: "scan_loop (get_current_nat_page s nid) [?m ..< 455] (?b + of_nat ?m) s = Some t"
    "scanned (journal_nids (cursum s)) (\<lambda>n. \<exists>i. ?m \<le> i \<and> i < 455 \<and> n = ?b + of_nat i \<and> n < max_nid s) s t"
    using scan_loop_ok[OF inv mem b w pg, of ?m] by auto
  have "\<exists>i. ?m \<le> i \<and> i < 455 \<and> n = ?b + of_nat i \<and> n < max_nid s" if "block_of n = block_of nid" "nid \<le> n" "n < max_nid s" for n
  proof (intro exI conjI)
    show "n = ?b + of_nat (unat n mod 455)" by (rule START_NID_split[OF that(1)])
    have "455 * (unat n div 455) + unat n mod 455 \<ge> 455 * (unat nid div 455) + unat nid mod 455"
      using that(2) by (simp add: word_le_nat_alt)
    then show "?m \<le> unat n mod 455" using that(1) by (simp only: block_of_unat)
  qed (use that in simp_all)
  then have "scanned (journal_nids (cursum s)) (\<lambda>n. block_of n = block_of nid \<and> nid \<le> n \<and> n < max_nid s) s t"
    by (intro scanned_mono[OF t(2)]) blast
  moreover have "scan_nat_page (get_current_nat_page s nid) nid s = Some t"
    using t(1) nid by (simp add: scan_nat_page_def block_of_unat)
  ultimately show ?thesis by blast
qed

subsection \<open>Going round the table\<close>

definition next_page :: "u32 \<Rightarrow> u32 \<Rightarrow> u32" where
  "next_page mx nid =
     (let nid1 = nid + (NAT_ENTRY_PER_BLOCK - nid mod NAT_ENTRY_PER_BLOCK) in if mx \<le> nid1 then 0 else nid1)"

text \<open>The number of pages that are scanned from \<open>nid\<close> on before the page with \<open>k\<close>.\<close>

definition dist :: "u32 \<Rightarrow> u32 \<Rightarrow> u32 \<Rightarrow> nat" where
  "dist mx k nid = (if nid \<le> k then block_of k - block_of nid else (unat mx - 1) div 455 - block_of nid + 1 + block_of k)"

lemma unat_next_page:
  assumes "nid < mx" "unat mx + 455 < 2 ^ 32"
  shows "unat (next_page mx nid) = (if unat mx \<le> 455 * (unat nid div 455) + 455 then 0 else 455 * (unat nid div 455) + 455)"
proof -
  have n: "unat nid < unat mx" using assms(1) by (simp add: word_less_nat_alt)
  have "nid mod NAT_ENTRY_PER_BLOCK \<le> NAT_ENTRY_PER_BLOCK"
    by (simp only: word_le_nat_alt block_of_unat)
  then have "unat (NAT_ENTRY_PER_BLOCK - nid mod NAT_ENTRY_PER_BLOCK) = 455 - unat nid mod 455"
    by (subst unat_sub) (simp_all only: block_of_unat)
  moreover have e: "unat nid + (455 - unat nid mod 455) = 455 * (unat nid div 455) + 455"
    using mod_less_divisor[of 455 "unat nid"] mult_div_mod_eq[of 455 "unat nid"] by linarith
  moreover have "455 * (unat nid div 455) + 455 < 2 ^ 32"
    using n assms(2) mult_div_mod_eq[of 455 "unat nid"] by linarith
  ultimately have "unat (nid + (NAT_ENTRY_PER_BLOCK - nid mod NAT_ENTRY_PER_BLOCK)) = 455 * (unat nid div 455) + 455"
    by (simp add: unat_word_ariths)
  then show ?thesis by (simp add: next_page_def word_le_nat_alt)
qed

lemma dist_zero: "dist mx k nid = 0 \<longleftrightarrow> nid \<le> k \<and> block_of k = block_of nid"
proof -
  have "nid \<le> k \<Longrightarrow> block_of nid \<le> block_of k" by (simp add: block_of_unat word_le_nat_alt div_le_mono)
  then show ?thesis by (auto simp: dist_def)
qed

lemma dist_step:
  assumes b: "nid < mx" "unat mx + 455 < 2 ^ 32" and k: "k < mx" and d: "dist mx k nid \<noteq> 0"
  shows "Suc (dist mx k (next_page mx nid)) = dist mx k nid"
proof -
  define bn bk where "bn = unat nid div 455" and "bk = unat k div 455"
  note n = unat_next_page[OF b, folded bn_def]
  have lt: "unat nid < unat mx" "unat k < unat mx" using b(1) k by (simp_all add: word_less_nat_alt)
  have bm: "bn \<le> (unat mx - 1) div 455" using lt(1) unfolding bn_def by (intro div_le_mono) simp
  have bb: "block_of nid = bn" "block_of k = bk" by (simp_all add: block_of_unat bn_def bk_def)
  have kk: "455 * bk \<le> unat k" "unat k < 455 * bk + 455" "455 * bn \<le> unat nid" "unat nid < 455 * bn + 455"
    unfolding bn_def bk_def using mult_div_mod_eq[of 455 "unat nid"] mult_div_mod_eq[of 455 "unat k"]
      mod_less_divisor[of 455 "unat nid"] mod_less_divisor[of 455 "unat k"] by linarith+
  show ?thesis
  proof (cases "nid \<le> k")
    case True
    then have "bn < bk" using d by (auto simp: dist_def bb)
    then have "455 * bn + 455 \<le> 455 * bk" by simp
    then have "\<not> unat mx \<le> 455 * bn + 455" "455 * bn + 455 \<le> unat k" using lt kk by linarith+
    moreover have "block_of (next_page mx nid) = bn + 1" using n calculation(1) by (simp add: block_of_unat)
    ultimately show ?thesis using True n \<open>bn < bk\<close> by (simp add: dist_def bb word_le_nat_alt)
  next
    case False
    then have nk: "unat k < unat nid" by (simp add: word_le_nat_alt)
    show ?thesis
    proof (cases "unat mx \<le> 455 * bn + 455")
      case True
      then have "(unat mx - 1) div 455 \<le> bn" by (intro less_Suc_eq_le[THEN iffD1]) (simp add: less_mult_imp_div_less)
      then show ?thesis using False n True bm bb(1) by (simp add: dist_def bb(2) word_le_nat_alt block_of_unat(1)[of "next_page mx nid"])
    next
      case low: False
      then have "bn + 1 \<le> (unat mx - 1) div 455" by (simp add: less_eq_div_iff_mult_less_eq)
      moreover have "block_of (next_page mx nid) = bn + 1" using n low by (simp add: block_of_unat)
      moreover have "unat k < 455 * bn + 455" using nk kk by linarith
      ultimately show ?thesis using False n low by (simp add: dist_def bb word_le_nat_alt)
    qed
  qed
qed

lemma next_page_less: "nid < mx \<Longrightarrow> unat mx + 455 < 2 ^ 32 \<Longrightarrow> next_page mx nid < mx"
  using unat_next_page[of nid mx] by (auto simp: word_less_nat_alt)

text \<open>Some pages of the table: they are scanned one after the other, and each brings the scan nearer to all the
  numbers it did not reach.\<close>

definition can_scan :: "f2fs_nm_info \<Rightarrow> bool" where
  "can_scan s \<longleftrightarrow> enough_memory s \<and> nat_geometry s \<and> unat (max_nid s) + 455 < 2 ^ 32 \<and> pages_written s"

lemma can_scan_part: "nat_part s t \<Longrightarrow> can_scan s \<Longrightarrow> can_scan t"
  using same_disk_view(2)[of s t]
  by (auto simp: can_scan_def enough_memory_def pages_written_def nat_part_view) (simp_all add: nat_part_def)

lemma build_pages_ok:
  assumes "free_inv (journal_nids (cursum s)) s" "can_scan s" "nid < max_nid s"
  shows "\<exists>nid1 t. build_pages n nid s = Some (nid1, t) \<and> nid1 < max_nid s
    \<and> scanned (journal_nids (cursum s)) (\<lambda>k. dist (max_nid s) k nid < n \<and> k < max_nid s) s t
    \<and> (\<forall>k < max_nid s. n \<le> dist (max_nid s) k nid \<longrightarrow> dist (max_nid s) k nid1 + n = dist (max_nid s) k nid)"
  using assms
proof (induction n arbitrary: nid s)
  case 0
  then show ?case by (simp add: scanned_def)
next
  case (Suc n)
  let ?J = "journal_nids (cursum s)" and ?m = "max_nid s"
  obtain t where t: "scan_nat_page (get_current_nat_page s nid) nid s = Some t"
    "scanned ?J (\<lambda>k. block_of k = block_of nid \<and> nid \<le> k \<and> k < ?m) s t"
    using scan_nat_page_ok[of s nid] Suc.prems by (auto simp: can_scan_def)
  have np: "nat_part s t" using t(2) by (simp add: scanned_def)
  have bound: "unat ?m + 455 < 2 ^ 32" using Suc.prems(2) by (simp add: can_scan_def)
  note nl = next_page_less[OF Suc.prems(3) bound]
  have j: "journal_nids (cursum t) = ?J" "max_nid t = ?m" using nat_part_view[OF np] by simp_all
  obtain nid1 u where u: "build_pages n (next_page ?m nid) t = Some (nid1, u)" "nid1 < ?m"
    "scanned ?J (\<lambda>k. dist ?m k (next_page ?m nid) < n \<and> k < ?m) t u"
    "\<forall>k < ?m. n \<le> dist ?m k (next_page ?m nid) \<longrightarrow> dist ?m k nid1 + n = dist ?m k (next_page ?m nid)"
    using Suc.IH[of t "next_page ?m nid"] t(2) can_scan_part[OF np Suc.prems(2)] nl j by (auto simp: scanned_def)
  have "build_pages (Suc n) nid s = Some (nid1, u)" using t(1) u(1) j(2) by (simp add: next_page_def Let_def)
  moreover have "scanned ?J (\<lambda>k. dist ?m k nid < Suc n \<and> k < ?m) s u"
  proof (rule scanned_mono[OF scanned_trans[OF t(2) u(3)]])
    fix k assume k: "dist ?m k nid < Suc n \<and> k < ?m"
    show "(block_of k = block_of nid \<and> nid \<le> k \<and> k < ?m) \<or> (dist ?m k (next_page ?m nid) < n \<and> k < ?m)"
      using k dist_zero[of ?m k nid] dist_step[OF Suc.prems(3) bound, of k] by (cases "dist ?m k nid = 0") auto
  qed
  moreover have "dist ?m k nid1 + Suc n = dist ?m k nid" if "k < ?m" "Suc n \<le> dist ?m k nid" for k
  proof -
    have "Suc (dist ?m k (next_page ?m nid)) = dist ?m k nid" by (rule dist_step[OF Suc.prems(3) bound that(1)]) (use that in simp)
    then show ?thesis using u(4) that by auto
  qed
  ultimately show ?case using u(2) by blast
qed

subsection \<open>Against the journal\<close>

definition distinct_journal :: "f2fs_summary_block \<Rightarrow> bool" where
  "distinct_journal sm \<longleftrightarrow> inj_on (\<lambda>i. fst (nat_j sm i)) {..<n_nats sm}"

lemma distinct_journal_view:
  assumes "distinct_journal (cursum s)" "i < n_nats (cursum s)"
  shows "disk_view s (fst (nat_j (cursum s) i)) = snd (nat_j (cursum s) i)"
proof -
  have "find_in_journal (cursum s) (fst (nat_j (cursum s) i)) = Some i"
    using assms by (intro find_in_journal_first) (auto simp: distinct_journal_def inj_on_def)
  then show ?thesis by (simp add: disk_view_def)
qed

lemma remove_free_nid_ok:
  assumes inv: "free_inv J s"
  shows "free_inv J (remove_free_nid nid s)" "new_set (remove_free_nid nid s) = new_set s - {nid}"
    "alloc_set (remove_free_nid nid s) = alloc_set s" "nat_part s (remove_free_nid nid s)"
proof -
  define t where "t = remove_free_nid nid s"
  have *: "free_inv J t \<and> new_set t = new_set s - {nid} \<and> alloc_set t = alloc_set s \<and> nat_part s t"
  proof (cases "radix_lookup (free_nid_root s) nid = Some NID_NEW")
    case True
    have f: "free_nid_root t = radix_delete nid (free_nid_root s)" "free_nid_list t = remove1 nid (free_nid_list s)"
      "fcnt t = fcnt s - 1" using True by (simp_all add: t_def remove_free_nid_def del_from_free_nid_list_def Let_def)
    have np: "nat_part s t" using True
      by (simp add: t_def remove_free_nid_def del_from_free_nid_list_def Let_def nat_part_def same_cache_def same_disk_def)
    have ns: "new_set t = new_set s - {nid}" and al: "alloc_set t = alloc_set s"
      using True by (auto simp: new_set_def alloc_set_def f radix_lookup_delete split: if_splits)
    have "nid \<in> new_set s" using True by (simp add: new_set_def)
    then have "card (new_set s) = Suc (card (new_set t))" unfolding ns by (rule card.remove[OF finite])
    then have "free_inv J t"
      using inv True by (auto simp: free_inv_def f ns radix_lookup_delete unused_def nat_part_view[OF np])
    then show ?thesis using ns al np by simp
  next
    case False
    then have "t = s" "nid \<notin> new_set s" by (simp_all add: t_def remove_free_nid_def new_set_def)
    then show ?thesis using inv by simp
  qed
  show "free_inv J t" "new_set t = new_set s - {nid}" "alloc_set t = alloc_set s" "nat_part s t" using * by simp_all
qed

lemma free_inv_checked:
  assumes "free_inv (insert n J) s" "n \<in> new_set s \<Longrightarrow> raw_block_addr (disk_view s n) = NULL_ADDR"
  shows "free_inv J s"
  using assms by (auto simp: free_inv_def unused_def)

definition journal_rest :: "f2fs_summary_block \<Rightarrow> nat \<Rightarrow> u32 set" where
  "journal_rest sm i = (\<lambda>i. fst (nat_j sm i)) ` {i ..< n_nats sm}"

lemma journal_rest_Suc: "i < n_nats sm \<Longrightarrow> journal_rest sm i = insert (fst (nat_j sm i)) (journal_rest sm (Suc i))"
proof -
  assume "i < n_nats sm"
  then have "{i ..< n_nats sm} = insert i {Suc i ..< n_nats sm}" by auto
  then show ?thesis by (simp add: journal_rest_def)
qed

lemma scan_journal_ok:
  assumes inv: "free_inv (journal_rest (cursum s) i) s" and i: "i < n_nats (cursum s)" and mem: "enough_memory s"
    and dj: "distinct_journal (cursum s)"
  obtains t where "scan_journal i s = t" "free_inv (journal_rest (cursum s) (Suc i)) t" "nat_part s t" "alloc_set t = alloc_set s"
    "card (new_set s) \<le> Suc (card (new_set t))"
    "\<And>k. k \<in> new_set s \<Longrightarrow> raw_block_addr (disk_view s k) = NULL_ADDR \<Longrightarrow> k \<in> new_set t"
proof -
  obtain nid ne where e: "nat_j (cursum s) i = (nid, ne)" by fastforce
  have dv: "disk_view s nid = ne" using distinct_journal_view[OF dj i] by (simp add: e)
  have jr: "journal_rest (cursum s) i = insert nid (journal_rest (cursum s) (Suc i))" using journal_rest_Suc[OF i] by (simp add: e)
  show thesis
  proof (cases "raw_block_addr ne = NULL_ADDR")
    case True
    have "nid \<in> journal_rest (cursum s) i \<or> raw_block_addr (disk_view s nid) = NULL_ADDR" using jr by simp
    then obtain r t where t: "add_free_nid nid True s = (r, t)" "free_inv (journal_rest (cursum s) i) t" "nat_part s t"
      "new_set s \<subseteq> new_set t" "alloc_set t = alloc_set s"
      using add_free_nid_ok[OF inv mem, of nid] by metis
    have "free_inv (journal_rest (cursum s) (Suc i)) t"
      by (rule free_inv_checked[of nid]) (use t(2) jr dv True nat_part_view[OF t(3)] in simp_all)
    moreover have "card (new_set s) \<le> Suc (card (new_set t))" using card_mono[OF finite t(4)] by simp
    ultimately show thesis using that[of t] t e True by (auto simp: scan_journal_def)
  next
    case False
    let ?t = "remove_free_nid nid s"
    note r = remove_free_nid_ok[OF inv, of nid]
    have "free_inv (journal_rest (cursum s) (Suc i)) ?t"
      by (rule free_inv_checked[of nid]) (use r(1,2) jr in simp_all)
    moreover have "card (new_set s) \<le> Suc (card (new_set ?t))" by (simp add: r(2) card_Diff_singleton_if) linarith
    ultimately show thesis using that[of ?t] r(2-4) e False dv by (auto simp: scan_journal_def)
  qed
qed

lemma scan_journal_all:
  assumes inv: "free_inv (journal_nids (cursum s)) s" and mem: "enough_memory s" and dj: "distinct_journal (cursum s)"
    and m: "m \<le> n_nats (cursum s)"
  shows "\<exists>t. fold scan_journal [0 ..< m] s = t \<and> free_inv (journal_rest (cursum s) m) t \<and> nat_part s t \<and> alloc_set t = alloc_set s
    \<and> card (new_set s) \<le> m + card (new_set t)
    \<and> (\<forall>k \<in> new_set s. raw_block_addr (disk_view s k) = NULL_ADDR \<longrightarrow> k \<in> new_set t)"
  using m
proof (induction m)
  case 0
  have "journal_rest (cursum s) 0 = journal_nids (cursum s)" by (auto simp: journal_rest_def journal_nids_def)
  then show ?case using inv by simp
next
  case (Suc m)
  then obtain t where t: "fold scan_journal [0 ..< m] s = t" "free_inv (journal_rest (cursum s) m) t" "nat_part s t"
    "alloc_set t = alloc_set s" "card (new_set s) \<le> m + card (new_set t)"
    "\<forall>k \<in> new_set s. raw_block_addr (disk_view s k) = NULL_ADDR \<longrightarrow> k \<in> new_set t" by auto
  note v = nat_part_view[OF t(3)]
  have "enough_memory t" using mem t(3) by (simp add: enough_memory_def nat_part_def)
  then obtain u where u: "scan_journal m t = u" "free_inv (journal_rest (cursum t) (Suc m)) u" "nat_part t u"
    "alloc_set u = alloc_set t" "card (new_set t) \<le> Suc (card (new_set u))"
    "\<And>k. k \<in> new_set t \<Longrightarrow> raw_block_addr (disk_view t k) = NULL_ADDR \<Longrightarrow> k \<in> new_set u"
    using scan_journal_ok[of t m] t(2) Suc.prems dj v(5) by (metis Suc_le_lessD)
  then show ?case using t v nat_part_trans[OF t(3) u(3)] by auto
qed

subsection \<open>Building and taking\<close>

definition nid_candidate :: "f2fs_nm_info \<Rightarrow> u32 \<Rightarrow> bool" where
  "nid_candidate s k \<longleftrightarrow> k < max_nid s \<and> k \<notin> alloc_set s \<and> clean_null s k
     \<and> raw_block_addr (page_view s k) = NULL_ADDR \<and> raw_block_addr (disk_view s k) = NULL_ADDR"

lemma build_free_nids_ok:
  assumes inv: "free_inv {} s" and scan: "can_scan s" and nx: "next_scan_nid s < max_nid s" and few: "fcnt s = 0"
    and dj: "distinct_journal (cursum s)" and jn: "n_nats (cursum s) \<le> NAT_JOURNAL_ENTRIES"
  obtains t where "build_free_nids s = Some t" "free_inv {} t" "nat_part s t" "alloc_set t = alloc_set s"
    "next_scan_nid t < max_nid s"
    "\<And>k. nid_candidate s k \<Longrightarrow> fcnt t = 0 \<Longrightarrow> dist (max_nid s) k (next_scan_nid t) < dist (max_nid s) k (next_scan_nid s)"
proof -
  let ?J = "journal_nids (cursum s)" and ?m = "max_nid s"
  have inv': "free_inv ?J s" using inv by (auto simp: free_inv_def unused_def)
  obtain nid1 t1 where t1: "build_pages (FREE_NID_PAGES + 1) (next_scan_nid s) s = Some (nid1, t1)" "nid1 < ?m"
    "scanned ?J (\<lambda>k. dist ?m k (next_scan_nid s) < FREE_NID_PAGES + 1 \<and> k < ?m) s t1"
    "\<forall>k < ?m. FREE_NID_PAGES + 1 \<le> dist ?m k (next_scan_nid s)
      \<longrightarrow> dist ?m k nid1 + (FREE_NID_PAGES + 1) = dist ?m k (next_scan_nid s)"
    using build_pages_ok[OF inv' scan nx, of "FREE_NID_PAGES + 1"] by blast
  define t2 where "t2 = t1\<lparr>next_scan_nid := nid1\<rparr>"
  have f: "new_set t2 = new_set t1" "alloc_set t2 = alloc_set t1" "nat_part t1 t2"
    by (simp_all add: t2_def new_set_def alloc_set_def nat_part_def same_cache_def same_disk_def)
  have np1: "nat_part s t1" using t1(3) by (simp add: scanned_def)
  have np2: "nat_part s t2" by (rule nat_part_trans[OF np1 f(3)])
  note v = nat_part_view[OF np2]
  have inv2: "free_inv (journal_nids (cursum t2)) t2"
    using t1(3) by (simp add: scanned_def free_inv_def unused_def f(1) v nat_part_view[OF np1]) (simp add: t2_def)
  have mem2: "enough_memory t2" using can_scan_part[OF np2 scan] by (simp add: can_scan_def)
  obtain t where t: "fold scan_journal [0 ..< n_nats (cursum t2)] t2 = t" "free_inv (journal_rest (cursum t2) (n_nats (cursum t2))) t"
    "nat_part t2 t" "alloc_set t = alloc_set t2" "card (new_set t2) \<le> n_nats (cursum t2) + card (new_set t)"
    "\<forall>k \<in> new_set t2. raw_block_addr (disk_view t2 k) = NULL_ADDR \<longrightarrow> k \<in> new_set t"
    using scan_journal_all[OF inv2 mem2, of "n_nats (cursum t2)"] dj v(5) by auto
  have it: "free_inv {} t" using t(2) by (simp add: journal_rest_def)
  have nxt: "next_scan_nid t = nid1"
  proof -
    have "next_scan_nid (fold scan_journal is u) = next_scan_nid u" for "is" u
      by (induction "is" arbitrary: u)
        (auto simp: scan_journal_def add_free_nid_def remove_free_nid_def del_from_free_nid_list_def Let_def split: prod.splits option.splits)
    then show ?thesis by (simp add: t(1)[symmetric] t2_def)
  qed
  have "dist ?m k nid1 < dist ?m k (next_scan_nid s)" if k: "nid_candidate s k" and z: "fcnt t = 0" for k
  proof -
    have empty: "new_set t = {}" using card_new_set[OF it] z by simp
    have "card (new_set t1) \<le> 38" using t(5) f(1) v(5) jn empty by (simp add: NAT_JOURNAL_ENTRIES_def)
    then have "\<not> (dist ?m k (next_scan_nid s) < FREE_NID_PAGES + 1)"
      using t1(3) t(6) empty k f(1,2) v(3) by (auto simp: scanned_def nid_candidate_def)
    then show ?thesis using t1(4) k by (auto simp: nid_candidate_def)
  qed
  moreover have "build_free_nids s = Some t"
    using few t1(1) t(1) by (simp add: build_free_nids_def t2_def Let_def NAT_ENTRY_PER_BLOCK_def)
  ultimately show thesis
    using that[of t] it nat_part_trans[OF np2 t(3)] t(4) f(2) t1(2,3) nxt by (simp add: scanned_def)
qed

definition nid_allocated :: "f2fs_nm_info \<Rightarrow> u32 \<Rightarrow> f2fs_nm_info \<Rightarrow> bool" where
  "nid_allocated s nid t \<longleftrightarrow> unused {} s nid \<and> nid \<noteq> 0 \<and> nid \<notin> alloc_set s
    \<and> free_inv {} t \<and> nat_part s t \<and> alloc_set t = insert nid (alloc_set s) \<and> next_scan_nid t < max_nid s"

lemma nid_allocated_later:
  assumes "nat_part s t" "alloc_set t = alloc_set s" "nid_allocated t nid r"
  shows "nid_allocated s nid r"
  using assms nat_part_trans[OF assms(1), of r] nat_part_view[OF assms(1)] by (simp add: nid_allocated_def unused_def)

lemma take_nid:
  assumes inv: "free_inv {} s" and f: "fcnt s \<noteq> 0" and av: "\<not> available_nids s < total_valid_node_count s + 1"
    and nx: "next_scan_nid s < max_nid s"
  shows "\<exists>nid t. alloc_nid s = Some (Some nid, t) \<and> nid_allocated s nid t"
proof -
  have "new_set s \<noteq> {}" using f inv by (auto simp: free_inv_def)
  then obtain k where "k \<in> set (free_nid_list s)" "radix_lookup (free_nid_root s) k = Some NID_NEW"
    using inv by (auto simp: free_inv_def new_set_def)
  then have "first_new_nid s \<noteq> None" by (auto simp: first_new_nid_def find_None_iff)
  then obtain nid where nid: "first_new_nid s = Some nid" by blast
  then have new: "nid \<in> new_set s" by (auto simp: first_new_nid_def find_Some_iff new_set_def)
  define t where "t = s\<lparr>free_nid_root := radix_put nid NID_ALLOC (free_nid_root s), fcnt := fcnt s - 1\<rparr>"
  have r: "radix_ok (free_nid_root s)" using inv by (simp add: free_inv_def)
  have look: "radix_lookup (free_nid_root t) n = (if n = nid then Some NID_ALLOC else radix_lookup (free_nid_root s) n)" for n
    using r by (simp add: t_def radix_lookup_put)
  have ns: "new_set t = new_set s - {nid}" and al: "alloc_set t = insert nid (alloc_set s)"
    by (auto simp: new_set_def alloc_set_def look)
  have c: "card (new_set s) = Suc (card (new_set t))" using new unfolding ns by (rule card.remove[OF finite])
  have np: "nat_part s t" by (simp add: t_def nat_part_def same_cache_def same_disk_def)
  have tf: "radix_ok (free_nid_root t)" "free_nid_list t = free_nid_list s" "fcnt t = fcnt s - 1" "next_scan_nid t = next_scan_nid s"
    using r by (auto simp: t_def)
  have n0: "nid \<noteq> 0" "nid \<notin> alloc_set s" using new inv by (auto simp: new_set_def alloc_set_def free_inv_def)
  have "free_inv {} t"
    using inv new c tf n0(1) by (auto simp: free_inv_def look ns new_set_def unused_def nat_part_view[OF np])
  moreover have "unused {} s nid" using new inv by (simp add: free_inv_def)
  moreover have "alloc_nid s = Some (Some nid, t)" using f av nid by (subst alloc_nid.simps) (simp add: t_def)
  ultimately show ?thesis using n0 np al tf(4) nx by (auto simp: nid_allocated_def)
qed

lemma alloc_nid_eq:
  assumes "free_inv {} s" "can_scan s" "next_scan_nid s < max_nid s" "distinct_journal (cursum s)"
    "n_nats (cursum s) \<le> NAT_JOURNAL_ENTRIES" "\<not> available_nids s < total_valid_node_count s + 1" "nid_candidate s k"
  shows "\<exists>nid t. alloc_nid s = Some (Some nid, t) \<and> nid_allocated s nid t"
  using assms
proof (induction "dist (max_nid s) k (next_scan_nid s)" arbitrary: s rule: less_induct)
  case less
  show ?case
  proof (cases "fcnt s = 0")
    case False
    then show ?thesis by (rule take_nid[OF less.prems(1) _ less.prems(6,3)])
  next
    case True
    obtain t where t: "build_free_nids s = Some t" "free_inv {} t" "nat_part s t" "alloc_set t = alloc_set s"
      "next_scan_nid t < max_nid s"
      "\<And>k. nid_candidate s k \<Longrightarrow> fcnt t = 0 \<Longrightarrow> dist (max_nid s) k (next_scan_nid t) < dist (max_nid s) k (next_scan_nid s)"
      by (rule build_free_nids_ok[OF less.prems(1-3) True less.prems(4,5)]) blast
    note v = nat_part_view[OF t(3)]
    have av: "available_nids t = available_nids s" "total_valid_node_count t = total_valid_node_count s"
      using t(3) by (simp_all add: nat_part_def)
    have eq: "alloc_nid s = alloc_nid t" using True less.prems(6) t(1) by (subst alloc_nid.simps) simp
    have c: "nid_candidate t k" using less.prems(7) by (simp add: nid_candidate_def clean_null_def v t(4))
    have "\<exists>nid r. alloc_nid t = Some (Some nid, r) \<and> nid_allocated t nid r"
    proof (cases "fcnt t = 0")
      case z: True
      have "dist (max_nid t) k (next_scan_nid t) < dist (max_nid s) k (next_scan_nid s)"
        using t(6)[OF less.prems(7) z] by (simp add: v)
      then show ?thesis
        using less.hyps[of t] t(2,5) can_scan_part[OF t(3) less.prems(2)] less.prems(4-6) c v(5,6) av by auto
    next
      case False
      then show ?thesis using take_nid[OF t(2)] less.prems(6) av t(5) v(6) by simp
    qed
    then show ?thesis using eq nid_allocated_later[OF t(3,4)] by auto
  qed
qed

subsection \<open>The property\<close>



end
