(* ===== verification/F2fsBits.thy ===== *)
theory F2fsBits
  imports F2fsKernel
begin

unbundle bit_operations_syntax

text \<open>
  The search for bits in the block maps of a segment, \<open>segment.c\<close>: \<open>f2fs_set_bit\<close> numbers the bits of a
  byte from the most significant one, and the maps are read by \<open>unsigned long\<close>, 64 bits and little
  endian. \<open>__find_rev_next_zero_bit\<close> is the search by single bits; \<open>__find_rev_next_bit\<close> is not.
\<close>

type_synonym u64 = "64 word"

definition BITS_PER_LONG :: nat where "BITS_PER_LONG = 64"

text \<open>The byte array seen as longs.\<close>

definition load_long :: "(nat \<Rightarrow> u8) \<Rightarrow> nat \<Rightarrow> u64" where
  "load_long a i = foldr (\<lambda>j w. push_bit 8 w OR ucast (a (8 * i + j))) [0 ..< 8] 0"

definition reverse_ffs :: "u64 \<Rightarrow> nat" where
  "reverse_ffs w0 =
     (let (n1, w1) = (if w0 AND 0xffffffff = 0 then (32, drop_bit 32 w0) else (0, w0));
          (n2, w2) = (if w1 AND 0xffff = 0 then (n1 + 16, drop_bit 16 w1) else (n1, w1));
          (n3, w3) = (if w2 AND 0xff = 0 then (n2 + 8, drop_bit 8 w2) else (n2, w2));
          (n4, w4) = (if w3 AND 0xf0 = 0 then (n3 + 4, w3) else (n3, drop_bit 4 w3));
          (n5, w5) = (if w4 AND 0xc = 0 then (n4 + 2, w4) else (n4, drop_bit 2 w4)) in
      if w5 AND 0x2 = 0 then n5 + 1 else n5)"

definition reverse_ffz :: "u64 \<Rightarrow> nat" where
  "reverse_ffz x = reverse_ffs (NOT x)"

text \<open>The loop over the aligned longs, with what is after it.\<close>

definition found_first_bit :: "u64 \<Rightarrow> nat \<Rightarrow> nat \<Rightarrow> nat" where
  "found_first_bit tmp0 result siz =
     (let tmp = tmp0 AND drop_bit (BITS_PER_LONG - siz) (- 1) in
      if tmp = 0 then result + siz else result + reverse_ffs tmp)"

function aligned_bit :: "(nat \<Rightarrow> u64) \<Rightarrow> nat \<Rightarrow> nat \<Rightarrow> nat \<Rightarrow> nat" where
  "aligned_bit p i result siz =
     (if BITS_PER_LONG \<le> siz then
        if p i \<noteq> 0 then result + reverse_ffs (p i)
        else aligned_bit p (i + 1) (result + BITS_PER_LONG) (siz - BITS_PER_LONG)
      else if siz = 0 then result
      else found_first_bit (p i) result siz)"
  by auto
termination by (relation "measure (\<lambda>(p, i, result, siz). siz)") (auto simp: BITS_PER_LONG_def)

definition find_rev_next_bit :: "(nat \<Rightarrow> u64) \<Rightarrow> nat \<Rightarrow> nat \<Rightarrow> nat" where
  "find_rev_next_bit addr size0 offset0 =
     (let p = offset0 div BITS_PER_LONG;
          result = offset0 div BITS_PER_LONG * BITS_PER_LONG in
      if size0 \<le> offset0 then size0
      else
        let siz = size0 - result; offset = offset0 mod BITS_PER_LONG in
        if offset = 0 then aligned_bit addr p result siz
        else
          let quot = offset div 8 * 8; rest = offset mod 8;
              mask1 = push_bit quot (- 1);
              submask = ucast (drop_bit rest (ucast (push_bit rest (0xff :: 32 word)) :: u8)) :: u64;
              mask2 = mask1 AND push_bit quot submask;
              tmp = addr p AND mask2 in
          if siz < BITS_PER_LONG then found_first_bit tmp result siz
          else if tmp \<noteq> 0 then result + reverse_ffs tmp
          else aligned_bit addr (p + 1) (result + BITS_PER_LONG) (siz - BITS_PER_LONG))"

definition found_first_zero :: "u64 \<Rightarrow> nat \<Rightarrow> nat \<Rightarrow> nat" where
  "found_first_zero tmp0 result siz =
     (let tmp = tmp0 OR push_bit siz (- 1) in
      if tmp = - 1 then result + siz else result + reverse_ffz tmp)"

function aligned_zero :: "(nat \<Rightarrow> u64) \<Rightarrow> nat \<Rightarrow> nat \<Rightarrow> nat \<Rightarrow> nat" where
  "aligned_zero p i result siz =
     (if BITS_PER_LONG \<le> siz then
        if NOT (p i) \<noteq> 0 then result + reverse_ffz (p i)
        else aligned_zero p (i + 1) (result + BITS_PER_LONG) (siz - BITS_PER_LONG)
      else if siz = 0 then result
      else found_first_zero (p i) result siz)"
  by auto
termination by (relation "measure (\<lambda>(p, i, result, siz). siz)") (auto simp: BITS_PER_LONG_def)

definition find_rev_next_zero_bit :: "(nat \<Rightarrow> u64) \<Rightarrow> nat \<Rightarrow> nat \<Rightarrow> nat" where
  "find_rev_next_zero_bit addr size0 offset0 =
     (let p = offset0 div BITS_PER_LONG;
          result = offset0 div BITS_PER_LONG * BITS_PER_LONG in
      if size0 \<le> offset0 then size0
      else
        let siz = size0 - result; offset = offset0 mod BITS_PER_LONG in
        if offset = 0 then aligned_zero addr p result siz
        else
          let quot = offset div 8 * 8; rest = offset mod 8;
              mask1 = NOT (push_bit quot (- 1));
              submask = ucast (NOT (drop_bit rest (ucast (push_bit rest (0xff :: 32 word)) :: u8))) :: u64;
              mask2 = mask1 + push_bit quot submask;
              tmp = addr p OR mask2 in
          if siz < BITS_PER_LONG then found_first_zero tmp result siz
          else if NOT tmp \<noteq> 0 then result + reverse_ffz tmp
          else aligned_zero addr (p + 1) (result + BITS_PER_LONG) (siz - BITS_PER_LONG))"

declare aligned_bit.simps [simp del] aligned_zero.simps [simp del]

end
