(* ===== verification/F2fsSegment.thy ===== *)
theory F2fsSegment
  imports F2fsBits
begin

unbundle bit_operations_syntax

text \<open>
  The segment manager of F2FS, \<open>segment.c\<close> and \<open>segment.h\<close>: for every segment the bit maps of its valid
  blocks, now and in the last checkpoint (SIT); the maps of free segments and sections; the lists
  of dirty and of obsolete segments.

  A block address is a word, a segment number relative to the main area a natural number. Counters
  of the code are words where the code does not check them. An index outside an array of segments
  is \<open>None\<close>. The locks are left out: the operations are run one after the other.
\<close>

definition NULL_SEGNO :: nat where "NULL_SEGNO = 2 ^ 32 - 1"
definition CURSEG_HOT_DATA :: nat where "CURSEG_HOT_DATA = 0"
definition CURSEG_WARM_DATA :: nat where "CURSEG_WARM_DATA = 1"
definition CURSEG_COLD_DATA :: nat where "CURSEG_COLD_DATA = 2"
definition CURSEG_HOT_NODE :: nat where "CURSEG_HOT_NODE = 3"
definition CURSEG_WARM_NODE :: nat where "CURSEG_WARM_NODE = 4"
definition CURSEG_COLD_NODE :: nat where "CURSEG_COLD_NODE = 5"
definition NR_CURSEG_TYPE :: nat where "NR_CURSEG_TYPE = 6"
definition DIRTY :: nat where "DIRTY = 6"
definition PRE :: nat where "PRE = 7"
definition SUM_TYPE_DATA :: nat where "SUM_TYPE_DATA = 0"
definition SUM_TYPE_NODE :: nat where "SUM_TYPE_NODE = 1"

lemmas seg_types = CURSEG_HOT_DATA_def CURSEG_WARM_DATA_def CURSEG_COLD_DATA_def CURSEG_HOT_NODE_def
  CURSEG_WARM_NODE_def CURSEG_COLD_NODE_def NR_CURSEG_TYPE_def DIRTY_def PRE_def

definition IS_DATASEG :: "nat \<Rightarrow> bool" where "IS_DATASEG t \<longleftrightarrow> t \<le> CURSEG_COLD_DATA"
definition IS_NODESEG :: "nat \<Rightarrow> bool" where "IS_NODESEG t \<longleftrightarrow> CURSEG_HOT_NODE \<le> t"

datatype alloc_mode = LFS | SSR
datatype alloc_dir = ALLOC_RIGHT | ALLOC_LEFT

subsection \<open>Data\<close>

record seg_entry =
  se_valid_blocks :: nat
  se_cur_map :: "nat \<Rightarrow> u8"
  se_ckpt_valid_blocks :: "16 word"
  se_ckpt_map :: "nat \<Rightarrow> u8"
  se_type :: nat
  se_mtime :: u64

record seg_summary =
  sum_nid :: u32
  sum_ofs_in_node :: nat
  sum_version :: u8

text \<open>A summary block has a journal too; the journals are in \<open>F2fsNat\<close>.\<close>

record sum_block =
  sum_entries :: "nat \<Rightarrow> seg_summary"
  sum_footer_type :: nat

record curseg_info =
  cs_sum_blk :: sum_block
  cs_alloc_type :: alloc_mode
  cs_segno :: nat
  cs_next_blkoff :: nat
  cs_zone :: nat
  cs_next_segno :: nat

record f2fs_sm_info =
  sm_log_blocks_per_seg :: nat
  sm_segs_per_sec :: nat
  sm_secs_per_zone :: nat
  sm_main_segments :: nat
  sm_total_sections :: nat
  sm_segment_count :: nat
  sm_seg0_blkaddr :: u32
  sm_start_segno :: u32
  sm_ssa_blkaddr :: u32
  sm_noheap :: bool
  sm_sentries :: "nat \<Rightarrow> seg_entry"
  sm_sec_valid :: "nat \<Rightarrow> u32"
  sm_dirty_sentries_bitmap :: "nat \<Rightarrow> bool"
  sm_dirty_sentries :: u32
  sm_written_valid_blocks :: u32
  sm_elapsed_time :: u64
  sm_mounted_time :: u64
  sm_current_time :: u64
  sm_max_mtime :: u64
  sm_free_segmap :: "nat \<Rightarrow> bool"
  sm_free_secmap :: "nat \<Rightarrow> bool"
  sm_free_segments :: u32
  sm_free_sections :: u32
  sm_dirty_segmap :: "nat \<Rightarrow> nat \<Rightarrow> bool"
  sm_nr_dirty :: "nat \<Rightarrow> int"
  sm_victim_secmap :: "nat \<Rightarrow> bool"
  sm_curseg :: "nat \<Rightarrow> curseg_info"
  sm_sum_pages :: "u32 \<Rightarrow> sum_block"

definition blocks_per_seg :: "f2fs_sm_info \<Rightarrow> nat" where
  "blocks_per_seg s = 2 ^ sm_log_blocks_per_seg s"

text \<open>The difference of two unsigned numbers.\<close>

definition usub32 :: "nat \<Rightarrow> nat \<Rightarrow> nat" where
  "usub32 a b = (a + 2 ^ 32 - b) mod 2 ^ 32"

definition get_seg_entry :: "f2fs_sm_info \<Rightarrow> nat \<Rightarrow> seg_entry option" where
  "get_seg_entry s segno = (if segno < sm_main_segments s then Some (sm_sentries s segno) else None)"

definition IS_CURSEG :: "f2fs_sm_info \<Rightarrow> nat \<Rightarrow> bool" where
  "IS_CURSEG s seg \<longleftrightarrow>
     seg = cs_segno (sm_curseg s CURSEG_HOT_DATA) \<or> seg = cs_segno (sm_curseg s CURSEG_WARM_DATA) \<or>
     seg = cs_segno (sm_curseg s CURSEG_COLD_DATA) \<or> seg = cs_segno (sm_curseg s CURSEG_HOT_NODE) \<or>
     seg = cs_segno (sm_curseg s CURSEG_WARM_NODE) \<or> seg = cs_segno (sm_curseg s CURSEG_COLD_NODE)"

definition START_BLOCK :: "f2fs_sm_info \<Rightarrow> nat \<Rightarrow> u32" where
  "START_BLOCK s segno = sm_seg0_blkaddr s + push_bit (sm_log_blocks_per_seg s) (of_nat segno + sm_start_segno s)"

definition NEXT_FREE_BLKADDR :: "f2fs_sm_info \<Rightarrow> curseg_info \<Rightarrow> u32" where
  "NEXT_FREE_BLKADDR s c = START_BLOCK s (cs_segno c) + of_nat (cs_next_blkoff c)"

definition GET_BLKOFF_FROM_SEG0 :: "f2fs_sm_info \<Rightarrow> u32 \<Rightarrow> nat" where
  "GET_BLKOFF_FROM_SEG0 s blk = unat ((blk - sm_seg0_blkaddr s) AND (of_nat (blocks_per_seg s) - 1))"

definition GET_SEGNO :: "f2fs_sm_info \<Rightarrow> u32 \<Rightarrow> nat" where
  "GET_SEGNO s blk =
     (if blk = NULL_ADDR \<or> blk = NEW_ADDR then NULL_SEGNO
      else unat (drop_bit (sm_log_blocks_per_seg s) (blk - sm_seg0_blkaddr s) - sm_start_segno s))"

definition GET_SECNO :: "f2fs_sm_info \<Rightarrow> nat \<Rightarrow> nat" where
  "GET_SECNO s segno = segno div sm_segs_per_sec s"

definition GET_ZONENO_FROM_SEGNO :: "f2fs_sm_info \<Rightarrow> nat \<Rightarrow> nat" where
  "GET_ZONENO_FROM_SEGNO s segno = segno div sm_segs_per_sec s div sm_secs_per_zone s"

definition GET_SUM_BLOCK :: "f2fs_sm_info \<Rightarrow> nat \<Rightarrow> u32" where
  "GET_SUM_BLOCK s segno = sm_ssa_blkaddr s + of_nat segno"

definition get_valid_blocks :: "f2fs_sm_info \<Rightarrow> nat \<Rightarrow> nat \<Rightarrow> nat" where
  "get_valid_blocks s segno section =
     (if 1 < section then unat (sm_sec_valid s (GET_SECNO s segno)) else se_valid_blocks (sm_sentries s segno))"

definition get_mtime :: "f2fs_sm_info \<Rightarrow> u64" where
  "get_mtime s = sm_elapsed_time s + sm_current_time s - sm_mounted_time s"

subsection \<open>Dirty and obsolete segments\<close>

definition set_dirty_segmap :: "nat \<Rightarrow> nat \<Rightarrow> f2fs_sm_info \<Rightarrow> f2fs_sm_info" where
  "set_dirty_segmap t segno s =
     (if sm_dirty_segmap s t segno then s
      else s\<lparr>sm_dirty_segmap := (sm_dirty_segmap s)(t := (sm_dirty_segmap s t)(segno := True)),
             sm_nr_dirty := (sm_nr_dirty s)(t := sm_nr_dirty s t + 1)\<rparr>)"

definition clear_dirty_segmap :: "nat \<Rightarrow> nat \<Rightarrow> f2fs_sm_info \<Rightarrow> f2fs_sm_info" where
  "clear_dirty_segmap t segno s =
     (if sm_dirty_segmap s t segno then
        s\<lparr>sm_dirty_segmap := (sm_dirty_segmap s)(t := (sm_dirty_segmap s t)(segno := False)),
          sm_nr_dirty := (sm_nr_dirty s)(t := sm_nr_dirty s t - 1)\<rparr>
      else s)"

definition locate_dirty :: "nat \<Rightarrow> nat \<Rightarrow> f2fs_sm_info \<Rightarrow> f2fs_sm_info option" where
  "locate_dirty segno dirty_type s =
     (if IS_CURSEG s segno then Some s
      else
        let s1 = set_dirty_segmap dirty_type segno s in
        if dirty_type = DIRTY then do {
          sentry \<leftarrow> get_seg_entry s1 segno;
          bug_on (DIRTY \<le> se_type sentry);
          Some (set_dirty_segmap (se_type sentry) segno s1)
        } else Some s1)"

definition remove_dirty :: "nat \<Rightarrow> nat \<Rightarrow> f2fs_sm_info \<Rightarrow> f2fs_sm_info option" where
  "remove_dirty segno dirty_type s =
     (let s1 = clear_dirty_segmap dirty_type segno s in
      if dirty_type = DIRTY then do {
        sentry \<leftarrow> get_seg_entry s1 segno;
        let s2 = clear_dirty_segmap (se_type sentry) segno s1;
        Some (if get_valid_blocks s2 segno (sm_segs_per_sec s2) = 0
              then s2\<lparr>sm_victim_secmap := (sm_victim_secmap s2)(GET_SECNO s2 segno := False)\<rparr> else s2)
      } else Some s1)"

definition locate_dirty_segment :: "nat \<Rightarrow> f2fs_sm_info \<Rightarrow> f2fs_sm_info option" where
  "locate_dirty_segment segno s =
     (if segno = NULL_SEGNO \<or> IS_CURSEG s segno then Some s
      else do {
        sentry \<leftarrow> get_seg_entry s segno;
        let valid_blocks = se_valid_blocks sentry;
        if valid_blocks = 0 then locate_dirty segno PRE s \<bind> remove_dirty segno DIRTY
        else if valid_blocks < blocks_per_seg s then locate_dirty segno DIRTY s
        else remove_dirty segno DIRTY s
      })"

subsection \<open>Free segments and sections\<close>

definition set_free :: "nat \<Rightarrow> f2fs_sm_info \<Rightarrow> f2fs_sm_info" where
  "set_free segno s =
     (let secno = segno div sm_segs_per_sec s; start_segno = secno * sm_segs_per_sec s;
          s1 = s\<lparr>sm_free_segmap := (sm_free_segmap s)(segno := False), sm_free_segments := sm_free_segments s + 1\<rparr>;
          next = find_next_bit (sm_free_segmap s1) (sm_main_segments s) start_segno in
      if start_segno + sm_segs_per_sec s \<le> next
      then s1\<lparr>sm_free_secmap := (sm_free_secmap s)(secno := False), sm_free_sections := sm_free_sections s + 1\<rparr>
      else s1)"

definition set_inuse :: "nat \<Rightarrow> f2fs_sm_info \<Rightarrow> f2fs_sm_info" where
  "set_inuse segno s =
     (let secno = segno div sm_segs_per_sec s;
          s1 = s\<lparr>sm_free_segmap := (sm_free_segmap s)(segno := True), sm_free_segments := sm_free_segments s - 1\<rparr> in
      if sm_free_secmap s secno then s1
      else s1\<lparr>sm_free_secmap := (sm_free_secmap s)(secno := True), sm_free_sections := sm_free_sections s - 1\<rparr>)"

definition set_test_and_free :: "nat \<Rightarrow> f2fs_sm_info \<Rightarrow> f2fs_sm_info" where
  "set_test_and_free segno s =
     (let secno = segno div sm_segs_per_sec s; start_segno = secno * sm_segs_per_sec s in
      if sm_free_segmap s segno then
        let s1 = s\<lparr>sm_free_segmap := (sm_free_segmap s)(segno := False), sm_free_segments := sm_free_segments s + 1\<rparr>;
            next = find_next_bit (sm_free_segmap s1) (start_segno + sm_segs_per_sec s) start_segno in
        if start_segno + sm_segs_per_sec s \<le> next \<and> sm_free_secmap s secno
        then s1\<lparr>sm_free_secmap := (sm_free_secmap s)(secno := False), sm_free_sections := sm_free_sections s + 1\<rparr>
        else s1
      else s)"

definition set_test_and_inuse :: "nat \<Rightarrow> f2fs_sm_info \<Rightarrow> f2fs_sm_info" where
  "set_test_and_inuse segno s = (if sm_free_segmap s segno then s else set_inuse segno s)"

definition set_prefree_as_free_segments :: "f2fs_sm_info \<Rightarrow> f2fs_sm_info" where
  "set_prefree_as_free_segments s =
     foldl (\<lambda>s segno. if sm_dirty_segmap s PRE segno then set_test_and_free segno s else s) s [0 ..< sm_main_segments s]"

subsection \<open>The segment information table\<close>

definition mark_sit_entry_dirty :: "nat \<Rightarrow> f2fs_sm_info \<Rightarrow> f2fs_sm_info" where
  "mark_sit_entry_dirty segno s =
     (if sm_dirty_sentries_bitmap s segno then s
      else s\<lparr>sm_dirty_sentries_bitmap := (sm_dirty_sentries_bitmap s)(segno := True),
             sm_dirty_sentries := sm_dirty_sentries s + 1\<rparr>)"

definition set_sit_entry_type :: "nat \<Rightarrow> nat \<Rightarrow> bool \<Rightarrow> f2fs_sm_info \<Rightarrow> f2fs_sm_info option" where
  "set_sit_entry_type type segno modified s = do {
     se \<leftarrow> get_seg_entry s segno;
     let s1 = s\<lparr>sm_sentries := (sm_sentries s)(segno := se\<lparr>se_type := type\<rparr>)\<rparr>;
     Some (if modified then mark_sit_entry_dirty segno s1 else s1)
   }"

definition update_sit_entry :: "u32 \<Rightarrow> int \<Rightarrow> f2fs_sm_info \<Rightarrow> f2fs_sm_info option" where
  "update_sit_entry blkaddr del s =
     (let segno = GET_SEGNO s blkaddr; offset = GET_BLKOFF_FROM_SEG0 s blkaddr in do {
        se \<leftarrow> get_seg_entry s segno;
        let new_vblocks = int (se_valid_blocks se) + del;
        bug_on (drop_bit 16 new_vblocks \<noteq> 0 \<or> int (blocks_per_seg s) < new_vblocks);
        let (old, cur_map) =
          (if 0 < del then f2fs_set_bit offset (se_cur_map se) else f2fs_clear_bit offset (se_cur_map se));
        bug_on (if 0 < del then old else \<not> old);
        let se1 = se\<lparr>se_valid_blocks := nat new_vblocks, se_mtime := get_mtime s, se_cur_map := cur_map,
          se_ckpt_valid_blocks := (if f2fs_test_bit offset (se_ckpt_map se) then se_ckpt_valid_blocks se
                                   else se_ckpt_valid_blocks se + word_of_int del)\<rparr>;
        let s1 = mark_sit_entry_dirty segno
          (s\<lparr>sm_sentries := (sm_sentries s)(segno := se1), sm_max_mtime := get_mtime s\<rparr>);
        let s2 = s1\<lparr>sm_written_valid_blocks := sm_written_valid_blocks s1 + word_of_int del\<rparr>;
        Some (if 1 < sm_segs_per_sec s2 then
          s2\<lparr>sm_sec_valid := (sm_sec_valid s2)(GET_SECNO s2 segno := sm_sec_valid s2 (GET_SECNO s2 segno) + word_of_int del)\<rparr>
          else s2)
      })"

definition refresh_sit_entry :: "u32 \<Rightarrow> u32 \<Rightarrow> f2fs_sm_info \<Rightarrow> f2fs_sm_info option" where
  "refresh_sit_entry old new s = do {
     s1 \<leftarrow> update_sit_entry new 1 s;
     s2 \<leftarrow> (if GET_SEGNO s old \<noteq> NULL_SEGNO then update_sit_entry old (- 1) s1 else Some s1);
     s3 \<leftarrow> locate_dirty_segment (GET_SEGNO s old) s2;
     locate_dirty_segment (GET_SEGNO s new) s3
   }"

definition invalidate_blocks :: "u32 \<Rightarrow> f2fs_sm_info \<Rightarrow> f2fs_sm_info option" where
  "invalidate_blocks addr s = do {
     bug_on (addr = NULL_ADDR);
     if addr = NEW_ADDR then Some s
     else update_sit_entry addr (- 1) s \<bind> locate_dirty_segment (GET_SEGNO s addr)
   }"

end
