(* ===== verification/F2fsCurseg.thy ===== *)
theory F2fsCurseg
  imports F2fsSegment
begin

unbundle bit_operations_syntax

text \<open>
  The logs of F2FS, \<open>segment.c\<close>: each of the six types of blocks has a current segment, to which new
  blocks are given one after the other. Blocks are taken in order (LFS) or from the holes of a used
  segment (SSR); when the segment is full, a new one comes from the map of free segments.
  \<open>F2FS_DA_MAP\<close> is defined, so the segments of a running system are always filled in order; SSR
  comes in with a segment that the recovery or the checkpoint selects.
\<close>

abbreviation curseg :: "nat \<Rightarrow> f2fs_sm_info \<Rightarrow> curseg_info" where
  "curseg type s \<equiv> sm_curseg s type"

definition upd_curseg :: "nat \<Rightarrow> (curseg_info \<Rightarrow> curseg_info) \<Rightarrow> f2fs_sm_info \<Rightarrow> f2fs_sm_info" where
  "upd_curseg type f s = s\<lparr>sm_curseg := (sm_curseg s)(type := f (sm_curseg s type))\<rparr>"

definition add_sum_entry :: "nat \<Rightarrow> seg_summary \<Rightarrow> f2fs_sm_info \<Rightarrow> f2fs_sm_info" where
  "add_sum_entry type sm s =
     upd_curseg type (\<lambda>c. c\<lparr>cs_sum_blk := (cs_sum_blk c)
       \<lparr>sum_entries := (sum_entries (cs_sum_blk c))(cs_next_blkoff c := sm)\<rparr>\<rparr>) s"

definition get_sum_page :: "nat \<Rightarrow> f2fs_sm_info \<Rightarrow> sum_block" where
  "get_sum_page segno s = sm_sum_pages s (GET_SUM_BLOCK s segno)"

definition write_sum_page :: "sum_block \<Rightarrow> u32 \<Rightarrow> f2fs_sm_info \<Rightarrow> f2fs_sm_info" where
  "write_sum_page sum_blk blk_addr s = s\<lparr>sm_sum_pages := (sm_sum_pages s)(blk_addr := sum_blk)\<rparr>"

definition is_next_segment_free :: "nat \<Rightarrow> f2fs_sm_info \<Rightarrow> bool" where
  "is_next_segment_free type s =
     (let segno = cs_segno (curseg type s) + 1 in
      if segno < sm_main_segments s \<and> segno mod sm_segs_per_sec s \<noteq> 0 then \<not> sm_free_segmap s segno else False)"

subsection \<open>The search for a free segment\<close>

text \<open>The scan to the left. It reads outside the bitmap when it starts there.\<close>

fun scan_left :: "f2fs_sm_info \<Rightarrow> nat \<Rightarrow> nat option" where
  "scan_left s left_start =
     (if sm_total_sections s \<le> left_start then None
      else if sm_free_secmap s left_start then
        (if 0 < left_start then scan_left s (left_start - 1)
         else
           let left_start = find_next_zero_bit (sm_free_secmap s) (sm_total_sections s) 0 in
           if sm_total_sections s \<le> left_start then None else Some left_start)
      else Some left_start)"

declare scan_left.simps [simp del]

text \<open>From \<open>find_other_zone\<close> to \<open>skip_left\<close>: the section, whether the search went left, and where to.\<close>

definition find_section :: "f2fs_sm_info \<Rightarrow> alloc_dir \<Rightarrow> nat \<Rightarrow> bool \<Rightarrow> nat \<Rightarrow> (nat \<times> bool \<times> nat) option" where
  "find_section s dir hint go_left left_start = do {
     let secno = find_next_zero_bit (sm_free_secmap s) (sm_total_sections s) hint;
     (secno, go_left, left_start) \<leftarrow>
       (if sm_total_sections s \<le> secno then
          if dir = ALLOC_RIGHT then do {
            let secno = find_next_zero_bit (sm_free_secmap s) (sm_total_sections s) 0;
            bug_on (sm_total_sections s \<le> secno);
            Some (secno, go_left, left_start)
          } else Some (secno, True, usub32 hint 1)
        else Some (secno, go_left, left_start));
     if \<not> go_left then Some (secno, go_left, left_start)
     else do {
       left_start \<leftarrow> scan_left s left_start;
       Some (left_start, go_left, left_start)
     }
   }"

definition zone_in_use :: "f2fs_sm_info \<Rightarrow> nat \<Rightarrow> bool" where
  "zone_in_use s zoneno = list_ex (\<lambda>i. cs_zone (curseg i s) = zoneno) [0 ..< NR_CURSEG_TYPE]"

definition get_new_segment :: "nat \<Rightarrow> bool \<Rightarrow> alloc_dir \<Rightarrow> f2fs_sm_info \<Rightarrow> (nat \<times> f2fs_sm_info) option" where
  "get_new_segment newseg new_sec dir s =
     (let total_zones = sm_total_sections s div sm_secs_per_zone s;
          hint = newseg div sm_segs_per_sec s;
          old_zoneno = GET_ZONENO_FROM_SEGNO s newseg;
          next = find_next_zero_bit (sm_free_segmap s) (sm_main_segments s) (newseg + 1) in do {
        segno \<leftarrow>
          (if \<not> new_sec \<and> (newseg + 1) mod sm_segs_per_sec s \<noteq> 0
              \<and> usub32 next newseg < sm_segs_per_sec s - newseg mod sm_segs_per_sec s
           then Some next
           else do {
             (secno, go_left, left_start) \<leftarrow> find_section s dir hint False hint;
             let zoneno = secno div sm_secs_per_zone s;
             if sm_secs_per_zone s = 1 \<or> zoneno = old_zoneno
                \<or> dir = ALLOC_LEFT \<and> \<not> go_left \<and> total_zones \<le> zoneno + 1
                \<or> dir = ALLOC_LEFT \<and> go_left \<and> zoneno = 0
                \<or> \<not> zone_in_use s zoneno
             then Some (secno * sm_segs_per_sec s)
             else do {
               let hint = (if go_left then usub32 (zoneno * sm_secs_per_zone s) 1
                           else if total_zones \<le> zoneno + 1 then 0
                           else (zoneno + 1) * sm_secs_per_zone s);
               (secno, go_left, left_start) \<leftarrow> find_section s dir hint go_left left_start;
               Some (secno * sm_segs_per_sec s)
             }
           });
        bug_on (sm_free_segmap s segno);
        Some (segno, set_inuse segno s)
      })"

subsection \<open>Changing the current segment\<close>

definition reset_curseg :: "nat \<Rightarrow> bool \<Rightarrow> f2fs_sm_info \<Rightarrow> f2fs_sm_info option" where
  "reset_curseg type modified s =
     (let segno = cs_next_segno (curseg type s);
          footer_type = (if IS_NODESEG type then SUM_TYPE_NODE else if IS_DATASEG type then SUM_TYPE_DATA else 0);
          s1 = upd_curseg type (\<lambda>c. c\<lparr>cs_segno := segno, cs_zone := GET_ZONENO_FROM_SEGNO s segno,
            cs_next_blkoff := 0, cs_next_segno := NULL_SEGNO,
            cs_sum_blk := (cs_sum_blk c)\<lparr>sum_footer_type := footer_type\<rparr>\<rparr>) s in
      set_sit_entry_type type segno modified s1)"

definition new_curseg :: "nat \<Rightarrow> bool \<Rightarrow> f2fs_sm_info \<Rightarrow> f2fs_sm_info option" where
  "new_curseg type new_sec s =
     (let c = curseg type s; segno = cs_segno c;
          s1 = write_sum_page (cs_sum_blk c) (GET_SUM_BLOCK s segno) s;
          dir = (if sm_noheap s \<or> type = CURSEG_WARM_DATA \<or> type = CURSEG_COLD_DATA then ALLOC_RIGHT else ALLOC_LEFT) in do {
        (segno, s2) \<leftarrow> get_new_segment segno new_sec dir s1;
        s3 \<leftarrow> reset_curseg type True (upd_curseg type (\<lambda>c. c\<lparr>cs_next_segno := segno\<rparr>) s2);
        Some (upd_curseg type (\<lambda>c. c\<lparr>cs_alloc_type := LFS\<rparr>) s3)
      })"

text \<open>\<open>f2fs_set_bit\<close> numbers the bits of the maps, the search reads them as longs.\<close>

definition next_free_blkoff :: "f2fs_sm_info \<Rightarrow> nat \<Rightarrow> nat \<Rightarrow> nat" where
  "next_free_blkoff s segno start =
     (let se = sm_sentries s segno;
          target_map = (\<lambda>i. load_long (se_ckpt_map se) i OR load_long (se_cur_map se) i) in
      find_rev_next_zero_bit target_map (blocks_per_seg s) start)"

definition refresh_next_blkoff :: "nat \<Rightarrow> f2fs_sm_info \<Rightarrow> f2fs_sm_info" where
  "refresh_next_blkoff type s =
     upd_curseg type (\<lambda>c.
       if cs_alloc_type c = SSR then c\<lparr>cs_next_blkoff := next_free_blkoff s (cs_segno c) (cs_next_blkoff c + 1)\<rparr>
       else c\<lparr>cs_next_blkoff := cs_next_blkoff c + 1\<rparr>) s"

definition change_curseg :: "nat \<Rightarrow> bool \<Rightarrow> f2fs_sm_info \<Rightarrow> f2fs_sm_info option" where
  "change_curseg type reuse s =
     (let c = curseg type s; new_segno = cs_next_segno c;
          s1 = set_test_and_inuse new_segno (write_sum_page (cs_sum_blk c) (GET_SUM_BLOCK s (cs_segno c)) s) in do {
        s2 \<leftarrow> remove_dirty new_segno PRE s1;
        s3 \<leftarrow> remove_dirty new_segno DIRTY s2;
        s4 \<leftarrow> reset_curseg type True s3;
        let s5 = upd_curseg type (\<lambda>c. c\<lparr>cs_alloc_type := SSR, cs_next_blkoff := next_free_blkoff s4 (cs_segno c) 0\<rparr>) s4;
        Some (if reuse then
          upd_curseg type (\<lambda>c. c\<lparr>cs_sum_blk := (cs_sum_blk c)\<lparr>sum_entries := sum_entries (get_sum_page new_segno s5)\<rparr>\<rparr>) s5
          else s5)
      })"

definition allocate_segment_by_default :: "nat \<Rightarrow> bool \<Rightarrow> f2fs_sm_info \<Rightarrow> f2fs_sm_info option" where
  "allocate_segment_by_default type force s =
     (if force then new_curseg type True s
      else if type = CURSEG_WARM_NODE then new_curseg type False s
      else if cs_alloc_type (curseg type s) = LFS \<and> is_next_segment_free type s then new_curseg type False s
      else new_curseg type False s)"

definition allocate_new_segments :: "f2fs_sm_info \<Rightarrow> f2fs_sm_info option" where
  "allocate_new_segments s =
     foldM (\<lambda>i s. allocate_segment_by_default i True s \<bind> locate_dirty_segment (cs_segno (curseg i s)))
       [CURSEG_HOT_DATA ..< Suc CURSEG_COLD_DATA] s"

definition has_curseg_space :: "nat \<Rightarrow> f2fs_sm_info \<Rightarrow> bool" where
  "has_curseg_space type s \<longleftrightarrow> cs_next_blkoff (curseg type s) < blocks_per_seg s"

subsection \<open>Allocating a block\<close>

text \<open>The result has the new address and, for a page of a node, the address that goes to its footer.\<close>

definition allocate_data_block ::
  "bool \<Rightarrow> u32 \<Rightarrow> seg_summary \<Rightarrow> nat \<Rightarrow> f2fs_sm_info \<Rightarrow> (u32 \<times> u32 option \<times> f2fs_sm_info) option" where
  "allocate_data_block page old_blkaddr sm type s =
     (let new_blkaddr = NEXT_FREE_BLKADDR s (curseg type s);
          s1 = refresh_next_blkoff type (add_sum_entry type sm s) in do {
        s2 \<leftarrow> (if has_curseg_space type s1 then Some s1 else allocate_segment_by_default type False s1);
        s3 \<leftarrow> refresh_sit_entry old_blkaddr new_blkaddr s2;
        Some (new_blkaddr,
              if page \<and> IS_NODESEG type then Some (NEXT_FREE_BLKADDR s3 (curseg type s3)) else None, s3)
      })"

definition allocate_dummy_data_block ::
  "bool \<Rightarrow> nat \<Rightarrow> f2fs_sm_info \<Rightarrow> (u32 \<times> u32 option \<times> f2fs_sm_info) option" where
  "allocate_dummy_data_block page type s =
     (let new_blkaddr = NEXT_FREE_BLKADDR s (curseg type s) in do {
        s1 \<leftarrow> (if has_curseg_space type s then Some s else allocate_segment_by_default type False s);
        s2 \<leftarrow> update_sit_entry new_blkaddr (- 1) s1;
        s3 \<leftarrow> locate_dirty_segment (GET_SEGNO s2 new_blkaddr) s2;
        Some (new_blkaddr,
              if page \<and> IS_NODESEG type then Some (NEXT_FREE_BLKADDR s3 (curseg type s3)) else None, s3)
      })"

text \<open>The recovery puts a block where it was found. \<open>old_blkaddr\<close> is the block it replaces.\<close>

definition recover_data_page :: "seg_summary \<Rightarrow> u32 \<Rightarrow> u32 \<Rightarrow> f2fs_sm_info \<Rightarrow> f2fs_sm_info option" where
  "recover_data_page sm old_blkaddr new_blkaddr s =
     (let segno = GET_SEGNO s new_blkaddr in do {
        se \<leftarrow> get_seg_entry s segno;
        let type = (if se_valid_blocks se = 0 \<and> \<not> IS_CURSEG s segno then
                      if old_blkaddr = NULL_ADDR then CURSEG_COLD_DATA else CURSEG_WARM_DATA
                    else se_type se);
        let old_cursegno = cs_segno (curseg type s);
        s1 \<leftarrow> (if segno \<noteq> old_cursegno
               then change_curseg type True (upd_curseg type (\<lambda>c. c\<lparr>cs_next_segno := segno\<rparr>) s)
               else Some s);
        let s2 = upd_curseg type (\<lambda>c. c\<lparr>cs_next_blkoff := GET_BLKOFF_FROM_SEG0 s1 new_blkaddr\<rparr>) s1;
        s3 \<leftarrow> refresh_sit_entry old_blkaddr new_blkaddr (add_sum_entry type sm s2);
        locate_dirty_segment old_cursegno s3
      })"

end
