(* ===== verification/F2fsSit.thy ===== *)
theory F2fsSit
  imports F2fsCurseg
begin

unbundle bit_operations_syntax

text \<open>
  The segment information on the disk (SIT), \<open>segment.c\<close>. The checkpoint flushes the dirty entries to
  the journal of the cold data summary or to the SIT blocks, of which there are two copies, and
  collects the blocks to be discarded; the mount reads them back and builds the tables of free and of
  dirty segments from them.

  \<open>sit_store\<close> has what is on the disk: the place of the SIT blocks from the super block, the bitmap of
  the copies in use, the blocks and the journal. The checkpoint pack takes the bitmap and the journal
  over as they are. Segment numbers of the journal are natural numbers. The pages read are in the page
  cache, so the reads do not fail, and the copy that is read was written out by an earlier checkpoint.
  Memory allocations succeed. The checks are those with \<open>CONFIG_F2FS_CHECK_FS\<close>.
\<close>

definition SIT_ENTRY_PER_BLOCK :: nat where "SIT_ENTRY_PER_BLOCK = 55"
definition SIT_JOURNAL_ENTRIES :: nat where "SIT_JOURNAL_ENTRIES = 6"
definition SIT_VBLOCKS_SHIFT :: nat where "SIT_VBLOCKS_SHIFT = 10"

definition SIT_BLOCK_OFFSET :: "nat \<Rightarrow> nat" where "SIT_BLOCK_OFFSET segno = segno div SIT_ENTRY_PER_BLOCK"
definition START_SEGNO :: "nat \<Rightarrow> nat" where "START_SEGNO segno = SIT_BLOCK_OFFSET segno * SIT_ENTRY_PER_BLOCK"
definition SIT_ENTRY_OFFSET :: "nat \<Rightarrow> nat" where "SIT_ENTRY_OFFSET segno = segno mod SIT_ENTRY_PER_BLOCK"

subsection \<open>Entries\<close>

record f2fs_sit_entry =
  raw_vblocks :: "16 word"
  raw_valid_map :: "nat \<Rightarrow> u8"
  raw_mtime :: u64

definition GET_SIT_VBLOCKS :: "f2fs_sit_entry \<Rightarrow> nat" where
  "GET_SIT_VBLOCKS raw = unat (raw_vblocks raw AND (push_bit SIT_VBLOCKS_SHIFT 1 - 1))"

definition GET_SIT_TYPE :: "f2fs_sit_entry \<Rightarrow> nat" where
  "GET_SIT_TYPE raw = unat (drop_bit SIT_VBLOCKS_SHIFT (raw_vblocks raw AND NOT (push_bit SIT_VBLOCKS_SHIFT 1 - 1)))"

definition seg_info_from_raw_sit :: "f2fs_sit_entry \<Rightarrow> seg_entry \<Rightarrow> seg_entry" where
  "seg_info_from_raw_sit rs se = se\<lparr>se_valid_blocks := GET_SIT_VBLOCKS rs,
     se_ckpt_valid_blocks := of_nat (GET_SIT_VBLOCKS rs), se_cur_map := raw_valid_map rs, se_ckpt_map := raw_valid_map rs,
     se_type := GET_SIT_TYPE rs, se_mtime := raw_mtime rs\<rparr>"

definition seg_info_to_raw_sit :: "seg_entry \<Rightarrow> f2fs_sit_entry \<times> seg_entry" where
  "seg_info_to_raw_sit se =
     (\<lparr>raw_vblocks = push_bit SIT_VBLOCKS_SHIFT (of_nat (se_type se)) OR of_nat (se_valid_blocks se),
       raw_valid_map = se_cur_map se, raw_mtime = se_mtime se\<rparr>,
      se\<lparr>se_ckpt_map := se_cur_map se, se_ckpt_valid_blocks := of_nat (se_valid_blocks se)\<rparr>)"

subsection \<open>The journal and the blocks\<close>

record sit_store =
  sit_base_addr :: nat
  sit_blocks :: nat
  sit_bitmap :: "nat \<Rightarrow> u8"
  sit_pages :: "nat \<Rightarrow> nat \<Rightarrow> f2fs_sit_entry"
  n_sits :: nat
  sit_j :: "nat \<Rightarrow> nat \<times> f2fs_sit_entry"
  opt_discard :: bool
  discard_list :: "(u32 \<times> nat) list"
  nr_discards :: int
  max_discards :: int

definition has_sit_space :: "sit_store \<Rightarrow> int \<Rightarrow> bool" where
  "has_sit_space d sz \<longleftrightarrow> sz \<le> int SIT_JOURNAL_ENTRIES - int (n_sits d)"

definition find_in_sit_journal :: "sit_store \<Rightarrow> nat \<Rightarrow> nat option" where
  "find_in_sit_journal d val = find (\<lambda>i. fst (sit_j d i) = val) [0 ..< n_sits d]"

definition lookup_sit_journal :: "sit_store \<Rightarrow> nat \<Rightarrow> nat option \<times> sit_store" where
  "lookup_sit_journal d val =
     (case find_in_sit_journal d val of
        Some i \<Rightarrow> (Some i, d)
      | None \<Rightarrow> if n_sits d < SIT_JOURNAL_ENTRIES then (Some (n_sits d), d\<lparr>n_sits := n_sits d + 1\<rparr>) else (None, d))"

definition current_sit_addr :: "sit_store \<Rightarrow> nat \<Rightarrow> nat" where
  "current_sit_addr d start =
     (let offset = SIT_BLOCK_OFFSET start; blk_addr = sit_base_addr d + offset in
      if f2fs_test_bit offset (sit_bitmap d) then blk_addr + sit_blocks d else blk_addr)"

definition next_sit_addr :: "sit_store \<Rightarrow> nat \<Rightarrow> nat" where
  "next_sit_addr d block_addr =
     (let block_addr = block_addr - sit_base_addr d in
      (if block_addr < sit_blocks d then block_addr + sit_blocks d else block_addr - sit_blocks d) + sit_base_addr d)"

definition set_to_next_sit :: "nat \<Rightarrow> sit_store \<Rightarrow> sit_store" where
  "set_to_next_sit start d =
     (let block_off = SIT_BLOCK_OFFSET start in
      if f2fs_test_bit block_off (sit_bitmap d) then d\<lparr>sit_bitmap := snd (f2fs_clear_bit block_off (sit_bitmap d))\<rparr>
      else d\<lparr>sit_bitmap := snd (f2fs_set_bit block_off (sit_bitmap d))\<rparr>)"

definition get_next_sit_page :: "nat \<Rightarrow> sit_store \<Rightarrow> nat \<times> sit_store" where
  "get_next_sit_page start d =
     (let src_off = current_sit_addr d start; dst_off = next_sit_addr d src_off in
      (dst_off, set_to_next_sit start (d\<lparr>sit_pages := (sit_pages d)(dst_off := sit_pages d src_off)\<rparr>)))"

subsection \<open>Discards\<close>

datatype cp_reason = CP_UMOUNT | CP_SYNC | CP_DISCARD

record cp_control =
  cp_reason :: cp_reason
  trim_start :: nat
  trim_end :: nat
  trim_minlen :: nat
  trimmed :: nat

definition add_discard :: "u32 \<Rightarrow> nat \<Rightarrow> cp_control \<times> sit_store \<Rightarrow> cp_control \<times> sit_store" where
  "add_discard blkaddr len = (\<lambda>(cpc, d). (cpc\<lparr>trimmed := trimmed cpc + len\<rparr>,
     d\<lparr>discard_list := discard_list d @ [(blkaddr, len)], nr_discards := nr_discards d + int len\<rparr>))"

text \<open>The loop over the runs of obsolete blocks; \<open>pos\<close> is where the next search starts.\<close>

partial_function (option) discard_loop ::
  "(nat \<Rightarrow> u64) \<Rightarrow> nat \<Rightarrow> u32 \<Rightarrow> bool \<Rightarrow> nat \<Rightarrow> cp_control \<times> sit_store \<Rightarrow> (cp_control \<times> sit_store) option" where
  "discard_loop dmap max_blocks start_block force pos cd =
     (if force \<or> nr_discards (snd cd) \<le> max_discards (snd cd) then
        let start = find_rev_next_bit dmap max_blocks pos in
        if max_blocks \<le> start then Some cd
        else
          let fin = find_rev_next_zero_bit dmap max_blocks (start + 1) in
          if fin - start < trim_minlen (fst cd) then discard_loop dmap max_blocks start_block force (fin + 1) cd
          else discard_loop dmap max_blocks start_block force (fin + 1)
                 (add_discard (start_block + of_nat start) (fin - start) cd)
      else Some cd)"

declare discard_loop.simps [code]

definition add_discard_addrs :: "f2fs_sm_info \<Rightarrow> cp_control \<times> sit_store \<Rightarrow> (cp_control \<times> sit_store) option" where
  "add_discard_addrs s cd =
     (let segno = trim_start (fst cd); max_blocks = blocks_per_seg s; force = (cp_reason (fst cd) = CP_DISCARD) in do {
        se \<leftarrow> get_seg_entry s segno;
        if \<not> force \<and> \<not> opt_discard (snd cd) then Some cd
        else if force \<and> se_valid_blocks se = 0 then
          if sm_dirty_segmap s PRE segno then Some ((fst cd)\<lparr>trimmed := trimmed (fst cd) + max_blocks\<rparr>, snd cd)
          else Some (add_discard (START_BLOCK s segno) max_blocks cd)
        else if se_valid_blocks se = 0 \<or> se_valid_blocks se = max_blocks then Some cd
        else
          let dmap = (\<lambda>i. (load_long (se_cur_map se) i XOR load_long (se_ckpt_map se) i) AND load_long (se_ckpt_map se) i) in
          discard_loop dmap max_blocks (START_BLOCK s segno) force 0 cd
      })"

subsection \<open>The checkpoint\<close>

text \<open>A set has the first segment number of its SIT block and the number of its dirty entries.\<close>

type_synonym sit_entry_set = "nat \<times> u32"

fun insert_sit_set :: "sit_entry_set \<Rightarrow> sit_entry_set list \<Rightarrow> sit_entry_set list" where
  "insert_sit_set ses [] = [ses]"
| "insert_sit_set ses (next # rest) = (if snd ses \<le> snd next then ses # next # rest else next # insert_sit_set ses rest)"

fun bump_sit_set :: "nat \<Rightarrow> sit_entry_set list \<Rightarrow> sit_entry_set list option" where
  "bump_sit_set start [] = None"
| "bump_sit_set start (ses # rest) =
     (if fst ses = start then Some (insert_sit_set (start, snd ses + 1) rest)
      else case bump_sit_set start rest of None \<Rightarrow> None | Some l \<Rightarrow> Some (ses # l))"

definition add_sit_entry :: "nat \<Rightarrow> sit_entry_set list \<Rightarrow> sit_entry_set list" where
  "add_sit_entry segno head =
     (case bump_sit_set (START_SEGNO segno) head of Some l \<Rightarrow> l | None \<Rightarrow> (START_SEGNO segno, 1) # head)"

definition add_sits_in_set :: "f2fs_sm_info \<Rightarrow> sit_entry_set list \<Rightarrow> sit_entry_set list" where
  "add_sits_in_set s head =
     foldl (\<lambda>head segno. if sm_dirty_sentries_bitmap s segno then add_sit_entry segno head else head)
       head [0 ..< sm_main_segments s]"

definition remove_sits_in_journal ::
  "sit_entry_set list \<Rightarrow> f2fs_sm_info \<Rightarrow> sit_store \<Rightarrow> sit_entry_set list \<times> f2fs_sm_info \<times> sit_store" where
  "remove_sits_in_journal head s d =
     (let (head, s) = foldl (\<lambda>(head, s) i.
            let segno = fst (sit_j d i) in
            (if sm_dirty_sentries_bitmap s segno then head else add_sit_entry segno head, mark_sit_entry_dirty segno s))
          (head, s) (rev [0 ..< n_sits d]) in
      (head, s, d\<lparr>n_sits := 0\<rparr>))"

type_synonym flush_state = "u32 \<times> cp_control \<times> f2fs_sm_info \<times> sit_store"

definition flush_sit_entry :: "bool \<Rightarrow> nat \<Rightarrow> nat \<Rightarrow> flush_state \<Rightarrow> flush_state option" where
  "flush_sit_entry to_journal page segno = (\<lambda>(entry_cnt, cpc, s, d).
     if sm_dirty_sentries_bitmap s segno then do {
       se \<leftarrow> get_seg_entry s segno;
       (cpc, d) \<leftarrow> (if nr_discards d < max_discards d then add_discard_addrs s (cpc\<lparr>trim_start := segno\<rparr>, d) else Some (cpc, d));
       let (raw, se) = seg_info_to_raw_sit se;
       d \<leftarrow> (if to_journal then
                case lookup_sit_journal d segno of
                  (None, d) \<Rightarrow> None
                | (Some offset, d) \<Rightarrow> Some (d\<lparr>sit_j := (sit_j d)(offset := (segno, raw))\<rparr>)
              else Some (d\<lparr>sit_pages := (sit_pages d)(page := (sit_pages d page)(SIT_ENTRY_OFFSET segno := raw))\<rparr>));
       Some (entry_cnt - 1, cpc,
             s\<lparr>sm_sentries := (sm_sentries s)(segno := se),
               sm_dirty_sentries_bitmap := (sm_dirty_sentries_bitmap s)(segno := False),
               sm_dirty_sentries := sm_dirty_sentries s - 1\<rparr>, d)
     }
     else Some (entry_cnt, cpc, s, d))"

fun flush_sit_sets :: "sit_entry_set list \<Rightarrow> bool \<Rightarrow> cp_control \<times> f2fs_sm_info \<times> sit_store
    \<Rightarrow> (cp_control \<times> f2fs_sm_info \<times> sit_store) option" where
  "flush_sit_sets [] to_journal csd = Some csd"
| "flush_sit_sets (ses # sets) to_journal (cpc, s, d) =
     (let start_segno = fst ses; fin = min (start_segno + SIT_ENTRY_PER_BLOCK) (sm_main_segments s);
          to_journal = (to_journal \<and> has_sit_space d (sint (snd ses)));
          (page, d) = (if to_journal then (0, d) else get_next_sit_page start_segno d) in do {
        (entry_cnt, csd) \<leftarrow> foldM (flush_sit_entry to_journal page) [start_segno ..< fin] (snd ses, cpc, s, d);
        bug_on (entry_cnt \<noteq> 0);
        flush_sit_sets sets to_journal csd
      })"

definition flush_sit_entries :: "cp_control \<Rightarrow> f2fs_sm_info \<Rightarrow> sit_store \<Rightarrow> (cp_control \<times> f2fs_sm_info \<times> sit_store) option" where
  "flush_sit_entries cpc s d = do {
     let head = add_sits_in_set s [];
     let (head, s, d) = (if has_sit_space d (sint (sm_dirty_sentries s)) then (head, s, d) else remove_sits_in_journal head s d);
     (cpc, s, d) \<leftarrow>
       (if sm_dirty_sentries s = 0 then Some (cpc, s, d)
        else do {
          (cpc, s, d) \<leftarrow> flush_sit_sets head True (cpc, s, d);
          bug_on (sm_dirty_sentries s \<noteq> 0);
          Some (cpc, s, d)
        });
     (cpc, d) \<leftarrow>
       (if cp_reason cpc = CP_DISCARD then do {
          (cpc', d) \<leftarrow> foldM (\<lambda>segno (cpc, d). add_discard_addrs s (cpc\<lparr>trim_start := segno\<rparr>, d))
            [trim_start cpc ..< trim_end cpc + 1] (cpc, d);
          Some (cpc'\<lparr>trim_start := max (trim_start cpc) (trim_end cpc + 1)\<rparr>, d)
        }
        else Some (cpc, d));
     Some (cpc, set_prefree_as_free_segments s, d)
   }"

subsection \<open>The mount\<close>

text \<open>What the checkpoint pack has of the logs: where they are, and their summary blocks. The checkpoint is
  one of an unmount, without compacted summaries.\<close>

record seg_ckpt =
  ck_segno :: "nat \<Rightarrow> nat"
  ck_blkoff :: "nat \<Rightarrow> nat"
  ck_alloc_type :: "nat \<Rightarrow> alloc_mode"
  ck_sum :: "nat \<Rightarrow> sum_block"
  ck_elapsed_time :: u64
  ck_valid_block_count :: u32

definition do_checkpoint_logs :: "u32 \<Rightarrow> f2fs_sm_info \<Rightarrow> seg_ckpt" where
  "do_checkpoint_logs valid_user_blocks s =
     \<lparr>ck_segno = (\<lambda>t. cs_segno (curseg t s)), ck_blkoff = (\<lambda>t. cs_next_blkoff (curseg t s)),
      ck_alloc_type = (\<lambda>t. cs_alloc_type (curseg t s)), ck_sum = (\<lambda>t. cs_sum_blk (curseg t s)),
      ck_elapsed_time = get_mtime s, ck_valid_block_count = valid_user_blocks\<rparr>"

definition build_sit_info :: "seg_ckpt \<Rightarrow> f2fs_sm_info \<Rightarrow> f2fs_sm_info" where
  "build_sit_info ck s = s\<lparr>
     sm_sentries := (\<lambda>_. \<lparr>se_valid_blocks = 0, se_cur_map = (\<lambda>_. 0), se_ckpt_valid_blocks = 0, se_ckpt_map = (\<lambda>_. 0),
       se_type = 0, se_mtime = 0\<rparr>),
     sm_dirty_sentries_bitmap := (\<lambda>_. False), sm_sec_valid := (\<lambda>_. 0),
     sm_written_valid_blocks := ck_valid_block_count ck, sm_dirty_sentries := 0,
     sm_elapsed_time := ck_elapsed_time ck, sm_mounted_time := sm_current_time s\<rparr>"

definition build_free_segmap :: "f2fs_sm_info \<Rightarrow> f2fs_sm_info" where
  "build_free_segmap s = s\<lparr>sm_free_segmap := (\<lambda>_. True), sm_free_secmap := (\<lambda>_. True),
     sm_free_segments := 0, sm_free_sections := 0\<rparr>"

definition read_normal_summaries :: "seg_ckpt \<Rightarrow> nat \<Rightarrow> f2fs_sm_info \<Rightarrow> f2fs_sm_info option" where
  "read_normal_summaries ck type s =
     (let segno = ck_segno ck type; sm = ck_sum ck type;
          sm = (if IS_NODESEG type then sm\<lparr>sum_entries := (\<lambda>i. if i < blocks_per_seg s
                   then (sum_entries sm i)\<lparr>sum_version := 0, sum_ofs_in_node := 0\<rparr> else sum_entries sm i)\<rparr>
                else sm) in do {
        s1 \<leftarrow> reset_curseg type False (upd_curseg type (\<lambda>c. c\<lparr>cs_sum_blk := sm, cs_next_segno := segno\<rparr>) s);
        Some (upd_curseg type (\<lambda>c. c\<lparr>cs_alloc_type := ck_alloc_type ck type, cs_next_blkoff := ck_blkoff ck type\<rparr>) s1)
      })"

definition restore_curseg_summaries :: "seg_ckpt \<Rightarrow> f2fs_sm_info \<Rightarrow> f2fs_sm_info option" where
  "restore_curseg_summaries ck s = foldM (read_normal_summaries ck) [CURSEG_HOT_DATA ..< Suc CURSEG_COLD_NODE] s"

definition build_curseg :: "seg_ckpt \<Rightarrow> f2fs_sm_info \<Rightarrow> f2fs_sm_info option" where
  "build_curseg ck s = restore_curseg_summaries ck (s\<lparr>sm_curseg := (\<lambda>_.
     \<lparr>cs_sum_blk = \<lparr>sum_entries = (\<lambda>_. \<lparr>sum_nid = 0, sum_ofs_in_node = 0, sum_version = 0\<rparr>), sum_footer_type = 0\<rparr>,
      cs_alloc_type = LFS, cs_segno = NULL_SEGNO, cs_next_blkoff = 0, cs_zone = 0, cs_next_segno = 0\<rparr>)\<rparr>)"

text \<open>The check with \<open>CONFIG_F2FS_CHECK_FS\<close> counts the runs of valid blocks, in the bit order of the machine.\<close>

definition test_bit_le :: "nat \<Rightarrow> (nat \<Rightarrow> u8) \<Rightarrow> bool" where
  "test_bit_le nr a \<longleftrightarrow> bit (a (nr div 8)) (nr mod 8)"

lemma find_next_run:
  fixes f :: "nat \<Rightarrow> bool"
  assumes n: "n = (if v then find_next_zero_bit f siz cur else find_next_bit f siz cur)" "n < siz"
  shows "cur \<le> n \<and> f n = (\<not> v) \<and> (f cur = v \<longrightarrow> cur < n)"
proof -
  have e: "n = find_next_bit (\<lambda>i. f i \<noteq> v) siz cur" using n(1) by (cases v) (simp_all add: find_next_zero_bit_def)
  have "cur \<le> n" "f n \<noteq> v" using find_next_bit_least(1,3)[OF e[symmetric]] n(2) by auto
  then show ?thesis by (auto simp: le_less)
qed

function count_runs :: "(nat \<Rightarrow> bool) \<Rightarrow> nat \<Rightarrow> nat \<Rightarrow> bool \<Rightarrow> nat \<Rightarrow> nat" where
  "count_runs f siz cur_pos is_valid valid_blocks =
     (let next_pos = (if is_valid then find_next_zero_bit f siz cur_pos else find_next_bit f siz cur_pos);
          valid_blocks = (if is_valid then valid_blocks + (next_pos - cur_pos) else valid_blocks) in
      if next_pos < siz then count_runs f siz next_pos (\<not> is_valid) valid_blocks else valid_blocks)"
  by auto

termination
proof (relation "measure (\<lambda>(f, siz, cur, v, n). 2 * (siz - cur) + (if f cur = v then 0 else 1))", simp)
  fix f :: "nat \<Rightarrow> bool" and siz cur n x xa :: nat and v :: bool
  assume x: "x = (if v then find_next_zero_bit f siz cur else find_next_bit f siz cur)" "x < siz"
  then show "((f, siz, x, \<not> v, xa), f, siz, cur, v, n) \<in> measure (\<lambda>(f, siz, cur, v, n). 2 * (siz - cur) + (if f cur = v then 0 else 1))"
    using find_next_run[OF x] by (cases "f cur = v") auto
qed

declare count_runs.simps [simp del]

definition check_block_count :: "f2fs_sm_info \<Rightarrow> nat \<Rightarrow> f2fs_sit_entry \<Rightarrow> unit option" where
  "check_block_count s segno raw = do {
     bug_on (blocks_per_seg s < GET_SIT_VBLOCKS raw);
     bug_on (sm_segment_count s - 1 < segno);
     bug_on (GET_SIT_VBLOCKS raw \<noteq> count_runs (\<lambda>i. test_bit_le i (raw_valid_map raw)) (blocks_per_seg s) 0
       (test_bit_le 0 (raw_valid_map raw)) 0)
   }"

text \<open>The entry of a segment, from the journal if it is there.\<close>

definition stored_sit_entry :: "sit_store \<Rightarrow> nat \<Rightarrow> f2fs_sit_entry" where
  "stored_sit_entry d start = (case find_in_sit_journal d start of Some i \<Rightarrow> snd (sit_j d i)
     | None \<Rightarrow> sit_pages d (current_sit_addr d start) (SIT_ENTRY_OFFSET start))"

definition build_sit_entry :: "sit_store \<Rightarrow> nat \<Rightarrow> f2fs_sm_info \<Rightarrow> f2fs_sm_info option" where
  "build_sit_entry d start s =
     (let sit = stored_sit_entry d start in do {
        check_block_count s start sit;
        let se = seg_info_from_raw_sit sit (sm_sentries s start);
        Some (s\<lparr>sm_sentries := (sm_sentries s)(start := se),
          sm_sec_valid := (if 1 < sm_segs_per_sec s
            then (sm_sec_valid s)(GET_SECNO s start := sm_sec_valid s (GET_SECNO s start) + of_nat (se_valid_blocks se))
            else sm_sec_valid s)\<rparr>)
      })"

definition build_sit_entries :: "sit_store \<Rightarrow> f2fs_sm_info \<Rightarrow> f2fs_sm_info option" where
  "build_sit_entries d s = foldM (build_sit_entry d) [0 ..< sm_main_segments s] s"

definition init_free_segmap :: "f2fs_sm_info \<Rightarrow> f2fs_sm_info" where
  "init_free_segmap s =
     foldl (\<lambda>s type. set_test_and_inuse (cs_segno (curseg type s)) s)
       (foldl (\<lambda>s start. if se_valid_blocks (sm_sentries s start) = 0 then set_free start s else s) s [0 ..< sm_main_segments s])
       [CURSEG_HOT_DATA ..< Suc CURSEG_COLD_NODE]"

definition init_dirty_segmap :: "f2fs_sm_info \<Rightarrow> f2fs_sm_info option" where
  "init_dirty_segmap s =
     foldM (\<lambda>segno s.
       if \<not> sm_free_segmap s segno then Some s
       else
         let valid_blocks = get_valid_blocks s segno 0 in
         if valid_blocks = blocks_per_seg s \<or> valid_blocks = 0 then Some s
         else do { bug_on (blocks_per_seg s < valid_blocks); locate_dirty segno DIRTY s })
     [0 ..< sm_main_segments s] s"

definition build_dirty_segmap :: "f2fs_sm_info \<Rightarrow> f2fs_sm_info option" where
  "build_dirty_segmap s = do {
     s1 \<leftarrow> init_dirty_segmap (s\<lparr>sm_dirty_segmap := (\<lambda>_ _. False), sm_nr_dirty := (\<lambda>_. 0)\<rparr>);
     Some (s1\<lparr>sm_victim_secmap := (\<lambda>_. False)\<rparr>)
   }"

definition build_segment_manager :: "seg_ckpt \<Rightarrow> sit_store \<Rightarrow> f2fs_sm_info \<Rightarrow> (f2fs_sm_info \<times> sit_store) option" where
  "build_segment_manager ck d s = do {
     s1 \<leftarrow> build_curseg ck (build_free_segmap (build_sit_info ck s));
     s2 \<leftarrow> build_sit_entries d s1;
     s3 \<leftarrow> build_dirty_segmap (init_free_segmap s2);
     Some (s3\<lparr>sm_max_mtime := get_mtime s3\<rparr>, d\<lparr>discard_list := [], nr_discards := 0, max_discards := 0\<rparr>)
   }"

end
