(* ===== verification/F2fsBitsSpec.thy ===== *)
theory F2fsBitsSpec
  imports F2fsBits
begin

text \<open>
  The bit searches against the search by single bits.
\<close>

subsection \<open>The first bit of a long\<close>

text \<open>The bit of a long at a position counted as \<open>f2fs_set_bit\<close> does.\<close>

definition rbit :: "u64 \<Rightarrow> nat \<Rightarrow> bool" where
  "rbit w r = bit w (8 * (r div 8) + (7 - r mod 8))"

lemma and_field_zero:
  "x AND push_bit p (mask q) = 0 \<longleftrightarrow> (\<forall>k. p \<le> k \<and> k < p + q \<longrightarrow> \<not> bit x k)" for x :: u64
proof -
  have "bit (x AND push_bit p (mask q)) k \<longleftrightarrow> p \<le> k \<and> k < p + q \<and> bit x k" for k
    by (auto simp: bit_simps dest: bit_imp_le_length)
  then show ?thesis using bit_imp_le_length[of x] by (simp add: bit_eq_iff) blast
qed

definition nibble_steps :: "u64 \<Rightarrow> nat" where
  "nibble_steps w3 =
     (let (n4, w4) = (if w3 AND 0xf0 = 0 then (4, w3) else (0, drop_bit 4 w3));
          (n5, w5) = (if w4 AND 0xc = 0 then (n4 + 2, w4) else (n4, drop_bit 2 w4)) in
      if w5 AND 0x2 = 0 then n5 + 1 else n5)"

lemma field_masks: "(0xf0 :: u64) = push_bit 4 (mask 4)" "(0xc :: u64) = push_bit 2 (mask 2)" "(2 :: u64) = push_bit 1 (mask 1)"
  by (simp_all add: mask_eq_exp_minus_1)

lemma nibble_tests:
  fixes x :: u64
  shows "x AND 0xf0 = 0 \<longleftrightarrow> \<not> bit x 4 \<and> \<not> bit x 5 \<and> \<not> bit x 6 \<and> \<not> bit x 7"
    "x AND 0xc = 0 \<longleftrightarrow> \<not> bit x 2 \<and> \<not> bit x 3" "x AND 2 = 0 \<longleftrightarrow> \<not> bit x 1"
  by (simp_all only: field_masks and_field_zero) (auto simp: less_Suc_eq numeral_eq_Suc)

lemma nibble_steps_ok:
  assumes "\<exists>k < 8. bit x k"
  shows "nibble_steps x < 8" "bit x (7 - nibble_steps x)" "r < nibble_steps x \<Longrightarrow> \<not> bit x (7 - r)"
proof -
  have b: "bit x 0 \<or> bit x 1 \<or> bit x 2 \<or> bit x 3 \<or> bit x 4 \<or> bit x 5 \<or> bit x 6 \<or> bit x 7"
    using assms by (auto simp: less_Suc_eq numeral_eq_Suc)
  show "nibble_steps x < 8" by (simp add: nibble_steps_def Let_def)
  show "bit x (7 - nibble_steps x)"
    using b by (auto simp: nibble_steps_def Let_def nibble_tests bit_drop_bit_eq)
  show "r < nibble_steps x \<Longrightarrow> \<not> bit x (7 - r)"
    using b by (auto simp: nibble_steps_def Let_def nibble_tests bit_drop_bit_eq less_Suc_eq numeral_eq_Suc split: if_splits)
qed

text \<open>One halving: the low half is skipped when it is empty.\<close>

definition halve :: "nat \<Rightarrow> nat \<times> u64 \<Rightarrow> nat \<times> u64" where
  "halve h = (\<lambda>(n, w). if w AND mask h = 0 then (n + h, drop_bit h w) else (n, w))"

lemma halve_ok:
  assumes "halve h (n, w) = (n1, w1)" and w: "w = drop_bit n w0" and lo: "\<forall>k < n. \<not> bit w0 k"
    and nz: "\<exists>k < h + h. bit w k"
  shows "w1 = drop_bit n1 w0" "\<forall>k < n1. \<not> bit w0 k" "\<exists>k < h. bit w1 k" "n1 = n \<or> n1 = n + h"
proof -
  have m: "w AND mask h = 0 \<longleftrightarrow> (\<forall>k < h. \<not> bit w k)" using and_field_zero[of w 0 h] by simp
  have "w1 = drop_bit n1 w0 \<and> (\<forall>k < n1. \<not> bit w0 k) \<and> (\<exists>k < h. bit w1 k) \<and> (n1 = n \<or> n1 = n + h)"
  proof (cases "w AND mask h = 0")
    case True
    then have e: "n1 = n + h" "w1 = drop_bit h w" using assms(1) by (simp_all add: halve_def)
    have "\<not> bit w0 k" if "k < n + h" for k
    proof (cases "k < n")
      case False
      then have "\<not> bit w (k - n)" using m True that by simp
      then show ?thesis using False by (simp add: w bit_drop_bit_eq)
    qed (use lo in simp)
    moreover obtain k where "k < h + h" "bit w k" using nz by blast
    moreover from this have "h \<le> k" using m True by (metis not_less)
    ultimately show ?thesis using e w by (auto simp: bit_drop_bit_eq add.commute intro!: exI[of _ "k - h"])
  next
    case False
    then show ?thesis using assms(1) w lo m by (auto simp: halve_def)
  qed
  then show "w1 = drop_bit n1 w0" "\<forall>k < n1. \<not> bit w0 k" "\<exists>k < h. bit w1 k" "n1 = n \<or> n1 = n + h" by blast+
qed

lemma reverse_ffs_eq:
  assumes "halve 32 (0, w) = (n1, w1)" "halve 16 (n1, w1) = (n2, w2)" "halve 8 (n2, w2) = (n3, w3)"
  shows "reverse_ffs w = n3 + nibble_steps w3"
proof -
  have m: "(0xffffffff :: u64) = mask 32" "(0xffff :: u64) = mask 16" "(0xff :: u64) = mask 8"
    by (simp_all add: mask_eq_exp_minus_1)
  have h0: "(if x AND mask h = 0 then (h, drop_bit h x) else (0, x)) = halve h (0, x)" for x :: u64 and h
    by (simp add: halve_def)
  have h: "(if x AND mask h = 0 then (n + h, drop_bit h x) else (n, x)) = halve h (n, x)" for x :: u64 and h n
    by (simp add: halve_def)
  show ?thesis
    unfolding reverse_ffs_def m h0 h by (simp only: assms Let_def prod.case) (simp add: nibble_steps_def Let_def)
qed

lemma bit_drop: "bit (drop_bit n x) k \<longleftrightarrow> bit x (n + k)" for x :: u64
  by (simp add: bit_drop_bit_eq)

lemma rpos_less: "r < 8 * m \<Longrightarrow> 8 * (r div 8) + (7 - r mod 8) < 8 * (m :: nat)"
proof -
  assume "r < 8 * m"
  then have "r div 8 < m" by (simp add: less_mult_imp_div_less mult.commute)
  then show ?thesis by linarith
qed

lemma reverse_ffs_ok:
  assumes "w \<noteq> 0"
  shows "reverse_ffs w < 64" "rbit w (reverse_ffs w)" "r < reverse_ffs w \<Longrightarrow> \<not> rbit w r"
proof -
  obtain n1 w1 where 1: "halve 32 (0, w) = (n1, w1)" by fastforce
  obtain n2 w2 where 2: "halve 16 (n1, w1) = (n2, w2)" by fastforce
  obtain n3 w3 where 3: "halve 8 (n2, w2) = (n3, w3)" by fastforce
  obtain k where "bit w k" using assms by (auto simp: bit_eq_iff)
  then have nz: "\<exists>k < 32 + 32. bit w k" using bit_imp_le_length[of w k] by auto
  have w: "w = drop_bit 0 w" and lo: "\<forall>k < 0. \<not> bit w k" by simp_all
  note l1 = halve_ok[OF 1 w lo nz]
  have nz1: "\<exists>k < 16 + 16. bit w1 k" using l1(3) by simp
  note l2 = halve_ok[OF 2 l1(1,2) nz1]
  have nz2: "\<exists>k < 8 + 8. bit w2 k" using l2(3) by simp
  note l3 = halve_ok[OF 3 l2(1,2) nz2]
  have n3: "n3 \<le> 56" "8 * (n3 div 8) = n3" using l1(4) l2(4) l3(4) by auto
  note s = nibble_steps_ok[OF l3(3)]
  have e: "reverse_ffs w = n3 + nibble_steps w3" by (rule reverse_ffs_eq[OF 1 2 3])
  have rb: "rbit w (n3 + r) \<longleftrightarrow> bit w3 (7 - r)" if "r < 8" for r
  proof -
    obtain m where m: "n3 = 8 * m" using n3(2) by metis
    have "8 * ((n3 + r) div 8) + (7 - (n3 + r) mod 8) = n3 + (7 - r)" using that by (simp add: m)
    moreover have "bit w3 (7 - r) \<longleftrightarrow> bit w (n3 + (7 - r))" by (subst l3(1)) (rule bit_drop)
    ultimately show ?thesis unfolding rbit_def by (simp only:)
  qed
  show "reverse_ffs w < 64" using e n3(1) s(1) by linarith
  show "rbit w (reverse_ffs w)" using rb[OF s(1)] s(2) e by simp
  show "\<not> rbit w r" if r: "r < reverse_ffs w"
  proof (cases "r < n3")
    case True
    have "8 * (r div 8) + (7 - r mod 8) < n3" using rpos_less[of r "n3 div 8"] True n3(2) by simp
    then show ?thesis using l3(2) by (simp add: rbit_def)
  next
    case False
    then have "rbit w r \<longleftrightarrow> bit w3 (7 - (r - n3))" using rb[of "r - n3"] r e s(1) by simp
    then show ?thesis using s(3)[of "r - n3"] r e False by simp
  qed
qed

lemma reverse_ffs_least:
  assumes "r < 64" "rbit w r" "\<And>q. q < r \<Longrightarrow> \<not> rbit w q"
  shows "reverse_ffs w = r" "w \<noteq> 0"
proof -
  show w: "w \<noteq> 0" using assms(2) by (auto simp: rbit_def)
  note f = reverse_ffs_ok[OF w]
  show "reverse_ffs w = r" using assms f by (meson linorder_neqE_nat)
qed

lemma rbit_zero: "w = 0 \<longleftrightarrow> (\<forall>r < 64. \<not> rbit w r)"
  using reverse_ffs_ok[of w] by (auto simp: rbit_def)

lemma rbit_not: "r < 64 \<Longrightarrow> rbit (NOT w) r \<longleftrightarrow> \<not> rbit w r"
proof -
  assume "r < 64"
  then have "8 * (r div 8) + (7 - r mod 8) < 64" using rpos_less[of r 8] by simp
  then show ?thesis by (simp add: rbit_def bit_not_iff)
qed

subsection \<open>The search for a zero\<close>

definition rev_bit :: "(nat \<Rightarrow> u64) \<Rightarrow> nat \<Rightarrow> bool" where
  "rev_bit a n = rbit (a (n div 64)) (n mod 64)"

lemma rev_bit_long: "r < 64 \<Longrightarrow> rev_bit a (64 * i + r) \<longleftrightarrow> rbit (a i) r"
  by (simp add: rev_bit_def)

text \<open>A long in which the bits below \<open>ofs\<close> are set.\<close>

definition masked :: "u64 \<Rightarrow> nat \<Rightarrow> u64 \<Rightarrow> bool" where
  "masked w ofs t \<longleftrightarrow> (\<forall>r < 64. rbit t r \<longleftrightarrow> r < ofs \<or> rbit w r)"

lemma masked_0: "masked w 0 w"
  by (simp add: masked_def)

lemma zero_in_long:
  assumes m: "masked (a i) ofs t" and nz: "NOT t \<noteq> 0" and s: "64 * i + 64 \<le> n"
  shows "64 * i + reverse_ffz t = find_next_zero_bit (rev_bit a) n (64 * i + ofs)"
proof -
  note f = reverse_ffs_ok[OF nz, folded reverse_ffz_def]
  let ?r = "reverse_ffz t"
  have z: "\<not> rbit t ?r" using rbit_not[OF f(1), of t] f(2) by simp
  then have r: "ofs \<le> ?r" "\<not> rbit (a i) ?r" using m f(1) by (auto simp: masked_def)
  have below: "rev_bit a k" if "64 * i + ofs \<le> k" "k < 64 * i + ?r" for k
  proof -
    have k: "k - 64 * i < ?r" "ofs \<le> k - 64 * i" "64 * i + (k - 64 * i) = k" using that by simp_all
    then have "rbit t (k - 64 * i)" using f(3)[OF k(1)] rbit_not[of "k - 64 * i" t] f(1) by simp
    then have "rbit (a i) (k - 64 * i)" using m k(1,2) f(1) by (simp add: masked_def)
    then show ?thesis using rev_bit_long[of "k - 64 * i" a i] k f(1) by simp
  qed
  have "find_next_bit (\<lambda>k. \<not> rev_bit a k) n (64 * i + ofs) = 64 * i + ?r"
    using r f(1) s below by (intro find_next_bit_hit) (auto simp: rev_bit_long)
  then show ?thesis by (simp add: find_next_zero_bit_def)
qed

lemma no_zero_in_long:
  assumes m: "masked (a i) ofs t" and z: "NOT t = 0" and s: "64 * i + 64 \<le> n" "ofs \<le> 64"
  shows "find_next_zero_bit (rev_bit a) n (64 * i + ofs) = find_next_zero_bit (rev_bit a) n (64 * (i + 1))"
  unfolding find_next_zero_bit_def
proof (rule find_next_bit_skip)
  fix k assume k: "64 * i + ofs \<le> k" "k < 64 * (i + 1)"
  then have k': "k - 64 * i < 64" "ofs \<le> k - 64 * i" "64 * i + (k - 64 * i) = k" by simp_all
  have "rbit t (k - 64 * i)" using rbit_zero[of "NOT t"] z rbit_not[OF k'(1), of t] k'(1) by simp
  then have "rbit (a i) (k - 64 * i)" using m k' by (simp add: masked_def)
  then show "\<not> \<not> rev_bit a k" using rev_bit_long[OF k'(1), of a i] k'(3) by simp
qed (use s in auto)

lemma rpos_ge: "8 dvd n \<Longrightarrow> n \<le> 8 * (r div 8) + (7 - r mod 8) \<longleftrightarrow> n \<le> (r :: nat)"
proof -
  assume "8 dvd n"
  then obtain m where m: "n = 8 * m" by blast
  show ?thesis
  proof (cases "r < 8 * m")
    case True
    then show ?thesis using rpos_less[OF True] m by linarith
  next
    case False
    then have "m \<le> r div 8" by (simp add: less_eq_div_iff_mult_less_eq mult.commute)
    then show ?thesis using False m by linarith
  qed
qed

lemma rbit_fill:
  assumes "8 dvd siz" "r < 64"
  shows "rbit (t OR push_bit siz (- 1)) r \<longleftrightarrow> rbit t r \<or> siz \<le> r"
proof -
  have "8 * (r div 8) + (7 - r mod 8) < 64" using rpos_less[of r 8] assms(2) by simp
  then show ?thesis using rpos_ge[OF assms(1), of r] by (auto simp: rbit_def bit_or_iff bit_push_bit_iff bit_minus_1_iff bit_not_iff bit_mask_iff)
qed

lemma found_first_zero_ok:
  assumes m: "masked (a i) ofs t" and s: "ofs < siz" "siz < 64" "8 dvd siz"
  shows "found_first_zero t (64 * i) siz = find_next_zero_bit (rev_bit a) (64 * i + siz) (64 * i + ofs)"
proof -
  let ?t = "t OR push_bit siz (- 1)"
  note fill = rbit_fill[OF s(3), of _ t]
  have inside: "rbit (a i) k \<longleftrightarrow> rbit ?t k" if "ofs \<le> k" "k < siz" for k
    using m fill[of k] that s(2) by (auto simp: masked_def)
  have bits: "rev_bit a k \<longleftrightarrow> rbit ?t (k - 64 * i)" if "64 * i + ofs \<le> k" "k < 64 * i + siz" for k
  proof -
    have "64 * i + (k - 64 * i) = k" "k - 64 * i < 64" "ofs \<le> k - 64 * i" "k - 64 * i < siz" using that s by simp_all
    then show ?thesis using rev_bit_long[of "k - 64 * i" a i] inside[of "k - 64 * i"] by simp
  qed
  show ?thesis
  proof (cases "?t = - 1")
    case True
    then have "NOT ?t = 0" by simp
    then have "rbit ?t k" if "k < 64" for k using rbit_zero[of "NOT ?t"] rbit_not[OF that, of ?t] that by simp
    then have "rev_bit a k" if "64 * i + ofs \<le> k" "k < 64 * i + siz" for k using bits[OF that] that s(2) by simp
    then have "find_next_bit (\<lambda>k. \<not> rev_bit a k) (64 * i + siz) (64 * i + ofs) = 64 * i + siz"
      by (intro find_next_bit_none) simp
    then show ?thesis using True by (simp add: found_first_zero_def Let_def find_next_zero_bit_def)
  next
    case False
    then have nz: "NOT ?t \<noteq> 0" by (metis bit.double_compl bit.compl_zero)
    let ?r = "reverse_ffz ?t"
    note f = reverse_ffs_ok[OF nz, folded reverse_ffz_def]
    have z: "\<not> rbit ?t ?r" using rbit_not[OF f(1), of ?t] f(2) by simp
    then have r: "ofs \<le> ?r" "?r < siz" using fill[OF f(1)] m f(1) by (auto simp: masked_def not_le)
    have "find_next_bit (\<lambda>k. \<not> rev_bit a k) (64 * i + siz) (64 * i + ofs) = 64 * i + ?r"
    proof (rule find_next_bit_hit)
      fix k assume k: "64 * i + ofs \<le> k" "k < 64 * i + ?r"
      then have "k - 64 * i < ?r" by simp
      then have "rbit ?t (k - 64 * i)" using f(3) rbit_not[of "k - 64 * i" ?t] f(1) by simp
      then show "\<not> \<not> rev_bit a k" using bits[of k] k r(2) by simp
    qed (use r z bits[of "64 * i + ?r"] in auto)
    then show ?thesis using False by (simp add: found_first_zero_def Let_def find_next_zero_bit_def)
  qed
qed

lemma aligned_zero_ok:
  "8 dvd siz \<Longrightarrow> aligned_zero a i (64 * i) siz = find_next_zero_bit (rev_bit a) (64 * i + siz) (64 * i)"
proof (induction siz arbitrary: i rule: less_induct)
  case (less siz)
  show ?case
  proof (cases "64 \<le> siz")
    case big: True
    show ?thesis
    proof (cases "NOT (a i) = 0")
      case True
      have "8 dvd siz - 64" using less.prems by (simp add: dvd_diff_nat)
      then have "aligned_zero a (i + 1) (64 * (i + 1)) (siz - 64) = find_next_zero_bit (rev_bit a) (64 * (i + 1) + (siz - 64)) (64 * (i + 1))"
        using less.IH[of "siz - 64" "i + 1"] big by simp
      then show ?thesis using no_zero_in_long[where a = a and i = i and ofs = 0 and t = "a i" and n = "64 * i + siz", OF masked_0 True] big True
        by (subst aligned_zero.simps) (simp add: BITS_PER_LONG_def add.commute)
    next
      case False
      then show ?thesis using zero_in_long[where a = a and i = i and ofs = 0 and t = "a i" and n = "64 * i + siz", OF masked_0 False] big
        by (subst aligned_zero.simps) (simp add: BITS_PER_LONG_def)
    qed
  next
    case False
    show ?thesis
    proof (cases "siz = 0")
      case True
      have "find_next_zero_bit (rev_bit a) (64 * i) (64 * i) = 64 * i"
        unfolding find_next_zero_bit_def by (rule find_next_bit_none) simp
      then show ?thesis using True by (subst aligned_zero.simps) (simp add: BITS_PER_LONG_def)
    next
      case s: False
      then show ?thesis using found_first_zero_ok[where a = a and i = i and ofs = 0 and t = "a i" and siz = siz, OF masked_0] False less.prems
        by (subst aligned_zero.simps) (simp add: BITS_PER_LONG_def)
    qed
  qed
qed

text \<open>The mask that is added in the first long sets the bits before the offset.\<close>

lemma byte_mask:
  assumes "rm < 8" "e < (8 :: nat)"
  shows "8 * rd + (7 - rm) < 8 * od \<or> 8 * od + (8 - e) \<le> 8 * rd + (7 - rm) \<and> 8 * rd + (7 - rm) < 8 * od + 8
    \<longleftrightarrow> 8 * rd + rm < 8 * od + e"
proof -
  consider "rd + 1 \<le> od" | "rd = od" | "od + 1 \<le> rd" by linarith
  then show ?thesis
  proof cases
    case 1
    then have "8 * rd + 8 \<le> 8 * od" by linarith
    then show ?thesis using assms by linarith
  next
    case 2
    then show ?thesis using assms by auto
  next
    case 3
    then have "8 * od + 8 \<le> 8 * rd" by linarith
    then show ?thesis using assms by linarith
  qed
qed

lemma zero_mask_ok:
  fixes x :: u64
  assumes o: "0 < ofs" "ofs < 64"
  shows "masked x ofs (x OR (NOT (push_bit (ofs div 8 * 8) (- 1))
    + push_bit (ofs div 8 * 8) (ucast (NOT (drop_bit (ofs mod 8) (ucast (push_bit (ofs mod 8) (0xff :: 32 word)) :: u8))))))"
proof -
  define q where "q = ofs div 8 * 8"
  define e where "e = ofs mod 8"
  have oq: "ofs = q + e" "e < 8" by (simp_all add: q_def e_def)
  have ff: "(0xff :: 32 word) = mask 8" by (simp add: mask_eq_exp_minus_1)
  let ?sub = "push_bit q (ucast (NOT (drop_bit e (ucast (push_bit e (0xff :: 32 word)) :: u8))) :: u64)"
  have bs: "bit ?sub k \<longleftrightarrow> q + (8 - e) \<le> k \<and> k < q + 8 \<and> k < 64" for k
    using oq(2) by (auto simp: bit_simps ff)
  have bm: "bit (NOT (push_bit q (- 1)) :: u64) k \<longleftrightarrow> k < q \<and> k < 64" for k by (auto simp: bit_simps)
  have "NOT (push_bit q (- 1)) + ?sub = (NOT (push_bit q (- 1)) OR ?sub)"
    by (rule disjunctive_add) (use oq(2) in \<open>auto simp: bs bm bit_mask_iff\<close>)
  moreover have "rbit (x OR (NOT (push_bit q (- 1)) OR ?sub)) r \<longleftrightarrow> r < ofs \<or> rbit x r" if r: "r < 64" for r
  proof -
    have p: "8 * (r div 8) + (7 - r mod 8) < 64" using rpos_less[of r 8] r by simp
    have "8 * (r div 8) + (7 - r mod 8) < q \<or> q + (8 - e) \<le> 8 * (r div 8) + (7 - r mod 8) \<and> 8 * (r div 8) + (7 - r mod 8) < q + 8 \<longleftrightarrow> r < ofs"
      using byte_mask[of "r mod 8" e "r div 8" "ofs div 8"] oq(2)
      by (simp only: q_def e_def mult.commute[of _ 8] mult_div_mod_eq mod_less_divisor zero_less_numeral simp_thms)
    then show ?thesis using p by (auto simp: rbit_def bit_or_iff bs bm bit_mask_iff)
  qed
  ultimately show ?thesis unfolding masked_def q_def[symmetric] e_def[symmetric] by simp
qed

lemma find_rev_next_zero_bit_eq:
  assumes s: "8 dvd siz"
  shows "find_rev_next_zero_bit a siz off = find_next_zero_bit (rev_bit a) siz off"
proof (cases "siz \<le> off")
  case True
  have "find_next_zero_bit (rev_bit a) siz off = siz"
    unfolding find_next_zero_bit_def using True by (intro find_next_bit_none) simp
  then show ?thesis using True by (simp add: find_rev_next_zero_bit_def)
next
  case False
  define i where "i = off div 64"
  define ofs where "ofs = off mod 64"
  define len where "len = siz - 64 * i"
  have o1: "off = 64 * i + ofs" "ofs < 64" by (simp_all add: i_def ofs_def)
  then have o: "off = 64 * i + ofs" "ofs < 64" "siz = 64 * i + len" "ofs < len"
    using False by (auto simp: len_def)
  have d: "8 dvd len" using s by (simp add: len_def dvd_diff_nat)
  show ?thesis
  proof (cases "ofs = 0")
    case True
    then have "find_rev_next_zero_bit a siz off = aligned_zero a i (64 * i) len"
      unfolding find_rev_next_zero_bit_def Let_def BITS_PER_LONG_def i_def[symmetric] ofs_def[symmetric]
        mult.commute[of i 64] len_def[symmetric]
      using False by (simp only: if_False if_True refl)
    then show ?thesis using aligned_zero_ok[OF d, of a i] o(1,3) True by simp
  next
    case nz: False
    define t where "t = a i OR (NOT (push_bit (ofs div 8 * 8) (- 1))
      + push_bit (ofs div 8 * 8) (ucast (NOT (drop_bit (ofs mod 8) (ucast (push_bit (ofs mod 8) (0xff :: 32 word)) :: u8)))))"
    have m: "masked (a i) ofs t" unfolding t_def by (rule zero_mask_ok) (use nz o(2) in simp_all)
    have eq: "find_rev_next_zero_bit a siz off =
      (if len < 64 then found_first_zero t (64 * i) len
       else if NOT t \<noteq> 0 then 64 * i + reverse_ffz t
       else aligned_zero a (i + 1) (64 * i + 64) (len - 64))"
      unfolding find_rev_next_zero_bit_def Let_def BITS_PER_LONG_def i_def[symmetric] ofs_def[symmetric]
        mult.commute[of i 64] len_def[symmetric] t_def[symmetric]
      using False nz by (simp only: if_False)
    show ?thesis
    proof (cases "len < 64")
      case True
      then show ?thesis using eq found_first_zero_ok[where a = a and i = i, OF m o(4) True d] o(1,3) by simp
    next
      case big: False
      show ?thesis
      proof (cases "NOT t = 0")
        case True
        have "8 dvd len - 64" using d by (simp add: dvd_diff_nat)
        then have "aligned_zero a (i + 1) (64 * (i + 1)) (len - 64) = find_next_zero_bit (rev_bit a) siz (64 * (i + 1))"
          using aligned_zero_ok[of "len - 64" a "i + 1"] big o(3) by simp
        moreover have "find_next_zero_bit (rev_bit a) siz off = find_next_zero_bit (rev_bit a) siz (64 * (i + 1))"
          using no_zero_in_long[where a = a and i = i and n = siz, OF m True] o big by simp
        ultimately show ?thesis using eq big True by (simp add: add.commute)
      next
        case False
        then show ?thesis using eq big zero_in_long[where a = a and i = i and n = siz, OF m False] o by simp
      qed
    qed
  qed
qed

subsection \<open>The search for a one, from the start of a long\<close>

lemma found_first_bit_not: "siz \<le> 64 \<Longrightarrow> found_first_bit t res siz = found_first_zero (NOT t) res siz"
proof -
  assume s: "siz \<le> 64"
  have "drop_bit (64 - siz) (- 1) = (mask siz :: u64)"
  proof (rule bit_eqI)
    fix k assume "possible_bit TYPE(64 word) k"
    then have "k < 64" by simp
    then show "bit (drop_bit (64 - siz) (- 1) :: u64) k = bit (mask siz :: u64) k"
      using s by (simp add: bit_drop bit_mask_iff)
  qed
  then have n: "(NOT t OR push_bit siz (- 1)) = NOT (t AND drop_bit (64 - siz) (- 1))"
    by (simp add: push_bit_minus_one_eq_not_mask bit.de_Morgan_conj)
  have c: "NOT x = - 1 \<longleftrightarrow> x = 0" for x :: u64
    using bit.compl_eq_compl_iff[of x 0] by simp
  show ?thesis
    unfolding found_first_bit_def found_first_zero_def BITS_PER_LONG_def reverse_ffz_def Let_def n c bit.double_compl by (rule refl)
qed

lemma aligned_bit_not: "aligned_bit a i res siz = aligned_zero (\<lambda>i. NOT (a i)) i res siz"
proof (induction a i res siz rule: aligned_bit.induct)
  case (1 p i res siz)
  show ?case
    using 1 by (subst aligned_bit.simps, subst aligned_zero.simps)
      (simp add: reverse_ffz_def BITS_PER_LONG_def found_first_bit_not)
qed

lemma rev_bit_not: "rev_bit (\<lambda>i. NOT (a i)) n \<longleftrightarrow> \<not> rev_bit a n"
  by (simp add: rev_bit_def rbit_not)

lemma find_rev_next_bit_aligned:
  assumes "8 dvd siz" "64 dvd off"
  shows "find_rev_next_bit a siz off = find_next_bit (rev_bit a) siz off"
proof -
  have "find_rev_next_bit a siz off = find_rev_next_zero_bit (\<lambda>i. NOT (a i)) siz off"
    using assms(2) by (simp add: find_rev_next_bit_def find_rev_next_zero_bit_def BITS_PER_LONG_def Let_def aligned_bit_not
        dvd_eq_mod_eq_0)
  also have "\<dots> = find_next_zero_bit (rev_bit (\<lambda>i. NOT (a i))) siz off" by (rule find_rev_next_zero_bit_eq[OF assms(1)])
  also have "\<dots> = find_next_bit (rev_bit a) siz off" by (simp add: find_next_zero_bit_def rev_bit_not)
  finally show ?thesis .
qed

subsection \<open>The byte array as longs\<close>

lemma bit_bytes:
  "bit (foldr (\<lambda>j w. push_bit 8 w OR ucast (f j)) [m ..< m + n] (0 :: u64)) k
    \<longleftrightarrow> k < 64 \<and> k div 8 < n \<and> bit (f (m + k div 8) :: u8) (k mod 8)"
proof (induction n arbitrary: m k)
  case (Suc n)
  have l: "[m ..< m + Suc n] = m # [Suc m ..< Suc m + n]" by (subst upt_conv_Cons) simp_all
  let ?w = "foldr (\<lambda>j w. push_bit 8 w OR ucast (f j)) [Suc m ..< Suc m + n] (0 :: u64)"
  have e: "bit (foldr (\<lambda>j w. push_bit 8 w OR ucast (f j)) [m ..< m + Suc n] (0 :: u64)) k
      \<longleftrightarrow> k < 64 \<and> (8 \<le> k \<and> bit ?w (k - 8) \<or> bit (f m) k)"
    unfolding l by (auto simp: bit_or_iff bit_push_bit_iff bit_ucast_iff simp del: upt_Suc)
  show ?case
  proof (cases "k < 8")
    case True
    then show ?thesis unfolding e by auto
  next
    case False
    then have "(k - 8) div 8 = k div 8 - 1" "(k - 8) mod 8 = k mod 8" "0 < k div 8"
      by (simp_all add: le_div_geq le_mod_geq div_greater_zero_iff)
    moreover have "\<not> bit (f m) k" using False by (auto dest: bit_imp_le_length)
    moreover have "k div 8 - 1 < n \<longleftrightarrow> k div 8 < Suc n" "Suc m + (k div 8 - 1) = m + k div 8"
      using \<open>0 < k div 8\<close> by linarith+
    ultimately show ?thesis unfolding e using False Suc.IH[of "Suc m" "k - 8"]
      by (auto simp del: upt_Suc add_Suc)
  qed
qed simp

lemma byte_pos: "z < 8 \<Longrightarrow> (8 * x + z) div 8 = x" "z < 8 \<Longrightarrow> (8 * x + z) mod 8 = (z :: nat)"
  by simp_all

lemma rev_bit_load: "rev_bit (load_long a) n \<longleftrightarrow> f2fs_test_bit n a"
proof -
  let ?r = "n mod 64"
  let ?p = "8 * (?r div 8) + (7 - ?r mod 8)"
  have r: "?r div 8 < 8" by (simp add: less_mult_imp_div_less)
  have "7 - ?r mod 8 < 8" by simp
  note p2 = byte_pos[OF this, of "?r div 8"]
  have p: "?p < 64" using rpos_less[of ?r 8] by simp
  have n: "8 * (n div 64) + ?r div 8 = n div 8" "?r mod 8 = n mod 8"
  proof -
    have m: "?r = 8 * (n div 8 mod 8) + n mod 8" using mod_mult2_eq[of n 8 8] by simp
    have d: "n div 64 = n div 8 div 8" using div_mult2_eq[of n 8 8] by simp
    show "8 * (n div 64) + ?r div 8 = n div 8" unfolding m d by (simp add: mult_div_mod_eq)
    show "?r mod 8 = n mod 8" unfolding m by simp
  qed
  have s: "rev_bit (load_long a) n \<longleftrightarrow> ?p < 64 \<and> ?p div 8 < 8 \<and> bit (a (8 * (n div 64) + ?p div 8)) (?p mod 8)"
    using bit_bytes[of "\<lambda>j. a (8 * (n div 64) + j)" 0 8 ?p] by (simp add: rev_bit_def rbit_def load_long_def)
  show ?thesis using s[unfolded p2] p r unfolding n f2fs_test_bit_iff by blast
qed

lemma rev_bit_load_fun: "rev_bit (load_long a) = (\<lambda>n. f2fs_test_bit n a)"
  by (rule ext) (rule rev_bit_load)

subsection \<open>The search for a one, from the middle of a long\<close>

text \<open>The mask for the first long leaves only the byte of the offset.\<close>

lemma bit_mask_one_byte:
  fixes x :: u64
  assumes r: "r < 64" "8 * (ofs div 8) + 8 \<le> r"
  shows "\<not> rbit (x AND (push_bit (ofs div 8 * 8) (- 1) AND push_bit (ofs div 8 * 8)
    (ucast (drop_bit (ofs mod 8) (ucast (push_bit (ofs mod 8) (0xff :: 32 word)) :: u8))))) r"
proof -
  have "ofs div 8 + 1 \<le> r div 8" using div_le_mono[OF r(2), of 8] by simp
  then have "ofs div 8 * 8 + 8 \<le> 8 * (r div 8) + (7 - r mod 8)" by linarith
  moreover have "\<not> bit (drop_bit e (ucast (push_bit e (0xff :: 32 word)) :: u8)) k" if "8 \<le> k" for e k
    using that by (auto dest: bit_imp_le_length)
  ultimately show ?thesis by (simp add: rbit_def bit_and_iff bit_push_bit_iff bit_ucast_iff)
qed

lemma reverse_ffs_avoid: "t \<noteq> 0 \<Longrightarrow> \<not> rbit t r \<Longrightarrow> reverse_ffs t \<noteq> r"
  using reverse_ffs_ok(2) by blast

lemma found_first_bit_avoid:
  assumes "\<not> rbit t r" "r < siz"
  shows "found_first_bit t res siz \<noteq> res + r"
proof -
  have "\<not> rbit (t AND m) r" for m using assms(1) by (simp add: rbit_def bit_and_iff)
  then show ?thesis using reverse_ffs_avoid[of "t AND m" r for m] assms(2)
    by (auto simp: found_first_bit_def Let_def)
qed

lemma aligned_bit_ge: "res \<le> aligned_bit a i res siz"
proof (induction a i res siz rule: aligned_bit.induct)
  case (1 p i res siz)
  then show ?case by (subst aligned_bit.simps) (auto simp: found_first_bit_def Let_def BITS_PER_LONG_def)
qed

lemma find_rev_next_bit_avoid:
  assumes o: "off mod 64 \<noteq> 0" and r: "8 * (off div 8) + 8 \<le> r" "r < 64 * (off div 64) + 64" "r < siz"
  shows "find_rev_next_bit a siz off \<noteq> r"
proof -
  define i where "i = off div 64"
  define ofs where "ofs = off mod 64"
  define len where "len = siz - 64 * i"
  define q where "q = r - 64 * i"
  define t where "t = a i AND (push_bit (ofs div 8 * 8) (- 1) AND push_bit (ofs div 8 * 8)
    (ucast (drop_bit (ofs mod 8) (ucast (push_bit (ofs mod 8) (0xff :: 32 word)) :: u8))))"
  have off: "off = 64 * i + ofs" by (simp add: i_def ofs_def)
  then have "off div 8 = 8 * i + ofs div 8" by simp
  then have q: "r = 64 * i + q" "8 * (ofs div 8) + 8 \<le> q" "q < 64" "q < len"
    using r by (auto simp: q_def len_def i_def[symmetric])
  have nt: "\<not> rbit t q" unfolding t_def by (rule bit_mask_one_byte[OF q(3,2)])
  have lt: "\<not> siz \<le> off" using r o by linarith
  have eq: "find_rev_next_bit a siz off =
      (if len < 64 then found_first_bit t (64 * i) len
       else if t \<noteq> 0 then 64 * i + reverse_ffs t
       else aligned_bit a (i + 1) (64 * i + 64) (len - 64))"
    unfolding find_rev_next_bit_def Let_def BITS_PER_LONG_def i_def[symmetric] ofs_def[symmetric]
      mult.commute[of i 64] len_def[symmetric] t_def[symmetric]
    using lt o[folded ofs_def] by (simp only: if_False)
  show ?thesis
  proof (cases "len < 64")
    case True
    then show ?thesis using eq found_first_bit_avoid[OF nt q(4)] q(1) by simp
  next
    case False
    then show ?thesis using eq reverse_ffs_avoid[OF _ nt] q(1,3) aligned_bit_ge[of "64 * i + 64" a "i + 1" "len - 64"] by auto
  qed
qed

subsection \<open>The properties\<close>

text \<open>C34: \<open>__find_rev_next_zero_bit\<close>, which works on longs with masks, is the search by single bits in the order of
  \<open>f2fs_set_bit\<close>: over a byte array and from any offset it gives the first position that \<open>f2fs_test_bit\<close> finds
  clear, or the size. \<open>__find_rev_next_bit\<close> is the search for a set bit when it starts at a multiple of 64.\<close>

theorem find_rev_next_zero_bit_search:
  assumes "8 dvd siz"
  shows "find_rev_next_zero_bit (load_long a) siz off = find_next_zero_bit (\<lambda>n. f2fs_test_bit n a) siz off
    \<and> find_rev_next_bit (load_long a) siz (64 * i) = find_next_bit (\<lambda>n. f2fs_test_bit n a) siz (64 * i)"
  using find_rev_next_zero_bit_eq[OF assms, of "load_long a" off] find_rev_next_bit_aligned[OF assms, of "64 * i" "load_long a"]
  by (simp add: rev_bit_load_fun)

definition bit_example :: "nat \<Rightarrow> u8" where
  "bit_example = (\<lambda>_. 0)(0 := 0xf0, 1 := 0xc0)"

theorem find_rev_next_zero_bit_search_witness:
  "find_rev_next_zero_bit (load_long bit_example) 512 8 = 10"
proof -
  have "find_next_zero_bit (\<lambda>n. f2fs_test_bit n bit_example) 512 8 = 10"
    unfolding find_next_zero_bit_def
  proof (rule find_next_bit_hit)
    fix k :: nat assume "8 \<le> k" "k < 10"
    then have "k = 8 \<or> k = 9" by auto
    then show "\<not> \<not> f2fs_test_bit k bit_example" by (auto simp: f2fs_test_bit_def f2fs_mask_def bit_example_def)
  qed (simp_all add: f2fs_test_bit_def f2fs_mask_def bit_example_def)
  moreover have "8 dvd (512 :: nat)" by simp
  ultimately show ?thesis using find_rev_next_zero_bit_search[of 512 bit_example 8 0] by simp
qed

text \<open>C35: \<open>__find_rev_next_bit\<close> misses set bits. From an offset inside a long it keeps by its mask only the byte of the
  offset, so it never gives a position in the other bytes of this long, whatever the map holds there. In
  \<open>add_discard_addrs\<close> blocks that could be discarded are passed over.\<close>

theorem find_rev_next_bit_misses:
  assumes "off mod 64 \<noteq> 0" "8 * (off div 8) + 8 \<le> r" "r < 64 * (off div 64) + 64" "r < siz"
  shows "find_rev_next_bit (load_long a) siz off \<noteq> r"
  using assms by (rule find_rev_next_bit_avoid)

theorem find_rev_next_bit_misses_witness:
  "f2fs_test_bit 8 bit_example \<and> \<not> (\<exists>k. 5 \<le> k \<and> k < 8 \<and> f2fs_test_bit k bit_example)
    \<and> find_rev_next_bit (load_long bit_example) 512 5 \<noteq> 8"
proof -
  have "\<not> f2fs_test_bit k bit_example" if "5 \<le> k" "k < 8" for k
  proof -
    have "k = 5 \<or> k = 6 \<or> k = 7" using that by auto
    then show ?thesis by (auto simp: f2fs_test_bit_def f2fs_mask_def bit_example_def)
  qed
  moreover have "f2fs_test_bit 8 bit_example" by (simp add: f2fs_test_bit_def f2fs_mask_def bit_example_def)
  moreover have "find_rev_next_bit (load_long bit_example) 512 5 \<noteq> 8"
    by (rule find_rev_next_bit_misses) simp_all
  ultimately show ?thesis by blast
qed

end
