(* ===== verification/F2fsSegInv.thy ===== *)
theory F2fsSegInv
  imports F2fsCurseg F2fsBitsSpec
begin

unbundle bit_operations_syntax

text \<open>
  The invariant of the segment manager: the counters agree with the bit maps, free segments are
  empty now and in the last checkpoint, the sections follow the segments, the logs have segments of
  their own with a free block where the next one goes, and every used segment is in the lists of
  dirty and obsolete segments it belongs to. The lemmas say how the operations of \<open>F2fsSegment\<close>
  keep its parts.
\<close>

definition vbit :: "f2fs_sm_info \<Rightarrow> nat \<Rightarrow> nat \<Rightarrow> bool" where
  "vbit s g i \<longleftrightarrow> f2fs_test_bit i (se_cur_map (sm_sentries s g))"

definition cbit :: "f2fs_sm_info \<Rightarrow> nat \<Rightarrow> nat \<Rightarrow> bool" where
  "cbit s g i \<longleftrightarrow> f2fs_test_bit i (se_ckpt_map (sm_sentries s g))"

abbreviation nvalid :: "f2fs_sm_info \<Rightarrow> nat \<Rightarrow> nat" where
  "nvalid s g \<equiv> se_valid_blocks (sm_sentries s g)"

abbreviation blocks :: "f2fs_sm_info \<Rightarrow> nat set" where
  "blocks s \<equiv> {..< blocks_per_seg s}"

abbreviation segs :: "f2fs_sm_info \<Rightarrow> nat set" where
  "segs s \<equiv> {..< sm_main_segments s}"

definition section_of :: "f2fs_sm_info \<Rightarrow> nat \<Rightarrow> nat set" where
  "section_of s sec = {sec * sm_segs_per_sec s ..< sec * sm_segs_per_sec s + sm_segs_per_sec s}"

definition seg_geo :: "f2fs_sm_info \<Rightarrow> bool" where
  "seg_geo s \<longleftrightarrow> 3 \<le> sm_log_blocks_per_seg s \<and> sm_log_blocks_per_seg s \<le> 9
     \<and> 0 < sm_segs_per_sec s \<and> 0 < sm_secs_per_zone s
     \<and> sm_main_segments s = sm_total_sections s * sm_segs_per_sec s
     \<and> 0 < unat (sm_seg0_blkaddr s)
     \<and> unat (sm_seg0_blkaddr s) + (unat (sm_start_segno s) + sm_main_segments s) * blocks_per_seg s < 2 ^ 32"

definition entry_ok :: "f2fs_sm_info \<Rightarrow> nat \<Rightarrow> bool" where
  "entry_ok s g \<longleftrightarrow> nvalid s g = card {i \<in> blocks s. vbit s g i}
     \<and> se_ckpt_valid_blocks (sm_sentries s g) = of_nat (card {i \<in> blocks s. vbit s g i \<or> cbit s g i})
     \<and> se_type (sm_sentries s g) < NR_CURSEG_TYPE
     \<and> (\<not> sm_free_segmap s g \<longrightarrow> (\<forall>i \<in> blocks s. \<not> vbit s g i \<and> \<not> cbit s g i))
     \<and> (\<not> sm_dirty_sentries_bitmap s g \<longrightarrow> (\<forall>i \<in> blocks s. vbit s g i \<longleftrightarrow> cbit s g i))"

definition seg_sit :: "f2fs_sm_info \<Rightarrow> bool" where
  "seg_sit s \<longleftrightarrow> (\<forall>g \<in> segs s. entry_ok s g)
     \<and> sm_written_valid_blocks s = of_nat (\<Sum>g \<in> segs s. nvalid s g)
     \<and> (1 < sm_segs_per_sec s \<longrightarrow> (\<forall>sec < sm_total_sections s.
          sm_sec_valid s sec = of_nat (\<Sum>g \<in> section_of s sec. nvalid s g)))
     \<and> sm_dirty_sentries s = of_nat (card {g \<in> segs s. sm_dirty_sentries_bitmap s g})"

definition seg_free :: "f2fs_sm_info \<Rightarrow> bool" where
  "seg_free s \<longleftrightarrow>
     (\<forall>sec < sm_total_sections s. sm_free_secmap s sec \<longleftrightarrow> (\<exists>g \<in> section_of s sec. sm_free_segmap s g))
     \<and> sm_free_segments s = of_nat (card {g \<in> segs s. \<not> sm_free_segmap s g})
     \<and> sm_free_sections s = of_nat (card {sec. sec < sm_total_sections s \<and> \<not> sm_free_secmap s sec})"

definition seg_logs :: "f2fs_sm_info \<Rightarrow> bool" where
  "seg_logs s \<longleftrightarrow> (\<forall>t < NR_CURSEG_TYPE. cs_segno (curseg t s) < sm_main_segments s \<and> sm_free_segmap s (cs_segno (curseg t s))
       \<and> cs_zone (curseg t s) = GET_ZONENO_FROM_SEGNO s (cs_segno (curseg t s))
       \<and> se_type (sm_sentries s (cs_segno (curseg t s))) = t)"

text \<open>The lists a segment may be in, and those it must be in.\<close>

definition may_listed :: "f2fs_sm_info \<Rightarrow> nat \<Rightarrow> bool" where
  "may_listed s g \<longleftrightarrow> (sm_dirty_segmap s PRE g \<longrightarrow> nvalid s g = 0)
     \<and> (\<forall>t < DIRTY. sm_dirty_segmap s t g \<longleftrightarrow> t = se_type (sm_sentries s g) \<and> sm_dirty_segmap s DIRTY g)
     \<and> ((IS_CURSEG s g \<or> \<not> sm_free_segmap s g) \<longrightarrow> \<not> sm_dirty_segmap s PRE g \<and> \<not> sm_dirty_segmap s DIRTY g)"

definition must_listed :: "f2fs_sm_info \<Rightarrow> nat \<Rightarrow> bool" where
  "must_listed s g \<longleftrightarrow> (\<not> IS_CURSEG s g \<and> sm_free_segmap s g \<longrightarrow>
     (sm_dirty_segmap s PRE g \<longleftrightarrow> nvalid s g = 0)
     \<and> (sm_dirty_segmap s DIRTY g \<longleftrightarrow> 0 < nvalid s g \<and> nvalid s g < blocks_per_seg s))"

definition seg_dirty :: "f2fs_sm_info \<Rightarrow> nat set \<Rightarrow> bool" where
  "seg_dirty s X \<longleftrightarrow> (\<forall>t \<le> PRE. sm_nr_dirty s t = int (card {g \<in> segs s. sm_dirty_segmap s t g}))
     \<and> (\<forall>g \<in> segs s. may_listed s g \<and> (g \<notin> X \<longrightarrow> must_listed s g))"

text \<open>The segments \<open>X\<close> are still to be entered in the lists.\<close>

definition seg_base :: "f2fs_sm_info \<Rightarrow> nat set \<Rightarrow> bool" where
  "seg_base s X \<longleftrightarrow> seg_geo s \<and> seg_sit s \<and> seg_free s \<and> seg_logs s \<and> seg_dirty s X"

definition next_ok :: "f2fs_sm_info \<Rightarrow> nat \<Rightarrow> bool" where
  "next_ok s t \<longleftrightarrow> (let c = curseg t s; g = cs_segno c; n = cs_next_blkoff c in
     n < blocks_per_seg s \<and> \<not> vbit s g n \<and> \<not> cbit s g n
     \<and> (cs_alloc_type c = LFS \<longrightarrow> (\<forall>i. n \<le> i \<and> i < blocks_per_seg s \<longrightarrow> \<not> vbit s g i \<and> \<not> cbit s g i)))"

definition seg_inv :: "f2fs_sm_info \<Rightarrow> bool" where
  "seg_inv s \<longleftrightarrow> seg_base s {} \<and> (\<forall>t < NR_CURSEG_TYPE. next_ok s t)"

subsection \<open>Addresses\<close>

definition blk_at :: "f2fs_sm_info \<Rightarrow> nat \<Rightarrow> nat \<Rightarrow> u32" where
  "blk_at s g i = START_BLOCK s g + of_nat i"

lemma ex_type: "(\<exists>t < NR_CURSEG_TYPE. P t) \<longleftrightarrow> P 0 \<or> P 1 \<or> P 2 \<or> P 3 \<or> P 4 \<or> P 5"
  by (auto simp: NR_CURSEG_TYPE_def less_Suc_eq eval_nat_numeral)

lemma IS_CURSEG_iff: "IS_CURSEG s g \<longleftrightarrow> (\<exists>t < NR_CURSEG_TYPE. g = cs_segno (curseg t s))"
  by (simp only: ex_type) (simp add: IS_CURSEG_def seg_types)

lemma bps_dvd: "seg_geo s \<Longrightarrow> 8 dvd blocks_per_seg s"
  unfolding seg_geo_def blocks_per_seg_def using le_imp_power_dvd[of 3 "sm_log_blocks_per_seg s" "2 :: nat"] by simp

lemma bps_bound: "seg_geo s \<Longrightarrow> 8 \<le> blocks_per_seg s \<and> blocks_per_seg s \<le> 512"
  unfolding seg_geo_def blocks_per_seg_def
  using power_increasing[of 3 "sm_log_blocks_per_seg s" "2 :: nat"] power_increasing[of "sm_log_blocks_per_seg s" 9 "2 :: nat"] by simp

lemma main_bound: "seg_geo s \<Longrightarrow> sm_main_segments s < NULL_SEGNO"
proof -
  assume geo: "seg_geo s"
  have "1 * sm_main_segments s \<le> blocks_per_seg s * sm_main_segments s"
    by (rule mult_le_mono1) (use bps_bound[OF geo] in simp)
  then have "sm_main_segments s \<le> (unat (sm_start_segno s) + sm_main_segments s) * blocks_per_seg s"
    unfolding add_mult_distrib mult_1 by (metis mult.commute trans_le_add2)
  then show ?thesis using geo unfolding seg_geo_def NULL_SEGNO_def by linarith
qed

lemma unat_blk_at:
  assumes geo: "seg_geo s" and g: "g < sm_main_segments s" and i: "i < blocks_per_seg s"
  shows "unat (blk_at s g i - sm_seg0_blkaddr s) = (unat (sm_start_segno s) + g) * blocks_per_seg s + i"
    and "unat (blk_at s g i) = unat (sm_seg0_blkaddr s) + ((unat (sm_start_segno s) + g) * blocks_per_seg s + i)"
proof -
  let ?n = "(unat (sm_start_segno s) + g) * blocks_per_seg s + i"
  have "?n < (unat (sm_start_segno s) + sm_main_segments s) * blocks_per_seg s"
    using mult_le_mono1[of "unat (sm_start_segno s) + g + 1" "unat (sm_start_segno s) + sm_main_segments s" "blocks_per_seg s"] g i
    by (simp add: algebra_simps)
  then have n: "unat (sm_seg0_blkaddr s) + ?n < 2 ^ 32" using geo unfolding seg_geo_def by linarith
  have eq: "blk_at s g i = sm_seg0_blkaddr s + of_nat ?n"
    by (simp add: blk_at_def START_BLOCK_def push_bit_eq_mult blocks_per_seg_def algebra_simps)
  have u: "unat (of_nat ?n :: u32) = ?n" using n by (simp add: unat_of_nat del: of_nat_add of_nat_mult)
  show "unat (blk_at s g i - sm_seg0_blkaddr s) = ?n" unfolding eq using u by (simp del: of_nat_add of_nat_mult)
  show "unat (blk_at s g i) = unat (sm_seg0_blkaddr s) + ?n"
    unfolding eq by (subst unat_add_lem[THEN iffD1]) (use u n in \<open>simp_all del: of_nat_add of_nat_mult\<close>)
qed

lemma blk_at_not_special:
  assumes "seg_geo s" "g < sm_main_segments s" "i < blocks_per_seg s"
  shows "blk_at s g i \<noteq> NULL_ADDR \<and> blk_at s g i \<noteq> NEW_ADDR"
proof -
  let ?n = "(unat (sm_start_segno s) + g) * blocks_per_seg s + i"
  have "?n + 1 \<le> (unat (sm_start_segno s) + sm_main_segments s) * blocks_per_seg s"
    using mult_le_mono1[of "unat (sm_start_segno s) + g + 1" "unat (sm_start_segno s) + sm_main_segments s" "blocks_per_seg s"] assms
    by (simp add: algebra_simps)
  then have u: "0 < unat (blk_at s g i)" "unat (blk_at s g i) < 2 ^ 32 - 1"
    using assms(1) unfolding unat_blk_at(2)[OF assms] seg_geo_def by linarith+
  have "unat NEW_ADDR = 2 ^ 32 - 1" by (simp add: NEW_ADDR_def unsigned_minus_1_eq_mask mask_eq_exp_minus_1)
  then show ?thesis using u by (auto simp: NULL_ADDR_def)
qed

lemma GET_SEGNO_blk_at [simp]:
  assumes "seg_geo s" "g < sm_main_segments s" "i < blocks_per_seg s"
  shows "GET_SEGNO s (blk_at s g i) = g"
proof -
  let ?w = "drop_bit (sm_log_blocks_per_seg s) (blk_at s g i - sm_seg0_blkaddr s)"
  have "unat ?w = unat (sm_start_segno s) + g"
  proof -
    have "unat ?w = unat (blk_at s g i - sm_seg0_blkaddr s) div blocks_per_seg s"
      by (simp only: unat_drop_bit_eq) (simp add: drop_bit_eq_div blocks_per_seg_def)
    then show ?thesis using assms(3) by (simp add: unat_blk_at(1)[OF assms])
  qed
  moreover from this have "sm_start_segno s \<le> ?w" by (simp add: word_le_nat_alt)
  ultimately show ?thesis using blk_at_not_special[OF assms] by (simp add: GET_SEGNO_def unat_sub)
qed

lemma GET_BLKOFF_eq:
  "sm_log_blocks_per_seg s < 32 \<Longrightarrow> GET_BLKOFF_FROM_SEG0 s b = unat (b - sm_seg0_blkaddr s) mod blocks_per_seg s"
proof -
  have "GET_BLKOFF_FROM_SEG0 s b = unat (take_bit (sm_log_blocks_per_seg s) (b - sm_seg0_blkaddr s))"
    by (simp add: GET_BLKOFF_FROM_SEG0_def blocks_per_seg_def flip: mask_eq_exp_minus_1 take_bit_eq_mask)
  then show ?thesis by (simp only: unsigned_take_bit_eq) (simp add: take_bit_eq_mod blocks_per_seg_def)
qed

lemma GET_BLKOFF_blk_at [simp]:
  assumes "seg_geo s" "g < sm_main_segments s" "i < blocks_per_seg s"
  shows "GET_BLKOFF_FROM_SEG0 s (blk_at s g i) = i"
proof -
  have "sm_log_blocks_per_seg s < 32" using assms(1) by (simp add: seg_geo_def)
  then show ?thesis using assms(3) by (simp only: GET_BLKOFF_eq unat_blk_at(1)[OF assms]) simp
qed

lemma GET_BLKOFF_less: "seg_geo s \<Longrightarrow> GET_BLKOFF_FROM_SEG0 s b < blocks_per_seg s"
  by (simp add: GET_BLKOFF_eq seg_geo_def blocks_per_seg_def)

lemma blk_at_GET:
  assumes geo: "seg_geo s" and g: "GET_SEGNO s b < sm_main_segments s"
  shows "b = blk_at s (GET_SEGNO s b) (GET_BLKOFF_FROM_SEG0 s b)"
proof -
  let ?d = "b - sm_seg0_blkaddr s" and ?l = "sm_log_blocks_per_seg s"
  have m: "sm_main_segments s < NULL_SEGNO" by (rule main_bound[OF geo])
  have n: "b \<noteq> NULL_ADDR" "b \<noteq> NEW_ADDR" using g m by (auto simp: GET_SEGNO_def NULL_SEGNO_def split: if_splits)
  let ?q = "drop_bit ?l ?d"
  have "of_nat (GET_SEGNO s b) = ?q - sm_start_segno s" using n by (simp add: GET_SEGNO_def)
  then have "START_BLOCK s (GET_SEGNO s b) = sm_seg0_blkaddr s + push_bit ?l ?q" by (simp add: START_BLOCK_def)
  moreover have "of_nat (GET_BLKOFF_FROM_SEG0 s b) = take_bit ?l ?d"
    by (simp add: GET_BLKOFF_FROM_SEG0_def blocks_per_seg_def flip: mask_eq_exp_minus_1 take_bit_eq_mask)
  moreover have "push_bit ?l ?q + take_bit ?l ?d = ?d"
    by (metis bits_ident)
  ultimately show ?thesis by (simp add: blk_at_def add.assoc)
qed

subsection \<open>Counting\<close>

lemma card_more: "finite A \<Longrightarrow> g \<in> A \<Longrightarrow> \<not> P g \<Longrightarrow> card {h \<in> A. h = g \<or> P h} = Suc (card {h \<in> A. P h})"
proof -
  assume a: "finite A" "g \<in> A" "\<not> P g"
  then have "{h \<in> A. h = g \<or> P h} = insert g {h \<in> A. P h}" by auto
  then show ?thesis using a by simp
qed

lemma card_less: "finite A \<Longrightarrow> g \<in> A \<Longrightarrow> P g \<Longrightarrow> Suc (card {h \<in> A. h \<noteq> g \<and> P h}) = card {h \<in> A. P h}"
proof -
  assume a: "finite A" "g \<in> A" "P g"
  then have "card {h \<in> A. h = g \<or> (h \<noteq> g \<and> P h)} = Suc (card {h \<in> A. h \<noteq> g \<and> P h})" by (intro card_more) auto
  moreover have "{h \<in> A. h = g \<or> (h \<noteq> g \<and> P h)} = {h \<in> A. P h}" using a by auto
  ultimately show ?thesis by simp
qed

lemma word_sum_change:
  assumes "finite A" "g \<in> A" "int (f' g) = int (f g) + d" "\<And>h. h \<noteq> g \<Longrightarrow> f' h = f h"
  shows "(of_nat (\<Sum>h \<in> A. f' h) :: 'a :: len word) = of_nat (\<Sum>h \<in> A. f h) + word_of_int d"
proof -
  have "(\<Sum>h \<in> A - {g}. f' h) = (\<Sum>h \<in> A - {g}. f h)" using assms(4) by (intro sum.cong) auto
  then have "int (\<Sum>h \<in> A. f' h) = int (\<Sum>h \<in> A. f h) + d"
    using assms(1-3) by (simp add: sum.remove[of A g f'] sum.remove[of A g f])
  then have "word_of_int (int (\<Sum>h \<in> A. f' h)) = (word_of_int (int (\<Sum>h \<in> A. f h)) + word_of_int d :: 'a word)"
    by (metis of_int_add)
  then show ?thesis by (simp only: of_int_of_nat_eq)
qed

lemma section_of_iff: "0 < sm_segs_per_sec s \<Longrightarrow> g \<in> section_of s sec \<longleftrightarrow> GET_SECNO s g = sec"
  unfolding section_of_def GET_SECNO_def by (auto simp: div_nat_eqI mult.commute dest: div_nat_eqI)
    (use mult_div_mod_eq[of "sm_segs_per_sec s" g] mod_less_divisor[of "sm_segs_per_sec s" g] in linarith)+

lemma finite_section [simp]: "finite (section_of s sec)"
  by (simp add: section_of_def)

lemma GET_SECNO_less: "seg_geo s \<Longrightarrow> g < sm_main_segments s \<Longrightarrow> GET_SECNO s g < sm_total_sections s"
  by (simp add: seg_geo_def GET_SECNO_def div_less_iff_less_mult)

subsection \<open>Changing the validity of a block\<close>

text \<open>The fields that an update of the segment information changes.\<close>

definition sit_frame :: "f2fs_sm_info \<Rightarrow> f2fs_sm_info \<Rightarrow> bool" where
  "sit_frame s s' \<longleftrightarrow> s' = s\<lparr>sm_sentries := sm_sentries s', sm_sec_valid := sm_sec_valid s',
     sm_dirty_sentries_bitmap := sm_dirty_sentries_bitmap s', sm_dirty_sentries := sm_dirty_sentries s',
     sm_written_valid_blocks := sm_written_valid_blocks s', sm_max_mtime := sm_max_mtime s'\<rparr>"

lemma sit_frameI:
  "sit_frame s (s\<lparr>sm_sentries := a, sm_sec_valid := b, sm_dirty_sentries_bitmap := c, sm_dirty_sentries := d,
     sm_written_valid_blocks := e, sm_max_mtime := f\<rparr>)"
  by (simp add: sit_frame_def)

lemma sit_frameD:
  assumes "sit_frame s s'"
  shows "sm_log_blocks_per_seg s' = sm_log_blocks_per_seg s" "sm_segs_per_sec s' = sm_segs_per_sec s"
    "sm_secs_per_zone s' = sm_secs_per_zone s" "sm_main_segments s' = sm_main_segments s"
    "sm_total_sections s' = sm_total_sections s" "sm_seg0_blkaddr s' = sm_seg0_blkaddr s"
    "sm_start_segno s' = sm_start_segno s" "sm_ssa_blkaddr s' = sm_ssa_blkaddr s" "sm_noheap s' = sm_noheap s"
    "sm_free_segmap s' = sm_free_segmap s" "sm_free_secmap s' = sm_free_secmap s"
    "sm_free_segments s' = sm_free_segments s" "sm_free_sections s' = sm_free_sections s"
    "sm_dirty_segmap s' = sm_dirty_segmap s" "sm_nr_dirty s' = sm_nr_dirty s"
    "sm_curseg s' = sm_curseg s" "sm_sum_pages s' = sm_sum_pages s"
  by (subst assms[unfolded sit_frame_def], simp)+

definition sit_upd :: "nat \<Rightarrow> nat \<Rightarrow> int \<Rightarrow> f2fs_sm_info \<Rightarrow> f2fs_sm_info" where
  "sit_upd g i del s =
     (let se = sm_sentries s g in
      s\<lparr>sm_sentries := (sm_sentries s)(g := se
          \<lparr>se_valid_blocks := nat (int (se_valid_blocks se) + del), se_mtime := get_mtime s,
           se_cur_map := snd (if 0 < del then f2fs_set_bit i (se_cur_map se) else f2fs_clear_bit i (se_cur_map se)),
           se_ckpt_valid_blocks := (if cbit s g i then se_ckpt_valid_blocks se
                                    else se_ckpt_valid_blocks se + word_of_int del)\<rparr>),
        sm_sec_valid := (if 1 < sm_segs_per_sec s then
          (sm_sec_valid s)(GET_SECNO s g := sm_sec_valid s (GET_SECNO s g) + word_of_int del) else sm_sec_valid s),
        sm_dirty_sentries_bitmap := (sm_dirty_sentries_bitmap s)(g := True),
        sm_dirty_sentries := (if sm_dirty_sentries_bitmap s g then sm_dirty_sentries s else sm_dirty_sentries s + 1),
        sm_written_valid_blocks := sm_written_valid_blocks s + word_of_int del,
        sm_max_mtime := get_mtime s\<rparr>)"

lemma nvalid_bound: "seg_sit s \<Longrightarrow> g < sm_main_segments s \<Longrightarrow> nvalid s g \<le> blocks_per_seg s"
  using card_mono[of "blocks s" "{i \<in> blocks s. vbit s g i}"] by (auto simp: seg_sit_def entry_ok_def)

lemma nvalid_pos: "seg_sit s \<Longrightarrow> g < sm_main_segments s \<Longrightarrow> i < blocks_per_seg s \<Longrightarrow> vbit s g i \<Longrightarrow> 0 < nvalid s g"
  by (auto simp: seg_sit_def entry_ok_def card_gt_0_iff)

lemma nvalid_less:
  assumes "seg_sit s" "g < sm_main_segments s" "i < blocks_per_seg s" "\<not> vbit s g i"
  shows "nvalid s g < blocks_per_seg s"
proof -
  have "{j \<in> blocks s. vbit s g j} \<subset> blocks s" using assms(3,4) by auto
  then have "card {j \<in> blocks s. vbit s g j} < card (blocks s)" by (intro psubset_card_mono) auto
  then show ?thesis using assms(1,2) by (simp add: seg_sit_def entry_ok_def)
qed

lemma update_sit_entry_eq:
  assumes geo: "seg_geo s" and sit: "seg_sit s" and g: "g < sm_main_segments s" and i: "i < blocks_per_seg s"
    and del: "del = 1 \<and> \<not> vbit s g i \<or> del = - 1 \<and> vbit s g i"
  shows "update_sit_entry (blk_at s g i) del s = Some (sit_upd g i del s)"
proof -
  let ?n = "int (nvalid s g) + del"
  have n: "0 \<le> ?n" "?n \<le> int (blocks_per_seg s)"
    using del nvalid_pos[OF sit g i] nvalid_less[OF sit g i] nvalid_bound[OF sit g] by auto
  then have "?n < 2 ^ 16" using bps_bound[OF geo] by simp
  then have b: "drop_bit 16 ?n = 0" using n(1) by (simp add: drop_bit_eq_div)
  show ?thesis
    using del n b
    by (auto simp: update_sit_entry_def get_seg_entry_def g sit_upd_def vbit_def cbit_def f2fs_set_bit_def f2fs_clear_bit_def
        Let_def mark_sit_entry_dirty_def GET_SECNO_def geo i fun_upd_idem)
qed

lemma sit_upd_frame: "sit_frame s (sit_upd g i del s)"
  unfolding sit_upd_def Let_def by (rule sit_frameI)

lemma vbit_sit_upd:
  "vbit (sit_upd g i del s) h j \<longleftrightarrow> (if h = g \<and> j = i then 0 < del else vbit s h j)"
  by (auto simp: vbit_def sit_upd_def Let_def)

lemma sit_upd_entries [simp]:
  "cbit (sit_upd g i del s) h j = cbit s h j"
  "se_ckpt_map (sm_sentries (sit_upd g i del s) h) = se_ckpt_map (sm_sentries s h)"
  "se_type (sm_sentries (sit_upd g i del s) h) = se_type (sm_sentries s h)"
  "nvalid (sit_upd g i del s) h = (if h = g then nat (int (nvalid s g) + del) else nvalid s h)"
  "blocks_per_seg (sit_upd g i del s) = blocks_per_seg s"
  by (simp_all add: cbit_def sit_upd_def Let_def blocks_per_seg_def)

lemma sit_upd_counters:
  "sm_dirty_sentries_bitmap (sit_upd g i del s) = (sm_dirty_sentries_bitmap s)(g := True)"
  "sm_written_valid_blocks (sit_upd g i del s) = sm_written_valid_blocks s + word_of_int del"
  "sm_dirty_sentries (sit_upd g i del s) = (if sm_dirty_sentries_bitmap s g then sm_dirty_sentries s else sm_dirty_sentries s + 1)"
  "1 < sm_segs_per_sec s \<Longrightarrow> sm_sec_valid (sit_upd g i del s) sec
     = (if sec = GET_SECNO s g then sm_sec_valid s sec + word_of_int del else sm_sec_valid s sec)"
  by (simp_all add: sit_upd_def Let_def)

lemma entry_ok_other:
  assumes "h \<noteq> g" "entry_ok s h"
  shows "entry_ok (sit_upd g i del s) h"
  using assms by (simp add: entry_ok_def vbit_sit_upd sit_frameD[OF sit_upd_frame])
    (simp add: sit_upd_def Let_def)

lemma entry_ok_changed:
  assumes ok: "entry_ok s g" and i: "i < blocks_per_seg s" and inuse: "sm_free_segmap s g"
    and del: "del = 1 \<and> \<not> vbit s g i \<or> del = - 1 \<and> vbit s g i"
  shows "entry_ok (sit_upd g i del s) g"
proof -
  let ?s = "sit_upd g i del s"
  have v: "nvalid ?s g = card {j \<in> blocks s. vbit ?s g j}"
    using del
  proof
    assume d: "del = 1 \<and> \<not> vbit s g i"
    then have "{j \<in> blocks s. vbit ?s g j} = {j \<in> blocks s. j = i \<or> vbit s g j}" by (auto simp: vbit_sit_upd)
    then show ?thesis using d ok i card_more[of "blocks s" i "vbit s g"] by (simp add: entry_ok_def nat_add_distrib)
  next
    assume d: "del = - 1 \<and> vbit s g i"
    then have "{j \<in> blocks s. vbit ?s g j} = {j \<in> blocks s. j \<noteq> i \<and> vbit s g j}" by (auto simp: vbit_sit_upd)
    then show ?thesis using d ok i card_less[of "blocks s" i "vbit s g"] by (simp add: entry_ok_def)
  qed
  have c: "se_ckpt_valid_blocks (sm_sentries ?s g) = of_nat (card {j \<in> blocks s. vbit ?s g j \<or> cbit s g j})"
  proof (cases "cbit s g i")
    case True
    then have "{j \<in> blocks s. vbit ?s g j \<or> cbit s g j} = {j \<in> blocks s. vbit s g j \<or> cbit s g j}"
      by (auto simp: vbit_sit_upd)
    then show ?thesis using ok True by (simp add: entry_ok_def) (simp add: sit_upd_def Let_def)
  next
    case False
    then have e: "se_ckpt_valid_blocks (sm_sentries ?s g) = se_ckpt_valid_blocks (sm_sentries s g) + word_of_int del"
      by (simp add: sit_upd_def Let_def)
    from del show ?thesis
    proof
      assume d: "del = 1 \<and> \<not> vbit s g i"
      then have "{j \<in> blocks s. vbit ?s g j \<or> cbit s g j} = {j \<in> blocks s. j = i \<or> vbit s g j \<or> cbit s g j}"
        by (auto simp: vbit_sit_upd)
      then show ?thesis using d ok i e False card_more[of "blocks s" i "\<lambda>j. vbit s g j \<or> cbit s g j"]
        by (simp add: entry_ok_def)
    next
      assume d: "del = - 1 \<and> vbit s g i"
      then have "{j \<in> blocks s. vbit ?s g j \<or> cbit s g j} = {j \<in> blocks s. j \<noteq> i \<and> (vbit s g j \<or> cbit s g j)}"
        using False by (auto simp: vbit_sit_upd)
      moreover have "card {j \<in> blocks s. vbit s g j \<or> cbit s g j} = Suc (card {j \<in> blocks s. j \<noteq> i \<and> (vbit s g j \<or> cbit s g j)})"
        using d i card_less[of "blocks s" i "\<lambda>j. vbit s g j \<or> cbit s g j"] by simp
      moreover have "se_ckpt_valid_blocks (sm_sentries s g) = of_nat (card {j \<in> blocks s. vbit s g j \<or> cbit s g j})"
        using ok by (simp add: entry_ok_def)
      ultimately show ?thesis using d e by (simp only: of_nat_Suc) simp
    qed
  qed
  have "sm_dirty_sentries_bitmap ?s g" by (simp add: sit_upd_def Let_def)
  then show ?thesis using v c ok inuse by (simp add: entry_ok_def sit_frameD[OF sit_upd_frame])
qed

lemma seg_sit_upd:
  assumes geo: "seg_geo s" and sit: "seg_sit s" and g: "g < sm_main_segments s" and i: "i < blocks_per_seg s"
    and inuse: "sm_free_segmap s g" and del: "del = 1 \<and> \<not> vbit s g i \<or> del = - 1 \<and> vbit s g i"
  shows "seg_sit (sit_upd g i del s)"
proof -
  let ?s = "sit_upd g i del s"
  note fr = sit_frameD[OF sit_upd_frame, of g i del s]
  have n: "int (nvalid ?s g) = int (nvalid s g) + del" using del nvalid_pos[OF sit g i] by auto
  have "entry_ok ?s h" if "h \<in> segs s" for h
    using sit that entry_ok_other[of h g s i del] entry_ok_changed[OF _ i inuse del]
    unfolding seg_sit_def by (cases "h = g") blast+
  then have "\<forall>h \<in> segs s. entry_ok ?s h" by blast
  moreover have "sm_written_valid_blocks ?s = of_nat (\<Sum>h \<in> segs s. nvalid ?s h)"
    using sit g word_sum_change[where 'a = 32 and f = "nvalid s" and f' = "nvalid ?s" and A = "segs s", OF _ _ n]
    by (simp add: seg_sit_def sit_upd_counters del: of_nat_sum)
  moreover have "sm_sec_valid ?s sec = of_nat (\<Sum>h \<in> section_of s sec. nvalid ?s h)"
    if sec: "1 < sm_segs_per_sec s" "sec < sm_total_sections s" for sec
  proof (cases "GET_SECNO s g = sec")
    case True
    then have "g \<in> section_of s sec" using sec by (simp add: section_of_iff)
    then show ?thesis using sit sec True word_sum_change[where 'a = 32 and f = "nvalid s" and f' = "nvalid ?s" and A = "section_of s sec", OF _ _ n]
      by (simp add: seg_sit_def sit_upd_counters del: of_nat_sum)
  next
    case False
    then have "g \<notin> section_of s sec" using sec by (simp add: section_of_iff)
    then have "(\<Sum>h \<in> section_of s sec. nvalid ?s h) = (\<Sum>h \<in> section_of s sec. nvalid s h)"
      by (intro sum.cong) auto
    then show ?thesis using sit sec False by (simp add: seg_sit_def sit_upd_counters del: of_nat_sum)
  qed
  moreover have "sm_dirty_sentries ?s = of_nat (card {h \<in> segs s. sm_dirty_sentries_bitmap ?s h})"
  proof (cases "sm_dirty_sentries_bitmap s g")
    case True
    then show ?thesis using sit by (simp add: seg_sit_def sit_upd_counters fun_upd_idem)
  next
    case False
    have "{h \<in> segs s. sm_dirty_sentries_bitmap ?s h} = {h \<in> segs s. h = g \<or> sm_dirty_sentries_bitmap s h}"
      by (auto simp: sit_upd_def Let_def)
    then show ?thesis using sit False g card_more[of "segs s" g "sm_dirty_sentries_bitmap s"]
      by (simp add: seg_sit_def sit_upd_counters)
  qed
  ultimately show ?thesis
    unfolding seg_sit_def fr section_of_def[of ?s, unfolded fr, folded section_of_def] by blast
qed

subsection \<open>The lists of dirty and obsolete segments\<close>

definition dirty_frame :: "f2fs_sm_info \<Rightarrow> f2fs_sm_info \<Rightarrow> bool" where
  "dirty_frame s s' \<longleftrightarrow> s' = s\<lparr>sm_dirty_segmap := sm_dirty_segmap s', sm_nr_dirty := sm_nr_dirty s',
     sm_victim_secmap := sm_victim_secmap s'\<rparr>"

lemma dirty_frame_refl [simp]: "dirty_frame s s"
  by (simp add: dirty_frame_def)

lemma dirty_frame_trans: "dirty_frame s s1 \<Longrightarrow> dirty_frame s1 s2 \<Longrightarrow> dirty_frame s s2"
  by (cases s; cases s1; cases s2) (simp add: dirty_frame_def)

lemma dirty_frameD:
  assumes "dirty_frame s s'"
  shows "sm_log_blocks_per_seg s' = sm_log_blocks_per_seg s" "sm_segs_per_sec s' = sm_segs_per_sec s"
    "sm_secs_per_zone s' = sm_secs_per_zone s" "sm_main_segments s' = sm_main_segments s"
    "sm_total_sections s' = sm_total_sections s" "sm_seg0_blkaddr s' = sm_seg0_blkaddr s"
    "sm_start_segno s' = sm_start_segno s" "sm_ssa_blkaddr s' = sm_ssa_blkaddr s" "sm_noheap s' = sm_noheap s"
    "sm_free_segmap s' = sm_free_segmap s" "sm_free_secmap s' = sm_free_secmap s"
    "sm_free_segments s' = sm_free_segments s" "sm_free_sections s' = sm_free_sections s"
    "sm_curseg s' = sm_curseg s" "sm_sum_pages s' = sm_sum_pages s" "sm_sentries s' = sm_sentries s"
    "sm_sec_valid s' = sm_sec_valid s" "sm_dirty_sentries_bitmap s' = sm_dirty_sentries_bitmap s"
    "sm_dirty_sentries s' = sm_dirty_sentries s" "sm_written_valid_blocks s' = sm_written_valid_blocks s"
  by (subst assms[unfolded dirty_frame_def], simp)+

definition nr_ok :: "f2fs_sm_info \<Rightarrow> bool" where
  "nr_ok s \<longleftrightarrow> (\<forall>t \<le> PRE. sm_nr_dirty s t = int (card {g \<in> segs s. sm_dirty_segmap s t g}))"

text \<open>From \<open>s\<close> to \<open>s'\<close> only the lists of the segment \<open>g\<close> change, to \<open>P\<close>.\<close>

definition relisted :: "nat \<Rightarrow> (nat \<Rightarrow> bool) \<Rightarrow> f2fs_sm_info \<Rightarrow> f2fs_sm_info \<Rightarrow> bool" where
  "relisted g P s s' \<longleftrightarrow> dirty_frame s s' \<and> nr_ok s'
     \<and> (\<forall>t h. sm_dirty_segmap s' t h \<longleftrightarrow> (if h = g then P t else sm_dirty_segmap s t h))"

lemma relisted_eq: "relisted g P s s' \<Longrightarrow> (\<And>u. P u \<longleftrightarrow> Q u) \<Longrightarrow> relisted g Q s s'"
  by (simp add: relisted_def)

lemma relisted_trans: "relisted g P s s1 \<Longrightarrow> relisted g Q s1 s2 \<Longrightarrow> relisted g Q s s2"
  by (auto simp: relisted_def intro: dirty_frame_trans)

lemma set_dirty_segmap_ok:
  assumes "nr_ok s" "g < sm_main_segments s"
  shows "relisted g (\<lambda>u. u = t \<or> sm_dirty_segmap s u g) s (set_dirty_segmap t g s)"
proof (cases "sm_dirty_segmap s t g")
  case True
  then show ?thesis using assms by (auto simp: relisted_def set_dirty_segmap_def)
next
  case False
  have "nr_ok (set_dirty_segmap t g s)"
    unfolding nr_ok_def
  proof (intro allI impI)
    fix u assume u: "u \<le> PRE"
    show "sm_nr_dirty (set_dirty_segmap t g s) u = int (card {h \<in> segs (set_dirty_segmap t g s). sm_dirty_segmap (set_dirty_segmap t g s) u h})"
    proof (cases "u = t")
      case True
      have "{h \<in> segs s. ((sm_dirty_segmap s t)(g := True)) h} = {h \<in> segs s. h = g \<or> sm_dirty_segmap s t h}" by auto
      then show ?thesis using True False u assms card_more[of "segs s" g "sm_dirty_segmap s t"]
        by (simp add: nr_ok_def set_dirty_segmap_def)
    qed (use assms False u in \<open>simp add: nr_ok_def set_dirty_segmap_def\<close>)
  qed
  then show ?thesis using False by (auto simp: relisted_def set_dirty_segmap_def dirty_frame_def)
qed

lemma clear_dirty_segmap_ok:
  assumes "nr_ok s" "g < sm_main_segments s"
  shows "relisted g (\<lambda>u. u \<noteq> t \<and> sm_dirty_segmap s u g) s (clear_dirty_segmap t g s)"
proof (cases "sm_dirty_segmap s t g")
  case False
  then show ?thesis using assms by (auto simp: relisted_def clear_dirty_segmap_def)
next
  case True
  have "nr_ok (clear_dirty_segmap t g s)"
    unfolding nr_ok_def
  proof (intro allI impI)
    fix u assume u: "u \<le> PRE"
    show "sm_nr_dirty (clear_dirty_segmap t g s) u = int (card {h \<in> segs (clear_dirty_segmap t g s). sm_dirty_segmap (clear_dirty_segmap t g s) u h})"
    proof (cases "u = t")
      case eq: True
      have "{h \<in> segs s. ((sm_dirty_segmap s t)(g := False)) h} = {h \<in> segs s. h \<noteq> g \<and> sm_dirty_segmap s t h}" by auto
      then show ?thesis using True eq u assms card_less[of "segs s" g "sm_dirty_segmap s t"]
        by (simp add: nr_ok_def clear_dirty_segmap_def)
    qed (use assms True u in \<open>simp add: nr_ok_def clear_dirty_segmap_def\<close>)
  qed
  then show ?thesis using True by (auto simp: relisted_def clear_dirty_segmap_def dirty_frame_def)
qed

lemma locate_dirty_ok:
  assumes "nr_ok s" "g < sm_main_segments s" "se_type (sm_sentries s g) < NR_CURSEG_TYPE" "\<not> IS_CURSEG s g"
  shows "\<exists>s'. locate_dirty g t s = Some s'
    \<and> relisted g (\<lambda>u. u = t \<or> t = DIRTY \<and> u = se_type (sm_sentries s g) \<or> sm_dirty_segmap s u g) s s'"
proof -
  let ?s1 = "set_dirty_segmap t g s" and ?k = "se_type (sm_sentries s g)"
  have 1: "relisted g (\<lambda>u. u = t \<or> sm_dirty_segmap s u g) s ?s1" by (rule set_dirty_segmap_ok) fact+
  then have fr: "sm_main_segments ?s1 = sm_main_segments s" "sm_sentries ?s1 = sm_sentries s" "nr_ok ?s1"
    and m: "sm_dirty_segmap ?s1 u g \<longleftrightarrow> u = t \<or> sm_dirty_segmap s u g" for u
    by (auto simp: relisted_def dirty_frameD)
  show ?thesis
  proof (cases "t = DIRTY")
    case True
    have "relisted g (\<lambda>u. u = ?k \<or> sm_dirty_segmap ?s1 u g) s (set_dirty_segmap ?k g ?s1)"
      by (rule relisted_trans[OF 1]) (rule set_dirty_segmap_ok, use assms fr in auto)
    then have "relisted g (\<lambda>u. u = t \<or> t = DIRTY \<and> u = ?k \<or> sm_dirty_segmap s u g) s (set_dirty_segmap ?k g ?s1)"
      by (rule relisted_eq) (use True m in blast)
    moreover have "locate_dirty g t s = Some (set_dirty_segmap ?k g ?s1)"
      using assms True fr by (simp add: locate_dirty_def get_seg_entry_def Let_def seg_types)
    ultimately show ?thesis by blast
  qed (use 1 assms in \<open>simp add: locate_dirty_def Let_def\<close>)
qed

lemma remove_dirty_ok:
  assumes "nr_ok s" "g < sm_main_segments s"
  shows "\<exists>s'. remove_dirty g t s = Some s'
    \<and> relisted g (\<lambda>u. u \<noteq> t \<and> \<not> (t = DIRTY \<and> u = se_type (sm_sentries s g)) \<and> sm_dirty_segmap s u g) s s'"
proof -
  let ?s1 = "clear_dirty_segmap t g s" and ?k = "se_type (sm_sentries s g)"
  have 1: "relisted g (\<lambda>u. u \<noteq> t \<and> sm_dirty_segmap s u g) s ?s1" by (rule clear_dirty_segmap_ok) fact+
  then have fr: "sm_main_segments ?s1 = sm_main_segments s" "sm_sentries ?s1 = sm_sentries s" "nr_ok ?s1"
    and m: "sm_dirty_segmap ?s1 u g \<longleftrightarrow> u \<noteq> t \<and> sm_dirty_segmap s u g" for u
    by (auto simp: relisted_def dirty_frameD)
  show ?thesis
  proof (cases "t = DIRTY")
    case True
    let ?s2 = "clear_dirty_segmap ?k g ?s1"
    have "relisted g (\<lambda>u. u \<noteq> ?k \<and> sm_dirty_segmap ?s1 u g) s ?s2"
      by (rule relisted_trans[OF 1]) (rule clear_dirty_segmap_ok, use assms fr in auto)
    then have 2: "relisted g (\<lambda>u. u \<noteq> t \<and> \<not> (t = DIRTY \<and> u = ?k) \<and> sm_dirty_segmap s u g) s ?s2"
      by (rule relisted_eq) (use True m in blast)
    have "relisted g (\<lambda>u. u \<noteq> t \<and> \<not> (t = DIRTY \<and> u = ?k) \<and> sm_dirty_segmap s u g) s (?s2\<lparr>sm_victim_secmap := v\<rparr>)" for v
      using 2 dirty_frame_trans[of s ?s2 "?s2\<lparr>sm_victim_secmap := v\<rparr>"]
      by (simp add: relisted_def nr_ok_def dirty_frame_def[of ?s2])
    then show ?thesis using 2 assms True fr by (auto simp: remove_dirty_def get_seg_entry_def Let_def)
  qed (use 1 assms in \<open>simp add: remove_dirty_def Let_def\<close>)
qed

text \<open>What depends only on fields outside the lists.\<close>

lemma dirty_frame_parts:
  assumes "dirty_frame s s'"
  shows "seg_geo s' = seg_geo s" "seg_sit s' = seg_sit s" "seg_free s' = seg_free s" "seg_logs s' = seg_logs s"
    "vbit s' = vbit s" "cbit s' = cbit s" "IS_CURSEG s' = IS_CURSEG s" "blocks_per_seg s' = blocks_per_seg s"
    "next_ok s' t = next_ok s t"
  using dirty_frameD[OF assms]
  by (simp_all add: seg_geo_def seg_sit_def seg_free_def seg_logs_def vbit_def cbit_def IS_CURSEG_def fun_eq_iff
      blocks_per_seg_def entry_ok_def section_of_def GET_ZONENO_FROM_SEGNO_def next_ok_def)

lemma dirty_frame_listed:
  assumes "dirty_frame s s'" "\<And>t. sm_dirty_segmap s' t h \<longleftrightarrow> sm_dirty_segmap s t h"
  shows "may_listed s' h = may_listed s h" "must_listed s' h = must_listed s h"
  using dirty_frameD[OF assms(1)] assms(2) dirty_frame_parts[OF assms(1)]
  by (simp_all add: may_listed_def must_listed_def)

lemma seg_base_relisted:
  assumes base: "seg_base s X" and g: "g < sm_main_segments s" and r: "relisted g P s s'"
    and may: "may_listed s' g" and must: "must_listed s' g"
  shows "seg_base s' (X - {g})"
proof -
  have fr: "dirty_frame s s'" and nr: "nr_ok s'" and m: "\<And>t h. h \<noteq> g \<Longrightarrow> sm_dirty_segmap s' t h \<longleftrightarrow> sm_dirty_segmap s t h"
    using r by (auto simp: relisted_def)
  have "may_listed s' h \<and> (h \<notin> X - {g} \<longrightarrow> must_listed s' h)" if "h \<in> segs s" for h
  proof (cases "h = g")
    case False
    have "may_listed s h \<and> (h \<notin> X \<longrightarrow> must_listed s h)" using base that by (simp add: seg_base_def seg_dirty_def)
    then show ?thesis using False dirty_frame_listed[OF fr m[OF False]] by simp
  qed (use may must in simp)
  then show ?thesis
    using base nr dirty_frame_parts[OF fr] by (simp add: seg_base_def seg_dirty_def nr_ok_def dirty_frameD[OF fr])
qed

lemma locate_dirty_segment_ok:
  assumes base: "seg_base s X" and g: "g = NULL_SEGNO \<or> g < sm_main_segments s \<and> sm_free_segmap s g"
  shows "\<exists>s'. locate_dirty_segment g s = Some s' \<and> dirty_frame s s' \<and> seg_base s' (X - {g})"
proof -
  consider (null) "g = NULL_SEGNO" | (log) "g \<noteq> NULL_SEGNO" "IS_CURSEG s g"
    | (used) "g < sm_main_segments s" "sm_free_segmap s g" "g \<noteq> NULL_SEGNO" "\<not> IS_CURSEG s g" using g by blast
  then show ?thesis
  proof cases
    case null
    have "sm_main_segments s < NULL_SEGNO" using base by (simp add: seg_base_def main_bound)
    then show ?thesis using null base by (auto simp: locate_dirty_segment_def seg_base_def seg_dirty_def)
  next
    case log
    then have "must_listed s g" by (simp add: must_listed_def)
    then show ?thesis using log base by (auto simp: locate_dirty_segment_def seg_base_def seg_dirty_def)
  next
    case used
    let ?k = "se_type (sm_sentries s g)" and ?m = "\<lambda>u. sm_dirty_segmap s u g"
    have nr: "nr_ok s" and k: "?k < NR_CURSEG_TYPE" and may: "may_listed s g"
      and v: "nvalid s g \<le> blocks_per_seg s"
      using base used(1) nvalid_bound[of s g] by (auto simp: seg_base_def seg_dirty_def nr_ok_def seg_sit_def entry_ok_def)
    have fin: "?thesis" if "locate_dirty_segment g s = Some s'" "relisted g P s s'"
      "P PRE \<longleftrightarrow> nvalid s g = 0" "P DIRTY \<longleftrightarrow> 0 < nvalid s g \<and> nvalid s g < blocks_per_seg s"
      "\<And>t. t < DIRTY \<Longrightarrow> P t \<longleftrightarrow> t = ?k \<and> P DIRTY" for s' P
    proof -
      have fr: "dirty_frame s s'" and m: "\<And>u. sm_dirty_segmap s' u g \<longleftrightarrow> P u" using that(2) by (auto simp: relisted_def)
      have "may_listed s' g" "must_listed s' g"
        using that(3-5) used m dirty_frame_parts[OF fr] dirty_frameD[OF fr] by (simp_all add: may_listed_def must_listed_def)
      then show ?thesis using seg_base_relisted[OF base used(1) that(2)] that(1) fr by blast
    qed
    have se: "get_seg_entry s g = Some (sm_sentries s g)" using used(1) by (simp add: get_seg_entry_def)
    consider "nvalid s g = 0" | "0 < nvalid s g" "nvalid s g < blocks_per_seg s" | "nvalid s g = blocks_per_seg s" "0 < nvalid s g"
      using v by fastforce
    then show ?thesis
    proof cases
      case 1
      obtain s1 where s1: "locate_dirty g PRE s = Some s1" "relisted g (\<lambda>u. u = PRE \<or> ?m u) s s1"
        using locate_dirty_ok[OF nr used(1) k used(4), of PRE] by (auto simp: seg_types)
      then have fr: "sm_main_segments s1 = sm_main_segments s" "sm_sentries s1 = sm_sentries s" "nr_ok s1"
        and m: "\<And>u. sm_dirty_segmap s1 u g \<longleftrightarrow> u = PRE \<or> ?m u"
        by (auto simp: relisted_def dirty_frameD)
      obtain s2 where s2: "remove_dirty g DIRTY s1 = Some s2"
          "relisted g (\<lambda>u. u \<noteq> DIRTY \<and> u \<noteq> ?k \<and> (u = PRE \<or> ?m u)) s1 s2"
        using remove_dirty_ok[of s1 g DIRTY] fr used(1) m by auto
      show ?thesis
        by (rule fin[OF _ relisted_trans[OF s1(2) s2(2)]])
          (use s1(1) s2(1) 1 used se k may in \<open>auto simp: locate_dirty_segment_def may_listed_def seg_types\<close>)
    next
      case 2
      obtain s1 where s1: "locate_dirty g DIRTY s = Some s1" "relisted g (\<lambda>u. u = DIRTY \<or> u = ?k \<or> ?m u) s s1"
        using locate_dirty_ok[OF nr used(1) k used(4), of DIRTY] by auto
      show ?thesis
        by (rule fin[OF _ s1(2)])
          (use s1(1) 2 used se k may in \<open>auto simp: locate_dirty_segment_def may_listed_def seg_types\<close>)
    next
      case 3
      obtain s1 where s1: "remove_dirty g DIRTY s = Some s1" "relisted g (\<lambda>u. u \<noteq> DIRTY \<and> u \<noteq> ?k \<and> ?m u) s s1"
        using remove_dirty_ok[OF nr used(1), of DIRTY] by auto
      show ?thesis
        by (rule fin[OF _ s1(2)])
          (use s1(1) 3 used se k may in \<open>auto simp: locate_dirty_segment_def may_listed_def seg_types\<close>)
    qed
  qed
qed

end
