(* ===== verification/F2fsCursegInv.thy ===== *)
theory F2fsCursegInv
  imports F2fsSegInv
begin

text \<open>
  The search for a free segment finds one whenever a section is free, and changing the current
  segment of a log keeps the invariant of the segment manager.
\<close>

definition free_section :: "f2fs_sm_info \<Rightarrow> nat \<Rightarrow> bool" where
  "free_section s sec \<longleftrightarrow> sec < sm_total_sections s \<and> \<not> sm_free_secmap s sec"

lemma find_next_bit_cases:
  "siz \<le> find_next_bit f siz off \<and> (\<forall>i. off \<le> i \<and> i < siz \<longrightarrow> \<not> f i)
   \<or> off \<le> find_next_bit f siz off \<and> find_next_bit f siz off < siz \<and> f (find_next_bit f siz off)"
proof (cases "find_next_bit f siz off = siz")
  case True
  then show ?thesis using find_next_bit_end[OF True] by auto
next
  case False
  then show ?thesis using find_next_bit_least[OF refl False] by blast
qed

lemma find_free_sec:
  fixes s :: f2fs_sm_info and off :: nat
  defines "n \<equiv> find_next_zero_bit (sm_free_secmap s) (sm_total_sections s) off"
  shows "sm_total_sections s \<le> n \<and> (\<forall>i. off \<le> i \<longrightarrow> \<not> free_section s i) \<or> n < sm_total_sections s \<and> free_section s n"
  using find_next_bit_cases[of "sm_total_sections s" "\<lambda>i. \<not> sm_free_secmap s i" off]
  unfolding n_def find_next_zero_bit_def free_section_def by auto

lemma scan_left_ok:
  assumes "l < sm_total_sections s" "free_section s sec0"
  shows "\<exists>n. scan_left s l = Some n \<and> free_section s n"
  using assms(1)
proof (induction l)
  case 0
  then show ?case using find_free_sec[of s 0] assms(2) by (auto simp: scan_left.simps[of s 0] free_section_def Let_def)
next
  case (Suc l)
  then show ?case by (auto simp: scan_left.simps[of s "Suc l"] free_section_def)
qed

lemma scan_left_free: "free_section s l \<Longrightarrow> scan_left s l = Some l"
  by (subst scan_left.simps) (simp add: free_section_def)

lemma usub32_le: "b \<le> a \<Longrightarrow> a < 2 ^ 32 \<Longrightarrow> usub32 a b = a - b"
  using mod_add_self2[of "a - b" "2 ^ 32"] by (simp add: usub32_def)

lemma find_section_ok:
  assumes f: "free_section s sec0" and h: "hint \<le> sm_total_sections s" and m: "sm_total_sections s < 2 ^ 32"
    and l: "go_left \<longrightarrow> free_section s left_start"
  shows "\<exists>n gl ls. find_section s dir hint go_left left_start = Some (n, gl, ls) \<and> free_section s n
    \<and> (gl \<longrightarrow> dir = ALLOC_LEFT \<or> go_left) \<and> (gl \<longrightarrow> free_section s ls)"
proof (cases "sm_total_sections s \<le> find_next_zero_bit (sm_free_secmap s) (sm_total_sections s) hint")
  case none: True
  show ?thesis
  proof (cases "dir = ALLOC_RIGHT")
    case True
    then show ?thesis using none find_free_sec[of s 0] f l scan_left_free[of s left_start]
      by (auto simp: find_section_def Let_def not_le)
  next
    case False
    have "\<forall>i. hint \<le> i \<longrightarrow> \<not> free_section s i" using find_free_sec[of s hint] none by auto
    then have "sec0 < hint" using f not_le by blast
    then have "usub32 hint 1 < sm_total_sections s" using h m by (simp add: usub32_le)
    then obtain n where "scan_left s (usub32 hint 1) = Some n" "free_section s n" using scan_left_ok f by blast
    then show ?thesis using none False by (cases dir) (auto simp: find_section_def Let_def)
  qed
next
  case False
  then show ?thesis using find_free_sec[of s hint] l scan_left_free[of s left_start]
    by (auto simp: find_section_def Let_def not_le)
qed

lemma free_section_seg:
  assumes geo: "seg_geo s" and "seg_free s" and f: "free_section s sec"
  shows "sec * sm_segs_per_sec s < sm_main_segments s \<and> \<not> sm_free_segmap s (sec * sm_segs_per_sec s)"
proof
  have pos: "0 < sm_segs_per_sec s" "sm_main_segments s = sm_total_sections s * sm_segs_per_sec s"
    using geo by (auto simp: seg_geo_def)
  then show "sec * sm_segs_per_sec s < sm_main_segments s" using f by (simp add: free_section_def)
  have "sec * sm_segs_per_sec s \<in> section_of s sec" using pos by (simp add: section_of_def)
  then show "\<not> sm_free_segmap s (sec * sm_segs_per_sec s)" using assms(2) f by (auto simp: seg_free_def free_section_def)
qed

lemma in_section:
  assumes "x < n - a mod n" "(0 :: nat) < n"
  shows "a + x < (a div n + 1) * n"
proof -
  have "a mod n < n" using assms(2) by simp
  then have "a mod n + x < n" using assms(1) by linarith
  moreover have "a + x = a div n * n + (a mod n + x)" by (metis add.assoc div_mult_mod_eq)
  ultimately show ?thesis unfolding add_mult_distrib mult_1 by linarith
qed

lemma get_new_segment_ok:
  assumes geo: "seg_geo s" and fr: "seg_free s" and f: "free_section s sec0" and n: "newseg < sm_main_segments s"
  shows "\<exists>g. get_new_segment newseg new_sec dir s = Some (g, set_inuse g s) \<and> g < sm_main_segments s \<and> \<not> sm_free_segmap s g"
proof -
  let ?next = "find_next_zero_bit (sm_free_segmap s) (sm_main_segments s) (newseg + 1)"
  let ?in = "\<not> new_sec \<and> (newseg + 1) mod sm_segs_per_sec s \<noteq> 0
     \<and> usub32 ?next newseg < sm_segs_per_sec s - newseg mod sm_segs_per_sec s"
  have pos: "0 < sm_segs_per_sec s" "0 < sm_secs_per_zone s" "sm_main_segments s = sm_total_sections s * sm_segs_per_sec s"
    using geo by (auto simp: seg_geo_def)
  have m: "sm_main_segments s < 2 ^ 32" using main_bound[OF geo] by (simp add: NULL_SEGNO_def)
  have t: "sm_total_sections s < 2 ^ 32" using pos m by (metis le_less_trans less_eq_Suc_le mult.right_neutral mult_le_mono2 One_nat_def)
  have fin: ?thesis if "free_section s n" "get_new_segment newseg new_sec dir s
      = (do { bug_on (sm_free_segmap s (n * sm_segs_per_sec s)); Some (n * sm_segs_per_sec s, set_inuse (n * sm_segs_per_sec s) s) })" for n
    using that free_section_seg[OF geo fr that(1)] by simp
  show ?thesis
  proof (cases ?in)
    case True
    have c: "newseg < ?next" "?next < sm_main_segments s \<and> \<not> sm_free_segmap s ?next \<or> ?next = sm_main_segments s"
      using find_next_bit_cases[of "sm_main_segments s" "\<lambda>i. \<not> sm_free_segmap s i" "newseg + 1"] n
        find_next_bit_least[of "\<lambda>i. \<not> sm_free_segmap s i" "sm_main_segments s" "newseg + 1", OF refl]
      unfolding find_next_zero_bit_def by (auto simp: le_less)
    have le: "?next \<le> sm_main_segments s" using c(2) by auto
    have "?next < (newseg div sm_segs_per_sec s + 1) * sm_segs_per_sec s"
      using in_section[of "?next - newseg" "sm_segs_per_sec s" newseg] True pos c(1) le m by (simp add: usub32_le)
    moreover have "(newseg div sm_segs_per_sec s + 1) * sm_segs_per_sec s \<le> sm_main_segments s"
      using n pos by (metis Suc_eq_plus1 less_eq_Suc_le less_mult_imp_div_less mult_le_mono1)
    ultimately have "?next < sm_main_segments s \<and> \<not> sm_free_segmap s ?next" using c(2) by auto
    then show ?thesis using True by (auto simp: get_new_segment_def Let_def)
  next
    case False
    have h: "newseg div sm_segs_per_sec s \<le> sm_total_sections s"
      using n pos by (metis less_imp_le less_mult_imp_div_less)
    obtain sec gl ls where s1: "find_section s dir (newseg div sm_segs_per_sec s) False (newseg div sm_segs_per_sec s) = Some (sec, gl, ls)"
        "free_section s sec" "gl \<longrightarrow> dir = ALLOC_LEFT" "gl \<longrightarrow> free_section s ls"
      using find_section_ok[OF f h t, of False "newseg div sm_segs_per_sec s" dir] by auto
    let ?z = "sec div sm_secs_per_zone s"
    let ?ok = "sm_secs_per_zone s = 1 \<or> ?z = GET_ZONENO_FROM_SEGNO s newseg
         \<or> dir = ALLOC_LEFT \<and> \<not> gl \<and> sm_total_sections s div sm_secs_per_zone s \<le> ?z + 1
         \<or> dir = ALLOC_LEFT \<and> gl \<and> ?z = 0 \<or> \<not> zone_in_use s ?z"
    show ?thesis
    proof (cases ?ok)
      case True
      show ?thesis by (rule fin[OF s1(2)]) (use False True s1(1) in \<open>simp add: get_new_segment_def Let_def if_not_P if_P\<close>)
    next
      case nok: False
      let ?h = "if gl then usub32 (?z * sm_secs_per_zone s) 1
                else if sm_total_sections s div sm_secs_per_zone s \<le> ?z + 1 then 0 else (?z + 1) * sm_secs_per_zone s"
      have zs: "?z * sm_secs_per_zone s \<le> sec" by simp
      have "?h \<le> sm_total_sections s"
      proof -
        have "usub32 (?z * sm_secs_per_zone s) 1 \<le> sm_total_sections s" if gl
        proof -
          have "0 < ?z" using that nok s1(3) by auto
          then have "1 \<le> ?z * sm_secs_per_zone s" using pos(2) by (simp add: Suc_leI)
          moreover have "?z * sm_secs_per_zone s < 2 ^ 32" using zs s1(2) t unfolding free_section_def by linarith
          ultimately have "usub32 (?z * sm_secs_per_zone s) 1 = ?z * sm_secs_per_zone s - 1" by (rule usub32_le)
          then show ?thesis using zs s1(2) unfolding free_section_def by linarith
        qed
        moreover have "(?z + 1) * sm_secs_per_zone s \<le> sm_total_sections s"
          if "\<not> sm_total_sections s div sm_secs_per_zone s \<le> ?z + 1"
          using that mult_le_mono1[of "?z + 1" "sm_total_sections s div sm_secs_per_zone s" "sm_secs_per_zone s"]
            div_times_less_eq_dividend[of "sm_total_sections s" "sm_secs_per_zone s"] by linarith
        ultimately show ?thesis by auto
      qed
      from find_section_ok[OF f this t s1(4)] obtain sec2 gl2 ls2
        where s2: "find_section s dir ?h gl ls = Some (sec2, gl2, ls2)" "free_section s sec2" by blast
      show ?thesis
        by (rule fin[OF s2(2)]) (use False nok s1(1) s2(1) in \<open>simp add: get_new_segment_def Let_def if_not_P if_P\<close>)
    qed
  qed
qed

lemma free_sections_ex:
  assumes "seg_free s" "sm_free_sections s \<noteq> 0"
  obtains sec where "free_section s sec"
proof -
  have "{sec. sec < sm_total_sections s \<and> \<not> sm_free_secmap s sec} \<noteq> {}" using assms by (force simp: seg_free_def)
  then show ?thesis using that by (auto simp: free_section_def)
qed

subsection \<open>Taking and freeing a segment\<close>

lemma set_inuse_fields:
  "sm_free_segmap (set_inuse g s) = (sm_free_segmap s)(g := True)"
  "sm_free_secmap (set_inuse g s) = (sm_free_secmap s)(GET_SECNO s g := True)"
  "sm_free_segments (set_inuse g s) = sm_free_segments s - 1"
  "sm_free_sections (set_inuse g s) = (if sm_free_secmap s (GET_SECNO s g) then sm_free_sections s else sm_free_sections s - 1)"
  by (simp_all add: set_inuse_def Let_def GET_SECNO_def fun_upd_idem)

lemma set_inuse_frame:
  "set_inuse g s = s\<lparr>sm_free_segmap := sm_free_segmap (set_inuse g s), sm_free_secmap := sm_free_secmap (set_inuse g s),
     sm_free_segments := sm_free_segments (set_inuse g s), sm_free_sections := sm_free_sections (set_inuse g s)\<rparr>"
  by (simp add: set_inuse_def Let_def)

lemma count_less: "Suc a = b \<Longrightarrow> x = of_nat b \<Longrightarrow> x - 1 = (of_nat a :: 'a :: ring_1)"
  by auto

lemma seg_free_set_inuse:
  assumes geo: "seg_geo s" and fr: "seg_free s" and g: "g < sm_main_segments s" "\<not> sm_free_segmap s g"
  shows "seg_free (set_inuse g s)"
proof -
  let ?s = "set_inuse g s" and ?c = "GET_SECNO s g"
  have pos: "0 < sm_segs_per_sec s" using geo by (simp add: seg_geo_def)
  have geo': "sm_total_sections ?s = sm_total_sections s" "section_of ?s = section_of s" "sm_main_segments ?s = sm_main_segments s"
    by (simp_all add: set_inuse_def Let_def section_of_def fun_eq_iff)
  have "sm_free_secmap ?s sec \<longleftrightarrow> (\<exists>h \<in> section_of s sec. sm_free_segmap ?s h)" if "sec < sm_total_sections s" for sec
    using fr that section_of_iff[OF pos, of g sec] unfolding set_inuse_fields seg_free_def by (auto split: if_splits)
  moreover have "sm_free_segments ?s = of_nat (card {h \<in> segs s. \<not> sm_free_segmap ?s h})"
  proof -
    have "{h \<in> segs s. \<not> sm_free_segmap ?s h} = {h \<in> segs s. h \<noteq> g \<and> \<not> sm_free_segmap s h}" by (auto simp: set_inuse_fields)
    then have "Suc (card {h \<in> segs s. \<not> sm_free_segmap ?s h}) = card {h \<in> segs s. \<not> sm_free_segmap s h}"
      using card_less[of "segs s" g "\<lambda>h. \<not> sm_free_segmap s h"] g by simp
    moreover have "sm_free_segments s = of_nat (card {h \<in> segs s. \<not> sm_free_segmap s h})" using fr by (simp add: seg_free_def)
    ultimately show ?thesis unfolding set_inuse_fields by (rule count_less)
  qed
  moreover have "sm_free_sections ?s = of_nat (card {sec. sec < sm_total_sections s \<and> \<not> sm_free_secmap ?s sec})"
  proof (cases "sm_free_secmap s ?c")
    case True
    then show ?thesis using fr by (simp add: set_inuse_fields seg_free_def fun_upd_idem)
  next
    case False
    have c: "?c < sm_total_sections s" by (rule GET_SECNO_less[OF geo g(1)])
    have "{sec. sec < sm_total_sections s \<and> \<not> sm_free_secmap ?s sec}
        = {sec \<in> {..< sm_total_sections s}. sec \<noteq> ?c \<and> \<not> sm_free_secmap s sec}" by (auto simp: set_inuse_fields)
    then have "Suc (card {sec. sec < sm_total_sections s \<and> \<not> sm_free_secmap ?s sec})
        = card {sec \<in> {..< sm_total_sections s}. \<not> sm_free_secmap s sec}"
      using card_less[of "{..< sm_total_sections s}" ?c "\<lambda>sec. \<not> sm_free_secmap s sec"] c False by simp
    moreover have "sm_free_sections s = of_nat (card {sec \<in> {..< sm_total_sections s}. \<not> sm_free_secmap s sec})"
      using fr by (simp add: seg_free_def)
    ultimately have "sm_free_sections s - 1 = of_nat (card {sec. sec < sm_total_sections s \<and> \<not> sm_free_secmap ?s sec})"
      by (rule count_less)
    then show ?thesis using False by (simp add: set_inuse_fields)
  qed
  ultimately show ?thesis unfolding seg_free_def geo' by blast
qed

lemma set_inuse_other [simp]:
  "sm_log_blocks_per_seg (set_inuse g s) = sm_log_blocks_per_seg s" "sm_segs_per_sec (set_inuse g s) = sm_segs_per_sec s"
  "sm_secs_per_zone (set_inuse g s) = sm_secs_per_zone s" "sm_main_segments (set_inuse g s) = sm_main_segments s"
  "sm_total_sections (set_inuse g s) = sm_total_sections s" "sm_seg0_blkaddr (set_inuse g s) = sm_seg0_blkaddr s"
  "sm_start_segno (set_inuse g s) = sm_start_segno s" "sm_ssa_blkaddr (set_inuse g s) = sm_ssa_blkaddr s"
  "sm_sentries (set_inuse g s) = sm_sentries s" "sm_sec_valid (set_inuse g s) = sm_sec_valid s"
  "sm_dirty_sentries_bitmap (set_inuse g s) = sm_dirty_sentries_bitmap s"
  "sm_dirty_sentries (set_inuse g s) = sm_dirty_sentries s"
  "sm_written_valid_blocks (set_inuse g s) = sm_written_valid_blocks s"
  "sm_dirty_segmap (set_inuse g s) = sm_dirty_segmap s" "sm_nr_dirty (set_inuse g s) = sm_nr_dirty s"
  "sm_curseg (set_inuse g s) = sm_curseg s" "sm_sum_pages (set_inuse g s) = sm_sum_pages s"
  by (simp_all add: set_inuse_def Let_def)

lemma seg_base_set_inuse:
  assumes base: "seg_base s X" and g: "g < sm_main_segments s" "\<not> sm_free_segmap s g"
  shows "seg_base (set_inuse g s) (insert g X)"
proof -
  let ?s = "set_inuse g s"
  have eq: "vbit ?s = vbit s" "cbit ?s = cbit s" "IS_CURSEG ?s = IS_CURSEG s" "blocks_per_seg ?s = blocks_per_seg s"
    "section_of ?s = section_of s" "GET_ZONENO_FROM_SEGNO ?s = GET_ZONENO_FROM_SEGNO s"
    by (simp_all add: vbit_def cbit_def IS_CURSEG_def fun_eq_iff blocks_per_seg_def section_of_def GET_ZONENO_FROM_SEGNO_def)
  have "entry_ok ?s h" if "entry_ok s h" for h using that by (simp add: entry_ok_def eq set_inuse_fields)
  then have "seg_sit ?s" using base by (simp add: seg_base_def seg_sit_def eq)
  moreover have "seg_logs ?s" using base by (simp add: seg_base_def seg_logs_def eq set_inuse_fields)
  moreover have "seg_dirty ?s (insert g X)"
  proof -
    have "may_listed ?s h \<and> (h \<notin> insert g X \<longrightarrow> must_listed ?s h)" if "h \<in> segs s" for h
    proof -
      have "may_listed s h" "h \<notin> X \<Longrightarrow> must_listed s h" using base that by (auto simp: seg_base_def seg_dirty_def)
      moreover have "sm_free_segmap s h \<Longrightarrow> sm_free_segmap ?s h" "h \<noteq> g \<Longrightarrow> sm_free_segmap ?s h = sm_free_segmap s h"
        by (simp_all add: set_inuse_fields)
      ultimately show ?thesis unfolding may_listed_def must_listed_def eq set_inuse_other by blast
    qed
    then show ?thesis using base by (simp add: seg_base_def seg_dirty_def)
  qed
  moreover have "seg_geo ?s = seg_geo s" by (simp add: seg_geo_def eq)
  ultimately show ?thesis using base seg_free_set_inuse[of s g] g by (simp add: seg_base_def)
qed

text \<open>Fields of the logs other than the segments do not matter, nor do the summaries.\<close>

lemma seg_base_curseg:
  assumes "\<forall>t. cs_segno (c t) = cs_segno (curseg t s) \<and> cs_zone (c t) = cs_zone (curseg t s)"
  shows "seg_base (s\<lparr>sm_curseg := c, sm_sum_pages := p\<rparr>) X = seg_base s X"
proof -
  let ?s = "s\<lparr>sm_curseg := c, sm_sum_pages := p\<rparr>"
  have eq: "vbit ?s = vbit s" "cbit ?s = cbit s" "IS_CURSEG ?s = IS_CURSEG s" "blocks_per_seg ?s = blocks_per_seg s"
    "section_of ?s = section_of s" "GET_ZONENO_FROM_SEGNO ?s = GET_ZONENO_FROM_SEGNO s"
    using assms
    by (simp_all add: vbit_def cbit_def IS_CURSEG_def fun_eq_iff blocks_per_seg_def section_of_def GET_ZONENO_FROM_SEGNO_def)
  have "seg_geo ?s = seg_geo s" "seg_sit ?s = seg_sit s" "seg_free ?s = seg_free s"
    "may_listed ?s = may_listed s" "must_listed ?s = must_listed s"
    by (simp_all add: seg_geo_def seg_sit_def entry_ok_def seg_free_def may_listed_def must_listed_def fun_eq_iff eq)
  moreover have "seg_logs ?s = seg_logs s" using assms by (simp add: seg_logs_def eq)
  ultimately show ?thesis by (simp add: seg_base_def seg_dirty_def)
qed

lemma seg_base_upd_curseg:
  "(\<And>c. cs_segno (f c) = cs_segno c \<and> cs_zone (f c) = cs_zone c) \<Longrightarrow> seg_base (upd_curseg t f s) X = seg_base s X"
  using seg_base_curseg[of "(sm_curseg s)(t := f (sm_curseg s t))" s "sm_sum_pages s" X] by (simp add: upd_curseg_def)

lemma seg_base_write_sum [simp]: "seg_base (write_sum_page b a s) X = seg_base s X"
  using seg_base_curseg[of "sm_curseg s" s "(sm_sum_pages s)(a := b)" X] by (simp add: write_sum_page_def)

subsection \<open>Moving a log to another segment\<close>

definition fresh_log :: "nat \<Rightarrow> nat \<Rightarrow> f2fs_sm_info \<Rightarrow> curseg_info" where
  "fresh_log t g s = (curseg t s)\<lparr>cs_segno := g, cs_zone := GET_ZONENO_FROM_SEGNO s g, cs_next_blkoff := 0,
     cs_next_segno := NULL_SEGNO,
     cs_sum_blk := (cs_sum_blk (curseg t s))\<lparr>sum_footer_type :=
       (if IS_NODESEG t then SUM_TYPE_NODE else if IS_DATASEG t then SUM_TYPE_DATA else 0)\<rparr>\<rparr>"

definition move_log :: "nat \<Rightarrow> nat \<Rightarrow> bool \<Rightarrow> f2fs_sm_info \<Rightarrow> f2fs_sm_info" where
  "move_log t g modified s = s\<lparr>sm_curseg := (sm_curseg s)(t := fresh_log t g s),
     sm_sentries := (sm_sentries s)(g := (sm_sentries s g)\<lparr>se_type := t\<rparr>),
     sm_dirty_sentries_bitmap := (sm_dirty_sentries_bitmap s)(g := modified \<or> sm_dirty_sentries_bitmap s g),
     sm_dirty_sentries := (if modified \<and> \<not> sm_dirty_sentries_bitmap s g then sm_dirty_sentries s + 1 else sm_dirty_sentries s)\<rparr>"

lemma reset_curseg_eq:
  "cs_next_segno (curseg t s) < sm_main_segments s \<Longrightarrow>
   reset_curseg t modified s = Some (move_log t (cs_next_segno (curseg t s)) modified s)"
  by (auto simp: reset_curseg_def set_sit_entry_type_def move_log_def fresh_log_def get_seg_entry_def upd_curseg_def
      mark_sit_entry_dirty_def Let_def fun_upd_idem)

lemma move_log_other [simp]:
  "sm_log_blocks_per_seg (move_log t g m s) = sm_log_blocks_per_seg s" "sm_segs_per_sec (move_log t g m s) = sm_segs_per_sec s"
  "sm_secs_per_zone (move_log t g m s) = sm_secs_per_zone s" "sm_main_segments (move_log t g m s) = sm_main_segments s"
  "sm_total_sections (move_log t g m s) = sm_total_sections s" "sm_seg0_blkaddr (move_log t g m s) = sm_seg0_blkaddr s"
  "sm_start_segno (move_log t g m s) = sm_start_segno s" "sm_ssa_blkaddr (move_log t g m s) = sm_ssa_blkaddr s"
  "sm_sec_valid (move_log t g m s) = sm_sec_valid s" "sm_written_valid_blocks (move_log t g m s) = sm_written_valid_blocks s"
  "sm_free_segmap (move_log t g m s) = sm_free_segmap s" "sm_free_secmap (move_log t g m s) = sm_free_secmap s"
  "sm_free_segments (move_log t g m s) = sm_free_segments s" "sm_free_sections (move_log t g m s) = sm_free_sections s"
  "sm_dirty_segmap (move_log t g m s) = sm_dirty_segmap s" "sm_nr_dirty (move_log t g m s) = sm_nr_dirty s"
  "sm_sum_pages (move_log t g m s) = sm_sum_pages s"
  "sm_curseg (move_log t g m s) = (sm_curseg s)(t := fresh_log t g s)"
  "vbit (move_log t g m s) = vbit s" "cbit (move_log t g m s) = cbit s"
  "nvalid (move_log t g m s) h = nvalid s h"
  "se_type (sm_sentries (move_log t g m s) h) = (if h = g then t else se_type (sm_sentries s h))"
  by (auto simp: move_log_def vbit_def cbit_def fun_eq_iff)

lemma seg_base_move_log:
  assumes base: "seg_base s X" and t: "t < NR_CURSEG_TYPE" and g: "g < sm_main_segments s" "sm_free_segmap s g"
    and new: "\<not> IS_CURSEG s g" "\<not> sm_dirty_segmap s PRE g" "\<not> sm_dirty_segmap s DIRTY g"
  shows "seg_base (move_log t g m s) (insert (cs_segno (curseg t s)) (X - {g}))"
proof -
  let ?s = "move_log t g m s" and ?old = "cs_segno (curseg t s)"
  have bps: "blocks_per_seg ?s = blocks_per_seg s" "section_of ?s = section_of s"
      "GET_ZONENO_FROM_SEGNO ?s = GET_ZONENO_FROM_SEGNO s"
    by (simp_all add: blocks_per_seg_def section_of_def GET_ZONENO_FROM_SEGNO_def fun_eq_iff)
  have log: "fresh_log t g s = f" if "f = fresh_log t g s" for f by (simp add: that)
  have old: "?old < sm_main_segments s" "?old \<noteq> g" "sm_free_segmap s ?old"
    using base t new(1) by (auto simp: seg_base_def seg_logs_def IS_CURSEG_iff)
  have cur: "IS_CURSEG ?s h \<longleftrightarrow> h = g \<or> h \<noteq> ?old \<and> IS_CURSEG s h" for h
  proof
    assume "IS_CURSEG ?s h"
    then obtain u where u: "u < NR_CURSEG_TYPE" "h = cs_segno (curseg u ?s)" by (auto simp: IS_CURSEG_iff)
    show "h = g \<or> h \<noteq> ?old \<and> IS_CURSEG s h"
    proof (cases "u = t")
      case False
      then have h: "h = cs_segno (curseg u s)" using u by simp
      then have "se_type (sm_sentries s h) = u" using base u(1) by (simp add: seg_base_def seg_logs_def)
      moreover have "se_type (sm_sentries s ?old) = t" using base t by (simp add: seg_base_def seg_logs_def)
      ultimately show ?thesis using False h u(1) by (auto simp: IS_CURSEG_iff)
    qed (use u in \<open>simp add: fresh_log_def\<close>)
  next
    assume h: "h = g \<or> h \<noteq> ?old \<and> IS_CURSEG s h"
    show "IS_CURSEG ?s h"
    proof (cases "h = g")
      case True
      then show ?thesis using t by (auto simp: IS_CURSEG_iff fresh_log_def intro!: exI[of _ t])
    next
      case False
      then obtain u where "u < NR_CURSEG_TYPE" "h = cs_segno (curseg u s)" "u \<noteq> t" using h by (auto simp: IS_CURSEG_iff)
      then show ?thesis by (auto simp: IS_CURSEG_iff intro!: exI[of _ u])
    qed
  qed
  have "seg_geo ?s = seg_geo s" by (simp add: seg_geo_def bps)
  then have "seg_geo ?s" using base by (simp add: seg_base_def)
  moreover have "seg_free ?s" using base by (simp add: seg_base_def seg_free_def bps)
  moreover have "seg_sit ?s"
  proof -
    have "entry_ok ?s h" if "entry_ok s h" for h
      using that t by (auto simp: entry_ok_def bps) (auto simp: move_log_def split: if_splits)
    moreover have "sm_dirty_sentries ?s = of_nat (card {h \<in> segs s. sm_dirty_sentries_bitmap ?s h})"
    proof (cases "m \<and> \<not> sm_dirty_sentries_bitmap s g")
      case True
      have "{h \<in> segs s. sm_dirty_sentries_bitmap ?s h} = {h \<in> segs s. h = g \<or> sm_dirty_sentries_bitmap s h}"
        using True by (auto simp: move_log_def)
      then show ?thesis using base True g card_more[of "segs s" g "sm_dirty_sentries_bitmap s"]
        by (simp add: seg_base_def seg_sit_def) (simp add: move_log_def)
    next
      case False
      then have "sm_dirty_sentries_bitmap ?s = sm_dirty_sentries_bitmap s" by (auto simp: move_log_def fun_eq_iff)
      then show ?thesis using base False by (simp add: seg_base_def seg_sit_def) (simp add: move_log_def)
    qed
    ultimately show ?thesis using base by (simp add: seg_base_def seg_sit_def bps)
  qed
  moreover have "seg_logs ?s"
    unfolding seg_logs_def
  proof (intro allI impI)
    fix u assume u: "u < NR_CURSEG_TYPE"
    then have "cs_segno (curseg u s) \<noteq> g" using new(1) by (auto simp: IS_CURSEG_iff)
    then show "cs_segno (curseg u ?s) < sm_main_segments ?s \<and> sm_free_segmap ?s (cs_segno (curseg u ?s))
        \<and> cs_zone (curseg u ?s) = GET_ZONENO_FROM_SEGNO ?s (cs_segno (curseg u ?s))
        \<and> se_type (sm_sentries ?s (cs_segno (curseg u ?s))) = u"
      using base u g by (auto simp: seg_base_def seg_logs_def bps fresh_log_def)
  qed
  moreover have "seg_dirty ?s (insert ?old (X - {g}))"
  proof -
    have "may_listed ?s h \<and> (h \<notin> insert ?old (X - {g}) \<longrightarrow> must_listed ?s h)" if h: "h \<in> segs s" for h
    proof -
      have ok: "may_listed s h" "h \<notin> X \<Longrightarrow> must_listed s h" using base h by (auto simp: seg_base_def seg_dirty_def)
      show ?thesis
      proof (cases "h = g")
        case True
        then show ?thesis using ok(1) new by (auto simp: may_listed_def must_listed_def cur bps)
      next
        case False
        then show ?thesis using ok by (auto simp: may_listed_def must_listed_def cur bps)
      qed
    qed
    then show ?thesis using base by (simp add: seg_base_def seg_dirty_def bps)
  qed
  ultimately show ?thesis by (simp add: seg_base_def)
qed

end
