(* ===== verification/F2fsSegmentSpec.thy ===== *)
theory F2fsSegmentSpec
  imports F2fsCursegInv
begin

unbundle bit_operations_syntax

text \<open>
  Allocating, releasing and recovering blocks keeps the segment manager consistent. Seen from
  outside the segment manager is a map from block addresses to summaries, the owners of the valid
  blocks: an allocation replaces one entry of it.
\<close>

subsection \<open>Frames\<close>

definition same_geo :: "f2fs_sm_info \<Rightarrow> f2fs_sm_info \<Rightarrow> bool" where
  "same_geo s s' \<longleftrightarrow> sm_log_blocks_per_seg s' = sm_log_blocks_per_seg s \<and> sm_segs_per_sec s' = sm_segs_per_sec s
     \<and> sm_secs_per_zone s' = sm_secs_per_zone s \<and> sm_main_segments s' = sm_main_segments s
     \<and> sm_total_sections s' = sm_total_sections s \<and> sm_seg0_blkaddr s' = sm_seg0_blkaddr s
     \<and> sm_start_segno s' = sm_start_segno s \<and> sm_ssa_blkaddr s' = sm_ssa_blkaddr s"

lemma same_geo_refl [simp]: "same_geo s s"
  by (simp add: same_geo_def)

lemma same_geo_trans: "same_geo s s1 \<Longrightarrow> same_geo s1 s2 \<Longrightarrow> same_geo s s2"
  by (simp add: same_geo_def)

lemma same_geoD:
  assumes "same_geo s s'"
  shows "GET_SEGNO s' = GET_SEGNO s" "GET_BLKOFF_FROM_SEG0 s' = GET_BLKOFF_FROM_SEG0 s" "blk_at s' = blk_at s"
    "START_BLOCK s' = START_BLOCK s" "GET_SUM_BLOCK s' = GET_SUM_BLOCK s" "blocks_per_seg s' = blocks_per_seg s"
    "sm_main_segments s' = sm_main_segments s" "seg_geo s' = seg_geo s" "sm_total_sections s' = sm_total_sections s"
  using assms
  by (auto simp: same_geo_def GET_SEGNO_def GET_BLKOFF_FROM_SEG0_def blk_at_def START_BLOCK_def GET_SUM_BLOCK_def
      blocks_per_seg_def seg_geo_def fun_eq_iff)

lemma same_geo_sit_upd [simp]: "same_geo s (sit_upd g i d s)"
  by (simp add: same_geo_def sit_frameD[OF sit_upd_frame])

lemma same_geo_dirty: "dirty_frame s s' \<Longrightarrow> same_geo s s'"
  by (simp add: same_geo_def dirty_frameD)

lemma seg_base_mono: "seg_base s X \<Longrightarrow> X \<subseteq> Y \<Longrightarrow> seg_base s Y"
  by (auto simp: seg_base_def seg_dirty_def)

lemma next_ok_mono:
  assumes "next_ok s t" "curseg t s' = curseg t s" "blocks_per_seg s' = blocks_per_seg s"
    "\<And>i. cs_next_blkoff (curseg t s) \<le> i \<Longrightarrow> i < blocks_per_seg s \<Longrightarrow>
       vbit s' (cs_segno (curseg t s)) i \<or> cbit s' (cs_segno (curseg t s)) i \<Longrightarrow>
       vbit s (cs_segno (curseg t s)) i \<or> cbit s (cs_segno (curseg t s)) i"
  shows "next_ok s' t"
  using assms unfolding next_ok_def Let_def by (metis order_refl)

subsection \<open>A new segment for a log\<close>

lemma new_curseg_ok:
  assumes base: "seg_base s X" and t: "t < NR_CURSEG_TYPE" and f: "free_section s sec"
  shows "\<exists>g s'. new_curseg t new_sec s = Some s' \<and> g < sm_main_segments s \<and> \<not> sm_free_segmap s g
    \<and> seg_base s' (insert (cs_segno (curseg t s)) X) \<and> same_geo s s' \<and> vbit s' = vbit s \<and> cbit s' = cbit s
    \<and> sm_dirty_segmap s' = sm_dirty_segmap s \<and> sm_free_segmap s' = (sm_free_segmap s)(g := True)
    \<and> (\<forall>u. u \<noteq> t \<longrightarrow> curseg u s' = curseg u s) \<and> cs_segno (curseg t s') = g \<and> next_ok s' t
    \<and> sum_entries (cs_sum_blk (curseg t s')) = sum_entries (cs_sum_blk (curseg t s))
    \<and> sm_sum_pages s' = (sm_sum_pages s)(GET_SUM_BLOCK s (cs_segno (curseg t s)) := cs_sum_blk (curseg t s))"
proof -
  let ?old = "cs_segno (curseg t s)"
  let ?s1 = "write_sum_page (cs_sum_blk (curseg t s)) (GET_SUM_BLOCK s ?old) s"
  let ?dir = "if sm_noheap s \<or> t = CURSEG_WARM_DATA \<or> t = CURSEG_COLD_DATA then ALLOC_RIGHT else ALLOC_LEFT"
  have base1: "seg_base ?s1 X" using base by simp
  have w: "sm_total_sections ?s1 = sm_total_sections s" "sm_main_segments ?s1 = sm_main_segments s"
      "sm_free_secmap ?s1 = sm_free_secmap s" "sm_free_segmap ?s1 = sm_free_segmap s" "sm_curseg ?s1 = sm_curseg s"
      "sm_sentries ?s1 = sm_sentries s" "sm_dirty_segmap ?s1 = sm_dirty_segmap s"
    by (simp_all add: write_sum_page_def)
  have old: "?old < sm_main_segments s" using base t by (simp add: seg_base_def seg_logs_def)
  obtain g where g: "get_new_segment ?old new_sec ?dir ?s1 = Some (g, set_inuse g ?s1)" "g < sm_main_segments s" "\<not> sm_free_segmap s g"
    using get_new_segment_ok[of ?s1 sec ?old new_sec ?dir] base1 f old by (auto simp: seg_base_def free_section_def w)
  let ?s2 = "upd_curseg t (\<lambda>c. c\<lparr>cs_next_segno := g\<rparr>) (set_inuse g ?s1)"
  have base2: "seg_base ?s2 (insert g X)"
    using seg_base_set_inuse[OF base1, of g] g by (subst seg_base_upd_curseg) (auto simp: w)
  have cur2: "IS_CURSEG ?s2 h = IS_CURSEG s h" for h by (auto simp: IS_CURSEG_iff upd_curseg_def w)
  have "\<not> IS_CURSEG s g" using base g(3) by (auto simp: IS_CURSEG_iff seg_base_def seg_logs_def)
  moreover have "may_listed s g" using base g(2) by (simp add: seg_base_def seg_dirty_def)
  ultimately have new: "\<not> IS_CURSEG ?s2 g" "\<not> sm_dirty_segmap ?s2 PRE g" "\<not> sm_dirty_segmap ?s2 DIRTY g"
    using g(3) by (auto simp: cur2 may_listed_def) (auto simp: upd_curseg_def w)
  let ?s3 = "move_log t g True ?s2"
  let ?s4 = "upd_curseg t (\<lambda>c. c\<lparr>cs_alloc_type := LFS\<rparr>) ?s3"
  have res: "new_curseg t new_sec s = Some ?s4"
    using g reset_curseg_eq[of ?s2 t True] by (simp add: new_curseg_def Let_def upd_curseg_def w)
  have "seg_base ?s3 (insert ?old X)"
    by (rule seg_base_mono[OF seg_base_move_log[OF base2 t _ _ new]])
      (use g in \<open>auto simp: upd_curseg_def w set_inuse_fields\<close>)
  then have base4: "seg_base ?s4 (insert ?old X)" by (subst seg_base_upd_curseg) auto
  have bits: "vbit ?s4 = vbit s" "cbit ?s4 = cbit s" "same_geo s ?s4"
    by (auto simp: fun_eq_iff vbit_def cbit_def upd_curseg_def move_log_def write_sum_page_def same_geo_def)
  have empty: "\<forall>i < blocks_per_seg s. \<not> vbit s g i \<and> \<not> cbit s g i"
    using base g(2,3) by (auto simp: seg_base_def seg_sit_def entry_ok_def)
  have bps: "0 < blocks_per_seg s" by (simp add: blocks_per_seg_def)
  have n: "next_ok ?s4 t"
    using empty bps unfolding next_ok_def Let_def bits same_geoD[OF bits(3)]
    by (simp add: upd_curseg_def fresh_log_def)
  have "sum_entries (cs_sum_blk (curseg t ?s4)) = sum_entries (cs_sum_blk (curseg t s))"
       "cs_segno (curseg t ?s4) = g" "\<forall>u. u \<noteq> t \<longrightarrow> curseg u ?s4 = curseg u s"
       "sm_sum_pages ?s4 = (sm_sum_pages s)(GET_SUM_BLOCK s ?old := cs_sum_blk (curseg t s))"
       "sm_dirty_segmap ?s4 = sm_dirty_segmap s" "sm_free_segmap ?s4 = (sm_free_segmap s)(g := True)"
    by (auto simp: upd_curseg_def fresh_log_def write_sum_page_def set_inuse_fields)
  then show ?thesis using res g base4 bits n by blast
qed

lemma allocate_segment_eq: "\<exists>b. allocate_segment_by_default t force s = new_curseg t b s"
  by (auto simp: allocate_segment_by_default_def)

subsection \<open>The validity of blocks\<close>

lemma may_listed_cong:
  assumes "IS_CURSEG s' h = IS_CURSEG s h" "sm_free_segmap s' h = sm_free_segmap s h" "sm_dirty_segmap s' = sm_dirty_segmap s"
    "se_type (sm_sentries s' h) = se_type (sm_sentries s h)" "nvalid s' h = nvalid s h \<or> \<not> sm_dirty_segmap s PRE h"
    and may: "may_listed s h"
  shows "may_listed s' h"
proof -
  have a: "sm_dirty_segmap s PRE h \<longrightarrow> nvalid s h = 0"
    and bc: "(\<forall>t < DIRTY. sm_dirty_segmap s t h \<longleftrightarrow> t = se_type (sm_sentries s h) \<and> sm_dirty_segmap s DIRTY h)
      \<and> ((IS_CURSEG s h \<or> \<not> sm_free_segmap s h) \<longrightarrow> \<not> sm_dirty_segmap s PRE h \<and> \<not> sm_dirty_segmap s DIRTY h)"
    using may unfolding may_listed_def by blast+
  have "sm_dirty_segmap s PRE h \<longrightarrow> nvalid s' h = 0" using a assms(5) by auto
  then show ?thesis using bc unfolding may_listed_def assms(1-4) by blast
qed

lemma seg_base_sit_upd:
  assumes base: "seg_base s X" and g: "g < sm_main_segments s" and i: "i < blocks_per_seg s" and inuse: "sm_free_segmap s g"
    and del: "del = 1 \<and> \<not> vbit s g i \<and> \<not> sm_dirty_segmap s PRE g \<or> del = - 1 \<and> vbit s g i"
  shows "seg_base (sit_upd g i del s) (insert g X)"
proof -
  let ?s = "sit_upd g i del s"
  note fr = sit_frameD[OF sit_upd_frame, of g i del s]
  have eq: "IS_CURSEG ?s = IS_CURSEG s" "GET_ZONENO_FROM_SEGNO ?s = GET_ZONENO_FROM_SEGNO s" "section_of ?s = section_of s"
    by (simp_all add: IS_CURSEG_def GET_ZONENO_FROM_SEGNO_def section_of_def fun_eq_iff fr)
  have pre: "\<not> sm_dirty_segmap s PRE g"
    using del
  proof
    assume "del = - 1 \<and> vbit s g i"
    then have "0 < nvalid s g" using base g i nvalid_pos[of s g i] by (simp add: seg_base_def)
    then show ?thesis using base g by (auto simp: seg_base_def seg_dirty_def may_listed_def)
  qed simp
  have "seg_sit ?s" using base seg_sit_upd[OF _ _ g i inuse, of del] del by (auto simp: seg_base_def)
  moreover have "seg_geo ?s = seg_geo s" "seg_free ?s = seg_free s" "seg_logs ?s = seg_logs s"
    by (simp_all add: seg_geo_def seg_free_def seg_logs_def fr eq)
  moreover have "seg_dirty ?s (insert g X)"
  proof -
    have "may_listed ?s h \<and> (h \<notin> insert g X \<longrightarrow> must_listed ?s h)" if "h \<in> segs s" for h
    proof -
      have "may_listed s h" "h \<notin> X \<Longrightarrow> must_listed s h" using base that by (auto simp: seg_base_def seg_dirty_def)
      moreover have "may_listed ?s h" if "may_listed s h"
        by (rule may_listed_cong[OF _ _ _ _ _ that]) (use pre in \<open>auto simp: fr eq\<close>)
      moreover have "must_listed ?s h = must_listed s h" if "h \<noteq> g"
        using that by (simp add: must_listed_def fr eq)
      ultimately show ?thesis by blast
    qed
    then show ?thesis using base by (simp add: seg_base_def seg_dirty_def fr)
  qed
  ultimately show ?thesis using base by (simp add: seg_base_def)
qed

text \<open>A block address that may be given as the old one: none, or a valid block.\<close>

definition blk_valid :: "f2fs_sm_info \<Rightarrow> u32 \<Rightarrow> bool" where
  "blk_valid s b \<longleftrightarrow> GET_SEGNO s b < sm_main_segments s \<and> vbit s (GET_SEGNO s b) (GET_BLKOFF_FROM_SEG0 s b)"

definition blk_ckpt_valid :: "f2fs_sm_info \<Rightarrow> u32 \<Rightarrow> bool" where
  "blk_ckpt_valid s b \<longleftrightarrow> GET_SEGNO s b < sm_main_segments s \<and> cbit s (GET_SEGNO s b) (GET_BLKOFF_FROM_SEG0 s b)"

definition no_block :: "u32 \<Rightarrow> bool" where
  "no_block b \<longleftrightarrow> b = NULL_ADDR \<or> b = NEW_ADDR"

lemma GET_SEGNO_no_block [simp]: "no_block b \<Longrightarrow> GET_SEGNO s b = NULL_SEGNO"
  by (auto simp: no_block_def GET_SEGNO_def)

lemma valid_inuse:
  assumes "seg_sit s" "g < sm_main_segments s" "i < blocks_per_seg s" "vbit s g i \<or> cbit s g i"
  shows "sm_free_segmap s g"
  using assms by (auto simp: seg_sit_def entry_ok_def)

lemma blk_valid_at:
  assumes geo: "seg_geo s" and v: "blk_valid s b"
  obtains g i where "b = blk_at s g i" "g < sm_main_segments s" "i < blocks_per_seg s" "vbit s g i"
    "GET_SEGNO s b = g" "GET_BLKOFF_FROM_SEG0 s b = i"
  using that[of "GET_SEGNO s b" "GET_BLKOFF_FROM_SEG0 s b"] blk_at_GET[OF geo, of b] GET_BLKOFF_less[OF geo, of b] v
  by (simp add: blk_valid_def)

lemma blk_valid_blk_at:
  "seg_geo s \<Longrightarrow> g < sm_main_segments s \<Longrightarrow> i < blocks_per_seg s \<Longrightarrow> blk_valid s (blk_at s g i) = vbit s g i"
  by (simp add: blk_valid_def)

lemma blk_valid_not_no_block: "seg_geo s \<Longrightarrow> blk_valid s b \<Longrightarrow> \<not> no_block b \<and> GET_SEGNO s b \<noteq> NULL_SEGNO"
  using main_bound[of s] by (auto simp: blk_valid_def)

text \<open>From \<open>s\<close> to \<open>s'\<close> the blocks \<open>V\<close> are the valid ones now; the logs and summaries are those of before.\<close>

definition revalidated :: "(nat \<Rightarrow> nat \<Rightarrow> bool) \<Rightarrow> f2fs_sm_info \<Rightarrow> f2fs_sm_info \<Rightarrow> bool" where
  "revalidated V s s' \<longleftrightarrow> same_geo s s' \<and> vbit s' = V \<and> cbit s' = cbit s \<and> sm_curseg s' = sm_curseg s
     \<and> sm_sum_pages s' = sm_sum_pages s \<and> sm_free_segmap s' = sm_free_segmap s"

lemma revalidated_sit_upd: "revalidated (\<lambda>h j. if h = g \<and> j = i then 0 < d else vbit s h j) s (sit_upd g i d s)"
  by (simp add: revalidated_def fun_eq_iff vbit_sit_upd sit_frameD[OF sit_upd_frame])

lemma revalidated_dirty: "dirty_frame s s' \<Longrightarrow> revalidated (vbit s) s s'"
  by (simp add: revalidated_def same_geo_dirty dirty_frame_parts dirty_frameD)

lemma revalidated_trans: "revalidated V s s1 \<Longrightarrow> revalidated W s1 s2 \<Longrightarrow> revalidated W s s2"
  by (auto simp: revalidated_def intro: same_geo_trans)

lemma revalidated_dirty_after: "revalidated V s s1 \<Longrightarrow> dirty_frame s1 s2 \<Longrightarrow> revalidated V s s2"
proof -
  assume r: "revalidated V s s1" and d: "dirty_frame s1 s2"
  have "vbit s1 = V" using r by (simp add: revalidated_def)
  then show ?thesis using revalidated_trans[OF r revalidated_dirty[OF d]] by simp
qed

text \<open>Releasing a block.\<close>

lemma release_block_ok:
  assumes base: "seg_base s X" and v: "blk_valid s b"
  shows "\<exists>s1. update_sit_entry b (- 1) s = Some s1 \<and> seg_base s1 (insert (GET_SEGNO s b) X)
    \<and> revalidated (\<lambda>h j. vbit s h j \<and> \<not> (h = GET_SEGNO s b \<and> j = GET_BLKOFF_FROM_SEG0 s b)) s s1"
proof -
  have geo: "seg_geo s" and sit: "seg_sit s" using base by (auto simp: seg_base_def)
  obtain g i where b: "b = blk_at s g i" "g < sm_main_segments s" "i < blocks_per_seg s" "vbit s g i"
      "GET_SEGNO s b = g" "GET_BLKOFF_FROM_SEG0 s b = i" by (rule blk_valid_at[OF geo v])
  have use: "sm_free_segmap s g" using valid_inuse[OF sit b(2,3)] b(4) by blast
  have "update_sit_entry b (- 1) s = Some (sit_upd g i (- 1) s)"
    unfolding b(1) using update_sit_entry_eq[OF geo sit b(2,3)] b(4) by simp
  moreover have "seg_base (sit_upd g i (- 1) s) (insert g X)" using seg_base_sit_upd[OF base b(2,3) use] b(4) by simp
  moreover have "revalidated (\<lambda>h j. vbit s h j \<and> \<not> (h = g \<and> j = i)) s (sit_upd g i (- 1) s)"
    by (simp add: revalidated_def fun_eq_iff vbit_sit_upd sit_frameD[OF sit_upd_frame])
  ultimately show ?thesis using b(5,6) by blast
qed

lemma refresh_sit_entry_ok:
  assumes base: "seg_base s X" and g: "g < sm_main_segments s" and i: "i < blocks_per_seg s"
    and new: "\<not> vbit s g i" "sm_free_segmap s g" "\<not> sm_dirty_segmap s PRE g" and old: "no_block old \<or> blk_valid s old"
  shows "\<exists>s'. refresh_sit_entry old (blk_at s g i) s = Some s' \<and> seg_base s' (X - {g})
    \<and> revalidated (\<lambda>h j. h = g \<and> j = i \<or> vbit s h j \<and> \<not> (\<not> no_block old \<and> h = GET_SEGNO s old \<and> j = GET_BLKOFF_FROM_SEG0 s old)) s s'"
proof -
  let ?b = "blk_at s g i" and ?s1 = "sit_upd g i 1 s" and ?go = "GET_SEGNO s old"
  have geo: "seg_geo s" and sit: "seg_sit s" using base by (auto simp: seg_base_def)
  have 1: "update_sit_entry ?b 1 s = Some ?s1" "seg_base ?s1 (insert g X)"
    using update_sit_entry_eq[OF geo sit g i, of 1] seg_base_sit_upd[OF base g i new(2), of 1] new by auto
  have r1: "revalidated (\<lambda>h j. h = g \<and> j = i \<or> vbit s h j) s ?s1"
    by (auto simp: revalidated_def fun_eq_iff vbit_sit_upd sit_frameD[OF sit_upd_frame])
  have gb: "GET_SEGNO s ?b = g" using geo g i by simp
  let ?V = "\<lambda>h j. h = g \<and> j = i \<or> vbit s h j \<and> \<not> (\<not> no_block old \<and> h = ?go \<and> j = GET_BLKOFF_FROM_SEG0 s old)"
  obtain s2 where s2: "(if ?go \<noteq> NULL_SEGNO then update_sit_entry old (- 1) ?s1 else Some ?s1) = Some s2"
      "seg_base s2 (insert ?go (insert g X))" "revalidated ?V s s2" "?go = NULL_SEGNO \<or> ?go < sm_main_segments s \<and> sm_free_segmap s ?go"
  proof (cases "no_block old")
    case True
    then show ?thesis using that[of ?s1] 1 r1 seg_base_mono[OF 1(2), of "insert ?go (insert g X)"] by (simp add: subset_insertI)
  next
    case False
    then have v: "blk_valid s old" using old by simp
    obtain go io where o: "old = blk_at s go io" "go < sm_main_segments s" "io < blocks_per_seg s" "vbit s go io"
        "GET_SEGNO s old = go" "GET_BLKOFF_FROM_SEG0 s old = io" by (rule blk_valid_at[OF geo v])
    have ne: "go \<noteq> NULL_SEGNO" using main_bound[OF geo] o(2) by auto
    have v1: "blk_valid ?s1 old"
      using o by (simp add: blk_valid_def same_geoD[OF same_geo_sit_upd] vbit_sit_upd)
    from release_block_ok[OF 1(2) v1] obtain s2 where s2: "update_sit_entry old (- 1) ?s1 = Some s2"
        "seg_base s2 (insert go (insert g X))"
        "revalidated (\<lambda>h j. vbit ?s1 h j \<and> \<not> (h = go \<and> j = io)) ?s1 s2"
      by (auto simp: same_geoD[OF same_geo_sit_upd] o(5,6))
    have "revalidated (\<lambda>h j. vbit ?s1 h j \<and> \<not> (h = go \<and> j = io)) s s2" by (rule revalidated_trans[OF r1 s2(3)])
    moreover have "(\<lambda>h j. vbit ?s1 h j \<and> \<not> (h = go \<and> j = io)) = ?V"
      using False o(4-6) new(1) by (auto simp: fun_eq_iff vbit_sit_upd)
    ultimately show ?thesis using that[of s2] s2 o(2,5) ne valid_inuse[OF sit o(2,3)] o(4) by simp
  qed
  have f2: "sm_main_segments s2 = sm_main_segments s" "sm_free_segmap s2 = sm_free_segmap s"
    using s2(3) by (auto simp: revalidated_def same_geoD)
  obtain s3 where s3: "locate_dirty_segment ?go s2 = Some s3" "dirty_frame s2 s3" "seg_base s3 (insert ?go (insert g X) - {?go})"
    using locate_dirty_segment_ok[OF s2(2), of ?go] s2(4) f2 by auto
  obtain s4 where s4: "locate_dirty_segment g s3 = Some s4" "dirty_frame s3 s4" "seg_base s4 (insert ?go (insert g X) - {?go} - {g})"
    using locate_dirty_segment_ok[OF s3(3), of g] g new(2) f2 dirty_frameD[OF s3(2)] by auto
  have "revalidated ?V s s4" by (rule revalidated_dirty_after[OF revalidated_dirty_after[OF s2(3) s3(2)] s4(2)])
  moreover have "seg_base s4 (X - {g})" by (rule seg_base_mono[OF s4(3)]) auto
  moreover have "refresh_sit_entry old ?b s = Some s4"
    using 1(1) s2(1) s3(1) s4(1) by (simp add: refresh_sit_entry_def gb same_geoD[OF same_geo_sit_upd])
  ultimately show ?thesis by blast
qed

subsection \<open>The next block of a log\<close>

lemma rev_bit_or: "rev_bit (\<lambda>i. f i OR g i) n \<longleftrightarrow> rev_bit f n \<or> rev_bit g n"
  by (simp add: rev_bit_def rbit_def bit_or_iff)

lemma next_free_blkoff_eq:
  assumes "seg_geo s"
  shows "next_free_blkoff s g start = find_next_zero_bit (\<lambda>i. cbit s g i \<or> vbit s g i) (blocks_per_seg s) start"
proof -
  have "rev_bit (\<lambda>i. load_long (se_ckpt_map (sm_sentries s g)) i OR load_long (se_cur_map (sm_sentries s g)) i)
      = (\<lambda>i. cbit s g i \<or> vbit s g i)"
    by (simp only: fun_eq_iff rev_bit_or rev_bit_load cbit_def vbit_def simp_thms)
  then show ?thesis unfolding next_free_blkoff_def Let_def find_rev_next_zero_bit_eq[OF bps_dvd[OF assms]] by simp
qed

definition after_add :: "nat \<Rightarrow> seg_summary \<Rightarrow> f2fs_sm_info \<Rightarrow> f2fs_sm_info" where
  "after_add t sm s = refresh_next_blkoff t (add_sum_entry t sm s)"

lemma after_add_other:
  "u \<noteq> t \<Longrightarrow> curseg u (after_add t sm s) = curseg u s"
  "cs_segno (curseg u (after_add t sm s)) = cs_segno (curseg u s)"
  "cs_zone (curseg u (after_add t sm s)) = cs_zone (curseg u s)"
  "cs_alloc_type (curseg u (after_add t sm s)) = cs_alloc_type (curseg u s)"
  "sum_entries (cs_sum_blk (curseg t (after_add t sm s)))
     = (sum_entries (cs_sum_blk (curseg t s)))(cs_next_blkoff (curseg t s) := sm)"
  "sm_sum_pages (after_add t sm s) = sm_sum_pages s" "sm_free_secmap (after_add t sm s) = sm_free_secmap s"
  "sm_free_segmap (after_add t sm s) = sm_free_segmap s" "sm_dirty_segmap (after_add t sm s) = sm_dirty_segmap s"
  "vbit (after_add t sm s) = vbit s" "cbit (after_add t sm s) = cbit s" "same_geo s (after_add t sm s)"
  "seg_base (after_add t sm s) X = seg_base s X"
  by (auto simp: after_add_def refresh_next_blkoff_def add_sum_entry_def vbit_def cbit_def fun_eq_iff same_geo_def seg_base_upd_curseg)
    (auto simp: upd_curseg_def)

lemma after_add_next:
  assumes geo: "seg_geo s" and ok: "next_ok s t"
  shows "cs_next_blkoff (curseg t s) < cs_next_blkoff (curseg t (after_add t sm s))"
    and "has_curseg_space t (after_add t sm s) \<Longrightarrow> next_ok (after_add t sm s) t"
proof -
  let ?c = "curseg t s" and ?s = "after_add t sm s"
  let ?u = "\<lambda>i. cbit s (cs_segno ?c) i \<or> vbit s (cs_segno ?c) i"
  let ?n = "cs_next_blkoff ?c" and ?m = "cs_next_blkoff (curseg t ?s)"
  have bps: "blocks_per_seg ?s = blocks_per_seg s" using same_geoD[OF after_add_other(12)] by simp
  have lt: "?n < blocks_per_seg s" using ok by (simp add: next_ok_def Let_def)
  have "?n < ?m \<and> (has_curseg_space t ?s \<longrightarrow> next_ok ?s t)"
  proof (cases "cs_alloc_type ?c = SSR")
    case True
    have m: "?m = find_next_zero_bit ?u (blocks_per_seg s) (?n + 1)"
    proof -
      have "same_geo s (add_sum_entry t sm s)" by (simp add: same_geo_def add_sum_entry_def upd_curseg_def)
      then have "seg_geo (add_sum_entry t sm s)" using geo same_geoD by simp
      then
      have "next_free_blkoff (add_sum_entry t sm s) (cs_segno ?c) (?n + 1) = find_next_zero_bit ?u (blocks_per_seg s) (?n + 1)"
        by (subst next_free_blkoff_eq)
          (simp_all add: add_sum_entry_def upd_curseg_def blocks_per_seg_def cbit_def vbit_def)
      then show ?thesis using True by (simp add: after_add_def refresh_next_blkoff_def) (simp add: upd_curseg_def add_sum_entry_def)
    qed
    have "?n < ?m"
      using find_next_bit_cases[of "blocks_per_seg s" "\<lambda>i. \<not> ?u i" "?n + 1"] lt unfolding m find_next_zero_bit_def by auto
    moreover have "\<not> ?u ?m" if "?m < blocks_per_seg s"
      using find_next_bit_cases[of "blocks_per_seg s" "\<lambda>i. \<not> ?u i" "?n + 1"] that unfolding m find_next_zero_bit_def by auto
    ultimately show ?thesis using True by (auto simp: next_ok_def Let_def has_curseg_space_def bps after_add_other)
  next
    case False
    then have a: "cs_alloc_type ?c = LFS" using alloc_mode.exhaust by blast
    then have m: "?m = ?n + 1" by (simp add: after_add_def refresh_next_blkoff_def) (simp add: upd_curseg_def add_sum_entry_def)
    show ?thesis using ok a by (auto simp: next_ok_def Let_def has_curseg_space_def bps after_add_other m)
  qed
  then show "?n < ?m" "has_curseg_space t ?s \<Longrightarrow> next_ok ?s t" by auto
qed

subsection \<open>Owners of blocks\<close>

text \<open>The summary of a block is in the summary block of its segment, which for a current segment is in the
  memory.\<close>

definition summary_at :: "f2fs_sm_info \<Rightarrow> nat \<Rightarrow> nat \<Rightarrow> seg_summary" where
  "summary_at s g i = (case find (\<lambda>t. cs_segno (curseg t s) = g) [0 ..< NR_CURSEG_TYPE] of
     Some t \<Rightarrow> sum_entries (cs_sum_blk (curseg t s)) i | None \<Rightarrow> sum_entries (get_sum_page g s) i)"

definition block_owner :: "f2fs_sm_info \<Rightarrow> u32 \<Rightarrow> seg_summary option" where
  "block_owner s b = (if blk_valid s b then Some (summary_at s (GET_SEGNO s b) (GET_BLKOFF_FROM_SEG0 s b)) else None)"

lemma logs_inj:
  "seg_logs s \<Longrightarrow> t < NR_CURSEG_TYPE \<Longrightarrow> u < NR_CURSEG_TYPE \<Longrightarrow> cs_segno (curseg t s) = cs_segno (curseg u s) \<Longrightarrow> t = u"
  unfolding seg_logs_def by metis

lemma summary_at_cur:
  assumes "seg_logs s" "t < NR_CURSEG_TYPE" "cs_segno (curseg t s) = g"
  shows "summary_at s g i = sum_entries (cs_sum_blk (curseg t s)) i"
proof -
  have "find (\<lambda>t. cs_segno (curseg t s) = g) [0 ..< NR_CURSEG_TYPE] = Some t"
    unfolding find_Some_iff
  proof (intro exI[of _ t] conjI allI impI)
    fix j assume j: "j < t"
    then have "cs_segno (curseg j s) \<noteq> g" using logs_inj[OF assms(1,2), of j] assms(2,3) by auto
    then show "cs_segno (curseg ([0 ..< NR_CURSEG_TYPE] ! j) s) \<noteq> g" using j assms(2) by simp
  qed (use assms in simp_all)
  then show ?thesis by (simp add: summary_at_def)
qed

lemma summary_at_page: "\<not> IS_CURSEG s g \<Longrightarrow> summary_at s g i = sum_entries (sm_sum_pages s (GET_SUM_BLOCK s g)) i"
proof -
  assume "\<not> IS_CURSEG s g"
  then have "find (\<lambda>t. cs_segno (curseg t s) = g) [0 ..< NR_CURSEG_TYPE] = None"
    by (auto simp: find_None_iff IS_CURSEG_iff)
  then show ?thesis by (simp add: summary_at_def get_sum_page_def)
qed

lemma GET_SUM_BLOCK_inj:
  assumes "seg_geo s" "g < sm_main_segments s" "h < sm_main_segments s" "GET_SUM_BLOCK s g = GET_SUM_BLOCK s h"
  shows "g = h"
proof -
  have "(of_nat g :: u32) = of_nat h" using assms(4) by (simp add: GET_SUM_BLOCK_def)
  moreover have "g < 2 ^ 32" "h < 2 ^ 32" using assms(2,3) main_bound[OF assms(1)] by (auto simp: NULL_SEGNO_def)
  then have "unat (of_nat g :: u32) = g" "unat (of_nat h :: u32) = h" by (simp_all add: unat_of_nat)
  ultimately show ?thesis by metis
qed

subsection \<open>Allocating a block\<close>

text \<open>The state before the segment information is updated: the log points behind the block \<open>(g, n)\<close>.\<close>

definition advanced :: "nat \<Rightarrow> seg_summary \<Rightarrow> f2fs_sm_info \<Rightarrow> f2fs_sm_info \<Rightarrow> bool" where
  "advanced t sm s s' \<longleftrightarrow> (let g = cs_segno (curseg t s); n = cs_next_blkoff (curseg t s) in
     seg_base s' {g} \<and> same_geo s s' \<and> vbit s' = vbit s \<and> cbit s' = cbit s
     \<and> sm_dirty_segmap s' = sm_dirty_segmap s \<and> sm_free_segmap s' g \<and> next_ok s' t
     \<and> (\<forall>u. u \<noteq> t \<longrightarrow> curseg u s' = curseg u s)
     \<and> (cs_segno (curseg t s') = g \<longrightarrow> n < cs_next_blkoff (curseg t s'))
     \<and> (\<forall>h j. h < sm_main_segments s \<longrightarrow> j < blocks_per_seg s \<longrightarrow> vbit s h j \<or> cbit s h j \<or> h = g \<longrightarrow>
          summary_at s' h j = (if h = g \<and> j = n then sm else summary_at s h j)))"

lemma advanced_same_segment:
  assumes base: "seg_base s {}" and ok: "next_ok s t" and t: "t < NR_CURSEG_TYPE" and sp: "has_curseg_space t (after_add t sm s)"
  shows "advanced t sm s (after_add t sm s)"
proof -
  let ?s = "after_add t sm s" and ?g = "cs_segno (curseg t s)" and ?n = "cs_next_blkoff (curseg t s)"
  have geo: "seg_geo s" and logs: "seg_logs s" using base by (auto simp: seg_base_def)
  have base1: "seg_base ?s {}" using base by (simp add: after_add_other)
  then have logs1: "seg_logs ?s" by (simp add: seg_base_def)
  have use: "sm_free_segmap s ?g" using logs t by (simp add: seg_logs_def)
  have cur: "IS_CURSEG ?s h = IS_CURSEG s h" for h by (simp add: IS_CURSEG_iff after_add_other)
  have "summary_at ?s h j = (if h = ?g \<and> j = ?n then sm else summary_at s h j)" for h j
  proof (cases "IS_CURSEG s h")
    case True
    then obtain u where u: "u < NR_CURSEG_TYPE" "cs_segno (curseg u s) = h" by (auto simp: IS_CURSEG_iff)
    have "summary_at ?s h j = sum_entries (cs_sum_blk (curseg u ?s)) j" "summary_at s h j = sum_entries (cs_sum_blk (curseg u s)) j"
      using summary_at_cur[OF logs1 u(1)] summary_at_cur[OF logs u(1)] u(2) by (simp_all add: after_add_other)
    moreover have "h = ?g \<longleftrightarrow> u = t" using logs_inj[OF logs u(1) t] u(2) by auto
    ultimately show ?thesis by (cases "u = t") (auto simp: after_add_other)
  next
    case False
    then have "h \<noteq> ?g" using t by (auto simp: IS_CURSEG_iff)
    then show ?thesis using False by (simp add: summary_at_page cur after_add_other same_geoD[OF after_add_other(12)])
  qed
  then show ?thesis
    using seg_base_mono[OF base1, of "{?g}"] after_add_next[OF geo ok, of sm] sp use
    by (simp add: advanced_def Let_def after_add_other)
qed

lemma advanced_new_segment:
  assumes base: "seg_base s {}" and ok: "next_ok s t" and t: "t < NR_CURSEG_TYPE" and f: "free_section s sec"
  shows "\<exists>s'. new_curseg t new_sec (after_add t sm s) = Some s' \<and> advanced t sm s s'"
proof -
  let ?s = "after_add t sm s" and ?g = "cs_segno (curseg t s)" and ?n = "cs_next_blkoff (curseg t s)"
  have geo: "seg_geo s" and logs: "seg_logs s" using base by (auto simp: seg_base_def)
  have base1: "seg_base ?s {}" using base by (simp add: after_add_other)
  note geo1 = after_add_other(12)[of s t sm]
  have f1: "free_section ?s sec" using f by (simp add: free_section_def after_add_other same_geoD[OF geo1])
  obtain gn s' where n: "new_curseg t new_sec ?s = Some s'" "gn < sm_main_segments s" "\<not> sm_free_segmap s gn" "seg_base s' {?g}"
      "same_geo ?s s'" "vbit s' = vbit s" "cbit s' = cbit s" "sm_dirty_segmap s' = sm_dirty_segmap s"
      "sm_free_segmap s' = (sm_free_segmap s)(gn := True)" "\<forall>u. u \<noteq> t \<longrightarrow> curseg u s' = curseg u s"
      "cs_segno (curseg t s') = gn" "next_ok s' t"
      "sm_sum_pages s' = (sm_sum_pages s)(GET_SUM_BLOCK s ?g := cs_sum_blk (curseg t ?s))"
    using new_curseg_ok[OF base1 t f1, of new_sec] by (auto simp: after_add_other same_geoD[OF geo1])
  have logs': "seg_logs s'" using n(4) by (simp add: seg_base_def)
  have geo': "same_geo s s'" by (rule same_geo_trans[OF geo1 n(5)])
  have use: "sm_free_segmap s ?g" "?g < sm_main_segments s" "?g \<noteq> gn" using logs t n(3) by (auto simp: seg_logs_def)
  have "summary_at s' h j = (if h = ?g \<and> j = ?n then sm else summary_at s h j)"
    if h: "h < sm_main_segments s" "vbit s h j \<or> cbit s h j \<or> h = ?g" "j < blocks_per_seg s" for h j
  proof -
    have ne: "h \<noteq> gn" using h n(3) use(3) base by (auto simp: seg_base_def seg_sit_def entry_ok_def)
    consider (log) "h = ?g" | (other) u where "u < NR_CURSEG_TYPE" "u \<noteq> t" "cs_segno (curseg u s) = h"
      | (page) "\<not> IS_CURSEG s h" by (auto simp: IS_CURSEG_iff)
    then show ?thesis
    proof cases
      case log
      have "\<not> IS_CURSEG s' h"
      proof
        assume "IS_CURSEG s' h"
        then obtain u where u: "u < NR_CURSEG_TYPE" "h = cs_segno (curseg u s')" by (auto simp: IS_CURSEG_iff)
        then have "u \<noteq> t" using ne n(11) by auto
        then show False using logs_inj[OF logs u(1) t] u(2) n(10) log by simp
      qed
      then show ?thesis using log summary_at_cur[OF logs t refl]
        by (simp add: summary_at_page n(13) same_geoD[OF geo'] after_add_other)
    next
      case other
      have "h \<noteq> ?g" using logs_inj[OF logs other(1) t] other(2,3) by auto
      then show ?thesis
        using summary_at_cur[OF logs' other(1), of h] summary_at_cur[OF logs other(1,3)] other n(10) by simp
    next
      case page
      then have hg: "h \<noteq> ?g" using t by (auto simp: IS_CURSEG_iff)
      have "\<not> IS_CURSEG s' h"
      proof
        assume "IS_CURSEG s' h"
        then obtain u where u: "u < NR_CURSEG_TYPE" "h = cs_segno (curseg u s')" by (auto simp: IS_CURSEG_iff)
        then have "u \<noteq> t" using ne n(11) by auto
        then show False using page u n(10) by (auto simp: IS_CURSEG_iff)
      qed
      moreover have "GET_SUM_BLOCK s h \<noteq> GET_SUM_BLOCK s ?g" using GET_SUM_BLOCK_inj[OF geo h(1) use(2)] hg by blast
      ultimately show ?thesis using page hg by (simp add: summary_at_page n(13) same_geoD[OF geo'])
    qed
  qed
  then show ?thesis
    using n geo' use by (simp add: advanced_def Let_def)
qed

lemma summary_at_revalidated: "revalidated V s s' \<Longrightarrow> summary_at s' = summary_at s"
proof -
  assume r: "revalidated V s s'"
  then have "GET_SUM_BLOCK s' = GET_SUM_BLOCK s" "sm_curseg s' = sm_curseg s" "sm_sum_pages s' = sm_sum_pages s"
    by (auto simp: revalidated_def same_geoD)
  then show ?thesis by (intro ext) (simp only: summary_at_def get_sum_page_def)
qed

text \<open>The owners after a change of one or two blocks.\<close>

lemma block_owner_changed:
  assumes geo: "seg_geo s" and g: "g < sm_main_segments s" and n: "n < blocks_per_seg s" and fresh: "\<not> vbit s g n"
    and old: "no_block old \<or> blk_valid s old" and sg: "same_geo s s'"
    and v: "vbit s' = (\<lambda>h j. h = g \<and> j = n \<or> vbit s h j
        \<and> \<not> (\<not> no_block old \<and> h = GET_SEGNO s old \<and> j = GET_BLKOFF_FROM_SEG0 s old))"
    and sum_at: "\<And>h j. h < sm_main_segments s \<Longrightarrow> j < blocks_per_seg s \<Longrightarrow> vbit s h j \<or> h = g \<and> j = n
        \<Longrightarrow> summary_at s' h j = (if h = g \<and> j = n then sm else summary_at s h j)"
  shows "block_owner s' = (block_owner s)(old := None, blk_at s g n \<mapsto> sm)"
proof
  fix b
  let ?h = "GET_SEGNO s b" and ?j = "GET_BLKOFF_FROM_SEG0 s b"
  have eq: "b = c" if "GET_SEGNO s b < sm_main_segments s" "GET_SEGNO s b = GET_SEGNO s c"
      "GET_BLKOFF_FROM_SEG0 s b = GET_BLKOFF_FROM_SEG0 s c" for c
    using blk_at_GET[OF geo, of b] blk_at_GET[OF geo, of c] that by simp
  have at: "GET_SEGNO s (blk_at s g n) = g" "GET_BLKOFF_FROM_SEG0 s (blk_at s g n) = n" using geo g n by simp_all
  have j: "?j < blocks_per_seg s" by (rule GET_BLKOFF_less[OF geo])
  show "block_owner s' b = ((block_owner s)(old := None, blk_at s g n \<mapsto> sm)) b"
  proof (cases "?h < sm_main_segments s")
    case False
    then have "b \<noteq> blk_at s g n" using at g by auto
    then show ?thesis using False by (simp add: block_owner_def blk_valid_def same_geoD[OF sg])
  next
    case True
    then have nb: "\<not> no_block b" using main_bound[OF geo] by auto
    consider (new) "b = blk_at s g n" | (old) "b = old" "b \<noteq> blk_at s g n" | (other) "b \<noteq> old" "b \<noteq> blk_at s g n" by blast
    then show ?thesis
    proof cases
      case new
      then show ?thesis using at g n sum_at[of g n] by (simp add: block_owner_def blk_valid_def same_geoD[OF sg] v)
    next
      case old
      then have "\<not> (?h = g \<and> ?j = n)" using eq[of "blk_at s g n"] True at by auto
      then show ?thesis using old nb by (simp add: block_owner_def blk_valid_def same_geoD[OF sg] v)
    next
      case other
      have 1: "\<not> (?h = g \<and> ?j = n)" using eq[of "blk_at s g n"] True at other by auto
      have 2: "\<not> (?h = GET_SEGNO s old \<and> ?j = GET_BLKOFF_FROM_SEG0 s old)" using eq[of old] True other by auto
      have "vbit s' ?h ?j = vbit s ?h ?j" using 1 2 by (simp only: v simp_thms)
      moreover have "vbit s ?h ?j \<Longrightarrow> summary_at s' ?h ?j = summary_at s ?h ?j" using 1 True j sum_at[of ?h ?j] by (simp only: if_False simp_thms)
      ultimately show ?thesis using other by (simp add: block_owner_def blk_valid_def same_geoD[OF sg])
    qed
  qed
qed

lemma allocate_data_block_all:
  assumes inv: "seg_inv s" and t: "t < NR_CURSEG_TYPE" and old: "no_block old \<or> blk_valid s old" and fr: "sm_free_sections s \<noteq> 0"
  shows "\<exists>s'. allocate_data_block page old sm t s = Some (NEXT_FREE_BLKADDR s (curseg t s),
        if page \<and> IS_NODESEG t then Some (NEXT_FREE_BLKADDR s' (curseg t s')) else None, s')
    \<and> seg_inv s' \<and> same_geo s s' \<and> cbit s' = cbit s
    \<and> block_owner s' = (block_owner s)(old := None, NEXT_FREE_BLKADDR s (curseg t s) \<mapsto> sm)"
proof -
  let ?g = "cs_segno (curseg t s)" and ?n = "cs_next_blkoff (curseg t s)" and ?s1 = "after_add t sm s"
  let ?b = "blk_at s ?g ?n"
  have base: "seg_base s {}" and nx: "\<And>u. u < NR_CURSEG_TYPE \<Longrightarrow> next_ok s u" using inv by (auto simp: seg_inv_def)
  have geo: "seg_geo s" and logs: "seg_logs s" using base by (auto simp: seg_base_def)
  have b: "NEXT_FREE_BLKADDR s (curseg t s) = ?b" by (simp add: NEXT_FREE_BLKADDR_def blk_at_def)
  have g: "?g < sm_main_segments s" "IS_CURSEG s ?g" using logs t by (auto simp: seg_logs_def IS_CURSEG_iff)
  have n: "?n < blocks_per_seg s" "\<not> vbit s ?g ?n" using nx[OF t] by (auto simp: next_ok_def Let_def)
  obtain sec where f: "free_section s sec" using free_sections_ex[of s] base fr by (auto simp: seg_base_def)
  obtain s2 where s2: "(if has_curseg_space t ?s1 then Some ?s1 else allocate_segment_by_default t False ?s1) = Some s2"
      "advanced t sm s s2"
  proof (cases "has_curseg_space t ?s1")
    case True
    then show ?thesis using that advanced_same_segment[OF base nx[OF t] t] by simp
  next
    case False
    obtain c where "allocate_segment_by_default t False ?s1 = new_curseg t c ?s1" using allocate_segment_eq by blast
    then show ?thesis using that False advanced_new_segment[OF base nx[OF t] t f, of c sm] by auto
  qed
  have a: "seg_base s2 {?g}" "same_geo s s2" "vbit s2 = vbit s" "cbit s2 = cbit s" "sm_dirty_segmap s2 = sm_dirty_segmap s"
      "sm_free_segmap s2 ?g" "next_ok s2 t" "\<And>u. u \<noteq> t \<Longrightarrow> curseg u s2 = curseg u s"
      "cs_segno (curseg t s2) = ?g \<Longrightarrow> ?n < cs_next_blkoff (curseg t s2)"
      "\<And>h j. h < sm_main_segments s \<Longrightarrow> j < blocks_per_seg s \<Longrightarrow> vbit s h j \<or> cbit s h j \<or> h = ?g \<Longrightarrow>
          summary_at s2 h j = (if h = ?g \<and> j = ?n then sm else summary_at s h j)"
    using s2(2) unfolding advanced_def Let_def by blast+
  note ge = same_geoD[OF a(2)]
  have pre: "\<not> sm_dirty_segmap s2 PRE ?g"
    using base g by (auto simp: a(5) seg_base_def seg_dirty_def may_listed_def)
  let ?V = "\<lambda>h j. h = ?g \<and> j = ?n \<or> vbit s h j \<and> \<not> (\<not> no_block old \<and> h = GET_SEGNO s old \<and> j = GET_BLKOFF_FROM_SEG0 s old)"
  obtain s3 where s3: "refresh_sit_entry old ?b s2 = Some s3" "seg_base s3 ({?g} - {?g})" "revalidated ?V s2 s3"
    using refresh_sit_entry_ok[OF a(1), of ?g ?n old] g(1) n a(6) pre old
    by (auto simp: ge a(3) blk_valid_def)
  have r: "same_geo s2 s3" "vbit s3 = ?V" "cbit s3 = cbit s" "sm_curseg s3 = sm_curseg s2"
    using s3(3) a(4) by (auto simp: revalidated_def)
  have sg: "same_geo s s3" by (rule same_geo_trans[OF a(2) r(1)])
  have "next_ok s3 u" if u: "u < NR_CURSEG_TYPE" for u
  proof -
    have "next_ok s2 u"
    proof (cases "u = t")
      case False
      show ?thesis by (rule next_ok_mono[OF nx[OF u] a(8)[OF False]]) (simp_all add: ge a(3,4))
    qed (use a(7) in simp)
    then show ?thesis
    proof (rule next_ok_mono)
      fix i assume i: "cs_next_blkoff (curseg u s2) \<le> i"
        "vbit s3 (cs_segno (curseg u s2)) i \<or> cbit s3 (cs_segno (curseg u s2)) i"
      have "\<not> (cs_segno (curseg u s2) = ?g \<and> i = ?n)"
      proof
        assume e: "cs_segno (curseg u s2) = ?g \<and> i = ?n"
        then have "u = t" using logs_inj[OF logs u t] a(8)[of u] by (cases "u = t") auto
        then show False using a(9) e i(1) by auto
      qed
      then show "vbit s2 (cs_segno (curseg u s2)) i \<or> cbit s2 (cs_segno (curseg u s2)) i"
        using i(2) by (auto simp: r(2,3) a(3,4))
    qed (simp_all add: r same_geoD[OF r(1)])
  qed
  then have inv3: "seg_inv s3" using s3(2) by (simp add: seg_inv_def)
  have "block_owner s3 = (block_owner s)(old := None, ?b \<mapsto> sm)"
    by (rule block_owner_changed[OF geo g(1) n old sg r(2)])
      (auto simp: summary_at_revalidated[OF s3(3)] a(10))
  moreover have "allocate_data_block page old sm t s = Some (?b,
        if page \<and> IS_NODESEG t then Some (NEXT_FREE_BLKADDR s3 (curseg t s3)) else None, s3)"
    using s2(1) s3(1) unfolding allocate_data_block_def Let_def b after_add_def[symmetric] by simp
  ultimately show ?thesis using inv3 sg r(3) unfolding b by blast
qed

end
