(* ===== verification/F2fsDiscard.thy ===== *)
theory F2fsDiscard
  imports F2fsSit F2fsSegmentSpec
begin

unbundle bit_operations_syntax

text \<open>
  The search for obsolete blocks to discard ends, and no block that is valid is ever put on the list
  of discards, although the search for a set bit overlooks some.
\<close>

subsection \<open>The position found is a set bit\<close>

lemma found_first_bit_hit:
  assumes "found_first_bit t res siz < res + siz"
  shows "\<exists>r < 64. found_first_bit t res siz = res + r \<and> rbit t r"
proof -
  let ?t = "t AND drop_bit (BITS_PER_LONG - siz) (- 1)"
  have nz: "?t \<noteq> 0" and e: "found_first_bit t res siz = res + reverse_ffs ?t"
    using assms by (auto simp: found_first_bit_def Let_def split: if_splits)
  have "rbit t (reverse_ffs ?t)" using reverse_ffs_ok(2)[OF nz] by (simp add: rbit_def bit_and_iff)
  then show ?thesis using e reverse_ffs_ok(1)[OF nz] by blast
qed

lemma aligned_bit_hit:
  "aligned_bit a i (64 * i) siz = r \<Longrightarrow> r < 64 * i + siz \<Longrightarrow> 64 * i \<le> r \<and> rev_bit a r"
proof (induction siz arbitrary: i r rule: less_induct)
  case (less siz)
  show ?case
  proof (cases "64 \<le> siz")
    case True
    show ?thesis
    proof (cases "a i = 0")
      case z: True
      have "aligned_bit a (i + 1) (64 * (i + 1)) (siz - 64) = r"
        using less.prems(1) True z by (subst (asm) aligned_bit.simps) (simp add: BITS_PER_LONG_def add.commute)
      then show ?thesis using less.IH[of "siz - 64" "i + 1" r] less.prems(2) True by simp
    next
      case nz: False
      have "r = 64 * i + reverse_ffs (a i)"
        using less.prems(1) True nz by (subst (asm) aligned_bit.simps) (simp add: BITS_PER_LONG_def)
      then show ?thesis using reverse_ffs_ok(1,2)[OF nz] by (simp add: rev_bit_long)
    qed
  next
    case False
    then have "siz \<noteq> 0" "r = found_first_bit (a i) (64 * i) siz"
      using less.prems by (cases "siz = 0"; simp add: BITS_PER_LONG_def aligned_bit.simps[of a i])+
    then show ?thesis using found_first_bit_hit[of "a i" "64 * i" siz] less.prems(2) by (auto simp: rev_bit_long)
  qed
qed

lemma offset_mask:
  fixes x :: u64
  assumes "r < 64" "rbit (x AND (push_bit (ofs div 8 * 8) (- 1) AND push_bit (ofs div 8 * 8)
    (ucast (drop_bit (ofs mod 8) (ucast (push_bit (ofs mod 8) (0xff :: 32 word)) :: u8))))) r"
  shows "rbit x r \<and> ofs \<le> r"
proof -
  let ?p = "8 * (r div 8) + (7 - r mod 8)" and ?q = "ofs div 8 * 8"
  have b: "bit x ?p" "?q \<le> ?p" "bit (drop_bit (ofs mod 8) (ucast (push_bit (ofs mod 8) (0xff :: 32 word)) :: u8)) (?p - ?q)"
    using assms(2) by (auto simp: rbit_def bit_and_iff bit_push_bit_iff bit_ucast_iff)
  have "ofs \<le> r"
  proof (cases "ofs div 8 < r div 8")
    case True
    then have "\<not> r \<le> ofs" using div_le_mono[of r ofs 8] by auto
    then show ?thesis by simp
  next
    case False
    have "ofs div 8 \<le> r div 8" using b(2) mod_less_divisor[of 8 r] by linarith
    then have e: "r div 8 = ofs div 8" using False by simp
    then have "bit (ucast (push_bit (ofs mod 8) (0xff :: 32 word)) :: u8) (ofs mod 8 + (7 - r mod 8))"
      using b(3) by (simp add: bit_drop_bit_eq)
    then have "ofs mod 8 + (7 - r mod 8) < 8" using bit_imp_le_length by fastforce
    then show ?thesis using e div_mult_mod_eq[of r 8] div_mult_mod_eq[of ofs 8] mod_less_divisor[of 8 r] by linarith
  qed
  then show ?thesis using b(1) by (simp add: rbit_def)
qed

lemma find_rev_next_bit_hit:
  assumes r: "find_rev_next_bit a siz off = r" "r < siz"
  shows "off \<le> r \<and> rev_bit a r"
proof -
  define i where "i = off div 64"
  define ofs where "ofs = off mod 64"
  define len where "len = siz - 64 * i"
  have off: "off = 64 * i + ofs" by (simp add: i_def ofs_def)
  have lt: "off < siz"
  proof (rule ccontr)
    assume "\<not> off < siz"
    then have "find_rev_next_bit a siz off = siz" by (simp add: find_rev_next_bit_def)
    then show False using r by simp
  qed
  have siz: "siz = 64 * i + len" using lt by (simp add: len_def off)
  show ?thesis
  proof (cases "ofs = 0")
    case True
    then have "aligned_bit a i (64 * i) len = r"
      using r(1) lt by (simp add: find_rev_next_bit_def BITS_PER_LONG_def Let_def mult.commute flip: i_def ofs_def) (simp add: len_def mult.commute)
    then show ?thesis using aligned_bit_hit[of a i len r] r(2) siz off True by simp
  next
    case False
    let ?t = "a i AND (push_bit (ofs div 8 * 8) (- 1) AND push_bit (ofs div 8 * 8)
      (ucast (drop_bit (ofs mod 8) (ucast (push_bit (ofs mod 8) (0xff :: 32 word)) :: u8))))"
    have e: "r = (if len < 64 then found_first_bit ?t (64 * i) len
        else if ?t \<noteq> 0 then 64 * i + reverse_ffs ?t else aligned_bit a (i + 1) (64 * i + 64) (len - 64))"
      unfolding r(1)[symmetric] find_rev_next_bit_def Let_def BITS_PER_LONG_def i_def[symmetric] ofs_def[symmetric]
        mult.commute[of i 64] len_def[symmetric]
      using lt[folded not_le] False by (simp only: if_False)
    have hit: "off \<le> 64 * i + q \<and> rev_bit a (64 * i + q)" if "q < 64" "rbit ?t q" for q
      using offset_mask[OF that] that(1) by (simp add: rev_bit_long off)
    show ?thesis
    proof (cases "len < 64")
      case True
      then show ?thesis using e found_first_bit_hit[of ?t "64 * i" len] r(2) siz hit by auto
    next
      case l: False
      show ?thesis
      proof (cases "?t = 0")
        case True
        then have "aligned_bit a (i + 1) (64 * (i + 1)) (len - 64) = r" using e l by (simp add: add.commute)
        moreover have "off < 64 * (i + 1)" using off by (simp add: ofs_def)
        ultimately show ?thesis using aligned_bit_hit[of a "i + 1" "len - 64" r] r(2) siz l by simp
      next
        case nz: False
        then show ?thesis using e l hit[OF reverse_ffs_ok(1,2)[OF nz]] by simp
      qed
    qed
  qed
qed

subsection \<open>The loop ends\<close>

text \<open>From \<open>s\<close> to \<open>s'\<close> only discards of blocks satisfying \<open>P\<close> are added.\<close>

definition discards_only :: "(u32 \<Rightarrow> bool) \<Rightarrow> cp_control \<times> sit_store \<Rightarrow> cp_control \<times> sit_store \<Rightarrow> bool" where
  "discards_only P cd cd' \<longleftrightarrow> fst cd' = (fst cd)\<lparr>trimmed := trimmed (fst cd')\<rparr>
     \<and> (\<exists>new. snd cd' = (snd cd)\<lparr>discard_list := discard_list (snd cd) @ new, nr_discards := nr_discards (snd cd')\<rparr>
          \<and> (\<forall>(b, len) \<in> set new. \<forall>k < len. P (b + of_nat k)))"

lemma discards_only_refl [simp]: "discards_only P cd cd"
  unfolding discards_only_def by (auto intro!: exI[of _ "[]"])

lemma discards_only_trans:
  assumes "discards_only P a b" "discards_only P b c"
  shows "discards_only P a c"
proof -
  obtain n1 n2 where "snd b = (snd a)\<lparr>discard_list := discard_list (snd a) @ n1, nr_discards := nr_discards (snd b)\<rparr>"
      "snd c = (snd b)\<lparr>discard_list := discard_list (snd b) @ n2, nr_discards := nr_discards (snd c)\<rparr>"
      "\<forall>(b, len) \<in> set n1. \<forall>k < len. P (b + of_nat k)" "\<forall>(b, len) \<in> set n2. \<forall>k < len. P (b + of_nat k)"
    using assms unfolding discards_only_def by blast
  moreover from this(1,2) have "snd c = (snd a)\<lparr>discard_list := discard_list (snd a) @ (n1 @ n2), nr_discards := nr_discards (snd c)\<rparr>"
    by (cases a; cases b; cases c; cases "snd a"; cases "snd b"; cases "snd c") simp
  moreover have "fst c = (fst a)\<lparr>trimmed := trimmed (fst c)\<rparr>"
    using assms unfolding discards_only_def by (cases "fst a"; cases "fst b"; cases "fst c") simp
  ultimately show ?thesis unfolding discards_only_def by (intro conjI exI[of _ "n1 @ n2"]) auto
qed

lemma discards_only_add: "(\<And>k. k < len \<Longrightarrow> P (b + of_nat k)) \<Longrightarrow> discards_only P cd (add_discard b len cd)"
  unfolding discards_only_def add_discard_def by (cases cd) (auto intro!: exI[of _ "[(b, len)]"])

lemma discard_loop_ok:
  assumes d: "8 dvd m" and P: "\<And>i. i < m \<Longrightarrow> rev_bit dmap i \<Longrightarrow> P (b + of_nat i)"
  shows "\<exists>cd'. discard_loop dmap m b force pos cd = Some cd' \<and> discards_only P cd cd'"
proof (induction "Suc m - pos" arbitrary: pos cd rule: less_induct)
  case less
  let ?start = "find_rev_next_bit dmap m pos"
  show ?case
  proof (cases "(force \<or> nr_discards (snd cd) \<le> max_discards (snd cd)) \<and> ?start < m")
    case False
    then have "discard_loop dmap m b force pos cd = Some cd" by (subst discard_loop.simps) (auto simp: Let_def not_less)
    then show ?thesis by simp
  next
    case True
    let ?fin = "find_rev_next_zero_bit dmap m (?start + 1)"
    have st: "pos \<le> ?start" "rev_bit dmap ?start" using find_rev_next_bit_hit[OF refl] True by auto
    have z: "?fin = find_next_bit (\<lambda>i. \<not> rev_bit dmap i) m (?start + 1)"
      by (simp only: find_rev_next_zero_bit_eq[OF d] find_next_zero_bit_def)
    have fin: "?start < ?fin" "?fin \<le> m"
      using find_next_bit_cases[of m "\<lambda>i. \<not> rev_bit dmap i" "?start + 1"] True
        find_next_bit_least[of "\<lambda>i. \<not> rev_bit dmap i" m "?start + 1", OF refl] unfolding z by (auto simp: le_less)
    have run: "rev_bit dmap i" if "?start \<le> i" "i < ?fin" for i
    proof (cases "i = ?start")
      case False
      then show ?thesis using that find_next_bit_least(4)[of "\<lambda>i. \<not> rev_bit dmap i" m "?start + 1", OF refl, of i]
          find_next_bit_end[of "\<lambda>i. \<not> rev_bit dmap i" m "?start + 1" i] z fin(2) by (cases "?fin = m") auto
    qed (use st in simp)
    have less_pos: "Suc m - (?fin + 1) < Suc m - pos" using st(1) fin True by linarith
    note ih = less.hyps[OF less_pos]
    have "discards_only P cd (add_discard (b + of_nat ?start) (?fin - ?start) cd)"
    proof (rule discards_only_add)
      fix k assume "k < ?fin - ?start"
      then show "P (b + of_nat ?start + of_nat k)" using P[of "?start + k"] run[of "?start + k"] fin by (simp add: add.assoc)
    qed
    then have "\<exists>cd'. (if ?fin - ?start < trim_minlen (fst cd) then discard_loop dmap m b force (?fin + 1) cd
        else discard_loop dmap m b force (?fin + 1) (add_discard (b + of_nat ?start) (?fin - ?start) cd)) = Some cd'
          \<and> discards_only P cd cd'"
      using ih[of cd] ih[of "add_discard (b + of_nat ?start) (?fin - ?start) cd"] discards_only_trans by (simp only: split: if_splits) blast
    moreover have "discard_loop dmap m b force pos cd
      = (if ?fin - ?start < trim_minlen (fst cd) then discard_loop dmap m b force (?fin + 1) cd
         else discard_loop dmap m b force (?fin + 1) (add_discard (b + of_nat ?start) (?fin - ?start) cd))"
      using True by (subst discard_loop.simps) (simp add: Let_def)
    ultimately show ?thesis by simp
  qed
qed

subsection \<open>The discards of a segment\<close>

lemma rev_bit_obsolete:
  "rev_bit (\<lambda>i. (load_long a i XOR load_long b i) AND load_long b i) n \<longleftrightarrow> f2fs_test_bit n b \<and> \<not> f2fs_test_bit n a"
proof -
  have "rev_bit (\<lambda>i. (load_long a i XOR load_long b i) AND load_long b i) n \<longleftrightarrow> rev_bit (load_long b) n \<and> \<not> rev_bit (load_long a) n"
    by (auto simp: rev_bit_def rbit_def bit_and_iff bit_xor_iff)
  then show ?thesis by (simp add: rev_bit_load)
qed

lemma ex_Some_if: "(\<exists>x. (if b then u else v) = Some x \<and> P x) \<longleftrightarrow> (if b then \<exists>x. u = Some x \<and> P x else \<exists>x. v = Some x \<and> P x)"
  by simp

lemma ex_Some: "(\<exists>x. Some a = Some x \<and> P x) \<longleftrightarrow> P a"
  by simp

lemma add_discard_addrs_ok:
  assumes geo: "seg_geo s" and sit: "seg_sit s" and g: "trim_start (fst cd) < sm_main_segments s"
  shows "\<exists>cd'. add_discard_addrs s cd = Some cd' \<and> discards_only (\<lambda>b. \<not> blk_valid s b) cd cd'"
proof -
  let ?g = "trim_start (fst cd)" and ?P = "\<lambda>b. \<not> blk_valid s b" and ?m = "blocks_per_seg s" and ?force = "cp_reason (fst cd) = CP_DISCARD"
  let ?dmap = "\<lambda>i. (load_long (se_cur_map (sm_sentries s ?g)) i XOR load_long (se_ckpt_map (sm_sentries s ?g)) i)
    AND load_long (se_ckpt_map (sm_sentries s ?g)) i"
  have ge: "get_seg_entry s ?g = Some (sm_sentries s ?g)" using g by (simp add: get_seg_entry_def)
  have at: "?P (START_BLOCK s ?g + of_nat i)" if "i < ?m" "\<not> vbit s ?g i" for i
    using blk_valid_blk_at[OF geo g that(1)] that(2) by (simp add: blk_at_def)
  have trimmed: "discards_only ?P cd ((fst cd)\<lparr>trimmed := x\<rparr>, snd cd)" for x
    unfolding discards_only_def by (auto intro!: exI[of _ "[]"])
  have whole: "discards_only ?P cd (add_discard (START_BLOCK s ?g) ?m cd)" if "nvalid s ?g = 0"
  proof (rule discards_only_add)
    fix k assume k: "k < ?m"
    then have "\<not> vbit s ?g k" using nvalid_pos[OF sit g k] that by auto
    then show "?P (START_BLOCK s ?g + of_nat k)" by (rule at[OF k])
  qed
  obtain cd' where "discard_loop ?dmap ?m (START_BLOCK s ?g) ?force 0 cd = Some cd'" "discards_only ?P cd cd'"
    using discard_loop_ok[OF bps_dvd[OF geo], where dmap = ?dmap and P = ?P and b = "START_BLOCK s ?g"] at
    unfolding rev_bit_obsolete vbit_def by blast
  then have loop: "\<exists>cd'. discard_loop ?dmap ?m (START_BLOCK s ?g) ?force 0 cd = Some cd' \<and> discards_only ?P cd cd'" by blast
  have eq: "add_discard_addrs s cd =
      (if \<not> ?force \<and> \<not> opt_discard (snd cd) then Some cd
       else if ?force \<and> nvalid s ?g = 0 then
         if sm_dirty_segmap s PRE ?g then Some ((fst cd)\<lparr>trimmed := trimmed (fst cd) + ?m\<rparr>, snd cd)
         else Some (add_discard (START_BLOCK s ?g) ?m cd)
       else if nvalid s ?g = 0 \<or> nvalid s ?g = ?m then Some cd
       else discard_loop ?dmap ?m (START_BLOCK s ?g) ?force 0 cd)"
    by (simp only: add_discard_addrs_def ge Let_def bind.bind_lunit)
  show ?thesis unfolding eq ex_Some_if ex_Some if_bool_eq_conj using trimmed whole loop discards_only_refl by blast
qed

end
