(* ===== verification/F2fsSitFlush.thy ===== *)
theory F2fsSitFlush
  imports F2fsDiscard
begin

unbundle bit_operations_syntax

text \<open>
  The checkpoint of the segment information: each dirty entry reaches the journal or the SIT blocks,
  and what is looked up there afterwards is the information in the memory.
\<close>

subsection \<open>Entries\<close>

lemma drop_bit_high: "drop_bit 10 (w AND NOT (mask 10)) = drop_bit 10 w" for w :: "16 word"
  by (rule bit_word_eqI) (auto simp: bit_drop_bit_eq bit_and_iff bit_not_iff bit_mask_iff dest: bit_imp_le_length)

lemma raw_fields:
  assumes "se_valid_blocks se < 1024" "se_type se < 64"
  shows "GET_SIT_VBLOCKS (fst (seg_info_to_raw_sit se)) = se_valid_blocks se"
    and "GET_SIT_TYPE (fst (seg_info_to_raw_sit se)) = se_type se"
proof -
  let ?v = "of_nat (se_valid_blocks se) :: 16 word" and ?t = "of_nat (se_type se) :: 16 word"
  let ?w = "push_bit 10 ?t OR ?v"
  have v: "take_bit 10 ?v = ?v" using assms(1) by (simp add: take_bit_of_nat take_bit_nat_eq_self)
  have m: "push_bit 10 1 - 1 = (mask 10 :: 16 word)" by (simp add: mask_eq_exp_minus_1)
  have "\<not> bit (push_bit 10 ?t) n \<or> \<not> bit ?v n" for n
    by (subst v[symmetric]) (simp add: bit_push_bit_iff bit_take_bit_iff)
  then have "?w = push_bit 10 ?t + ?v" by (rule disjunctive_add[symmetric])
  also have "\<dots> = of_nat (se_type se * 1024 + se_valid_blocks se)" by (simp add: push_bit_eq_mult)
  finally have "unat ?w = unat (of_nat (se_type se * 1024 + se_valid_blocks se) :: 16 word)" by (rule arg_cong)
  then have w: "unat ?w = se_type se * 1024 + se_valid_blocks se"
    using assms by (simp only: unat_of_nat) simp
  have "GET_SIT_VBLOCKS (fst (seg_info_to_raw_sit se)) = unat (take_bit 10 ?w)"
    by (simp only: GET_SIT_VBLOCKS_def seg_info_to_raw_sit_def SIT_VBLOCKS_SHIFT_def m take_bit_eq_mask fst_conv f2fs_sit_entry.select_convs)
  also have "\<dots> = take_bit 10 (unat ?w)" by (simp only: unsigned_take_bit_eq)
  finally show "GET_SIT_VBLOCKS (fst (seg_info_to_raw_sit se)) = se_valid_blocks se"
    using assms(1) by (simp add: w take_bit_eq_mod)
  have "drop_bit 10 (?w AND NOT (mask 10)) = drop_bit 10 ?w" by (rule drop_bit_high)
  then have "GET_SIT_TYPE (fst (seg_info_to_raw_sit se)) = unat (drop_bit 10 ?w)"
    by (simp only: GET_SIT_TYPE_def seg_info_to_raw_sit_def SIT_VBLOCKS_SHIFT_def m fst_conv f2fs_sit_entry.select_convs)
  also have "\<dots> = drop_bit 10 (unat ?w)" by (simp only: unat_drop_bit_eq)
  finally show "GET_SIT_TYPE (fst (seg_info_to_raw_sit se)) = se_type se" using assms by (simp add: w drop_bit_eq_div)
qed

subsection \<open>The sets of dirty entries\<close>

definition region :: "nat set \<Rightarrow> nat \<Rightarrow> nat set" where
  "region D st = {g \<in> D. START_SEGNO g = st}"

lemma region_insert: "region (insert g D) st = (if st = START_SEGNO g then insert g (region D st) else region D st)"
  by (auto simp: region_def)

definition sets_ok :: "nat set \<Rightarrow> sit_entry_set list \<Rightarrow> bool" where
  "sets_ok D sets \<longleftrightarrow> distinct (map fst sets) \<and> (\<forall>st. map_of sets st =
     (if card (region D st) = 0 then None else Some (of_nat (card (region D st)))))"

lemma insert_sit_set_ok:
  "fst ses \<notin> fst ` set rest \<Longrightarrow> distinct (map fst rest) \<Longrightarrow>
   distinct (map fst (insert_sit_set ses rest)) \<and> map_of (insert_sit_set ses rest) = (map_of rest)(fst ses \<mapsto> snd ses)
   \<and> fst ` set (insert_sit_set ses rest) = insert (fst ses) (fst ` set rest)"
  by (induction ses rest rule: insert_sit_set.induct) (auto simp: fun_eq_iff)

lemma bump_sit_set_ok:
  "distinct (map fst sets) \<Longrightarrow>
   (case map_of sets st of
      None \<Rightarrow> bump_sit_set st sets = None
    | Some c \<Rightarrow> \<exists>l. bump_sit_set st sets = Some l \<and> distinct (map fst l) \<and> map_of l = (map_of sets)(st \<mapsto> c + 1)
        \<and> fst ` set l = fst ` set sets)"
proof (induction sets)
  case (Cons ses rest)
  show ?case
  proof (cases "fst ses = st")
    case True
    then show ?thesis using insert_sit_set_ok[of "(st, snd ses + 1)" rest] Cons.prems
      by (cases ses) (auto simp: fun_eq_iff)
  next
    case False
    show ?thesis
    proof (cases "map_of rest st")
      case None
      then show ?thesis using Cons False by (cases ses) auto
    next
      case (Some c)
      obtain l where l: "bump_sit_set st rest = Some l" "distinct (map fst l)" "map_of l = (map_of rest)(st \<mapsto> c + 1)"
          "fst ` set l = fst ` set rest" using Cons Some by auto
      then show ?thesis using Cons.prems Some False by (cases ses) (auto simp: fun_eq_iff)
    qed
  qed
qed simp

lemma add_sit_entry_ok:
  assumes ok: "sets_ok D sets" and g: "g \<notin> D" "finite D"
  shows "sets_ok (insert g D) (add_sit_entry g sets)"
proof -
  let ?st = "START_SEGNO g"
  have d: "distinct (map fst sets)" using ok by (simp add: sets_ok_def)
  have card: "card (region (insert g D) st) = (if st = ?st then Suc (card (region D st)) else card (region D st))" for st
    using g by (simp add: region_insert) (simp add: region_def)
  have m: "map_of sets st = (if card (region D st) = 0 then None else Some (of_nat (card (region D st))))" for st
    using ok by (simp add: sets_ok_def)
  show ?thesis
  proof (cases "map_of sets ?st")
    case None
    then have "card (region D ?st) = 0" using m[of ?st] by (simp split: if_splits)
    moreover have "add_sit_entry g sets = (?st, 1) # sets" using bump_sit_set_ok[OF d, of ?st] None by (simp add: add_sit_entry_def)
    moreover have "?st \<notin> fst ` set sets" using None by (simp add: map_of_eq_None_iff)
    ultimately show ?thesis using d m by (simp add: sets_ok_def card)
  next
    case (Some c)
    then have c: "c = of_nat (card (region D ?st))" "card (region D ?st) \<noteq> 0" using m[of ?st] by (auto split: if_splits)
    obtain l where "bump_sit_set ?st sets = Some l" "distinct (map fst l)" "map_of l = (map_of sets)(?st \<mapsto> c + 1)"
      using bump_sit_set_ok[OF d, of ?st] Some by auto
    then show ?thesis using m c by (simp add: sets_ok_def card add_sit_entry_def add.commute)
  qed
qed

lemma add_sits_in_set_ok: "sets_ok {g. g < sm_main_segments s \<and> sm_dirty_sentries_bitmap s g} (add_sits_in_set s [])"
proof -
  let ?f = "\<lambda>head segno. if sm_dirty_sentries_bitmap s segno then add_sit_entry segno head else head"
  have "sets_ok {g. g < n \<and> sm_dirty_sentries_bitmap s g} (foldl ?f [] [0 ..< n])" for n
  proof (induction n)
    case (Suc n)
    let ?D = "{g. g < n \<and> sm_dirty_sentries_bitmap s g}"
    show ?case
    proof (cases "sm_dirty_sentries_bitmap s n")
      case True
      then have "{g. g < Suc n \<and> sm_dirty_sentries_bitmap s g} = insert n ?D" by (auto simp: less_Suc_eq)
      then show ?thesis using add_sit_entry_ok[OF Suc, of n] True by simp
    next
      case False
      then have "{g. g < Suc n \<and> sm_dirty_sentries_bitmap s g} = ?D" by (auto simp: less_Suc_eq)
      then show ?thesis using Suc False by simp
    qed
  qed (simp add: sets_ok_def region_def)
  then show ?thesis by (simp add: add_sits_in_set_def)
qed

subsection \<open>Writing to the journal and to the blocks\<close>

definition jset :: "sit_store \<Rightarrow> nat set" where
  "jset d = (\<lambda>i. fst (sit_j d i)) ` {..< n_sits d}"

definition sit_store_ok :: "nat \<Rightarrow> sit_store \<Rightarrow> bool" where
  "sit_store_ok M d \<longleftrightarrow> n_sits d \<le> SIT_JOURNAL_ENTRIES \<and> inj_on (\<lambda>i. fst (sit_j d i)) {..< n_sits d}
     \<and> jset d \<subseteq> {..< M} \<and> (\<forall>g < M. SIT_BLOCK_OFFSET g < sit_blocks d)"

lemma find_in_sit_journal_None: "find_in_sit_journal d g = None \<longleftrightarrow> g \<notin> jset d"
  by (auto simp: find_in_sit_journal_def find_None_iff jset_def)

lemma find_in_sit_journal_Some: "find_in_sit_journal d g = Some i \<Longrightarrow> i < n_sits d \<and> fst (sit_j d i) = g"
  by (auto simp: find_in_sit_journal_def find_Some_iff)

lemma stored_in_block: "g \<notin> jset d \<Longrightarrow> stored_sit_entry d g = sit_pages d (current_sit_addr d g) (SIT_ENTRY_OFFSET g)"
  by (simp add: stored_sit_entry_def find_in_sit_journal_None[THEN iffD2])

lemma stored_in_journal:
  assumes "inj_on (\<lambda>i. fst (sit_j d i)) {..< n_sits d}" "i < n_sits d"
  shows "stored_sit_entry d (fst (sit_j d i)) = snd (sit_j d i)"
proof -
  have "fst (sit_j d i) \<in> jset d" using assms(2) by (auto simp: jset_def)
  then obtain k where k: "find_in_sit_journal d (fst (sit_j d i)) = Some k"
    using find_in_sit_journal_None[of d "fst (sit_j d i)"] by (cases "find_in_sit_journal d (fst (sit_j d i))") auto
  then have "k = i" using find_in_sit_journal_Some[OF k] assms by (auto simp: inj_on_def)
  then show ?thesis using k by (simp add: stored_sit_entry_def)
qed

lemma current_sit_addr_other [simp]:
  "current_sit_addr (d\<lparr>sit_pages := p\<rparr>) = current_sit_addr d"
  "current_sit_addr (d\<lparr>n_sits := n\<rparr>) = current_sit_addr d"
  "current_sit_addr (d\<lparr>sit_j := j\<rparr>) = current_sit_addr d"
  "current_sit_addr (d\<lparr>n_sits := n, sit_j := j\<rparr>) = current_sit_addr d"
  "current_sit_addr (d\<lparr>discard_list := l, nr_discards := c\<rparr>) = current_sit_addr d"
  "current_sit_addr (d\<lparr>discard_list := l, nr_discards := c, max_discards := x\<rparr>) = current_sit_addr d"
  by (simp_all add: current_sit_addr_def fun_eq_iff Let_def)

lemma journal_write:
  assumes ok: "sit_store_ok M d" and g: "g < M" and space: "g \<in> jset d \<or> n_sits d < SIT_JOURNAL_ENTRIES"
  shows "\<exists>off d1 d2. lookup_sit_journal d g = (Some off, d1) \<and> d2 = d1\<lparr>sit_j := (sit_j d1)(off := (g, raw))\<rparr>
    \<and> sit_store_ok M d2 \<and> jset d2 = insert g (jset d) \<and> (\<forall>h. stored_sit_entry d2 h = (if h = g then raw else stored_sit_entry d h))
    \<and> n_sits d2 \<le> n_sits d + 1 \<and> discard_list d2 = discard_list d"
proof -
  obtain off n where off: "off < n" "n_sits d \<le> n" "n \<le> n_sits d + 1" "n \<le> SIT_JOURNAL_ENTRIES"
    and l: "lookup_sit_journal d g = (Some off, d\<lparr>n_sits := n\<rparr>)"
    and e: "\<And>i. i < n \<Longrightarrow> i \<noteq> off \<Longrightarrow> i < n_sits d \<and> fst (sit_j d i) \<noteq> g"
    and at_off: "off < n_sits d \<Longrightarrow> fst (sit_j d off) = g"
  proof (cases "find_in_sit_journal d g")
    case None
    then have "g \<notin> jset d" by (simp add: find_in_sit_journal_None)
    then show ?thesis using None space that[of "n_sits d" "n_sits d + 1"]
      by (auto simp: lookup_sit_journal_def jset_def less_Suc_eq)
  next
    case (Some i)
    then have i: "i < n_sits d" "fst (sit_j d i) = g" using find_in_sit_journal_Some by auto
    have "fst (sit_j d k) \<noteq> g" if "k < n_sits d" "k \<noteq> i" for k
      using ok i that inj_onD[of "\<lambda>i. fst (sit_j d i)" "{..< n_sits d}" k i] by (auto simp: sit_store_ok_def)
    moreover have "lookup_sit_journal d g = (Some i, d\<lparr>n_sits := n_sits d\<rparr>)" using Some by (simp add: lookup_sit_journal_def)
    ultimately show ?thesis using ok i that[of i "n_sits d"] by (simp add: sit_store_ok_def)
  qed
  let ?d = "d\<lparr>n_sits := n, sit_j := (sit_j d)(off := (g, raw))\<rparr>"
  have inj: "inj_on (\<lambda>i. fst (sit_j ?d i)) {..< n_sits ?d}"
  proof (rule inj_onI)
    fix a b assume ab: "a \<in> {..< n_sits ?d}" "b \<in> {..< n_sits ?d}" "fst (sit_j ?d a) = fst (sit_j ?d b)"
    have "inj_on (\<lambda>i. fst (sit_j d i)) {..< n_sits d}" using ok by (simp add: sit_store_ok_def)
    from inj_onD[OF this, of a b] show "a = b" using ab e[of a] e[of b] by (cases "a = off"; cases "b = off") auto
  qed
  have js: "jset ?d = insert g (jset d)"
  proof -
    have "jset ?d = insert g ((\<lambda>i. fst (sit_j d i)) ` ({..< n} - {off}))" using off(1) by (auto simp: jset_def)
    also have "\<dots> = insert g (jset d)"
      unfolding jset_def using off e at_off by (fastforce simp: image_iff intro: less_le_trans)
    finally show ?thesis .
  qed
  have st: "stored_sit_entry ?d h = (if h = g then raw else stored_sit_entry d h)" for h
  proof (cases "h = g")
    case True
    then show ?thesis using stored_in_journal[OF inj, of off] off(1) by simp
  next
    case h: False
    show ?thesis
    proof (cases "h \<in> jset d")
      case True
      then obtain i where i: "i < n_sits d" "h = fst (sit_j d i)" by (auto simp: jset_def)
      then have io: "i \<noteq> off" using at_off h by auto
      have "inj_on (\<lambda>i. fst (sit_j d i)) {..< n_sits d}" using ok by (simp add: sit_store_ok_def)
      then show ?thesis using stored_in_journal[OF inj, of i] stored_in_journal[of d i] i io h off(2) by simp
    next
      case False
      then have "h \<notin> jset ?d" using js h by simp
      then show ?thesis using stored_in_block[OF False] stored_in_block[of h ?d] h by simp
    qed
  qed
  have "sit_store_ok M ?d" using ok inj off(4) g js by (simp add: sit_store_ok_def)
  then show ?thesis using l js st off(3) by (intro exI[of _ off] exI[of _ "d\<lparr>n_sits := n\<rparr>"] exI[of _ ?d]) simp
qed

lemma sit_place: "SIT_BLOCK_OFFSET g = SIT_BLOCK_OFFSET h \<Longrightarrow> SIT_ENTRY_OFFSET g = SIT_ENTRY_OFFSET h \<Longrightarrow> g = h"
  by (metis SIT_BLOCK_OFFSET_def SIT_ENTRY_OFFSET_def mult_div_mod_eq)

lemma current_sit_addr_inj:
  assumes "sit_store_ok M d" "g < M" "h < M" "current_sit_addr d g = current_sit_addr d h"
  shows "SIT_BLOCK_OFFSET g = SIT_BLOCK_OFFSET h"
proof -
  have "SIT_BLOCK_OFFSET g < sit_blocks d" "SIT_BLOCK_OFFSET h < sit_blocks d" using assms by (auto simp: sit_store_ok_def)
  then show ?thesis using assms(4) by (auto simp: current_sit_addr_def Let_def split: if_splits)
qed

lemma page_write:
  assumes ok: "sit_store_ok M d" and g: "g < M" "g \<notin> jset d"
    and d2: "d2 = d\<lparr>sit_pages := (sit_pages d)(current_sit_addr d g := (sit_pages d (current_sit_addr d g))(SIT_ENTRY_OFFSET g := raw))\<rparr>"
  shows "sit_store_ok M d2 \<and> jset d2 = jset d \<and> (\<forall>h < M. stored_sit_entry d2 h = (if h = g then raw else stored_sit_entry d h))
    \<and> n_sits d2 = n_sits d \<and> current_sit_addr d2 = current_sit_addr d \<and> discard_list d2 = discard_list d"
proof -
  have js: "jset d2 = jset d" by (simp add: d2 jset_def)
  have cur: "current_sit_addr d2 = current_sit_addr d" by (simp add: d2)
  have "stored_sit_entry d2 h = (if h = g then raw else stored_sit_entry d h)" if h: "h < M" for h
  proof (cases "h \<in> jset d")
    case True
    then obtain i where "find_in_sit_journal d h = Some i" using find_in_sit_journal_None[of d h] by blast
    then show ?thesis using True g by (auto simp: stored_sit_entry_def d2 find_in_sit_journal_def)
  next
    case False
    then show ?thesis
      using stored_in_block[OF False] stored_in_block[of h d2] js cur current_sit_addr_inj[OF ok g(1) h] sit_place[of g h]
      by (auto simp: d2)
  qed
  then show ?thesis using ok js cur by (simp add: sit_store_ok_def) (simp add: d2)
qed

lemma next_sit_page_ok:
  assumes ok: "sit_store_ok M d" and st: "SIT_BLOCK_OFFSET st < sit_blocks d"
    and r: "get_next_sit_page st d = (page, d2)"
  shows "sit_store_ok M d2 \<and> jset d2 = jset d \<and> (\<forall>h < M. stored_sit_entry d2 h = stored_sit_entry d h) \<and> n_sits d2 = n_sits d
    \<and> (\<forall>g. SIT_BLOCK_OFFSET g = SIT_BLOCK_OFFSET st \<longrightarrow> current_sit_addr d2 g = page) \<and> discard_list d2 = discard_list d"
proof -
  let ?o = "SIT_BLOCK_OFFSET st" and ?b = "f2fs_test_bit (SIT_BLOCK_OFFSET st) (sit_bitmap d)"
  have page: "page = sit_base_addr d + (if ?b then ?o else ?o + sit_blocks d)"
    using r st by (auto simp: get_next_sit_page_def Let_def current_sit_addr_def next_sit_addr_def)
  have d2: "d2 = d\<lparr>sit_pages := (sit_pages d)(page := sit_pages d (current_sit_addr d st)), sit_bitmap := sit_bitmap d2\<rparr>"
    using r by (auto simp: get_next_sit_page_def Let_def set_to_next_sit_def)
  have bm: "f2fs_test_bit k (sit_bitmap d2) \<longleftrightarrow> (if k = ?o then \<not> ?b else f2fs_test_bit k (sit_bitmap d))" for k
    using r by (cases ?b) (auto simp: get_next_sit_page_def Let_def set_to_next_sit_def)
  have base: "sit_base_addr d2 = sit_base_addr d" "sit_blocks d2 = sit_blocks d" "n_sits d2 = n_sits d" "sit_j d2 = sit_j d"
    "discard_list d2 = discard_list d" by (subst d2; simp)+
  have pages: "sit_pages d2 = (sit_pages d)(page := sit_pages d (current_sit_addr d st))" by (subst d2) simp
  have js: "jset d2 = jset d" by (simp add: jset_def base)
  have cur: "current_sit_addr d2 g = (if SIT_BLOCK_OFFSET g = ?o then page else current_sit_addr d g)" for g
    by (auto simp: current_sit_addr_def Let_def base bm page)
  have "stored_sit_entry d2 h = stored_sit_entry d h" if h: "h < M" for h
  proof (cases "h \<in> jset d")
    case True
    then obtain i where "find_in_sit_journal d h = Some i" using find_in_sit_journal_None[of d h] by blast
    then show ?thesis by (auto simp: stored_sit_entry_def base find_in_sit_journal_def)
  next
    case False
    have o: "SIT_BLOCK_OFFSET h < sit_blocks d" using ok h by (simp add: sit_store_ok_def)
    have "current_sit_addr d h \<noteq> page" if "SIT_BLOCK_OFFSET h \<noteq> ?o"
      using that o st by (auto simp: page current_sit_addr_def Let_def)
    moreover have "current_sit_addr d h = current_sit_addr d st" if "SIT_BLOCK_OFFSET h = ?o"
      using that by (simp add: current_sit_addr_def)
    ultimately show ?thesis using stored_in_block[OF False] stored_in_block[of h d2] js False by (auto simp: cur pages)
  qed
  then show ?thesis using ok js cur by (simp add: sit_store_ok_def base)
qed

subsection \<open>One entry\<close>

definition synced :: "f2fs_sm_info \<Rightarrow> sit_store \<Rightarrow> bool" where
  "synced s d \<longleftrightarrow> (\<forall>g \<in> segs s. \<not> sm_dirty_sentries_bitmap s g \<longrightarrow>
     stored_sit_entry d g = fst (seg_info_to_raw_sit (sm_sentries s g)))"

definition flushed_entry :: "nat \<Rightarrow> f2fs_sm_info \<Rightarrow> f2fs_sm_info" where
  "flushed_entry g s = s\<lparr>sm_sentries := (sm_sentries s)(g := snd (seg_info_to_raw_sit (sm_sentries s g))),
     sm_dirty_sentries_bitmap := (sm_dirty_sentries_bitmap s)(g := False), sm_dirty_sentries := sm_dirty_sentries s - 1\<rparr>"

text \<open>The checkpoint changes only what was in the last checkpoint, the marks of dirty entries and the
  list of discards, which gets no valid block.\<close>

definition flush_rel :: "cp_control \<Rightarrow> f2fs_sm_info \<Rightarrow> sit_store \<Rightarrow> cp_control \<Rightarrow> f2fs_sm_info \<Rightarrow> sit_store \<Rightarrow> bool" where
  "flush_rel cpc s d cpc' s' d' \<longleftrightarrow>
     s' = s\<lparr>sm_sentries := sm_sentries s', sm_dirty_sentries_bitmap := sm_dirty_sentries_bitmap s', sm_dirty_sentries := sm_dirty_sentries s'\<rparr>
     \<and> (\<forall>g. sm_sentries s' g = (sm_sentries s g)\<lparr>se_ckpt_map := se_ckpt_map (sm_sentries s' g),
          se_ckpt_valid_blocks := se_ckpt_valid_blocks (sm_sentries s' g)\<rparr>)
     \<and> cp_reason cpc' = cp_reason cpc \<and> trim_end cpc' = trim_end cpc
     \<and> (\<exists>new. discard_list d' = discard_list d @ new \<and> (\<forall>(b, len) \<in> set new. \<forall>k < len. \<not> blk_valid s (b + of_nat k)))"

lemma flush_relD:
  assumes r: "flush_rel cpc s d cpc' s' d'"
  shows "sm_main_segments s' = sm_main_segments s" "same_geo s s'" "vbit s' = vbit s" "blk_valid s' = blk_valid s"
    "nvalid s' g = nvalid s g" "fst (seg_info_to_raw_sit (sm_sentries s' g)) = fst (seg_info_to_raw_sit (sm_sentries s g))"
    "sm_free_segmap s' = sm_free_segmap s" "cp_reason cpc' = cp_reason cpc" "trim_end cpc' = trim_end cpc"
proof -
  have s': "s' = s\<lparr>sm_sentries := sm_sentries s', sm_dirty_sentries_bitmap := sm_dirty_sentries_bitmap s', sm_dirty_sentries := sm_dirty_sentries s'\<rparr>"
    and se: "\<And>g. sm_sentries s' g = (sm_sentries s g)\<lparr>se_ckpt_map := se_ckpt_map (sm_sentries s' g),
          se_ckpt_valid_blocks := se_ckpt_valid_blocks (sm_sentries s' g)\<rparr>"
    using r unfolding flush_rel_def by blast+
  show "sm_main_segments s' = sm_main_segments s" "sm_free_segmap s' = sm_free_segmap s" by (subst s', simp)+
  show sg: "same_geo s s'" by (subst s') (simp add: same_geo_def)
  show v: "vbit s' = vbit s" unfolding vbit_def fun_eq_iff by (subst se) simp
  show "blk_valid s' = blk_valid s" by (simp add: blk_valid_def fun_eq_iff v same_geoD[OF sg])
  show "nvalid s' g = nvalid s g" by (subst se) simp
  show "fst (seg_info_to_raw_sit (sm_sentries s' g)) = fst (seg_info_to_raw_sit (sm_sentries s g))"
    by (subst se) (simp add: seg_info_to_raw_sit_def)
  show "cp_reason cpc' = cp_reason cpc" "trim_end cpc' = trim_end cpc" using r by (auto simp: flush_rel_def)
qed

lemma flush_rel_trans:
  assumes a: "flush_rel c1 s1 d1 c2 s2 d2" and b: "flush_rel c2 s2 d2 c3 s3 d3"
  shows "flush_rel c1 s1 d1 c3 s3 d3"
  unfolding flush_rel_def
proof (intro conjI allI)
  have s2: "s2 = s1\<lparr>sm_sentries := sm_sentries s2, sm_dirty_sentries_bitmap := sm_dirty_sentries_bitmap s2, sm_dirty_sentries := sm_dirty_sentries s2\<rparr>"
    using a unfolding flush_rel_def by blast
  have "s3 = s2\<lparr>sm_sentries := sm_sentries s3, sm_dirty_sentries_bitmap := sm_dirty_sentries_bitmap s3, sm_dirty_sentries := sm_dirty_sentries s3\<rparr>"
    using b unfolding flush_rel_def by blast
  also have "\<dots> = s1\<lparr>sm_sentries := sm_sentries s3, sm_dirty_sentries_bitmap := sm_dirty_sentries_bitmap s3, sm_dirty_sentries := sm_dirty_sentries s3\<rparr>"
    by (subst s2) simp
  finally show "s3 = \<dots>" .
next
  fix g
  have e2: "sm_sentries s2 g = (sm_sentries s1 g)\<lparr>se_ckpt_map := se_ckpt_map (sm_sentries s2 g),
      se_ckpt_valid_blocks := se_ckpt_valid_blocks (sm_sentries s2 g)\<rparr>" using a unfolding flush_rel_def by blast
  have "sm_sentries s3 g = (sm_sentries s2 g)\<lparr>se_ckpt_map := se_ckpt_map (sm_sentries s3 g),
      se_ckpt_valid_blocks := se_ckpt_valid_blocks (sm_sentries s3 g)\<rparr>" using b unfolding flush_rel_def by blast
  also have "\<dots> = (sm_sentries s1 g)\<lparr>se_ckpt_map := se_ckpt_map (sm_sentries s3 g),
      se_ckpt_valid_blocks := se_ckpt_valid_blocks (sm_sentries s3 g)\<rparr>" by (subst e2) simp
  finally show "sm_sentries s3 g = \<dots>" .
next
  obtain n1 n2 where "discard_list d2 = discard_list d1 @ n1" "discard_list d3 = discard_list d2 @ n2"
    "\<forall>(b, len) \<in> set n1. \<forall>k < len. \<not> blk_valid s1 (b + of_nat k)" "\<forall>(b, len) \<in> set n2. \<forall>k < len. \<not> blk_valid s2 (b + of_nat k)"
    using a b unfolding flush_rel_def by blast
  then show "\<exists>new. discard_list d3 = discard_list d1 @ new \<and> (\<forall>(b, len) \<in> set new. \<forall>k < len. \<not> blk_valid s1 (b + of_nat k))"
    using flush_relD(4)[OF a] by (intro exI[of _ "n1 @ n2"]) auto
qed (use a b in \<open>auto simp: flush_rel_def\<close>)

lemma flush_rel_same: "discard_list d' = discard_list d \<Longrightarrow> flush_rel cpc s d cpc s d'"
  by (simp add: flush_rel_def)

lemma flushed_bits: "vbit (flushed_entry g s) = vbit s" "cbit (flushed_entry g s) h i \<longleftrightarrow> (if h = g then vbit s g i else cbit s h i)"
  by (simp_all add: vbit_def cbit_def fun_eq_iff flushed_entry_def seg_info_to_raw_sit_def)

lemma seg_sit_flushed:
  assumes sit: "seg_sit s" and g: "g < sm_main_segments s" "sm_dirty_sentries_bitmap s g"
  shows "seg_sit (flushed_entry g s)"
proof -
  let ?s = "flushed_entry g s"
  have nv: "nvalid ?s h = nvalid s h" for h by (simp add: flushed_entry_def seg_info_to_raw_sit_def)
  have "entry_ok ?s h" if h: "h \<in> segs s" for h
  proof -
    have "entry_ok s h" using sit h by (simp add: seg_sit_def)
    then show ?thesis
      unfolding entry_ok_def flushed_bits nv
      by (cases "h = g"; simp only: if_True if_False) (simp_all add: flushed_entry_def seg_info_to_raw_sit_def blocks_per_seg_def)
  qed
  moreover have "sm_dirty_sentries ?s = of_nat (card {h \<in> segs ?s. sm_dirty_sentries_bitmap ?s h})"
  proof -
    have "{h \<in> segs ?s. sm_dirty_sentries_bitmap ?s h} = {h \<in> segs s. h \<noteq> g \<and> sm_dirty_sentries_bitmap s h}"
      by (auto simp: flushed_entry_def)
    then show ?thesis
      using count_less[OF card_less[of "segs s" g "sm_dirty_sentries_bitmap s"], of "sm_dirty_sentries s"] sit g
      by (simp add: seg_sit_def flushed_entry_def)
  qed
  ultimately show ?thesis using sit unfolding seg_sit_def nv by (simp add: flushed_entry_def section_of_def)
qed

definition ckpt_ok :: "f2fs_sm_info \<Rightarrow> sit_store \<Rightarrow> bool" where
  "ckpt_ok s d \<longleftrightarrow> seg_geo s \<and> seg_sit s \<and> sit_store_ok (sm_main_segments s) d \<and> synced s d"

lemma discards_other:
  assumes "d' = d\<lparr>discard_list := l, nr_discards := c\<rparr> \<or> d' = d\<lparr>discard_list := l, nr_discards := c, max_discards := x\<rparr>"
  shows "jset d' = jset d" "n_sits d' = n_sits d" "stored_sit_entry d' = stored_sit_entry d"
    "current_sit_addr d' = current_sit_addr d" "sit_store_ok M d' = sit_store_ok M d" "sit_blocks d' = sit_blocks d"
proof -
  show j: "jset d' = jset d" and n: "n_sits d' = n_sits d" "current_sit_addr d' = current_sit_addr d" "sit_blocks d' = sit_blocks d"
    using assms by (auto simp: jset_def)
  show "stored_sit_entry d' = stored_sit_entry d"
    using assms by (auto simp: stored_sit_entry_def find_in_sit_journal_def fun_eq_iff split: option.split)
  show "sit_store_ok M d' = sit_store_ok M d" unfolding sit_store_ok_def j n using assms by auto
qed

lemma discard_step:
  assumes geo: "seg_geo s" and sit: "seg_sit s" and g: "g < sm_main_segments s"
  shows "\<exists>cpc' d'. (if b then add_discard_addrs s (cpc\<lparr>trim_start := g\<rparr>, d) else Some (cpc, d)) = Some (cpc', d')
    \<and> flush_rel cpc s d cpc' s d' \<and> d' = d\<lparr>discard_list := discard_list d', nr_discards := nr_discards d'\<rparr>"
proof (cases b)
  case True
  obtain cpc' d' where a: "add_discard_addrs s (cpc\<lparr>trim_start := g\<rparr>, d) = Some (cpc', d')"
      "discards_only (\<lambda>b. \<not> blk_valid s b) (cpc\<lparr>trim_start := g\<rparr>, d) (cpc', d')"
    using add_discard_addrs_ok[OF geo sit, of "(cpc\<lparr>trim_start := g\<rparr>, d)"] g by auto
  obtain new where d': "d' = d\<lparr>discard_list := discard_list d @ new, nr_discards := nr_discards d'\<rparr>"
      "\<forall>(b, len) \<in> set new. \<forall>k < len. \<not> blk_valid s (b + of_nat k)" "cpc' = cpc\<lparr>trim_start := g, trimmed := trimmed cpc'\<rparr>"
    using a(2) unfolding discards_only_def by auto
  have l: "discard_list d' = discard_list d @ new" "cp_reason cpc' = cp_reason cpc" "trim_end cpc' = trim_end cpc"
    by (subst d'(1), simp) (subst d'(3), simp)+
  have "flush_rel cpc s d cpc' s d'" unfolding flush_rel_def using l d'(2) by auto
  moreover have "d' = d\<lparr>discard_list := discard_list d', nr_discards := nr_discards d'\<rparr>" using d'(1) l(1) by simp
  ultimately show ?thesis using a(1) True by simp
qed (simp add: flush_rel_same)

lemma flush_sit_entry_ok:
  assumes ok: "ckpt_ok s d" and g: "g < sm_main_segments s"
    and place: "sm_dirty_sentries_bitmap s g \<Longrightarrow>
      if tj then g \<in> jset d \<or> n_sits d < SIT_JOURNAL_ENTRIES else page = current_sit_addr d g \<and> g \<notin> jset d"
  shows "\<exists>cpc' s' d'. flush_sit_entry tj page g (cnt, cpc, s, d)
      = Some (if sm_dirty_sentries_bitmap s g then cnt - 1 else cnt, cpc', s', d')
    \<and> flush_rel cpc s d cpc' s' d' \<and> sm_dirty_sentries_bitmap s' = (sm_dirty_sentries_bitmap s)(g := False) \<and> ckpt_ok s' d'
    \<and> n_sits d' \<le> n_sits d + (if tj \<and> sm_dirty_sentries_bitmap s g then 1 else 0)
    \<and> jset d' = (if tj \<and> sm_dirty_sentries_bitmap s g then insert g (jset d) else jset d)
    \<and> (\<not> tj \<longrightarrow> current_sit_addr d' = current_sit_addr d)"
proof (cases "sm_dirty_sentries_bitmap s g")
  case False
  then show ?thesis using ok by (simp add: flush_sit_entry_def flush_rel_same fun_upd_idem)
next
  case True
  have geo: "seg_geo s" and sit: "seg_sit s" and st: "sit_store_ok (sm_main_segments s) d" and syn: "synced s d"
    using ok by (auto simp: ckpt_ok_def)
  let ?raw = "fst (seg_info_to_raw_sit (sm_sentries s g))"
  obtain cpc1 d1 where d1: "(if nr_discards d < max_discards d then add_discard_addrs s (cpc\<lparr>trim_start := g\<rparr>, d) else Some (cpc, d)) = Some (cpc1, d1)"
      "flush_rel cpc s d cpc1 s d1" "d1 = d\<lparr>discard_list := discard_list d1, nr_discards := nr_discards d1\<rparr>"
    using discard_step[OF geo sit g, of "nr_discards d < max_discards d" cpc d] by (elim exE conjE) (rule that)
  note o1 = discards_other[OF disjI1[OF d1(3)]]
  obtain d2 where d2: "(if tj then case lookup_sit_journal d1 g of (None, d) \<Rightarrow> None
            | (Some offset, d) \<Rightarrow> Some (d\<lparr>sit_j := (sit_j d)(offset := (g, ?raw))\<rparr>)
          else Some (d1\<lparr>sit_pages := (sit_pages d1)(page := (sit_pages d1 page)(SIT_ENTRY_OFFSET g := ?raw))\<rparr>)) = Some d2"
      "sit_store_ok (sm_main_segments s) d2" "jset d2 = (if tj then insert g (jset d1) else jset d1)"
      "\<forall>h < sm_main_segments s. stored_sit_entry d2 h = (if h = g then ?raw else stored_sit_entry d1 h)"
      "n_sits d2 \<le> n_sits d1 + (if tj then 1 else 0)" "\<not> tj \<longrightarrow> current_sit_addr d2 = current_sit_addr d1" "discard_list d2 = discard_list d1"
  proof (cases tj)
    case tj: True
    have sp: "g \<in> jset d1 \<or> n_sits d1 < SIT_JOURNAL_ENTRIES" using place[OF True] tj by (simp add: o1)
    obtain off d0 dd where j: "lookup_sit_journal d1 g = (Some off, d0)" "dd = d0\<lparr>sit_j := (sit_j d0)(off := (g, ?raw))\<rparr>"
      "sit_store_ok (sm_main_segments s) dd" "jset dd = insert g (jset d1)"
      "\<forall>h. stored_sit_entry dd h = (if h = g then ?raw else stored_sit_entry d1 h)" "n_sits dd \<le> n_sits d1 + 1"
      "discard_list dd = discard_list d1"
      using journal_write[OF st[folded o1(5)] g sp, where raw = ?raw] by blast
    show ?thesis by (rule that[of dd]) (use j tj in simp_all)
  next
    case tj: False
    then have pg: "page = current_sit_addr d1 g" "g \<notin> jset d1" using place[OF True] by (auto simp: o1)
    define dd where "dd = d1\<lparr>sit_pages := (sit_pages d1)(page := (sit_pages d1 page)(SIT_ENTRY_OFFSET g := ?raw))\<rparr>"
    note w = page_write[OF st[folded o1(5)] g pg(2) dd_def[unfolded pg(1)]]
    show ?thesis by (rule that[of dd]) (use w tj in \<open>simp_all add: dd_def[symmetric]\<close>)
  qed
  have step: "flush_sit_entry tj page g (cnt, cpc, s, d) = Some (cnt - 1, cpc1, flushed_entry g s, d2)"
    by (simp only: flush_sit_entry_def prod.case True get_seg_entry_def g d1(1) if_True bind.bind_lunit Let_def case_prod_beta
        flushed_entry_def fst_conv snd_conv d2(1)[unfolded case_prod_beta])
  have r: "flush_rel cpc s d cpc1 (flushed_entry g s) d2"
  proof (rule flush_rel_trans[OF d1(2)])
    show "flush_rel cpc1 s d1 cpc1 (flushed_entry g s) d2" using d2(7) by (simp add: flush_rel_def flushed_entry_def seg_info_to_raw_sit_def)
  qed
  have "synced (flushed_entry g s) d2"
    using syn d2(4) o1(3) by (simp add: synced_def flush_relD[OF r]) (simp add: flushed_entry_def)
  then have "ckpt_ok (flushed_entry g s) d2"
    using geo seg_sit_flushed[OF sit g True] d2(2) flush_relD(1,2)[OF r] by (simp add: ckpt_ok_def same_geoD)
  then show ?thesis using step r d2(3,5,6) o1 True by (simp add: flushed_entry_def)
qed

end
