(* ===== verification/F2fsSitCkpt.thy ===== *)
theory F2fsSitCkpt
  imports F2fsSitFlush
begin

text \<open>
  The whole checkpoint of the segment information: all dirty entries are written, with the journal or
  the SIT blocks chosen set by set, and the invariant of the entries is kept.
\<close>

subsection \<open>The entries of one block\<close>

definition dirty_in :: "f2fs_sm_info \<Rightarrow> nat \<Rightarrow> nat \<Rightarrow> nat set" where
  "dirty_in s a b = {g \<in> {a ..< b}. sm_dirty_sentries_bitmap s g}"

lemma dirty_in_step: "a < b \<Longrightarrow> dirty_in s a b = (if sm_dirty_sentries_bitmap s a then insert a (dirty_in s (Suc a) b) else dirty_in s (Suc a) b)"
  by (auto simp: dirty_in_def le_eq_less_or_eq Suc_le_eq)

lemma dirty_in_finite [simp]: "finite (dirty_in s a b)"
  by (simp add: dirty_in_def)

lemma flush_region_ok:
  "\<lbrakk>ckpt_ok s d; b \<le> sm_main_segments s; tj \<Longrightarrow> n_sits d + card (dirty_in s a b) \<le> SIT_JOURNAL_ENTRIES;
    \<And>g. \<not> tj \<Longrightarrow> g \<in> {a ..< b} \<Longrightarrow> page = current_sit_addr d g \<and> (sm_dirty_sentries_bitmap s g \<longrightarrow> g \<notin> jset d)\<rbrakk>
   \<Longrightarrow> \<exists>cpc' s' d'. foldM (flush_sit_entry tj page) [a ..< b] (cnt, cpc, s, d)
        = Some (cnt - of_nat (card (dirty_in s a b)), cpc', s', d')
      \<and> flush_rel cpc s d cpc' s' d' \<and> sm_dirty_sentries_bitmap s' = (\<lambda>g. sm_dirty_sentries_bitmap s g \<and> g \<notin> {a ..< b}) \<and> ckpt_ok s' d'
      \<and> n_sits d' \<le> n_sits d + (if tj then card (dirty_in s a b) else 0) \<and> jset d' \<subseteq> jset d \<union> dirty_in s a b"
proof (induction "b - a" arbitrary: a s d cnt cpc)
  case 0
  then have e: "[a ..< b] = []" "dirty_in s a b = {}" "{a ..< b} = {}" by (auto simp: dirty_in_def)
  show ?case using 0(2) by (simp only: e) (simp add: flush_rel_same)
next
  case (Suc n)
  then have ab: "a < b" and n: "n = b - Suc a" by auto
  let ?D = "sm_dirty_sentries_bitmap s a"
  have card: "card (dirty_in s a b) = (if ?D then Suc (card (dirty_in s (Suc a) b)) else card (dirty_in s (Suc a) b))"
    unfolding dirty_in_step[OF ab] by (simp add: dirty_in_def)
  have place: "if tj then a \<in> jset d \<or> n_sits d < SIT_JOURNAL_ENTRIES else page = current_sit_addr d a \<and> a \<notin> jset d" if "?D"
    using Suc.prems(3) Suc.prems(4)[of a] card that ab by auto
  obtain cpc1 s1 d1 where st: "flush_sit_entry tj page a (cnt, cpc, s, d) = Some (if ?D then cnt - 1 else cnt, cpc1, s1, d1)"
      "flush_rel cpc s d cpc1 s1 d1" "sm_dirty_sentries_bitmap s1 = (sm_dirty_sentries_bitmap s)(a := False)" "ckpt_ok s1 d1"
      "n_sits d1 \<le> n_sits d + (if tj \<and> ?D then 1 else 0)" "jset d1 = (if tj \<and> ?D then insert a (jset d) else jset d)"
      "\<not> tj \<longrightarrow> current_sit_addr d1 = current_sit_addr d"
    using flush_sit_entry_ok[OF Suc.prems(1), of a tj page cnt cpc] place ab Suc.prems(2) by auto
  have D1: "dirty_in s1 (Suc a) b = dirty_in s (Suc a) b" using st(3) by (auto simp: dirty_in_def)
  let ?cnt = "if ?D then cnt - 1 else cnt"
  have "\<exists>cpc' s' d'. foldM (flush_sit_entry tj page) [Suc a ..< b] (?cnt, cpc1, s1, d1)
        = Some (?cnt - of_nat (card (dirty_in s1 (Suc a) b)), cpc', s', d')
      \<and> flush_rel cpc1 s1 d1 cpc' s' d' \<and> sm_dirty_sentries_bitmap s' = (\<lambda>g. sm_dirty_sentries_bitmap s1 g \<and> g \<notin> {Suc a ..< b}) \<and> ckpt_ok s' d'
      \<and> n_sits d' \<le> n_sits d1 + (if tj then card (dirty_in s1 (Suc a) b) else 0) \<and> jset d' \<subseteq> jset d1 \<union> dirty_in s1 (Suc a) b"
  proof (rule Suc.hyps(1)[OF n st(4)])
    show "b \<le> sm_main_segments s1" using Suc.prems(2) flush_relD(1)[OF st(2)] by simp
    show "n_sits d1 + card (dirty_in s1 (Suc a) b) \<le> SIT_JOURNAL_ENTRIES" if tj
      using Suc.prems(3)[OF that] st(5) that card unfolding D1 by (auto split: if_splits)
    show "page = current_sit_addr d1 g \<and> (sm_dirty_sentries_bitmap s1 g \<longrightarrow> g \<notin> jset d1)" if "\<not> tj" "g \<in> {Suc a ..< b}" for g
      using Suc.prems(4)[of g] that st(3,6,7) by auto
  qed
  then obtain cpc' s' d' where r: "foldM (flush_sit_entry tj page) [Suc a ..< b] (?cnt, cpc1, s1, d1)
        = Some (?cnt - of_nat (card (dirty_in s (Suc a) b)), cpc', s', d')"
      "flush_rel cpc1 s1 d1 cpc' s' d'" "sm_dirty_sentries_bitmap s' = (\<lambda>g. sm_dirty_sentries_bitmap s1 g \<and> g \<notin> {Suc a ..< b})" "ckpt_ok s' d'"
      "n_sits d' \<le> n_sits d1 + (if tj then card (dirty_in s (Suc a) b) else 0)" "jset d' \<subseteq> jset d1 \<union> dirty_in s (Suc a) b"
    unfolding D1 by blast
  have "foldM (flush_sit_entry tj page) [a ..< b] (cnt, cpc, s, d) = Some (cnt - of_nat (card (dirty_in s a b)), cpc', s', d')"
    using st(1) r(1) by (simp add: upt_conv_Cons[OF ab] card)
  moreover have "sm_dirty_sentries_bitmap s' = (\<lambda>g. sm_dirty_sentries_bitmap s g \<and> g \<notin> {a ..< b})"
    using r(3) st(3) ab by (auto simp: fun_eq_iff)
  moreover have "n_sits d' \<le> n_sits d + (if tj then card (dirty_in s a b) else 0)" using r(5) st(5) card by (auto split: if_splits)
  moreover have "jset d' \<subseteq> jset d \<union> dirty_in s a b" using r(6) st(6) dirty_in_step[OF ab, of s] by (auto split: if_splits)
  ultimately show ?case using flush_rel_trans[OF st(2) r(2)] r(4) by blast
qed

subsection \<open>The sets\<close>

lemma sint_count: "k < 2 ^ 31 \<Longrightarrow> sint (of_nat k :: u32) = int k"
  by (simp add: signed_of_nat signed_take_bit_int_eq_self)

lemma region_interval:
  assumes "\<And>g. g \<in> D \<Longrightarrow> g < M" "st = START_SEGNO h"
  shows "region D st = {g \<in> {st ..< min (st + SIT_ENTRY_PER_BLOCK) M}. g \<in> D}"
proof -
  have "START_SEGNO g = st \<longleftrightarrow> st \<le> g \<and> g < st + SIT_ENTRY_PER_BLOCK" for g
    unfolding assms(2) START_SEGNO_def SIT_BLOCK_OFFSET_def SIT_ENTRY_PER_BLOCK_def by auto
  then show ?thesis using assms(1) by (auto simp: region_def)
qed

lemma card_region: "card (region D st) \<le> SIT_ENTRY_PER_BLOCK"
proof -
  have "region D st \<subseteq> {st ..< st + SIT_ENTRY_PER_BLOCK}"
    unfolding region_def START_SEGNO_def SIT_BLOCK_OFFSET_def SIT_ENTRY_PER_BLOCK_def by auto
  from card_mono[OF _ this] show ?thesis by simp
qed

lemma sets_ok_Cons:
  assumes ok: "sets_ok D ((st, c) # rest)" and fin: "finite D"
  shows "c = of_nat (card (region D st))" "region D st \<noteq> {}" "sets_ok (D - region D st) rest"
proof -
  have m: "map_of ((st, c) # rest) u = (if card (region D u) = 0 then None else Some (of_nat (card (region D u))))" for u
    using ok unfolding sets_ok_def by blast
  show c: "c = of_nat (card (region D st))" "region D st \<noteq> {}" using m[of st] by (auto split: if_splits)
  have "map_of rest u = (if card (region (D - region D st) u) = 0 then None else Some (of_nat (card (region (D - region D st) u))))" for u
  proof (cases "u = st")
    case True
    have "region (D - region D st) st = {}" by (auto simp: region_def)
    moreover have "map_of rest st = None" using ok by (simp add: sets_ok_def map_of_eq_None_iff)
    ultimately show ?thesis using True by simp
  next
    case False
    then have "region (D - region D st) u = region D u" by (auto simp: region_def)
    then show ?thesis using m[of u] False by simp
  qed
  then show "sets_ok (D - region D st) rest" using ok by (simp add: sets_ok_def)
qed

lemma sets_ok_Nil: "sets_ok D [] \<Longrightarrow> finite D \<Longrightarrow> D = {}"
proof (rule ccontr)
  assume a: "sets_ok D []" "finite D" "D \<noteq> {}"
  then obtain g where g: "g \<in> D" by blast
  have "finite (region D (START_SEGNO g))" using a(2) by (simp add: region_def)
  moreover have "g \<in> region D (START_SEGNO g)" using g by (simp add: region_def)
  ultimately have "card (region D (START_SEGNO g)) \<noteq> 0" by auto
  then show False using a(1) by (auto simp: sets_ok_def split: if_splits)
qed

definition dirty_set :: "f2fs_sm_info \<Rightarrow> nat set" where
  "dirty_set s = {g \<in> segs s. sm_dirty_sentries_bitmap s g}"

lemma dirty_set_finite [simp]: "finite (dirty_set s)"
  by (simp add: dirty_set_def)

text \<open>The page that is written, if the set does not go to the journal.\<close>

lemma flush_page_ok:
  assumes ok: "ckpt_ok s d" and h: "h \<in> segs s" "st = START_SEGNO h"
    and r: "(page, d1) = (if tj then (0, d) else get_next_sit_page st d)"
  shows "ckpt_ok s d1 \<and> jset d1 = jset d \<and> n_sits d1 = n_sits d \<and> flush_rel cpc s d cpc s d1
    \<and> (\<not> tj \<longrightarrow> (\<forall>g \<in> {st ..< st + SIT_ENTRY_PER_BLOCK}. current_sit_addr d1 g = page))"
proof (cases tj)
  case True
  then show ?thesis using r ok by (simp add: flush_rel_same)
next
  case False
  have o: "SIT_BLOCK_OFFSET g = SIT_BLOCK_OFFSET h" if "g \<in> {st ..< st + SIT_ENTRY_PER_BLOCK}" for g
    using that unfolding h(2) START_SEGNO_def SIT_BLOCK_OFFSET_def SIT_ENTRY_PER_BLOCK_def by auto
  have sto: "sit_store_ok (sm_main_segments s) d" using ok by (simp add: ckpt_ok_def)
  have st: "SIT_BLOCK_OFFSET st = SIT_BLOCK_OFFSET h" by (rule o) (simp add: SIT_ENTRY_PER_BLOCK_def)
  then have "SIT_BLOCK_OFFSET st < sit_blocks d" using sto h(1) by (simp add: sit_store_ok_def)
  from next_sit_page_ok[OF sto this, of page d1] r False
  have "sit_store_ok (sm_main_segments s) d1" "jset d1 = jset d" "\<forall>h < sm_main_segments s. stored_sit_entry d1 h = stored_sit_entry d h"
    "n_sits d1 = n_sits d" "discard_list d1 = discard_list d" "\<forall>g. SIT_BLOCK_OFFSET g = SIT_BLOCK_OFFSET st \<longrightarrow> current_sit_addr d1 g = page"
    by auto
  then show ?thesis using ok o st by (simp add: ckpt_ok_def synced_def flush_rel_same)
qed

lemma flush_sit_sets_ok:
  "\<lbrakk>ckpt_ok s d; sets_ok (dirty_set s) sets;
    tj \<and> n_sits d + card (dirty_set s) \<le> SIT_JOURNAL_ENTRIES \<or> jset d \<inter> dirty_set s = {}\<rbrakk>
   \<Longrightarrow> \<exists>cpc' s' d'. flush_sit_sets sets tj (cpc, s, d) = Some (cpc', s', d')
      \<and> flush_rel cpc s d cpc' s' d' \<and> ckpt_ok s' d' \<and> dirty_set s' = {}"
proof (induction sets arbitrary: tj cpc s d)
  case Nil
  then show ?case using sets_ok_Nil[of "dirty_set s"] by (simp add: flush_rel_same)
next
  case (Cons ses rest)
  let ?M = "sm_main_segments s" and ?D = "dirty_set s"
  obtain st c where ses: "ses = (st, c)" by (cases ses)
  have ok: "sets_ok ?D ((st, c) # rest)" using Cons.prems(2) ses by simp
  note so = sets_ok_Cons[OF ok dirty_set_finite]
  obtain h where h: "h \<in> segs s" "st = START_SEGNO h" using so(2) by (auto simp: region_def dirty_set_def)
  let ?fin = "min (st + SIT_ENTRY_PER_BLOCK) ?M" and ?k = "card (region ?D st)"
  have reg: "region ?D st = dirty_in s st ?fin"
    using region_interval[of ?D ?M st h] h(2) by (auto simp: dirty_in_def dirty_set_def)
  have k: "?k \<le> 55" using card_region[of ?D st] by (simp add: SIT_ENTRY_PER_BLOCK_def)
  have sc: "sint c = int ?k" unfolding so(1) by (rule sint_count) (use k in simp)
  have n6: "n_sits d \<le> SIT_JOURNAL_ENTRIES" using Cons.prems(1) by (simp add: ckpt_ok_def sit_store_ok_def)
  define tj1 where "tj1 = (tj \<and> has_sit_space d (sint c))"
  have tj1: "tj1 \<longleftrightarrow> tj \<and> n_sits d + ?k \<le> SIT_JOURNAL_ENTRIES" using n6 by (auto simp: tj1_def has_sit_space_def sc)
  have split_D: "card ?D = ?k + card (?D - region ?D st)"
    using card_Diff_subset[of "region ?D st" ?D] card_mono[of ?D "region ?D st"] by (auto simp: region_def)
  obtain page d1 where pd: "(page, d1) = (if tj1 then (0, d) else get_next_sit_page st d)"
    by (cases "if tj1 then (0, d) else get_next_sit_page st d") auto
  note p = flush_page_ok[OF Cons.prems(1) h pd, of cpc]
  have r: "\<exists>cpc' s' d'. foldM (flush_sit_entry tj1 page) [st ..< ?fin] (c, cpc, s, d1) = Some (c - of_nat (card (dirty_in s st ?fin)), cpc', s', d')
      \<and> flush_rel cpc s d1 cpc' s' d' \<and> sm_dirty_sentries_bitmap s' = (\<lambda>g. sm_dirty_sentries_bitmap s g \<and> g \<notin> {st ..< ?fin}) \<and> ckpt_ok s' d'
      \<and> n_sits d' \<le> n_sits d1 + (if tj1 then card (dirty_in s st ?fin) else 0) \<and> jset d' \<subseteq> jset d1 \<union> dirty_in s st ?fin"
  proof (rule flush_region_ok)
    show "ckpt_ok s d1" using p by blast
    show "n_sits d1 + card (dirty_in s st ?fin) \<le> SIT_JOURNAL_ENTRIES" if tj1 using that tj1 p reg by simp
    show "page = current_sit_addr d1 g \<and> (sm_dirty_sentries_bitmap s g \<longrightarrow> g \<notin> jset d1)" if "\<not> tj1" "g \<in> {st ..< ?fin}" for g
    proof -
      have "jset d \<inter> ?D = {}" using Cons.prems(3) that(1) tj1 split_D by linarith
      then show ?thesis using that p by (auto simp: dirty_set_def)
    qed
  qed simp
  then obtain cpc2 s2 d2 where r: "foldM (flush_sit_entry tj1 page) [st ..< ?fin] (c, cpc, s, d1) = Some (0, cpc2, s2, d2)"
      "flush_rel cpc s d1 cpc2 s2 d2" "sm_dirty_sentries_bitmap s2 = (\<lambda>g. sm_dirty_sentries_bitmap s g \<and> g \<notin> {st ..< ?fin})" "ckpt_ok s2 d2"
      "n_sits d2 \<le> n_sits d + (if tj1 then ?k else 0)" "jset d2 \<subseteq> jset d \<union> region ?D st"
    using p so(1) unfolding reg[symmetric] by (elim exE conjE) (rule that, simp_all)
  have D2: "dirty_set s2 = ?D - region ?D st"
    using r(3) flush_relD(1)[OF r(2)] unfolding reg by (auto simp: dirty_set_def dirty_in_def)
  have cond: "tj1 \<and> n_sits d2 + card (dirty_set s2) \<le> SIT_JOURNAL_ENTRIES \<or> jset d2 \<inter> dirty_set s2 = {}"
  proof (cases "jset d \<inter> ?D = {}")
    case True
    then show ?thesis using r(6) D2 by auto
  next
    case False
    then show ?thesis using Cons.prems(3) tj1 split_D r(5) D2 by auto
  qed
  obtain cpc3 s3 d3 where r3: "flush_sit_sets rest tj1 (cpc2, s2, d2) = Some (cpc3, s3, d3)" "flush_rel cpc2 s2 d2 cpc3 s3 d3" "ckpt_ok s3 d3" "dirty_set s3 = {}"
    using Cons.IH[OF r(4) so(3)[folded D2] cond] by blast
  have "flush_sit_sets (ses # rest) tj (cpc, s, d) = Some (cpc3, s3, d3)"
    by (simp only: flush_sit_sets.simps ses fst_conv snd_conv Let_def tj1_def[symmetric] pd[symmetric] prod.case r(1))
      (simp add: bug_on_def r3(1))
  moreover have "flush_rel cpc s d cpc3 s3 d3" using p flush_rel_trans[OF _ flush_rel_trans[OF r(2) r3(2)]] by blast
  ultimately show ?case using r3(3,4) by blast
qed

subsection \<open>The journal is emptied\<close>

lemma mark_sit_entry_dirty_fields:
  "sm_dirty_sentries_bitmap (mark_sit_entry_dirty g s) = (sm_dirty_sentries_bitmap s)(g := True)"
  "sm_sentries (mark_sit_entry_dirty g s) = sm_sentries s" "sm_main_segments (mark_sit_entry_dirty g s) = sm_main_segments s"
  "discard_list d' = discard_list d \<Longrightarrow> flush_rel cpc s d cpc (mark_sit_entry_dirty g s) d'"
  by (auto simp: mark_sit_entry_dirty_def fun_upd_idem flush_rel_def)

lemma seg_sit_mark:
  assumes sit: "seg_sit s" and g: "g < sm_main_segments s"
  shows "seg_sit (mark_sit_entry_dirty g s)"
proof (cases "sm_dirty_sentries_bitmap s g")
  case True
  then show ?thesis using sit by (simp add: mark_sit_entry_dirty_def)
next
  case False
  let ?s = "s\<lparr>sm_dirty_sentries_bitmap := (sm_dirty_sentries_bitmap s)(g := True), sm_dirty_sentries := sm_dirty_sentries s + 1\<rparr>"
  have "{h \<in> segs s. sm_dirty_sentries_bitmap ?s h} = {h \<in> segs s. h = g \<or> sm_dirty_sentries_bitmap s h}" by auto
  then have "sm_dirty_sentries ?s = of_nat (card {h \<in> segs ?s. sm_dirty_sentries_bitmap ?s h})"
    using sit g False card_more[of "segs s" g "sm_dirty_sentries_bitmap s"] by (simp add: seg_sit_def)
  moreover have "entry_ok ?s h" if "h \<in> segs s" for h
    using sit that by (auto simp: seg_sit_def entry_ok_def vbit_def cbit_def blocks_per_seg_def)
  ultimately have "seg_sit ?s" using sit unfolding seg_sit_def by (simp add: section_of_def)
  then show ?thesis using False by (simp add: mark_sit_entry_dirty_def)
qed

lemma remove_sits_in_journal_ok:
  assumes ok: "ckpt_ok s d" and sets: "sets_ok (dirty_set s) head"
  shows "\<exists>head' s' d'. remove_sits_in_journal head s d = (head', s', d') \<and> sets_ok (dirty_set s') head'
    \<and> ckpt_ok s' d' \<and> flush_rel cpc s d cpc s' d' \<and> jset d' = {}"
proof -
  let ?f = "\<lambda>(head, s) i. let segno = fst (sit_j d i) in
    (if sm_dirty_sentries_bitmap s segno then head else add_sit_entry segno head, mark_sit_entry_dirty segno s)"
  have sto: "sit_store_ok (sm_main_segments s) d" using ok by (simp add: ckpt_ok_def)
  have loop: "\<exists>head' s'. foldl ?f (head, s) l = (head', s') \<and> sets_ok (dirty_set s') head' \<and> seg_sit s' \<and> flush_rel cpc s d cpc s' d
      \<and> dirty_set s' = dirty_set s \<union> (\<lambda>i. fst (sit_j d i)) ` set l \<and> sm_sentries s' = sm_sentries s"
    if "set l \<subseteq> {..< n_sits d}" for l
    using that
  proof (induction l rule: rev_induct)
    case Nil
    then show ?case using ok sets by (simp add: ckpt_ok_def flush_rel_same)
  next
    case (snoc i l)
    then obtain head1 s1 where s1: "foldl ?f (head, s) l = (head1, s1)" "sets_ok (dirty_set s1) head1" "seg_sit s1"
        "flush_rel cpc s d cpc s1 d" "dirty_set s1 = dirty_set s \<union> (\<lambda>i. fst (sit_j d i)) ` set l" "sm_sentries s1 = sm_sentries s" by auto
    let ?g = "fst (sit_j d i)"
    have g: "?g < sm_main_segments s1" using sto snoc.prems flush_relD(1)[OF s1(4)] by (auto simp: sit_store_ok_def jset_def)
    have D: "dirty_set (mark_sit_entry_dirty ?g s1) = insert ?g (dirty_set s1)"
      using g by (auto simp: dirty_set_def mark_sit_entry_dirty_fields)
    have "sets_ok (insert ?g (dirty_set s1)) (if sm_dirty_sentries_bitmap s1 ?g then head1 else add_sit_entry ?g head1)"
    proof (cases "sm_dirty_sentries_bitmap s1 ?g")
      case True
      then have "insert ?g (dirty_set s1) = dirty_set s1" using g by (auto simp: dirty_set_def)
      then show ?thesis using s1(2) True by simp
    next
      case False
      then show ?thesis using add_sit_entry_ok[OF s1(2), of ?g] by (simp add: dirty_set_def)
    qed
    then show ?case
      using s1 D seg_sit_mark[OF s1(3) g] flush_rel_trans[OF s1(4) mark_sit_entry_dirty_fields(4)[OF refl]]
      by (simp add: Let_def mark_sit_entry_dirty_fields(2))
  qed
  have sub: "set (rev [0 ..< n_sits d]) \<subseteq> {..< n_sits d}" by auto
  obtain head' s' where s': "foldl ?f (head, s) (rev [0 ..< n_sits d]) = (head', s')" "sets_ok (dirty_set s') head'" "seg_sit s'"
      "flush_rel cpc s d cpc s' d" "dirty_set s' = dirty_set s \<union> (\<lambda>i. fst (sit_j d i)) ` set (rev [0 ..< n_sits d])"
      "sm_sentries s' = sm_sentries s" using loop[OF sub] by blast
  have D: "dirty_set s' = dirty_set s \<union> jset d" using s'(5) by (simp add: jset_def atLeast0LessThan)
  let ?d = "d\<lparr>n_sits := 0\<rparr>"
  have j: "jset ?d = {}" by (simp add: jset_def)
  have "sit_store_ok (sm_main_segments s) ?d" using sto j by (simp add: sit_store_ok_def)
  moreover have "synced s' ?d"
    unfolding synced_def
  proof (intro ballI impI)
    fix g assume g: "g \<in> segs s'" "\<not> sm_dirty_sentries_bitmap s' g"
    then have n: "g \<notin> dirty_set s" "g \<notin> jset d" "g \<in> segs s" using D flush_relD(1)[OF s'(4)] by (auto simp: dirty_set_def)
    then show "stored_sit_entry ?d g = fst (seg_info_to_raw_sit (sm_sentries s' g))"
      using ok stored_in_block[of g d] stored_in_block[of g ?d] j s'(6) by (simp add: ckpt_ok_def synced_def dirty_set_def)
  qed
  ultimately have "ckpt_ok s' ?d"
    using ok s'(3) flush_relD(1,2)[OF s'(4)] by (simp add: ckpt_ok_def same_geoD)
  moreover have "flush_rel cpc s d cpc s' ?d" using s'(4) by (simp add: flush_rel_def)
  ultimately show ?thesis
    using s'(1,2) j by (simp add: remove_sits_in_journal_def)
qed

subsection \<open>The checkpoint\<close>

lemma flush_dirty_ok:
  assumes ok: "ckpt_ok s d"
  shows "\<exists>head s0 d0 cpc' s' d'. (if has_sit_space d (sint (sm_dirty_sentries s)) then (add_sits_in_set s [], s, d)
        else remove_sits_in_journal (add_sits_in_set s []) s d) = (head, s0, d0)
      \<and> (if sm_dirty_sentries s0 = 0 then Some (cpc, s0, d0)
         else do { (cpc, s, d) \<leftarrow> flush_sit_sets head True (cpc, s0, d0); bug_on (sm_dirty_sentries s \<noteq> 0); Some (cpc, s, d) })
        = Some (cpc', s', d')
      \<and> flush_rel cpc s d cpc' s' d' \<and> ckpt_ok s' d' \<and> dirty_set s' = {}"
proof -
  have n6: "n_sits d \<le> SIT_JOURNAL_ENTRIES" using ok by (simp add: ckpt_ok_def sit_store_ok_def)
  have count: "sm_dirty_sentries t = of_nat (card (dirty_set t)) \<and> card (dirty_set t) < 2 ^ 29" if t: "ckpt_ok t e" for t e
  proof
    show "sm_dirty_sentries t = of_nat (card (dirty_set t))" using t by (simp add: ckpt_ok_def seg_sit_def dirty_set_def)
    have geo: "seg_geo t" using t by (simp add: ckpt_ok_def)
    have "sm_main_segments t * 8 \<le> (unat (sm_start_segno t) + sm_main_segments t) * blocks_per_seg t"
      by (rule mult_le_mono) (use bps_bound[OF geo] in auto)
    moreover have "(unat (sm_start_segno t) + sm_main_segments t) * blocks_per_seg t < 2 ^ 32"
      using geo unfolding seg_geo_def by (elim conjE) (rule le_less_trans[OF le_add2])
    ultimately have "sm_main_segments t * 8 < 2 ^ 32" by (rule le_less_trans)
    then have "sm_main_segments t < 2 ^ 29" by simp
    moreover have "card (dirty_set t) \<le> sm_main_segments t"
      using card_mono[of "segs t" "dirty_set t"] by (auto simp: dirty_set_def)
    ultimately show "card (dirty_set t) < 2 ^ 29" by linarith
  qed
  have sets: "sets_ok (dirty_set s) (add_sits_in_set s [])"
    using add_sits_in_set_ok[of s] by (simp add: dirty_set_def)
  have space: "has_sit_space d (sint (sm_dirty_sentries s)) \<longleftrightarrow> n_sits d + card (dirty_set s) \<le> SIT_JOURNAL_ENTRIES"
  proof -
    have "sint (sm_dirty_sentries s) = int (card (dirty_set s))" using count[OF ok] sint_count[of "card (dirty_set s)"] by simp
    then show ?thesis using n6 by (auto simp: has_sit_space_def)
  qed
  obtain head s0 d0 where h: "(if has_sit_space d (sint (sm_dirty_sentries s)) then (add_sits_in_set s [], s, d)
        else remove_sits_in_journal (add_sits_in_set s []) s d) = (head, s0, d0)"
      "sets_ok (dirty_set s0) head" "ckpt_ok s0 d0" "flush_rel cpc s d cpc s0 d0"
      "n_sits d0 + card (dirty_set s0) \<le> SIT_JOURNAL_ENTRIES \<or> jset d0 \<inter> dirty_set s0 = {}"
  proof (cases "has_sit_space d (sint (sm_dirty_sentries s))")
    case True
    show ?thesis by (rule that[of "add_sits_in_set s []" s d]) (use True sets ok space in \<open>simp_all add: flush_rel_same\<close>)
  next
    case False
    obtain head' s' d' where "remove_sits_in_journal (add_sits_in_set s []) s d = (head', s', d')" "sets_ok (dirty_set s') head'"
        "ckpt_ok s' d'" "flush_rel cpc s d cpc s' d'" "jset d' = {}"
      using remove_sits_in_journal_ok[OF ok sets, of cpc] by blast
    then show ?thesis using False by (intro that[of head' s' d']) simp_all
  qed
  have zero: "sm_dirty_sentries t = 0 \<longleftrightarrow> dirty_set t = {}" if t: "ckpt_ok t e" for t e
  proof -
    have "unat (sm_dirty_sentries t) = card (dirty_set t)" using count[OF t] by (simp add: unat_of_nat)
    then show ?thesis by (metis card_0_eq dirty_set_finite unat_eq_zero)
  qed
  show ?thesis
  proof (cases "sm_dirty_sentries s0 = 0")
    case True
    then show ?thesis using h zero[OF h(3)] by (intro exI[of _ head] exI[of _ s0] exI[of _ d0] exI[of _ cpc]) simp
  next
    case False
    obtain cpc1 s1 d1 where r: "flush_sit_sets head True (cpc, s0, d0) = Some (cpc1, s1, d1)" "flush_rel cpc s0 d0 cpc1 s1 d1"
        "ckpt_ok s1 d1" "dirty_set s1 = {}" using flush_sit_sets_ok[OF h(3,2), of True cpc] h(5) by blast
    have "sm_dirty_sentries s1 = 0" using zero[OF r(3)] r(4) by simp
    then show ?thesis using h(1) r False flush_rel_trans[OF h(4) r(2)]
      by (intro exI[of _ head] exI[of _ s0] exI[of _ d0] exI[of _ cpc1] exI[of _ s1] exI[of _ d1]) (simp add: bug_on_def)
  qed
qed

lemma trim_loop_ok:
  assumes "seg_geo s" "seg_sit s" "\<forall>g \<in> set l. g < sm_main_segments s"
  shows "\<exists>cpc' d'. foldM (\<lambda>segno (cpc, d). add_discard_addrs s (cpc\<lparr>trim_start := segno\<rparr>, d)) l (cpc, d) = Some (cpc', d')
    \<and> flush_rel cpc s d cpc' s d' \<and> (\<exists>ls c. d' = d\<lparr>discard_list := ls, nr_discards := c\<rparr>)"
  using assms(3)
proof (induction l arbitrary: cpc d)
  case Nil
  then show ?case by (auto simp: flush_rel_same intro!: exI[of _ "discard_list d"] exI[of _ "nr_discards d"])
next
  case (Cons g l)
  then have g: "g < sm_main_segments s" by simp
  have "\<exists>cpc1 d1. add_discard_addrs s (cpc\<lparr>trim_start := g\<rparr>, d) = Some (cpc1, d1)
      \<and> flush_rel cpc s d cpc1 s d1 \<and> d1 = d\<lparr>discard_list := discard_list d1, nr_discards := nr_discards d1\<rparr>"
    using discard_step[OF assms(1,2) g, of True cpc d] by (simp only: if_True)
  then obtain cpc1 d1 where a: "add_discard_addrs s (cpc\<lparr>trim_start := g\<rparr>, d) = Some (cpc1, d1)"
      "flush_rel cpc s d cpc1 s d1" "d1 = d\<lparr>discard_list := discard_list d1, nr_discards := nr_discards d1\<rparr>" by (elim exE conjE)
  obtain cpc2 d2 ls c where b: "foldM (\<lambda>segno (cpc, d). add_discard_addrs s (cpc\<lparr>trim_start := segno\<rparr>, d)) l (cpc1, d1) = Some (cpc2, d2)"
      "flush_rel cpc1 s d1 cpc2 s d2" "d2 = d1\<lparr>discard_list := ls, nr_discards := c\<rparr>"
    using Cons.IH[of cpc1 d1] Cons.prems by auto
  have "d2 = d\<lparr>discard_list := ls, nr_discards := c\<rparr>" unfolding b(3) by (subst a(3)) simp
  then show ?case using a(1) b(1) flush_rel_trans[OF a(2) b(2)] by auto
qed

lemma flush_sit_entries_ok:
  assumes ok: "ckpt_ok s d" and trim: "cp_reason cpc = CP_DISCARD \<Longrightarrow> trim_end cpc < sm_main_segments s"
  shows "\<exists>cpc' s1 d'. flush_sit_entries cpc s d = Some (cpc', set_prefree_as_free_segments s1, d')
    \<and> flush_rel cpc s d cpc' s1 d' \<and> ckpt_ok s1 d' \<and> dirty_set s1 = {}"
proof -
  obtain head s0 d0 cpc1 s1 d1 where r: "(if has_sit_space d (sint (sm_dirty_sentries s)) then (add_sits_in_set s [], s, d)
        else remove_sits_in_journal (add_sits_in_set s []) s d) = (head, s0, d0)"
      "(if sm_dirty_sentries s0 = 0 then Some (cpc, s0, d0)
         else do { (cpc, s, d) \<leftarrow> flush_sit_sets head True (cpc, s0, d0); bug_on (sm_dirty_sentries s \<noteq> 0); Some (cpc, s, d) })
        = Some (cpc1, s1, d1)"
      "flush_rel cpc s d cpc1 s1 d1" "ckpt_ok s1 d1" "dirty_set s1 = {}"
    using flush_dirty_ok[OF ok, of cpc] by blast
  show ?thesis
  proof (cases "cp_reason cpc1 = CP_DISCARD")
    case False
    then have "flush_sit_entries cpc s d = Some (cpc1, set_prefree_as_free_segments s1, d1)"
      by (simp only: flush_sit_entries_def Let_def r(1) prod.case r(2) bind.bind_lunit if_False)
    then show ?thesis using r(3-5) by blast
  next
    case True
    let ?l = "[trim_start cpc1 ..< trim_end cpc1 + 1]"
    have l: "\<forall>g \<in> set ?l. g < sm_main_segments s1" using trim True flush_relD(1,8,9)[OF r(3)] by auto
    have gs: "seg_geo s1" "seg_sit s1" using r(4) by (auto simp: ckpt_ok_def)
    obtain cpc2 d2 ls c where t: "foldM (\<lambda>segno (cpc, d). add_discard_addrs s1 (cpc\<lparr>trim_start := segno\<rparr>, d)) ?l (cpc1, d1) = Some (cpc2, d2)"
        "flush_rel cpc1 s1 d1 cpc2 s1 d2" "d2 = d1\<lparr>discard_list := ls, nr_discards := c\<rparr>"
      using trim_loop_ok[OF gs l, of cpc1 d1] by blast
    have "flush_sit_entries cpc s d = Some (cpc2\<lparr>trim_start := max (trim_start cpc1) (trim_end cpc1 + 1)\<rparr>, set_prefree_as_free_segments s1, d2)"
      by (simp only: flush_sit_entries_def Let_def r(1) prod.case r(2) bind.bind_lunit True simp_thms if_True t(1))
    moreover have "flush_rel cpc s d (cpc2\<lparr>trim_start := max (trim_start cpc1) (trim_end cpc1 + 1)\<rparr>) s1 d2"
      using flush_rel_trans[OF r(3) t(2)] by (simp add: flush_rel_def)
    moreover have "ckpt_ok s1 d2" using r(4) discards_other[OF disjI1[OF t(3)]] by (simp add: ckpt_ok_def synced_def)
    ultimately show ?thesis using r(5) by blast
  qed
qed

end
