(* ===== verification/F2fsMount.thy ===== *)
theory F2fsMount
  imports F2fsSitCkpt
begin

unbundle bit_operations_syntax

text \<open>
  The mount builds the segment manager from the checkpoint: the entries pass the check of their counts,
  the free segments are the empty ones without a log, and the lists of dirty segments are complete.
\<close>

subsection \<open>Freeing segments\<close>

lemma section_empty:
  assumes "0 < sm_segs_per_sec s" "sec * sm_segs_per_sec s + sm_segs_per_sec s \<le> n"
  shows "sec * sm_segs_per_sec s + sm_segs_per_sec s \<le> find_next_bit f n (sec * sm_segs_per_sec s) \<longleftrightarrow> (\<forall>g \<in> section_of s sec. \<not> f g)"
proof -
  let ?a = "sec * sm_segs_per_sec s" and ?b = "sec * sm_segs_per_sec s + sm_segs_per_sec s"
  let ?r = "find_next_bit f n ?a"
  show ?thesis
  proof
    assume r: "?b \<le> ?r"
    show "\<forall>g \<in> section_of s sec. \<not> f g"
    proof
      fix g assume g: "g \<in> section_of s sec"
      then have gab: "?a \<le> g" "g < ?b" by (auto simp: section_of_def)
      show "\<not> f g"
      proof (cases "?r = n")
        case True
        then show ?thesis using find_next_bit_end[OF True] gab assms(2) by simp
      next
        case False
        then show ?thesis using find_next_bit_least(4)[OF refl False] gab r by simp
      qed
    qed
  next
    assume e: "\<forall>g \<in> section_of s sec. \<not> f g"
    show "?b \<le> ?r"
    proof (rule ccontr)
      assume r: "\<not> ?b \<le> ?r"
      then have "?r \<noteq> n" using assms(2) by simp
      from find_next_bit_least(1,3)[OF refl this] e r show False by (auto simp: section_of_def)
    qed
  qed
qed

definition free_frame :: "f2fs_sm_info \<Rightarrow> f2fs_sm_info \<Rightarrow> bool" where
  "free_frame s s' \<longleftrightarrow> s' = s\<lparr>sm_free_segmap := sm_free_segmap s', sm_free_secmap := sm_free_secmap s',
     sm_free_segments := sm_free_segments s', sm_free_sections := sm_free_sections s'\<rparr>"

lemma free_frame_trans: "free_frame s s1 \<Longrightarrow> free_frame s1 s2 \<Longrightarrow> free_frame s s2"
  by (cases s; cases s1; cases s2) (simp add: free_frame_def)

lemma free_frameD:
  assumes "free_frame s s'"
  shows "sm_main_segments s' = sm_main_segments s" "sm_total_sections s' = sm_total_sections s" "sm_curseg s' = sm_curseg s"
    "sm_sentries s' = sm_sentries s" "sm_segs_per_sec s' = sm_segs_per_sec s" "same_geo s s'" "sm_dirty_segmap s' = sm_dirty_segmap s"
    "section_of s' = section_of s" "vbit s' = vbit s" "sm_dirty_sentries_bitmap s' = sm_dirty_sentries_bitmap s"
    "sm_written_valid_blocks s' = sm_written_valid_blocks s" "sm_sec_valid s' = sm_sec_valid s" "sm_dirty_sentries s' = sm_dirty_sentries s"
    "sm_sum_pages s' = sm_sum_pages s"
  unfolding vbit_def section_of_def same_geo_def fun_eq_iff by (subst assms[unfolded free_frame_def], simp)+

text \<open>A used segment becomes free, and its section with it if no other segment of it is used.\<close>

definition freed :: "nat \<Rightarrow> f2fs_sm_info \<Rightarrow> f2fs_sm_info" where
  "freed g s = (let c = GET_SECNO s g; f = (sm_free_segmap s)(g := False); e = (\<forall>h \<in> section_of s c. \<not> f h) in
     s\<lparr>sm_free_segmap := f, sm_free_segments := sm_free_segments s + 1,
       sm_free_secmap := (if e then (sm_free_secmap s)(c := False) else sm_free_secmap s),
       sm_free_sections := (if e then sm_free_sections s + 1 else sm_free_sections s)\<rparr>)"

lemma section_in_main:
  assumes "seg_geo s" "g < sm_main_segments s"
  shows "GET_SECNO s g * sm_segs_per_sec s + sm_segs_per_sec s \<le> sm_main_segments s"
proof -
  have "Suc (GET_SECNO s g) * sm_segs_per_sec s \<le> sm_total_sections s * sm_segs_per_sec s"
    by (rule mult_le_mono1) (use GET_SECNO_less[OF assms] in simp)
  then show ?thesis using assms(1) by (simp add: seg_geo_def add.commute)
qed

lemma set_free_eq:
  assumes "seg_geo s" "g < sm_main_segments s"
  shows "set_free g s = freed g s"
proof -
  have "0 < sm_segs_per_sec s" using assms(1) by (simp add: seg_geo_def)
  note e = section_empty[OF this section_in_main[OF assms], of "(sm_free_segmap s)(g := False)"]
  show ?thesis using e by (simp add: set_free_def freed_def Let_def GET_SECNO_def)
qed

lemma set_test_and_free_eq:
  assumes geo: "seg_geo s" and fr: "seg_free s" and g: "g < sm_main_segments s" "sm_free_segmap s g"
  shows "set_test_and_free g s = freed g s"
proof -
  have p: "0 < sm_segs_per_sec s" using geo by (simp add: seg_geo_def)
  note e = section_empty[OF p order_refl, of "GET_SECNO s g" "(sm_free_segmap s)(g := False)"]
  have "sm_free_secmap s (GET_SECNO s g)"
    using fr g section_of_iff[OF p, of g "GET_SECNO s g"] GET_SECNO_less[OF geo g(1)] by (auto simp: seg_free_def)
  then show ?thesis using e g by (simp add: set_test_and_free_def freed_def Let_def GET_SECNO_def)
qed

lemma freed_frame: "free_frame s (freed g s)" "sm_free_segmap (freed g s) = (sm_free_segmap s)(g := False)"
  by (simp_all add: free_frame_def freed_def Let_def)

lemma seg_free_freed:
  assumes geo: "seg_geo s" and fr: "seg_free s" and g: "g < sm_main_segments s" "sm_free_segmap s g"
  shows "seg_free (freed g s)"
proof -
  let ?s = "freed g s" and ?c = "GET_SECNO s g" and ?f = "(sm_free_segmap s)(g := False)"
  note fd = free_frameD[OF freed_frame(1)[of s g]]
  have p: "0 < sm_segs_per_sec s" using geo by (simp add: seg_geo_def)
  have c: "?c < sm_total_sections s" by (rule GET_SECNO_less[OF geo g(1)])
  have gc: "g \<in> section_of s sec \<longleftrightarrow> sec = ?c" for sec using section_of_iff[OF p] by auto
  have sm: "sm_free_secmap s sec \<longleftrightarrow> (\<exists>h \<in> section_of s sec. sm_free_segmap s h)" if "sec < sm_total_sections s" for sec
    using fr that by (simp add: seg_free_def)
  have cu: "sm_free_secmap s ?c" using sm[OF c] gc g(2) by auto
  have new: "sm_free_secmap ?s sec \<longleftrightarrow> (\<exists>h \<in> section_of s sec. ?f h)" if "sec < sm_total_sections s" for sec
  proof (cases "sec = ?c")
    case True
    then show ?thesis using cu by (simp add: freed_def Let_def)
  next
    case False
    then have "?f h = sm_free_segmap s h" if "h \<in> section_of s sec" for h using that gc[of sec] by auto
    then show ?thesis using sm[OF that] False by (simp add: freed_def Let_def)
  qed
  have "sm_free_segments ?s = of_nat (card {h \<in> segs s. \<not> ?f h})"
  proof -
    have "{h \<in> segs s. \<not> ?f h} = {h \<in> segs s. h = g \<or> \<not> sm_free_segmap s h}" by auto
    then show ?thesis using fr g card_more[of "segs s" g "\<lambda>h. \<not> sm_free_segmap s h"] by (simp add: seg_free_def freed_def Let_def)
  qed
  moreover have "sm_free_sections ?s = of_nat (card {sec. sec < sm_total_sections s \<and> \<not> sm_free_secmap ?s sec})"
  proof (cases "\<forall>h \<in> section_of s ?c. \<not> ?f h")
    case True
    then have "{sec. sec < sm_total_sections s \<and> \<not> sm_free_secmap ?s sec} = {sec \<in> {..< sm_total_sections s}. sec = ?c \<or> \<not> sm_free_secmap s sec}"
      using c by (auto simp: freed_def Let_def)
    then show ?thesis using fr True cu c card_more[of "{..< sm_total_sections s}" ?c "\<lambda>sec. \<not> sm_free_secmap s sec"]
      by (simp add: seg_free_def freed_def Let_def)
  next
    case False
    then have "sm_free_secmap ?s = sm_free_secmap s" "sm_free_sections ?s = sm_free_sections s" by (simp_all only: freed_def Let_def if_False) simp_all
    then show ?thesis using fr by (simp add: seg_free_def)
  qed
  ultimately show ?thesis unfolding seg_free_def fd freed_frame(2) using new by blast
qed

text \<open>All segments satisfying \<open>P\<close> are freed.\<close>

lemma free_loop:
  assumes f: "\<And>s g. seg_geo s \<Longrightarrow> seg_free s \<Longrightarrow> g < sm_main_segments s \<Longrightarrow> sm_free_segmap s g \<Longrightarrow> f g s = freed g s"
    and skip: "\<And>s g. \<not> sm_free_segmap s g \<Longrightarrow> P g \<Longrightarrow> used \<or> f g s = s"
    and s: "seg_geo s" "seg_free s" "used \<Longrightarrow> \<forall>g \<in> segs s. sm_free_segmap s g"
    and c: "\<And>s' g. free_frame s s' \<Longrightarrow> cond s' g = P g"
  shows "n \<le> sm_main_segments s \<Longrightarrow> (let s' = foldl (\<lambda>s g. if cond s g then f g s else s) s [0 ..< n] in
    free_frame s s' \<and> seg_free s' \<and> (\<forall>g. sm_free_segmap s' g \<longleftrightarrow> sm_free_segmap s g \<and> \<not> (g < n \<and> P g)))"
proof (induction n)
  case 0
  then show ?case using s(2) by (simp add: free_frame_def)
next
  case (Suc n)
  define s1 where "s1 = foldl (\<lambda>s g. if cond s g then f g s else s) s [0 ..< n]"
  have i: "free_frame s s1" "seg_free s1" "\<And>g. sm_free_segmap s1 g \<longleftrightarrow> sm_free_segmap s g \<and> \<not> (g < n \<and> P g)"
    using Suc.IH Suc.prems by (auto simp: s1_def Let_def)
  note fd = free_frameD[OF i(1)]
  have g: "seg_geo s1" "n < sm_main_segments s1" using s(1) Suc.prems same_geoD[OF fd(6)] fd(1) by auto
  have eq: "foldl (\<lambda>s g. if cond s g then f g s else s) s [0 ..< Suc n] = (if P n then f n s1 else s1)"
    by (simp add: s1_def[symmetric] c[OF i(1)])
  show ?case
  proof (cases "P n \<and> sm_free_segmap s1 n")
    case True
    have fr: "free_frame s (freed n s1)" by (rule free_frame_trans[OF i(1) freed_frame(1)])
    show ?thesis unfolding eq Let_def
      using True f[OF g(1) i(2) g(2)] fr seg_free_freed[OF g(1) i(2) g(2)] i(3) by (auto simp: freed_frame(2) less_Suc_eq)
  next
    case False
    have "\<not> used" if "P n"
      using False that s(3) i(3)[of n] Suc.prems by auto
    then have "(if P n then f n s1 else s1) = s1" using False skip[of s1 n] by auto
    then show ?thesis unfolding eq Let_def using i False by (auto simp: less_Suc_eq)
  qed
qed

subsection \<open>The count of the valid blocks\<close>

lemma count_runs_eq:
  "cur \<le> siz \<Longrightarrow> (cur < siz \<longrightarrow> f cur = v) \<Longrightarrow> count_runs f siz cur v n = n + card {i \<in> {cur ..< siz}. f i}"
proof (induction f siz cur v n rule: count_runs.induct)
  case (1 f siz cur v n)
  define x where "x = (if v then find_next_zero_bit f siz cur else find_next_bit f siz cur)"
  have xd: "x = find_next_bit (\<lambda>i. f i \<noteq> v) siz cur" by (cases v) (simp_all add: x_def find_next_zero_bit_def)
  have x: "cur \<le> x" "x \<le> siz" and run: "\<And>i. cur \<le> i \<Longrightarrow> i < x \<Longrightarrow> f i = v" and nx: "x < siz \<Longrightarrow> f x = (\<not> v)"
  proof -
    show "cur \<le> x" "x \<le> siz"
      using 1(2) find_next_bit_least(1,2)[of "\<lambda>i. f i \<noteq> v" siz cur, OF refl] unfolding xd
      by (cases "find_next_bit (\<lambda>i. f i \<noteq> v) siz cur = siz"; force)+
    show "f i = v" if "cur \<le> i" "i < x" for i
      using that find_next_bit_end[of "\<lambda>i. f i \<noteq> v" siz cur i] find_next_bit_least(4)[of "\<lambda>i. f i \<noteq> v" siz cur, OF refl, of i]
      unfolding xd by (cases "find_next_bit (\<lambda>i. f i \<noteq> v) siz cur = siz") auto
    show "f x = (\<not> v)" if "x < siz" using that find_next_bit_least(3)[of "\<lambda>i. f i \<noteq> v" siz cur, OF refl] unfolding xd by auto
  qed
  have "{i \<in> {cur ..< siz}. f i} = {i \<in> {cur ..< x}. f i} \<union> {i \<in> {x ..< siz}. f i}" using x by auto
  from arg_cong[OF this, of card]
  have "card {i \<in> {cur ..< siz}. f i} = card {i \<in> {cur ..< x}. f i} + card {i \<in> {x ..< siz}. f i}"
    by (rule trans) (rule card_Un_disjoint; auto)
  moreover have "{i \<in> {cur ..< x}. f i} = (if v then {cur ..< x} else {})" using run by auto
  ultimately have card: "card {i \<in> {cur ..< siz}. f i} = (if v then x - cur else 0) + card {i \<in> {x ..< siz}. f i}" by simp
  show ?case
  proof (cases "x < siz")
    case True
    have "count_runs f siz x (\<not> v) (if v then n + (x - cur) else n) = (if v then n + (x - cur) else n) + card {i \<in> {x ..< siz}. f i}"
      by (rule 1(1)[OF x_def refl True]) (use x nx[OF True] in simp_all)
    then show ?thesis using True card by (subst count_runs.simps) (simp add: x_def[symmetric] Let_def)
  next
    case False
    then have "{i \<in> {x ..< siz}. f i} = {}" by auto
    then show ?thesis using False card by (subst count_runs.simps) (simp add: x_def[symmetric] Let_def)
  qed
qed

lemma card_test_bit_le:
  "8 dvd m \<Longrightarrow> card {i \<in> {..< m}. test_bit_le i a} = card {i \<in> {..< m}. f2fs_test_bit i a}"
proof -
  assume "8 dvd m"
  then obtain k where k: "m = 8 * k" by (elim dvdE)
  let ?r = "\<lambda>i :: nat. 8 * (i div 8) + (7 - i mod 8)"
  have r: "?r i div 8 = i div 8" "?r i mod 8 = 7 - i mod 8" for i using byte_pos[of "7 - i mod 8" "i div 8"] by simp_all
  have rr: "?r (?r i) = i" for i unfolding r using mod_less_divisor[of 8 i] mult_div_mod_eq[of 8 i] by linarith
  have t: "test_bit_le (?r i) a \<longleftrightarrow> f2fs_test_bit i a" for i unfolding test_bit_le_def f2fs_test_bit_iff r ..
  have less: "?r i < m" if "i < m" for i using rpos_less[of i k] that k by simp
  have "bij_betw ?r {i \<in> {..< m}. f2fs_test_bit i a} {i \<in> {..< m}. test_bit_le i a}"
  proof (rule bij_betw_byWitness[where f' = ?r])
    show "?r ` {i \<in> {..< m}. f2fs_test_bit i a} \<subseteq> {i \<in> {..< m}. test_bit_le i a}" using t less by blast
    show "?r ` {i \<in> {..< m}. test_bit_le i a} \<subseteq> {i \<in> {..< m}. f2fs_test_bit i a}"
    proof (rule image_subsetI)
      fix i assume "i \<in> {i \<in> {..< m}. test_bit_le i a}"
      then have "i < m" "test_bit_le i a" by simp_all
      then show "?r i \<in> {i \<in> {..< m}. f2fs_test_bit i a}" using t[of "?r i", unfolded rr] less[of i] by blast
    qed
  qed (intro ballI rr)+
  then show ?thesis by (rule bij_betw_same_card[symmetric])
qed

subsection \<open>The logs\<close>

definition mounted_log :: "seg_ckpt \<Rightarrow> f2fs_sm_info \<Rightarrow> nat \<Rightarrow> curseg_info" where
  "mounted_log ck s t =
     \<lparr>cs_sum_blk = (if IS_NODESEG t
        then (ck_sum ck t)\<lparr>sum_entries := (\<lambda>i. if i < blocks_per_seg s
            then (sum_entries (ck_sum ck t) i)\<lparr>sum_version := 0, sum_ofs_in_node := 0\<rparr> else sum_entries (ck_sum ck t) i)\<rparr>
        else ck_sum ck t)\<lparr>sum_footer_type := if IS_NODESEG t then SUM_TYPE_NODE else if IS_DATASEG t then SUM_TYPE_DATA else 0\<rparr>,
      cs_alloc_type = ck_alloc_type ck t, cs_segno = ck_segno ck t, cs_next_blkoff = ck_blkoff ck t,
      cs_zone = GET_ZONENO_FROM_SEGNO s (ck_segno ck t), cs_next_segno = NULL_SEGNO\<rparr>"

lemma restored_log:
  assumes "g < sm_main_segments s"
  shows "\<exists>e. do {
      s1 \<leftarrow> reset_curseg t False (upd_curseg t (\<lambda>c. c\<lparr>cs_sum_blk := sb, cs_next_segno := g\<rparr>) s);
      Some (upd_curseg t (\<lambda>c. c\<lparr>cs_alloc_type := a, cs_next_blkoff := off\<rparr>) s1)
    } = Some (s\<lparr>sm_curseg := (sm_curseg s)(t :=
      \<lparr>cs_sum_blk = sb\<lparr>sum_footer_type := if IS_NODESEG t then SUM_TYPE_NODE else if IS_DATASEG t then SUM_TYPE_DATA else 0\<rparr>,
       cs_alloc_type = a, cs_segno = g, cs_next_blkoff = off, cs_zone = GET_ZONENO_FROM_SEGNO s g, cs_next_segno = NULL_SEGNO\<rparr>),
      sm_sentries := e\<rparr>)"
proof -
  let ?s = "upd_curseg t (\<lambda>c. c\<lparr>cs_sum_blk := sb, cs_next_segno := g\<rparr>) s"
  define ft where "ft = (if IS_NODESEG t then SUM_TYPE_NODE else if IS_DATASEG t then SUM_TYPE_DATA else 0)"
  have z: "GET_ZONENO_FROM_SEGNO ?s = GET_ZONENO_FROM_SEGNO s" by (simp add: fun_eq_iff GET_ZONENO_FROM_SEGNO_def upd_curseg_def)
  have r: "reset_curseg t False ?s = Some (move_log t g False ?s)"
    using reset_curseg_eq[of ?s t False] assms by (simp add: upd_curseg_def)
  have c: "(fresh_log t g ?s)\<lparr>cs_alloc_type := a, cs_next_blkoff := off\<rparr> = \<lparr>cs_sum_blk = sb\<lparr>sum_footer_type := ft\<rparr>,
      cs_alloc_type = a, cs_segno = g, cs_next_blkoff = off, cs_zone = GET_ZONENO_FROM_SEGNO s g, cs_next_segno = NULL_SEGNO\<rparr>"
    unfolding fresh_log_def z ft_def[symmetric] by (cases "curseg t s") (simp add: upd_curseg_def)
  have "upd_curseg t (\<lambda>c. c\<lparr>cs_alloc_type := a, cs_next_blkoff := off\<rparr>) (move_log t g False ?s)
      = s\<lparr>sm_curseg := (sm_curseg s)(t := (fresh_log t g ?s)\<lparr>cs_alloc_type := a, cs_next_blkoff := off\<rparr>),
          sm_sentries := sm_sentries (move_log t g False ?s)\<rparr>"
    by (cases s) (simp add: upd_curseg_def move_log_def)
  then show ?thesis using r c unfolding ft_def[symmetric] by auto
qed

lemma read_normal_summaries_ok:
  assumes "ck_segno ck t < sm_main_segments s"
  shows "\<exists>e. read_normal_summaries ck t s = Some (s\<lparr>sm_curseg := (sm_curseg s)(t := mounted_log ck s t), sm_sentries := e\<rparr>)"
  unfolding read_normal_summaries_def Let_def mounted_log_def by (rule restored_log[OF assms])

lemma build_curseg_ok:
  assumes "\<And>t. t < NR_CURSEG_TYPE \<Longrightarrow> ck_segno ck t < sm_main_segments s"
  shows "\<exists>c e. build_curseg ck s = Some (s\<lparr>sm_curseg := c, sm_sentries := e\<rparr>) \<and> (\<forall>t < NR_CURSEG_TYPE. c t = mounted_log ck s t)"
proof -
  have "\<exists>c e. foldM (read_normal_summaries ck) [0 ..< n] (s\<lparr>sm_curseg := i\<rparr>) = Some (s\<lparr>sm_curseg := c, sm_sentries := e\<rparr>)
      \<and> (\<forall>t < n. c t = mounted_log ck s t)" if "n \<le> NR_CURSEG_TYPE" for n i
    using that
  proof (induction n)
    case 0
    show ?case by (simp add: exI[of _ i] exI[of _ "sm_sentries s"])
  next
    case (Suc n)
    then obtain c e where ce: "foldM (read_normal_summaries ck) [0 ..< n] (s\<lparr>sm_curseg := i\<rparr>) = Some (s\<lparr>sm_curseg := c, sm_sentries := e\<rparr>)"
        "\<forall>t < n. c t = mounted_log ck s t" by auto
    let ?s = "s\<lparr>sm_curseg := c, sm_sentries := e\<rparr>"
    have m: "mounted_log ck ?s t = mounted_log ck s t" for t
      by (simp add: mounted_log_def blocks_per_seg_def GET_ZONENO_FROM_SEGNO_def cong: if_cong)
    obtain e' where "read_normal_summaries ck n ?s = Some (?s\<lparr>sm_curseg := c(n := mounted_log ck s n), sm_sentries := e'\<rparr>)"
      using read_normal_summaries_ok[of ck n ?s] assms[of n] Suc.prems unfolding m by auto
    then show ?case using ce by (auto simp: foldM_append less_Suc_eq intro!: exI[of _ "c(n := mounted_log ck s n)"] exI[of _ e'])
  qed
  note loop = this[of NR_CURSEG_TYPE, OF order_refl]
  have "[CURSEG_HOT_DATA ..< Suc CURSEG_COLD_NODE] = [0 ..< NR_CURSEG_TYPE]" by (simp add: seg_types)
  then show ?thesis unfolding build_curseg_def restore_curseg_summaries_def by (simp only:) (rule loop)
qed

subsection \<open>The entries\<close>

lemma raw_bounds:
  assumes geo: "seg_geo s" and sit: "seg_sit s" and g: "g < sm_main_segments s"
  shows "nvalid s g < 1024" "se_type (sm_sentries s g) < 64"
proof -
  show "nvalid s g < 1024" using nvalid_bound[OF sit g] bps_bound[OF geo] by linarith
  have "entry_ok s g" using sit g by (simp add: seg_sit_def)
  then show "se_type (sm_sentries s g) < 64" by (simp add: entry_ok_def NR_CURSEG_TYPE_def)
qed

lemma check_block_count_ok:
  assumes geo: "seg_geo s" and sit: "seg_sit s" and g: "g < sm_main_segments s" and c: "sm_main_segments s \<le> sm_segment_count m"
    and m: "blocks_per_seg m = blocks_per_seg s"
  shows "check_block_count m g (fst (seg_info_to_raw_sit (sm_sentries s g))) = Some ()"
proof -
  let ?se = "sm_sentries s g" and ?raw = "fst (seg_info_to_raw_sit (sm_sentries s g))"
  have ok: "entry_ok s g" using sit g by (simp add: seg_sit_def)
  have b: "nvalid s g \<le> blocks_per_seg s" "blocks_per_seg s \<le> 512" using nvalid_bound[OF sit g] bps_bound[OF geo] by auto
  have v: "GET_SIT_VBLOCKS ?raw = nvalid s g" by (rule raw_fields(1)[OF raw_bounds[OF geo sit g]])
  have "count_runs (\<lambda>i. test_bit_le i (raw_valid_map ?raw)) (blocks_per_seg s) 0 (test_bit_le 0 (raw_valid_map ?raw)) 0
      = card {i \<in> {0 ..< blocks_per_seg s}. test_bit_le i (se_cur_map ?se)}"
    by (subst count_runs_eq) (simp_all add: seg_info_to_raw_sit_def)
  also have "\<dots> = card {i \<in> {..< blocks_per_seg s}. f2fs_test_bit i (se_cur_map ?se)}"
    unfolding atLeast0LessThan by (rule card_test_bit_le[OF bps_dvd[OF geo]])
  also have "\<dots> = nvalid s g" using ok by (simp add: entry_ok_def vbit_def)
  finally show ?thesis using b v g c by (simp add: check_block_count_def m bug_on_def)
qed

lemma from_to_raw:
  assumes geo: "seg_geo s" and sit: "seg_sit s" and g: "g < sm_main_segments s"
  shows "seg_info_from_raw_sit (fst (seg_info_to_raw_sit (sm_sentries s g))) x = snd (seg_info_to_raw_sit (sm_sentries s g))"
    and "GET_SIT_VBLOCKS (fst (seg_info_to_raw_sit (sm_sentries s g))) = nvalid s g"
proof -
  note f = raw_fields[OF raw_bounds[OF geo sit g]]
  show "GET_SIT_VBLOCKS (fst (seg_info_to_raw_sit (sm_sentries s g))) = nvalid s g" by (rule f)
  show "seg_info_from_raw_sit (fst (seg_info_to_raw_sit (sm_sentries s g))) x = snd (seg_info_to_raw_sit (sm_sentries s g))"
    unfolding seg_info_from_raw_sit_def f by (cases x; cases "sm_sentries s g") (simp add: seg_info_to_raw_sit_def)
qed

lemma build_sit_entries_loop:
  assumes c: "\<And>g s'. g < n \<Longrightarrow> blocks_per_seg s' = blocks_per_seg s \<Longrightarrow> sm_segment_count s' = sm_segment_count s
    \<Longrightarrow> check_block_count s' g (stored_sit_entry d g) = Some ()"
    and e: "\<And>g x. g < n \<Longrightarrow> seg_info_from_raw_sit (stored_sit_entry d g) x = E g"
  shows "foldM (build_sit_entry d) [0 ..< n] s = Some (s\<lparr>sm_sentries := (\<lambda>g. if g < n then E g else sm_sentries s g),
    sm_sec_valid := (\<lambda>sec. if 1 < sm_segs_per_sec s
      then sm_sec_valid s sec + of_nat (\<Sum>g \<in> {g. g < n \<and> GET_SECNO s g = sec}. se_valid_blocks (E g)) else sm_sec_valid s sec)\<rparr>)"
  using assms
proof (induction n)
  case 0
  show ?case by (simp cong: if_cong)
next
  case (Suc n)
  let ?V = "\<lambda>n sec. if 1 < sm_segs_per_sec s
      then sm_sec_valid s sec + of_nat (\<Sum>g \<in> {g. g < n \<and> GET_SECNO s g = sec}. se_valid_blocks (E g)) else sm_sec_valid s sec"
  define s1 where "s1 = s\<lparr>sm_sentries := (\<lambda>g. if g < n then E g else sm_sentries s g), sm_sec_valid := ?V n\<rparr>"
  have IH: "foldM (build_sit_entry d) [0 ..< n] s = Some s1" unfolding s1_def by (rule Suc.IH) (use Suc.prems in auto)
  have "check_block_count s1 n (stored_sit_entry d n) = Some ()" by (rule Suc.prems(1)) (simp_all add: s1_def blocks_per_seg_def)
  then have "build_sit_entry d n s1 = Some (s1\<lparr>sm_sentries := (sm_sentries s1)(n := E n),
      sm_sec_valid := (if 1 < sm_segs_per_sec s1
        then (sm_sec_valid s1)(GET_SECNO s1 n := sm_sec_valid s1 (GET_SECNO s1 n) + of_nat (se_valid_blocks (E n))) else sm_sec_valid s1)\<rparr>)"
    using Suc.prems(2)[of n] by (simp add: build_sit_entry_def Let_def)
  moreover have "{g. g < Suc n \<and> GET_SECNO s g = sec}
      = (if GET_SECNO s n = sec then insert n {g. g < n \<and> GET_SECNO s g = sec} else {g. g < n \<and> GET_SECNO s g = sec})" for sec
    by (auto simp: less_Suc_eq)
  then have "?V (Suc n) = (if 1 < sm_segs_per_sec s
        then (?V n)(GET_SECNO s n := ?V n (GET_SECNO s n) + of_nat (se_valid_blocks (E n))) else ?V n)"
    by (intro ext) (simp add: add.commute add.left_commute)
  moreover have "(\<lambda>g. if g < Suc n then E g else sm_sentries s g) = (\<lambda>g. if g < n then E g else sm_sentries s g)(n := E n)"
    by (auto simp: fun_eq_iff less_Suc_eq)
  moreover have "GET_SECNO s1 = GET_SECNO s" "sm_segs_per_sec s1 = sm_segs_per_sec s" by (simp_all add: s1_def GET_SECNO_def fun_eq_iff)
  ultimately show ?case by (simp add: foldM_append IH) (simp add: s1_def)
qed

subsection \<open>The lists of dirty segments\<close>

lemma init_dirty_segmap_ok:
  assumes nr: "nr_ok s" "\<And>t g. \<not> sm_dirty_segmap s t g" and ty: "\<And>g. g < sm_main_segments s \<Longrightarrow> se_type (sm_sentries s g) < NR_CURSEG_TYPE"
    and b: "\<And>g. g < sm_main_segments s \<Longrightarrow> nvalid s g \<le> blocks_per_seg s"
  defines "E \<equiv> \<lambda>g. sm_free_segmap s g \<and> 0 < nvalid s g \<and> nvalid s g < blocks_per_seg s \<and> \<not> IS_CURSEG s g"
  shows "\<exists>s'. init_dirty_segmap s = Some s' \<and> dirty_frame s s' \<and> nr_ok s'
    \<and> (\<forall>t h. sm_dirty_segmap s' t h \<longleftrightarrow> h < sm_main_segments s \<and> E h \<and> (t = DIRTY \<or> t = se_type (sm_sentries s h)))"
proof -
  let ?f = "\<lambda>segno s. if \<not> sm_free_segmap s segno then Some s
       else let valid_blocks = get_valid_blocks s segno 0 in
         if valid_blocks = blocks_per_seg s \<or> valid_blocks = 0 then Some s
         else do { bug_on (blocks_per_seg s < valid_blocks); locate_dirty segno DIRTY s }"
  have "\<exists>s'. foldM ?f [0 ..< n] s = Some s' \<and> dirty_frame s s' \<and> nr_ok s'
      \<and> (\<forall>t h. sm_dirty_segmap s' t h \<longleftrightarrow> h < n \<and> E h \<and> (t = DIRTY \<or> t = se_type (sm_sentries s h)))" if "n \<le> sm_main_segments s" for n
    using that
  proof (induction n)
    case 0
    then show ?case using nr by simp
  next
    case (Suc n)
    then obtain s1 where s1: "foldM ?f [0 ..< n] s = Some s1" "dirty_frame s s1" "nr_ok s1"
        "\<And>t h. sm_dirty_segmap s1 t h \<longleftrightarrow> h < n \<and> E h \<and> (t = DIRTY \<or> t = se_type (sm_sentries s h))" by auto
    note fd = dirty_frameD[OF s1(2)] dirty_frame_parts[OF s1(2)]
    have n: "n < sm_main_segments s1" "n < sm_main_segments s" using Suc.prems fd by auto
    have step: "?f n s1 = (if sm_free_segmap s n \<and> 0 < nvalid s n \<and> nvalid s n < blocks_per_seg s then locate_dirty n DIRTY s1 else Some s1)"
      using b[OF n(2)] by (auto simp: fd get_valid_blocks_def bug_on_def Let_def)
    show ?case
    proof (cases "E n")
      case True
      obtain s2 where s2: "locate_dirty n DIRTY s1 = Some s2"
          "relisted n (\<lambda>u. u = DIRTY \<or> DIRTY = DIRTY \<and> u = se_type (sm_sentries s1 n) \<or> sm_dirty_segmap s1 u n) s1 s2"
        using locate_dirty_ok[OF s1(3) n(1), where t = DIRTY] ty[OF n(2)] True by (auto simp: fd E_def)
      then have d: "dirty_frame s1 s2" "nr_ok s2"
          "sm_dirty_segmap s2 t h \<longleftrightarrow> (if h = n then t = DIRTY \<or> t = se_type (sm_sentries s n) else sm_dirty_segmap s1 t h)" for t h
        using s1(4) by (auto simp: relisted_def fd)
      have "foldM ?f [0 ..< Suc n] s = Some s2" using s1(1) s2(1) True step by (simp add: foldM_append E_def)
      moreover have "\<forall>t h. sm_dirty_segmap s2 t h \<longleftrightarrow> h < Suc n \<and> E h \<and> (t = DIRTY \<or> t = se_type (sm_sentries s h))"
        using d(3) s1(4) True by (auto simp: less_Suc_eq)
      ultimately show ?thesis using dirty_frame_trans[OF s1(2) d(1)] d(2) by blast
    next
      case False
      have "?f n s1 = Some s1"
      proof (cases "IS_CURSEG s n")
        case True
        then show ?thesis using step by (simp add: locate_dirty_def fd)
      qed (use False step in \<open>auto simp: E_def\<close>)
      then have "foldM ?f [0 ..< Suc n] s = Some s1" using s1(1) by (simp add: foldM_append)
      moreover have "\<forall>t h. sm_dirty_segmap s1 t h \<longleftrightarrow> h < Suc n \<and> E h \<and> (t = DIRTY \<or> t = se_type (sm_sentries s h))"
        using s1(4) False by (auto simp: less_Suc_eq)
      ultimately show ?thesis using s1(2,3) by blast
    qed
  qed
  from this[OF order_refl] show ?thesis by (simp add: init_dirty_segmap_def)
qed

end
