(* ===== verification/F2fsRemount.thy ===== *)
theory F2fsRemount
  imports F2fsMount
begin

text \<open>
  A mount after a checkpoint: the segment manager that is built satisfies the invariant again, and has
  the blocks and the free segments of the one that was checkpointed.
\<close>

subsection \<open>The tables read from the disk\<close>

text \<open>The file system of \<open>s\<close> before the mount: whatever was in the memory, the layout and the summary blocks
  are on the disk.\<close>

definition same_layout :: "f2fs_sm_info \<Rightarrow> f2fs_sm_info \<Rightarrow> bool" where
  "same_layout s m \<longleftrightarrow> same_geo s m \<and> sm_sum_pages m = sm_sum_pages s \<and> sm_segment_count m = sm_segment_count s"

definition mounted :: "f2fs_sm_info \<Rightarrow> seg_ckpt \<Rightarrow> f2fs_sm_info \<Rightarrow> bool" where
  "mounted s ck x \<longleftrightarrow> same_geo s x \<and> (\<forall>g \<in> segs s. sm_sentries x g = snd (seg_info_to_raw_sit (sm_sentries s g)))
     \<and> (\<forall>t < NR_CURSEG_TYPE. curseg t x = mounted_log ck s t)
     \<and> sm_dirty_sentries_bitmap x = (\<lambda>_. False) \<and> sm_dirty_sentries x = 0 \<and> sm_written_valid_blocks x = ck_valid_block_count ck
     \<and> (1 < sm_segs_per_sec s \<longrightarrow> (\<forall>sec < sm_total_sections s. sm_sec_valid x sec = of_nat (\<Sum>g \<in> section_of s sec. nvalid s g)))
     \<and> sm_sum_pages x = sm_sum_pages s"

lemma mounted_log_geo: "same_geo s m \<Longrightarrow> mounted_log ck m = mounted_log ck s"
  by (simp add: mounted_log_def fun_eq_iff GET_ZONENO_FROM_SEGNO_def same_geoD(6)) (simp add: same_geo_def)

lemma section_as_set:
  assumes "seg_geo s" "sec < sm_total_sections s"
  shows "section_of s sec = {g. g < sm_main_segments s \<and> GET_SECNO s g = sec}"
proof -
  have p: "0 < sm_segs_per_sec s" and m: "sm_main_segments s = sm_total_sections s * sm_segs_per_sec s" using assms(1) by (auto simp: seg_geo_def)
  have "g < sm_main_segments s" if "GET_SECNO s g = sec" for g
    using assms(2) p unfolding m that[symmetric] GET_SECNO_def by (simp add: div_less_iff_less_mult)
  then show ?thesis using section_of_iff[OF p] by auto
qed

lemma build_tables_ok:
  assumes ok: "ckpt_ok s d" "dirty_set s = {}" and cnt: "sm_main_segments s \<le> sm_segment_count s"
    and logs: "\<And>t. t < NR_CURSEG_TYPE \<Longrightarrow> ck_segno ck t < sm_main_segments s" and m: "same_layout s m"
  shows "\<exists>x y. build_curseg ck (build_free_segmap (build_sit_info ck m)) = Some y \<and> build_sit_entries d y = Some x \<and> mounted s ck x
    \<and> sm_free_segmap x = (\<lambda>_. True) \<and> seg_free x"
proof -
  have geo: "seg_geo s" and sit: "seg_sit s" and syn: "synced s d" using ok(1) by (auto simp: ckpt_ok_def)
  have sg: "same_geo s m" using m by (simp add: same_layout_def)
  let ?m = "build_free_segmap (build_sit_info ck m)"
  have sgm: "same_geo s ?m" using sg by (simp add: same_geo_def build_free_segmap_def build_sit_info_def)
  have "sm_main_segments ?m = sm_main_segments s" using sgm by (simp add: same_geo_def)
  with logs obtain c e where ce: "build_curseg ck ?m = Some (?m\<lparr>sm_curseg := c, sm_sentries := e\<rparr>)"
      "\<forall>t < NR_CURSEG_TYPE. c t = mounted_log ck ?m t" using build_curseg_ok[of ck ?m] by force
  let ?y = "?m\<lparr>sm_curseg := c, sm_sentries := e\<rparr>" and ?E = "\<lambda>g. snd (seg_info_to_raw_sit (sm_sentries s g))"
  have sgy: "same_geo s ?y" using sgm by (simp add: same_geo_def)
  have M: "sm_main_segments ?y = sm_main_segments s" and spc: "sm_segs_per_sec ?y = sm_segs_per_sec s" and gs: "GET_SECNO ?y = GET_SECNO s"
    using sgy by (auto simp: same_geo_def GET_SECNO_def fun_eq_iff)
  have st: "stored_sit_entry d g = fst (seg_info_to_raw_sit (sm_sentries s g))" if "g < sm_main_segments s" for g
    using syn ok(2) that by (auto simp: synced_def dirty_set_def)
  define x where "x = ?y\<lparr>sm_sentries := (\<lambda>g. if g < sm_main_segments s then ?E g else sm_sentries ?y g),
    sm_sec_valid := (\<lambda>sec. if 1 < sm_segs_per_sec ?y
      then sm_sec_valid ?y sec + of_nat (\<Sum>g \<in> {g. g < sm_main_segments s \<and> GET_SECNO ?y g = sec}. se_valid_blocks (?E g)) else sm_sec_valid ?y sec)\<rparr>"
  have "foldM (build_sit_entry d) [0 ..< sm_main_segments s] ?y = Some x"
    unfolding x_def
  proof (rule build_sit_entries_loop)
    fix g s' assume g: "g < sm_main_segments s" "blocks_per_seg s' = blocks_per_seg ?y" "sm_segment_count s' = sm_segment_count ?y"
    have "sm_segment_count ?y = sm_segment_count s" using m by (simp add: same_layout_def build_free_segmap_def build_sit_info_def)
    then show "check_block_count s' g (stored_sit_entry d g) = Some ()"
      unfolding st[OF g(1)] using check_block_count_ok[OF geo sit g(1), of s'] g same_geoD(6)[OF sgy] cnt by simp
  next
    fix g z assume g: "g < sm_main_segments s"
    show "seg_info_from_raw_sit (stored_sit_entry d g) z = ?E g" unfolding st[OF g] by (rule from_to_raw(1)[OF geo sit g])
  qed
  then have bx: "build_sit_entries d ?y = Some x" by (simp add: build_sit_entries_def M)
  have sgx: "same_geo s x" using sgy by (simp add: same_geo_def x_def)
  have sum: "sm_sec_valid x sec = of_nat (\<Sum>g \<in> section_of s sec. nvalid s g)" if "1 < sm_segs_per_sec s" "sec < sm_total_sections s" for sec
    using that unfolding section_as_set[OF geo that(2)]
    by (simp add: x_def spc gs) (simp add: build_free_segmap_def build_sit_info_def seg_info_to_raw_sit_def)
  have mx: "mounted s ck x"
    unfolding mounted_def
  proof (intro conjI allI impI ballI)
    fix t assume "t < NR_CURSEG_TYPE"
    then show "curseg t x = mounted_log ck s t" using ce(2) mounted_log_geo[OF sgm] by (simp add: x_def)
  next
    show "sm_sum_pages x = sm_sum_pages s" using m by (simp add: x_def same_layout_def build_free_segmap_def build_sit_info_def)
  qed (use sgx sum in \<open>simp_all add: x_def build_free_segmap_def build_sit_info_def\<close>)
  have f: "sm_free_segmap x = (\<lambda>_. True)" "sm_free_secmap x = (\<lambda>_. True)" "sm_free_segments x = 0" "sm_free_sections x = 0"
    by (simp_all add: x_def build_free_segmap_def)
  have "section_of x sec \<noteq> {}" for sec using sgx geo by (simp add: same_geo_def section_of_def seg_geo_def)
  then have "seg_free x" unfolding seg_free_def f by auto
  then show ?thesis using ce(1) bx mx f(1) by blast
qed

subsection \<open>The free segments\<close>

lemma inuse_loop:
  assumes "seg_geo s" "seg_free s" "\<forall>t \<in> set l. cs_segno (curseg t s) < sm_main_segments s"
  shows "let s' = foldl (\<lambda>s t. set_test_and_inuse (cs_segno (curseg t s)) s) s l in
    free_frame s s' \<and> seg_free s' \<and> (\<forall>g. sm_free_segmap s' g \<longleftrightarrow> sm_free_segmap s g \<or> (\<exists>t \<in> set l. g = cs_segno (curseg t s)))"
  using assms(3)
proof (induction l rule: rev_induct)
  case Nil
  then show ?case using assms(2) by (simp add: free_frame_def)
next
  case (snoc t l)
  define s1 where "s1 = foldl (\<lambda>s t. set_test_and_inuse (cs_segno (curseg t s)) s) s l"
  have i: "free_frame s s1" "seg_free s1" "\<And>g. sm_free_segmap s1 g \<longleftrightarrow> sm_free_segmap s g \<or> (\<exists>t \<in> set l. g = cs_segno (curseg t s))"
    using snoc by (auto simp: s1_def Let_def)
  note fd = free_frameD[OF i(1)]
  let ?g = "cs_segno (curseg t s)"
  have g: "seg_geo s1" "?g < sm_main_segments s1" using assms(1) snoc.prems same_geoD(8)[OF fd(6)] fd(1) by auto
  have e: "foldl (\<lambda>s t. set_test_and_inuse (cs_segno (curseg t s)) s) s (l @ [t]) = (if sm_free_segmap s1 ?g then s1 else set_inuse ?g s1)"
    unfolding foldl_append foldl.simps s1_def[symmetric] fd(3) by (rule set_test_and_inuse_def)
  have fi: "free_frame s1 (set_inuse ?g s1)" using set_inuse_frame[of ?g s1] by (simp only: free_frame_def)
  show ?case
  proof (cases "sm_free_segmap s1 ?g")
    case True
    then show ?thesis unfolding e Let_def using i by auto
  next
    case False
    then show ?thesis unfolding e Let_def
      using free_frame_trans[OF i(1) fi] seg_free_set_inuse[OF g(1) i(2) g(2) False] i(3) by (auto simp: set_inuse_fields(1))
  qed
qed

lemma init_free_segmap_ok:
  assumes geo: "seg_geo s" and fr: "seg_free s" and all: "sm_free_segmap s = (\<lambda>_. True)"
    and logs: "\<And>t. t < NR_CURSEG_TYPE \<Longrightarrow> cs_segno (curseg t s) < sm_main_segments s"
  shows "free_frame s (init_free_segmap s) \<and> seg_free (init_free_segmap s)
    \<and> (\<forall>g \<in> segs s. sm_free_segmap (init_free_segmap s) g \<longleftrightarrow> nvalid s g \<noteq> 0 \<or> IS_CURSEG s g)"
proof -
  define s1 where "s1 = foldl (\<lambda>s start. if se_valid_blocks (sm_sentries s start) = 0 then set_free start s else s) s [0 ..< sm_main_segments s]"
  have "let s' = foldl (\<lambda>s start. if se_valid_blocks (sm_sentries s start) = 0 then set_free start s else s) s [0 ..< sm_main_segments s] in
      free_frame s s' \<and> seg_free s' \<and> (\<forall>g. sm_free_segmap s' g \<longleftrightarrow> sm_free_segmap s g \<and> \<not> (g < sm_main_segments s \<and> nvalid s g = 0))"
  proof (rule free_loop[where used = True])
    fix t g assume "seg_geo t" "g < sm_main_segments t"
    then show "set_free g t = freed g t" by (rule set_free_eq)
  next
    fix t g assume "free_frame s t"
    then show "(nvalid t g = 0) = (nvalid s g = 0)" by (simp add: free_frameD)
  qed (use geo fr all in simp_all)
  then have i: "free_frame s s1" "seg_free s1" "\<And>g. sm_free_segmap s1 g \<longleftrightarrow> \<not> (g < sm_main_segments s \<and> nvalid s g = 0)"
    using all by (auto simp: s1_def Let_def)
  note fd = free_frameD[OF i(1)]
  let ?l = "[CURSEG_HOT_DATA ..< Suc CURSEG_COLD_NODE]"
  have l: "set ?l = {..< NR_CURSEG_TYPE}" by (auto simp: seg_types)
  have "let s' = foldl (\<lambda>s t. set_test_and_inuse (cs_segno (curseg t s)) s) s1 ?l in
    free_frame s1 s' \<and> seg_free s' \<and> (\<forall>g. sm_free_segmap s' g \<longleftrightarrow> sm_free_segmap s1 g \<or> (\<exists>t \<in> set ?l. g = cs_segno (curseg t s1)))"
    by (rule inuse_loop) (use geo i(2) logs fd same_geoD(8)[OF fd(6)] in \<open>simp_all only: l lessThan_iff, auto\<close>)
  then have "free_frame s1 (init_free_segmap s)" "seg_free (init_free_segmap s)"
    "\<And>g. sm_free_segmap (init_free_segmap s) g \<longleftrightarrow> sm_free_segmap s1 g \<or> (\<exists>t < NR_CURSEG_TYPE. g = cs_segno (curseg t s1))"
    unfolding init_free_segmap_def s1_def[symmetric] Let_def l by auto
  then show ?thesis using free_frame_trans[OF i(1)] i(3) by (auto simp: IS_CURSEG_iff fd(3))
qed

subsection \<open>The invariant of what is mounted\<close>

lemma mounted_entries:
  assumes "mounted s ck x" "g < sm_main_segments s"
  shows "vbit x g = vbit s g" "cbit x g = vbit s g" "nvalid x g = nvalid s g" "se_type (sm_sentries x g) = se_type (sm_sentries s g)"
    "se_ckpt_valid_blocks (sm_sentries x g) = of_nat (nvalid s g)"
    "fst (seg_info_to_raw_sit (sm_sentries x g)) = fst (seg_info_to_raw_sit (sm_sentries s g))"
proof -
  have "sm_sentries x g = snd (seg_info_to_raw_sit (sm_sentries s g))" using assms by (simp add: mounted_def)
  then show "vbit x g = vbit s g" "cbit x g = vbit s g" "nvalid x g = nvalid s g" "se_type (sm_sentries x g) = se_type (sm_sentries s g)"
    "se_ckpt_valid_blocks (sm_sentries x g) = of_nat (nvalid s g)"
    "fst (seg_info_to_raw_sit (sm_sentries x g)) = fst (seg_info_to_raw_sit (sm_sentries s g))"
    by (simp_all add: fun_eq_iff vbit_def cbit_def seg_info_to_raw_sit_def)
qed

lemma mounted_seg_sit:
  assumes geo: "seg_geo s" and sit: "seg_sit s" and m: "mounted s ck x" and v: "ck_valid_block_count ck = sm_written_valid_blocks s"
    and fr: "\<And>g. g < sm_main_segments s \<Longrightarrow> \<not> sm_free_segmap x g \<Longrightarrow> nvalid s g = 0"
  shows "seg_sit x"
proof -
  have sg: "same_geo s x" using m by (simp add: mounted_def)
  note e = mounted_entries[OF m] and gg = same_geoD[OF sg]
  have b: "blocks_per_seg x = blocks_per_seg s" "sm_main_segments x = sm_main_segments s" by (rule gg)+
  have so: "section_of x = section_of s" using sg by (simp add: same_geo_def section_of_def fun_eq_iff)
  have "entry_ok x g" if g: "g < sm_main_segments s" for g
  proof -
    have ok: "entry_ok s g" using sit g by (simp add: seg_sit_def)
    have "\<forall>i \<in> blocks s. \<not> vbit s g i" if "\<not> sm_free_segmap x g"
      using fr[OF g that] nvalid_pos[OF sit g] by fastforce
    then show ?thesis using ok unfolding entry_ok_def e[OF g] b by simp
  qed
  then have "\<forall>g \<in> segs x. entry_ok x g" by (simp add: b)
  moreover have "(\<Sum>g \<in> segs x. nvalid x g) = (\<Sum>g \<in> segs s. nvalid s g)" by (rule sum.cong) (simp_all add: b e)
  moreover have "(\<Sum>g \<in> section_of s sec. nvalid x g) = (\<Sum>g \<in> section_of s sec. nvalid s g)" if "sec < sm_total_sections s" for sec
    by (rule sum.cong) (use section_as_set[OF geo that] e in auto)
  moreover have "sm_written_valid_blocks x = of_nat (\<Sum>g \<in> segs s. nvalid s g)"
    using m v sit by (simp add: mounted_def seg_sit_def)
  ultimately show ?thesis
    using m unfolding seg_sit_def so gg(9) by (simp add: mounted_def same_geo_def)
qed

definition log_ok :: "f2fs_sm_info \<Rightarrow> nat \<Rightarrow> bool" where
  "log_ok s t \<longleftrightarrow> (let c = curseg t s; g = cs_segno c; n = cs_next_blkoff c in
     g < sm_main_segments s \<and> se_type (sm_sentries s g) = t \<and> n < blocks_per_seg s \<and> \<not> vbit s g n
     \<and> (cs_alloc_type c = LFS \<longrightarrow> (\<forall>i. n \<le> i \<and> i < blocks_per_seg s \<longrightarrow> \<not> vbit s g i)))"

lemma mounted_curseg:
  assumes "mounted s (do_checkpoint_logs v s') x" "sm_curseg s' = sm_curseg s" "t < NR_CURSEG_TYPE"
  shows "cs_segno (curseg t x) = cs_segno (curseg t s)" "cs_next_blkoff (curseg t x) = cs_next_blkoff (curseg t s)"
    "cs_alloc_type (curseg t x) = cs_alloc_type (curseg t s)" "cs_zone (curseg t x) = GET_ZONENO_FROM_SEGNO s (cs_segno (curseg t s))"
    "IS_NODESEG t \<Longrightarrow> i < blocks_per_seg s \<Longrightarrow> sum_entries (cs_sum_blk (curseg t x)) i
       = (sum_entries (cs_sum_blk (curseg t s)) i)\<lparr>sum_version := 0, sum_ofs_in_node := 0\<rparr>"
    "\<not> IS_NODESEG t \<Longrightarrow> sum_entries (cs_sum_blk (curseg t x)) i = sum_entries (cs_sum_blk (curseg t s)) i"
proof -
  have "curseg t x = mounted_log (do_checkpoint_logs v s') s t" using assms by (simp add: mounted_def)
  then show "cs_segno (curseg t x) = cs_segno (curseg t s)" "cs_next_blkoff (curseg t x) = cs_next_blkoff (curseg t s)"
    "cs_alloc_type (curseg t x) = cs_alloc_type (curseg t s)" "cs_zone (curseg t x) = GET_ZONENO_FROM_SEGNO s (cs_segno (curseg t s))"
    "IS_NODESEG t \<Longrightarrow> i < blocks_per_seg s \<Longrightarrow> sum_entries (cs_sum_blk (curseg t x)) i
       = (sum_entries (cs_sum_blk (curseg t s)) i)\<lparr>sum_version := 0, sum_ofs_in_node := 0\<rparr>"
    "\<not> IS_NODESEG t \<Longrightarrow> sum_entries (cs_sum_blk (curseg t x)) i = sum_entries (cs_sum_blk (curseg t s)) i"
    using assms(2) by (simp_all add: mounted_log_def do_checkpoint_logs_def)
qed

lemma seg_inv_mounted:
  assumes geo: "seg_geo s" and sit: "seg_sit s" and m: "mounted s (do_checkpoint_logs v s') x" and cs: "sm_curseg s' = sm_curseg s"
    and v: "v = sm_written_valid_blocks s" and fx: "seg_free x"
    and fr: "\<And>g. g < sm_main_segments s \<Longrightarrow> sm_free_segmap x g \<longleftrightarrow> nvalid s g \<noteq> 0 \<or> IS_CURSEG s g"
    and logs: "\<And>t. t < NR_CURSEG_TYPE \<Longrightarrow> log_ok s t"
    and nr: "nr_ok x" and dl: "\<And>t g. sm_dirty_segmap x t g \<longleftrightarrow> g < sm_main_segments s \<and> sm_free_segmap x g \<and> 0 < nvalid s g
      \<and> nvalid s g < blocks_per_seg s \<and> \<not> IS_CURSEG s g \<and> (t = DIRTY \<or> t = se_type (sm_sentries s g))"
  shows "seg_inv x"
proof -
  have sg: "same_geo s x" using m by (simp add: mounted_def)
  note e = mounted_entries[OF m] and gg = same_geoD[OF sg] and c = mounted_curseg[OF m cs]
  have cur: "IS_CURSEG x g \<longleftrightarrow> IS_CURSEG s g" for g using c(1) by (auto simp: IS_CURSEG_iff)
  have lg: "cs_segno (curseg t s) < sm_main_segments s" "se_type (sm_sentries s (cs_segno (curseg t s))) = t" if "t < NR_CURSEG_TYPE" for t
    using logs[OF that] by (auto simp: log_ok_def Let_def)
  have sx: "seg_sit x" by (rule mounted_seg_sit[OF geo sit m]) (use v fr in \<open>auto simp: do_checkpoint_logs_def\<close>)
  have zone: "GET_ZONENO_FROM_SEGNO x = GET_ZONENO_FROM_SEGNO s" using sg by (simp add: same_geo_def GET_ZONENO_FROM_SEGNO_def fun_eq_iff)
  have inuse: "sm_free_segmap x (cs_segno (curseg t s))" if "t < NR_CURSEG_TYPE" for t
    using fr[OF lg(1)[OF that]] that by (auto simp: IS_CURSEG_iff)
  have "seg_logs x"
    unfolding seg_logs_def using c(1,4) lg inuse e(4) by (simp add: gg(7) zone)
  moreover have "seg_dirty x {}"
    unfolding seg_dirty_def
  proof (intro conjI ballI)
    show "\<forall>t \<le> PRE. sm_nr_dirty x t = int (card {g \<in> segs x. sm_dirty_segmap x t g})" using nr by (simp add: nr_ok_def)
    fix g assume "g \<in> segs x"
    then have g: "g < sm_main_segments s" by (simp add: gg(7))
    have ty: "se_type (sm_sentries s g) < DIRTY" using sit g by (simp add: seg_sit_def entry_ok_def seg_types)
    have pre: "\<not> sm_dirty_segmap x PRE g" using dl ty by (simp add: seg_types)
    show "may_listed x g"
      unfolding may_listed_def e[OF g] cur using pre dl by auto
    show "g \<notin> {} \<longrightarrow> must_listed x g"
      unfolding must_listed_def e[OF g] cur gg(6) using pre dl[of DIRTY g] fr[OF g] g by auto
  qed
  moreover have "next_ok x t" if "t < NR_CURSEG_TYPE" for t
    using logs[OF that] e(1,2)[OF lg(1)[OF that]] c(1-3)[OF that] by (simp add: log_ok_def next_ok_def Let_def gg(6))
  ultimately show ?thesis using sx fx geo by (simp add: seg_inv_def seg_base_def gg(8))
qed

lemma block_owner_mounted:
  assumes geo: "seg_geo s" and m: "mounted s (do_checkpoint_logs v s') x" and cs: "sm_curseg s' = sm_curseg s"
    and ls: "seg_logs s" and lx: "seg_logs x"
    and ns: "\<And>t i. t < NR_CURSEG_TYPE \<Longrightarrow> IS_NODESEG t \<Longrightarrow> i < blocks_per_seg s \<Longrightarrow> vbit s (cs_segno (curseg t s)) i \<Longrightarrow>
      sum_version (sum_entries (cs_sum_blk (curseg t s)) i) = 0 \<and> sum_ofs_in_node (sum_entries (cs_sum_blk (curseg t s)) i) = 0"
  shows "block_owner x = block_owner s"
proof
  fix b
  have sg: "same_geo s x" using m by (simp add: mounted_def)
  note e = mounted_entries[OF m] and gg = same_geoD[OF sg] and c = mounted_curseg[OF m cs]
  let ?g = "GET_SEGNO s b" and ?i = "GET_BLKOFF_FROM_SEG0 s b"
  have val: "blk_valid x b \<longleftrightarrow> blk_valid s b" using e(1) by (auto simp: blk_valid_def gg)
  have "summary_at x ?g ?i = summary_at s ?g ?i" if v: "blk_valid s b"
  proof (cases "IS_CURSEG s ?g")
    case True
    then obtain t where t: "t < NR_CURSEG_TYPE" "cs_segno (curseg t s) = ?g" by (auto simp: IS_CURSEG_iff)
    have i: "?i < blocks_per_seg s" by (rule GET_BLKOFF_less[OF geo])
    have "sum_entries (cs_sum_blk (curseg t x)) ?i = sum_entries (cs_sum_blk (curseg t s)) ?i"
    proof (cases "IS_NODESEG t")
      case True
      then show ?thesis using c(5)[OF t(1) True i] ns[OF t(1) True i] v t(2) by (simp add: blk_valid_def)
    qed (use c(6)[OF t(1)] in simp)
    then show ?thesis using summary_at_cur[OF ls t] summary_at_cur[OF lx t(1)] c(1)[OF t(1)] t(2) by simp
  next
    case False
    then have "\<not> IS_CURSEG x ?g" using c(1) by (auto simp: IS_CURSEG_iff)
    then show ?thesis using False m by (simp add: summary_at_page mounted_def gg)
  qed
  then show "block_owner x b = block_owner s b" using val by (simp add: block_owner_def gg)
qed

end
