(* ===== verification/F2fsBlocks.thy ===== *)
theory F2fsBlocks
  imports F2fsSegmentSpec
begin

unbundle bit_operations_syntax

text \<open>
  What the segment manager promises about blocks: an allocated block was free, the owners of the
  other blocks stay, and a block that is not valid cannot be released. The example is a new file
  system with eight segments of eight blocks, of which the logs use six.
\<close>

definition small_fs :: f2fs_sm_info where
  "small_fs = \<lparr>sm_log_blocks_per_seg = 3, sm_segs_per_sec = 1, sm_secs_per_zone = 1, sm_main_segments = 8,
     sm_total_sections = 8, sm_segment_count = 16, sm_seg0_blkaddr = 512, sm_start_segno = 0, sm_ssa_blkaddr = 100, sm_noheap = False,
     sm_sentries = (\<lambda>g. \<lparr>se_valid_blocks = 0, se_cur_map = (\<lambda>_. 0), se_ckpt_valid_blocks = 0, se_ckpt_map = (\<lambda>_. 0),
       se_type = (if g < 6 then g else 0), se_mtime = 0\<rparr>),
     sm_sec_valid = (\<lambda>_. 0), sm_dirty_sentries_bitmap = (\<lambda>_. False), sm_dirty_sentries = 0,
     sm_written_valid_blocks = 0, sm_elapsed_time = 0, sm_mounted_time = 0, sm_current_time = 7, sm_max_mtime = 0,
     sm_free_segmap = (\<lambda>g. g < 6), sm_free_secmap = (\<lambda>g. g < 6), sm_free_segments = 2, sm_free_sections = 2,
     sm_dirty_segmap = (\<lambda>_ _. False), sm_nr_dirty = (\<lambda>_. 0), sm_victim_secmap = (\<lambda>_. False),
     sm_curseg = (\<lambda>t. \<lparr>cs_sum_blk = \<lparr>sum_entries = (\<lambda>_. \<lparr>sum_nid = 0, sum_ofs_in_node = 0, sum_version = 0\<rparr>), sum_footer_type = 0\<rparr>,
       cs_alloc_type = LFS, cs_segno = t, cs_next_blkoff = 0, cs_zone = t, cs_next_segno = NULL_SEGNO\<rparr>),
     sm_sum_pages = (\<lambda>_. \<lparr>sum_entries = (\<lambda>_. \<lparr>sum_nid = 0, sum_ofs_in_node = 0, sum_version = 0\<rparr>), sum_footer_type = 0\<rparr>)\<rparr>"

lemma small_fs_inv: "seg_inv small_fs"
proof -
  let ?s = small_fs
  have bits: "\<not> vbit ?s g i" "\<not> cbit ?s g i" for g i
    by (simp_all add: vbit_def cbit_def small_fs_def f2fs_test_bit_def)
  have two: "{g. g < (8 :: nat) \<and> \<not> g < 6} = {6, 7}" by auto
  have "seg_geo ?s" by (simp add: seg_geo_def small_fs_def blocks_per_seg_def)
  moreover have "seg_sit ?s"
    unfolding seg_sit_def entry_ok_def by (simp add: bits) (simp add: small_fs_def seg_types)
  moreover have "seg_free ?s"
  proof -
    have "section_of ?s sec = {sec}" for sec by (auto simp: section_of_def small_fs_def)
    then show ?thesis using two by (simp add: seg_free_def) (simp add: small_fs_def)
  qed
  moreover have "seg_logs ?s" by (simp add: seg_logs_def small_fs_def seg_types GET_ZONENO_FROM_SEGNO_def)
  moreover have "seg_dirty ?s {}"
  proof -
    have "IS_CURSEG ?s g \<longleftrightarrow> g < 6" for g by (simp add: IS_CURSEG_iff) (simp add: small_fs_def seg_types)
    then show ?thesis by (simp add: seg_dirty_def may_listed_def must_listed_def) (simp add: small_fs_def)
  qed
  moreover have "next_ok ?s t" for t
    unfolding next_ok_def Let_def by (simp add: bits) (simp add: small_fs_def blocks_per_seg_def)
  ultimately show ?thesis by (simp add: seg_inv_def seg_base_def)
qed

lemma small_fs_free: "sm_free_sections small_fs \<noteq> 0"
  by (simp add: small_fs_def)

subsection \<open>Allocation\<close>

lemma next_block_fresh:
  assumes inv: "seg_inv s" and t: "t < NR_CURSEG_TYPE"
  shows "\<not> blk_valid s (NEXT_FREE_BLKADDR s (curseg t s)) \<and> \<not> blk_ckpt_valid s (NEXT_FREE_BLKADDR s (curseg t s))
    \<and> GET_SEGNO s (NEXT_FREE_BLKADDR s (curseg t s)) = cs_segno (curseg t s) \<and> cs_segno (curseg t s) < sm_main_segments s"
proof -
  let ?g = "cs_segno (curseg t s)" and ?n = "cs_next_blkoff (curseg t s)"
  have geo: "seg_geo s" and g: "?g < sm_main_segments s" using inv t by (auto simp: seg_inv_def seg_base_def seg_logs_def)
  have n: "?n < blocks_per_seg s" "\<not> vbit s ?g ?n" "\<not> cbit s ?g ?n" using inv t by (auto simp: seg_inv_def next_ok_def Let_def)
  have "NEXT_FREE_BLKADDR s (curseg t s) = blk_at s ?g ?n" by (simp add: NEXT_FREE_BLKADDR_def blk_at_def)
  then show ?thesis using geo g n by (simp add: blk_valid_def blk_ckpt_valid_def)
qed

lemma allocate_data_block_address:
  "allocate_data_block page old sm t s = Some r \<Longrightarrow> fst r = NEXT_FREE_BLKADDR s (curseg t s)"
  by (auto simp: allocate_data_block_def Let_def split: bind_splits)

text \<open>C36: With a free section \<open>allocate_data_block\<close> always works. The block it gives was not valid, neither now
  nor in the last checkpoint, so a crash finds the old contents of every block of the checkpoint;
  the invariant of the segment manager is kept, on every path through the search for a segment; and
  the address written to the footer of a node is the one that the next allocation of the same log
  gives, which is the chain the recovery follows.\<close>

theorem allocate_data_block_fresh:
  assumes "seg_inv s" "t < NR_CURSEG_TYPE" "no_block old \<or> blk_valid s old" "sm_free_sections s \<noteq> 0"
  shows "\<exists>blk footer s'. allocate_data_block page old sm t s = Some (blk, footer, s')
    \<and> \<not> blk_valid s blk \<and> \<not> blk_ckpt_valid s blk \<and> GET_SEGNO s blk < sm_main_segments s
    \<and> seg_inv s' \<and> (\<forall>b. blk_ckpt_valid s' b \<longleftrightarrow> blk_ckpt_valid s b)
    \<and> (page \<and> IS_NODESEG t \<longrightarrow> (\<forall>page2 old2 sm2 r. allocate_data_block page2 old2 sm2 t s' = Some r \<longrightarrow> footer = Some (fst r)))"
proof -
  obtain s' where s': "allocate_data_block page old sm t s = Some (NEXT_FREE_BLKADDR s (curseg t s),
        if page \<and> IS_NODESEG t then Some (NEXT_FREE_BLKADDR s' (curseg t s')) else None, s')"
      "seg_inv s'" "same_geo s s'" "cbit s' = cbit s"
    using allocate_data_block_all[OF assms] by blast
  have "blk_ckpt_valid s' b \<longleftrightarrow> blk_ckpt_valid s b" for b by (simp add: blk_ckpt_valid_def s'(4) same_geoD[OF s'(3)])
  then show ?thesis using s'(1,2) next_block_fresh[OF assms(1,2)] allocate_data_block_address by fastforce
qed

theorem allocate_data_block_fresh_witness:
  "\<exists>blk s'. allocate_data_block True NULL_ADDR \<lparr>sum_nid = 3, sum_ofs_in_node = 0, sum_version = 0\<rparr> CURSEG_HOT_NODE small_fs
      = Some (blk, Some (NEXT_FREE_BLKADDR s' (curseg CURSEG_HOT_NODE s')), s') \<and> seg_inv s' \<and> \<not> blk_valid small_fs blk"
proof -
  let ?sm = "\<lparr>sum_nid = 3, sum_ofs_in_node = 0, sum_version = 0\<rparr>"
  have h: "CURSEG_HOT_NODE < NR_CURSEG_TYPE" "no_block NULL_ADDR \<or> blk_valid small_fs NULL_ADDR"
    by (simp_all add: seg_types no_block_def)
  from allocate_data_block_fresh[OF small_fs_inv h small_fs_free, of True ?sm] obtain blk footer s'
    where a: "allocate_data_block True NULL_ADDR ?sm CURSEG_HOT_NODE small_fs = Some (blk, footer, s')" "seg_inv s'" "\<not> blk_valid small_fs blk"
    by blast
  moreover have "footer = Some (NEXT_FREE_BLKADDR s' (curseg CURSEG_HOT_NODE s'))"
    using a(1) by (auto simp: allocate_data_block_def Let_def IS_NODESEG_def split: bind_splits)
  ultimately show ?thesis by blast
qed

subsection \<open>Owners\<close>

lemma block_owner_released:
  assumes geo: "seg_geo s" and r: "revalidated (\<lambda>h j. vbit s h j \<and> \<not> (h = GET_SEGNO s b \<and> j = GET_BLKOFF_FROM_SEG0 s b)) s s'"
  shows "block_owner s' = (block_owner s)(b := None)"
proof
  fix c
  have v: "vbit s' h j \<longleftrightarrow> vbit s h j \<and> \<not> (h = GET_SEGNO s b \<and> j = GET_BLKOFF_FROM_SEG0 s b)" for h j
    using r by (simp add: revalidated_def)
  have sg: "same_geo s s'" using r by (simp add: revalidated_def)
  have "c = b" if "GET_SEGNO s c < sm_main_segments s" "GET_SEGNO s c = GET_SEGNO s b"
      "GET_BLKOFF_FROM_SEG0 s c = GET_BLKOFF_FROM_SEG0 s b"
    using blk_at_GET[OF geo, of c] blk_at_GET[OF geo, of b] that by simp
  then show "block_owner s' c = ((block_owner s)(b := None)) c"
    by (auto simp: block_owner_def blk_valid_def same_geoD[OF sg] v summary_at_revalidated[OF r])
qed

lemma invalidate_blocks_ok:
  assumes inv: "seg_inv s" and v: "blk_valid s b"
  shows "\<exists>s'. invalidate_blocks b s = Some s' \<and> seg_inv s' \<and> block_owner s' = (block_owner s)(b := None)"
proof -
  let ?g = "GET_SEGNO s b" and ?V = "\<lambda>h j. vbit s h j \<and> \<not> (h = GET_SEGNO s b \<and> j = GET_BLKOFF_FROM_SEG0 s b)"
  have base: "seg_base s {}" and nx: "\<And>u. u < NR_CURSEG_TYPE \<Longrightarrow> next_ok s u" using inv by (auto simp: seg_inv_def)
  have geo: "seg_geo s" and sit: "seg_sit s" using base by (auto simp: seg_base_def)
  obtain s1 where s1: "update_sit_entry b (- 1) s = Some s1" "seg_base s1 {?g}" "revalidated ?V s s1"
    using release_block_ok[OF base v] by blast
  have g: "?g < sm_main_segments s1" "sm_free_segmap s1 ?g"
    using s1(3) v valid_inuse[OF sit, of ?g "GET_BLKOFF_FROM_SEG0 s b"] GET_BLKOFF_less[OF geo, of b]
    by (auto simp: revalidated_def same_geoD blk_valid_def)
  obtain s2 where s2: "locate_dirty_segment ?g s1 = Some s2" "dirty_frame s1 s2" "seg_base s2 ({?g} - {?g})"
    using locate_dirty_segment_ok[OF s1(2), of ?g] g by blast
  have r: "revalidated ?V s s2" by (rule revalidated_dirty_after[OF s1(3) s2(2)])
  have "next_ok s2 u" if "u < NR_CURSEG_TYPE" for u
    by (rule next_ok_mono[OF nx[OF that]]) (use r in \<open>auto simp: revalidated_def same_geoD\<close>)
  then have "seg_inv s2" using s2(3) by (simp add: seg_inv_def)
  moreover have "invalidate_blocks b s = Some s2"
    using blk_valid_not_no_block[OF geo v] s1(1) s2(1) by (simp add: invalidate_blocks_def no_block_def)
  ultimately show ?thesis using block_owner_released[OF geo r] by blast
qed

lemma release_not_valid:
  assumes "\<not> blk_valid s b" "GET_SEGNO s b < sm_main_segments s"
  shows "update_sit_entry b (- 1) s = None"
proof -
  have "\<not> f2fs_test_bit (GET_BLKOFF_FROM_SEG0 s b) (se_cur_map (sm_sentries s (GET_SEGNO s b)))"
    using assms by (simp add: blk_valid_def vbit_def)
  then show ?thesis
    using assms(2) by (simp add: update_sit_entry_def get_seg_entry_def Let_def f2fs_clear_bit_def bug_on_def)
qed

text \<open>C37: Seen from outside the segment manager is a map from the addresses of the valid blocks to their
  summaries, whether these are in a summary page or in a log. \<open>allocate_data_block\<close> removes the old
  block and enters the new one with its summary; \<open>invalidate_blocks\<close> removes exactly its block and
  stops on a block of the main area that is not valid. No other block changes its summary, also when
  the log moves to another segment.\<close>

theorem block_owner_refined:
  assumes "seg_inv s" "t < NR_CURSEG_TYPE" "no_block old \<or> blk_valid s old" "sm_free_sections s \<noteq> 0"
  shows "(\<exists>blk footer s'. allocate_data_block page old sm t s = Some (blk, footer, s')
      \<and> block_owner s blk = None \<and> block_owner s' = (block_owner s)(old := None, blk \<mapsto> sm))
    \<and> (\<forall>b. blk_valid s b \<longrightarrow> (\<exists>s'. invalidate_blocks b s = Some s' \<and> seg_inv s' \<and> block_owner s' = (block_owner s)(b := None)))
    \<and> (\<forall>b. \<not> blk_valid s b \<and> GET_SEGNO s b < sm_main_segments s \<longrightarrow> invalidate_blocks b s = None)"
proof (intro conjI allI impI)
  show "\<exists>blk footer s'. allocate_data_block page old sm t s = Some (blk, footer, s')
      \<and> block_owner s blk = None \<and> block_owner s' = (block_owner s)(old := None, blk \<mapsto> sm)"
    using allocate_data_block_all[OF assms] next_block_fresh[OF assms(1,2)] unfolding block_owner_def by force
next
  fix b assume b: "\<not> blk_valid s b \<and> GET_SEGNO s b < sm_main_segments s"
  have "seg_geo s" using assms(1) by (simp add: seg_inv_def seg_base_def)
  then have "\<not> no_block b" using b main_bound by fastforce
  then show "invalidate_blocks b s = None"
    using b release_not_valid[of s b] by (simp add: invalidate_blocks_def no_block_def)
qed (use invalidate_blocks_ok[OF assms(1)] in blast)

theorem block_owner_refined_witness:
  "\<exists>blk footer s'. allocate_data_block False NEW_ADDR \<lparr>sum_nid = 3, sum_ofs_in_node = 5, sum_version = 0\<rparr> CURSEG_WARM_DATA small_fs
      = Some (blk, footer, s') \<and> block_owner s' blk = Some \<lparr>sum_nid = 3, sum_ofs_in_node = 5, sum_version = 0\<rparr>"
proof -
  have "CURSEG_WARM_DATA < NR_CURSEG_TYPE" "no_block NEW_ADDR \<or> blk_valid small_fs NEW_ADDR"
    by (simp_all add: seg_types no_block_def)
  from block_owner_refined[OF small_fs_inv this small_fs_free, of False "\<lparr>sum_nid = 3, sum_ofs_in_node = 5, sum_version = 0\<rparr>"]
  show ?thesis by force
qed

subsection \<open>The dummy block\<close>

text \<open>C40: \<open>allocate_dummy_data_block\<close>, which is to fill a flash page up to its end, releases the next free
  block of the log instead of taking it. The block is not valid, so the kernel always stops on
  \<open>f2fs_bug_on\<close>.\<close>

theorem allocate_dummy_data_block_stops:
  assumes "seg_inv s" "t < NR_CURSEG_TYPE"
  shows "allocate_dummy_data_block page t s = None"
proof -
  have "has_curseg_space t s" using assms by (simp add: seg_inv_def next_ok_def has_curseg_space_def Let_def)
  moreover have "update_sit_entry (NEXT_FREE_BLKADDR s (curseg t s)) (- 1) s = None"
    by (rule release_not_valid) (use next_block_fresh[OF assms] in simp_all)
  ultimately show ?thesis by (simp add: allocate_dummy_data_block_def Let_def)
qed

theorem allocate_dummy_data_block_stops_witness: "allocate_dummy_data_block True CURSEG_WARM_DATA small_fs = None"
  by (rule allocate_dummy_data_block_stops[OF small_fs_inv]) (simp add: seg_types)

end
