(* ===== verification/F2fsCheckpoint.thy ===== *)
theory F2fsCheckpoint
  imports F2fsRemount F2fsBlocks
begin

text \<open>
  What the checkpoint of the segment information promises: it is complete, it discards no valid block,
  and a mount afterwards gives the file system back. The example writes one block to the file system
  of \<open>F2fsBlocks\<close>.
\<close>

subsection \<open>Mounting\<close>

lemma mounted_frame:
  assumes "mounted s ck x" "same_geo x y" "sm_sentries y = sm_sentries x" "sm_curseg y = sm_curseg x"
    "sm_dirty_sentries_bitmap y = sm_dirty_sentries_bitmap x" "sm_dirty_sentries y = sm_dirty_sentries x"
    "sm_written_valid_blocks y = sm_written_valid_blocks x" "sm_sec_valid y = sm_sec_valid x" "sm_sum_pages y = sm_sum_pages x"
  shows "mounted s ck y"
  using assms same_geo_trans[OF _ assms(2)] by (simp add: mounted_def)

lemma seg_inv_mtime:
  "seg_inv (s\<lparr>sm_victim_secmap := v, sm_max_mtime := t\<rparr>) = seg_inv s"
proof -
  let ?s = "s\<lparr>sm_victim_secmap := v, sm_max_mtime := t\<rparr>"
  have eq: "vbit ?s = vbit s" "cbit ?s = cbit s" "IS_CURSEG ?s = IS_CURSEG s" "blocks_per_seg ?s = blocks_per_seg s"
    "section_of ?s = section_of s" "GET_ZONENO_FROM_SEGNO ?s = GET_ZONENO_FROM_SEGNO s"
    by (simp_all add: vbit_def cbit_def IS_CURSEG_def fun_eq_iff blocks_per_seg_def section_of_def GET_ZONENO_FROM_SEGNO_def)
  have "seg_geo ?s = seg_geo s" "seg_sit ?s = seg_sit s" "seg_free ?s = seg_free s" "seg_logs ?s = seg_logs s"
    "may_listed ?s = may_listed s" "must_listed ?s = must_listed s" "next_ok ?s u = next_ok s u" for u
    by (simp_all add: seg_geo_def seg_sit_def entry_ok_def seg_free_def seg_logs_def may_listed_def must_listed_def next_ok_def fun_eq_iff eq)
  then show ?thesis by (simp add: seg_inv_def seg_base_def seg_dirty_def)
qed

lemma build_segment_manager_ok:
  assumes ok: "ckpt_ok s d" "dirty_set s = {}" and cnt: "sm_main_segments s \<le> sm_segment_count s"
    and logs: "\<And>t. t < NR_CURSEG_TYPE \<Longrightarrow> log_ok s t" and cs: "sm_curseg s' = sm_curseg s" and m: "same_layout s m"
  defines "ck \<equiv> do_checkpoint_logs (sm_written_valid_blocks s) s'"
  shows "\<exists>x. build_segment_manager ck d m = Some (x, d\<lparr>discard_list := [], nr_discards := 0, max_discards := 0\<rparr>) \<and> mounted s ck x \<and> seg_inv x
    \<and> (\<forall>g < sm_main_segments s. sm_free_segmap x g \<longleftrightarrow> nvalid s g \<noteq> 0 \<or> IS_CURSEG s g)"
proof -
  have geo: "seg_geo s" and sit: "seg_sit s" using ok(1) by (auto simp: ckpt_ok_def)
  have lg: "cs_segno (curseg t s) < sm_main_segments s" if "t < NR_CURSEG_TYPE" for t using logs[OF that] by (simp add: log_ok_def Let_def)
  have "ck_segno ck t < sm_main_segments s" if "t < NR_CURSEG_TYPE" for t using lg[OF that] by (simp add: ck_def do_checkpoint_logs_def cs)
  then obtain x y where x: "build_curseg ck (build_free_segmap (build_sit_info ck m)) = Some y" "build_sit_entries d y = Some x" "mounted s ck x"
      "sm_free_segmap x = (\<lambda>_. True)" "seg_free x" using build_tables_ok[OF ok cnt _ m] by blast
  have sgx: "same_geo s x" using x(3) by (simp add: mounted_def)
  note gx = same_geoD[OF sgx] and ex = mounted_entries[OF x(3)] and cx = mounted_curseg(1)[OF x(3)[unfolded ck_def] cs]
  have curx: "IS_CURSEG x g \<longleftrightarrow> IS_CURSEG s g" for g using cx by (auto simp: IS_CURSEG_iff)
  have lx: "cs_segno (curseg t x) < sm_main_segments x" if "t < NR_CURSEG_TYPE" for t using cx lg that by (simp add: gx(7))
  let ?f = "init_free_segmap x"
  have f: "free_frame x ?f" "seg_free ?f" "\<forall>g \<in> segs x. sm_free_segmap ?f g \<longleftrightarrow> nvalid x g \<noteq> 0 \<or> IS_CURSEG x g"
    using init_free_segmap_ok[of x] geo x(4,5) lx by (auto simp: gx(8))
  note fd = free_frameD[OF f(1)]
  have mf: "mounted s ck ?f" by (rule mounted_frame[OF x(3)]) (simp_all add: fd)
  have fr: "sm_free_segmap ?f g \<longleftrightarrow> nvalid s g \<noteq> 0 \<or> IS_CURSEG s g" if "g < sm_main_segments s" for g
    using f(3) that by (simp add: gx(7) ex curx)
  define z where "z = ?f\<lparr>sm_dirty_segmap := (\<lambda>_ _. False), sm_nr_dirty := (\<lambda>_. 0)\<rparr>"
  have dz: "dirty_frame ?f z" by (simp add: dirty_frame_def z_def)
  note zd = dirty_frameD[OF dz] dirty_frame_parts[OF dz]
  have mz: "mounted s ck z" by (rule mounted_frame[OF mf same_geo_dirty[OF dz]]) (simp_all add: z_def)
  have sgz: "same_geo s z" using mz by (simp add: mounted_def)
  note ez = mounted_entries[OF mz] and gz = same_geoD[OF sgz]
  have curz: "IS_CURSEG z g \<longleftrightarrow> IS_CURSEG s g" for g
    using mounted_curseg(1)[OF mz[unfolded ck_def] cs] by (auto simp: IS_CURSEG_iff)
  obtain w where w: "init_dirty_segmap z = Some w" "dirty_frame z w" "nr_ok w"
      "\<And>t h. sm_dirty_segmap w t h \<longleftrightarrow> h < sm_main_segments z \<and> (sm_free_segmap z h \<and> 0 < nvalid z h
        \<and> nvalid z h < blocks_per_seg z \<and> \<not> IS_CURSEG z h) \<and> (t = DIRTY \<or> t = se_type (sm_sentries z h))"
  proof -
    have "se_type (sm_sentries z g) < NR_CURSEG_TYPE" "nvalid z g \<le> blocks_per_seg z" if "g < sm_main_segments z" for g
    proof -
      have g: "g < sm_main_segments s" using that by (simp only: gz(7))
      then have "entry_ok s g" using sit by (simp add: seg_sit_def)
      then show "se_type (sm_sentries z g) < NR_CURSEG_TYPE" by (simp only: ez[OF g] entry_ok_def)
      show "nvalid z g \<le> blocks_per_seg z" using nvalid_bound[OF sit g] by (simp only: ez[OF g] gz(6))
    qed
    moreover have "nr_ok z" "\<not> sm_dirty_segmap z t g" for t g by (simp_all add: nr_ok_def z_def)
    ultimately show ?thesis using init_dirty_segmap_ok[of z] that by blast
  qed
  have mw: "mounted s ck w" by (rule mounted_frame[OF mz same_geo_dirty[OF w(2)]]) (simp_all only: dirty_frameD[OF w(2)])
  have fz: "sm_free_segmap z = sm_free_segmap ?f" by (simp add: z_def)
  have fw: "sm_free_segmap w = sm_free_segmap ?f" "seg_free w = seg_free ?f"
    using dirty_frameD(10)[OF w(2)] dirty_frame_parts(3)[OF w(2)] zd by simp_all
  have "seg_inv w"
  proof (rule seg_inv_mounted[OF geo sit mw[unfolded ck_def] cs refl])
    fix t g
    show "sm_dirty_segmap w t g \<longleftrightarrow> g < sm_main_segments s \<and> sm_free_segmap w g \<and> 0 < nvalid s g
      \<and> nvalid s g < blocks_per_seg s \<and> \<not> IS_CURSEG s g \<and> (t = DIRTY \<or> t = se_type (sm_sentries s g))"
      using w(4)[of t g] ez[of g] unfolding gz(6,7) curz fw(1) fz by auto
  qed (use fw f(2) fr logs w(3) in simp_all)
  then have "seg_inv (w\<lparr>sm_victim_secmap := v, sm_max_mtime := t\<rparr>)" for v t by (simp only: seg_inv_mtime)
  moreover have "mounted s ck (w\<lparr>sm_victim_secmap := v, sm_max_mtime := t\<rparr>)" for v t
    by (rule mounted_frame[OF mw]) (simp_all add: same_geo_def)
  moreover have "build_segment_manager ck d m
      = Some (w\<lparr>sm_victim_secmap := (\<lambda>_. False), sm_max_mtime := get_mtime (w\<lparr>sm_victim_secmap := (\<lambda>_. False)\<rparr>)\<rparr>,
        d\<lparr>discard_list := [], nr_discards := 0, max_discards := 0\<rparr>)"
    by (simp add: build_segment_manager_def x(1,2) build_dirty_segmap_def w(1)[unfolded z_def])
  ultimately show ?thesis using fr fw(1) by simp
qed

subsection \<open>Allocations mark what they change\<close>

text \<open>An entry that is not marked is the one of before, so it still is what is on the disk.\<close>

definition unmarked_kept :: "f2fs_sm_info \<Rightarrow> f2fs_sm_info \<Rightarrow> bool" where
  "unmarked_kept s s' \<longleftrightarrow> sm_segment_count s' = sm_segment_count s \<and> (\<forall>g. \<not> sm_dirty_sentries_bitmap s' g \<longrightarrow>
     \<not> sm_dirty_sentries_bitmap s g \<and> sm_sentries s' g = sm_sentries s g)"

lemma unmarked_kept_trans: "unmarked_kept s s1 \<Longrightarrow> unmarked_kept s1 s2 \<Longrightarrow> unmarked_kept s s2"
  by (auto simp: unmarked_kept_def)

lemma unmarked_kept_same:
  "sm_sentries s' = sm_sentries s \<Longrightarrow> sm_dirty_sentries_bitmap s' = sm_dirty_sentries_bitmap s \<Longrightarrow>
   sm_segment_count s' = sm_segment_count s \<Longrightarrow> unmarked_kept s s'"
  by (simp add: unmarked_kept_def)

lemma set_dirty_segmap_kept: "unmarked_kept s (set_dirty_segmap t g s)" "unmarked_kept s (clear_dirty_segmap t g s)"
  by (auto simp: unmarked_kept_def set_dirty_segmap_def clear_dirty_segmap_def)

lemma locate_dirty_kept: "locate_dirty g t s = Some s' \<Longrightarrow> unmarked_kept s s'"
  using set_dirty_segmap_kept(1) unmarked_kept_trans[OF set_dirty_segmap_kept(1) set_dirty_segmap_kept(1)]
  by (auto simp: locate_dirty_def Let_def unmarked_kept_same split: if_splits bind_splits)

lemma remove_dirty_kept:
  assumes "remove_dirty g t s = Some s'" shows "unmarked_kept s s'"
proof -
  have v: "unmarked_kept x y \<Longrightarrow> unmarked_kept x (y\<lparr>sm_victim_secmap := w\<rparr>)" for x y w by (simp add: unmarked_kept_def)
  show ?thesis
    using assms v set_dirty_segmap_kept(2) unmarked_kept_trans[OF set_dirty_segmap_kept(2) set_dirty_segmap_kept(2)]
    by (auto simp: remove_dirty_def Let_def split: if_splits bind_splits)
qed

lemma locate_dirty_segment_kept: "locate_dirty_segment g s = Some s' \<Longrightarrow> unmarked_kept s s'"
  by (auto simp: locate_dirty_segment_def Let_def unmarked_kept_same split: if_splits bind_splits
      dest!: locate_dirty_kept remove_dirty_kept intro: unmarked_kept_trans)

lemma update_sit_entry_kept: "update_sit_entry b del s = Some s' \<Longrightarrow> unmarked_kept s s'"
  by (auto simp: update_sit_entry_def Let_def unmarked_kept_def mark_sit_entry_dirty_def split: if_splits bind_splits prod.splits)

lemma refresh_sit_entry_kept: "refresh_sit_entry old new s = Some s' \<Longrightarrow> unmarked_kept s s'"
  by (auto simp: refresh_sit_entry_def unmarked_kept_same split: if_splits bind_splits
      dest!: locate_dirty_segment_kept update_sit_entry_kept intro: unmarked_kept_trans)

lemma invalidate_blocks_kept: "invalidate_blocks b s = Some s' \<Longrightarrow> unmarked_kept s s'"
  by (auto simp: invalidate_blocks_def unmarked_kept_same split: if_splits bind_splits
      dest!: locate_dirty_segment_kept update_sit_entry_kept intro: unmarked_kept_trans)

lemma upd_curseg_kept: "unmarked_kept s (upd_curseg t f s)"
  by (simp add: unmarked_kept_def upd_curseg_def)

lemma reset_curseg_kept: "reset_curseg t True s = Some s' \<Longrightarrow> unmarked_kept s s'"
  by (auto simp: reset_curseg_def set_sit_entry_type_def unmarked_kept_def upd_curseg_def mark_sit_entry_dirty_def Let_def
      split: if_splits bind_splits)

lemma get_new_segment_kept: "get_new_segment g n dir s = Some (h, s') \<Longrightarrow> unmarked_kept s s'"
proof -
  assume "get_new_segment g n dir s = Some (h, s')"
  then have "s' = set_inuse h s" unfolding get_new_segment_def Let_def by (elim bind_eq_Some_conv[THEN iffD1, elim_format] exE conjE) simp
  then show ?thesis by (simp add: unmarked_kept_def set_inuse_def Let_def)
qed

lemma new_curseg_kept: "new_curseg t n s = Some s' \<Longrightarrow> unmarked_kept s s'"
proof -
  assume "new_curseg t n s = Some s'"
  then obtain g s2 s3 dir where "get_new_segment (cs_segno (curseg t s)) n dir
        (write_sum_page (cs_sum_blk (curseg t s)) (GET_SUM_BLOCK s (cs_segno (curseg t s))) s) = Some (g, s2)"
      "reset_curseg t True (upd_curseg t (\<lambda>c. c\<lparr>cs_next_segno := g\<rparr>) s2) = Some s3" "s' = upd_curseg t (\<lambda>c. c\<lparr>cs_alloc_type := LFS\<rparr>) s3"
    by (auto simp: new_curseg_def Let_def split: bind_splits)
  moreover have "unmarked_kept s (write_sum_page (cs_sum_blk (curseg t s)) (GET_SUM_BLOCK s (cs_segno (curseg t s))) s)"
    by (simp add: unmarked_kept_def write_sum_page_def)
  ultimately show ?thesis using upd_curseg_kept reset_curseg_kept get_new_segment_kept unmarked_kept_trans by metis
qed

lemma allocate_data_block_kept:
  assumes "allocate_data_block page old sm t s = Some (blk, footer, s')"
  shows "unmarked_kept s s'"
proof -
  let ?s1 = "refresh_next_blkoff t (add_sum_entry t sm s)"
  have 1: "unmarked_kept s ?s1" by (simp add: unmarked_kept_def refresh_next_blkoff_def add_sum_entry_def upd_curseg_def)
  obtain s2 where s2: "(if has_curseg_space t ?s1 then Some ?s1 else allocate_segment_by_default t False ?s1) = Some s2"
      "refresh_sit_entry old (NEXT_FREE_BLKADDR s (curseg t s)) s2 = Some s'"
    using assms by (auto simp: allocate_data_block_def Let_def split: bind_splits)
  have "unmarked_kept ?s1 s2"
  proof (cases "has_curseg_space t ?s1")
    case True
    then show ?thesis using s2(1) by (simp add: unmarked_kept_same)
  next
    case False
    obtain c where "allocate_segment_by_default t False ?s1 = new_curseg t c ?s1" using allocate_segment_eq by blast
    then show ?thesis using s2(1) False new_curseg_kept by simp
  qed
  then show ?thesis using refresh_sit_entry_kept[OF s2(2)] 1 unmarked_kept_trans by blast
qed

lemma ckpt_ok_kept:
  assumes ok: "ckpt_ok s d" and inv: "seg_inv s'" and k: "unmarked_kept s s'" and m: "sm_main_segments s' = sm_main_segments s"
  shows "ckpt_ok s' d"
proof -
  have "synced s' d" using ok k m by (auto simp: ckpt_ok_def synced_def unmarked_kept_def)
  then show ?thesis using ok inv m by (auto simp: ckpt_ok_def seg_inv_def seg_base_def)
qed

subsection \<open>The whole checkpoint\<close>

lemma set_prefree_ok:
  assumes geo: "seg_geo s" and fr: "seg_free s"
  shows "free_frame s (set_prefree_as_free_segments s) \<and> seg_free (set_prefree_as_free_segments s)
    \<and> (\<forall>g \<in> segs s. sm_free_segmap (set_prefree_as_free_segments s) g \<longleftrightarrow> sm_free_segmap s g \<and> \<not> sm_dirty_segmap s PRE g)"
proof -
  have "let s' = foldl (\<lambda>s g. if sm_dirty_segmap s PRE g then set_test_and_free g s else s) s [0 ..< sm_main_segments s] in
      free_frame s s' \<and> seg_free s' \<and> (\<forall>g. sm_free_segmap s' g \<longleftrightarrow> sm_free_segmap s g \<and> \<not> (g < sm_main_segments s \<and> sm_dirty_segmap s PRE g))"
  proof (rule free_loop[where used = False])
    fix t g assume "seg_geo t" "seg_free t" "g < sm_main_segments t" "sm_free_segmap t g"
    then show "set_test_and_free g t = freed g t" by (rule set_test_and_free_eq)
  next
    fix t g assume "free_frame s t"
    then show "sm_dirty_segmap t PRE g = sm_dirty_segmap s PRE g" by (simp add: free_frameD)
  qed (use geo fr in \<open>simp_all add: set_test_and_free_def Let_def\<close>)
  then show ?thesis by (auto simp: set_prefree_as_free_segments_def Let_def)
qed

lemma flush_frame:
  assumes r: "flush_rel cpc s d cpc' s1 d'"
  shows "sm_curseg s1 = sm_curseg s" "sm_sum_pages s1 = sm_sum_pages s" "sm_segment_count s1 = sm_segment_count s"
    "sm_dirty_segmap s1 = sm_dirty_segmap s" "seg_free s1 = seg_free s" "se_type (sm_sentries s1 g) = se_type (sm_sentries s g)"
    "sm_written_valid_blocks s1 = sm_written_valid_blocks s" "seg_logs s1 = seg_logs s" "block_owner s1 = block_owner s"
proof -
  have s1: "s1 = s\<lparr>sm_sentries := sm_sentries s1, sm_dirty_sentries_bitmap := sm_dirty_sentries_bitmap s1, sm_dirty_sentries := sm_dirty_sentries s1\<rparr>"
    and se: "\<And>g. sm_sentries s1 g = (sm_sentries s g)\<lparr>se_ckpt_map := se_ckpt_map (sm_sentries s1 g),
          se_ckpt_valid_blocks := se_ckpt_valid_blocks (sm_sentries s1 g)\<rparr>"
    using r unfolding flush_rel_def by blast+
  show cs: "sm_curseg s1 = sm_curseg s" "sm_sum_pages s1 = sm_sum_pages s" "sm_segment_count s1 = sm_segment_count s"
    "sm_dirty_segmap s1 = sm_dirty_segmap s" "sm_written_valid_blocks s1 = sm_written_valid_blocks s"
    by (subst s1, simp)+
  show "seg_free s1 = seg_free s" unfolding seg_free_def section_of_def by (subst s1, simp)+
  show ty: "se_type (sm_sentries s1 g) = se_type (sm_sentries s g)" for g by (subst se) simp
  have "GET_ZONENO_FROM_SEGNO s1 = GET_ZONENO_FROM_SEGNO s" unfolding fun_eq_iff GET_ZONENO_FROM_SEGNO_def by (subst s1, simp)+
  then show "seg_logs s1 = seg_logs s" by (simp add: seg_logs_def cs ty flush_relD[OF r])
  have "summary_at s1 = summary_at s"
    by (intro ext) (simp only: summary_at_def get_sum_page_def cs same_geoD[OF flush_relD(2)[OF r]])
  then show "block_owner s1 = block_owner s"
    by (simp add: fun_eq_iff block_owner_def flush_relD(4)[OF r] same_geoD[OF flush_relD(2)[OF r]])
qed

text \<open>What the flush leaves, before the obsolete segments are freed.\<close>

lemma checkpoint_steps:
  assumes inv: "seg_inv s" and ok: "ckpt_ok s d" and trim: "cp_reason cpc = CP_DISCARD \<longrightarrow> trim_end cpc < sm_main_segments s"
  obtains cpc' s1 d' where "flush_sit_entries cpc s d = Some (cpc', set_prefree_as_free_segments s1, d')"
    "flush_rel cpc s d cpc' s1 d'" "ckpt_ok s1 d'" "dirty_set s1 = {}"
    "free_frame s1 (set_prefree_as_free_segments s1)" "seg_free (set_prefree_as_free_segments s1)"
    "\<forall>g \<in> segs s. sm_free_segmap (set_prefree_as_free_segments s1) g \<longleftrightarrow> sm_free_segmap s g \<and> \<not> sm_dirty_segmap s PRE g"
proof -
  obtain cpc' s1 d' where r: "flush_sit_entries cpc s d = Some (cpc', set_prefree_as_free_segments s1, d')"
    "flush_rel cpc s d cpc' s1 d'" "ckpt_ok s1 d'" "dirty_set s1 = {}"
    using flush_sit_entries_ok[OF ok, of cpc] trim by blast
  have "seg_geo s1" using r(3) by (simp add: ckpt_ok_def)
  moreover have "seg_free s1" using inv flush_frame(5)[OF r(2)] by (simp add: seg_inv_def seg_base_def)
  ultimately have "free_frame s1 (set_prefree_as_free_segments s1) \<and> seg_free (set_prefree_as_free_segments s1)
    \<and> (\<forall>g \<in> segs s1. sm_free_segmap (set_prefree_as_free_segments s1) g \<longleftrightarrow> sm_free_segmap s1 g \<and> \<not> sm_dirty_segmap s1 PRE g)"
    by (rule set_prefree_ok)
  then show ?thesis using that[OF r] by (simp add: flush_relD(1,7)[OF r(2)] flush_frame(4)[OF r(2)])
qed

lemma clean_bits:
  assumes "ckpt_ok s d" "dirty_set s = {}" "g < sm_main_segments s" "i < blocks_per_seg s"
  shows "cbit s g i = vbit s g i"
  using assms by (auto simp: ckpt_ok_def seg_sit_def entry_ok_def dirty_set_def)

text \<open>C38: The checkpoint of the segment information always goes through. Afterwards every entry is on the disk,
  in the journal or in the SIT block in use, as it is in the memory, and none is dirty; the blocks of
  the checkpoint are those valid now; the obsolete segments are free, with the counters of free segments
  and sections right; and only blocks that are not valid have been put on the list of discards.\<close>

theorem flush_sit_entries_checkpoint:
  assumes "seg_inv s" "ckpt_ok s d" "cp_reason cpc = CP_DISCARD \<longrightarrow> trim_end cpc < sm_main_segments s"
  shows "\<exists>cpc' s' d'. flush_sit_entries cpc s d = Some (cpc', s', d')
    \<and> (\<forall>g < sm_main_segments s. \<not> sm_dirty_sentries_bitmap s' g
         \<and> stored_sit_entry d' g = fst (seg_info_to_raw_sit (sm_sentries s g)))
    \<and> (\<forall>b. blk_valid s' b = blk_valid s b \<and> blk_ckpt_valid s' b = blk_valid s b)
    \<and> seg_free s' \<and> (\<forall>g < sm_main_segments s. sm_free_segmap s' g \<longleftrightarrow> sm_free_segmap s g \<and> \<not> sm_dirty_segmap s PRE g)
    \<and> (\<exists>new. discard_list d' = discard_list d @ new \<and> (\<forall>(b, len) \<in> set new. \<forall>k < len. \<not> blk_valid s (b + of_nat k)))"
proof -
  from checkpoint_steps[OF assms] obtain cpc' s1 d' where r: "flush_sit_entries cpc s d = Some (cpc', set_prefree_as_free_segments s1, d')"
    "flush_rel cpc s d cpc' s1 d'" "ckpt_ok s1 d'" "dirty_set s1 = {}"
    "free_frame s1 (set_prefree_as_free_segments s1)" "seg_free (set_prefree_as_free_segments s1)"
    "\<forall>g \<in> segs s. sm_free_segmap (set_prefree_as_free_segments s1) g \<longleftrightarrow> sm_free_segmap s g \<and> \<not> sm_dirty_segmap s PRE g" .
  let ?s = "set_prefree_as_free_segments s1"
  note fd = free_frameD[OF r(5)] and fl = flush_relD[OF r(2)] and ge = same_geoD[OF fd(6)] same_geoD[OF fl(2)]
  have geo: "seg_geo s" using assms(1) by (simp add: seg_inv_def seg_base_def)
  have cb: "cbit ?s = cbit s1" by (simp add: cbit_def fun_eq_iff fd)
  have "\<not> sm_dirty_sentries_bitmap ?s g \<and> stored_sit_entry d' g = fst (seg_info_to_raw_sit (sm_sentries s g))"
    if "g < sm_main_segments s" for g
  proof -
    have "\<not> sm_dirty_sentries_bitmap s1 g" using r(4) that by (auto simp: dirty_set_def fl(1))
    then show ?thesis using r(3) that by (simp add: fd ckpt_ok_def synced_def fl(1,6))
  qed
  moreover have "blk_valid ?s b = blk_valid s b \<and> blk_ckpt_valid ?s b = blk_valid s b" for b
    using clean_bits[OF r(3,4), of "GET_SEGNO s b" "GET_BLKOFF_FROM_SEG0 s b"] GET_BLKOFF_less[OF geo, of b]
    by (auto simp: blk_valid_def blk_ckpt_valid_def ge fd cb fl(3))
  ultimately show ?thesis using r(1,2,6,7) unfolding flush_rel_def by auto
qed


subsection \<open>An example\<close>

definition small_sit :: sit_store where
  "small_sit = \<lparr>sit_base_addr = 10, sit_blocks = 1, sit_bitmap = (\<lambda>_. 0),
     sit_pages = (\<lambda>_ i. fst (seg_info_to_raw_sit (sm_sentries small_fs i))), n_sits = 0, sit_j = (\<lambda>_. (0, \<lparr>raw_vblocks = 0, raw_valid_map = (\<lambda>_. 0), raw_mtime = 0\<rparr>)),
     opt_discard = True, discard_list = [], nr_discards = 0, max_discards = 100\<rparr>"

lemma small_sit_ok: "ckpt_ok small_fs small_sit"
proof -
  have j: "jset small_sit = {}" by (simp add: jset_def small_sit_def)
  have "sit_store_ok 8 small_sit"
    using j by (simp add: sit_store_ok_def) (simp add: small_sit_def SIT_BLOCK_OFFSET_def SIT_ENTRY_PER_BLOCK_def)
  moreover have "synced small_fs small_sit"
    unfolding synced_def
  proof (intro ballI impI)
    fix g assume "g \<in> segs small_fs"
    then have "SIT_ENTRY_OFFSET g = g" by (simp add: small_fs_def SIT_ENTRY_OFFSET_def SIT_ENTRY_PER_BLOCK_def)
    then show "stored_sit_entry small_sit g = fst (seg_info_to_raw_sit (sm_sentries small_fs g))"
      using stored_in_block[of g small_sit] j by (simp add: small_sit_def)
  qed
  moreover have "sm_main_segments small_fs = 8" by (simp add: small_fs_def)
  ultimately show ?thesis using small_fs_inv by (simp add: ckpt_ok_def seg_inv_def seg_base_def)
qed

text \<open>A file system with one block.\<close>

lemma one_block:
  obtains blk s where "seg_inv s" "ckpt_ok s small_sit" "sm_segment_count s = 16" "sm_main_segments s = 8"
    "block_owner s = [blk \<mapsto> \<lparr>sum_nid = 3, sum_ofs_in_node = 0, sum_version = 0\<rparr>]"
proof -
  let ?sm = "\<lparr>sum_nid = 3, sum_ofs_in_node = 0, sum_version = 0\<rparr>"
  have h: "CURSEG_WARM_DATA < NR_CURSEG_TYPE" "no_block NULL_ADDR \<or> blk_valid small_fs NULL_ADDR"
    by (simp_all add: seg_types no_block_def)
  obtain s where s: "allocate_data_block False NULL_ADDR ?sm CURSEG_WARM_DATA small_fs
        = Some (NEXT_FREE_BLKADDR small_fs (curseg CURSEG_WARM_DATA small_fs), None, s)" "seg_inv s" "same_geo small_fs s"
      "block_owner s = (block_owner small_fs)(NULL_ADDR := None, NEXT_FREE_BLKADDR small_fs (curseg CURSEG_WARM_DATA small_fs) \<mapsto> ?sm)"
    using allocate_data_block_all[OF small_fs_inv h small_fs_free, of False ?sm] by auto
  have k: "unmarked_kept small_fs s" by (rule allocate_data_block_kept[OF s(1)])
  have "\<not> vbit small_fs g i" for g i by (simp add: vbit_def small_fs_def f2fs_test_bit_def)
  then have e: "block_owner small_fs = (\<lambda>_. None)" by (simp add: block_owner_def blk_valid_def fun_eq_iff)
  have M: "sm_main_segments s = sm_main_segments small_fs" using s(3) by (simp add: same_geo_def)
  have "ckpt_ok s small_sit" by (rule ckpt_ok_kept[OF small_sit_ok s(2) k M])
  moreover have "sm_segment_count s = 16" "sm_main_segments s = 8" using k M by (simp_all add: unmarked_kept_def small_fs_def)
  moreover have "block_owner s = [NEXT_FREE_BLKADDR small_fs (curseg CURSEG_WARM_DATA small_fs) \<mapsto> ?sm]"
    using s(4) by (simp add: e)
  ultimately show ?thesis using that s(2) by blast
qed

lemma owners_of_logs:
  assumes inv: "seg_inv s" and own: "\<forall>b sm. block_owner s b = Some sm \<longrightarrow> sum_version sm = 0 \<and> sum_ofs_in_node sm = 0"
    and t: "t < NR_CURSEG_TYPE" and i: "i < blocks_per_seg s" "vbit s (cs_segno (curseg t s)) i"
  shows "sum_version (sum_entries (cs_sum_blk (curseg t s)) i) = 0 \<and> sum_ofs_in_node (sum_entries (cs_sum_blk (curseg t s)) i) = 0"
proof -
  let ?g = "cs_segno (curseg t s)"
  have geo: "seg_geo s" and logs: "seg_logs s" using inv by (auto simp: seg_inv_def seg_base_def)
  have g: "?g < sm_main_segments s" using logs t by (simp add: seg_logs_def)
  have "block_owner s (blk_at s ?g i) = Some (sum_entries (cs_sum_blk (curseg t s)) i)"
    using summary_at_cur[OF logs t refl, of i] blk_valid_blk_at[OF geo g i(1)] i geo g by (simp add: block_owner_def)
  then show ?thesis using own by blast
qed

theorem flush_sit_entries_checkpoint_witness:
  "\<exists>s blk cpc' s' d'. block_owner s blk \<noteq> None
    \<and> flush_sit_entries \<lparr>cp_reason = CP_DISCARD, trim_start = 0, trim_end = 7, trim_minlen = 1, trimmed = 0\<rparr> s small_sit = Some (cpc', s', d')
    \<and> blk_ckpt_valid s' blk \<and> (\<forall>g < 8. \<not> sm_dirty_sentries_bitmap s' g)"
proof -
  let ?cpc = "\<lparr>cp_reason = CP_DISCARD, trim_start = 0, trim_end = 7, trim_minlen = 1, trimmed = 0\<rparr>"
  obtain blk s where s: "seg_inv s" "ckpt_ok s small_sit" "sm_segment_count s = 16" "sm_main_segments s = 8"
    "block_owner s = [blk \<mapsto> \<lparr>sum_nid = 3, sum_ofs_in_node = 0, sum_version = 0\<rparr>]" by (rule one_block)
  have "cp_reason ?cpc = CP_DISCARD \<longrightarrow> trim_end ?cpc < sm_main_segments s" using s(4) by simp
  from flush_sit_entries_checkpoint[OF s(1,2) this] obtain cpc' s' d' where f: "flush_sit_entries ?cpc s small_sit = Some (cpc', s', d')"
      "\<forall>g < sm_main_segments s. \<not> sm_dirty_sentries_bitmap s' g \<and> stored_sit_entry d' g = fst (seg_info_to_raw_sit (sm_sentries s g))"
      "\<forall>b. blk_valid s' b = blk_valid s b \<and> blk_ckpt_valid s' b = blk_valid s b" by (elim exE conjE) (rule that)
  have "block_owner s blk \<noteq> None" using s(5) by simp
  moreover from this have "blk_valid s blk" by (auto simp: block_owner_def split: if_splits)
  ultimately show ?thesis using f s(4) by (intro exI[of _ s] exI[of _ blk] exI[of _ cpc'] exI[of _ s'] exI[of _ d']) simp
qed


end
